(* ===== verification/Prelude.thy ===== *)
theory Prelude
  imports Complex_Main "HOL-Library.Word"
begin

text \<open>
  Shared vocabulary of the development: the named collections, the error results of the model
  (a C++ \<open>throw\<close>, a failed \<open>assert\<close> or an undefined read is a value \<open>Inl\<close>), loops that can
  fail, the bit-for-bit types of the packet fields, and the generic list and map lemmas that the
  component theories share.
\<close>

unbundle bit_operations_syntax

named_theorems olsr_frame \<open>which fields an operation of the agent leaves unchanged\<close>
named_theorems tuple_simps \<open>contents of a tuple set after an operation\<close>
named_theorems route_simps \<open>contents of a routing table after an operation\<close>

subsection \<open>Types of the source\<close>

text \<open>
  \<open>simtime_t\<close> and \<open>double\<close> are read as exact real numbers; the fixed-width integers of packet
  fields and counters keep their width.
\<close>

type_synonym simtime = real
type_synonym u8 = "8 word"
type_synonym u16 = "16 word"

subsection \<open>Failing computations\<close>

text \<open>Every way the modelled code leaves a function other than by returning.\<close>

datatype fault =
    AssertionFailed            \<comment> \<open>a C \<open>assert\<close> that does not hold\<close>
  | DataBaseError              \<comment> \<open>\<open>cRuntimeError("OLSR Data base error")\<close>\<close>
  | UnknownStatus              \<comment> \<open>\<open>"There is a neighbor tuple with an unknown status!"\<close>\<close>
  | TimerQueueProblem          \<comment> \<open>\<open>"OLSR timer Queue problem"\<close>\<close>
  | EntryRouteError            \<comment> \<open>\<open>"error in entry route"\<close>\<close>
  | DistributionRouteError     \<comment> \<open>\<open>"error in distribution route"\<close>\<close>
  | BadAccess                  \<comment> \<open>a read the C++ language leaves undefined\<close>
  | Diverges                   \<comment> \<open>a loop of the source that does not end\<close>
  | NodeNotFound               \<comment> \<open>\<open>"node not found in routeMap"\<close>\<close>
  | RouteMapError              \<comment> \<open>\<open>"error in data routeMap"\<close>\<close>
  | BadOrder                   \<comment> \<open>an ordered container whose comparison is no strict weak order\<close>
  | AlreadyScheduled           \<comment> \<open>\<open>scheduleAt\<close> of a message that is scheduled\<close>
  | ScheduledInPast            \<comment> \<open>\<open>scheduleAt\<close> with a time before the present one\<close>
  | UndefinedEvent             \<comment> \<open>\<open>"Undefined event of type %d in MAC stat %i"\<close>\<close>
  | RadioSwitchError           \<comment> \<open>the three errors of \<open>Radio::setRadioMode\<close>\<close>
  | RadioBusy                  \<comment> \<open>\<open>"Received frame from upper layer while already transmitting."\<close>\<close>
  | SizeMismatch               \<comment> \<open>\<open>"size mismatch "\<close> of the source-route functions\<close>
  | CutError                   \<comment> \<open>\<open>"DSR src cut error "\<close>\<close>
  | EtxMismatch                \<comment> \<open>\<open>"Dsr error, Etx address and dsr are different"\<close>\<close>
  | NotDsrPacket               \<comment> \<open>\<open>"error in Packet, is not DSR "\<close>\<close>
  | RreqTableError             \<comment> \<open>\<open>"dsrRreqTbl"\<close>, \<open>"dsrRreqTbl entry already in the table"\<close>\<close>

definition bindE :: "'e + 'a \<Rightarrow> ('a \<Rightarrow> 'e + 'b) \<Rightarrow> 'e + 'b" where
  "bindE r f = (case r of Inl e \<Rightarrow> Inl e | Inr a \<Rightarrow> f a)"

lemma bindE_simps [simp]: "bindE (Inl e) f = Inl e" "bindE (Inr a) f = f a"
  by (simp_all add: bindE_def)

lemma bindE_Inr_iff: "bindE r f = Inr b \<longleftrightarrow> (\<exists>a. r = Inr a \<and> f a = Inr b)"
  by (cases r) auto

lemma bindE_InrE [elim]:
  assumes "bindE r f = Inr b"
  obtains a where "r = Inr a" "f a = Inr b"
  using assms by (auto simp: bindE_Inr_iff)

text \<open>A \<open>for\<close> loop over a vector whose body may leave with a fault.\<close>

fun foldE :: "('s \<Rightarrow> 'a \<Rightarrow> 'e + 's) \<Rightarrow> 'a list \<Rightarrow> 's \<Rightarrow> 'e + 's" where
  "foldE f [] s = Inr s"
| "foldE f (x # xs) s = bindE (f s x) (foldE f xs)"

lemma foldE_append: "foldE f (xs @ ys) s = bindE (foldE f xs s) (foldE f ys)"
proof (induction xs arbitrary: s)
  case (Cons x xs)
  then show ?case by (cases "f s x") auto
qed simp

lemma foldE_invariant:
  assumes "foldE f xs s = Inr s'" and "P s"
    and "\<And>t x t'. x \<in> set xs \<Longrightarrow> P t \<Longrightarrow> f t x = Inr t' \<Longrightarrow> P t'"
  shows "P s'"
  using assms
proof (induction xs arbitrary: s)
  case (Cons x xs)
  from Cons.prems(1) obtain t where t: "f s x = Inr t" "foldE f xs t = Inr s'"
    by (auto elim: bindE_InrE)
  have "P t" using Cons.prems(2,3) t(1) by auto
  then show ?case using Cons.IH [OF t(2)] Cons.prems(3) by auto
qed simp

lemma foldE_total:
  assumes "P s" and "\<And>t x. x \<in> set xs \<Longrightarrow> P t \<Longrightarrow> \<exists>t'. f t x = Inr t' \<and> P t'"
  shows "\<exists>s'. foldE f xs s = Inr s' \<and> P s'"
  using assms
proof (induction xs arbitrary: s)
  case (Cons x xs)
  then obtain t where "f s x = Inr t" "P t" by (metis list.set_intros(1))
  with Cons show ?case by simp
qed simp

lemma foldE_returns:
  assumes "\<And>t x. x \<in> set xs \<Longrightarrow> \<exists>t'. f t x = Inr t'"
  shows "\<exists>s'. foldE f xs s = Inr s'"
  using foldE_total [where P = "\<lambda>_. True" and f = f and xs = xs] assms by simp

lemma foldE_Inr: "(\<And>t x. f t x = Inr (g t x)) \<Longrightarrow> foldE f xs s = Inr (foldl g s xs)"
  by (induction xs arbitrary: s) auto

lemma foldl_invariant:
  assumes "P s" and "\<And>t x. x \<in> set xs \<Longrightarrow> P t \<Longrightarrow> P (f t x)"
  shows "P (foldl f s xs)"
  using assms by (induction xs arbitrary: s) auto

text \<open>\<open>v[i]\<close> of a vector, with a C index; outside the vector it is undefined.\<close>

definition vec_at :: "'a list \<Rightarrow> int \<Rightarrow> fault + 'a" where
  "vec_at xs i = (if 0 \<le> i \<and> i < int (length xs) then Inr (xs ! nat i) else Inl BadAccess)"

lemma vec_at_nat [simp]: "i < length xs \<Longrightarrow> vec_at xs (int i) = Inr (xs ! i)"
  by (simp add: vec_at_def)

lemma vec_at_ok [simp]: "0 \<le> i \<Longrightarrow> i < int (length xs) \<Longrightarrow> vec_at xs i = Inr (xs ! nat i)"
  by (simp add: vec_at_def)

lemma vec_at_out: "i < 0 \<or> int (length xs) \<le> i \<Longrightarrow> vec_at xs i = Inl BadAccess"
  by (auto simp: vec_at_def)

text \<open>\<open>v[i] = x\<close>\<close>

definition vec_set :: "'a list \<Rightarrow> int \<Rightarrow> 'a \<Rightarrow> fault + 'a list" where
  "vec_set xs i x = (if 0 \<le> i \<and> i < int (length xs) then Inr (xs[nat i := x]) else Inl BadAccess)"

text \<open>A loop that reads \<open>v[i]\<close> for the indices of a list and collects what it reads.\<close>

fun mapE :: "('a \<Rightarrow> 'e + 'b) \<Rightarrow> 'a list \<Rightarrow> 'e + 'b list" where
  "mapE f [] = Inr []"
| "mapE f (x # xs) = bindE (f x) (\<lambda>y. bindE (mapE f xs) (\<lambda>ys. Inr (y # ys)))"

lemma mapE_Inr: "(\<And>x. x \<in> set xs \<Longrightarrow> f x = Inr (g x)) \<Longrightarrow> mapE f xs = Inr (map g xs)"
  by (induction xs) auto

subsection \<open>Lists\<close>

lemma find_Some_in: "List.find P xs = Some x \<Longrightarrow> x \<in> set xs \<and> P x"
  by (auto simp: find_Some_iff)

lemma find_None_all: "List.find P xs = None \<longleftrightarrow> (\<forall>x\<in>set xs. \<not> P x)"
  by (auto simp: find_None_iff)

lemma distinct_map_filter [intro]: "distinct (map f xs) \<Longrightarrow> distinct (map f (filter P xs))"
  by (induction xs) auto

lemma distinct_key_eq:
  "distinct (map f xs) \<Longrightarrow> x \<in> set xs \<Longrightarrow> y \<in> set xs \<Longrightarrow> f x = f y \<Longrightarrow> x = y"
  by (auto simp: distinct_map dest: inj_onD)

lemma remove1_as_filter: "distinct xs \<Longrightarrow> remove1 x xs = filter (\<lambda>y. y \<noteq> x) xs"
  by (simp add: distinct_remove1_removeAll removeAll_filter_not_eq) (metis (no_types, lifting))

lemma distinct_map_remove1: "distinct (map f xs) \<Longrightarrow> distinct (map f (remove1 x xs))"
  by (induction xs) (auto dest: set_remove1_subset [THEN subsetD])

lemma filter_length_less:
  "x \<in> set xs \<Longrightarrow> \<not> P x \<Longrightarrow> length (filter P xs) < length xs"
  by (rule length_filter_less)

end
