(* ===== verification/Xmac_Types.thy ===== *)
theory Xmac_Types
  imports Prelude
begin

text \<open>
  The X-MAC layer (\<open>linklayer/xmac/AnyMacXmacLayer\<close>) and the radio under it
  (\<open>physicallayer/common/packetlevel/Radio\<close>): messages, parameters, the state of a node with its
  two modules, and the future events of the simulator.  A pending message is a triple of arrival
  time, scheduling priority and message; \<open>scheduleAt\<close> and \<open>send\<close> put it behind everything that is not
  later in this order.
\<close>

subsection \<open>Messages\<close>

type_synonym mac_addr = "64 word"
type_synonym u32 = "32 word"

definition BROADCAST_ADDRESS :: mac_addr where
  "BROADCAST_ADDRESS = 0xffffffffffff"

definition UNSPECIFIED_ADDRESS :: mac_addr where
  "UNSPECIFIED_ADDRESS = 0"

text \<open>\<open>enum TYPES\<close>\<close>

datatype xmac_type =
    XMAC_PREAMBLE | XMAC_DATA | XMAC_ACK
  | XMAC_RESEND_DATA | XMAC_ACK_TIMEOUT | XMAC_START_XMAC | XMAC_WAKE_UP | XMAC_SEND_ACK
  | XMAC_CCA_TIMEOUT | XMAC_ACK_TX_OVER | XMAC_SEND_PREAMBLE | XMAC_STOP_PREAMBLES
  | XMAC_DATA_TX_OVER | XMAC_DATA_TIMEOUT
  | XMAC_ACK2 | XMAC_SEND_ACK2 | XMAC_ACK2_TX_OVER | XMAC_PREAMBLE_TX_OVER | XMAC_CCA2_TIMEOUT

text \<open>
  \<open>XMacPkt\<close>.  The kind of a packet that waits in the queue is what the network layer gave it; only
  the copy that is sent gets the kind \<open>XMAC_DATA\<close>.  The network packet inside is a number.
\<close>

record xmac_pkt =
  srcAddr :: mac_addr
  destAddr :: mac_addr
  pkt_kind :: xmac_type
  bitLength :: int
  pkt_preambleCont :: int
  destinationAddress :: "mac_addr list"
  duration :: simtime
  hasBitError :: bool
  payload :: "nat option"

text \<open>The self messages of the MAC layer, one object each.\<close>

datatype xmac_timer =
    resend_data | ack_timeout | start_xmac | wakeup | send_ack | cca_timeout | ack_tx_over
  | send_preamble | stop_preambles | data_tx_over | preamble_tx_over | data_timeout | send_ack2
  | ack2_tx_over | cca2_timeout

text \<open>Their kinds (\<open>setKind\<close> in \<open>initialize\<close>).\<close>

fun timer_kind :: "xmac_timer \<Rightarrow> xmac_type" where
  "timer_kind wakeup = XMAC_WAKE_UP"
| "timer_kind data_timeout = XMAC_DATA_TIMEOUT"
| "timer_kind data_tx_over = XMAC_DATA_TX_OVER"
| "timer_kind stop_preambles = XMAC_STOP_PREAMBLES"
| "timer_kind send_preamble = XMAC_SEND_PREAMBLE"
| "timer_kind ack_tx_over = XMAC_ACK_TX_OVER"
| "timer_kind cca_timeout = XMAC_CCA_TIMEOUT"
| "timer_kind cca2_timeout = XMAC_CCA2_TIMEOUT"
| "timer_kind send_ack = XMAC_SEND_ACK"
| "timer_kind start_xmac = XMAC_START_XMAC"
| "timer_kind ack_timeout = XMAC_ACK_TIMEOUT"
| "timer_kind resend_data = XMAC_RESEND_DATA"
| "timer_kind send_ack2 = XMAC_SEND_ACK2"
| "timer_kind ack2_tx_over = XMAC_ACK2_TX_OVER"
| "timer_kind preamble_tx_over = XMAC_PREAMBLE_TX_OVER"

text \<open>
  What can be pending at a node: a self message of the MAC layer, a packet the MAC layer scheduled
  for itself, a packet on its way from the radio to the MAC layer or back, and the timers of the
  radio; a reception timer has a number and holds the received packet.
\<close>

datatype xmsg =
    MacTimer xmac_timer
  | MacSelfPkt xmac_pkt
  | ToMac xmac_pkt
  | ToRadio xmac_pkt
  | switchTimer
  | transmissionTimer
  | ReceptionTimer nat xmac_pkt

text \<open>\<open>setSchedulingPriority\<close> in \<open>initialize\<close>; every other message has priority 0.\<close>

fun schedulingPriority :: "xmsg \<Rightarrow> int" where
  "schedulingPriority (MacTimer t) =
     (if t \<in> {data_timeout, cca_timeout, cca2_timeout, resend_data} then 100 else 0)"
| "schedulingPriority _ = 0"

subsection \<open>Modes and states\<close>

datatype radio_mode =
    RADIO_MODE_OFF | RADIO_MODE_SLEEP | RADIO_MODE_RECEIVER | RADIO_MODE_TRANSMITTER
  | RADIO_MODE_TRANSCEIVER | RADIO_MODE_SWITCHING

datatype transmission_state =
    TRANSMISSION_STATE_UNDEFINED | TRANSMISSION_STATE_IDLE | TRANSMISSION_STATE_TRANSMITTING

datatype reception_state =
    RECEPTION_STATE_UNDEFINED | RECEPTION_STATE_IDLE | RECEPTION_STATE_BUSY
  | RECEPTION_STATE_RECEIVING

text \<open>\<open>enum States\<close>\<close>

datatype mac_state =
    INIT | SLEEP | CCA | SEND_PREAMBLE | WAIT_DATA | SEND_DATA | WAIT_TX_DATA_OVER | WAIT_ACK
  | SEND_ACK | WAIT_ACK_TX | SEND_ACK2 | WAIT_ACK2_TX | SEND_PREAMBLE_TX_END | WAIT_ACK2
  | SEND_DATA2 | CCA2 | CCA_LOST

subsection \<open>Parameters\<close>

text \<open>The parameters \<open>initialize\<close> reads, and the address of the interface.\<close>

record xmac_conf =
  address :: mac_addr
  queueLength :: real
  slotDuration :: simtime
  bitrate :: real
  headerLength :: real
  checkInterval :: simtime
  useMacAcks :: bool
  maxTxAttempts :: int
  addrSize :: int
  xmac :: bool
  useAck2 :: bool
  PreambleAddress :: bool

text \<open>
  What the node asks of the simulator: the numbers \<open>dblrand()\<close> returns, the matrix of the switching
  times of the radio, how long a packet takes on air, and whether the medium is busy.
\<close>

record xmac_env =
  dblrand :: "nat \<Rightarrow> real"
  switchingTimes :: "radio_mode \<Rightarrow> radio_mode \<Rightarrow> simtime"
  airTime :: "xmac_pkt \<Rightarrow> simtime"
  listening :: "simtime \<Rightarrow> bool"

subsection \<open>The state of a node\<close>

text \<open>
  First the MAC layer, then the radio, then what the simulator keeps.  \<open>transmissionState\<close> of the MAC
  layer is the member the constructor does not initialize and no function assigns.  The logs at the
  end record the packets handed to the network layer, dropped for a full queue, reported as broken
  link, and put on air.
\<close>

record xnode =
  macState :: mac_state
  prevMacState :: mac_state
  macQueue :: "xmac_pkt list"
  pendingPreambles :: "mac_addr set"
  preambleCont :: u32
  transmissionState :: transmission_state
  lastDataPktSrcAddr :: mac_addr
  lastDataPktDestAddr :: mac_addr
  destAddressNext :: mac_addr
  destDestAddrAck2 :: mac_addr
  txAttempts :: int
  nbTxDataPackets :: nat
  nbTxPreambles :: nat
  nbRxDataPackets :: nat
  nbRxPreambles :: nat
  nbMissedAcks :: nat
  nbRecvdAcks :: nat
  nbDroppedDataPackets :: nat
  nbTxAcks :: nat
  radioMode :: radio_mode
  nextRadioMode :: radio_mode
  previousRadioMode :: radio_mode
  receptionState :: reception_state
  radioTransmissionState :: transmission_state
  receptionTimer :: "nat option"
  simTime :: simtime
  fes :: "(simtime \<times> int \<times> xmsg) list"
  draws :: nat
  timers_made :: nat
  sentUp :: "(mac_addr \<times> nat option) list"
  droppedPkts :: "xmac_pkt list"
  linkBreaks :: "xmac_pkt list"
  onAir :: "xmac_pkt list"

subsection \<open>Actions\<close>

type_synonym action = "xnode \<Rightarrow> fault + xnode"

text \<open>A sequence of statements.\<close>

definition acts :: "action list \<Rightarrow> action" where
  "acts fs n = foldE (\<lambda>n f. f n) fs n"

lemma acts_simps [simp]: "acts [] n = Inr n" "acts (f # fs) n = bindE (f n) (acts fs)"
  by (simp_all add: acts_def fun_eq_iff) (simp add: acts_def [abs_def])

text \<open>The place of a message among the future events.\<close>

fun fes_insert :: "simtime \<Rightarrow> int \<Rightarrow> xmsg \<Rightarrow> (simtime \<times> int \<times> xmsg) list
    \<Rightarrow> (simtime \<times> int \<times> xmsg) list" where
  "fes_insert t p m [] = [(t, p, m)]"
| "fes_insert t p m ((u, q, k) # es) =
     (if t < u \<or> (t = u \<and> p < q) then (t, p, m) # (u, q, k) # es
      else (u, q, k) # fes_insert t p m es)"

definition isScheduled :: "xmsg \<Rightarrow> xnode \<Rightarrow> bool" where
  "isScheduled m n \<longleftrightarrow> m \<in> (\<lambda>(t, p, k). k) ` set (fes n)"

definition scheduleAt :: "simtime \<Rightarrow> xmsg \<Rightarrow> action" where
  "scheduleAt t m n =
     (if t < simTime n then Inl ScheduledInPast
      else if isScheduled m n then Inl AlreadyScheduled
      else Inr (n\<lparr>fes := fes_insert t (schedulingPriority m) m (fes n)\<rparr>))"

definition cancelEvent :: "xmsg \<Rightarrow> action" where
  "cancelEvent m n = Inr (n\<lparr>fes := filter (\<lambda>(t, p, k). k \<noteq> m) (fes n)\<rparr>)"

text \<open>\<open>getArrivalTime()\<close> of a scheduled message.\<close>

definition arrivalTime :: "xmsg \<Rightarrow> xnode \<Rightarrow> simtime" where
  "arrivalTime m n = (case List.find (\<lambda>(t, p, k). k = m) (fes n) of None \<Rightarrow> 0 | Some (t, p, k) \<Rightarrow> t)"

text \<open>\<open>send\<close> through a gate without delay.\<close>

definition send_msg :: "xmsg \<Rightarrow> action" where
  "send_msg m n = Inr (n\<lparr>fes := fes_insert (simTime n) 0 m (fes n)\<rparr>)"

text \<open>A statement that draws a number with \<open>dblrand()\<close>.\<close>

definition drawn :: "xmac_env \<Rightarrow> (real \<Rightarrow> action) \<Rightarrow> action" where
  "drawn e f n = f (dblrand e (draws n)) (n\<lparr>draws := draws n + 1\<rparr>)"

text \<open>A plain assignment.\<close>

definition assign :: "(xnode \<Rightarrow> xnode) \<Rightarrow> action" where
  "assign f n = Inr (f n)"

lemma assign_simps [simp]: "assign f n = Inr (f n)"
  by (simp add: assign_def)

text \<open>\<open>macState = s; prevMacState = p\<close>\<close>

definition enter :: "mac_state \<Rightarrow> mac_state \<Rightarrow> action" where
  "enter s p n = Inr (n\<lparr>macState := s, prevMacState := p\<rparr>)"

end
