(* ===== verification/Xmac_Radio.thy ===== *)
theory Xmac_Radio
  imports Xmac_Types
begin

text \<open>
  The radio (\<open>Radio.cc\<close>): switching between modes, transmitting and receiving, with the signals it
  emits; and what the MAC layer does with these signals (\<open>AnyMacXmacLayer::receiveSignal\<close>), which it
  gets in the middle of the call that changed the radio.  Transmissions and receptions are simulated
  as a whole (the separate parts are off by default); which receptions are attempted, and how long
  they take, is decided by the medium.
\<close>

subsection \<open>Signals\<close>

datatype radio_signal =
    radioModeChangedSignal radio_mode
  | transmissionStateChangedSignal transmission_state

text \<open>
  The MAC layer reads its own member \<open>transmissionState\<close> as the state before the change, but never
  assigns it.
\<close>

fun receiveSignal :: "radio_signal \<Rightarrow> action" where
  "receiveSignal (radioModeChangedSignal m) n =
     (if m = RADIO_MODE_TRANSMITTER
      then if macState n = WAIT_TX_DATA_OVER then scheduleAt (simTime n) (MacTimer data_tx_over) n
           else if macState n = WAIT_ACK_TX then scheduleAt (simTime n) (MacTimer ack_tx_over) n
           else if macState n = WAIT_ACK2_TX then scheduleAt (simTime n) (MacTimer ack2_tx_over) n
           else if macState n = SEND_PREAMBLE_TX_END
           then scheduleAt (simTime n) (MacTimer preamble_tx_over) n
           else Inr n
      else Inr n)"
| "receiveSignal (transmissionStateChangedSignal new) n =
     (if transmissionState n = TRANSMISSION_STATE_TRANSMITTING \<and> new = TRANSMISSION_STATE_IDLE
      then acts
        [\<lambda>n. if macState n = SEND_PREAMBLE then scheduleAt (simTime n) (MacTimer send_preamble) n
             else Inr n,
         \<lambda>n. if macState n = SEND_ACK2 then scheduleAt (simTime n) (MacTimer send_ack2) n
             else if macState n = SEND_ACK then scheduleAt (simTime n) (MacTimer send_ack) n
             else if macState n = SEND_DATA then scheduleAt (simTime n) (MacTimer resend_data) n
             else if macState n = SEND_DATA2 then scheduleAt (simTime n) (MacTimer resend_data) n
             else Inr n] n
      else Inr n)"

subsection \<open>The state of the transceiver\<close>

definition isReceiverMode :: "radio_mode \<Rightarrow> bool" where
  "isReceiverMode m \<longleftrightarrow> m = RADIO_MODE_RECEIVER \<or> m = RADIO_MODE_TRANSCEIVER"

definition isTransmitterMode :: "radio_mode \<Rightarrow> bool" where
  "isTransmitterMode m \<longleftrightarrow> m = RADIO_MODE_TRANSMITTER \<or> m = RADIO_MODE_TRANSCEIVER"

text \<open>\<open>receptionTimer && receptionTimer->isScheduled()\<close>\<close>

definition reception_pending :: "xnode \<Rightarrow> bool" where
  "reception_pending n \<longleftrightarrow> (case receptionTimer n of None \<Rightarrow> False
     | Some i \<Rightarrow> (\<exists>(t, p, k)\<in>set (fes n). case k of ReceptionTimer j f \<Rightarrow> j = i | _ \<Rightarrow> False))"

definition new_reception_state :: "xmac_env \<Rightarrow> xnode \<Rightarrow> reception_state" where
  "new_reception_state e n =
     (if radioMode n \<in> {RADIO_MODE_OFF, RADIO_MODE_SLEEP, RADIO_MODE_TRANSMITTER}
      then RECEPTION_STATE_UNDEFINED
      else if reception_pending n then RECEPTION_STATE_RECEIVING
      else if listening e (simTime n) then RECEPTION_STATE_BUSY
      else RECEPTION_STATE_IDLE)"

definition new_transmission_state :: "xnode \<Rightarrow> transmission_state" where
  "new_transmission_state n =
     (if radioMode n \<in> {RADIO_MODE_OFF, RADIO_MODE_SLEEP, RADIO_MODE_RECEIVER}
      then TRANSMISSION_STATE_UNDEFINED
      else if isScheduled transmissionTimer n then TRANSMISSION_STATE_TRANSMITTING
      else TRANSMISSION_STATE_IDLE)"

text \<open>The MAC layer is not subscribed to \<open>receptionStateChangedSignal\<close>.\<close>

definition updateTransceiverState :: "xmac_env \<Rightarrow> action" where
  "updateTransceiverState e n =
     (let n1 = n\<lparr>receptionState := new_reception_state e n\<rparr>; new = new_transmission_state n1
      in if radioTransmissionState n1 \<noteq> new
         then receiveSignal (transmissionStateChangedSignal new) (n1\<lparr>radioTransmissionState := new\<rparr>)
         else Inr n1)"

subsection \<open>Changing the mode\<close>

text \<open>The timer of an aborted reception stays pending and is ignored when it expires.\<close>

definition abortReception :: "xmac_env \<Rightarrow> action" where
  "abortReception e n = updateTransceiverState e (n\<lparr>receptionTimer := None\<rparr>)"

definition abortTransmission :: "xmac_env \<Rightarrow> action" where
  "abortTransmission e = acts [cancelEvent transmissionTimer, updateTransceiverState e]"

definition completeRadioModeSwitch :: "xmac_env \<Rightarrow> radio_mode \<Rightarrow> action" where
  "completeRadioModeSwitch e new = acts
     [\<lambda>n. if \<not> isReceiverMode new \<and> receptionTimer n \<noteq> None then abortReception e n else Inr n,
      \<lambda>n. if \<not> isTransmitterMode new \<and> isScheduled transmissionTimer n then abortTransmission e n
          else Inr n,
      assign (\<lambda>n. n\<lparr>radioMode := new, previousRadioMode := new, nextRadioMode := new\<rparr>),
      receiveSignal (radioModeChangedSignal new),
      updateTransceiverState e]"

definition startRadioModeSwitch :: "radio_mode \<Rightarrow> simtime \<Rightarrow> action" where
  "startRadioModeSwitch new switchingTime = acts
     [assign (\<lambda>n. n\<lparr>previousRadioMode := radioMode n, radioMode := RADIO_MODE_SWITCHING,
        nextRadioMode := new\<rparr>),
      receiveSignal (radioModeChangedSignal RADIO_MODE_SWITCHING),
      \<lambda>n. scheduleAt (simTime n + switchingTime) switchTimer n]"

definition setRadioMode :: "xmac_env \<Rightarrow> radio_mode \<Rightarrow> action" where
  "setRadioMode e new n =
     (if new = RADIO_MODE_SWITCHING then Inl RadioSwitchError
      else if radioMode n = RADIO_MODE_SWITCHING \<or> isScheduled switchTimer n
      then Inl RadioSwitchError
      else if new \<noteq> radioMode n \<and> new \<noteq> nextRadioMode n
      then let switchingTime = switchingTimes e (radioMode n) new
           in if switchingTime \<noteq> 0 then startRadioModeSwitch new switchingTime n
              else completeRadioModeSwitch e new n
      else Inr n)"

definition handleSwitchTimer :: "xmac_env \<Rightarrow> action" where
  "handleSwitchTimer e n = completeRadioModeSwitch e (nextRadioMode n) n"

subsection \<open>Transmitting\<close>

text \<open>The \<open>ASSERT\<close> is the one of \<open>createRadioFrame\<close>.\<close>

definition startTransmission :: "xmac_env \<Rightarrow> xmac_pkt \<Rightarrow> action" where
  "startTransmission e pkt n =
     (if airTime e pkt = 0 then Inl AssertionFailed
      else acts
        [assign (\<lambda>n. n\<lparr>onAir := onAir n @ [pkt]\<rparr>),
         scheduleAt (simTime n + airTime e pkt) transmissionTimer,
         updateTransceiverState e] n)"

definition endTransmission :: "xmac_env \<Rightarrow> action" where
  "endTransmission e = updateTransceiverState e"

text \<open>\<open>Radio::handleUpperPacket\<close>: outside the transmitter mode the packet is dropped.\<close>

definition radio_handleUpperPacket :: "xmac_env \<Rightarrow> xmac_pkt \<Rightarrow> action" where
  "radio_handleUpperPacket e pkt n =
     (if isTransmitterMode (radioMode n)
      then if isScheduled transmissionTimer n then Inl RadioBusy
           else startTransmission e pkt n
      else Inr n)"

subsection \<open>Receiving\<close>

text \<open>
  \<open>Radio::handleLowerPacket\<close> and \<open>startReception\<close>: the first bit of a packet arrives, whose reception
  takes time \<open>d\<close>; \<open>attempted\<close> is the answer of the medium.
\<close>

definition startReception :: "xmac_env \<Rightarrow> bool \<Rightarrow> simtime \<Rightarrow> xmac_pkt \<Rightarrow> action" where
  "startReception e attempted d pkt n =
     (let i = timers_made n in acts
        [assign (\<lambda>n. n\<lparr>timers_made := i + 1\<rparr>),
         assign (\<lambda>n. if isReceiverMode (radioMode n) \<and> attempted then n\<lparr>receptionTimer := Some i\<rparr> else n),
         scheduleAt (simTime n + d) (ReceptionTimer i pkt),
         updateTransceiverState e] n)"

text \<open>
  A reception that was attempted and not aborted is passed to the MAC layer, whether it succeeded
  or not.  The timer expires at the end of the arrival, which the third condition of the source tests.
\<close>

definition endReception :: "xmac_env \<Rightarrow> nat \<Rightarrow> xmac_pkt \<Rightarrow> action" where
  "endReception e i pkt = acts
     [\<lambda>n. if receptionTimer n = Some i \<and> isReceiverMode (radioMode n)
          then acts [send_msg (ToMac pkt), assign (\<lambda>n. n\<lparr>receptionTimer := None\<rparr>)] n
          else Inr n,
      updateTransceiverState e]"

end
