(* ===== verification/Xmac_Mac.thy ===== *)
theory Xmac_Mac
  imports Xmac_Radio
begin

text \<open>
  The MAC layer (\<open>AnyMacXmacLayer.cc\<close>): the packets it builds, its queue, and its state machine
  \<open>handleSelfMessage\<close>, one function per state.  A message is given by its kind and, when the
  \<open>dynamic_cast\<close> to \<open>XMacPkt\<close> succeeds, the packet.  The colours of the animation are left out.
\<close>

subsection \<open>Packets\<close>

text \<open>The conversion of a \<open>double\<close> to an integer.\<close>

definition trunc :: "real \<Rightarrow> int" where
  "trunc x = (if 0 \<le> x then \<lfloor>x\<rfloor> else \<lceil>x\<rceil>)"

definition new_pkt :: xmac_pkt where
  "new_pkt = \<lparr>srcAddr = UNSPECIFIED_ADDRESS, destAddr = UNSPECIFIED_ADDRESS, pkt_kind = XMAC_DATA,
     bitLength = 0, pkt_preambleCont = 0, destinationAddress = [], duration = 0,
     hasBitError = False, payload = None\<rparr>"

definition attachSignal :: "xmac_conf \<Rightarrow> xmac_pkt \<Rightarrow> xmac_pkt" where
  "attachSignal c pkt = pkt\<lparr>duration := of_int (bitLength pkt) / bitrate c\<rparr>"

text \<open>A packet of the network layer, with the destination its control info names.\<close>

record netw_pkt =
  ctl_dest :: mac_addr
  netw_kind :: xmac_type
  netw_bits :: int
  netw_data :: nat

definition encapsMsg :: "xmac_conf \<Rightarrow> netw_pkt \<Rightarrow> xmac_pkt" where
  "encapsMsg c m = new_pkt\<lparr>pkt_kind := netw_kind m, bitLength := trunc (headerLength c) + netw_bits m,
     destAddr := ctl_dest m, destinationAddress := [ctl_dest m], srcAddr := address c,
     payload := Some (netw_data m)\<rparr>"

text \<open>\<open>sendUp(decapsMsg(mac))\<close>: the packet inside, with the source as control info.\<close>

definition sendUp_decapsMsg :: "xmac_pkt \<Rightarrow> action" where
  "sendUp_decapsMsg pkt n = Inr (n\<lparr>sentUp := sentUp n @ [(srcAddr pkt, payload pkt)]\<rparr>)"

definition sendPreamble :: "xmac_conf \<Rightarrow> mac_addr list \<Rightarrow> action" where
  "sendPreamble c addr n =
     (let preamble = new_pkt\<lparr>srcAddr := address c, destAddr := BROADCAST_ADDRESS,
            pkt_kind := XMAC_PREAMBLE, pkt_preambleCont := sint (preambleCont n),
            destinationAddress := addr,
            bitLength := trunc (headerLength c + real_of_int (int (length addr) * addrSize c))\<rparr>
      in acts
        [assign (\<lambda>n. n\<lparr>preambleCont := preambleCont n + 1\<rparr>),
         send_msg (ToRadio (attachSignal c preamble)),
         assign (\<lambda>n. n\<lparr>nbTxPreambles := nbTxPreambles n + 1\<rparr>)] n)"

definition sendMacAck :: "xmac_conf \<Rightarrow> action" where
  "sendMacAck c n =
     (let ack = new_pkt\<lparr>srcAddr := address c, destAddr := lastDataPktSrcAddr n, pkt_kind := XMAC_ACK,
            bitLength := trunc (headerLength c)\<rparr>
      in acts
        [send_msg (ToRadio (attachSignal c ack)),
         assign (\<lambda>n. n\<lparr>nbTxAcks := nbTxAcks n + 1\<rparr>)] n)"

definition sendMacAck2 :: "xmac_conf \<Rightarrow> mac_addr \<Rightarrow> action" where
  "sendMacAck2 c addr n =
     (let ack = new_pkt\<lparr>srcAddr := address c, destAddr := addr, pkt_kind := XMAC_ACK2,
            bitLength := trunc (headerLength c)\<rparr>
      in acts
        [send_msg (ToRadio (attachSignal c ack)),
         assign (\<lambda>n. n\<lparr>nbTxAcks := nbTxAcks n + 1\<rparr>)] n)"

text \<open>Both versions of \<open>sendDataPacket\<close>; neither uses an address that is passed to it.\<close>

definition sendDataPacket :: "xmac_conf \<Rightarrow> action" where
  "sendDataPacket c n =
     (case macQueue n of
        [] \<Rightarrow> Inl BadAccess
      | first # _ \<Rightarrow>
          let pkt = attachSignal c first in acts
            [assign (\<lambda>n. n\<lparr>nbTxDataPackets := nbTxDataPackets n + 1\<rparr>),
             assign (\<lambda>n. n\<lparr>lastDataPktDestAddr := destAddr pkt\<rparr>),
             send_msg (ToRadio (pkt\<lparr>pkt_kind := XMAC_DATA\<rparr>))] n)"

subsection \<open>The queue\<close>

text \<open>The flag is the result of \<open>addToQueue\<close>.\<close>

definition addToQueue :: "xmac_conf \<Rightarrow> netw_pkt \<Rightarrow> xnode \<Rightarrow> bool \<times> xnode" where
  "addToQueue c m n =
     (if queueLength c \<le> real (length (macQueue n))
      then (False, n\<lparr>droppedPkts := droppedPkts n @ [encapsMsg c m],
              nbDroppedDataPackets := nbDroppedDataPackets n + 1\<rparr>)
      else (True, n\<lparr>macQueue := macQueue n @ [encapsMsg c m]\<rparr>))"

text \<open>\<open>0.1f\<close>: a tenth in single precision.\<close>

definition tenth_f :: real where
  "tenth_f = 13421773 / 134217728"

definition handleUpperPacket :: "xmac_env \<Rightarrow> xmac_conf \<Rightarrow> netw_pkt \<Rightarrow> action" where
  "handleUpperPacket e c m n =
     (let (added, n1) = addToQueue c m n
      in if \<not> added then Inr n1
         else if isScheduled (MacTimer wakeup) n1 \<and> macState n1 = SLEEP
         then acts
           [cancelEvent (MacTimer wakeup),
            drawn e (\<lambda>r n. scheduleAt (simTime n + r * tenth_f) (MacTimer wakeup) n)] n1
         else Inr n1)"

definition pop_queue :: action where
  "pop_queue n = (case macQueue n of [] \<Rightarrow> Inl BadAccess
     | first # rest \<Rightarrow> Inr (n\<lparr>macQueue := rest, preambleCont := 0\<rparr>))"

subsection \<open>Going to sleep\<close>

definition after :: "simtime \<Rightarrow> xmac_timer \<Rightarrow> action" where
  "after d t n = scheduleAt (simTime n + d) (MacTimer t) n"

text \<open>"if something in the queue, wakeup soon."\<close>

definition wakeup_soon :: "xmac_env \<Rightarrow> xmac_conf \<Rightarrow> action" where
  "wakeup_soon e c n =
     (if macQueue n \<noteq> [] then drawn e (\<lambda>r. after (r * checkInterval c) wakeup) n
      else after (slotDuration c) wakeup n)"

definition go_to_sleep :: "xmac_env \<Rightarrow> mac_state \<Rightarrow> action" where
  "go_to_sleep e p = acts [enter SLEEP p, setRadioMode e RADIO_MODE_SLEEP]"

text \<open>\<open>inList\<close>: the preamble lists the address of the node.\<close>

definition inList :: "xmac_conf \<Rightarrow> xmac_pkt \<Rightarrow> bool" where
  "inList c pkt \<longleftrightarrow> address c \<in> set (destinationAddress pkt)"

text \<open>The pointer to the packet of a message that is none is dereferenced.\<close>

definition with_pkt :: "xmac_pkt option \<Rightarrow> (xmac_pkt \<Rightarrow> action) \<Rightarrow> action" where
  "with_pkt p f n = (case p of None \<Rightarrow> Inl BadAccess | Some pkt \<Rightarrow> f pkt n)"

subsection \<open>The states\<close>

definition in_INIT :: "xmac_env \<Rightarrow> xmac_conf \<Rightarrow> xmac_type \<Rightarrow> action" where
  "in_INIT e c k n =
     (if k = XMAC_START_XMAC
      then acts
        [setRadioMode e RADIO_MODE_SLEEP,
         assign (\<lambda>n. n\<lparr>macState := SLEEP\<rparr>),
         drawn e (\<lambda>r. after (r * slotDuration c) wakeup)] n
      else Inl UndefinedEvent)"

definition in_SLEEP :: "xmac_env \<Rightarrow> xmac_conf \<Rightarrow> xmac_type \<Rightarrow> action" where
  "in_SLEEP e c k n =
     (if k = XMAC_WAKE_UP
      then acts
        [after (checkInterval c) cca_timeout,
         setRadioMode e RADIO_MODE_RECEIVER,
         assign (\<lambda>n. n\<lparr>macState := CCA, pendingPreambles := {}, prevMacState := SLEEP,
           destAddressNext := UNSPECIFIED_ADDRESS, destDestAddrAck2 := UNSPECIFIED_ADDRESS\<rparr>)] n
      else Inl UndefinedEvent)"

text \<open>
  A preamble in \<open>CCA\<close>.  The second branch of the source, for messages that are no \<open>XMacPkt\<close>,
  dereferences the null pointer.
\<close>

definition cca_preamble :: "xmac_env \<Rightarrow> xmac_conf \<Rightarrow> xmac_pkt option \<Rightarrow> action" where
  "cca_preamble e c p = acts
     [assign (\<lambda>n. n\<lparr>nbRxPreambles := nbRxPreambles n + 1\<rparr>),
      with_pkt p (\<lambda>pkt.
        if xmac c
        then acts
          [cancelEvent (MacTimer cca_timeout),
           if inList c pkt
           then acts [enter SEND_ACK2 CCA, setRadioMode e RADIO_MODE_TRANSMITTER]
           else acts [after (slotDuration c) wakeup, go_to_sleep e CCA]]
        else if inList c pkt
        then acts
          [enter CCA2 CCA,
           drawn e (\<lambda>r. after (slotDuration c * 0.1 * r) cca2_timeout),
           assign (\<lambda>n. n\<lparr>destDestAddrAck2 := srcAddr pkt\<rparr>),
           cancelEvent (MacTimer cca_timeout)]
        else enter CCA_LOST CCA)]"

text \<open>
  \<open>scheduleAt(simTime(), msg)\<close> of a data packet that arrives too early; the message is being handled,
  so it is not scheduled.
\<close>

definition data_to_wait :: "xmac_conf \<Rightarrow> mac_state \<Rightarrow> xmac_pkt option \<Rightarrow> action" where
  "data_to_wait c s p = acts
     [assign (\<lambda>n. n\<lparr>nbRxDataPackets := nbRxDataPackets n + 1\<rparr>),
      enter WAIT_DATA s,
      cancelEvent (MacTimer cca_timeout),
      after (slotDuration c + checkInterval c) data_timeout,
      with_pkt p (\<lambda>pkt. send_msg (MacSelfPkt pkt))]"

definition in_CCA :: "xmac_env \<Rightarrow> xmac_conf \<Rightarrow> xmac_type \<Rightarrow> xmac_pkt option \<Rightarrow> action" where
  "in_CCA e c k p n =
     (if k = XMAC_CCA_TIMEOUT
      then if macQueue n = []
        then acts
          [if prevMacState n = WAIT_DATA then after (slotDuration c - checkInterval c) wakeup
           else after (slotDuration c) wakeup,
           go_to_sleep e CCA] n
        else if prevMacState n \<noteq> WAIT_DATA
        then acts
          [setRadioMode e RADIO_MODE_TRANSMITTER,
           enter SEND_PREAMBLE CCA,
           after (slotDuration c) stop_preambles] n
        else acts
          [assign (\<lambda>n. n\<lparr>prevMacState := CCA\<rparr>),
           drawn e (\<lambda>r. after (checkInterval c * r * 0.5) cca_timeout)] n
      else if k = XMAC_PREAMBLE then cca_preamble e c p n
      else if k = XMAC_DATA then data_to_wait c CCA p n
      else if k = XMAC_ACK then Inr n
      else if k = XMAC_ACK2 then enter CCA_LOST CCA n
      else Inl UndefinedEvent)"

definition in_CCA_LOST :: "xmac_env \<Rightarrow> xmac_conf \<Rightarrow> xmac_type \<Rightarrow> xmac_pkt option \<Rightarrow> action" where
  "in_CCA_LOST e c k p n =
     (if k = XMAC_CCA_TIMEOUT
      then acts [after (slotDuration c) wakeup, go_to_sleep e CCA_LOST] n
      else if k = XMAC_PREAMBLE
      then acts
        [assign (\<lambda>n. n\<lparr>nbRxPreambles := nbRxPreambles n + 1\<rparr>),
         with_pkt p (\<lambda>pkt. if inList c pkt
           then acts
             [enter CCA2 CCA_LOST,
              drawn e (\<lambda>r. after (slotDuration c * 0.1 * r) cca2_timeout),
              assign (\<lambda>n. n\<lparr>destDestAddrAck2 := srcAddr pkt\<rparr>),
              cancelEvent (MacTimer cca_timeout)]
           else Inr)] n
      else if k = XMAC_DATA then data_to_wait c CCA_LOST p n
      else if k = XMAC_ACK \<or> k = XMAC_ACK2 then Inr n
      else Inl UndefinedEvent)"

definition in_CCA2 :: "xmac_env \<Rightarrow> xmac_conf \<Rightarrow> xmac_type \<Rightarrow> xmac_pkt option \<Rightarrow> action" where
  "in_CCA2 e c k p n =
     (if k = XMAC_CCA2_TIMEOUT
      then acts
        [enter SEND_ACK2 CCA2,
         cancelEvent (MacTimer data_timeout),
         setRadioMode e RADIO_MODE_TRANSMITTER] n
      else if k = XMAC_ACK2
      then with_pkt p (\<lambda>pkt n. if destAddr pkt = destDestAddrAck2 n
        then acts
          [after (slotDuration c) wakeup,
           cancelEvent (MacTimer cca2_timeout),
           cancelEvent (MacTimer data_timeout),
           setRadioMode e RADIO_MODE_SLEEP,
           enter SLEEP CCA2] n
        else Inr n) n
      else if k = XMAC_PREAMBLE then Inr n
      else if k = XMAC_DATA
      then acts
        [assign (\<lambda>n. n\<lparr>nbRxDataPackets := nbRxDataPackets n + 1\<rparr>),
         cancelEvent (MacTimer cca2_timeout),
         \<lambda>n. if \<not> isScheduled (MacTimer data_timeout) n
             then after (slotDuration c + checkInterval c) data_timeout n else Inr n,
         with_pkt p (\<lambda>pkt. send_msg (MacSelfPkt pkt)),
         enter WAIT_DATA CCA2] n
      else if k = XMAC_ACK then Inr n
      else if k = XMAC_DATA_TIMEOUT
      then acts
        [wakeup_soon e c,
         cancelEvent (MacTimer cca2_timeout),
         cancelEvent (MacTimer data_timeout),
         go_to_sleep e CCA2] n
      else Inl UndefinedEvent)"

definition in_SEND_PREAMBLE :: "xmac_conf \<Rightarrow> xmac_type \<Rightarrow> action" where
  "in_SEND_PREAMBLE c k n =
     (if k = XMAC_SEND_PREAMBLE
      then case macQueue n of
          [] \<Rightarrow> Inl BadAccess
        | pkt # _ \<Rightarrow> acts
            [sendPreamble c (destinationAddress pkt),
             after (0.5 * checkInterval c) ack_timeout,
             enter SEND_PREAMBLE_TX_END SEND_PREAMBLE] n
      else if k = XMAC_STOP_PREAMBLES
      then acts [enter SEND_DATA SEND_PREAMBLE, assign (\<lambda>n. n\<lparr>txAttempts := 1\<rparr>)] n
      else Inl UndefinedEvent)"

definition in_SEND_PREAMBLE_TX_END :: "xmac_env \<Rightarrow> xmac_type \<Rightarrow> action" where
  "in_SEND_PREAMBLE_TX_END e k n =
     (if k = XMAC_PREAMBLE_TX_OVER
      then acts [enter WAIT_ACK2 SEND_PREAMBLE_TX_END, setRadioMode e RADIO_MODE_RECEIVER] n
      else Inl UndefinedEvent)"

text \<open>\<open>SEND_DATA\<close> and \<open>SEND_DATA2\<close>\<close>

definition in_SEND_DATA :: "xmac_conf \<Rightarrow> mac_state \<Rightarrow> xmac_type \<Rightarrow> action" where
  "in_SEND_DATA c s k n =
     (if k = XMAC_SEND_PREAMBLE \<or> k = XMAC_RESEND_DATA
      then acts [sendDataPacket c, enter WAIT_TX_DATA_OVER s] n
      else Inl UndefinedEvent)"

definition in_WAIT_TX_DATA_OVER :: "xmac_env \<Rightarrow> xmac_conf \<Rightarrow> xmac_type \<Rightarrow> action" where
  "in_WAIT_TX_DATA_OVER e c k n =
     (if k = XMAC_DATA_TX_OVER
      then if useMacAcks c \<and> lastDataPktDestAddr n \<noteq> BROADCAST_ADDRESS
        then acts
          [enter WAIT_ACK WAIT_TX_DATA_OVER,
           setRadioMode e RADIO_MODE_RECEIVER,
           after (checkInterval c) ack_timeout] n
        else acts [pop_queue, wakeup_soon e c, go_to_sleep e WAIT_TX_DATA_OVER] n
      else Inl UndefinedEvent)"

definition in_WAIT_ACK :: "xmac_env \<Rightarrow> xmac_conf \<Rightarrow> xmac_type \<Rightarrow> xmac_pkt option \<Rightarrow> action" where
  "in_WAIT_ACK e c k p n =
     (if k = XMAC_ACK_TIMEOUT
      then if txAttempts n < maxTxAttempts c
        then acts
          [assign (\<lambda>n. n\<lparr>txAttempts := txAttempts n + 1\<rparr>),
           enter SEND_PREAMBLE WAIT_ACK,
           after (slotDuration c) stop_preambles,
           setRadioMode e RADIO_MODE_TRANSMITTER] n
        else acts
          [assign (\<lambda>n. n\<lparr>linkBreaks := linkBreaks n @ take 1 (macQueue n)\<rparr>),
           pop_queue, wakeup_soon e c, go_to_sleep e WAIT_ACK,
           assign (\<lambda>n. n\<lparr>nbMissedAcks := nbMissedAcks n + 1\<rparr>)] n
      else if k = XMAC_DATA \<or> k = XMAC_PREAMBLE \<or> k = XMAC_ACK2 then Inr n
      else if k = XMAC_ACK
      then with_pkt p (\<lambda>pkt n. if srcAddr pkt = lastDataPktDestAddr n
        then acts
          [assign (\<lambda>n. n\<lparr>nbRecvdAcks := nbRecvdAcks n + 1\<rparr>),
           cancelEvent (MacTimer ack_timeout),
           pop_queue, wakeup_soon e c, go_to_sleep e WAIT_ACK,
           assign (\<lambda>n. n\<lparr>lastDataPktDestAddr := BROADCAST_ADDRESS\<rparr>)] n
        else Inr n) n
      else Inl UndefinedEvent)"

text \<open>A data packet in \<open>WAIT_DATA\<close>.\<close>

definition wait_data_data :: "xmac_env \<Rightarrow> xmac_conf \<Rightarrow> xmac_pkt \<Rightarrow> action" where
  "wait_data_data e c pkt =
     (let dest = destAddr pkt; src = srcAddr pkt in acts
       [assign (\<lambda>n. n\<lparr>nbRxDataPackets := nbRxDataPackets n + 1,
          pendingPreambles := pendingPreambles n - {src}\<rparr>),
        if dest = address c \<or> dest = BROADCAST_ADDRESS then sendUp_decapsMsg pkt else Inr,
        cancelEvent (MacTimer data_timeout),
        if useMacAcks c \<and> dest = address c
        then acts
          [enter SEND_ACK WAIT_DATA,
           assign (\<lambda>n. n\<lparr>lastDataPktSrcAddr := src\<rparr>),
           setRadioMode e RADIO_MODE_TRANSMITTER]
        else (\<lambda>n. if dest \<noteq> BROADCAST_ADDRESS \<and> pendingPreambles n = {}
          then acts [wakeup_soon e c, go_to_sleep e WAIT_DATA] n
          else acts
            [after (checkInterval c) cca_timeout,
             enter CCA WAIT_DATA,
             assign (\<lambda>n. n\<lparr>destAddressNext := UNSPECIFIED_ADDRESS,
               destDestAddrAck2 := UNSPECIFIED_ADDRESS\<rparr>)] n)])"

definition in_WAIT_DATA :: "xmac_env \<Rightarrow> xmac_conf \<Rightarrow> xmac_type \<Rightarrow> xmac_pkt option \<Rightarrow> action" where
  "in_WAIT_DATA e c k p n =
     (if k = XMAC_PREAMBLE
      then acts
        [assign (\<lambda>n. n\<lparr>nbRxPreambles := nbRxPreambles n + 1\<rparr>),
         \<lambda>n. case p of None \<Rightarrow> Inr n | Some pkt \<Rightarrow>
           if inList c pkt
           then drawn e (\<lambda>r n. let delay = slotDuration c * 0.1 * r
             in if isScheduled (MacTimer data_timeout) n
                   \<and> delay < arrivalTime (MacTimer data_timeout) n - simTime n
                then acts
                  [enter CCA2 WAIT_DATA,
                   after delay cca2_timeout,
                   assign (\<lambda>n. n\<lparr>destDestAddrAck2 := srcAddr pkt\<rparr>)] n
                else Inr n) n
           else Inr n] n
      else if k = XMAC_ACK \<or> k = XMAC_ACK2 then Inr n
      else if k = XMAC_DATA then with_pkt p (wait_data_data e c) n
      else if k = XMAC_DATA_TIMEOUT
      then acts [wakeup_soon e c, go_to_sleep e WAIT_DATA] n
      else Inl UndefinedEvent)"

definition in_SEND_ACK :: "xmac_conf \<Rightarrow> xmac_type \<Rightarrow> action" where
  "in_SEND_ACK c k n =
     (if k = XMAC_SEND_ACK then acts [sendMacAck c, enter WAIT_ACK_TX SEND_ACK] n
      else Inl UndefinedEvent)"

definition in_WAIT_ACK_TX :: "xmac_env \<Rightarrow> xmac_conf \<Rightarrow> xmac_type \<Rightarrow> action" where
  "in_WAIT_ACK_TX e c k n =
     (if k = XMAC_ACK_TX_OVER
      then acts
        [wakeup_soon e c, go_to_sleep e WAIT_ACK_TX,
         assign (\<lambda>n. n\<lparr>lastDataPktSrcAddr := BROADCAST_ADDRESS\<rparr>)] n
      else Inl UndefinedEvent)"

definition in_SEND_ACK2 :: "xmac_conf \<Rightarrow> xmac_type \<Rightarrow> action" where
  "in_SEND_ACK2 c k n =
     (if k = XMAC_SEND_ACK2
      then acts [\<lambda>n. sendMacAck2 c (destDestAddrAck2 n) n, enter WAIT_ACK2_TX SEND_ACK2] n
      else Inl UndefinedEvent)"

definition in_WAIT_ACK2_TX :: "xmac_env \<Rightarrow> xmac_conf \<Rightarrow> xmac_type \<Rightarrow> action" where
  "in_WAIT_ACK2_TX e c k n =
     (if k = XMAC_ACK2_TX_OVER
      then acts
        [enter WAIT_DATA WAIT_ACK2_TX,
         setRadioMode e RADIO_MODE_RECEIVER,
         \<lambda>n. if \<not> isScheduled (MacTimer data_timeout) n
             then after (slotDuration c + checkInterval c) data_timeout n else Inr n] n
      else Inl UndefinedEvent)"

text \<open>A preamble in \<open>WAIT_ACK2\<close>: another sender, which started earlier, has won.\<close>

definition wait_ack2_preamble :: "xmac_env \<Rightarrow> xmac_conf \<Rightarrow> xmac_pkt \<Rightarrow> action" where
  "wait_ack2_preamble e c pkt n =
     (if sint (preambleCont n) < pkt_preambleCont pkt
      then acts
        [cancelEvent (MacTimer ack_timeout),
         cancelEvent (MacTimer stop_preambles),
         if destAddr pkt \<noteq> BROADCAST_ADDRESS \<and> destAddr pkt \<noteq> address c
         then enter CCA_LOST WAIT_ACK2
         else if destAddr pkt = address c
         then acts
           [enter SEND_ACK2 WAIT_ACK2,
            cancelEvent (MacTimer data_timeout),
            setRadioMode e RADIO_MODE_TRANSMITTER]
         else acts
           [assign (\<lambda>n. n\<lparr>macState := WAIT_DATA\<rparr>),
            cancelEvent (MacTimer cca_timeout),
            after (slotDuration c + checkInterval c) data_timeout,
            assign (\<lambda>n. n\<lparr>prevMacState := WAIT_ACK2\<rparr>)]] n
      else Inr n)"

definition in_WAIT_ACK2 :: "xmac_env \<Rightarrow> xmac_conf \<Rightarrow> xmac_type \<Rightarrow> xmac_pkt option \<Rightarrow> action" where
  "in_WAIT_ACK2 e c k p n =
     (if k = XMAC_ACK_TIMEOUT
      then acts [enter SEND_PREAMBLE WAIT_ACK2, setRadioMode e RADIO_MODE_TRANSMITTER] n
      else if k = XMAC_STOP_PREAMBLES
      then acts
        [setRadioMode e RADIO_MODE_TRANSMITTER,
         cancelEvent (MacTimer ack_timeout),
         enter SEND_DATA WAIT_ACK2,
         assign (\<lambda>n. n\<lparr>txAttempts := 1\<rparr>)] n
      else if k = XMAC_PREAMBLE then with_pkt p (wait_ack2_preamble e c) n
      else if k = XMAC_DATA \<or> k = XMAC_ACK then Inr n
      else if k = XMAC_ACK2
      then with_pkt p (\<lambda>pkt n. if destAddr pkt \<noteq> address c then Inr n
        else acts
          [cancelEvent (MacTimer ack_timeout),
           cancelEvent (MacTimer stop_preambles),
           assign (\<lambda>n. n\<lparr>destAddressNext := srcAddr pkt\<rparr>),
           setRadioMode e RADIO_MODE_TRANSMITTER,
           enter SEND_DATA2 WAIT_ACK2] n) n
      else Inl UndefinedEvent)"

subsection \<open>The state machine\<close>

text \<open>
  The first lines note the sender of a preamble for everyone or for this node; then the state
  decides.
\<close>

definition note_preamble :: "xmac_conf \<Rightarrow> xmac_type \<Rightarrow> xmac_pkt option \<Rightarrow> action" where
  "note_preamble c k p n =
     (if k = XMAC_PREAMBLE \<and> radioMode n = RADIO_MODE_RECEIVER
      then with_pkt p (\<lambda>pkt n.
        if destAddr pkt = BROADCAST_ADDRESS \<or> destAddr pkt = address c
        then Inr (n\<lparr>pendingPreambles := insert (srcAddr pkt) (pendingPreambles n)\<rparr>) else Inr n) n
      else Inr n)"

definition in_state :: "xmac_env \<Rightarrow> xmac_conf \<Rightarrow> xmac_type \<Rightarrow> xmac_pkt option \<Rightarrow> action" where
  "in_state e c k p n =
     (case macState n of
        INIT \<Rightarrow> in_INIT e c k n
      | SLEEP \<Rightarrow> in_SLEEP e c k n
      | CCA \<Rightarrow> in_CCA e c k p n
      | CCA_LOST \<Rightarrow> in_CCA_LOST e c k p n
      | CCA2 \<Rightarrow> in_CCA2 e c k p n
      | SEND_PREAMBLE \<Rightarrow> in_SEND_PREAMBLE c k n
      | SEND_PREAMBLE_TX_END \<Rightarrow> in_SEND_PREAMBLE_TX_END e k n
      | SEND_DATA \<Rightarrow> in_SEND_DATA c SEND_DATA k n
      | SEND_DATA2 \<Rightarrow> in_SEND_DATA c SEND_DATA2 k n
      | WAIT_TX_DATA_OVER \<Rightarrow> in_WAIT_TX_DATA_OVER e c k n
      | WAIT_ACK \<Rightarrow> in_WAIT_ACK e c k p n
      | WAIT_DATA \<Rightarrow> in_WAIT_DATA e c k p n
      | SEND_ACK \<Rightarrow> in_SEND_ACK c k n
      | WAIT_ACK_TX \<Rightarrow> in_WAIT_ACK_TX e c k n
      | SEND_ACK2 \<Rightarrow> in_SEND_ACK2 c k n
      | WAIT_ACK2_TX \<Rightarrow> in_WAIT_ACK2_TX e c k n
      | WAIT_ACK2 \<Rightarrow> in_WAIT_ACK2 e c k p n)"

definition handleSelfMessage :: "xmac_env \<Rightarrow> xmac_conf \<Rightarrow> xmac_type \<Rightarrow> xmac_pkt option \<Rightarrow> action" where
  "handleSelfMessage e c k p = acts [note_preamble c k p, in_state e c k p]"

definition handleLowerPacket :: "xmac_env \<Rightarrow> xmac_conf \<Rightarrow> xmac_pkt \<Rightarrow> action" where
  "handleLowerPacket e c pkt n =
     (if hasBitError pkt then Inr n else handleSelfMessage e c (pkt_kind pkt) (Some pkt) n)"

end
