(* ===== verification/Xmac_Node.thy ===== *)
theory Xmac_Node
  imports Xmac_Mac
begin

text \<open>
  A node: the MAC layer on top of its radio.  The simulator delivers the first of the future events;
  before it is due, the network layer may hand over a packet and the first bit of a packet of another
  node may arrive.
\<close>

definition xnode_start :: "transmission_state \<Rightarrow> xnode" where
  "xnode_start garbage = \<lparr>macState = INIT, prevMacState = INIT, macQueue = [], pendingPreambles = {},
     preambleCont = 0, transmissionState = garbage,
     lastDataPktSrcAddr = BROADCAST_ADDRESS, lastDataPktDestAddr = BROADCAST_ADDRESS,
     destAddressNext = UNSPECIFIED_ADDRESS, destDestAddrAck2 = UNSPECIFIED_ADDRESS, txAttempts = 0,
     nbTxDataPackets = 0, nbTxPreambles = 0, nbRxDataPackets = 0, nbRxPreambles = 0,
     nbMissedAcks = 0, nbRecvdAcks = 0, nbDroppedDataPackets = 0, nbTxAcks = 0,
     radioMode = RADIO_MODE_OFF, nextRadioMode = RADIO_MODE_OFF, previousRadioMode = RADIO_MODE_OFF,
     receptionState = RECEPTION_STATE_UNDEFINED,
     radioTransmissionState = TRANSMISSION_STATE_UNDEFINED, receptionTimer = None,
     simTime = 0, fes = [(0, 0, MacTimer start_xmac)], draws = 0, timers_made = 0,
     sentUp = [], droppedPkts = [], linkBreaks = [], onAir = []\<rparr>"

fun dispatch :: "xmac_env \<Rightarrow> xmac_conf \<Rightarrow> xmsg \<Rightarrow> action" where
  "dispatch e c (MacTimer t) = handleSelfMessage e c (timer_kind t) None"
| "dispatch e c (MacSelfPkt pkt) = handleSelfMessage e c (pkt_kind pkt) (Some pkt)"
| "dispatch e c (ToMac pkt) = handleLowerPacket e c pkt"
| "dispatch e c (ToRadio pkt) = radio_handleUpperPacket e pkt"
| "dispatch e c switchTimer = handleSwitchTimer e"
| "dispatch e c transmissionTimer = endTransmission e"
| "dispatch e c (ReceptionTimer i pkt) = endReception e i pkt"

text \<open>No pending event is earlier than \<open>t\<close>, and \<open>t\<close> is not in the past.\<close>

definition may_happen :: "simtime \<Rightarrow> xnode \<Rightarrow> bool" where
  "may_happen t n \<longleftrightarrow> simTime n \<le> t \<and> (\<forall>(u, p, m)\<in>set (fes n). t \<le> u)"

text \<open>The kinds of packets the MAC layers of a network put on air.\<close>

definition frame_kinds :: "xmac_type set" where
  "frame_kinds = {XMAC_PREAMBLE, XMAC_DATA, XMAC_ACK, XMAC_ACK2}"

inductive xmac_step :: "xmac_env \<Rightarrow> xmac_conf \<Rightarrow> xnode \<Rightarrow> fault + xnode \<Rightarrow> bool"
  for e c where
  deliver: "fes n = (t, p, m) # es \<Longrightarrow> xmac_step e c n (dispatch e c m (n\<lparr>simTime := t, fes := es\<rparr>))"
| from_network: "may_happen t n \<Longrightarrow> xmac_step e c n (handleUpperPacket e c m (n\<lparr>simTime := t\<rparr>))"
| from_air: "may_happen t n \<Longrightarrow> 0 < d \<Longrightarrow> pkt_kind pkt \<in> frame_kinds \<Longrightarrow>
     xmac_step e c n (startReception e attempted d pkt (n\<lparr>simTime := t\<rparr>))"

inductive xmac_reach :: "xmac_env \<Rightarrow> xmac_conf \<Rightarrow> xnode \<Rightarrow> xnode \<Rightarrow> bool"
  for e c n where
  refl: "xmac_reach e c n n"
| step: "xmac_reach e c n n1 \<Longrightarrow> xmac_step e c n1 (Inr n2) \<Longrightarrow> xmac_reach e c n n2"

inductive_cases xmac_stepE: "xmac_step e c n r"

lemma xmac_reach_trans: "xmac_reach e c n1 n2 \<Longrightarrow> xmac_reach e c n n1 \<Longrightarrow> xmac_reach e c n n2"
  by (induction rule: xmac_reach.induct) (auto intro: xmac_reach.step)

text \<open>
  What is documented of the environment: \<open>dblrand\<close> returns numbers of [0, 1), a packet takes time on
  air; and the default of the radio, whose switching times are all zero.
\<close>

definition rand_ok :: "xmac_env \<Rightarrow> bool" where
  "rand_ok e \<longleftrightarrow> (\<forall>i. 0 \<le> dblrand e i \<and> dblrand e i < 1) \<and> (\<forall>pkt. 0 < airTime e pkt)"

definition default_radio :: "xmac_env \<Rightarrow> bool" where
  "default_radio e \<longleftrightarrow> (\<forall>m m'. switchingTimes e m m' = 0)"

definition conf_ok :: "xmac_conf \<Rightarrow> bool" where
  "conf_ok c \<longleftrightarrow> 0 \<le> checkInterval c \<and> checkInterval c \<le> slotDuration c"

end
