(* ===== verification/Xmac_Inv.thy ===== *)
theory Xmac_Inv
  imports Xmac_Node
begin

text \<open>
  The invariant of a node with the default radio: the future events are in order, the radio is in
  the mode its state asks for, and exactly the timers of the state are pending.
\<close>

named_theorems fes_simps \<open>pending messages after an operation\<close>

subsection \<open>Future events\<close>

definition pending :: "(simtime \<times> int \<times> xmsg) list \<Rightarrow> xmsg set" where
  "pending es = (\<lambda>(t, p, m). m) ` set es"

lemma isScheduled_pending [fes_simps]: "isScheduled m n \<longleftrightarrow> m \<in> pending (fes n)"
  by (simp add: isScheduled_def pending_def)

lemma set_fes_insert [simp]: "set (fes_insert t p m es) = insert (t, p, m) (set es)"
  by (induction t p m es rule: fes_insert.induct) auto

lemma pending_insert [fes_simps]: "pending (fes_insert t p m es) = insert m (pending es)"
  by (simp add: pending_def)

lemma pending_filter [fes_simps]: "pending (filter (\<lambda>(t, p, k). k \<noteq> m) es) = pending es - {m}"
  by (force simp: pending_def)

lemma pending_simps [fes_simps]:
  "pending [] = {}" "pending ((t, p, m) # es) = insert m (pending es)"
  by (simp_all add: pending_def)

text \<open>The packets in flight between the layers are delivered at once.\<close>

fun in_flight :: "xmsg \<Rightarrow> bool" where
  "in_flight (ToMac p) = True"
| "in_flight (MacSelfPkt p) = True"
| "in_flight (ToRadio p) = True"
| "in_flight _ = False"

text \<open>How far ahead each timer can be set.\<close>

fun limit :: "xmac_conf \<Rightarrow> xmac_timer \<Rightarrow> simtime" where
  "limit c wakeup = max (slotDuration c) tenth_f"
| "limit c cca_timeout = checkInterval c"
| "limit c cca2_timeout = slotDuration c / 10"
| "limit c data_timeout = slotDuration c + checkInterval c"
| "limit c stop_preambles = slotDuration c"
| "limit c t = 0"

fun by_then :: "xmac_conf \<Rightarrow> simtime \<Rightarrow> simtime \<Rightarrow> xmsg \<Rightarrow> bool" where
  "by_then c x t (MacTimer k) \<longleftrightarrow> t \<le> x + limit c k"
| "by_then c x t m \<longleftrightarrow> (in_flight m \<longrightarrow> t = x)"

definition before_or_with :: "simtime \<times> int \<times> xmsg \<Rightarrow> simtime \<times> int \<times> xmsg \<Rightarrow> bool" where
  "before_or_with a b \<longleftrightarrow> fst a < fst b \<or> (fst a = fst b \<and> fst (snd a) \<le> fst (snd b))"

definition fes_ok :: "xmac_conf \<Rightarrow> simtime \<Rightarrow> (simtime \<times> int \<times> xmsg) list \<Rightarrow> bool" where
  "fes_ok c x es \<longleftrightarrow> sorted_wrt before_or_with es \<and> distinct (map (\<lambda>(t, p, m). m) es) \<and>
     (\<forall>(t, p, m)\<in>set es. x \<le> t \<and> p = schedulingPriority m \<and> by_then c x t m)"

lemma fes_ok_Nil [simp]: "fes_ok c x []"
  by (simp add: fes_ok_def)

lemma sorted_fes_insert:
  "sorted_wrt before_or_with es \<Longrightarrow> sorted_wrt before_or_with (fes_insert t p m es)"
  by (induction t p m es rule: fes_insert.induct) (auto simp: before_or_with_def)

lemma distinct_fes_insert: "distinct (map (\<lambda>(t, p, m). m) (fes_insert t p m es)) \<longleftrightarrow>
    distinct (map (\<lambda>(t, p, m). m) es) \<and> m \<notin> pending es"
  by (induction t p m es rule: fes_insert.induct) (auto simp: pending_def)

lemma fes_ok_insert [intro]:
  assumes "fes_ok c x es" and "m \<notin> pending es" and "x \<le> t" and "by_then c x t m"
    and "p = schedulingPriority m"
  shows "fes_ok c x (fes_insert t p m es)"
  using assms by (auto simp: fes_ok_def sorted_fes_insert distinct_fes_insert)

lemma fes_ok_filter [intro]: "fes_ok c x es \<Longrightarrow> fes_ok c x (filter P es)"
  by (auto simp: fes_ok_def sorted_wrt_filter distinct_map_filter)

lemma fes_ok_now:
  assumes "fes_ok c x es" and "x \<le> y" and "\<forall>(t, p, m)\<in>set es. y \<le> t"
  shows "fes_ok c y es"
proof -
  have "by_then c y t m" if "(t, p, m) \<in> set es" for t p m
    using that assms by (cases m) (force simp: fes_ok_def)+
  then show ?thesis using assms(1,3) by (auto simp: fes_ok_def)
qed

lemma fes_ok_pop:
  assumes "fes_ok c x ((t, p, m) # es)"
  shows "x \<le> t" and "p = schedulingPriority m" and "m \<notin> pending es" and "fes_ok c t es"
    and "\<And>u q k. (u, q, k) \<in> set es \<Longrightarrow> t < u \<or> (t = u \<and> p \<le> q)"
proof -
  show before: "t < u \<or> (t = u \<and> p \<le> q)" if "(u, q, k) \<in> set es" for u q k
    using assms that by (auto simp: fes_ok_def before_or_with_def)
  show le: "x \<le> t" "p = schedulingPriority m" using assms by (auto simp: fes_ok_def)
  show "m \<notin> pending es" using assms by (auto simp: fes_ok_def pending_def)
  have "fes_ok c x es" using assms by (auto simp: fes_ok_def)
  then show "fes_ok c t es" by (rule fes_ok_now [OF _ le(1)]) (use before in force)
qed

text \<open>A timer of the lowest priority is not served before the packets in flight.\<close>

lemma fes_ok_flight:
  assumes "fes_ok c x ((t, p, m) # es)" and "k \<in> pending es" and "in_flight k"
  shows "t = x" and "p = 0"
proof -
  obtain u q where k: "(u, q, k) \<in> set es" using assms(2) by (auto simp: pending_def)
  have "u = x" "q = 0" using assms(1,3) k by (cases k; auto simp: fes_ok_def)+
  moreover have "x \<le> t" "t < u \<or> (t = u \<and> p \<le> q)" "p = schedulingPriority m"
    using fes_ok_pop [OF assms(1)] k by auto
  moreover have "0 \<le> schedulingPriority m" by (cases m rule: schedulingPriority.cases) auto
  ultimately show "t = x" "p = 0" by auto
qed

subsection \<open>Parts of the pending messages\<close>

definition timers :: "xmsg set \<Rightarrow> xmac_timer set" where
  "timers P = {t. MacTimer t \<in> P}"

fun to_mac :: "xmsg \<Rightarrow> bool" where
  "to_mac (ToMac pkt) = True"
| "to_mac (MacSelfPkt pkt) = True"
| "to_mac _ = False"

lemma timers_insert [fes_simps]:
  "timers (insert (MacTimer t) P) = insert t (timers P)"
  "timers (insert (MacSelfPkt k) P) = timers P" "timers (insert (ToMac k) P) = timers P"
  "timers (insert (ToRadio k) P) = timers P" "timers (insert switchTimer P) = timers P"
  "timers (insert transmissionTimer P) = timers P"
  "timers (insert (ReceptionTimer i k) P) = timers P"
  "timers (P - {MacTimer t}) = timers P - {t}"
  "timers (P - {transmissionTimer}) = timers P"
  by (auto simp: timers_def)

lemma in_timers [fes_simps]: "MacTimer t \<in> P \<longleftrightarrow> t \<in> timers P"
  by (simp add: timers_def)

subsection \<open>The invariant\<close>

definition radio_ok :: "xnode \<Rightarrow> bool" where
  "radio_ok n \<longleftrightarrow>
     radioMode n \<in> {RADIO_MODE_OFF, RADIO_MODE_SLEEP, RADIO_MODE_RECEIVER, RADIO_MODE_TRANSMITTER} \<and>
     nextRadioMode n = radioMode n \<and>
     switchTimer \<notin> pending (fes n) \<and>
     radioTransmissionState n = new_transmission_state n \<and>
     (receptionTimer n \<noteq> None \<longrightarrow> radioMode n = RADIO_MODE_RECEIVER) \<and>
     (\<forall>i. receptionTimer n = Some i \<longrightarrow> i < timers_made n) \<and>
     (\<forall>i k. ReceptionTimer i k \<in> pending (fes n) \<longrightarrow> i < timers_made n \<and> pkt_kind k \<in> frame_kinds)"

text \<open>The reception that is going on does not end at this very moment.\<close>

definition no_end_now :: "xnode \<Rightarrow> bool" where
  "no_end_now n \<longleftrightarrow> (\<forall>t p i k. receptionTimer n = Some i \<longrightarrow> (t, p, ReceptionTimer i k) \<in> set (fes n)
     \<longrightarrow> simTime n < t)"

definition acks :: "xmac_type set" where
  "acks = {XMAC_ACK, XMAC_ACK2}"

text \<open>
  At most one packet is on its way to the MAC layer, and only while the radio receives; only the
  states that wait for the end of an acknowledgment have something on its way down.
\<close>

definition mac_packets_ok :: "xmsg set \<Rightarrow> radio_mode \<Rightarrow> mac_state \<Rightarrow> bool \<Rightarrow> bool" where
  "mac_packets_ok P R S q \<longleftrightarrow> (\<forall>m\<in>P. to_mac m \<longrightarrow> R = RADIO_MODE_RECEIVER \<and> q) \<and>
     (\<forall>m\<in>P. \<forall>m'\<in>P. to_mac m \<longrightarrow> to_mac m' \<longrightarrow> m = m') \<and>
     (\<forall>k. ToMac k \<in> P \<longrightarrow> pkt_kind k \<in> frame_kinds) \<and>
     (\<forall>k. MacSelfPkt k \<in> P \<longrightarrow> pkt_kind k = XMAC_DATA \<and> S = WAIT_DATA)"

definition radio_packets_ok :: "xmsg set \<Rightarrow> mac_state \<Rightarrow> bool" where
  "radio_packets_ok P S \<longleftrightarrow>
     (\<forall>k. ToRadio k \<in> P \<longrightarrow> pkt_kind k \<in> acks \<and> transmissionTimer \<notin> P \<and>
        S \<in> {WAIT_ACK_TX, WAIT_ACK2_TX}) \<and>
     (\<forall>k k'. ToRadio k \<in> P \<longrightarrow> ToRadio k' \<in> P \<longrightarrow> k = k') \<and>
     (transmissionTimer \<in> P \<longrightarrow> S \<in> {WAIT_ACK_TX, WAIT_ACK2_TX})"

definition packets_ok :: "xnode \<Rightarrow> bool" where
  "packets_ok n \<longleftrightarrow> mac_packets_ok (pending (fes n)) (radioMode n) (macState n) (no_end_now n) \<and>
     radio_packets_ok (pending (fes n)) (macState n) \<and> (\<forall>k\<in>set (onAir n). pkt_kind k \<in> acks)"

lemmas packets_defs = packets_ok_def mac_packets_ok_def radio_packets_ok_def

lemma mac_packets_ok_subset:
  "mac_packets_ok P R S q \<Longrightarrow> P' \<subseteq> P \<Longrightarrow> (\<And>m. m \<in> P' \<Longrightarrow> to_mac m \<Longrightarrow> q') \<Longrightarrow> mac_packets_ok P' R S q'"
  by (auto simp: mac_packets_ok_def subset_iff)

lemma mac_packets_ok_none:
  "(\<And>m. m \<in> P \<Longrightarrow> \<not> to_mac m) \<Longrightarrow> mac_packets_ok P R S q"
  by (fastforce simp: mac_packets_ok_def)

lemma radio_packets_ok_subset:
  "radio_packets_ok P S \<Longrightarrow> P' \<subseteq> P \<Longrightarrow> radio_packets_ok P' S"
  by (auto simp: radio_packets_ok_def subset_iff)

text \<open>The mode of the radio and the timers that are pending in each state.\<close>

definition mode_and_timers :: "xnode \<Rightarrow> radio_mode \<Rightarrow> xmac_timer set set \<Rightarrow> bool" where
  "mode_and_timers n m Ts \<longleftrightarrow> radioMode n = m \<and> timers (pending (fes n)) \<in> Ts"

definition state_ok :: "xnode \<Rightarrow> bool" where
  "state_ok n \<longleftrightarrow> (case macState n of
     INIT \<Rightarrow> mode_and_timers n RADIO_MODE_OFF {{start_xmac}}
   | SLEEP \<Rightarrow> mode_and_timers n RADIO_MODE_SLEEP {{wakeup}}
   | CCA \<Rightarrow> mode_and_timers n RADIO_MODE_RECEIVER {{cca_timeout}} \<and>
       destDestAddrAck2 n = UNSPECIFIED_ADDRESS
   | CCA_LOST \<Rightarrow> mode_and_timers n RADIO_MODE_RECEIVER {{cca_timeout}}
   | CCA2 \<Rightarrow> mode_and_timers n RADIO_MODE_RECEIVER {{cca2_timeout}, {cca2_timeout, data_timeout}}
   | WAIT_DATA \<Rightarrow> mode_and_timers n RADIO_MODE_RECEIVER {{data_timeout}}
   | SEND_PREAMBLE \<Rightarrow> mode_and_timers n RADIO_MODE_TRANSMITTER {{stop_preambles}}
   | SEND_DATA \<Rightarrow> mode_and_timers n RADIO_MODE_TRANSMITTER {{}}
   | SEND_ACK \<Rightarrow> mode_and_timers n RADIO_MODE_TRANSMITTER {{}, {send_ack}}
   | SEND_ACK2 \<Rightarrow> mode_and_timers n RADIO_MODE_TRANSMITTER {{}, {send_ack2}}
   | WAIT_ACK_TX \<Rightarrow> mode_and_timers n RADIO_MODE_TRANSMITTER {{}}
   | WAIT_ACK2_TX \<Rightarrow> mode_and_timers n RADIO_MODE_TRANSMITTER {{}}
   | _ \<Rightarrow> False)"

definition xinv :: "xmac_conf \<Rightarrow> xnode \<Rightarrow> bool" where
  "xinv c n \<longleftrightarrow> fes_ok c (simTime n) (fes n) \<and> radio_ok n \<and> packets_ok n \<and> state_ok n"

text \<open>While a handler of a listening or sleeping state runs, nothing is in flight.\<close>

definition calm :: "xmac_conf \<Rightarrow> xnode \<Rightarrow> bool" where
  "calm c n \<longleftrightarrow> fes_ok c (simTime n) (fes n) \<and> radio_ok n \<and>
     (\<forall>m\<in>pending (fes n). \<not> in_flight m) \<and> transmissionTimer \<notin> pending (fes n) \<and>
     (\<forall>k\<in>set (onAir n). pkt_kind k \<in> acks)"

lemma in_flight_to_mac: "to_mac m \<Longrightarrow> in_flight m"
  by (cases m) auto

lemma xinvI: "calm c n \<Longrightarrow> state_ok n \<Longrightarrow> xinv c n"
  by (auto simp: xinv_def calm_def packets_defs dest: in_flight_to_mac)

end
