(* ===== verification/Xmac_Actions.thy ===== *)
theory Xmac_Actions
  imports Xmac_Inv
begin

text \<open>
  What the actions of a handler do to a node that satisfies the invariant: setting and cancelling a
  timer, and changing the mode of a radio that switches at once.  Each is given a name and its effect
  on the parts the invariant speaks of, so that the handlers can be executed symbolically.
\<close>

named_theorems node_simps \<open>effect of the actions on the fields of a node\<close>
named_theorems calm_intros \<open>actions that keep a node calm\<close>

lemma bindE_acts_Nil: "bindE r (acts []) = r"
  by (cases r) simp_all

declare acts_simps [node_simps] assign_simps [node_simps]

subsection \<open>Fields the invariant does not read\<close>

lemma calm_update [node_simps]:
  "calm c (n\<lparr>macState := s\<rparr>) = calm c n"
  "calm c (n\<lparr>prevMacState := s\<rparr>) = calm c n"
  "calm c (n\<lparr>macQueue := q\<rparr>) = calm c n"
  "calm c (n\<lparr>pendingPreambles := S\<rparr>) = calm c n"
  "calm c (n\<lparr>lastDataPktSrcAddr := a\<rparr>) = calm c n"
  "calm c (n\<lparr>destAddressNext := a\<rparr>) = calm c n"
  "calm c (n\<lparr>destDestAddrAck2 := a\<rparr>) = calm c n"
  "calm c (n\<lparr>txAttempts := i\<rparr>) = calm c n"
  "calm c (n\<lparr>nbRxDataPackets := k\<rparr>) = calm c n"
  "calm c (n\<lparr>nbRxPreambles := k\<rparr>) = calm c n"
  "calm c (n\<lparr>nbDroppedDataPackets := k\<rparr>) = calm c n"
  "calm c (n\<lparr>droppedPkts := ps\<rparr>) = calm c n"
  "calm c (n\<lparr>draws := k\<rparr>) = calm c n"
  "calm c (n\<lparr>sentUp := us\<rparr>) = calm c n"
  by (simp_all add: calm_def radio_ok_def new_transmission_state_def fes_simps)

lemma no_end_now_update [node_simps]:
  "no_end_now (n\<lparr>macState := s\<rparr>) = no_end_now n"
  "no_end_now (n\<lparr>prevMacState := s\<rparr>) = no_end_now n"
  "no_end_now (n\<lparr>nbRxDataPackets := k\<rparr>) = no_end_now n"
  "no_end_now (n\<lparr>pendingPreambles := S\<rparr>) = no_end_now n"
  by (simp_all add: no_end_now_def)

definition mac_timers :: "xnode \<Rightarrow> xmac_timer set" where
  "mac_timers n = timers (pending (fes n))"

lemma mac_timers_update [node_simps]:
  "mac_timers (n\<lparr>macState := s\<rparr>) = mac_timers n"
  "mac_timers (n\<lparr>prevMacState := s\<rparr>) = mac_timers n"
  "mac_timers (n\<lparr>macQueue := q\<rparr>) = mac_timers n"
  "mac_timers (n\<lparr>pendingPreambles := S\<rparr>) = mac_timers n"
  "mac_timers (n\<lparr>lastDataPktSrcAddr := a\<rparr>) = mac_timers n"
  "mac_timers (n\<lparr>destAddressNext := a\<rparr>) = mac_timers n"
  "mac_timers (n\<lparr>destDestAddrAck2 := a\<rparr>) = mac_timers n"
  "mac_timers (n\<lparr>txAttempts := i\<rparr>) = mac_timers n"
  "mac_timers (n\<lparr>nbRxDataPackets := k\<rparr>) = mac_timers n"
  "mac_timers (n\<lparr>nbRxPreambles := k\<rparr>) = mac_timers n"
  "mac_timers (n\<lparr>nbDroppedDataPackets := k\<rparr>) = mac_timers n"
  "mac_timers (n\<lparr>droppedPkts := ps\<rparr>) = mac_timers n"
  "mac_timers (n\<lparr>draws := k\<rparr>) = mac_timers n"
  "mac_timers (n\<lparr>sentUp := us\<rparr>) = mac_timers n"
  by (simp_all add: mac_timers_def)

lemma isScheduled_timer [node_simps]: "isScheduled (MacTimer t) n \<longleftrightarrow> t \<in> mac_timers n"
  by (simp add: fes_simps mac_timers_def)

subsection \<open>Setting and cancelling timers\<close>

definition put :: "simtime \<Rightarrow> xmac_timer \<Rightarrow> xnode \<Rightarrow> xnode" where
  "put d t n = n\<lparr>fes := fes_insert (simTime n + d) (schedulingPriority (MacTimer t)) (MacTimer t) (fes n)\<rparr>"

definition unset :: "xmac_timer \<Rightarrow> xnode \<Rightarrow> xnode" where
  "unset t n = n\<lparr>fes := filter (\<lambda>(x, p, k). k \<noteq> MacTimer t) (fes n)\<rparr>"

lemma put_fields [node_simps]:
  "macState (put d t n) = macState n" "prevMacState (put d t n) = prevMacState n"
  "macQueue (put d t n) = macQueue n" "radioMode (put d t n) = radioMode n"
  "destDestAddrAck2 (put d t n) = destDestAddrAck2 n" "simTime (put d t n) = simTime n"
  "transmissionState (put d t n) = transmissionState n" "sentUp (put d t n) = sentUp n"
  "onAir (put d t n) = onAir n" "pendingPreambles (put d t n) = pendingPreambles n"
  "draws (put d t n) = draws n" "mac_timers (put d t n) = insert t (mac_timers n)"
  by (simp_all add: put_def mac_timers_def fes_simps)

lemma unset_fields [node_simps]:
  "macState (unset t n) = macState n" "prevMacState (unset t n) = prevMacState n"
  "macQueue (unset t n) = macQueue n" "radioMode (unset t n) = radioMode n"
  "destDestAddrAck2 (unset t n) = destDestAddrAck2 n" "simTime (unset t n) = simTime n"
  "transmissionState (unset t n) = transmissionState n" "sentUp (unset t n) = sentUp n"
  "onAir (unset t n) = onAir n" "pendingPreambles (unset t n) = pendingPreambles n"
  "draws (unset t n) = draws n" "mac_timers (unset t n) = mac_timers n - {t}"
  by (simp_all add: unset_def mac_timers_def fes_simps)

lemma after_put [node_simps]: "0 \<le> d \<Longrightarrow> t \<notin> mac_timers n \<Longrightarrow> after d t n = Inr (put d t n)"
  by (simp add: after_def scheduleAt_def put_def node_simps)

lemma cancelEvent_unset [node_simps]: "cancelEvent (MacTimer t) n = Inr (unset t n)"
  by (simp add: cancelEvent_def unset_def)

lemma calm_put [calm_intros]:
  assumes "calm c n" and "0 \<le> d" and "d \<le> limit c t" and "t \<notin> mac_timers n"
  shows "calm c (put d t n)"
proof -
  have "fes_ok c (simTime n) (fes (put d t n))"
    using assms by (auto simp: calm_def put_def mac_timers_def fes_simps)
  then show ?thesis
    using assms(1)
    by (auto simp: calm_def put_def radio_ok_def new_transmission_state_def fes_simps)
qed

lemma calm_unset [calm_intros]: "calm c n \<Longrightarrow> calm c (unset t n)"
  by (auto simp: calm_def unset_def radio_ok_def new_transmission_state_def fes_simps)

lemma no_end_now_put [node_simps]: "no_end_now (put d t n) = no_end_now n"
  by (auto simp: no_end_now_def put_def)

lemma no_end_now_unset [node_simps]: "no_end_now (unset t n) = no_end_now n"
  by (auto simp: no_end_now_def unset_def)

lemma enter_simps [node_simps]: "enter s p n = Inr (n\<lparr>macState := s, prevMacState := p\<rparr>)"
  by (simp add: enter_def)

subsection \<open>Changing the mode of the radio\<close>

definition idle_radio :: "xnode \<Rightarrow> bool" where
  "idle_radio n \<longleftrightarrow> radio_ok n \<and> transmissionTimer \<notin> pending (fes n)"

lemma idle_radio_calm [node_simps]: "calm c n \<Longrightarrow> idle_radio n"
  by (simp add: calm_def idle_radio_def)

lemma idle_radio_update [node_simps]:
  "idle_radio (n\<lparr>macState := s\<rparr>) = idle_radio n"
  "idle_radio (n\<lparr>prevMacState := s\<rparr>) = idle_radio n"
  "idle_radio (n\<lparr>lastDataPktSrcAddr := a\<rparr>) = idle_radio n"
  "idle_radio (n\<lparr>draws := k\<rparr>) = idle_radio n"
  "idle_radio (n\<lparr>pendingPreambles := S\<rparr>) = idle_radio n"
  "idle_radio (n\<lparr>nbRxPreambles := k\<rparr>) = idle_radio n"
  "idle_radio (put d t n) = idle_radio n"
  "idle_radio (unset t n) = idle_radio n"
  by (simp_all add: idle_radio_def radio_ok_def new_transmission_state_def fes_simps put_def unset_def)

definition tune :: "xmac_env \<Rightarrow> radio_mode \<Rightarrow> xnode \<Rightarrow> xnode" where
  "tune e m n = (let n1 = n\<lparr>radioMode := m, previousRadioMode := m, nextRadioMode := m,
       receptionTimer := (if m = RADIO_MODE_RECEIVER then receptionTimer n else None),
       radioTransmissionState := (if m = RADIO_MODE_TRANSMITTER then TRANSMISSION_STATE_IDLE
         else TRANSMISSION_STATE_UNDEFINED)\<rparr>
     in n1\<lparr>receptionState := new_reception_state e n1\<rparr>)"

lemma tune_fields [node_simps]:
  "macState (tune e m n) = macState n" "prevMacState (tune e m n) = prevMacState n"
  "macQueue (tune e m n) = macQueue n" "radioMode (tune e m n) = m"
  "destDestAddrAck2 (tune e m n) = destDestAddrAck2 n" "simTime (tune e m n) = simTime n"
  "transmissionState (tune e m n) = transmissionState n" "sentUp (tune e m n) = sentUp n"
  "onAir (tune e m n) = onAir n" "pendingPreambles (tune e m n) = pendingPreambles n"
  "draws (tune e m n) = draws n" "mac_timers (tune e m n) = mac_timers n"
  by (simp_all add: tune_def mac_timers_def Let_def)

lemma calm_tune [calm_intros]:
  "calm c n \<Longrightarrow> m \<in> {RADIO_MODE_SLEEP, RADIO_MODE_RECEIVER, RADIO_MODE_TRANSMITTER} \<Longrightarrow>
   calm c (tune e m n)"
  by (auto simp: calm_def tune_def radio_ok_def new_transmission_state_def fes_simps Let_def)

lemma new_reception_state_update:
  "new_reception_state e (n\<lparr>receptionState := r\<rparr>) = new_reception_state e n"
  "new_reception_state e (n\<lparr>radioTransmissionState := t\<rparr>) = new_reception_state e n"
  "new_reception_state e (n\<lparr>previousRadioMode := m\<rparr>) = new_reception_state e n"
  "new_reception_state e (n\<lparr>nextRadioMode := m\<rparr>) = new_reception_state e n"
  by (simp_all add: new_reception_state_def reception_pending_def split: option.split)

lemma updateTransceiverState_same:
  "radioTransmissionState n = new_transmission_state n \<Longrightarrow>
   updateTransceiverState e n = Inr (n\<lparr>receptionState := new_reception_state e n\<rparr>)"
  by (simp add: updateTransceiverState_def new_transmission_state_def fes_simps Let_def)

definition first_steps :: "xmac_env \<Rightarrow> radio_mode \<Rightarrow> action" where
  "first_steps e m n =
     (if \<not> isReceiverMode m \<and> receptionTimer n \<noteq> None then abortReception e n else Inr n)"

lemma first_steps_return:
  assumes "radio_ok n" and "\<not> isReceiverMode m"
  obtains n0 where "first_steps e m n = Inr n0"
    and "n0 = n\<lparr>receptionTimer := None, receptionState := receptionState n0\<rparr>"
proof (cases "receptionTimer n")
  case None
  then have "n = n\<lparr>receptionTimer := None, receptionState := receptionState n\<rparr>"
    by (intro xnode.equality) simp_all
  with None show ?thesis by (intro that [of n]) (simp_all add: first_steps_def)
next
  case (Some i)
  have "updateTransceiverState e (n\<lparr>receptionTimer := None\<rparr>) = Inr (n\<lparr>receptionTimer := None,
      receptionState := new_reception_state e (n\<lparr>receptionTimer := None\<rparr>)\<rparr>)"
    using assms(1) by (intro updateTransceiverState_same)
      (simp add: radio_ok_def new_transmission_state_def fes_simps)
  with Some assms(2) show ?thesis
    by (intro that) (auto simp: first_steps_def abortReception_def)
qed

lemma completeRadioModeSwitch_first:
  assumes "first_steps e m n = Inr n0" and "transmissionTimer \<notin> pending (fes n0)"
  shows "completeRadioModeSwitch e m n = acts
     [receiveSignal (radioModeChangedSignal m), updateTransceiverState e]
     (n0\<lparr>radioMode := m, previousRadioMode := m, nextRadioMode := m\<rparr>)"
proof -
  have "completeRadioModeSwitch e m n = bindE (first_steps e m n) (acts
     [\<lambda>n. if \<not> isTransmitterMode m \<and> isScheduled transmissionTimer n then abortTransmission e n
          else Inr n,
      assign (\<lambda>n. n\<lparr>radioMode := m, previousRadioMode := m, nextRadioMode := m\<rparr>),
      receiveSignal (radioModeChangedSignal m),
      updateTransceiverState e])"
    unfolding completeRadioModeSwitch_def acts_simps first_steps_def ..
  then show ?thesis using assms by (simp add: fes_simps del: receiveSignal.simps)
qed

text \<open>The radio is asked for another mode while it is neither transmitting nor switching.\<close>

lemma setRadioMode_default:
  assumes e: "default_radio e" and idle: "idle_radio n" and m: "m \<noteq> radioMode n"
    and new: "m \<in> {RADIO_MODE_SLEEP, RADIO_MODE_RECEIVER, RADIO_MODE_TRANSMITTER}"
    and old: "radioMode n \<noteq> RADIO_MODE_TRANSMITTER"
    and state: "macState n \<notin> {WAIT_TX_DATA_OVER, WAIT_ACK_TX, WAIT_ACK2_TX, SEND_PREAMBLE_TX_END}"
  shows "setRadioMode e m n = (if m = RADIO_MODE_TRANSMITTER
     then receiveSignal (transmissionStateChangedSignal TRANSMISSION_STATE_IDLE) (tune e m n)
     else Inr (tune e m n))"
proof -
  have r: "radio_ok n" and tx: "transmissionTimer \<notin> pending (fes n)"
    using idle by (auto simp: idle_radio_def)
  then have u: "radioTransmissionState n = TRANSMISSION_STATE_UNDEFINED"
    using old by (auto simp: radio_ok_def new_transmission_state_def)
  have complete: "completeRadioModeSwitch e m n = (if m = RADIO_MODE_TRANSMITTER
     then receiveSignal (transmissionStateChangedSignal TRANSMISSION_STATE_IDLE) (tune e m n)
     else Inr (tune e m n))"
    using new
  proof (elim insertE emptyE)
    assume m: "m = RADIO_MODE_RECEIVER"
    have "completeRadioModeSwitch e m n = Inr (n\<lparr>radioMode := m, previousRadioMode := m,
        nextRadioMode := m, receptionState := new_reception_state e (n\<lparr>radioMode := m\<rparr>)\<rparr>)"
      using tx u m
      by (simp add: completeRadioModeSwitch_def isReceiverMode_def isTransmitterMode_def fes_simps
          updateTransceiverState_def new_transmission_state_def Let_def new_reception_state_update)
    also have "n\<lparr>radioMode := m, previousRadioMode := m, nextRadioMode := m,
        receptionState := new_reception_state e (n\<lparr>radioMode := m\<rparr>)\<rparr> = tune e m n"
      by (rule xnode.equality; simp add: tune_def Let_def new_reception_state_update u m)
    finally show ?thesis by (simp add: m)
  next
    assume m: "m = RADIO_MODE_SLEEP"
    then have "\<not> isReceiverMode m" by (simp add: isReceiverMode_def)
    from first_steps_return [OF r this] obtain n0 where
      n0: "first_steps e m n = Inr n0" "n0 = n\<lparr>receptionTimer := None, receptionState := receptionState n0\<rparr>" .
    have f: "fes n0 = fes n" "radioTransmissionState n0 = TRANSMISSION_STATE_UNDEFINED"
      using u by (subst n0(2), simp)+
    have "completeRadioModeSwitch e m n = Inr (n0\<lparr>radioMode := m, previousRadioMode := m,
        nextRadioMode := m, receptionState := RECEPTION_STATE_UNDEFINED\<rparr>)"
      using completeRadioModeSwitch_first [OF n0(1)] tx m f
      by (simp add: updateTransceiverState_def new_transmission_state_def new_reception_state_def Let_def)
    also have "n0\<lparr>radioMode := m, previousRadioMode := m, nextRadioMode := m,
        receptionState := RECEPTION_STATE_UNDEFINED\<rparr> = tune e m n"
      by (subst n0(2), rule xnode.equality; simp add: tune_def Let_def new_reception_state_def u m)
    finally show ?thesis by (simp add: m)
  next
    assume m: "m = RADIO_MODE_TRANSMITTER"
    then have "\<not> isReceiverMode m" by (simp add: isReceiverMode_def)
    from first_steps_return [OF r this] obtain n0 where
      n0: "first_steps e m n = Inr n0" "n0 = n\<lparr>receptionTimer := None, receptionState := receptionState n0\<rparr>" .
    have f: "fes n0 = fes n" "radioTransmissionState n0 = TRANSMISSION_STATE_UNDEFINED"
      "macState n0 = macState n"
      using u by (subst n0(2), simp)+
    let ?n = "n0\<lparr>radioMode := m, previousRadioMode := m, nextRadioMode := m,
        receptionState := RECEPTION_STATE_UNDEFINED, radioTransmissionState := TRANSMISSION_STATE_IDLE\<rparr>"
    have t: "?n = tune e m n"
      by (subst n0(2), rule xnode.equality; simp add: tune_def Let_def new_reception_state_def u m)
    have "completeRadioModeSwitch e m n
        = receiveSignal (transmissionStateChangedSignal TRANSMISSION_STATE_IDLE) ?n"
      using completeRadioModeSwitch_first [OF n0(1)] tx m f state
      by (simp add: updateTransceiverState_def new_transmission_state_def new_reception_state_def Let_def
          fes_simps bindE_acts_Nil del: receiveSignal.simps(2))
    then show ?thesis unfolding t by (simp add: m)
  qed
  show ?thesis
    using e m r new complete by (auto simp: setRadioMode_def default_radio_def radio_ok_def fes_simps)
qed

lemma setRadioMode_quiet [node_simps]:
  assumes "default_radio e" and "idle_radio n" and "m \<noteq> radioMode n"
    and "m = RADIO_MODE_SLEEP \<or> m = RADIO_MODE_RECEIVER"
    and "radioMode n \<noteq> RADIO_MODE_TRANSMITTER"
    and "macState n \<notin> {WAIT_TX_DATA_OVER, WAIT_ACK_TX, WAIT_ACK2_TX, SEND_PREAMBLE_TX_END}"
  shows "setRadioMode e m n = Inr (tune e m n)"
  using assms by (subst setRadioMode_default) auto

text \<open>
  Switching to the transmitter, from the states that do so: the signal of the radio makes the
  acknowledging states go on when the uninitialized member happens to say \<open>TRANSMITTING\<close>.
\<close>

lemma setRadioMode_transmitter:
  assumes "default_radio e" and "idle_radio n" and "radioMode n = RADIO_MODE_RECEIVER"
    and "macState n \<in> {CCA, SEND_ACK, SEND_ACK2}" and "mac_timers n = {}"
  shows "setRadioMode e RADIO_MODE_TRANSMITTER n = Inr
    (if transmissionState n = TRANSMISSION_STATE_TRANSMITTING \<and> macState n \<noteq> CCA
     then put 0 (if macState n = SEND_ACK then send_ack else send_ack2) (tune e RADIO_MODE_TRANSMITTER n)
     else tune e RADIO_MODE_TRANSMITTER n)"
proof -
  have s: "scheduleAt (simTime n) (MacTimer t) (tune e RADIO_MODE_TRANSMITTER n)
      = Inr (put 0 t (tune e RADIO_MODE_TRANSMITTER n))" for t
    using assms(5) by (simp add: scheduleAt_def put_def node_simps)
  show ?thesis
    using assms by (subst setRadioMode_default) (auto simp: node_simps s)
qed

lemma wakeup_soon_put:
  assumes "wakeup \<notin> mac_timers n" and "rand_ok e" and "conf_ok c"
  obtains d k where "wakeup_soon e c n = Inr (put d wakeup (n\<lparr>draws := k\<rparr>))"
    and "0 \<le> d" and "d \<le> limit c wakeup"
proof (cases "macQueue n = []")
  case True
  have "n\<lparr>draws := draws n\<rparr> = n" by simp
  with True assms show ?thesis
    by (intro that [of "slotDuration c" "draws n"])
      (auto simp: wakeup_soon_def conf_ok_def node_simps)
next
  case False
  let ?d = "dblrand e (draws n) * checkInterval c"
  have "0 \<le> ?d" "?d \<le> checkInterval c"
    using assms(2,3) by (auto simp: rand_ok_def conf_ok_def less_imp_le intro!: mult_left_le_one_le)
  with False assms show ?thesis
    by (intro that [of ?d "draws n + 1"])
      (auto simp: wakeup_soon_def conf_ok_def node_simps drawn_def)
qed

end
