(* ===== verification/Xmac_Safe.thy ===== *)
theory Xmac_Safe
  imports Xmac_Actions
begin

text \<open>
  Every handler of the states a node with the default radio reaches returns and restores the
  invariant, and none takes a packet out of the queue.
\<close>

definition setting :: "xmac_env \<Rightarrow> xmac_conf \<Rightarrow> bool" where
  "setting e c \<longleftrightarrow> default_radio e \<and> rand_ok e \<and> conf_ok c"

lemma settingD:
  assumes "setting e c"
  shows "default_radio e" "rand_ok e" "conf_ok c"
    "0 \<le> slotDuration c" "0 \<le> checkInterval c" "0 \<le> slotDuration c - checkInterval c"
    "checkInterval c \<le> slotDuration c" "0 \<le> dblrand e i" "dblrand e i < 1"
  using assms by (auto simp: setting_def conf_ok_def rand_ok_def)

lemma drawn_bounds:
  assumes "setting e c"
  shows "0 \<le> checkInterval c * dblrand e i * 0.5" "checkInterval c * dblrand e i * 0.5 \<le> checkInterval c"
    "0 \<le> slotDuration c * 0.1 * dblrand e i" "slotDuration c * 0.1 * dblrand e i \<le> slotDuration c / 10"
    "0 \<le> dblrand e i * tenth_f" "dblrand e i * tenth_f \<le> tenth_f"
    "0 \<le> dblrand e i * slotDuration c" "dblrand e i * slotDuration c \<le> slotDuration c"
proof -
  note d = settingD [OF assms]
  have r: "0 \<le> x * dblrand e i \<and> x * dblrand e i \<le> x" if "0 \<le> x" for x
    using d(8,9)[of i] that by (auto intro!: mult_left_le)
  show "0 \<le> checkInterval c * dblrand e i * 0.5" "checkInterval c * dblrand e i * 0.5 \<le> checkInterval c"
    "0 \<le> slotDuration c * 0.1 * dblrand e i" "slotDuration c * 0.1 * dblrand e i \<le> slotDuration c / 10"
    "0 \<le> dblrand e i * tenth_f" "dblrand e i * tenth_f \<le> tenth_f"
    "0 \<le> dblrand e i * slotDuration c" "dblrand e i * slotDuration c \<le> slotDuration c"
    using r [of "checkInterval c"] r [of "slotDuration c * 0.1"] r [of tenth_f] r [of "slotDuration c"] d(4,5)
    by (simp_all add: mult.commute tenth_f_def)
qed

definition okE :: "xmac_conf \<Rightarrow> xnode \<Rightarrow> fault + xnode \<Rightarrow> bool" where
  "okE c n r \<longleftrightarrow> (\<exists>n'. r = Inr n' \<and> xinv c n' \<and> macQueue n' = macQueue n)"

lemma okE_Inr [simp]: "okE c n (Inr n') \<longleftrightarrow> xinv c n' \<and> macQueue n' = macQueue n"
  by (simp add: okE_def)

lemma xinv_calm [node_simps]: "calm c n \<Longrightarrow> xinv c n \<longleftrightarrow> state_ok n"
  by (auto simp: xinvI) (simp add: xinv_def)

lemma state_ok_timers: "state_ok n \<longleftrightarrow> (case macState n of
     INIT \<Rightarrow> radioMode n = RADIO_MODE_OFF \<and> mac_timers n = {start_xmac}
   | SLEEP \<Rightarrow> radioMode n = RADIO_MODE_SLEEP \<and> mac_timers n = {wakeup}
   | CCA \<Rightarrow> radioMode n = RADIO_MODE_RECEIVER \<and> mac_timers n = {cca_timeout} \<and>
       destDestAddrAck2 n = UNSPECIFIED_ADDRESS
   | CCA_LOST \<Rightarrow> radioMode n = RADIO_MODE_RECEIVER \<and> mac_timers n = {cca_timeout}
   | CCA2 \<Rightarrow> radioMode n = RADIO_MODE_RECEIVER \<and>
       mac_timers n \<in> {{cca2_timeout}, {cca2_timeout, data_timeout}}
   | WAIT_DATA \<Rightarrow> radioMode n = RADIO_MODE_RECEIVER \<and> mac_timers n = {data_timeout}
   | SEND_PREAMBLE \<Rightarrow> radioMode n = RADIO_MODE_TRANSMITTER \<and> mac_timers n = {stop_preambles}
   | SEND_DATA \<Rightarrow> radioMode n = RADIO_MODE_TRANSMITTER \<and> mac_timers n = {}
   | SEND_ACK \<Rightarrow> radioMode n = RADIO_MODE_TRANSMITTER \<and> mac_timers n \<in> {{}, {send_ack}}
   | SEND_ACK2 \<Rightarrow> radioMode n = RADIO_MODE_TRANSMITTER \<and> mac_timers n \<in> {{}, {send_ack2}}
   | WAIT_ACK_TX \<Rightarrow> radioMode n = RADIO_MODE_TRANSMITTER \<and> mac_timers n = {}
   | WAIT_ACK2_TX \<Rightarrow> radioMode n = RADIO_MODE_TRANSMITTER \<and> mac_timers n = {}
   | _ \<Rightarrow> False)"
  by (simp add: state_ok_def mode_and_timers_def mac_timers_def split: mac_state.split)

subsection \<open>Waking up and assessing the channel\<close>

lemma in_INIT_ok:
  assumes s: "setting e c" and "calm c n" and "macState n = INIT"
    and "radioMode n = RADIO_MODE_OFF" and "mac_timers n = {}"
  shows "okE c n (in_INIT e c XMAC_START_XMAC n)"
  using assms(2-) settingD [OF s] drawn_bounds [OF s]
  by (simp add: in_INIT_def node_simps calm_intros drawn_def state_ok_timers le_max_iff_disj)

lemma in_SLEEP_ok:
  assumes s: "setting e c" and "calm c n" and "macState n = SLEEP"
    and "radioMode n = RADIO_MODE_SLEEP" and "mac_timers n = {}"
  shows "okE c n (in_SLEEP e c XMAC_WAKE_UP n)"
  using assms(2-) settingD [OF s]
  by (simp add: in_SLEEP_def node_simps calm_intros state_ok_timers)

lemma cca_timeout_ok:
  assumes s: "setting e c" and "calm c n" and "macState n = CCA"
    and "radioMode n = RADIO_MODE_RECEIVER" and "mac_timers n = {}"
    and "destDestAddrAck2 n = UNSPECIFIED_ADDRESS"
  shows "okE c n (in_CCA e c XMAC_CCA_TIMEOUT p n)"
  using assms(2-) settingD [OF s] drawn_bounds [OF s]
  by (auto simp: in_CCA_def node_simps calm_intros drawn_def state_ok_timers le_max_iff_disj
      setRadioMode_transmitter go_to_sleep_def)

subsection \<open>A packet the node schedules for itself\<close>

definition put_self :: "xmac_pkt \<Rightarrow> xnode \<Rightarrow> xnode" where
  "put_self pkt n = n\<lparr>fes := fes_insert (simTime n) 0 (MacSelfPkt pkt) (fes n)\<rparr>"

lemma send_msg_self [node_simps]: "send_msg (MacSelfPkt pkt) n = Inr (put_self pkt n)"
  by (simp add: send_msg_def put_self_def)

lemma put_self_update [node_simps]:
  "put_self pkt n\<lparr>macState := s\<rparr> = put_self pkt (n\<lparr>macState := s\<rparr>)"
  "put_self pkt n\<lparr>prevMacState := s\<rparr> = put_self pkt (n\<lparr>prevMacState := s\<rparr>)"
  "macQueue (put_self pkt n) = macQueue n" "sentUp (put_self pkt n) = sentUp n"
  "onAir (put_self pkt n) = onAir n" "simTime (put_self pkt n) = simTime n"
  by (simp_all add: put_self_def)

lemma xinv_put_self [node_simps]:
  assumes "calm c n" and "no_end_now n" and "pkt_kind pkt = XMAC_DATA"
    and "macState n = WAIT_DATA" and "radioMode n = RADIO_MODE_RECEIVER"
    and "mac_timers n = {data_timeout}"
  shows "xinv c (put_self pkt n)"
proof -
  have new: "MacSelfPkt pkt \<notin> pending (fes n)" and quiet: "\<forall>m\<in>pending (fes n). \<not> to_mac m"
    "\<forall>k. ToMac k \<notin> pending (fes n) \<and> MacSelfPkt k \<notin> pending (fes n) \<and> ToRadio k \<notin> pending (fes n)"
    using assms(1) by (auto simp: calm_def dest: in_flight_to_mac)
  have "fes_ok c (simTime n) (fes (put_self pkt n))"
    using assms(1) new by (auto simp: calm_def put_self_def)
  moreover have "radio_ok (put_self pkt n)"
    using assms(1) by (auto simp: calm_def put_self_def radio_ok_def new_transmission_state_def fes_simps)
  moreover have "no_end_now (put_self pkt n)"
    using assms(2) by (auto simp: no_end_now_def put_self_def)
  then have "packets_ok (put_self pkt n)"
    using assms quiet by (auto simp: calm_def packets_defs put_self_def fes_simps)
  moreover have "state_ok (put_self pkt n)"
    using assms by (simp add: state_ok_timers mac_timers_def put_self_def fes_simps)
  ultimately show ?thesis by (simp add: xinv_def node_simps)
qed

subsection \<open>Packets that arrive while the node listens\<close>

lemma data_to_wait_ok:
  assumes s: "setting e c" and "calm c n" and "no_end_now n" and "pkt_kind pkt = XMAC_DATA"
    and "radioMode n = RADIO_MODE_RECEIVER" and "mac_timers n = {cca_timeout}"
  shows "okE c n (data_to_wait c s (Some pkt) n)"
  using assms(2-) settingD [OF s]
  by (simp add: data_to_wait_def with_pkt_def node_simps calm_intros)

lemma in_CCA_packet_ok:
  assumes s: "setting e c" and "calm c n" and "no_end_now n" and "macState n = CCA"
    and "radioMode n = RADIO_MODE_RECEIVER" and "mac_timers n = {cca_timeout}"
    and "destDestAddrAck2 n = UNSPECIFIED_ADDRESS" and k: "pkt_kind pkt \<in> frame_kinds"
  shows "okE c n (in_CCA e c (pkt_kind pkt) (Some pkt) n)"
proof (cases "pkt_kind pkt = XMAC_DATA")
  case True
  then show ?thesis using data_to_wait_ok [OF s] assms(2-7) by (simp add: in_CCA_def)
next
  case False
  show ?thesis
    using False k assms(2-7) settingD [OF s] drawn_bounds [OF s]
    by (auto simp: in_CCA_def node_simps calm_intros drawn_def state_ok_timers frame_kinds_def
        cca_preamble_def with_pkt_def setRadioMode_transmitter go_to_sleep_def)
qed

lemma in_CCA_LOST_packet_ok:
  assumes s: "setting e c" and "calm c n" and "no_end_now n" and "macState n = CCA_LOST"
    and "radioMode n = RADIO_MODE_RECEIVER" and "mac_timers n = {cca_timeout}"
    and k: "pkt_kind pkt \<in> frame_kinds"
  shows "okE c n (in_CCA_LOST e c (pkt_kind pkt) (Some pkt) n)"
proof (cases "pkt_kind pkt = XMAC_DATA")
  case True
  then show ?thesis using data_to_wait_ok [OF s] assms(2-6) by (simp add: in_CCA_LOST_def)
next
  case False
  show ?thesis
    using False k assms(2-6) settingD [OF s] drawn_bounds [OF s]
    by (auto simp: in_CCA_LOST_def node_simps calm_intros drawn_def state_ok_timers frame_kinds_def
        with_pkt_def)
qed

lemma in_CCA_LOST_timeout_ok:
  assumes s: "setting e c" and "calm c n" and "macState n = CCA_LOST"
    and "radioMode n = RADIO_MODE_RECEIVER" and "mac_timers n = {}"
  shows "okE c n (in_CCA_LOST e c XMAC_CCA_TIMEOUT p n)"
  using assms(2-) settingD [OF s]
  by (simp add: in_CCA_LOST_def node_simps calm_intros state_ok_timers go_to_sleep_def)

lemma in_CCA2_packet_ok:
  assumes s: "setting e c" and "calm c n" and "no_end_now n" and "macState n = CCA2"
    and "radioMode n = RADIO_MODE_RECEIVER"
    and "mac_timers n = {cca2_timeout} \<or> mac_timers n = {cca2_timeout, data_timeout}"
    and k: "pkt_kind pkt \<in> frame_kinds"
  shows "okE c n (in_CCA2 e c (pkt_kind pkt) (Some pkt) n)"
  using k assms(2-6) settingD [OF s]
  by (auto simp: in_CCA2_def node_simps calm_intros state_ok_timers frame_kinds_def with_pkt_def)

lemma in_CCA2_timeout_ok:
  assumes s: "setting e c" and "calm c n" and "macState n = CCA2"
    and "radioMode n = RADIO_MODE_RECEIVER" and "mac_timers n = {} \<or> mac_timers n = {data_timeout}"
  shows "okE c n (in_CCA2 e c XMAC_CCA2_TIMEOUT p n)"
  using assms(2-) settingD [OF s]
  by (auto simp: in_CCA2_def node_simps calm_intros state_ok_timers setRadioMode_transmitter)

lemma to_sleep_ok:
  assumes s: "setting e c" and "calm c n" and "radioMode n = RADIO_MODE_RECEIVER"
    and "macState n \<in> {CCA2, WAIT_DATA}" and "mac_timers n = {}"
  shows "okE c n (acts [wakeup_soon e c, go_to_sleep e p] n)"
proof -
  obtain d k where "wakeup_soon e c n = Inr (put d wakeup (n\<lparr>draws := k\<rparr>))" "0 \<le> d" "d \<le> limit c wakeup"
    using wakeup_soon_put [of n e c] assms(5) settingD [OF s] by auto
  then show ?thesis
    using assms(2-) settingD [OF s]
    by (auto simp: node_simps calm_intros state_ok_timers go_to_sleep_def)
qed

lemma in_CCA2_data_timeout_ok:
  assumes s: "setting e c" and "calm c n" and "macState n = CCA2"
    and "radioMode n = RADIO_MODE_RECEIVER" and "mac_timers n = {cca2_timeout}"
  shows "okE c n (in_CCA2 e c XMAC_DATA_TIMEOUT p n)"
proof -
  obtain d k where "wakeup_soon e c n = Inr (put d wakeup (n\<lparr>draws := k\<rparr>))" "0 \<le> d" "d \<le> limit c wakeup"
    using wakeup_soon_put [of n e c] assms(5) settingD [OF s] by auto
  then show ?thesis
    using assms(2-) settingD [OF s]
    by (auto simp: in_CCA2_def node_simps calm_intros state_ok_timers go_to_sleep_def)
qed

lemma in_WAIT_DATA_timeout_ok:
  assumes s: "setting e c" and "calm c n" and "macState n = WAIT_DATA"
    and "radioMode n = RADIO_MODE_RECEIVER" and "mac_timers n = {}"
  shows "okE c n (in_WAIT_DATA e c XMAC_DATA_TIMEOUT p n)"
  using to_sleep_ok [OF s, of n WAIT_DATA] assms by (simp add: in_WAIT_DATA_def del: acts_simps)

text \<open>The node after the first statements of the handler of a data packet.\<close>

definition received_data :: "xmac_conf \<Rightarrow> xmac_pkt \<Rightarrow> xnode \<Rightarrow> xnode" where
  "received_data c pkt n = unset data_timeout
     (n\<lparr>nbRxDataPackets := nbRxDataPackets n + 1,
        pendingPreambles := pendingPreambles n - {srcAddr pkt},
        sentUp := sentUp n @ (if destAddr pkt = address c \<or> destAddr pkt = BROADCAST_ADDRESS
          then [(srcAddr pkt, payload pkt)] else [])\<rparr>)"

lemma received_data_fields [node_simps]:
  "macState (received_data c pkt n) = macState n"
  "radioMode (received_data c pkt n) = radioMode n"
  "macQueue (received_data c pkt n) = macQueue n" "onAir (received_data c pkt n) = onAir n"
  "mac_timers (received_data c pkt n) = mac_timers n - {data_timeout}"
  "sentUp (received_data c pkt n) = sentUp n @
     (if destAddr pkt = address c \<or> destAddr pkt = BROADCAST_ADDRESS
      then [(srcAddr pkt, payload pkt)] else [])"
  by (simp_all add: received_data_def node_simps)

lemma idle_radio_received_data [node_simps]:
  "idle_radio (received_data c pkt n) = idle_radio n"
  by (simp add: received_data_def node_simps)
    (simp add: idle_radio_def radio_ok_def new_transmission_state_def fes_simps)

lemma calm_received_data [calm_intros]: "calm c n \<Longrightarrow> calm c (received_data c pkt n)"
  by (simp add: received_data_def calm_intros node_simps)

lemma wait_data_data_eq:
  "wait_data_data e c pkt n = (let m = received_data c pkt n; dest = destAddr pkt in
     if useMacAcks c \<and> dest = address c
     then acts [enter SEND_ACK WAIT_DATA,
           assign (\<lambda>n. n\<lparr>lastDataPktSrcAddr := srcAddr pkt\<rparr>),
           setRadioMode e RADIO_MODE_TRANSMITTER] m
     else if dest \<noteq> BROADCAST_ADDRESS \<and> pendingPreambles m = {}
     then acts [wakeup_soon e c, go_to_sleep e WAIT_DATA] m
     else acts [after (checkInterval c) cca_timeout, enter CCA WAIT_DATA,
             assign (\<lambda>n. n\<lparr>destAddressNext := UNSPECIFIED_ADDRESS,
               destDestAddrAck2 := UNSPECIFIED_ADDRESS\<rparr>)] m)"
  by (simp add: wait_data_data_def received_data_def node_simps sendUp_decapsMsg_def Let_def
      bindE_acts_Nil)

lemma wait_data_data_ok:
  assumes s: "setting e c" and "calm c n" and "macState n = WAIT_DATA"
    and "radioMode n = RADIO_MODE_RECEIVER" and "mac_timers n = {data_timeout}"
  shows "okE c n (wait_data_data e c pkt n)"
proof -
  let ?m = "received_data c pkt n"
  have "okE c n (acts [wakeup_soon e c, go_to_sleep e WAIT_DATA] ?m)"
    using to_sleep_ok [OF s, of ?m WAIT_DATA] assms(2-5)
    by (simp add: okE_def node_simps calm_intros del: acts_simps)
  then show ?thesis
    using assms(2-5) settingD [OF s]
    by (auto simp: wait_data_data_eq Let_def node_simps calm_intros state_ok_timers
        setRadioMode_transmitter)
qed

lemma in_WAIT_DATA_packet_ok:
  assumes s: "setting e c" and "calm c n" and "macState n = WAIT_DATA"
    and "radioMode n = RADIO_MODE_RECEIVER" and "mac_timers n = {data_timeout}"
    and k: "pkt_kind pkt \<in> frame_kinds"
  shows "okE c n (in_WAIT_DATA e c (pkt_kind pkt) (Some pkt) n)"
proof (cases "pkt_kind pkt = XMAC_DATA")
  case True
  then show ?thesis using wait_data_data_ok assms by (simp add: in_WAIT_DATA_def with_pkt_def)
next
  case False
  show ?thesis
    using False k assms(2-5) settingD [OF s] drawn_bounds [OF s]
    by (auto simp: in_WAIT_DATA_def node_simps calm_intros drawn_def state_ok_timers frame_kinds_def
        Let_def)
qed

subsection \<open>Taking an event from the queue\<close>

definition popped :: "simtime \<Rightarrow> (simtime \<times> int \<times> xmsg) list \<Rightarrow> xnode \<Rightarrow> xnode" where
  "popped t es n = n\<lparr>simTime := t, fes := es\<rparr>"

lemma popped_fields [node_simps]:
  "macState (popped t es n) = macState n" "prevMacState (popped t es n) = prevMacState n"
  "macQueue (popped t es n) = macQueue n" "radioMode (popped t es n) = radioMode n"
  "destDestAddrAck2 (popped t es n) = destDestAddrAck2 n" "simTime (popped t es n) = t"
  "transmissionState (popped t es n) = transmissionState n" "sentUp (popped t es n) = sentUp n"
  "onAir (popped t es n) = onAir n" "pendingPreambles (popped t es n) = pendingPreambles n"
  "draws (popped t es n) = draws n" "fes (popped t es n) = es"
  "mac_timers (popped t es n) = timers (pending es)"
  by (simp_all add: popped_def mac_timers_def)

text \<open>What is pending in a state that is not sending an acknowledgment.\<close>

lemma xinv_no_transmission:
  assumes "xinv c n" and "macState n \<notin> {WAIT_ACK_TX, WAIT_ACK2_TX}"
  shows "transmissionTimer \<notin> pending (fes n)" "ToRadio k \<notin> pending (fes n)"
  using assms by (auto simp: xinv_def packets_defs)

lemma calm_popped:
  assumes inv: "xinv c n" and f: "fes n = (t, p, m) # es"
    and state: "macState n \<notin> {WAIT_ACK_TX, WAIT_ACK2_TX}"
    and quiet: "\<forall>k\<in>pending es. \<not> to_mac k"
  shows "calm c (popped t es n)"
proof -
  have "fes_ok c (simTime n) ((t, p, m) # es)" using inv f by (simp add: xinv_def)
  then have "fes_ok c t es" by (rule fes_ok_pop)
  moreover have "radio_ok (popped t es n)"
    using inv xinv_no_transmission(1) [OF inv state] f
    by (auto simp: xinv_def radio_ok_def popped_def new_transmission_state_def fes_simps)
  moreover have "\<not> in_flight k" if k: "k \<in> pending es" for k
    using xinv_no_transmission(2) [OF inv state] quiet k f by (cases k) (auto simp: fes_simps)
  ultimately show ?thesis
    using inv xinv_no_transmission(1) [OF inv state] f
    by (auto simp: calm_def xinv_def packets_defs node_simps fes_simps)
qed

text \<open>A timer: nothing is on its way to the MAC layer.\<close>

lemma calm_popped_timer:
  assumes inv: "xinv c n" and f: "fes n = (t, p, MacTimer k) # es"
  shows "calm c (popped t es n)"
proof (rule calm_popped [OF inv f])
  have k: "k \<in> mac_timers n" using f by (simp add: mac_timers_def fes_simps)
  then show "macState n \<notin> {WAIT_ACK_TX, WAIT_ACK2_TX}"
    using inv by (auto simp: xinv_def state_ok_timers)
  show "\<forall>m\<in>pending es. \<not> to_mac m"
  proof (intro ballI notI)
    fix m assume m: "m \<in> pending es" "to_mac m"
    have o: "fes_ok c (simTime n) ((t, p, MacTimer k) # es)" using inv f by (simp add: xinv_def)
    have "p = 0" using fes_ok_flight(2) [OF o m(1)] m(2) by (auto dest: in_flight_to_mac)
    moreover have "p = schedulingPriority (MacTimer k)" using fes_ok_pop(2) [OF o] .
    ultimately have "k \<notin> {data_timeout, cca_timeout, cca2_timeout, resend_data}"
      by (simp only: schedulingPriority.simps split: if_splits) simp
    moreover have "radioMode n = RADIO_MODE_RECEIVER"
      using inv m f by (auto simp: xinv_def packets_defs fes_simps)
    ultimately show False
      using inv k by (auto simp: xinv_def state_ok_timers split: mac_state.splits)
  qed
qed

text \<open>A packet for the MAC layer: no other is on its way.\<close>

lemma calm_popped_packet:
  assumes inv: "xinv c n" and f: "fes n = (t, p, m) # es" and m: "to_mac m"
  shows "calm c (popped t es n)" "no_end_now (popped t es n)"
    "macState n \<in> {CCA, CCA_LOST, CCA2, WAIT_DATA}" "radioMode n = RADIO_MODE_RECEIVER"
    "mac_timers (popped t es n) = mac_timers n"
proof -
  have o: "fes_ok c (simTime n) ((t, p, m) # es)" using inv f by (simp add: xinv_def)
  have in_m: "m \<in> pending (fes n)" using f by (simp add: fes_simps)
  then show R: "radioMode n = RADIO_MODE_RECEIVER"
    using inv m by (auto simp: xinv_def packets_defs)
  then show S: "macState n \<in> {CCA, CCA_LOST, CCA2, WAIT_DATA}"
    using inv by (auto simp: xinv_def state_ok_timers split: mac_state.splits)
  have "\<forall>k\<in>pending es. \<not> to_mac k"
    using inv in_m m fes_ok_pop(3) [OF o] f by (auto simp: xinv_def packets_defs fes_simps)
  then show "calm c (popped t es n)" using calm_popped [OF inv f] S by auto
  have "t = simTime n" using o m by (cases m) (auto simp: fes_ok_def)
  moreover have "no_end_now n" using inv in_m m by (auto simp: xinv_def packets_defs)
  ultimately show "no_end_now (popped t es n)"
    using f by (auto simp: no_end_now_def popped_def)
  show "mac_timers (popped t es n) = mac_timers n"
    using f m by (cases m) (auto simp: node_simps mac_timers_def fes_simps)
qed

subsection \<open>Delivering a timer\<close>

lemma note_preamble_other [node_simps]: "k \<noteq> XMAC_PREAMBLE \<Longrightarrow> note_preamble c k p n = Inr n"
  by (simp add: note_preamble_def)

lemma timer_kind_not_preamble [simp]: "timer_kind k \<noteq> XMAC_PREAMBLE"
  by (cases k) auto

text \<open>The acknowledging states go on with an acknowledgment that nothing announces the end of.\<close>

lemma sent_ack_ok:
  assumes "calm c n" and "macState n \<in> {SEND_ACK, SEND_ACK2}"
    and "radioMode n = RADIO_MODE_TRANSMITTER" and "mac_timers n = {}"
    and "pkt_kind pkt \<in> acks" and "s \<in> {WAIT_ACK_TX, WAIT_ACK2_TX}"
  shows "okE c n (acts [send_msg (ToRadio pkt), assign (\<lambda>n. n\<lparr>nbTxAcks := k\<rparr>), enter s q] n)"
proof -
  let ?n = "n\<lparr>fes := fes_insert (simTime n) 0 (ToRadio pkt) (fes n), nbTxAcks := k, macState := s,
    prevMacState := q\<rparr>"
  have new: "ToRadio pkt \<notin> pending (fes n)" and quiet: "\<forall>m\<in>pending (fes n). \<not> in_flight m"
    using assms(1) by (auto simp: calm_def)
  have "fes_ok c (simTime n) (fes_insert (simTime n) 0 (ToRadio pkt) (fes n))"
    using assms(1) new by (auto simp: calm_def)
  moreover have "radio_ok ?n"
    using assms(1) by (auto simp: calm_def radio_ok_def new_transmission_state_def fes_simps)
  moreover have "packets_ok ?n"
    using assms quiet by (auto simp: calm_def packets_defs fes_simps dest: in_flight_to_mac)
  moreover have "state_ok ?n"
    using assms by (auto simp: state_ok_timers mac_timers_def fes_simps)
  ultimately show ?thesis by (simp add: xinv_def send_msg_def node_simps)
qed

lemma acks_simps [simp]: "XMAC_ACK \<in> acks" "XMAC_ACK2 \<in> acks"
  by (simp_all add: acks_def)

lemma only_timer: "k \<in> M \<Longrightarrow> M \<in> {{}, {x}} \<Longrightarrow> k = x \<and> M - {k} = {}"
  by auto

lemma deliver_timer_ok:
  assumes s: "setting e c" and inv: "xinv c n" and f: "fes n = (t, p, MacTimer k) # es"
  shows "okE c n (dispatch e c (MacTimer k) (popped t es n))"
proof -
  let ?n = "popped t es n"
  have calm: "calm c ?n" by (rule calm_popped_timer [OF inv f])
  have "k \<notin> timers (pending es)"
    using inv f fes_ok_pop(3) [of c "simTime n" t p "MacTimer k" es] by (simp add: xinv_def timers_def)
  then have T: "k \<in> mac_timers n" "mac_timers ?n = mac_timers n - {k}"
    using f by (simp_all add: mac_timers_def node_simps fes_simps)
  have ok: "okE c n r \<longleftrightarrow> okE c ?n r" for r by (simp add: okE_def node_simps)
  have step: "dispatch e c (MacTimer k) ?n = in_state e c (timer_kind k) None ?n"
    by (simp add: handleSelfMessage_def node_simps bindE_acts_Nil)
  have state: "state_ok n" using inv by (simp add: xinv_def)
  show ?thesis
  proof (cases "macState n")
    case INIT
    then have "k = start_xmac" "mac_timers ?n = {}" "radioMode n = RADIO_MODE_OFF"
      using state T by (auto simp: state_ok_timers)
    then show ?thesis unfolding ok step
      using in_INIT_ok [OF s calm] INIT by (simp add: in_state_def node_simps)
  next
    case SLEEP
    then have "k = wakeup" "mac_timers ?n = {}" "radioMode n = RADIO_MODE_SLEEP"
      using state T by (auto simp: state_ok_timers)
    then show ?thesis unfolding ok step
      using in_SLEEP_ok [OF s calm] SLEEP by (simp add: in_state_def node_simps)
  next
    case CCA
    then have "k = cca_timeout" "mac_timers ?n = {}" "radioMode n = RADIO_MODE_RECEIVER"
        "destDestAddrAck2 n = UNSPECIFIED_ADDRESS"
      using state T by (auto simp: state_ok_timers)
    then show ?thesis unfolding ok step
      using cca_timeout_ok [OF s calm] CCA by (simp add: in_state_def node_simps)
  next
    case CCA_LOST
    then have "k = cca_timeout" "mac_timers ?n = {}" "radioMode n = RADIO_MODE_RECEIVER"
      using state T by (auto simp: state_ok_timers)
    then show ?thesis unfolding ok step
      using in_CCA_LOST_timeout_ok [OF s calm] CCA_LOST by (simp add: in_state_def node_simps)
  next
    case CCA2
    then have R: "radioMode n = RADIO_MODE_RECEIVER"
      and M: "mac_timers n = {cca2_timeout} \<or> mac_timers n = {cca2_timeout, data_timeout}"
      using state by (simp_all add: state_ok_timers)
    from M T(1) consider "k = cca2_timeout" | "k = data_timeout" "mac_timers n = {cca2_timeout, data_timeout}"
      by auto
    then show ?thesis
    proof cases
      case 1
      then have "mac_timers ?n = {} \<or> mac_timers ?n = {data_timeout}"
        unfolding T(2) using M by auto
      with 1 CCA2 R show ?thesis unfolding ok step
        using in_CCA2_timeout_ok [OF s calm] by (simp add: in_state_def node_simps)
    next
      case 2
      then have "mac_timers ?n = {cca2_timeout}" unfolding T(2) by auto
      with 2 CCA2 R show ?thesis unfolding ok step
        using in_CCA2_data_timeout_ok [OF s calm] by (simp add: in_state_def node_simps)
    qed
  next
    case WAIT_DATA
    then have "k = data_timeout" "mac_timers ?n = {}" "radioMode n = RADIO_MODE_RECEIVER"
      using state T by (auto simp: state_ok_timers)
    then show ?thesis unfolding ok step
      using in_WAIT_DATA_timeout_ok [OF s calm] WAIT_DATA by (simp add: in_state_def node_simps)
  next
    case SEND_PREAMBLE
    then have "k = stop_preambles" "mac_timers ?n = {}" "radioMode n = RADIO_MODE_TRANSMITTER"
      using state T by (auto simp: state_ok_timers)
    then show ?thesis unfolding ok step
      using calm SEND_PREAMBLE
      by (simp add: in_state_def in_SEND_PREAMBLE_def node_simps state_ok_timers)
  next
    case SEND_ACK
    then have "mac_timers n \<in> {{}, {send_ack}}" "radioMode n = RADIO_MODE_TRANSMITTER"
      using state by (simp_all add: state_ok_timers)
    moreover from only_timer [OF T(1) this(1)] have "k = send_ack" "mac_timers ?n = {}"
      unfolding T(2) by blast+
    moreover note SEND_ACK
    ultimately have "okE c ?n (in_state e c (timer_kind k) None ?n)"
      using sent_ack_ok [OF calm, where s = WAIT_ACK_TX and q = SEND_ACK
        and k = "nbTxAcks ?n + 1"]
      by (simp add: in_state_def in_SEND_ACK_def sendMacAck_def node_simps attachSignal_def
          send_msg_def Let_def popped_def)
    then show ?thesis unfolding ok step .
  next
    case SEND_ACK2
    then have "mac_timers n \<in> {{}, {send_ack2}}" "radioMode n = RADIO_MODE_TRANSMITTER"
      using state by (simp_all add: state_ok_timers)
    moreover from only_timer [OF T(1) this(1)] have "k = send_ack2" "mac_timers ?n = {}"
      unfolding T(2) by blast+
    moreover note SEND_ACK2
    ultimately have "okE c ?n (in_state e c (timer_kind k) None ?n)"
      using sent_ack_ok [OF calm, where s = WAIT_ACK2_TX and q = SEND_ACK2
        and k = "nbTxAcks ?n + 1"]
      by (simp add: in_state_def in_SEND_ACK2_def sendMacAck2_def node_simps attachSignal_def
          send_msg_def Let_def popped_def)
    then show ?thesis unfolding ok step .
  qed (use state T in \<open>auto simp: state_ok_timers\<close>)
qed

end
