(* ===== verification/Xmac_Steps.thy ===== *)
theory Xmac_Steps
  imports Xmac_Safe
begin

text \<open>
  The remaining steps of a node, packets that reach the MAC layer and the events of the radio, and
  with them all: every step from a state that satisfies the invariant returns and keeps it.
\<close>

subsection \<open>Packets for the MAC layer\<close>

lemma in_state_packet_ok:
  assumes s: "setting e c" and "calm c n" and "no_end_now n"
    and "macState n \<in> {CCA, CCA_LOST, CCA2, WAIT_DATA}" and "state_ok n"
    and "pkt_kind pkt \<in> frame_kinds"
  shows "okE c n (in_state e c (pkt_kind pkt) (Some pkt) n)"
  using assms in_CCA_packet_ok [OF s] in_CCA_LOST_packet_ok [OF s] in_CCA2_packet_ok [OF s]
    in_WAIT_DATA_packet_ok [OF s]
  by (auto simp: in_state_def state_ok_timers)

lemma note_preamble_pkt:
  obtains S where "note_preamble c k (Some pkt) n = Inr (n\<lparr>pendingPreambles := S\<rparr>)"
proof (cases "k = XMAC_PREAMBLE \<and> radioMode n = RADIO_MODE_RECEIVER \<and>
    (destAddr pkt = BROADCAST_ADDRESS \<or> destAddr pkt = address c)")
  case True
  then show ?thesis by (intro that) (simp add: note_preamble_def with_pkt_def)
next
  case False
  then show ?thesis
    by (intro that [of "pendingPreambles n"]) (auto simp: note_preamble_def with_pkt_def)
qed

lemma state_ok_cong:
  assumes "macState n' = macState n" and "radioMode n' = radioMode n"
    and "mac_timers n' = mac_timers n" and "destDestAddrAck2 n' = destDestAddrAck2 n"
  shows "state_ok n' = state_ok n"
  using assms by (cases "macState n") (simp_all add: state_ok_timers)

lemma state_ok_pendingPreambles [simp]: "state_ok (n\<lparr>pendingPreambles := S\<rparr>) = state_ok n"
  by (rule state_ok_cong) (simp_all add: node_simps)

lemma handle_packet_ok:
  assumes s: "setting e c" and "calm c n" and "no_end_now n"
    and "macState n \<in> {CCA, CCA_LOST, CCA2, WAIT_DATA}" and "state_ok n"
    and "pkt_kind pkt \<in> frame_kinds"
  shows "okE c n (handleSelfMessage e c (pkt_kind pkt) (Some pkt) n)"
proof -
  obtain S where S: "note_preamble c (pkt_kind pkt) (Some pkt) n = Inr (n\<lparr>pendingPreambles := S\<rparr>)"
    by (rule note_preamble_pkt)
  have "okE c (n\<lparr>pendingPreambles := S\<rparr>)
      (in_state e c (pkt_kind pkt) (Some pkt) (n\<lparr>pendingPreambles := S\<rparr>))"
    using assms by (intro in_state_packet_ok) (simp_all add: node_simps)
  then show ?thesis by (simp add: handleSelfMessage_def S bindE_acts_Nil okE_def)
qed

lemma state_ok_popped:
  "state_ok n \<Longrightarrow> mac_timers (popped t es n) = mac_timers n \<Longrightarrow> state_ok (popped t es n)"
  by (subst state_ok_cong [of _ n]) (simp_all add: node_simps)

lemma deliver_packet_ok:
  assumes s: "setting e c" and inv: "xinv c n" and f: "fes n = (t, p, m) # es" and m: "to_mac m"
  shows "okE c n (dispatch e c m (popped t es n))"
proof -
  let ?n = "popped t es n"
  note p = calm_popped_packet [OF inv f m]
  have in_m: "m \<in> pending (fes n)" using f by (simp add: fes_simps)
  have st: "state_ok ?n" using inv p(5) by (intro state_ok_popped) (simp_all add: xinv_def)
  have h: "okE c ?n (handleSelfMessage e c (pkt_kind k) (Some k) ?n)" if "pkt_kind k \<in> frame_kinds" for k
    using p st that by (intro handle_packet_ok [OF s]) (simp_all add: node_simps)
  have ok: "okE c n r \<longleftrightarrow> okE c ?n r" for r by (simp add: okE_def node_simps)
  show ?thesis
  proof (cases m)
    case (ToMac k)
    then have "pkt_kind k \<in> frame_kinds" using inv in_m by (auto simp: xinv_def packets_defs)
    then show ?thesis unfolding ok using h [of k] ToMac p(1) st
      by (auto simp: handleLowerPacket_def node_simps)
  next
    case (MacSelfPkt k)
    then have "pkt_kind k = XMAC_DATA" using inv in_m by (auto simp: xinv_def packets_defs)
    then show ?thesis unfolding ok using h [of k] MacSelfPkt by (simp add: frame_kinds_def)
  qed (use m in simp_all)
qed

subsection \<open>The radio\<close>

text \<open>Fields the radio does not touch in the invariant.\<close>

lemma xinv_receptionState [simp]: "xinv c (n\<lparr>receptionState := r\<rparr>) = xinv c n"
  by (simp add: xinv_def radio_ok_def packets_defs state_ok_def mode_and_timers_def no_end_now_def
      new_transmission_state_def fes_simps split: mac_state.split)

lemma deliver_transmission_end_ok:
  assumes inv: "xinv c n" and f: "fes n = (t, p, transmissionTimer) # es"
  shows "okE c n (dispatch e c transmissionTimer (popped t es n))"
proof -
  have in_t: "transmissionTimer \<in> pending (fes n)" using f by (simp add: fes_simps)
  then have S: "macState n = WAIT_ACK_TX \<or> macState n = WAIT_ACK2_TX"
    and no: "\<And>k. ToRadio k \<notin> pending (fes n)"
    using inv by (auto simp: xinv_def packets_defs)
  then have R: "radioMode n = RADIO_MODE_TRANSMITTER" and T: "mac_timers n = {}"
    using inv by (auto simp: xinv_def state_ok_timers)
  have o: "fes_ok c (simTime n) ((t, p, transmissionTimer) # es)" using inv f by (simp add: xinv_def)
  let ?n = "popped t es n\<lparr>receptionState := RECEPTION_STATE_UNDEFINED,
    radioTransmissionState := TRANSMISSION_STATE_IDLE\<rparr>"
  have "fes_ok c t es" "transmissionTimer \<notin> pending es" using fes_ok_pop [OF o] by auto
  moreover have "\<forall>m\<in>pending es. \<not> to_mac m"
    using inv R f by (auto simp: xinv_def packets_defs fes_simps)
  ultimately have "xinv c ?n"
    using inv R S T no f
    by (auto simp: xinv_def radio_ok_def packets_defs popped_def new_transmission_state_def
        state_ok_timers mac_timers_def fes_simps)
  moreover have "updateTransceiverState e (popped t es n) = Inr ?n"
    using R S \<open>transmissionTimer \<notin> pending es\<close> inv f
    by (auto simp: updateTransceiverState_def new_transmission_state_def new_reception_state_def
        node_simps fes_simps xinv_def radio_ok_def Let_def)
  ultimately show ?thesis by (simp add: endTransmission_def node_simps)
qed

lemma no_end_now_earlier:
  "no_end_now n \<Longrightarrow> set es \<subseteq> set (fes n) \<Longrightarrow> no_end_now (popped (simTime n) es n)"
  unfolding no_end_now_def popped_def by simp blast

lemma xinv_to_mac:
  "xinv c n \<Longrightarrow> m \<in> pending (fes n) \<Longrightarrow> to_mac m \<Longrightarrow> no_end_now n"
  unfolding xinv_def packets_ok_def mac_packets_ok_def by blast

lemma packets_ok_subset:
  assumes "packets_ok n" and "pending (fes n') \<subseteq> pending (fes n)"
    and "radioMode n' = radioMode n" and "macState n' = macState n" and "onAir n' = onAir n"
    and "\<And>m. m \<in> pending (fes n') \<Longrightarrow> to_mac m \<Longrightarrow> no_end_now n'"
  shows "packets_ok n'"
  using assms unfolding packets_ok_def
  by (auto intro: mac_packets_ok_subset radio_packets_ok_subset)

text \<open>An event that is no timer of the MAC layer and does not end a transmission.\<close>

lemma xinv_popped:
  assumes inv: "xinv c n" and f: "fes n = (t, p, m) # es"
    and m: "\<forall>k. m \<noteq> MacTimer k" "m \<noteq> transmissionTimer"
  shows "xinv c (popped t es n)"
proof -
  have o: "fes_ok c (simTime n) ((t, p, m) # es)" using inv f by (simp add: xinv_def)
  have T: "mac_timers (popped t es n) = mac_timers n"
    using f m by (cases m) (auto simp: node_simps mac_timers_def fes_simps)
  have tr: "transmissionTimer \<in> pending es \<longleftrightarrow> transmissionTimer \<in> pending (fes n)"
    using f m(2) by (auto simp: fes_simps)
  have "fes_ok c t es" using fes_ok_pop(4) [OF o] .
  moreover have "radio_ok (popped t es n)"
    using inv f tr by (auto simp: xinv_def radio_ok_def popped_def new_transmission_state_def fes_simps)
  moreover have "no_end_now (popped t es n)" if "k \<in> pending es" "to_mac k" for k
  proof -
    have "t = simTime n" using fes_ok_flight(1) [OF o] that by (auto dest: in_flight_to_mac)
    moreover have "no_end_now n" using xinv_to_mac [OF inv, of k] f that by (simp add: fes_simps)
    ultimately show ?thesis using no_end_now_earlier [of n es] f by auto
  qed
  then have "packets_ok (popped t es n)"
    using inv f by - (rule packets_ok_subset [of n], auto simp: xinv_def node_simps fes_simps)
  moreover have "state_ok (popped t es n)"
    using inv T by (intro state_ok_popped) (simp_all add: xinv_def)
  ultimately show ?thesis by (simp add: xinv_def node_simps)
qed

text \<open>Time passes up to the next event.\<close>

lemma xinv_later:
  assumes inv: "xinv c n" and t: "may_happen t n"
  shows "xinv c (n\<lparr>simTime := t\<rparr>)"
proof -
  have le: "simTime n \<le> t" "\<forall>(u, p, m)\<in>set (fes n). t \<le> u" using t by (auto simp: may_happen_def)
  have "fes_ok c t (fes n)" using inv by (intro fes_ok_now [OF _ le]) (simp add: xinv_def)
  moreover have "no_end_now (n\<lparr>simTime := t\<rparr>)" if k: "k \<in> pending (fes n)" "to_mac k" for k
  proof -
    obtain u q where u: "(u, q, k) \<in> set (fes n)" using k(1) by (auto simp: pending_def)
    then have "u = simTime n" using inv k(2) by (cases k; auto simp: xinv_def fes_ok_def)
    then have "t = simTime n" using le u by auto
    then show ?thesis using xinv_to_mac [OF inv k] by simp
  qed
  then have "packets_ok (n\<lparr>simTime := t\<rparr>)"
    using inv by - (rule packets_ok_subset [of n], auto simp: xinv_def)
  moreover have "radio_ok (n\<lparr>simTime := t\<rparr>)"
    using inv by (simp add: xinv_def radio_ok_def new_transmission_state_def fes_simps)
  moreover have "state_ok (n\<lparr>simTime := t\<rparr>)"
    using inv by (subst state_ok_cong [of _ n]) (simp_all add: xinv_def mac_timers_def)
  ultimately show ?thesis by (simp add: xinv_def)
qed

lemma receptionState_update_ok:
  assumes "xinv c n"
  shows "\<exists>r. updateTransceiverState e n = Inr (n\<lparr>receptionState := r\<rparr>)"
  using assms by (auto simp: xinv_def radio_ok_def intro!: updateTransceiverState_same)

lemma deliver_to_radio_ok:
  assumes s: "setting e c" and inv: "xinv c n" and f: "fes n = (t, p, ToRadio k) # es"
  shows "okE c n (dispatch e c (ToRadio k) (popped t es n))"
proof -
  let ?n = "popped t es n" and ?d = "airTime e k"
  have pk: "ToRadio k \<in> pending (fes n)" using f by (simp add: fes_simps)
  have S: "macState n = WAIT_ACK_TX \<or> macState n = WAIT_ACK2_TX"
    and no: "transmissionTimer \<notin> pending (fes n)" and kind: "pkt_kind k \<in> acks"
    using inv pk by (auto simp: xinv_def packets_defs)
  have R: "radioMode n = RADIO_MODE_TRANSMITTER" and T: "mac_timers n = {}"
    using inv S by (auto simp: xinv_def state_ok_timers)
  have o: "fes_ok c (simTime n) ((t, p, ToRadio k) # es)" using inv f by (simp add: xinv_def)
  have no': "transmissionTimer \<notin> pending es" using no f by (simp add: fes_simps)
  have none: "ToRadio k' \<notin> pending es" for k'
    using inv f fes_ok_pop(3) [OF o] by (auto simp: xinv_def packets_defs fes_simps)
  have x: "xinv c ?n" by (rule xinv_popped [OF inv f]) simp_all
  have d: "0 < ?d" using settingD(2) [OF s] by (simp add: rand_ok_def)
  let ?m = "?n\<lparr>onAir := onAir n @ [k], fes := fes_insert (t + ?d) 0 transmissionTimer es,
    receptionState := RECEPTION_STATE_UNDEFINED,
    radioTransmissionState := TRANSMISSION_STATE_TRANSMITTING\<rparr>"
  have "fes_ok c t (fes_insert (t + ?d) 0 transmissionTimer es)"
    using x no' d by (auto simp: xinv_def node_simps)
  moreover have "radio_ok ?m"
    using x R by (auto simp: xinv_def radio_ok_def popped_def new_transmission_state_def fes_simps)
  moreover have "packets_ok ?m"
    using x R S none no' kind by (auto simp: xinv_def packets_defs popped_def fes_simps)
  moreover have "state_ok ?m"
    using x S R T f by (auto simp: state_ok_timers popped_def mac_timers_def fes_simps)
  ultimately have "xinv c ?m" by (simp add: xinv_def node_simps)
  moreover have "radioTransmissionState n = TRANSMISSION_STATE_IDLE"
    using inv R no by (simp add: xinv_def radio_ok_def new_transmission_state_def fes_simps)
  then have "dispatch e c (ToRadio k) ?n = Inr ?m"
    using R no' d by (simp add: radio_handleUpperPacket_def isTransmitterMode_def startTransmission_def
        fes_simps node_simps scheduleAt_def updateTransceiverState_def new_transmission_state_def
        new_reception_state_def popped_def Let_def)
  ultimately show ?thesis by (simp add: popped_def)
qed

lemma deliver_reception_ok:
  assumes inv: "xinv c n" and f: "fes n = (t, p, ReceptionTimer i k) # es"
  shows "okE c n (dispatch e c (ReceptionTimer i k) (popped t es n))"
proof -
  let ?n = "popped t es n"
  have x: "xinv c ?n" by (rule xinv_popped [OF inv f]) simp_all
  have o: "fes_ok c (simTime n) ((t, p, ReceptionTimer i k) # es)" using inv f by (simp add: xinv_def)
  show ?thesis
  proof (cases "receptionTimer ?n = Some i \<and> isReceiverMode (radioMode ?n)")
    case False
    then show ?thesis using receptionState_update_ok [OF x, of e] x
      by (auto simp: endReception_def node_simps)
  next
    case True
    then have R: "radioMode n = RADIO_MODE_RECEIVER" and i: "receptionTimer n = Some i"
      using inv by (auto simp: isReceiverMode_def popped_def xinv_def radio_ok_def)
    have none: "\<not> to_mac m" if m: "m \<in> pending es" for m
    proof
      assume "to_mac m"
      then have "t = simTime n" "no_end_now n"
        using fes_ok_flight(1) [OF o m] xinv_to_mac [OF inv, of m] f m
        by (auto dest: in_flight_to_mac simp: fes_simps)
      then show False using f i by (auto simp: no_end_now_def)
    qed
    let ?m = "?n\<lparr>fes := fes_insert t 0 (ToMac k) es, receptionTimer := None\<rparr>"
    have fo: "fes_ok c t (fes_insert t 0 (ToMac k) es)"
      using x none [of "ToMac k"] by (intro fes_ok_insert) (auto simp: xinv_def node_simps)
    have ra: "radio_ok ?m"
      using x by (auto simp: xinv_def radio_ok_def popped_def new_transmission_state_def fes_simps)
    have "pkt_kind k \<in> frame_kinds"
      using inv f by (auto simp: xinv_def radio_ok_def fes_simps)
    moreover have "no_end_now ?m" by (simp add: no_end_now_def)
    moreover have "packets_ok ?n" using x by (simp add: xinv_def)
    ultimately have pa: "packets_ok ?m" using R none
      by (auto simp: packets_defs popped_def fes_simps)
    have "state_ok ?m"
      using x by (subst state_ok_cong [of _ ?n])
        (simp_all add: xinv_def popped_def mac_timers_def fes_simps)
    with fo ra pa have m: "xinv c ?m" by (simp add: xinv_def node_simps)
    have "dispatch e c (ReceptionTimer i k) ?n = updateTransceiverState e ?m"
      using True by (simp add: endReception_def send_msg_def popped_def bindE_acts_Nil)
    then show ?thesis using receptionState_update_ok [OF m, of e] m by (auto simp: popped_def)
  qed
qed

lemma arrival_ok:
  assumes inv: "xinv c n" and d: "0 < d" and k: "pkt_kind pkt \<in> frame_kinds"
  shows "okE c n (startReception e attempted d pkt n)"
proof -
  let ?i = "timers_made n"
  let ?es = "fes_insert (simTime n + d) 0 (ReceptionTimer ?i pkt) (fes n)"
  have new: "ReceptionTimer ?i pkt' \<notin> pending (fes n)" for pkt'
    using inv by (auto simp: xinv_def radio_ok_def)
  define m where "m = (if isReceiverMode (radioMode n) \<and> attempted
    then n\<lparr>timers_made := ?i + 1, receptionTimer := Some ?i\<rparr> else n\<lparr>timers_made := ?i + 1\<rparr>)\<lparr>fes := ?es\<rparr>"
  have m: "macState m = macState n" "radioMode m = radioMode n" "macQueue m = macQueue n"
    "simTime m = simTime n" "fes m = ?es" "onAir m = onAir n" "destDestAddrAck2 m = destDestAddrAck2 n"
    "nextRadioMode m = nextRadioMode n" "timers_made m = ?i + 1"
    "radioTransmissionState m = radioTransmissionState n"
    by (simp_all add: m_def)
  have r: "receptionTimer m = receptionTimer n \<or> receptionTimer m = Some ?i \<and> isReceiverMode (radioMode n)"
    by (simp add: m_def)
  have "fes_ok c (simTime n) ?es" using inv d new by (auto simp: xinv_def)
  moreover have "radio_ok m"
    using inv k r
    by (auto simp: xinv_def radio_ok_def m new_transmission_state_def fes_simps isReceiverMode_def less_Suc_eq)
  moreover have "no_end_now m" if q: "no_end_now n"
  proof -
    have "simTime n < t" if "receptionTimer m = Some i" "(t, p, ReceptionTimer i k) \<in> set (fes m)" for t p i k
    proof (cases "(t, p, ReceptionTimer i k) \<in> set (fes n)")
      case True
      then have "ReceptionTimer i k \<in> pending (fes n)" by (force simp: pending_def)
      then have "receptionTimer m \<noteq> Some ?i" using new that(1) by auto
      then have "receptionTimer n = Some i" using that(1) r by auto
      then show ?thesis using q True unfolding no_end_now_def by blast
    next
      case False
      then show ?thesis using that(2) d by (auto simp: m)
    qed
    then show ?thesis by (simp add: no_end_now_def m)
  qed
  then have "packets_ok m"
    using inv unfolding xinv_def packets_ok_def mac_packets_ok_def radio_packets_ok_def m
    by (simp add: fes_simps)
  moreover have "state_ok m"
    using inv by (subst state_ok_cong [of _ n]) (simp_all add: xinv_def m mac_timers_def fes_simps)
  ultimately have x: "xinv c m" by (simp add: xinv_def m)
  have "startReception e attempted d pkt n = updateTransceiverState e m"
    using new d by (simp add: startReception_def m_def scheduleAt_def fes_simps bindE_acts_Nil Let_def)
  then show ?thesis using receptionState_update_ok [OF x, of e] x m(3) by auto
qed

subsection \<open>Packets of the network layer\<close>

text \<open>The queue only grows, and never past its bound.\<close>

definition okE_grows :: "xmac_conf \<Rightarrow> xnode \<Rightarrow> fault + xnode \<Rightarrow> bool" where
  "okE_grows c n r \<longleftrightarrow> (\<exists>n'. r = Inr n' \<and> xinv c n' \<and>
     (\<exists>ks. macQueue n' = macQueue n @ ks \<and> (ks \<noteq> [] \<longrightarrow> length (macQueue n') < queueLength c + 1)))"

lemma okE_growsI: "okE c n r \<Longrightarrow> okE_grows c n r"
  by (auto simp: okE_def okE_grows_def)

lemma xinv_queue_update:
  "xinv c (n\<lparr>macQueue := q\<rparr>) = xinv c n"
  "xinv c (n\<lparr>droppedPkts := ps, nbDroppedDataPackets := k\<rparr>) = xinv c n"
  by (simp_all add: xinv_def radio_ok_def packets_ok_def state_ok_def mode_and_timers_def no_end_now_def
      new_transmission_state_def fes_simps split: mac_state.split)

lemma hurried_wakeup_ok:
  assumes s: "setting e c" and inv: "xinv c n" and S: "macState n = SLEEP"
  shows "okE c n (acts [cancelEvent (MacTimer wakeup),
    drawn e (\<lambda>r n. scheduleAt (simTime n + r * tenth_f) (MacTimer wakeup) n)] n)"
proof -
  have R: "radioMode n = RADIO_MODE_SLEEP" "mac_timers n = {wakeup}"
    using inv S by (auto simp: xinv_def state_ok_timers)
  have "\<not> in_flight m" if "m \<in> pending (fes n)" for m
    using inv that R(1) S by (cases m) (auto simp: xinv_def packets_defs)
  then have calm: "calm c n" using inv S by (auto simp: calm_def xinv_def packets_defs)
  have a: "scheduleAt (simTime m + d) (MacTimer wakeup) m = after d wakeup m" for m d
    by (simp add: after_def)
  show ?thesis
    using calm S R settingD [OF s] drawn_bounds [OF s]
    by (simp add: node_simps calm_intros drawn_def a state_ok_timers le_max_iff_disj)
qed

lemma handleUpperPacket_ok:
  assumes s: "setting e c" and inv: "xinv c n"
  shows "okE_grows c n (handleUpperPacket e c m n)"
proof (cases "queueLength c \<le> real (length (macQueue n))")
  case True
  then show ?thesis using inv
    by (simp add: handleUpperPacket_def addToQueue_def okE_grows_def xinv_queue_update)
next
  case False
  let ?n = "n\<lparr>macQueue := macQueue n @ [encapsMsg c m]\<rparr>"
  have x: "xinv c ?n" using inv by (simp add: xinv_queue_update)
  have "okE c ?n (handleUpperPacket e c m n)"
    using hurried_wakeup_ok [OF s x] x False
    by (simp add: handleUpperPacket_def addToQueue_def del: acts_simps)
  with False show ?thesis by (auto simp: okE_def okE_grows_def)
qed

subsection \<open>Every step\<close>

theorem xmac_step_ok:
  assumes s: "setting e c" and inv: "xinv c n" and step: "xmac_step e c n r"
  shows "okE_grows c n r"
  using step
proof (cases rule: xmac_step.cases)
  case (deliver t p m es)
  have r: "r = dispatch e c m (popped t es n)" using deliver by (simp add: popped_def)
  note f = deliver(2)
  have "okE c n r"
  proof (cases m)
    case (MacTimer k)
    then show ?thesis using deliver_timer_ok [OF s inv] f r by simp
  next
    case (MacSelfPkt k)
    then show ?thesis using deliver_packet_ok [OF s inv f] r by simp
  next
    case (ToMac k)
    then show ?thesis using deliver_packet_ok [OF s inv f] r by simp
  next
    case (ToRadio k)
    then show ?thesis using deliver_to_radio_ok [OF s inv] f r by simp
  next
    case switchTimer
    then have False using inv f by (simp add: xinv_def radio_ok_def fes_simps)
    then show ?thesis ..
  next
    case transmissionTimer
    then show ?thesis using deliver_transmission_end_ok [OF inv] f r by simp
  next
    case (ReceptionTimer i k)
    then show ?thesis using deliver_reception_ok [OF inv] f r by simp
  qed
  then show ?thesis by (rule okE_growsI)
next
  case (from_network t m)
  then show ?thesis using handleUpperPacket_ok [OF s xinv_later [OF inv]]
    by (simp add: okE_grows_def)
next
  case (from_air t d pkt attempted)
  then have "okE c n r" using arrival_ok [OF xinv_later [OF inv], of t d pkt e attempted]
    by (simp add: okE_def)
  then show ?thesis by (rule okE_growsI)
qed

lemma xinv_start: "xinv c (xnode_start g)"
  by (simp add: xinv_def xnode_start_def fes_ok_def radio_ok_def packets_defs state_ok_def
      mode_and_timers_def pending_def timers_def new_transmission_state_def isScheduled_def)

theorem xmac_reach_inv:
  assumes "setting e c" and "xmac_reach e c n n'" and "xinv c n"
  shows "xinv c n' \<and> (\<exists>ks. macQueue n' = macQueue n @ ks)"
  using assms(2,3)
proof (induction rule: xmac_reach.induct)
  case (step n1 n2)
  then show ?case using xmac_step_ok [OF assms(1), of n1 "Inr n2"] by (auto simp: okE_grows_def)
qed simp

end
