(* ===== verification/Xmac_Props.thy ===== *)
theory Xmac_Props
  imports Xmac_Steps
begin

text \<open>
  What follows for a node with the default radio: it raises no error and always has the timer its
  state needs; a data packet is passed up once; and, since the MAC layer never learns that a
  transmission has begun, a node that starts to send is lost.
\<close>

lemma reach_xinv: "setting e c \<Longrightarrow> xmac_reach e c (xnode_start g) n \<Longrightarrow> xinv c n"
  using xmac_reach_inv [OF _ _ xinv_start] by blast

subsection \<open>Safety\<close>

text \<open>
  C9: whatever arrives at a node with the default radio and whenever, no handler of the MAC layer or
  the radio raises an error (a timer set twice or in the past, an event the state does not expect,
  a switch during a switch, a packet during a transmission, an empty queue), and afterwards the radio
  is in the mode and exactly the timers are pending that the state of the MAC layer asks for.
\<close>

theorem xmac_node_safe:
  assumes "default_radio e" and "rand_ok e" and "conf_ok c"
    and "xmac_reach e c (xnode_start g) n" and "xmac_step e c n r"
  shows "\<exists>n'. r = Inr n' \<and> fes_ok c (simTime n') (fes n') \<and> state_ok n'"
proof -
  have s: "setting e c" using assms(1-3) by (simp add: setting_def)
  have "okE_grows c n r" using xmac_step_ok [OF s reach_xinv [OF s assms(4)] assms(5)] .
  then show ?thesis by (auto simp: okE_grows_def xinv_def)
qed

lemma timer_due:
  assumes "xinv c n" and "k \<in> mac_timers n"
  shows "\<exists>u p. (u, p, MacTimer k) \<in> set (fes n) \<and> simTime n \<le> u \<and> u \<le> simTime n + limit c k"
proof -
  obtain u p where "(u, p, MacTimer k) \<in> set (fes n)"
    using assms(2) by (auto simp: mac_timers_def timers_def pending_def)
  with assms(1) show ?thesis by (fastforce simp: xinv_def fes_ok_def)
qed

text \<open>
  C36: a sleeping node wakes up within a slot (or a tenth of a second, when a packet arrives), a node
  that assesses the channel ends the check within the check interval, one that waits to acknowledge a
  preamble does within a tenth of a slot, and one that waits for data gives up within a slot and a
  check interval.
\<close>

theorem xmac_deadlines:
  assumes "default_radio e" and "rand_ok e" and "conf_ok c" and "xmac_reach e c (xnode_start g) n"
    and "(macState n, k, d) \<in> {(SLEEP, wakeup, max (slotDuration c) tenth_f),
      (CCA, cca_timeout, checkInterval c), (CCA_LOST, cca_timeout, checkInterval c),
      (CCA2, cca2_timeout, slotDuration c / 10),
      (WAIT_DATA, data_timeout, slotDuration c + checkInterval c)}"
  shows "\<exists>u p. (u, p, MacTimer k) \<in> set (fes n) \<and> simTime n \<le> u \<and> u \<le> simTime n + d"
proof -
  have x: "xinv c n" using reach_xinv assms(1-4) by (auto simp: setting_def)
  then have "k \<in> mac_timers n \<and> d = limit c k"
    using assms(5) by (auto simp: xinv_def state_ok_timers)
  then show ?thesis using timer_due [OF x] by auto
qed

subsection \<open>Receiving data\<close>

lemma wait_data_data_sentUp:
  assumes s: "setting e c" and "calm c n" and "macState n = WAIT_DATA"
    and "radioMode n = RADIO_MODE_RECEIVER" and "mac_timers n = {data_timeout}"
  shows "\<exists>n'. wait_data_data e c pkt n = Inr n' \<and> macState n' \<noteq> WAIT_DATA \<and> sentUp n' = sentUp n @
    (if destAddr pkt = address c \<or> destAddr pkt = BROADCAST_ADDRESS then [(srcAddr pkt, payload pkt)] else [])"
proof -
  let ?m = "received_data c pkt n"
  have "mac_timers ?m = {}" using assms(5) by (simp add: node_simps)
  then obtain d k where "wakeup_soon e c ?m = Inr (put d wakeup (?m\<lparr>draws := k\<rparr>))"
    "0 \<le> d" "d \<le> limit c wakeup"
    using wakeup_soon_put [of ?m e c] settingD [OF s] by auto
  then show ?thesis
    using assms(2-5) settingD [OF s]
    by (auto simp: wait_data_data_eq Let_def node_simps calm_intros setRadioMode_transmitter
        go_to_sleep_def)
qed

text \<open>
  C35: a data packet is passed up exactly once, when it is for this node or for everyone.  When it
  arrives while the node assesses the channel it is only put back, to be handled once the node waits
  for data; when it is handled there it is passed up.
\<close>

theorem data_passed_up_once:
  assumes "default_radio e" and "rand_ok e" and "conf_ok c" and "xmac_reach e c (xnode_start g) n"
    and f: "fes n = (t, p, m) # es" and m: "m = ToMac pkt \<or> m = MacSelfPkt pkt"
    and k: "pkt_kind pkt = XMAC_DATA" "\<not> hasBitError pkt"
  shows "\<exists>n'. xmac_step e c n (Inr n') \<and>
    (if macState n = WAIT_DATA
     then sentUp n' = sentUp n @ (if destAddr pkt = address c \<or> destAddr pkt = BROADCAST_ADDRESS
            then [(srcAddr pkt, payload pkt)] else []) \<and> MacSelfPkt pkt \<notin> pending (fes n')
     else sentUp n' = sentUp n \<and> MacSelfPkt pkt \<in> pending (fes n') \<and> macState n' = WAIT_DATA)"
proof -
  have s: "setting e c" using assms(1-3) by (simp add: setting_def)
  have x: "xinv c n" by (rule reach_xinv [OF s assms(4)])
  let ?n = "popped t es n"
  have tm: "to_mac m" using m by auto
  note cp = calm_popped_packet [OF x f tm]
  have step: "xmac_step e c n (dispatch e c m ?n)"
    using xmac_step.deliver [OF f, of e c] by (simp add: popped_def)
  have d: "dispatch e c m ?n = in_state e c XMAC_DATA (Some pkt) ?n"
    using m k by (auto simp: handleLowerPacket_def handleSelfMessage_def node_simps bindE_acts_Nil)
  have st: "state_ok ?n" using x cp(5) by (intro state_ok_popped) (simp_all add: xinv_def)
  show ?thesis
  proof (cases "macState n = WAIT_DATA")
    case True
    then obtain n' where n': "wait_data_data e c pkt ?n = Inr n'" "macState n' \<noteq> WAIT_DATA"
      "sentUp n' = sentUp n @ (if destAddr pkt = address c \<or> destAddr pkt = BROADCAST_ADDRESS
         then [(srcAddr pkt, payload pkt)] else [])"
      using wait_data_data_sentUp [OF s cp(1)] st by (auto simp: state_ok_timers node_simps)
    then have r: "dispatch e c m ?n = Inr n'"
      using True unfolding d by (simp add: in_state_def node_simps in_WAIT_DATA_def with_pkt_def)
    then have "xinv c n'" using xmac_step_ok [OF s x step] by (simp add: okE_grows_def)
    then have "MacSelfPkt pkt \<notin> pending (fes n')" using n'(2) by (auto simp: xinv_def packets_defs)
    then show ?thesis using step r n'(3) True by auto
  next
    case False
    then have "\<exists>n'. dispatch e c m ?n = Inr n' \<and> sentUp n' = sentUp n \<and>
        MacSelfPkt pkt \<in> pending (fes n') \<and> macState n' = WAIT_DATA"
      using cp(3) st settingD [OF s] unfolding d
      by (auto simp: in_state_def node_simps state_ok_timers in_CCA_def in_CCA_LOST_def in_CCA2_def
          data_to_wait_def with_pkt_def put_self_def pending_insert)
    then show ?thesis using step False by auto
  qed
qed

text \<open>
  In the X-MAC mode the acknowledgment of a preamble has no receiver: a node that is assessing the
  channel and finds itself in a preamble is about to acknowledge it to the unspecified address, which
  the sender, checking the destination, ignores.
\<close>

theorem early_ack_unaddressed:
  assumes "default_radio e" and "rand_ok e" and "conf_ok c" and "xmac_reach e c (xnode_start g) n"
    and f: "fes n = (t, p, ToMac pkt) # es" and "\<not> hasBitError pkt" "pkt_kind pkt = XMAC_PREAMBLE"
    and "xmac c" and "macState n = CCA" and "inList c pkt"
  shows "\<exists>n'. xmac_step e c n (Inr n') \<and> macState n' = SEND_ACK2 \<and>
    destDestAddrAck2 n' = UNSPECIFIED_ADDRESS"
proof -
  have s: "setting e c" using assms(1-3) by (simp add: setting_def)
  have x: "xinv c n" by (rule reach_xinv [OF s assms(4)])
  let ?n = "popped t es n"
  note cp = calm_popped_packet [OF x f, simplified]
  have step: "xmac_step e c n (dispatch e c (ToMac pkt) ?n)"
    using xmac_step.deliver [OF f, of e c] by (simp add: popped_def)
  have st: "radioMode n = RADIO_MODE_RECEIVER" "mac_timers ?n = {cca_timeout}"
      "destDestAddrAck2 n = UNSPECIFIED_ADDRESS"
    using x \<open>macState n = CCA\<close> cp(5) by (auto simp: xinv_def state_ok_timers)
  obtain S where "note_preamble c XMAC_PREAMBLE (Some pkt) ?n = Inr (?n\<lparr>pendingPreambles := S\<rparr>)"
    by (rule note_preamble_pkt)
  then have d: "dispatch e c (ToMac pkt) ?n = in_CCA e c XMAC_PREAMBLE (Some pkt) (?n\<lparr>pendingPreambles := S\<rparr>)"
    using assms(6,7,9)
    by (simp add: handleLowerPacket_def handleSelfMessage_def bindE_acts_Nil in_state_def node_simps)
  have "idle_radio (?n\<lparr>pendingPreambles := S\<rparr>)"
    using cp(1) by (simp add: node_simps)
  then show ?thesis
    using st assms(8-10) settingD [OF s] step unfolding d
    by (auto simp: in_CCA_def cca_preamble_def with_pkt_def node_simps setRadioMode_transmitter)
qed

subsection \<open>Sending\<close>

text \<open>The states a node that wants to transmit never leaves.\<close>

definition lost_states :: "mac_state set" where
  "lost_states = {SEND_PREAMBLE, SEND_DATA, SEND_ACK, WAIT_ACK_TX, SEND_ACK2, WAIT_ACK2_TX}"

text \<open>The radio leaves the MAC layer alone, but for its timers.\<close>

definition keeps :: "action \<Rightarrow> bool" where
  "keeps f \<longleftrightarrow> (\<forall>n n'. f n = Inr n' \<longrightarrow> macState n' = macState n \<and> sentUp n' = sentUp n)"

lemma keeps_acts: "list_all keeps fs \<Longrightarrow> keeps (acts fs)"
proof (induction fs)
  case (Cons f fs)
  then have k: "keeps f" "keeps (acts fs)" by simp_all
  show ?case
    unfolding keeps_def acts_simps bindE_Inr_iff using k unfolding keeps_def by metis
qed (simp add: keeps_def)

lemma keeps_if [simp]: "keeps f \<Longrightarrow> keeps g \<Longrightarrow> keeps (\<lambda>n. if P n then f n else g n)"
  by (auto simp: keeps_def)

lemma keeps_return [simp]: "keeps Inr" "keeps (\<lambda>n. Inr n)"
  by (simp_all add: keeps_def)

lemma keeps_scheduleAt [simp]: "keeps (\<lambda>n. scheduleAt (t n) (m n) n)" "keeps (scheduleAt x k)"
  by (auto simp: keeps_def scheduleAt_def)

lemma keeps_receiveSignal: "keeps (receiveSignal sg)"
proof (cases sg)
  case (radioModeChangedSignal m)
  then show ?thesis by (auto simp: keeps_def scheduleAt_def split: if_splits)
next
  case (transmissionStateChangedSignal x)
  then show ?thesis by (auto simp: keeps_def scheduleAt_def split: if_splits)
qed

lemma keeps_update: "keeps (updateTransceiverState e)"
  using keeps_receiveSignal [of "transmissionStateChangedSignal x" for x]
  by (fastforce simp: keeps_def updateTransceiverState_def Let_def simp del: receiveSignal.simps
      split: if_splits)

lemma keeps_dispatch:
  assumes "\<forall>k. m \<noteq> MacTimer k" and "\<not> to_mac m" and "m \<noteq> switchTimer"
  shows "keeps (dispatch e c m)"
proof (cases m)
  case (ToRadio k)
  then show ?thesis
    using keeps_update [of e]
    by (auto simp: keeps_def radio_handleUpperPacket_def startTransmission_def scheduleAt_def
        split: if_splits)
next
  case transmissionTimer
  then show ?thesis using keeps_update [of e] by (simp add: endTransmission_def)
next
  case (ReceptionTimer i k)
  then show ?thesis
    using keeps_update [of e]
    by (auto simp: keeps_def endReception_def send_msg_def split: if_splits)
qed (use assms in auto)

lemma lost_timer_step:
  assumes x: "xinv c n" and l: "macState n \<in> lost_states" and f: "fes n = (t, p, MacTimer k) # es"
    and r: "dispatch e c (MacTimer k) (popped t es n) = Inr n'"
  shows "macState n' \<in> lost_states \<and> sentUp n' = sentUp n"
proof -
  let ?n = "popped t es n"
  have k: "k \<in> mac_timers n" using f by (simp add: mac_timers_def fes_simps)
  have "in_state e c (timer_kind k) None ?n = Inr n'"
    using r by (simp add: handleSelfMessage_def node_simps bindE_acts_Nil)
  moreover have "(macState n, k) \<in> {(SEND_PREAMBLE, stop_preambles), (SEND_ACK, send_ack), (SEND_ACK2, send_ack2)}"
    using x l k by (auto simp: xinv_def state_ok_timers lost_states_def)
  ultimately show ?thesis
    by (auto simp: in_state_def node_simps in_SEND_PREAMBLE_def in_SEND_ACK_def in_SEND_ACK2_def
        sendMacAck_def sendMacAck2_def send_msg_def lost_states_def Let_def)
qed

lemma lost_step:
  assumes x: "xinv c n" and l: "macState n \<in> lost_states" and step: "xmac_step e c n (Inr n')"
  shows "macState n' \<in> lost_states \<and> sentUp n' = sentUp n"
  using step
proof (cases rule: xmac_step.cases)
  case (deliver t p m es)
  have r: "dispatch e c m (popped t es n) = Inr n'" using deliver by (simp add: popped_def)
  have in_m: "m \<in> pending (fes n)" using deliver(2) by (simp add: fes_simps)
  show ?thesis
  proof (cases "\<exists>k. m = MacTimer k")
    case True
    then show ?thesis using lost_timer_step [OF x l] deliver(2) r by auto
  next
    case False
    have "radioMode n = RADIO_MODE_TRANSMITTER"
      using x l by (auto simp: xinv_def state_ok_timers lost_states_def)
    then have "\<not> to_mac m" "m \<noteq> switchTimer"
      using x in_m by (auto simp: xinv_def packets_defs radio_ok_def)
    then have "keeps (dispatch e c m)" using False by (intro keeps_dispatch) auto
    then show ?thesis using r l unfolding keeps_def by (simp add: node_simps)
  qed
next
  case (from_network t m)
  then have "handleUpperPacket e c m (n\<lparr>simTime := t\<rparr>) = Inr n'" by simp
  then show ?thesis using l
    by (auto simp: handleUpperPacket_def addToQueue_def lost_states_def split: if_splits)
next
  case (from_air t d pkt attempted)
  have k: "keeps (startReception e attempted d pkt)"
    using keeps_update [of e]
    by (auto simp: keeps_def startReception_def scheduleAt_def Let_def split: if_splits)
  have "startReception e attempted d pkt (n\<lparr>simTime := t\<rparr>) = Inr n'" using from_air(1) by simp
  with k have "macState n' = macState (n\<lparr>simTime := t\<rparr>) \<and> sentUp n' = sentUp (n\<lparr>simTime := t\<rparr>)"
    unfolding keeps_def by blast
  then show ?thesis using l by simp
qed

text \<open>
  C34: a node that has begun to transmit anything is lost: it keeps its radio in the transmitter mode,
  never wakes up, receives or passes up a packet again, whatever arrives.
\<close>

theorem sender_is_lost:
  assumes "default_radio e" and "rand_ok e" and "conf_ok c" and "xmac_reach e c (xnode_start g) n"
    and l: "macState n \<in> lost_states" and "xmac_reach e c n n'"
  shows "macState n' \<in> lost_states \<and> radioMode n' = RADIO_MODE_TRANSMITTER \<and> sentUp n' = sentUp n"
proof -
  have s: "setting e c" using assms(1-3) by (simp add: setting_def)
  have x: "xinv c n" by (rule reach_xinv [OF s assms(4)])
  from assms(6) have "xinv c n' \<and> macState n' \<in> lost_states \<and> sentUp n' = sentUp n"
  proof (induction rule: xmac_reach.induct)
    case (step n1 n2)
    then show ?case
      using lost_step [of c n1 e n2] xmac_step_ok [OF s, of n1 "Inr n2"] by (auto simp: okE_grows_def)
  qed (use x l in simp)
  then show ?thesis by (auto simp: xinv_def state_ok_timers lost_states_def)
qed

text \<open>
  C8: no data ever leaves a node with the default radio: what it puts on air are acknowledgments only,
  no preamble and no data packet, and every packet it accepts stays in its queue, in order.
\<close>

theorem data_never_sent:
  assumes "default_radio e" and "rand_ok e" and "conf_ok c" and "xmac_reach e c (xnode_start g) n"
    and "xmac_reach e c n n'"
  shows "(\<forall>k\<in>set (onAir n'). pkt_kind k \<in> {XMAC_ACK, XMAC_ACK2}) \<and>
    (\<exists>ks. macQueue n' = macQueue n @ ks)"
proof -
  have s: "setting e c" using assms(1-3) by (simp add: setting_def)
  have x: "xinv c n'" using xmac_reach_trans [OF assms(5,4)] reach_xinv [OF s] by blast
  then show ?thesis
    using xmac_reach_inv [OF s assms(5) reach_xinv [OF s assms(4)]]
    by (simp add: xinv_def packets_ok_def acks_def)
qed

text \<open>The queue holds less than one packet more than its bound.\<close>

theorem mac_queue_bounded:
  assumes "default_radio e" and "rand_ok e" and "conf_ok c" and "xmac_reach e c (xnode_start g) n"
  shows "real (length (macQueue n)) < max 0 (queueLength c) + 1"
  using assms(4)
proof (induction rule: xmac_reach.induct)
  case refl
  then show ?case by (simp add: xnode_start_def)
next
  case (step n1 n2)
  have s: "setting e c" using assms(1-3) by (simp add: setting_def)
  have "okE_grows c n1 (Inr n2)" using xmac_step_ok [OF s reach_xinv [OF s step(1)] step(2)] .
  then obtain ks where "macQueue n2 = macQueue n1 @ ks"
    "ks \<noteq> [] \<longrightarrow> real (length (macQueue n2)) < queueLength c + 1" by (auto simp: okE_grows_def)
  then show ?case using step.IH by (cases "ks = []") auto
qed

end
