(* ===== verification/Xmac_Examples.thy ===== *)
theory Xmac_Examples
  imports Xmac_Props
begin

text \<open>A node on which the properties of the X-MAC layer are applied, and its first steps.\<close>

definition xdemo_env :: xmac_env where
  "xdemo_env = \<lparr>dblrand = (\<lambda>_. 0), switchingTimes = (\<lambda>_ _. 0), airTime = (\<lambda>_. 1 / 10),
     listening = (\<lambda>_. False)\<rparr>"

definition xdemo_conf :: xmac_conf where
  "xdemo_conf = \<lparr>address = 7, queueLength = 2, slotDuration = 1, bitrate = 10, headerLength = 10,
     checkInterval = 1 / 2, useMacAcks = False, maxTxAttempts = 2, addrSize = 8, xmac = True,
     useAck2 = False, PreambleAddress = False\<rparr>"

lemma xdemo_setting: "default_radio xdemo_env" "rand_ok xdemo_env" "conf_ok xdemo_conf"
  by (simp_all add: default_radio_def rand_ok_def conf_ok_def xdemo_env_def xdemo_conf_def)

abbreviation xdemo_start :: xnode where
  "xdemo_start \<equiv> xnode_start TRANSMISSION_STATE_UNDEFINED"

definition xdemo_asleep :: xnode where
  "xdemo_asleep = xdemo_start\<lparr>macState := SLEEP, radioMode := RADIO_MODE_SLEEP,
     nextRadioMode := RADIO_MODE_SLEEP, previousRadioMode := RADIO_MODE_SLEEP,
     fes := [(0, 0, MacTimer wakeup)], draws := 1\<rparr>"

definition xdemo_listening :: "xmac_pkt list \<Rightarrow> nat \<Rightarrow> xnode" where
  "xdemo_listening q k = xdemo_start\<lparr>macState := CCA, prevMacState := SLEEP, macQueue := q,
     radioMode := RADIO_MODE_RECEIVER, nextRadioMode := RADIO_MODE_RECEIVER,
     previousRadioMode := RADIO_MODE_RECEIVER, receptionState := RECEPTION_STATE_IDLE,
     fes := [(1 / 2, 100, MacTimer cca_timeout)], draws := k\<rparr>"

lemmas xdemo_defs = xdemo_env_def xdemo_conf_def xdemo_asleep_def xdemo_listening_def xnode_start_def

lemmas run_defs = handleSelfMessage_def note_preamble_def in_state_def in_INIT_def in_SLEEP_def
  in_CCA_def drawn_def after_def scheduleAt_def isScheduled_def cancelEvent_def send_msg_def enter_def
  setRadioMode_def completeRadioModeSwitch_def abortReception_def isReceiverMode_def
  isTransmitterMode_def updateTransceiverState_def new_reception_state_def new_transmission_state_def
  reception_pending_def handleUpperPacket_def addToQueue_def startReception_def endReception_def

text \<open>Delivering the only pending event.\<close>

lemma xdemo_deliver:
  assumes "fes n = (t, p, m) # es" and "dispatch e c m (n\<lparr>simTime := t, fes := es\<rparr>) = Inr n'"
  shows "xmac_step e c n (Inr n')"
  using xmac_step.deliver [OF assms(1), of e c] assms(2) by simp

lemma xdemo_step1: "xmac_step xdemo_env xdemo_conf xdemo_start (Inr xdemo_asleep)"
  by (rule xdemo_deliver [where t = 0 and p = 0 and m = "MacTimer start_xmac" and es = "[]"])
    (simp_all add: run_defs xdemo_defs)

lemma xdemo_asleep_reach: "xmac_reach xdemo_env xdemo_conf xdemo_start xdemo_asleep"
  by (rule xmac_reach.step [OF xmac_reach.refl xdemo_step1])

lemma xdemo_step2: "xmac_step xdemo_env xdemo_conf xdemo_asleep (Inr (xdemo_listening [] 1))"
  by (rule xdemo_deliver [where t = 0 and p = 0 and m = "MacTimer wakeup" and es = "[]"])
    (simp_all add: run_defs xdemo_defs)

definition xdemo_receiving :: "xmac_pkt \<Rightarrow> xnode" where
  "xdemo_receiving pkt = (xdemo_listening [] 1)\<lparr>receptionTimer := Some 0, timers_made := 1,
     receptionState := RECEPTION_STATE_RECEIVING,
     fes := [(1 / 10, 0, ReceptionTimer 0 pkt), (1 / 2, 100, MacTimer cca_timeout)]\<rparr>"

definition xdemo_hears :: "xmac_pkt \<Rightarrow> xnode" where
  "xdemo_hears pkt = (xdemo_listening [] 1)\<lparr>timers_made := 1, simTime := 1 / 10,
     fes := [(1 / 10, 0, ToMac pkt), (1 / 2, 100, MacTimer cca_timeout)]\<rparr>"

lemma xdemo_step3:
  assumes "pkt_kind pkt \<in> frame_kinds"
  shows "xmac_step xdemo_env xdemo_conf (xdemo_listening [] 1) (Inr (xdemo_receiving pkt))"
proof -
  have "startReception xdemo_env True (1 / 10) pkt ((xdemo_listening [] 1)\<lparr>simTime := 0\<rparr>)
      = Inr (xdemo_receiving pkt)"
    by (simp add: run_defs xdemo_defs xdemo_receiving_def)
  moreover have "may_happen 0 (xdemo_listening [] 1)" by (simp add: may_happen_def xdemo_defs)
  ultimately show ?thesis
    using xmac_step.from_air [of 0 "xdemo_listening [] 1" "1 / 10" pkt xdemo_env xdemo_conf True] assms
    by simp
qed

lemma xdemo_step4: "xmac_step xdemo_env xdemo_conf (xdemo_receiving pkt) (Inr (xdemo_hears pkt))"
  by (rule xdemo_deliver [where t = "1 / 10" and p = 0 and m = "ReceptionTimer 0 pkt"
      and es = "[(1 / 2, 100, MacTimer cca_timeout)]"])
    (simp_all add: run_defs xdemo_defs xdemo_receiving_def xdemo_hears_def)

lemma xdemo_hears_reach:
  "pkt_kind pkt \<in> frame_kinds \<Longrightarrow> xmac_reach xdemo_env xdemo_conf xdemo_start (xdemo_hears pkt)"
  by (blast intro: xmac_reach.step xdemo_asleep_reach xdemo_step2 xdemo_step3 xdemo_step4)

subsection \<open>A node with a packet to send\<close>

definition xdemo_netw :: netw_pkt where
  "xdemo_netw = \<lparr>ctl_dest = 9, netw_kind = XMAC_DATA, netw_bits = 8, netw_data = 5\<rparr>"

definition xdemo_queue :: "xmac_pkt list" where
  "xdemo_queue = [encapsMsg xdemo_conf xdemo_netw]"

definition xdemo_sender :: xnode where
  "xdemo_sender = (xdemo_listening xdemo_queue 2)\<lparr>macState := SEND_PREAMBLE, prevMacState := CCA,
     radioMode := RADIO_MODE_TRANSMITTER, nextRadioMode := RADIO_MODE_TRANSMITTER,
     previousRadioMode := RADIO_MODE_TRANSMITTER, receptionState := RECEPTION_STATE_UNDEFINED,
     radioTransmissionState := TRANSMISSION_STATE_IDLE, simTime := 1 / 2,
     fes := [(3 / 2, 0, MacTimer stop_preambles)]\<rparr>"

lemma xdemo_step5:
  "xmac_step xdemo_env xdemo_conf xdemo_asleep (Inr (xdemo_asleep\<lparr>macQueue := xdemo_queue, draws := 2\<rparr>))"
proof -
  have "handleUpperPacket xdemo_env xdemo_conf xdemo_netw (xdemo_asleep\<lparr>simTime := 0\<rparr>)
      = Inr (xdemo_asleep\<lparr>macQueue := xdemo_queue, draws := 2\<rparr>)"
    by (simp add: run_defs xdemo_defs xdemo_queue_def)
  moreover have "may_happen 0 xdemo_asleep" by (simp add: may_happen_def xdemo_defs)
  ultimately show ?thesis
    using xmac_step.from_network [of 0 xdemo_asleep xdemo_env xdemo_conf xdemo_netw] by simp
qed

lemma xdemo_step6: "xmac_step xdemo_env xdemo_conf (xdemo_asleep\<lparr>macQueue := xdemo_queue, draws := 2\<rparr>)
    (Inr (xdemo_listening xdemo_queue 2))"
  by (rule xdemo_deliver [where t = 0 and p = 0 and m = "MacTimer wakeup" and es = "[]"])
    (simp_all add: run_defs xdemo_defs)

lemma xdemo_step7: "xmac_step xdemo_env xdemo_conf (xdemo_listening xdemo_queue 2) (Inr xdemo_sender)"
  by (rule xdemo_deliver [where t = "1 / 2" and p = 100 and m = "MacTimer cca_timeout" and es = "[]"])
    (simp_all add: run_defs xdemo_defs xdemo_sender_def xdemo_queue_def)

lemma xdemo_sender_reach: "xmac_reach xdemo_env xdemo_conf xdemo_start xdemo_sender"
  by (blast intro: xmac_reach.step xdemo_asleep_reach xdemo_step5 xdemo_step6 xdemo_step7)

subsection \<open>Witnesses\<close>

lemma xmac_node_safe_witness:
  "\<exists>n'. (Inr xdemo_asleep :: fault + xnode) = Inr n' \<and> fes_ok xdemo_conf (simTime n') (fes n') \<and> state_ok n'"
  by (rule xmac_node_safe [OF xdemo_setting xmac_reach.refl xdemo_step1])

lemma xmac_deadlines_witness:
  "\<exists>u p. (u, p, MacTimer wakeup) \<in> set (fes xdemo_asleep) \<and> simTime xdemo_asleep \<le> u \<and>
     u \<le> simTime xdemo_asleep + max (slotDuration xdemo_conf) tenth_f"
  by (rule xmac_deadlines [OF xdemo_setting xdemo_asleep_reach]) (simp add: xdemo_asleep_def)

definition xdemo_data :: xmac_pkt where
  "xdemo_data = new_pkt\<lparr>srcAddr := 9, destAddr := 7, payload := Some 5\<rparr>"

lemma data_passed_up_once_witness:
  "\<exists>n'. xmac_step xdemo_env xdemo_conf (xdemo_hears xdemo_data) (Inr n') \<and>
     sentUp n' = [] \<and> MacSelfPkt xdemo_data \<in> pending (fes n') \<and> macState n' = WAIT_DATA"
  using data_passed_up_once [OF xdemo_setting xdemo_hears_reach [of xdemo_data],
      of "1 / 10" 0 "ToMac xdemo_data" "[(1 / 2, 100, MacTimer cca_timeout)]" xdemo_data]
  by (simp add: xdemo_hears_def xdemo_listening_def xdemo_data_def new_pkt_def frame_kinds_def
      xnode_start_def)

definition xdemo_preamble :: xmac_pkt where
  "xdemo_preamble = new_pkt\<lparr>srcAddr := 9, destAddr := BROADCAST_ADDRESS, pkt_kind := XMAC_PREAMBLE,
     destinationAddress := [7]\<rparr>"

lemma early_ack_unaddressed_witness:
  "\<exists>n'. xmac_step xdemo_env xdemo_conf (xdemo_hears xdemo_preamble) (Inr n') \<and> macState n' = SEND_ACK2 \<and>
     destDestAddrAck2 n' = UNSPECIFIED_ADDRESS"
  by (rule early_ack_unaddressed [OF xdemo_setting xdemo_hears_reach [of xdemo_preamble],
        of "1 / 10" 0 xdemo_preamble "[(1 / 2, 100, MacTimer cca_timeout)]"])
    (simp_all add: xdemo_hears_def xdemo_listening_def xdemo_preamble_def new_pkt_def frame_kinds_def
      xdemo_conf_def inList_def xnode_start_def)

lemma sender_is_lost_witness:
  "macState xdemo_sender \<in> lost_states \<and> radioMode xdemo_sender = RADIO_MODE_TRANSMITTER \<and>
     sentUp xdemo_sender = sentUp xdemo_sender"
  by (rule sender_is_lost [OF xdemo_setting xdemo_sender_reach _ xmac_reach.refl])
    (simp add: xdemo_sender_def lost_states_def)

lemma data_never_sent_witness:
  "\<exists>ks. macQueue xdemo_sender = macQueue xdemo_asleep @ ks"
proof -
  have "xmac_reach xdemo_env xdemo_conf xdemo_asleep xdemo_sender"
    by (blast intro: xmac_reach.intros xdemo_step5 xdemo_step6 xdemo_step7)
  then show ?thesis by (rule data_never_sent [OF xdemo_setting xdemo_asleep_reach, THEN conjunct2])
qed

lemma mac_queue_bounded_witness:
  "real (length (macQueue xdemo_sender)) < max 0 (queueLength xdemo_conf) + 1"
  by (rule mac_queue_bounded [OF xdemo_setting xdemo_sender_reach])

end
