(* ===== verification/Std_Map.thy ===== *)
theory Std_Map
  imports Prelude
begin

text \<open>
  \<open>std::map\<close>: the list of its pairs in the order of an iteration, increasing in the key.  The
  operations are the ones the DSR data base uses: \<open>find\<close>, \<open>m[k] = v\<close> (or the assignment through
  an iterator), \<open>erase\<close>, and the loop that shortens every value of a map of deques and then
  erases the keys whose deque became empty.  The locale \<open>buckets\<close> is what the caches ask of such
  a map; it is interpreted on the model at the end.
\<close>

type_synonym ('k, 'v) smap = "('k \<times> 'v) list"

abbreviation smap_find :: "('k, 'v) smap \<Rightarrow> 'k \<Rightarrow> 'v option" where
  "smap_find m k \<equiv> map_of m k"

fun smap_put :: "'k::linorder \<Rightarrow> 'v \<Rightarrow> ('k, 'v) smap \<Rightarrow> ('k, 'v) smap" where
  "smap_put k v [] = [(k, v)]"
| "smap_put k v ((k', v') # r) =
     (if k < k' then (k, v) # (k', v') # r
      else if k = k' then (k, v) # r
      else (k', v') # smap_put k v r)"

definition smap_erase :: "'k \<Rightarrow> ('k, 'v) smap \<Rightarrow> ('k, 'v) smap" where
  "smap_erase k m = filter (\<lambda>(k', _). k' \<noteq> k) m"

text \<open>
  One pass over all buckets: \<open>f\<close> is what the inner loop leaves of a bucket; the keys of the empty
  ones are collected and erased in a second loop, last one first.
\<close>

definition smap_prune ::
    "('k \<Rightarrow> 'a list \<Rightarrow> 'a list) \<Rightarrow> ('k, 'a list) smap \<Rightarrow> ('k, 'a list) smap" where
  "smap_prune f m =
     (let m' = map (\<lambda>(k, v). (k, f k v)) m;
          erased = map fst (filter (\<lambda>(k, v). v = []) m')
      in foldr smap_erase erased m')"

definition smap_ok :: "('k::linorder, 'v) smap \<Rightarrow> bool" where
  "smap_ok m \<longleftrightarrow> sorted_wrt (<) (map fst m)"

subsection \<open>The laws of the map\<close>

lemma smap_ok_Nil [simp]: "smap_ok []"
  by (simp add: smap_ok_def)

lemma smap_ok_distinct: "smap_ok m \<Longrightarrow> distinct (map fst m)"
  by (simp add: smap_ok_def strict_sorted_iff)

lemma smap_find_in: "smap_ok m \<Longrightarrow> smap_find m k = Some v \<longleftrightarrow> (k, v) \<in> set m"
  by (simp add: smap_ok_distinct)

lemma keys_put: "set (map fst (smap_put k v m)) = insert k (set (map fst m))"
  by (induction k v m rule: smap_put.induct) auto

lemma smap_ok_put [simp]: "smap_ok m \<Longrightarrow> smap_ok (smap_put k v m)"
proof (induction k v m rule: smap_put.induct)
  case (2 k v k' v' r)
  then have "\<forall>x\<in>insert k (set (map fst r)). k' < x" if "k > k'"
    using that by (auto simp: smap_ok_def)
  then show ?case
    using 2 keys_put [of k v r] by (auto simp: smap_ok_def not_less_iff_gr_or_eq)
qed (simp add: smap_ok_def)

lemma find_put [simp]: "smap_ok m \<Longrightarrow> smap_find (smap_put k v m) = (smap_find m)(k \<mapsto> v)"
proof (induction k v m rule: smap_put.induct)
  case (2 k v k' v' r)
  have "smap_ok r" using "2.prems" by (simp add: smap_ok_def)
  then show ?case
    by (cases "k < k'"; cases "k = k'") (use 2 in \<open>auto simp: fun_upd_twist\<close>)
qed simp

lemma find_erase [simp]: "smap_find (smap_erase k m) = (smap_find m)(k := None)"
  by (induction m) (auto simp: smap_erase_def)

lemma smap_ok_filter: "smap_ok m \<Longrightarrow> smap_ok (filter P m)"
  by (induction m) (auto simp: smap_ok_def)

lemma smap_ok_erase [simp]: "smap_ok m \<Longrightarrow> smap_ok (smap_erase k m)"
  by (simp add: smap_erase_def smap_ok_filter)

lemma smap_erase_all: "foldr smap_erase ks m = filter (\<lambda>(k, _). k \<notin> set ks) m"
  by (induction ks) (auto simp: smap_erase_def conj_commute case_prod_beta intro: filter_cong)

lemma smap_ok_map_values: "smap_ok (map (\<lambda>(k, v). (k, f k v)) m) = smap_ok m"
  by (simp add: smap_ok_def case_prod_beta comp_def)

lemma smap_ok_prune [simp]: "smap_ok m \<Longrightarrow> smap_ok (smap_prune f m)"
  by (simp add: smap_prune_def Let_def smap_erase_all smap_ok_filter smap_ok_map_values)

lemma key_of_filter:
  assumes "distinct (map fst m)" and "(k, v) \<in> set m"
  shows "k \<in> set (map fst (filter P m)) \<longleftrightarrow> P (k, v)"
proof
  assume "k \<in> set (map fst (filter P m))"
  then obtain w where "(k, w) \<in> set m" "P (k, w)" by auto
  with assms show "P (k, v)" using eq_key_imp_eq_value by metis
next
  assume "P (k, v)"
  with assms(2) show "k \<in> set (map fst (filter P m))" by (force simp: image_iff)
qed

lemma smap_prune_filter:
  assumes "smap_ok m"
  shows "smap_prune f m = filter (\<lambda>(k, v). v \<noteq> []) (map (\<lambda>(k, v). (k, f k v)) m)"
    (is "_ = filter ?Q ?m")
proof -
  let ?ks = "map fst (filter (\<lambda>(k, v). v = []) ?m)"
  have "distinct (map fst ?m)"
    using assms by (intro smap_ok_distinct) (simp only: smap_ok_map_values)
  then have "(case x of (k, _) \<Rightarrow> k \<notin> set ?ks) = ?Q x" if "x \<in> set ?m" for x
    using key_of_filter [of ?m "fst x" "snd x" "\<lambda>(k, v). v = []"] that
    by (simp only: case_prod_beta prod.collapse)
  then have "filter (\<lambda>(k, _). k \<notin> set ?ks) ?m = filter ?Q ?m"
    by (intro filter_cong refl)
  then show ?thesis by (simp only: smap_prune_def Let_def smap_erase_all)
qed

text \<open>A bucket that became empty is the same as no bucket.\<close>

definition bucket_opt :: "'a list option \<Rightarrow> 'a list option" where
  "bucket_opt b = (case b of Some [] \<Rightarrow> None | _ \<Rightarrow> b)"

lemma bucket_opt_simps [simp]:
  "bucket_opt None = None" "bucket_opt (Some []) = None" "bucket_opt (Some (x # xs)) = Some (x # xs)"
  "bucket_opt (Some ys) = (if ys = [] then None else Some ys)"
  by (auto simp: bucket_opt_def split: list.split)

lemma find_map_values: "smap_find (map (\<lambda>(k, v). (k, f k v)) m) k = map_option (f k) (smap_find m k)"
  by (induction m) auto

lemma find_filter:
  "distinct (map fst m) \<Longrightarrow> smap_find (filter P m) k =
     (case smap_find m k of None \<Rightarrow> None | Some v \<Rightarrow> if P (k, v) then Some v else None)"
  by (induction m) (auto split: option.splits simp: map_of_eq_None_iff)

lemma find_prune [simp]:
  assumes "smap_ok m"
  shows "smap_find (smap_prune f m) k = bucket_opt (map_option (f k) (smap_find m k))"
proof -
  have "distinct (map fst (map (\<lambda>(k, v). (k, f k v)) m))"
    using assms by (intro smap_ok_distinct) (simp only: smap_ok_map_values)
  then show ?thesis
    unfolding smap_prune_filter [OF assms]
    by (simp only: find_filter find_map_values) (simp split: option.split)
qed

lemma prune_nonempty:
  assumes "smap_ok m" and "smap_find (smap_prune f m) k = Some v"
  shows "v \<noteq> []"
  using assms by (auto simp: bucket_opt_def split: option.splits list.splits)

subsection \<open>The interface of the caches\<close>

text \<open>
  A cache is a map of buckets none of which is empty and all of which satisfy a predicate \<open>I\<close>.
  A client reads a cache by the entry a predicate picks out of a bucket.
\<close>

locale bucket_map =
  fixes find :: "'m \<Rightarrow> 'k \<Rightarrow> 'a list option"
    and put :: "'k \<Rightarrow> 'a list \<Rightarrow> 'm \<Rightarrow> 'm"
    and erase :: "'k \<Rightarrow> 'm \<Rightarrow> 'm"
    and prune :: "('k \<Rightarrow> 'a list \<Rightarrow> 'a list) \<Rightarrow> 'm \<Rightarrow> 'm"
    and ok :: "'m \<Rightarrow> bool"
  assumes put_ok: "ok m \<Longrightarrow> ok (put k v m)"
    and erase_ok: "ok m \<Longrightarrow> ok (erase k m)"
    and prune_ok: "ok m \<Longrightarrow> ok (prune f m)"
    and put_find: "ok m \<Longrightarrow> find (put k v m) k' = (if k' = k then Some v else find m k')"
    and erase_find: "ok m \<Longrightarrow> find (erase k m) k' = (if k' = k then None else find m k')"
    and prune_find: "ok m \<Longrightarrow> find (prune f m) k = bucket_opt (map_option (f k) (find m k))"
begin

definition full :: "('k \<Rightarrow> 'a list \<Rightarrow> bool) \<Rightarrow> 'm \<Rightarrow> bool" where
  "full I m \<longleftrightarrow> ok m \<and> (\<forall>k v. find m k = Some v \<longrightarrow> v \<noteq> [] \<and> I k v)"

definition entry :: "('a \<Rightarrow> bool) \<Rightarrow> 'm \<Rightarrow> 'k \<Rightarrow> 'a option" where
  "entry P m k = (case find m k of None \<Rightarrow> None | Some v \<Rightarrow> List.find P v)"

lemma full_put: "full I m \<Longrightarrow> v \<noteq> [] \<Longrightarrow> I k v \<Longrightarrow> full I (put k v m)"
  by (simp add: full_def put_ok put_find)

lemma full_erase: "full I m \<Longrightarrow> full I (erase k m)"
  by (simp add: full_def erase_ok erase_find)

lemma full_prune:
  assumes "full I m" and "\<And>k v. I k v \<Longrightarrow> I k (f k v)"
  shows "full I (prune f m)"
proof -
  have "v \<noteq> [] \<and> I k v" if "bucket_opt (map_option (f k) (find m k)) = Some v" for k v
  proof (cases "find m k")
    case (Some w)
    with assms have "I k (f k w)" by (simp add: full_def)
    with that Some show ?thesis by (simp split: if_splits)
  qed (use that in simp)
  then show ?thesis using assms(1) by (simp add: full_def prune_ok prune_find)
qed

lemma full_nonempty: "full I m \<Longrightarrow> find m k \<noteq> Some []"
  by (auto simp: full_def)

text \<open>What a client sees of a bucket that was shortened and written back, or erased when empty.\<close>

lemma full_write_back:
  "full I m \<Longrightarrow> I k v \<Longrightarrow> full I (if v = [] then erase k m else put k v m)"
  by (simp add: full_put full_erase)

lemma entry_write_back:
  "ok m \<Longrightarrow> entry P (if v = [] then erase k m else put k v m) k' =
     (if k' = k then List.find P v else entry P m k')"
  by (simp add: entry_def put_find erase_find)

lemma entry_put: "ok m \<Longrightarrow> entry P (put k v m) k' = (if k' = k then List.find P v else entry P m k')"
  by (simp add: entry_def put_find)

lemma entry_erase: "ok m \<Longrightarrow> entry P (erase k m) k' = (if k' = k then None else entry P m k')"
  by (simp add: entry_def erase_find)

lemma entry_prune:
  "ok m \<Longrightarrow> entry P (prune f m) k =
     (case find m k of None \<Rightarrow> None | Some v \<Rightarrow> List.find P (f k v))"
  by (auto simp: entry_def prune_find bucket_opt_def split: option.split list.split)

end

interpretation bm: bucket_map smap_find smap_put smap_erase smap_prune smap_ok
  by unfold_locales simp_all

end
