(* ===== verification/Binary64.thy ===== *)
theory Binary64
  imports Prelude
begin

text \<open>
  Addition of C++ \<open>double\<close>s where its rounding decides a result: the exact sum, rounded to a
  53-bit significand, ties to even.  Overflow, subnormal numbers and NaN are outside the range of
  the costs and are not modelled.  On sums of integers below \<open>2 ^ 53\<close> nothing is rounded.
\<close>

definition round_half_even :: "real \<Rightarrow> int" where
  "round_half_even x =
     (let n = \<lfloor>x\<rfloor>; d = x - of_int n
      in if d < 1/2 then n else if d > 1/2 then n + 1 else if even n then n else n + 1)"

text \<open>The distance of the doubles around \<open>x\<close>.\<close>

definition ulp :: "real \<Rightarrow> real" where
  "ulp x = 2 powr of_int (\<lfloor>log 2 \<bar>x\<bar>\<rfloor> - 52)"

definition fround :: "real \<Rightarrow> real" where
  "fround x = (if x = 0 then 0 else of_int (round_half_even (x / ulp x)) * ulp x)"

definition fadd :: "real \<Rightarrow> real \<Rightarrow> real" where
  "fadd a b = fround (a + b)"

lemma round_half_even_of_int [simp]: "round_half_even (of_int k) = k"
  by (simp add: round_half_even_def)

lemma ulp_pos: "0 < ulp x"
  by (simp add: ulp_def)

lemma fround_0 [simp]: "fround 0 = 0"
  by (simp add: fround_def)

lemma fround_multiple: "x = of_int k * ulp x \<Longrightarrow> fround x = x"
  using ulp_pos [of x] by (metis fround_def less_irrefl nonzero_mult_div_cancel_right
    round_half_even_of_int mult_cancel_right)

lemma fround_of_int [simp]:
  assumes "\<bar>k\<bar> < 2 ^ 53"
  shows "fround (of_int k) = of_int k"
proof (cases "k = 0")
  case False
  define e where "e = \<lfloor>log 2 \<bar>real_of_int k\<bar>\<rfloor>"
  have "0 \<le> log 2 \<bar>real_of_int k\<bar>"
    using False by (simp add: zero_le_log_cancel_iff)
  moreover have "log 2 \<bar>real_of_int k\<bar> < 53"
  proof -
    have "real_of_int \<bar>k\<bar> < real_of_int (2 ^ 53)" using assms by (simp only: of_int_less_iff)
    then have "real_of_int \<bar>k\<bar> < 2 ^ 53" by simp
    then show ?thesis using False by (simp add: log_less_iff powr_numeral)
  qed
  ultimately have e: "0 \<le> e" "e \<le> 52"
    by (simp_all add: e_def)
  have "(2 :: real) powr of_int (52 - e) = 2 ^ nat (52 - e)"
    using e powr_realpow [of 2 "nat (52 - e)"] by simp
  moreover have "(2 :: real) powr of_int (52 - e) * 2 powr of_int (e - 52) = 1"
    by (simp add: powr_add [symmetric])
  ultimately have "(2 :: real) ^ nat (52 - e) * ulp (of_int k) = 1"
    by (simp add: ulp_def e_def [symmetric])
  then have "of_int k = of_int (k * 2 ^ nat (52 - e)) * ulp (of_int k)"
    by simp
  then show ?thesis by (rule fround_multiple)
qed simp

lemma fadd_of_int [simp]:
  "\<bar>i + j\<bar> < 2 ^ 53 \<Longrightarrow> fadd (of_int i) (of_int j) = of_int (i + j)"
  unfolding fadd_def of_int_add [symmetric] by (rule fround_of_int)

lemma fadd_of_nat:
  "i + j < 2 ^ 53 \<Longrightarrow> fadd (of_nat i) (of_nat j) = of_nat (i + j)"
  using fadd_of_int [of "int i" "int j"] by simp

lemma fadd_numeral [simp]:
  "numeral m + numeral n < (2 ^ 53 :: int) \<Longrightarrow> fadd (numeral m) (numeral n) = numeral (m + n)"
  "numeral n + 1 < (2 ^ 53 :: int) \<Longrightarrow> fadd (numeral n) 1 = numeral (n + num.One)"
  "1 + numeral n < (2 ^ 53 :: int) \<Longrightarrow> fadd 1 (numeral n) = numeral (num.One + n)"
  "numeral n < (2 ^ 53 :: int) \<Longrightarrow> fadd 0 (numeral n) = numeral n"
  "fadd 0 1 = 1" "fadd 0 0 = 0" "fadd 1 1 = 2"
  using fadd_of_int [of "numeral m" "numeral n"] fadd_of_int [of "numeral n" 1]
    fadd_of_int [of 1 "numeral n"] fadd_of_int [of 0 "numeral n"] fadd_of_int [of 0 1]
    fadd_of_int [of 0 0] fadd_of_int [of 1 1]
  by simp_all

text \<open>A term below half the distance of the doubles around a sum is lost.\<close>

lemma fround_absorb:
  assumes "b = of_int k * ulp b" and "\<bar>b + x\<bar> > 0" and "ulp (b + x) = ulp b"
    and "0 \<le> x" and "x < ulp b / 2"
  shows "fround (b + x) = b"
proof -
  have u: "0 < ulp b" by (rule ulp_pos)
  have q: "(b + x) / ulp b = of_int k + x / ulp b"
    using u assms(1) by (simp add: field_simps)
  have "x / ulp b < 1/2" "0 \<le> x / ulp b"
    using u assms(4,5) by (simp_all add: field_simps)
  then have "\<lfloor>of_int k + x / ulp b\<rfloor> = k" by linarith
  then have "round_half_even (of_int k + x / ulp b) = k"
    using \<open>x / ulp b < 1/2\<close> by (simp add: round_half_even_def Let_def)
  then show ?thesis using assms(1,2,3) by (simp add: fround_def q)
qed

end
