(* ===== verification/L3_Address.thy ===== *)
theory L3_Address
  imports Prelude "HOL-Library.Product_Lexorder"
begin

text \<open>
  Network addresses, \<open>inet/networklayer/common/L3Address\<close>: one value type for all address
  families.  The source packs an address in two 64-bit words and reads the family back out of
  them; the model has one constructor per family, the packing and its inverse, and the order
  (\<open>operator<\<close>) by which the sets and maps of the routing code are sorted.  The order is made the
  \<open>linorder\<close> of the type, so that the library's sorted lists apply to the model's sets and maps.
\<close>

datatype l3addr =
    NoAddr
  | IPv4 "32 word"
  | IPv6 "64 word" "64 word"
  | MAC "64 word"
  | ModulePath "32 word"
  | ModuleId "32 word"

text \<open>\<open>nsaddr_t\<close> of the routing code.\<close>

type_synonym addr = l3addr

subsection \<open>The packing into two 64-bit words\<close>

text \<open>The values of \<open>enum AddressType\<close>.\<close>

fun l3_type :: "l3addr \<Rightarrow> nat" where
  "l3_type NoAddr = 0"
| "l3_type (IPv4 _) = 1"
| "l3_type (IPv6 _ _) = 2"
| "l3_type (MAC _) = 3"
| "l3_type (ModulePath _) = 4"
| "l3_type (ModuleId _) = 5"

definition RESERVED_IPV6_ADDRESS_RANGE :: "64 word" where
  "RESERVED_IPV6_ADDRESS_RANGE = 0x8000"

text \<open>\<open>L3Address::set(type, lo)\<close>: the family in the low bits of \<open>hi\<close>, the value in \<open>lo\<close>.\<close>

definition l3_set :: "nat \<Rightarrow> 64 word \<Rightarrow> 64 word \<times> 64 word" where
  "l3_set ty lo = (push_bit 48 RESERVED_IPV6_ADDRESS_RANGE + of_nat ty, lo)"

definition l3_getType :: "64 word \<times> 64 word \<Rightarrow> nat" where
  "l3_getType w = (if drop_bit 48 (fst w) = RESERVED_IPV6_ADDRESS_RANGE
     then unat (fst w AND 0xFF) else 2)"

text \<open>
  The overloaded \<open>set\<close>: the IPv6 one stores the address itself and throws (\<open>None\<close>) when its
  first 16 bits would be read as another family; the module ids are C \<open>int\<close>s, widened with
  their sign.
\<close>

fun l3_pack :: "l3addr \<Rightarrow> (64 word \<times> 64 word) option" where
  "l3_pack NoAddr = Some (l3_set 0 0)"
| "l3_pack (IPv4 a) = Some (l3_set 1 (ucast a))"
| "l3_pack (IPv6 h l) = (if l3_getType (h, l) = 2 then Some (h, l) else None)"
| "l3_pack (MAC a) = Some (l3_set 3 a)"
| "l3_pack (ModulePath i) = Some (l3_set 4 (scast i))"
| "l3_pack (ModuleId i) = Some (l3_set 5 (scast i))"

text \<open>\<open>toIPv4\<close>, \<open>toIPv6\<close>, \<open>toMAC\<close>, \<open>toModulePath\<close>, \<open>toModuleId\<close>, as \<open>getType\<close> selects them.\<close>

definition l3_unpack :: "64 word \<times> 64 word \<Rightarrow> l3addr option" where
  "l3_unpack w =
     (if l3_getType w = 0 then Some NoAddr
      else if l3_getType w = 1 then Some (IPv4 (ucast (snd w)))
      else if l3_getType w = 2 then Some (IPv6 (fst w) (snd w))
      else if l3_getType w = 3 then Some (MAC (snd w))
      else if l3_getType w = 4 then Some (ModulePath (ucast (snd w)))
      else if l3_getType w = 5 then Some (ModuleId (ucast (snd w)))
      else None)"

lemma l3_getType_set: "ty \<in> {0, 1, 2, 3, 4, 5} \<Longrightarrow> l3_getType (l3_set ty lo) = ty"
  by (auto simp: l3_getType_def l3_set_def RESERVED_IPV6_ADDRESS_RANGE_def)

lemma snd_l3_set [simp]: "snd (l3_set ty lo) = lo"
  by (simp add: l3_set_def)

lemma ucast_ucast_id: "ucast (ucast i :: 64 word) = (i :: 32 word)"
  by (rule bit_word_eqI) (simp add: bit_ucast_iff bit_simps)

lemma ucast_scast_id: "ucast (scast i :: 64 word) = (i :: 32 word)"
  by (rule bit_word_eqI) (simp add: bit_ucast_iff bit_simps)

text \<open>
  The two words determine the address: whatever \<open>set\<close> stored, the readers give back.
\<close>

theorem l3_pack_unpack:
  "l3_pack a = Some w \<Longrightarrow> l3_unpack w = Some a \<and> l3_getType w = l3_type a"
  by (cases a) (auto simp: l3_unpack_def l3_getType_set ucast_scast_id ucast_ucast_id
    split: if_splits)

lemma l3_pack_unpack_witness: "l3_unpack (l3_set 3 7) = Some (MAC 7) \<and> l3_getType (l3_set 3 7) = 3"
  using l3_pack_unpack [of "MAC 7" "l3_set 3 7"] by simp

subsection \<open>The order\<close>

text \<open>
  \<open>operator<\<close>: first by family, then by value (the module ids as signed integers).  Comparing
  two addresses that hold no value throws.
\<close>

fun l3_less :: "l3addr \<Rightarrow> l3addr \<Rightarrow> fault + bool" where
  "l3_less a b =
     (if l3_type a \<noteq> l3_type b then Inr (l3_type a < l3_type b)
      else (case (a, b) of
          (IPv4 x, IPv4 y) \<Rightarrow> Inr (x < y)
        | (IPv6 h l, IPv6 h' l') \<Rightarrow> Inr (h < h' \<or> h = h' \<and> l < l')
        | (MAC x, MAC y) \<Rightarrow> Inr (x < y)
        | (ModulePath x, ModulePath y) \<Rightarrow> Inr (sint x < sint y)
        | (ModuleId x, ModuleId y) \<Rightarrow> Inr (sint x < sint y)
        | _ \<Rightarrow> Inl BadAccess))"

fun l3_key :: "l3addr \<Rightarrow> nat \<times> int \<times> int" where
  "l3_key NoAddr = (0, 0, 0)"
| "l3_key (IPv4 x) = (1, 0, uint x)"
| "l3_key (IPv6 h l) = (2, uint h, uint l)"
| "l3_key (MAC x) = (3, 0, uint x)"
| "l3_key (ModulePath x) = (4, 0, sint x)"
| "l3_key (ModuleId x) = (5, 0, sint x)"

lemma l3_key_inj: "l3_key a = l3_key b \<longleftrightarrow> a = b"
  by (cases a; cases b) (auto dest: signed_word_eqI unsigned_word_eqI)

instantiation l3addr :: linorder
begin

definition less_eq_l3addr :: "l3addr \<Rightarrow> l3addr \<Rightarrow> bool" where
  "less_eq_l3addr a b \<longleftrightarrow> l3_key a \<le> l3_key b"

definition less_l3addr :: "l3addr \<Rightarrow> l3addr \<Rightarrow> bool" where
  "less_l3addr a b \<longleftrightarrow> l3_key a < l3_key b"

instance
  by standard (auto simp: less_eq_l3addr_def less_l3addr_def less_le_not_le dest: order.antisym
    iff: l3_key_inj)

end

lemmas l3_order = less_eq_l3addr_def less_l3addr_def

text \<open>
  The comparison the source computes is the strict part of a linear order, so a
  \<open>std::map\<close> or \<open>std::set\<close> keyed by addresses is well defined; it throws only on two empty
  addresses.
\<close>

theorem l3_less_linorder:
  "l3_less a b = (if a = NoAddr \<and> b = NoAddr then Inl BadAccess else Inr (a < b))"
  by (cases a; cases b) (auto simp: l3_order word_less_def dest: unsigned_word_eqI)

end
