(* ===== verification/Dsr_Paths.thy ===== *)
theory Dsr_Paths
  imports Std_Map Binary64 L3_Address
begin

text \<open>
  The path cache of DSR, the first half of \<open>DsrDataBase.cc\<close>: for every destination a deque of
  the paths learnt for it, a path being the list of the intermediate nodes.  \<open>now\<close> is
  \<open>simTime()\<close>; an operation returns the cache it leaves.  Time-outs are in microseconds.  Sums of
  costs are rounded as the source's \<open>double\<close>s are, because \<open>getPath\<close> adds the best cost so far,
  initially \<open>1e100\<close>, to the costs of a path.
\<close>

type_synonym path_route = "addr list"

definition VALID :: int where
  "VALID = 0"

text \<open>\<open>DsrDataBase::Path\<close>\<close>

record path =
  p_num_hop :: nat
  p_status :: int
  p_cost :: real
  p_expires :: simtime
  p_route :: path_route
  p_vector_cost :: "real list"

definition new_path :: path where
  "new_path = \<lparr>p_num_hop = 0, p_status = 0, p_cost = 0, p_expires = 0, p_route = [],
     p_vector_cost = []\<rparr>"

type_synonym paths_cache = "(addr, path list) smap"

text \<open>\<open>((double)timeout)/1000000.0\<close> and the instant it ends, and the test \<open>now >= getExpires()\<close>.\<close>

definition usecs :: "32 word \<Rightarrow> simtime" where
  "usecs timeout = of_nat (unat timeout) / 1000000"

definition expired :: "simtime \<Rightarrow> path \<Rightarrow> bool" where
  "expired now p \<longleftrightarrow> now \<ge> p_expires p"

subsection \<open>Queries\<close>

definition getPaths ::
    "simtime \<Rightarrow> addr \<Rightarrow> paths_cache \<Rightarrow> (bool \<times> path_route list \<times> real list list) \<times> paths_cache" where
  "getPaths now dest c =
     (case smap_find c dest of
        None \<Rightarrow> ((False, [], []), c)
      | Some ps \<Rightarrow>
          if ps = [] then ((False, [], []), smap_erase dest c)
          else let kept = filter (\<lambda>p. \<not> expired now p) ps;
                   result = map p_route kept;
                   resultCost = map p_vector_cost kept
               in if kept = [] then ((False, result, resultCost), smap_erase dest c)
                  else ((result \<noteq> [], result, resultCost), smap_put dest kept c))"

text \<open>The local variables of the two searches for the best path.\<close>

record search =
  s_found :: bool
  s_route :: path_route
  s_costVect :: "real list"
  s_cost :: real
  s_expire :: simtime
  s_position :: int
  s_cont :: int

definition search_start :: search where
  "search_start = \<lparr>s_found = False, s_route = [], s_costVect = [], s_cost = fround (10 ^ 100),
     s_expire = 0, s_position = -1, s_cont = -1\<rparr>"

text \<open>The cost of a path: the sum of its vector from 0 on, or one more than its intermediate nodes.\<close>

definition costPath :: "path \<Rightarrow> real" where
  "costPath p = (if p_vector_cost p \<noteq> [] then foldl fadd 0 (p_vector_cost p)
     else of_nat (length (p_route p) + 1))"

definition better :: "search \<Rightarrow> path \<Rightarrow> bool" where
  "better s p \<longleftrightarrow> \<not> s_found s \<or> s_cost s > costPath p
     \<or> (s_cost s = costPath p \<and> s_expire s < p_expires p)"

definition take_path :: "search \<Rightarrow> path \<Rightarrow> search" where
  "take_path s p = s\<lparr>s_position := s_cont s, s_route := p_route p, s_cost := costPath p,
     s_expire := p_expires p\<rparr>"

text \<open>\<open>getPath\<close>: the loop overwrites the first cost of every valid path with the best cost so far.\<close>

fun getPath_loop :: "simtime \<Rightarrow> path list \<Rightarrow> search \<Rightarrow> path list \<times> search" where
  "getPath_loop now [] s = ([], s)"
| "getPath_loop now (p # ps) s =
     (if expired now p then getPath_loop now ps s
      else let s1 = s\<lparr>s_cont := s_cont s + 1\<rparr>
           in if p_status p = VALID
              then let p1 = (if p_vector_cost p \<noteq> []
                         then p\<lparr>p_vector_cost := (p_vector_cost p)[0 := s_cost s1]\<rparr> else p);
                       s2 = (if better s1 p1 then take_path s1 p1 else s1);
                       (kept, s3) = getPath_loop now ps (s2\<lparr>s_found := True\<rparr>)
                   in (p1 # kept, s3)
              else let (kept, s2) = getPath_loop now ps s1 in (p # kept, s2))"

text \<open>The end of both searches: write the deque back, with the chosen path refreshed.\<close>

definition search_end ::
    "simtime \<Rightarrow> addr \<Rightarrow> 32 word \<Rightarrow> path list \<times> search \<Rightarrow> paths_cache \<Rightarrow> paths_cache" where
  "search_end now dest timeout r c =
     (case r of (kept, s) \<Rightarrow>
        if kept = [] then smap_erase dest c
        else if timeout > 0 \<and> s_position s \<ge> 0
        then let i = nat (s_position s)
             in smap_put dest (kept[i := (kept ! i)\<lparr>p_expires := now + usecs timeout\<rparr>]) c
        else smap_put dest kept c)"

definition getPath ::
    "simtime \<Rightarrow> addr \<Rightarrow> 32 word \<Rightarrow> paths_cache \<Rightarrow> (bool \<times> path_route \<times> real) \<times> paths_cache" where
  "getPath now dest timeout c =
     (case smap_find c dest of
        None \<Rightarrow> ((False, [], s_cost search_start), c)
      | Some ps \<Rightarrow>
          if ps = [] then ((False, [], s_cost search_start), smap_erase dest c)
          else let r = getPath_loop now ps search_start; s = snd r
               in ((s_found s, s_route s, s_cost s), search_end now dest timeout r c))"

fun getPathCosVect_loop :: "simtime \<Rightarrow> path list \<Rightarrow> search \<Rightarrow> path list \<times> search" where
  "getPathCosVect_loop now [] s = ([], s)"
| "getPathCosVect_loop now (p # ps) s =
     (if expired now p then getPathCosVect_loop now ps s
      else let s1 = s\<lparr>s_cont := s_cont s + 1\<rparr>
           in if p_status p = VALID
              then let s2 = (if better s1 p
                         then (take_path s1 p)\<lparr>s_costVect := p_vector_cost p\<rparr> else s1);
                       (kept, s3) = getPathCosVect_loop now ps (s2\<lparr>s_found := True\<rparr>)
                   in (p # kept, s3)
              else let (kept, s2) = getPathCosVect_loop now ps s1 in (p # kept, s2))"

definition getPathCosVect ::
    "simtime \<Rightarrow> addr \<Rightarrow> 32 word \<Rightarrow> paths_cache
      \<Rightarrow> (bool \<times> path_route \<times> real list \<times> real) \<times> paths_cache" where
  "getPathCosVect now dest timeout c =
     (case smap_find c dest of
        None \<Rightarrow> ((False, [], [], s_cost search_start), c)
      | Some ps \<Rightarrow>
          if ps = [] then ((False, [], [], s_cost search_start), smap_erase dest c)
          else let r = getPathCosVect_loop now ps search_start; s = snd r
               in ((s_found s, s_route s, s_costVect s, s_cost s), search_end now dest timeout r c))"

definition isPathCacheEmpty :: "paths_cache \<Rightarrow> bool" where
  "isPathCacheEmpty c \<longleftrightarrow> c = []"

subsection \<open>Updates\<close>

text \<open>
  The loop \<open>setPath\<close>, \<open>setPathStatus\<close> and \<open>setPathsTimer\<close> share: up to the path with the given
  route, which is updated, expired paths are erased; the flag tells that the loop returned there.
\<close>

fun set_loop :: "simtime \<Rightarrow> path_route \<Rightarrow> (path \<Rightarrow> path) \<Rightarrow> path list \<Rightarrow> path list \<times> bool" where
  "set_loop now r upd [] = ([], False)"
| "set_loop now r upd (p # ps) =
     (if r = p_route p then (upd p # ps, True)
      else if expired now p then set_loop now r upd ps
      else let (kept, ret) = set_loop now r upd ps in (p # kept, ret))"

definition setPath ::
    "simtime \<Rightarrow> addr \<Rightarrow> path_route \<Rightarrow> real list \<Rightarrow> real \<Rightarrow> int \<Rightarrow> 32 word \<Rightarrow> paths_cache
      \<Rightarrow> paths_cache" where
  "setPath now dest r costVect c st timeout cache =
     (let upd = (\<lambda>p. p\<lparr>p_vector_cost := costVect, p_cost := c, p_status := st,
                  p_expires := now + usecs timeout\<rparr>);
          ps = (case smap_find cache dest of None \<Rightarrow> [] | Some ps \<Rightarrow> ps);
          (kept, ret) = set_loop now r upd ps
      in smap_put dest (if ret then kept
           else kept @ [new_path\<lparr>p_cost := c, p_vector_cost := costVect, p_status := st,
                          p_route := r, p_expires := now + usecs timeout\<rparr>]) cache)"

definition set_existing ::
    "simtime \<Rightarrow> addr \<Rightarrow> path_route \<Rightarrow> (path \<Rightarrow> path) \<Rightarrow> paths_cache \<Rightarrow> paths_cache" where
  "set_existing now dest r upd cache =
     (case smap_find cache dest of
        None \<Rightarrow> cache
      | Some ps \<Rightarrow>
          let (kept, ret) = set_loop now r upd ps
          in if \<not> ret \<and> kept = [] then smap_erase dest cache else smap_put dest kept cache)"

definition setPathStatus ::
    "simtime \<Rightarrow> addr \<Rightarrow> path_route \<Rightarrow> int \<Rightarrow> paths_cache \<Rightarrow> paths_cache" where
  "setPathStatus now dest r st cache = set_existing now dest r (\<lambda>p. p\<lparr>p_status := st\<rparr>) cache"

definition setPathsTimer ::
    "simtime \<Rightarrow> addr \<Rightarrow> path_route \<Rightarrow> 32 word \<Rightarrow> paths_cache \<Rightarrow> paths_cache" where
  "setPathsTimer now dest r timeout cache =
     (if timeout = 0 then cache
      else set_existing now dest r (\<lambda>p. p\<lparr>p_expires := now + usecs timeout\<rparr>) cache)"

definition deleteAddress :: "addr \<Rightarrow> paths_cache \<Rightarrow> paths_cache" where
  "deleteAddress dest cache =
     (case smap_find cache dest of None \<Rightarrow> cache | Some _ \<Rightarrow> smap_erase dest cache)"

definition erasePathWithNode :: "simtime \<Rightarrow> addr \<Rightarrow> paths_cache \<Rightarrow> paths_cache" where
  "erasePathWithNode now dest cache =
     (if cache = [] then cache
      else smap_prune (\<lambda>_. filter (\<lambda>p. \<not> expired now p \<and> dest \<notin> set (p_route p)))
             (deleteAddress dest cache))"

text \<open>\<open>std::search\<close>: the first position at which the pattern starts, or the end.\<close>

fun std_search :: "'a list \<Rightarrow> 'a list \<Rightarrow> nat" where
  "std_search [] pat = 0"
| "std_search (x # xs) pat =
     (if take (length pat) (x # xs) = pat then 0 else Suc (std_search xs pat))"

text \<open>
  The branch for a link of the root node: a direct path to \<open>addr2\<close>, and every path that starts
  with \<open>addr2\<close>.
\<close>

definition eraseRootLink :: "simtime \<Rightarrow> addr \<Rightarrow> paths_cache \<Rightarrow> paths_cache" where
  "eraseRootLink now addr2 cache =
     (let cache1 = (case smap_find cache addr2 of
                      None \<Rightarrow> cache
                    | Some ps \<Rightarrow>
                        let kept = filter (\<lambda>p. \<not> expired now p \<and> p_route p \<noteq> []) ps
                        in if kept = [] then smap_erase addr2 cache else smap_put addr2 kept cache)
      in smap_prune (\<lambda>_. filter (\<lambda>p. \<not> expired now p
           \<and> \<not> (p_route p \<noteq> [] \<and> hd (p_route p) = addr2))) cache1)"

text \<open>
  The tests of the general branch, in order.  The two searches are given the range
  \<open>sequence .. sequence + 1\<close>, which holds the first address only.
\<close>

definition erased_with_link ::
    "simtime \<Rightarrow> addr \<Rightarrow> addr \<Rightarrow> bool \<Rightarrow> bool \<Rightarrow> addr \<Rightarrow> path \<Rightarrow> bool" where
  "erased_with_link now addr1 addr2 eraseFirst bidirectional dest p =
     (let r = p_route p; seq = [addr1, addr2]; seqRev = [addr2, addr1]
      in expired now p
       \<or> (dest = addr2 \<and> r \<noteq> [] \<and> last r = addr1)
       \<or> (eraseFirst \<and> ((r = [] \<and> dest = addr2) \<or> (r \<noteq> [] \<and> hd r = addr2)))
       \<or> std_search r (take 1 seq) \<noteq> length r
       \<or> (bidirectional \<and> ((dest = addr1 \<and> r \<noteq> [] \<and> last r = addr2)
            \<or> std_search r (take 1 seqRev) \<noteq> length r)))"

definition erasePathWithLink ::
    "simtime \<Rightarrow> addr \<Rightarrow> addr \<Rightarrow> addr \<Rightarrow> bool \<Rightarrow> bool \<Rightarrow> paths_cache \<Rightarrow> paths_cache" where
  "erasePathWithLink now rootNode addr1 addr2 eraseFirst bidirectional cache =
     (if cache = [] then cache
      else if rootNode = addr1 then eraseRootLink now addr2 cache
      else smap_prune (\<lambda>dest. filter
             (\<lambda>p. \<not> erased_with_link now addr1 addr2 eraseFirst bidirectional dest p)) cache)"

definition purgePathCache :: "simtime \<Rightarrow> paths_cache \<Rightarrow> paths_cache" where
  "purgePathCache now cache = smap_prune (\<lambda>_. filter (\<lambda>p. \<not> expired now p)) cache"

definition cleanAllPaths :: "paths_cache \<Rightarrow> paths_cache" where
  "cleanAllPaths cache = []"

subsection \<open>The invariant\<close>

text \<open>No bucket is empty and no route is in a bucket twice.\<close>

definition bucket_ok :: "addr \<Rightarrow> path list \<Rightarrow> bool" where
  "bucket_ok d ps \<longleftrightarrow> distinct (map p_route ps)"

definition paths_ok :: "paths_cache \<Rightarrow> bool" where
  "paths_ok c \<longleftrightarrow> bm.full bucket_ok c"

end
