(* ===== verification/Dsr_Links.thy ===== *)
theory Dsr_Links
  imports Dsr_Paths
begin

text \<open>
  The link cache of DSR, the second half of \<open>DsrDataBase.cc\<close>: a graph of links with expiry times
  and the shortest routes from the node itself over it.  The links are objects on the heap, shared
  by \<open>linkArray\<close> (the links that leave a node) and \<open>routeMap\<close> (the link by which the search
  reached a node); the model keeps them in an explicit store.  A fault is an undefined read or a
  \<open>throw\<close>; \<open>None\<close> is a loop that does not end.
\<close>

text \<open>\<open>DijkstraShortest::Edge\<close>, a link to \<open>last_node\<close>.\<close>

record edge =
  last_node :: addr
  e_costAdd :: real
  e_expires :: simtime

datatype state_label = Perm | Tent

text \<open>\<open>DijkstraShortest::State\<close>; \<open>d_edge = None\<close> is the null pointer.\<close>

record dstate =
  d_costAdd :: real
  idPrev :: addr
  d_label :: state_label
  d_edge :: "nat option"

definition new_dstate :: "real \<Rightarrow> dstate" where
  "new_dstate c = \<lparr>d_costAdd = c, idPrev = NoAddr, d_label = Tent, d_edge = None\<rparr>"

text \<open>\<open>rng\<close> counts the draws from the simulator's random numbers.\<close>

record link_db =
  edges :: "nat \<Rightarrow> edge option"
  next_edge :: nat
  linkArray :: "(addr, nat list) smap"
  routeMap :: "(addr, dstate) smap"
  rootNode :: addr
  rng :: nat

definition link_db_init :: link_db where
  "link_db_init = \<lparr>edges = (\<lambda>_. None), next_edge = 0, linkArray = [], routeMap = [],
     rootNode = NoAddr, rng = 0\<rparr>"

subsection \<open>Links\<close>

text \<open>The first link of a list to a node.\<close>

fun find_edge :: "(nat \<Rightarrow> edge option) \<Rightarrow> addr \<Rightarrow> nat list \<Rightarrow> fault + nat option" where
  "find_edge E v [] = Inr None"
| "find_edge E v (p # ps) =
     (case E p of
        None \<Rightarrow> Inl BadAccess
      | Some e \<Rightarrow> if v = last_node e then Inr (Some p) else find_edge E v ps)"

definition links_of :: "link_db \<Rightarrow> addr \<Rightarrow> nat list" where
  "links_of db u = (case smap_find (linkArray db) u of None \<Rightarrow> [] | Some ps \<Rightarrow> ps)"

definition addEdge ::
    "simtime \<Rightarrow> addr \<Rightarrow> addr \<Rightarrow> real \<Rightarrow> 32 word \<Rightarrow> link_db \<Rightarrow> fault + link_db" where
  "addEdge now originNode v cost tmo db =
     (let db1 = db\<lparr>routeMap := []\<rparr>
      in bindE (find_edge (edges db1) v (links_of db1 originNode)) (\<lambda>found.
           Inr (case found of
              Some p \<Rightarrow> db1\<lparr>edges := (edges db1)(p := map_option
                (\<lambda>e. e\<lparr>e_costAdd := cost, e_expires := now + usecs tmo\<rparr>) (edges db1 p))\<rparr>
            | None \<Rightarrow>
                let p = next_edge db1
                in db1\<lparr>edges := (edges db1)(p \<mapsto>
                     \<lparr>last_node = v, e_costAdd = cost, e_expires = now + usecs tmo\<rparr>),
                   next_edge := p + 1,
                   linkArray := smap_put originNode (links_of db1 originNode @ [p]) (linkArray db1)\<rparr>)))"

text \<open>
  Removing a link takes it out of the list but does not free it; with \<open>bidirectional\<close> the other
  direction is looked for only when the first one is not there.
\<close>

definition deleteEdge :: "addr \<Rightarrow> addr \<Rightarrow> bool \<Rightarrow> link_db \<Rightarrow> fault + link_db" where
  "deleteEdge originNode v bidirectional db =
     (if linkArray db = [] then Inr db
      else let db1 = db\<lparr>routeMap := []\<rparr>;
               remove = (\<lambda>u p. db1\<lparr>linkArray := smap_put u (remove1 p (links_of db1 u)) (linkArray db1)\<rparr>)
           in bindE (find_edge (edges db1) v (links_of db1 originNode)) (\<lambda>found.
                case found of
                  Some p \<Rightarrow> Inr (remove originNode p)
                | None \<Rightarrow>
                    if bidirectional
                    then bindE (find_edge (edges db1) originNode (links_of db1 v)) (\<lambda>found.
                           Inr (case found of Some p \<Rightarrow> remove v p | None \<Rightarrow> db1))
                    else Inr db1))"

definition setRoot :: "addr \<Rightarrow> link_db \<Rightarrow> link_db" where
  "setRoot dest_node db =
     (if rootNode db \<noteq> dest_node then db\<lparr>rootNode := dest_node, routeMap := []\<rparr> else db)"

text \<open>Every link of every list is freed, the last one first; \<open>routeMap\<close> is left as it is.\<close>

definition free_edge :: "(nat \<Rightarrow> edge option) \<Rightarrow> nat \<Rightarrow> fault + (nat \<Rightarrow> edge option)" where
  "free_edge E p = (if E p = None then Inl BadAccess else Inr (E(p := None)))"

definition cleanLinkArray :: "link_db \<Rightarrow> fault + link_db" where
  "cleanLinkArray db =
     bindE (foldE (\<lambda>E (_, ps). foldE free_edge (rev ps) E) (linkArray db) (edges db)) (\<lambda>E.
       Inr (db\<lparr>edges := E, linkArray := []\<rparr>))"

subsection \<open>The search\<close>

text \<open>\<open>DijkstraShortest::SetElem\<close> and its \<open>operator<\<close>, which looks at the nodes, too.\<close>

record set_elem =
  iD :: addr
  s_costAdd :: real

definition elem_less :: "set_elem \<Rightarrow> set_elem \<Rightarrow> bool" where
  "elem_less x y \<longleftrightarrow> iD x \<noteq> iD y \<and> s_costAdd x < s_costAdd y"

text \<open>
  \<open>std::multiset::insert\<close>: behind the elements that are not greater.  The standard requires that
  being neither less nor greater is transitive on the elements; otherwise the call is undefined.
\<close>

definition elem_eqv :: "set_elem \<Rightarrow> set_elem \<Rightarrow> bool" where
  "elem_eqv x y \<longleftrightarrow> \<not> elem_less x y \<and> \<not> elem_less y x"

definition weakly_ordered :: "set_elem list \<Rightarrow> bool" where
  "weakly_ordered xs \<longleftrightarrow> list_all (\<lambda>x. list_all (\<lambda>y. list_all (\<lambda>z.
     elem_eqv x y \<and> elem_eqv y z \<longrightarrow> elem_eqv x z) xs) xs) xs"

definition heap_insert :: "set_elem \<Rightarrow> set_elem list \<Rightarrow> fault + set_elem list" where
  "heap_insert x h =
     (if weakly_ordered (x # h)
      then Inr (takeWhile (\<lambda>y. \<not> elem_less x y) h @ x # dropWhile (\<lambda>y. \<not> elem_less x y) h)
      else Inl BadOrder)"

text \<open>The number of elements at the front with no greater cost than the one before.\<close>

fun equal_run :: "set_elem list \<Rightarrow> nat" where
  "equal_run [] = 0"
| "equal_run [x] = 1"
| "equal_run (x # y # h) =
     (if s_costAdd y > s_costAdd x then 1 else Suc (equal_run (y # h)))"

text \<open>
  The inner loop over the links of the node \<open>u\<close>, which was reached at cost \<open>c\<close>: expired links
  leave the list, links to settled nodes are passed over, the others may improve a node.
\<close>

fun relax_links ::
    "simtime \<Rightarrow> (nat \<Rightarrow> edge option) \<Rightarrow> addr \<Rightarrow> real \<Rightarrow> nat list \<Rightarrow> set_elem list \<Rightarrow> (addr, dstate) smap
      \<Rightarrow> fault + nat list \<times> set_elem list \<times> (addr, dstate) smap" where
  "relax_links now E u c [] h rm = Inr ([], h, rm)"
| "relax_links now E u c (p # ps) h rm =
     (case E p of
        None \<Rightarrow> Inl BadAccess
      | Some e \<Rightarrow>
          if e_expires e \<le> now then relax_links now E u c ps h rm
          else
            let v = last_node e; costAdd = fadd (e_costAdd e) c;
                keep = (\<lambda>r. bindE r (\<lambda>(kept, h', rm'). Inr (p # kept, h', rm')))
            in case smap_find rm v of
                 Some nx \<Rightarrow>
                   if d_label nx = Perm then keep (relax_links now E u c ps h rm)
                   else if costAdd < d_costAdd nx
                   then bindE (heap_insert \<lparr>iD = v, s_costAdd = costAdd\<rparr> h) (\<lambda>h1.
                          keep (relax_links now E u c ps h1
                            (smap_put v (nx\<lparr>d_costAdd := costAdd, idPrev := u, d_edge := Some p\<rparr>) rm)))
                   else keep (relax_links now E u c ps h rm)
               | None \<Rightarrow>
                   bindE (heap_insert \<lparr>iD = v, s_costAdd = costAdd\<rparr> h) (\<lambda>h1.
                     keep (relax_links now E u c ps h1
                       (smap_put v \<lparr>d_costAdd = costAdd, idPrev = u, d_label = Tent,
                          d_edge = Some p\<rparr> rm))))"

text \<open>
  One turn of the loop of \<open>run\<close>: the result is the heap to go on with, or none when the target
  was reached.  \<open>intRand(n)\<close> is a number below \<open>n\<close>.
\<close>

definition run_step ::
    "(nat \<Rightarrow> nat) \<Rightarrow> simtime \<Rightarrow> addr \<Rightarrow> set_elem list \<Rightarrow> link_db
      \<Rightarrow> fault + set_elem list option \<times> link_db" where
  "run_step rand now target h db =
     (let numeq = equal_run h - 1;
          val = (if numeq > 0 then rand (rng db) mod numeq else 0);
          db1 = (if numeq > 0 then db\<lparr>rng := rng db + 1\<rparr> else db);
          elem = h ! val;
          h1 = take val h @ drop (Suc val) h
      in case smap_find (routeMap db1) (iD elem) of
           None \<Rightarrow> Inl NodeNotFound
         | Some st \<Rightarrow>
             if d_label st = Perm then Inr (Some h1, db1)
             else
               let db2 = db1\<lparr>routeMap := smap_put (iD elem) (st\<lparr>d_label := Perm\<rparr>) (routeMap db1)\<rparr>
               in if target = iD elem then Inr (None, db2)
                  else case smap_find (linkArray db2) (iD elem) of
                    None \<Rightarrow> Inl BadAccess
                  | Some links \<Rightarrow>
                      bindE (relax_links now (edges db2) (iD elem) (d_costAdd st) links h1 (routeMap db2))
                        (\<lambda>(kept, h2, rm). Inr (Some h2, db2\<lparr>routeMap := rm,
                           linkArray := smap_put (iD elem) kept (linkArray db2)\<rparr>)))"

partial_function (option) run_loop ::
    "(nat \<Rightarrow> nat) \<Rightarrow> simtime \<Rightarrow> addr \<Rightarrow> set_elem list \<Rightarrow> link_db \<Rightarrow> (fault + link_db) option" where
  [code]: "run_loop rand now target h db =
     (if h = [] then Some (Inr db)
      else case run_step rand now target h db of
        Inl e \<Rightarrow> Some (Inl e)
      | Inr r \<Rightarrow> (case fst r of
            None \<Rightarrow> Some (Inr (snd r))
          | Some h' \<Rightarrow> run_loop rand now target h' (snd r)))"

definition run :: "(nat \<Rightarrow> nat) \<Rightarrow> simtime \<Rightarrow> addr \<Rightarrow> link_db \<Rightarrow> (fault + link_db) option" where
  "run rand now target db =
     (let db1 = db\<lparr>routeMap := []\<rparr>
      in if linkArray db1 = [] then Some (Inr db1)
         else case smap_find (linkArray db1) (rootNode db1) of
           None \<Rightarrow> Some (Inr db1)
         | Some _ \<Rightarrow>
             run_loop rand now target [\<lparr>iD = rootNode db1, s_costAdd = 0\<rparr>]
               (db1\<lparr>routeMap := smap_put (rootNode db1) (new_dstate 0) (routeMap db1)\<rparr>))"

subsection \<open>Routes\<close>

text \<open>
  The walk from a node back to the root, which collects the nodes and refreshes the links; no
  path is returned when a link has expired.
\<close>

partial_function (option) route_walk ::
    "simtime \<Rightarrow> 32 word \<Rightarrow> addr \<Rightarrow> dstate \<Rightarrow> addr list \<Rightarrow> link_db
      \<Rightarrow> (fault + addr list option \<times> link_db) option" where
  [code]: "route_walk now tmo currentNode st path db =
     (if currentNode = rootNode db then Some (Inr (Some path, db))
      else case d_edge st of
        None \<Rightarrow> Some (Inl BadAccess)
      | Some p \<Rightarrow> (case edges db p of
          None \<Rightarrow> Some (Inl BadAccess)
        | Some e \<Rightarrow>
            if e_expires e \<le> now then Some (Inr (None, db\<lparr>routeMap := []\<rparr>))
            else
              let db1 = (if tmo > 0
                    then db\<lparr>edges := (edges db)(p \<mapsto> e\<lparr>e_expires := now + usecs tmo\<rparr>)\<rparr> else db)
              in case smap_find (routeMap db1) (idPrev st) of
                   None \<Rightarrow> Some (Inl RouteMapError)
                 | Some st' \<Rightarrow> route_walk now tmo (idPrev st) st' (path @ [currentNode]) db1))"

text \<open>
  The last loop of \<open>getRoute_dsr\<close>, \<open>for (unsigned int i = path.size()-1; i > 0; i--)\<close>: on an empty
  path \<open>i\<close> starts at \<open>2 ^ 32 - 1\<close>.
\<close>

definition route_nodes :: "addr list \<Rightarrow> fault + path_route" where
  "route_nodes path = (if path = [] then Inl BadAccess else Inr (rev (tl path)))"

partial_function (option) getRoute_dsr ::
    "(nat \<Rightarrow> nat) \<Rightarrow> simtime \<Rightarrow> addr \<Rightarrow> 32 word \<Rightarrow> link_db
      \<Rightarrow> (fault + path_route option \<times> link_db) option" where
  [code]: "getRoute_dsr rand now nodeId tmo db =
     (case (if routeMap db = [] then run rand now NoAddr db else Some (Inr db)) of
        None \<Rightarrow> None
      | Some (Inl x) \<Rightarrow> Some (Inl x)
      | Some (Inr db1) \<Rightarrow>
          (case smap_find (routeMap db1) nodeId of
             None \<Rightarrow> Some (Inr (None, db1))
           | Some st \<Rightarrow>
               (case route_walk now tmo nodeId st [] db1 of
                  None \<Rightarrow> None
                | Some (Inl x) \<Rightarrow> Some (Inl x)
                | Some (Inr r) \<Rightarrow>
                    (case fst r of
                       None \<Rightarrow> getRoute_dsr rand now nodeId tmo (snd r)
                     | Some path \<Rightarrow> Some (bindE (route_nodes path) (\<lambda>nodes.
                                      Inr (Some nodes, snd r)))))))"

partial_function (option) getRouteCost ::
    "(nat \<Rightarrow> nat) \<Rightarrow> simtime \<Rightarrow> addr \<Rightarrow> 32 word \<Rightarrow> link_db
      \<Rightarrow> (fault + (path_route \<times> real) option \<times> link_db) option" where
  [code]: "getRouteCost rand now nodeId tmo db =
     (case (if routeMap db = [] then run rand now NoAddr db else Some (Inr db)) of
        None \<Rightarrow> None
      | Some (Inl x) \<Rightarrow> Some (Inl x)
      | Some (Inr db1) \<Rightarrow>
          (case smap_find (routeMap db1) nodeId of
             None \<Rightarrow> Some (Inr (None, db1))
           | Some st \<Rightarrow>
               (case route_walk now tmo nodeId st [] db1 of
                  None \<Rightarrow> None
                | Some (Inl x) \<Rightarrow> Some (Inl x)
                | Some (Inr r) \<Rightarrow>
                    (case fst r of
                       None \<Rightarrow> getRouteCost rand now nodeId tmo (snd r)
                     | Some path \<Rightarrow> Some (Inr (Some (path, d_costAdd st), snd r))))))"

end
