(* ===== verification/Dsr_Paths_Spec.thy ===== *)
theory Dsr_Paths_Spec
  imports Dsr_Paths
begin

text \<open>
  What the path cache of DSR promises.  A client sees a cache at an instant as a finite map from
  destination and route to the state of a path that has not expired (\<open>live\<close>); the updates are
  shown to implement updates of that map, the queries to choose the best element of it, and the
  removals to leave no path with the broken node or link.
\<close>

subsection \<open>The map a client sees\<close>

text \<open>The state of a path a client set: status, expiry and cost vector.\<close>

definition path_info :: "path \<Rightarrow> int \<times> simtime \<times> real list" where
  "path_info p = (p_status p, p_expires p, p_vector_cost p)"

definition is_live :: "simtime \<Rightarrow> path_route \<Rightarrow> path \<Rightarrow> bool" where
  "is_live now r p \<longleftrightarrow> p_route p = r \<and> \<not> expired now p"

definition live :: "simtime \<Rightarrow> paths_cache \<Rightarrow> addr \<Rightarrow> path_route \<Rightarrow> (int \<times> simtime \<times> real list) option"
  where "live now c d r = map_option path_info (bm.entry (is_live now r) c d)"

lemma paths_ok_smap: "paths_ok c \<Longrightarrow> smap_ok c"
  by (simp add: paths_ok_def bm.full_def)

lemma paths_ok_bucket: "paths_ok c \<Longrightarrow> smap_find c d = Some ps \<Longrightarrow> ps \<noteq> [] \<and> distinct (map p_route ps)"
  by (simp add: paths_ok_def bm.full_def bucket_ok_def)

lemma paths_ok_Nil [simp]: "paths_ok []"
  by (simp add: paths_ok_def bm.full_def)

subsection \<open>The shared loop of the updates\<close>

lemma set_loop_done: "snd (set_loop now r upd ps) \<longleftrightarrow> r \<in> p_route ` set ps"
  by (induction ps) (auto simp: case_prod_beta)

lemma set_loop_nonempty: "snd (set_loop now r upd ps) \<Longrightarrow> fst (set_loop now r upd ps) \<noteq> []"
  by (induction ps) (auto simp: case_prod_beta)

lemma set_loop_routes:
  "(\<And>p. p_route (upd p) = p_route p) \<Longrightarrow>
   p_route ` set (fst (set_loop now r upd ps)) \<subseteq> p_route ` set ps"
  by (induction ps) (auto simp: case_prod_beta)

lemma set_loop_distinct:
  assumes "\<And>p. p_route (upd p) = p_route p" and "distinct (map p_route ps)"
  shows "distinct (map p_route (fst (set_loop now r upd ps)))"
  using assms(2)
proof (induction ps)
  case (Cons p ps)
  then show ?case
    using set_loop_routes [OF assms(1), where now = now and r = r and ps = ps]
    by (auto simp: case_prod_beta assms(1))
qed simp

lemma set_loop_other:
  "(\<And>p. p_route (upd p) = p_route p) \<Longrightarrow> q \<noteq> r \<Longrightarrow>
   List.find (is_live now q) (fst (set_loop now r upd ps)) = List.find (is_live now q) ps"
  by (induction ps) (auto simp: case_prod_beta is_live_def)

lemma set_loop_at:
  "(\<And>p. p_route (upd p) = p_route p) \<Longrightarrow>
   List.find (\<lambda>p. p_route p = r) (fst (set_loop now r upd ps))
     = (if r \<in> p_route ` set ps then map_option upd (List.find (\<lambda>p. p_route p = r) ps) else None)"
  by (induction ps) (auto simp: case_prod_beta)

lemma find_live:
  assumes "distinct (map p_route ps)"
  shows "List.find (is_live now r) ps =
    (case List.find (\<lambda>p. p_route p = r) ps of None \<Rightarrow> None
     | Some p \<Rightarrow> if expired now p then None else Some p)"
  using assms
proof (induction ps)
  case (Cons p ps)
  have "List.find (\<lambda>q. p_route q = p_route p) ps = None"
    using Cons.prems by (force simp: find_None_iff image_iff)
  then show ?case using Cons by (auto simp: is_live_def)
qed simp

lemma find_append_single:
  "List.find P (xs @ [y]) = (case List.find P xs of None \<Rightarrow> if P y then Some y else None | z \<Rightarrow> z)"
  by (induction xs) auto

subsection \<open>The updates keep the invariant\<close>

lemma setPath_ok [intro]:
  assumes "paths_ok c"
  shows "paths_ok (setPath now d r v k st t c)"
proof -
  define ps where "ps = (case smap_find c d of None \<Rightarrow> [] | Some ps \<Rightarrow> ps)"
  let ?upd = "\<lambda>p. p\<lparr>p_vector_cost := v, p_cost := k, p_status := st, p_expires := now + usecs t\<rparr>"
  have d: "distinct (map p_route ps)"
    using assms paths_ok_bucket [OF assms] by (auto simp: ps_def split: option.split)
  let ?l = "set_loop now r ?upd ps"
  have "distinct (map p_route (fst ?l))" using d by (intro set_loop_distinct) simp_all
  moreover have "r \<notin> p_route ` set (fst ?l)" if "\<not> snd ?l"
    using that set_loop_routes [where upd = ?upd and now = now and r = r and ps = ps]
    by (auto simp: set_loop_done)
  moreover have "fst ?l \<noteq> []" if "snd ?l"
    using that by (rule set_loop_nonempty)
  ultimately show ?thesis
    using assms by (auto simp: setPath_def Let_def ps_def [symmetric] case_prod_beta paths_ok_def
      bucket_ok_def new_path_def intro!: bm.full_put)
qed

lemma set_existing_ok:
  assumes "paths_ok c" and "\<And>p. p_route (upd p) = p_route p"
  shows "paths_ok (set_existing now d r upd c)"
proof (cases "smap_find c d")
  case (Some ps)
  let ?l = "set_loop now r upd ps"
  have "distinct (map p_route (fst ?l))"
    using paths_ok_bucket [OF assms(1) Some] by (intro set_loop_distinct assms(2)) simp
  moreover have "fst ?l \<noteq> []" if "snd ?l"
    using that by (rule set_loop_nonempty)
  ultimately show ?thesis
    using assms(1) Some
    by (auto simp: set_existing_def case_prod_beta paths_ok_def bucket_ok_def
      intro!: bm.full_put bm.full_erase)
qed (use assms in \<open>simp add: set_existing_def\<close>)

lemma setPathStatus_ok [intro]: "paths_ok c \<Longrightarrow> paths_ok (setPathStatus now d r st c)"
  by (simp add: setPathStatus_def set_existing_ok)

lemma setPathsTimer_ok [intro]: "paths_ok c \<Longrightarrow> paths_ok (setPathsTimer now d r t c)"
  by (simp add: setPathsTimer_def set_existing_ok)

lemma deleteAddress_erase: "smap_ok c \<Longrightarrow> smap_find (deleteAddress d c) = (smap_find c)(d := None)"
  by (auto simp: deleteAddress_def split: option.split)

lemma deleteAddress_ok [intro]: "paths_ok c \<Longrightarrow> paths_ok (deleteAddress d c)"
  by (auto simp: deleteAddress_def paths_ok_def bm.full_erase split: option.split)

lemma prune_filter_ok: "paths_ok c \<Longrightarrow> paths_ok (smap_prune (\<lambda>d. filter (P d)) c)"
  unfolding paths_ok_def by (rule bm.full_prune) (auto simp: bucket_ok_def distinct_map_filter)

lemma purgePathCache_ok [intro]: "paths_ok c \<Longrightarrow> paths_ok (purgePathCache now c)"
  by (simp add: purgePathCache_def prune_filter_ok)

lemma erasePathWithNode_ok [intro]: "paths_ok c \<Longrightarrow> paths_ok (erasePathWithNode now d c)"
  by (simp add: erasePathWithNode_def prune_filter_ok deleteAddress_ok)

lemma eraseRootLink_ok: "paths_ok c \<Longrightarrow> paths_ok (eraseRootLink now a2 c)"
  unfolding eraseRootLink_def Let_def
  by (rule prune_filter_ok)
    (auto simp: paths_ok_def bucket_ok_def bm.full_def distinct_map_filter split: option.split)

lemma erasePathWithLink_ok [intro]: "paths_ok c \<Longrightarrow> paths_ok (erasePathWithLink now self a1 a2 e b c)"
  by (simp add: erasePathWithLink_def eraseRootLink_ok prune_filter_ok)

lemma getPaths_ok [intro]: "paths_ok c \<Longrightarrow> paths_ok (snd (getPaths now d c))"
  by (auto simp: getPaths_def Let_def paths_ok_def bucket_ok_def distinct_map_filter bm.full_def
    split: option.split)

subsection \<open>The updates implement updates of the map\<close>

lemma usecs_pos: "0 < usecs t \<longleftrightarrow> t \<noteq> 0"
  by (simp add: usecs_def unat_gt_0 del: of_nat_unat)

lemma usecs_0 [simp]: "usecs 0 = 0"
  by (simp add: usecs_def)

lemma live_setPath:
  assumes ok: "paths_ok c"
  shows "live now (setPath now d r v k st t c) d' r' =
    (if d' = d \<and> r' = r then (if t = 0 then None else Some (st, now + usecs t, v))
     else live now c d' r')"
proof -
  define ps where "ps = (case smap_find c d of None \<Rightarrow> [] | Some ps \<Rightarrow> ps)"
  define upd where "upd = (\<lambda>p :: path. p\<lparr>p_vector_cost := v, p_cost := k, p_status := st,
    p_expires := now + usecs t\<rparr>)"
  define new where "new = new_path\<lparr>p_cost := k, p_vector_cost := v, p_status := st, p_route := r,
    p_expires := now + usecs t\<rparr>"
  define L where "L = (let (kept, ret) = set_loop now r upd ps in if ret then kept else kept @ [new])"
  have upd: "p_route (upd p) = p_route p" for p by (simp add: upd_def)
  have set: "setPath now d r v k st t c = smap_put d L c"
    by (simp add: setPath_def L_def ps_def upd_def new_def Let_def case_prod_beta)
  have dps: "distinct (map p_route ps)"
    using paths_ok_bucket [OF ok] by (auto simp: ps_def split: option.split)
  have dL: "distinct (map p_route L)"
    using setPath_ok [OF ok, of now d r v k st t] paths_ok_smap [OF ok]
    by (auto simp: set paths_ok_def bm.full_def bucket_ok_def split: if_splits)
  have base: "live now c d q = map_option path_info (List.find (is_live now q) ps)" for q
    by (simp add: live_def bm.entry_def ps_def split: option.split)
  have other: "List.find (is_live now q) L = List.find (is_live now q) ps" if "q \<noteq> r" for q
    using set_loop_other [where upd = upd and q = q and r = r and now = now and ps = ps] upd that
    by (simp add: L_def case_prod_beta find_append_single is_live_def new_def split: option.split)
  have "\<exists>p. List.find (\<lambda>p. p_route p = r) L = Some p \<and> path_info p = (st, now + usecs t, v)
      \<and> p_expires p = now + usecs t"
  proof (cases "r \<in> p_route ` set ps")
    case True
    then obtain p where "List.find (\<lambda>p. p_route p = r) ps = Some p"
      by (cases "List.find (\<lambda>p. p_route p = r) ps") (auto simp: find_None_iff)
    then show ?thesis
      using True set_loop_at [where upd = upd and now = now and r = r and ps = ps] upd
      by (simp add: L_def case_prod_beta set_loop_done path_info_def) (simp add: upd_def)
  next
    case False
    then show ?thesis
      using set_loop_at [where upd = upd and now = now and r = r and ps = ps] upd
      by (simp add: L_def case_prod_beta set_loop_done path_info_def find_append_single)
        (simp add: new_def)
  qed
  then have at: "map_option path_info (List.find (is_live now r) L) =
      (if t = 0 then None else Some (st, now + usecs t, v))"
    using find_live [OF dL, of now r] usecs_pos [of t] by (auto simp: expired_def)
  show ?thesis
    using at other base paths_ok_smap [OF ok] by (auto simp: set live_def bm.entry_put)
qed

text \<open>Filtering a bucket of which every live path passes the test or not by its route.\<close>

lemma find_filter_live:
  assumes "distinct (map p_route ps)"
  shows "List.find (is_live now r) (filter P ps) =
    (case List.find (is_live now r) ps of None \<Rightarrow> None | Some p \<Rightarrow> if P p then Some p else None)"
  using assms
proof (induction ps)
  case (Cons p ps)
  have "List.find (is_live now r) ps = None" if "is_live now r p"
    using Cons.prems that by (force simp: find_None_iff image_iff is_live_def)
  then show ?case using Cons by auto
qed simp

lemma entry_prune_filter:
  assumes "paths_ok c"
  shows "bm.entry (is_live now r) (smap_prune (\<lambda>d. filter (P d)) c) d =
    (case bm.entry (is_live now r) c d of None \<Rightarrow> None | Some p \<Rightarrow> if P d p then Some p else None)"
  unfolding bm.entry_prune [OF paths_ok_smap [OF assms]]
  using paths_ok_bucket [OF assms, of d]
  by (auto simp: bm.entry_def find_filter_live split: option.split)

lemma entry_live: "bm.entry (is_live now r) c d = Some p \<Longrightarrow> p_route p = r \<and> \<not> expired now p"
  by (auto simp: bm.entry_def is_live_def dest: find_Some_in split: option.splits)

lemma live_prune_filter:
  assumes "paths_ok c" and "\<And>p. p_route p = r \<Longrightarrow> \<not> expired now p \<Longrightarrow> P d p \<longleftrightarrow> Q"
  shows "live now (smap_prune (\<lambda>d. filter (P d)) c) d r = (if Q then live now c d r else None)"
  using assms(2) entry_live [of now r c d]
  by (auto simp: live_def entry_prune_filter [OF assms(1)] split: option.split)

lemma live_purge: "paths_ok c \<Longrightarrow> live now (purgePathCache now c) d r = live now c d r"
  using live_prune_filter [where Q = True and P = "\<lambda>d p. \<not> expired now p"]
  by (simp add: purgePathCache_def)

lemma live_deleteAddress:
  "paths_ok c \<Longrightarrow> live now (deleteAddress a c) d r = (if d = a then None else live now c d r)"
  using deleteAddress_erase [OF paths_ok_smap] by (simp add: live_def bm.entry_def)

lemma live_Nil [simp]: "live now [] d r = None"
  by (simp add: live_def bm.entry_def)

lemma live_erasePathWithNode:
  assumes "paths_ok c"
  shows "live now (erasePathWithNode now a c) d r =
    (if d = a \<or> a \<in> set r then None else live now c d r)"
  using live_prune_filter [OF deleteAddress_ok [OF assms], where Q = "a \<notin> set r"
      and P = "\<lambda>d p. \<not> expired now p \<and> a \<notin> set (p_route p)"] live_deleteAddress [OF assms]
  by (auto simp: erasePathWithNode_def)

lemma live_setPathStatus:
  assumes ok: "paths_ok c"
  shows "live now (setPathStatus now d r st c) d' r' =
    (if d' = d \<and> r' = r then map_option (\<lambda>(_, e, v). (st, e, v)) (live now c d r)
     else live now c d' r')"
proof (cases "smap_find c d")
  case None
  then show ?thesis by (auto simp: setPathStatus_def set_existing_def live_def bm.entry_def)
next
  case (Some ps)
  let ?upd = "\<lambda>p :: path. p\<lparr>p_status := st\<rparr>" and ?kept = "fst (set_loop now r (\<lambda>p. p\<lparr>p_status := st\<rparr>) ps)"
  have dps: "distinct (map p_route ps)" using paths_ok_bucket [OF ok Some] by simp
  have dk: "distinct (map p_route ?kept)" by (rule set_loop_distinct) (simp_all add: dps)
  have ne: "snd (set_loop now r ?upd ps) \<longrightarrow> ?kept \<noteq> []"
    using set_loop_nonempty by blast
  have set: "setPathStatus now d r st c = (if ?kept = [] then smap_erase d c else smap_put d ?kept c)"
    using ne by (auto simp: setPathStatus_def set_existing_def Some case_prod_beta)
  have at: "map_option path_info (List.find (is_live now r) ?kept)
      = map_option (\<lambda>(_, e, v). (st, e, v)) (map_option path_info (List.find (is_live now r) ps))"
  proof (cases "List.find (\<lambda>p. p_route p = r) ps")
    case None
    then show ?thesis
      unfolding find_live [OF dk] find_live [OF dps]
      using set_loop_at [where upd = ?upd and now = now and r = r and ps = ps] by simp
  next
    case (Some p)
    then have "r \<in> p_route ` set ps" by (auto dest: find_Some_in)
    with Some show ?thesis
      unfolding find_live [OF dk] find_live [OF dps]
      using set_loop_at [where upd = ?upd and now = now and r = r and ps = ps]
      by (simp add: expired_def path_info_def)
  qed
  have "live now (setPathStatus now d r st c) d' r' =
     (if d' = d then map_option path_info (List.find (is_live now r') ?kept) else live now c d' r')"
    unfolding set live_def using bm.entry_write_back [OF paths_ok_smap [OF ok]] by simp
  moreover have "live now c d q = map_option path_info (List.find (is_live now q) ps)" for q
    by (simp add: live_def bm.entry_def Some)
  ultimately show ?thesis
    using at set_loop_other [where upd = ?upd and q = r' and r = r and now = now and ps = ps] by auto
qed

text \<open>
  C18: a path cache implements a map from destination and route to a live path: recording a
  path, changing its status, forgetting a destination, purging and forgetting a node (not
  \<open>setPathsTimer\<close>) are the
  corresponding updates of the map, and leave every other path alone.
\<close>

theorem path_cache_refines_map:
  assumes "paths_ok c"
  shows "live now (setPath now d r v k st t c) = (live now c)(d := (live now c d)(r :=
           (if t = 0 then None else Some (st, now + usecs t, v))))
    \<and> live now (setPathStatus now d r st c) = (live now c)(d := (live now c d)(r :=
           map_option (\<lambda>(_, e, v). (st, e, v)) (live now c d r)))
    \<and> live now (deleteAddress d c) = (live now c)(d := Map.empty)
    \<and> live now (purgePathCache now c) = live now c
    \<and> live now (erasePathWithNode now a c) =
           (\<lambda>d r. if d = a \<or> a \<in> set r then None else live now c d r)"
  using assms
  by (auto simp: fun_eq_iff live_setPath live_setPathStatus live_deleteAddress live_purge
    live_erasePathWithNode)

subsection \<open>The best path\<close>

lemma getPathCosVect_kept:
  "fst (getPathCosVect_loop now ps s) = filter (\<lambda>p. \<not> expired now p) ps"
  by (induction now ps s rule: getPathCosVect_loop.induct) (auto simp: case_prod_beta Let_def)

text \<open>The valid path a search has chosen among those it has kept so far, and where it stands.\<close>

definition chosen :: "path list \<Rightarrow> search \<Rightarrow> path \<Rightarrow> bool" where
  "chosen kept s p \<longleftrightarrow> 0 \<le> s_position s \<and> nat (s_position s) < length kept
     \<and> kept ! nat (s_position s) = p \<and> p_status p = VALID
     \<and> s_route s = p_route p \<and> s_cost s = costPath p \<and> s_expire s = p_expires p"

definition no_better :: "path list \<Rightarrow> path \<Rightarrow> bool" where
  "no_better kept p \<longleftrightarrow> (\<forall>q\<in>set kept. p_status q = VALID \<longrightarrow>
     costPath p < costPath q \<or> costPath p = costPath q \<and> p_expires q \<le> p_expires p)"

definition search_inv :: "path list \<Rightarrow> search \<Rightarrow> bool" where
  "search_inv kept s \<longleftrightarrow> s_cont s = int (length kept) - 1
     \<and> (s_found s \<longleftrightarrow> (\<exists>p\<in>set kept. p_status p = VALID))
     \<and> (if s_found s
        then \<exists>p. chosen kept s p \<and> s_costVect s = p_vector_cost p \<and> no_better kept p
        else s_position s = -1)"

lemma search_inv_start: "search_inv [] search_start"
  by (simp add: search_inv_def search_start_def)

lemma chosen_append: "chosen kept s p \<Longrightarrow> chosen (kept @ ks) s p"
  by (auto simp: chosen_def nth_append)

lemma search_inv_skip:
  assumes "search_inv kept s" and "p_status p \<noteq> VALID"
  shows "search_inv (kept @ [p]) (s\<lparr>s_cont := s_cont s + 1\<rparr>)"
  using assms chosen_append [of kept s _ "[p]"]
  by (fastforce simp: search_inv_def no_better_def chosen_def)

lemma search_inv_step:
  assumes inv: "search_inv kept s" and valid: "p_status p = VALID"
  defines "s1 \<equiv> s\<lparr>s_cont := s_cont s + 1\<rparr>"
  defines "s2 \<equiv> (if better s1 p then (take_path s1 p)\<lparr>s_costVect := p_vector_cost p\<rparr> else s1)"
  shows "search_inv (kept @ [p]) (s2\<lparr>s_found := True\<rparr>)"
proof -
  have cont: "s_cont s = int (length kept) - 1" using inv by (simp add: search_inv_def)
  have found: "s_found s \<longleftrightarrow> (\<exists>p\<in>set kept. p_status p = VALID)"
    using inv by (simp add: search_inv_def)
  show ?thesis
  proof (cases "better s1 p")
    case True
    have "no_better (kept @ [p]) p"
    proof (cases "s_found s")
      case True
      then obtain q where q: "chosen kept s q" "no_better kept q"
        using inv by (auto simp: search_inv_def)
      then have "costPath p < costPath q \<or> costPath p = costPath q \<and> p_expires q < p_expires p"
        using \<open>better s1 p\<close> True by (auto simp: better_def s1_def chosen_def)
      then show ?thesis using q(2) by (fastforce simp: no_better_def)
    next
      case False
      then show ?thesis using found by (auto simp: no_better_def)
    qed
    then show ?thesis
      using True cont valid by (auto simp: s2_def s1_def search_inv_def chosen_def take_path_def)
  next
    case False
    then have f: "s_found s" by (simp add: better_def s1_def)
    then obtain q where q: "chosen kept s q" "no_better kept q" "s_costVect s = p_vector_cost q"
      using inv by (auto simp: search_inv_def)
    then have "costPath q < costPath p \<or> costPath q = costPath p \<and> p_expires p \<le> p_expires q"
      using False f by (auto simp: better_def s1_def chosen_def)
    then have "no_better (kept @ [p]) q" using q(2) by (auto simp: no_better_def)
    moreover have "chosen (kept @ [p]) (s1\<lparr>s_found := True\<rparr>) q"
      using chosen_append [OF q(1), of "[p]"] by (simp add: chosen_def s1_def)
    ultimately show ?thesis
      using False cont valid q(3) by (auto simp: s2_def search_inv_def s1_def)
  qed
qed

lemma search_inv_loop:
  "search_inv kept s \<Longrightarrow>
   search_inv (kept @ fst (getPathCosVect_loop now ps s)) (snd (getPathCosVect_loop now ps s))"
proof (induction now ps s arbitrary: kept rule: getPathCosVect_loop.induct)
  case (2 now p ps s)
  let ?s1 = "s\<lparr>s_cont := s_cont s + 1\<rparr>"
  consider "expired now p" | "\<not> expired now p" "p_status p = VALID"
    | "\<not> expired now p" "p_status p \<noteq> VALID" by blast
  then show ?case
  proof cases
    case 1
    then show ?thesis using 2 by simp
  next
    case c: 2
    let ?s2 = "if better ?s1 p then (take_path ?s1 p)\<lparr>s_costVect := p_vector_cost p\<rparr> else ?s1"
    have "search_inv (kept @ [p]) (?s2\<lparr>s_found := True\<rparr>)"
      using search_inv_step [OF "2.prems" c(2)] by simp
    from "2.IH"(2) [OF c(1) refl c(2) refl this] show ?thesis
      using c by (simp add: case_prod_beta Let_def)
  next
    case c: 3
    have "search_inv (kept @ [p]) ?s1" using search_inv_skip [OF "2.prems" c(2)] by simp
    from "2.IH"(3) [OF c(1) refl c(2) this] show ?thesis
      using c by (simp add: case_prod_beta Let_def)
  qed
qed simp

definition route_cost :: "path_route \<Rightarrow> real list \<Rightarrow> real" where
  "route_cost r v = (if v \<noteq> [] then foldl fadd 0 v else of_nat (length r + 1))"

lemma costPath_route_cost: "costPath p = route_cost (p_route p) (p_vector_cost p)"
  by (simp add: costPath_def route_cost_def)

lemma live_in_bucket:
  assumes "paths_ok c" and "smap_find c d = Some ps"
  shows "live now c d r = Some i \<longleftrightarrow>
    (\<exists>p\<in>set ps. \<not> expired now p \<and> p_route p = r \<and> path_info p = i)"
proof -
  have d: "distinct (map p_route ps)" using paths_ok_bucket [OF assms] by simp
  have l: "live now c d r = map_option path_info (List.find (is_live now r) ps)"
    by (simp add: live_def bm.entry_def assms(2))
  show ?thesis
  proof (cases "List.find (is_live now r) ps")
    case None
    then have "\<forall>p\<in>set ps. \<not> is_live now r p" by (simp add: find_None_iff)
    with None show ?thesis by (auto simp: l is_live_def)
  next
    case (Some p)
    then have p: "p \<in> set ps" "p_route p = r" "\<not> expired now p"
      by (auto dest!: find_Some_in simp: is_live_def)
    have uniq: "q = p" if "q \<in> set ps" "p_route q = r" for q
      using distinct_key_eq [OF d that(1) p(1)] that(2) p(2) by simp
    show ?thesis unfolding l Some using p by (auto dest: uniq)
  qed
qed

lemma live_no_bucket: "smap_find c d = None \<Longrightarrow> live now c d r = None"
  by (simp add: live_def bm.entry_def)

text \<open>Writing back the paths that have not expired, one of them refreshed or none.\<close>

lemma distinct_map_update:
  "i < length xs \<Longrightarrow> f y = f (xs ! i) \<Longrightarrow> map f (xs[i := y]) = map f xs"
  by (metis list_update_id map_update)

lemma find_live_refreshed:
  assumes "distinct (map p_route ps)" and "i < length ps" and "ps ! i = p" and "\<not> expired now q"
    and "p_route q = p_route p"
  shows "List.find (is_live now r) (ps[i := q]) =
    (if r = p_route p then Some q else List.find (is_live now r) ps)"
proof -
  have d: "distinct (map p_route (ps[i := q]))"
    using assms by (simp add: distinct_map_update)
  have q: "q \<in> set (ps[i := q])" using assms(2) by (simp add: set_update_memI)
  show ?thesis
  proof (cases "r = p_route p")
    case True
    obtain x where x: "List.find (is_live now r) (ps[i := q]) = Some x"
      using q assms(4,5) True
      by (cases "List.find (is_live now r) (ps[i := q])") (auto simp: find_None_iff is_live_def)
    then have "x \<in> set (ps[i := q])" "p_route x = r" by (auto dest: find_Some_in simp: is_live_def)
    then have "x = q" using distinct_key_eq [OF d _ q] True assms(5) by simp
    then show ?thesis using x True by simp
  next
    case False
    have "List.find P (xs[j := q]) = List.find P xs"
      if "j < length xs" "\<not> P (xs ! j)" "\<not> P q" for P j and xs :: "path list"
      using that by (induction xs arbitrary: j) (auto split: nat.split)
    then show ?thesis using False assms by (simp add: is_live_def)
  qed
qed

lemma live_search_end:
  assumes ok: "paths_ok c" and find: "smap_find c d = Some ps"
    and kept: "kept = filter (\<lambda>p. \<not> expired now p) ps"
    and sel: "t > 0 \<Longrightarrow> s_position s \<ge> 0 \<Longrightarrow> chosen kept s p"
  shows "live now (search_end now d t (kept, s) c) d' r =
      (if d' = d \<and> t > 0 \<and> s_position s \<ge> 0 \<and> r = p_route p
       then Some (p_status p, now + usecs t, p_vector_cost p) else live now c d' r)"
    and "paths_ok (search_end now d t (kept, s) c)"
proof -
  have d: "distinct (map p_route kept)"
    using paths_ok_bucket [OF ok find] by (simp add: kept distinct_map_filter)
  have same: "List.find (is_live now r) kept = List.find (is_live now r) ps"
    by (auto simp: kept find_filter_live paths_ok_bucket [OF ok find] is_live_def split: option.split
      dest: find_Some_in)
  let ?i = "nat (s_position s)" and ?q = "p\<lparr>p_expires := now + usecs t\<rparr>"
  have q: "\<not> expired now ?q" if "t > 0"
    using that usecs_pos [of t] by (auto simp: expired_def word_gt_0)
  have ref: "List.find (is_live now r) (kept[?i := ?q]) =
      (if r = p_route p then Some ?q else List.find (is_live now r) kept)"
    if "t > 0" "s_position s \<ge> 0"
    using sel [OF that] find_live_refreshed [OF d _ _ q [OF that(1)]] by (simp add: chosen_def)
  show "live now (search_end now d t (kept, s) c) d' r =
      (if d' = d \<and> t > 0 \<and> s_position s \<ge> 0 \<and> r = p_route p
       then Some (p_status p, now + usecs t, p_vector_cost p) else live now c d' r)"
  proof (cases "kept = []")
    case True
    then have "\<not> (t > 0 \<and> s_position s \<ge> 0)" using sel by (auto simp: chosen_def)
    moreover have "live now c d r = None"
      using True same by (simp add: live_def bm.entry_def find)
    ultimately show ?thesis
      using True paths_ok_smap [OF ok] by (auto simp: search_end_def live_def bm.entry_erase)
  next
    case False
    then show ?thesis
      using ref same sel paths_ok_smap [OF ok]
      by (auto simp: search_end_def live_def bm.entry_put bm.entry_def find path_info_def chosen_def
        Let_def)
  qed
  show "paths_ok (search_end now d t (kept, s) c)"
    using ok d sel distinct_map_update [of ?i kept p_route ?q]
    by (auto simp: search_end_def paths_ok_def bucket_ok_def Let_def chosen_def
      intro!: bm.full_put bm.full_erase)
qed

lemma getPathCosVect_found:
  fixes now :: simtime
  assumes ok: "paths_ok c" and find: "smap_find c d = Some ps"
  defines "l \<equiv> getPathCosVect_loop now ps search_start"
  shows "getPathCosVect now d t c = ((s_found (snd l), s_route (snd l), s_costVect (snd l),
      s_cost (snd l)), search_end now d t l c)"
    and "search_inv (filter (\<lambda>p. \<not> expired now p) ps) (snd l)"
    and "fst l = filter (\<lambda>p. \<not> expired now p) ps"
  using paths_ok_bucket [OF ok find] search_inv_loop [OF search_inv_start, of now ps]
  by (auto simp: getPathCosVect_def l_def find Let_def getPathCosVect_kept)

lemma no_better_live:
  assumes ok: "paths_ok c" and find: "smap_find c d = Some ps"
    and "no_better (filter (\<lambda>p. \<not> expired now p) ps) p"
    and "live now c d r = Some (VALID, e, v)"
  shows "costPath p < route_cost r v \<or> costPath p = route_cost r v \<and> e \<le> p_expires p"
  using assms(3,4) unfolding live_in_bucket [OF ok find] no_better_def
  by (fastforce simp: path_info_def costPath_route_cost)

text \<open>
  C19: a search returns a path exactly when a valid path to the destination has not expired; it
  is the cheapest of them, the last to expire among the cheapest; the cache stays the same except
  that the chosen path is refreshed when a time-out is given.
\<close>

theorem getPathCosVect_best:
  assumes ok: "paths_ok c" and res: "getPathCosVect now d t c = ((found, r, v, k), c')"
  shows "(found \<longleftrightarrow> (\<exists>r e v. live now c d r = Some (VALID, e, v)))
    \<and> (found \<longrightarrow> (\<exists>e. live now c d r = Some (VALID, e, v) \<and> k = route_cost r v \<and>
           (\<forall>r' e' v'. live now c d r' = Some (VALID, e', v') \<longrightarrow>
              k < route_cost r' v' \<or> k = route_cost r' v' \<and> e' \<le> e)))
    \<and> live now c' = (if found \<and> t \<noteq> 0
         then (live now c)(d := (live now c d)(r \<mapsto> (VALID, now + usecs t, v))) else live now c)
    \<and> paths_ok c'"
proof (cases "smap_find c d")
    case None
    then show ?thesis using ok res by (auto simp: getPathCosVect_def live_no_bucket)
  next
    case (Some ps)
    define l where "l = getPathCosVect_loop now ps search_start"
    note l = getPathCosVect_found [OF ok Some, of now, folded l_def]
    let ?kept = "filter (\<lambda>p. \<not> expired now p) ps"
    have r: "found = s_found (snd l)" "r = s_route (snd l)" "v = s_costVect (snd l)"
        "k = s_cost (snd l)" "c' = search_end now d t (?kept, snd l) c"
      using res l(1) [of t] l(3) by (auto simp: prod_eq_iff intro: arg_cong [where f = "\<lambda>l. search_end now d t l c"])
    have f: "found \<longleftrightarrow> (\<exists>r e v. live now c d r = Some (VALID, e, v))"
      using l(2) by (auto simp: r search_inv_def live_in_bucket [OF ok Some] path_info_def)
    show ?thesis
    proof (cases found)
      case True
      then obtain p where p: "chosen ?kept (snd l) p" "v = p_vector_cost p" "no_better ?kept p"
        using l(2) by (auto simp: search_inv_def r)
      have "p \<in> set ps" "\<not> expired now p" using p(1) by (auto simp: chosen_def dest: nth_mem)
      then have "live now c d r = Some (VALID, p_expires p, v)"
        using p(1,2) by (auto simp: live_in_bucket [OF ok Some] r(2) chosen_def path_info_def)
      moreover have "k = route_cost r v"
        using p(1,2) by (simp add: r(2,4) chosen_def costPath_route_cost)
      ultimately have "\<exists>e. live now c d r = Some (VALID, e, v) \<and> k = route_cost r v \<and>
           (\<forall>r' e' v'. live now c d r' = Some (VALID, e', v') \<longrightarrow>
              k < route_cost r' v' \<or> k = route_cost r' v' \<and> e' \<le> e)"
        using no_better_live [OF ok Some p(3)] p(1) by (auto simp: r(4) chosen_def)
      moreover have "live now c' = (if t \<noteq> 0
           then (live now c)(d := (live now c d)(r \<mapsto> (VALID, now + usecs t, v))) else live now c)"
        using live_search_end(1) [OF ok Some refl p(1), of t] p(1,2)
        by (auto simp: fun_eq_iff r(2,5) chosen_def word_gt_0)
      moreover have "paths_ok c'" using live_search_end(2) [OF ok Some refl p(1), of t] by (simp add: r(5))
      ultimately show ?thesis using True f by simp
    next
      case False
      then have "s_position (snd l) = -1" using l(2) by (simp add: search_inv_def r(1))
      then have "live now c' = live now c" "paths_ok c'"
        using live_search_end [OF ok Some refl, of t "snd l"] by (auto simp: fun_eq_iff r(5))
      with False f show ?thesis by simp
    qed
qed

subsection \<open>The other search\<close>

text \<open>
  \<open>getPath\<close> agrees with \<open>getPathCosVect\<close> on paths without cost vectors.
\<close>

lemma getPath_loop_no_vectors:
  "\<forall>p\<in>set ps. p_vector_cost p = [] \<Longrightarrow> s_costVect s = [] \<Longrightarrow>
   getPath_loop now ps s = getPathCosVect_loop now ps s"
proof (induction now ps s rule: getPath_loop.induct)
  case (2 now p ps s)
  let ?s1 = "s\<lparr>s_cont := s_cont s + 1\<rparr>"
  have v: "p_vector_cost p = []" using "2.prems"(1) by simp
  have t: "(take_path ?s1 p)\<lparr>s_costVect := [], s_found := True\<rparr> = (take_path ?s1 p)\<lparr>s_found := True\<rparr>"
    using "2.prems"(2) by (simp add: take_path_def)
  have c: "s_costVect (take_path ?s1 p) = []" using "2.prems"(2) by (simp add: take_path_def)
  consider "expired now p" | "\<not> expired now p" "p_status p = VALID"
    | "\<not> expired now p" "p_status p \<noteq> VALID" by blast
  then show ?case
  proof cases
    case 1
    then show ?thesis using 2 by simp
  next
    case k: 2
    show ?thesis
      using "2.IH"(2) [OF k(1) refl k(2) refl refl] "2.prems" k v c
      by (cases "better ?s1 p") (simp_all add: Let_def t)
  next
    case k: 3
    show ?thesis using "2.IH"(3) [OF k(1) refl k(2)] "2.prems" k by (simp add: Let_def)
  qed
qed simp

theorem getPath_no_vectors:
  assumes "\<And>ps. smap_find c d = Some ps \<Longrightarrow> \<forall>p\<in>set ps. p_vector_cost p = []"
  shows "getPath now d t c =
    (case getPathCosVect now d t c of ((found, r, v, k), c') \<Rightarrow> ((found, r, k), c'))"
  using assms
  by (auto simp: getPath_def getPathCosVect_def getPath_loop_no_vectors search_start_def Let_def
    split: option.split)

text \<open>
  With cost vectors it does not: the loop writes the best cost so far, initially the double
  nearest to \<open>1e100\<close>, over the first cost of a path, next to which the other costs vanish.
\<close>

definition HUGE :: real where
  "HUGE = s_cost search_start"

lemma ulp_eq: "2 powr of_int e \<le> \<bar>x\<bar> \<Longrightarrow> \<bar>x\<bar> < 2 powr of_int (e + 1) \<Longrightarrow> ulp x = 2 powr of_int (e - 52)"
proof -
  assume a: "2 powr of_int e \<le> \<bar>x\<bar>" "\<bar>x\<bar> < 2 powr of_int (e + 1)"
  have "0 < (2 :: real) powr of_int e" by simp
  then have x: "0 < \<bar>x\<bar>" using a(1) by linarith
  have "real_of_int e \<le> log 2 \<bar>x\<bar>" using a(1) x by (simp add: le_log_iff)
  moreover have "log 2 \<bar>x\<bar> < real_of_int (e + 1)" using a(2) x by (simp only: log_less_iff)
  ultimately have "\<lfloor>log 2 \<bar>x\<bar>\<rfloor> = e" by linarith
  then show ?thesis by (simp add: ulp_def)
qed

lemma powr_nat: "(2 :: real) powr of_int (int n) = 2 ^ n"
  by (simp add: powr_realpow)

lemma ulp_huge:
  assumes "2 ^ 332 \<le> x" and "x < 2 ^ 333"
  shows "ulp x = 2 ^ 280"
  using ulp_eq [of "int 332" x] powr_nat [of 332] powr_nat [of 333] powr_nat [of 280] assms by simp

lemma HUGE_eq: "HUGE = 5147557589468029 * 2 ^ 280"
proof -
  have u: "ulp (10 ^ 100) = 2 ^ 280" by (rule ulp_huge) simp_all
  have "\<lfloor>10 ^ 100 / 2 ^ 280 :: real\<rfloor> = 5147557589468028"
    by (rule floor_unique) simp_all
  then have r: "round_half_even (10 ^ 100 / 2 ^ 280) = 5147557589468029"
    by (simp add: round_half_even_def Let_def)
  have "HUGE = of_int (round_half_even (10 ^ 100 / ulp (10 ^ 100))) * ulp (10 ^ 100)"
    by (simp add: HUGE_def search_start_def fround_def)
  then show ?thesis unfolding u r by simp
qed

lemma fadd_HUGE:
  assumes "0 \<le> x" and "x < 2 ^ 279"
  shows "fadd HUGE x = HUGE"
proof -
  have "2 ^ 332 \<le> HUGE" "HUGE < 2 ^ 333" by (simp_all add: HUGE_eq)
  then have u: "ulp HUGE = 2 ^ 280" by (rule ulp_huge)
  have u': "ulp (HUGE + x) = 2 ^ 280" by (rule ulp_huge) (use assms in \<open>simp_all add: HUGE_eq\<close>)
  have "HUGE = of_int 5147557589468029 * ulp HUGE" unfolding u by (simp add: HUGE_eq)
  moreover have "\<bar>HUGE + x\<bar> > 0" using assms(1) by (simp add: HUGE_eq)
  moreover have "ulp (HUGE + x) = ulp HUGE" by (simp only: u u')
  moreover have "x < ulp HUGE / 2" unfolding u using assms(2) by simp
  ultimately show ?thesis
    unfolding fadd_def using assms(1) by (blast intro: fround_absorb)
qed

lemma foldl_fadd_HUGE: "list_all (\<lambda>x. 0 \<le> x \<and> x < 2 ^ 279) xs \<Longrightarrow> foldl fadd HUGE xs = HUGE"
  by (induction xs) (simp_all add: fadd_HUGE)

lemma fadd_0_HUGE: "fadd 0 HUGE = HUGE"
  using fadd_HUGE [of 0] by (simp add: fadd_def)

text \<open>A cost vector whose later costs are no larger than a \<open>double\<close> next to \<open>1e100\<close> can show.\<close>

definition swamped :: "real list \<Rightarrow> bool" where
  "swamped v \<longleftrightarrow> v \<noteq> [] \<and> list_all (\<lambda>x. 0 \<le> x \<and> x < 2 ^ 279) (tl v)"

lemma costPath_swamped:
  assumes "swamped (p_vector_cost p)"
  shows "costPath (p\<lparr>p_vector_cost := (p_vector_cost p)[0 := HUGE]\<rparr>) = HUGE"
  using assms by (cases "p_vector_cost p")
    (simp_all add: swamped_def costPath_def fadd_0_HUGE foldl_fadd_HUGE)

definition candidate :: "simtime \<Rightarrow> path \<Rightarrow> bool" where
  "candidate now p \<longleftrightarrow> \<not> expired now p \<and> p_status p = VALID"

definition by_expiry :: "simtime \<Rightarrow> path list \<Rightarrow> search \<Rightarrow> search \<Rightarrow> bool" where
  "by_expiry now ps s s' \<longleftrightarrow> s_cost s' = HUGE
     \<and> (s_found s' \<longleftrightarrow> s_found s \<or> (\<exists>p\<in>set ps. candidate now p))
     \<and> (s_found s' \<longrightarrow>
         (s_found s \<and> s_route s' = s_route s \<and> s_expire s' = s_expire s
          \<or> (\<exists>p\<in>set ps. candidate now p \<and> s_route s' = p_route p \<and> s_expire s' = p_expires p))
       \<and> (s_found s \<longrightarrow> s_expire s \<le> s_expire s')
       \<and> (\<forall>p\<in>set ps. candidate now p \<longrightarrow> p_expires p \<le> s_expire s'))"

lemma by_expiry_Cons:
  assumes "by_expiry now ps t s'" and "candidate now p" and "s_found t"
    and "s_route t = p_route p \<and> s_expire t = p_expires p \<and> (s_found s \<longrightarrow> s_expire s \<le> p_expires p)
      \<or> s_found s \<and> s_route t = s_route s \<and> s_expire t = s_expire s \<and> p_expires p \<le> s_expire s"
  shows "by_expiry now (p # ps) s s'"
  using assms unfolding by_expiry_def by (simp, elim disjE) (force)+

lemma getPath_loop_by_expiry:
  assumes "\<forall>p\<in>set ps. candidate now p \<longrightarrow> swamped (p_vector_cost p)" and "s_cost s = HUGE"
  shows "by_expiry now ps s (snd (getPath_loop now ps s))"
  using assms
proof (induction now ps s rule: getPath_loop.induct)
  case (2 now p ps s)
  let ?s1 = "s\<lparr>s_cont := s_cont s + 1\<rparr>" and ?p = "p\<lparr>p_vector_cost := (p_vector_cost p)[0 := HUGE]\<rparr>"
  consider "expired now p" | "\<not> expired now p" "p_status p = VALID"
    | "\<not> expired now p" "p_status p \<noteq> VALID" by blast
  then show ?case
  proof cases
    case 1
    then show ?thesis using 2 by (simp add: by_expiry_def candidate_def)
  next
    case k: 2
    then have c: "candidate now p" by (simp add: candidate_def)
    with "2.prems"(1) have w: "swamped (p_vector_cost p)" by simp
    then have ne: "p_vector_cost p \<noteq> []" by (simp add: swamped_def)
    let ?s2 = "(if better ?s1 ?p then take_path ?s1 ?p else ?s1)\<lparr>s_found := True\<rparr>"
    have cost: "s_cost ?s2 = HUGE"
      using "2.prems"(2) costPath_swamped [OF w] by (simp add: take_path_def)
    have p: "?p = (if p_vector_cost p \<noteq> []
        then p\<lparr>p_vector_cost := (p_vector_cost p)[0 := s_cost ?s1]\<rparr> else p)"
      using ne "2.prems"(2) by simp
    have rest: "\<forall>q\<in>set ps. candidate now q \<longrightarrow> swamped (p_vector_cost q)"
      using "2.prems"(1) by simp
    have "by_expiry now ps ?s2 (snd (getPath_loop now ps ?s2))"
      by (rule "2.IH"(2) [OF k(1) refl k(2) p refl rest cost])
    moreover have "getPath_loop now (p # ps) s = (let (kept, s3) = getPath_loop now ps ?s2 in (?p # kept, s3))"
      using k ne "2.prems"(2) by (simp add: Let_def)
    ultimately show ?thesis
      using c costPath_swamped [OF w] "2.prems"(2)
      by (intro by_expiry_Cons [where t = ?s2 and p = p])
        (auto simp: case_prod_beta better_def take_path_def)
  next
    case k: 3
    then show ?thesis using "2.IH"(3) [OF k(1) refl k(2)] "2.prems"
      by (simp add: case_prod_beta by_expiry_def candidate_def Let_def)
  qed
qed (simp add: by_expiry_def)

text \<open>
  With cost vectors \<open>getPath\<close> does not compare costs: the first cost of every path is
  overwritten with \<open>1e100\<close>, next to which the others vanish, so whatever the costs are it returns
  the valid path that expires last.
\<close>

theorem getPath_by_expiry:
  assumes ok: "paths_ok c"
    and vectors: "\<And>r e v. live now c d r = Some (VALID, e, v) \<Longrightarrow> swamped v"
    and res: "getPath now d t c = ((True, r, k), c')"
  shows "k = HUGE \<and> (\<exists>e v. live now c d r = Some (VALID, e, v) \<and>
    (\<forall>r' e' v'. live now c d r' = Some (VALID, e', v') \<longrightarrow> e' \<le> e))"
proof (cases "smap_find c d")
  case (Some ps)
  let ?s = "snd (getPath_loop now ps search_start)"
  have l: "live now c d r = Some (VALID, e, v) \<longleftrightarrow>
      (\<exists>p\<in>set ps. candidate now p \<and> p_route p = r \<and> p_expires p = e \<and> p_vector_cost p = v)" for r e v
    by (auto simp: live_in_bucket [OF ok Some] candidate_def path_info_def)
  have "\<forall>p\<in>set ps. candidate now p \<longrightarrow> swamped (p_vector_cost p)"
    using vectors l by blast
  then have b: "by_expiry now ps search_start ?s"
    by (rule getPath_loop_by_expiry) (simp add: HUGE_def)
  have r: "s_found ?s" "r = s_route ?s" "k = s_cost ?s"
    using res Some paths_ok_bucket [OF ok Some] by (auto simp: getPath_def Let_def)
  obtain p where p: "p \<in> set ps" "candidate now p" "r = p_route p" "s_expire ?s = p_expires p"
    using b r by (auto simp: by_expiry_def search_start_def)
  have "k = HUGE" "\<forall>q\<in>set ps. candidate now q \<longrightarrow> p_expires q \<le> p_expires p"
    using b r p(4) by (auto simp: by_expiry_def)
  then show ?thesis using p(1,2,3) unfolding l by blast
qed (use res in \<open>simp add: getPath_def\<close>)

subsection \<open>Broken links\<close>

lemma std_search_single: "std_search xs [a] \<noteq> length xs \<longleftrightarrow> a \<in> set xs"
  by (induction xs) auto

lemma erased_with_link_iff:
  "erased_with_link now a1 a2 ef b d p \<longleftrightarrow> expired now p \<or> a1 \<in> set (p_route p)
     \<or> (ef \<and> hd (p_route p @ [d]) = a2) \<or> (b \<and> a2 \<in> set (p_route p))"
proof -
  have s: "std_search r (take 1 [x, y]) \<noteq> length r \<longleftrightarrow> x \<in> set r" for r and x y :: addr
    using std_search_single [of r x] by simp
  show ?thesis unfolding erased_with_link_def Let_def s by (cases "p_route p") auto
qed

lemma live_eraseRootLink:
  assumes ok: "paths_ok c"
  shows "live now (eraseRootLink now a2 c) d r = (if hd (r @ [d]) = a2 then None else live now c d r)"
proof -
  define c1 where "c1 = (case smap_find c a2 of
                      None \<Rightarrow> c
                    | Some ps \<Rightarrow>
                        let kept = filter (\<lambda>p. \<not> expired now p \<and> p_route p \<noteq> []) ps
                        in if kept = [] then smap_erase a2 c else smap_put a2 kept c)"
  have ok1: "paths_ok c1"
    using ok by (auto simp: c1_def paths_ok_def bucket_ok_def bm.full_def distinct_map_filter
      Let_def split: option.split)
  have l1: "live now c1 d r = (if d = a2 \<and> r = [] then None else live now c d r)"
  proof (cases "smap_find c a2")
    case None
    then show ?thesis using live_no_bucket [OF None] by (auto simp: c1_def)
  next
    case (Some ps)
    let ?kept = "filter (\<lambda>p. \<not> expired now p \<and> p_route p \<noteq> []) ps"
    have "List.find (is_live now r) ?kept = (if r = [] then None else List.find (is_live now r) ps)"
      using paths_ok_bucket [OF ok Some]
      by (auto simp: find_filter_live is_live_def split: option.split dest: find_Some_in)
    then show ?thesis
      using paths_ok_smap [OF ok] bm.entry_write_back [of c "is_live now r" ?kept a2 d]
      by (auto simp: c1_def Some live_def Let_def bm.entry_def)
  qed
  have "live now (smap_prune (\<lambda>_. filter (\<lambda>p. \<not> expired now p
       \<and> \<not> (p_route p \<noteq> [] \<and> hd (p_route p) = a2))) c1) d r
     = (if \<not> (r \<noteq> [] \<and> hd r = a2) then live now c1 d r else None)"
    by (rule live_prune_filter [OF ok1]) auto
  then show ?thesis
    using l1 by (cases r) (auto simp: eraseRootLink_def Let_def c1_def [symmetric])
qed

lemma live_erasePathWithLink:
  assumes ok: "paths_ok c"
  shows "live now (erasePathWithLink now self a1 a2 ef b c) d r =
    (if (if self = a1 then hd (r @ [d]) = a2
         else a1 \<in> set r \<or> (ef \<and> hd (r @ [d]) = a2) \<or> (b \<and> a2 \<in> set r))
     then None else live now c d r)"
proof (cases "c = [] \<or> self = a1")
  case True
  then show ?thesis using live_eraseRootLink [OF ok] by (auto simp: erasePathWithLink_def)
next
  case False
  have "live now (smap_prune (\<lambda>d. filter (\<lambda>p. \<not> erased_with_link now a1 a2 ef b d p)) c) d r
     = (if \<not> (a1 \<in> set r \<or> (ef \<and> hd (r @ [d]) = a2) \<or> (b \<and> a2 \<in> set r))
        then live now c d r else None)"
    by (rule live_prune_filter [OF ok]) (simp add: erased_with_link_iff)
  with False show ?thesis by (auto simp: erasePathWithLink_def)
qed

text \<open>The links a path uses, from the node itself over the route to the destination.\<close>

definition uses_link :: "addr \<Rightarrow> addr \<Rightarrow> addr \<Rightarrow> addr \<Rightarrow> path_route \<Rightarrow> bool" where
  "uses_link self a1 a2 d r \<longleftrightarrow> (a1, a2) \<in> set (zip (self # r) (r @ [d]))"

lemma uses_link_cases:
  assumes "uses_link self a1 a2 d r"
  shows "a1 \<in> set r \<or> a1 = self \<and> hd (r @ [d]) = a2"
proof -
  have "zip (self # r) (r @ [d]) = (self, hd (r @ [d])) # zip r (tl (r @ [d]))"
    by (cases r) simp_all
  with assms show ?thesis by (auto simp: uses_link_def dest: set_zip_leftD)
qed

text \<open>
  C33: when no path goes through the node itself, erasing a link leaves no path that uses it, and adds
  none.  The paths it erases are, for a link of the node itself, exactly those whose first hop is the
  second end of the link; for another link exactly those that visit its first end, those that visit
  its second end when both directions are erased (every call in the program does so), and, with
  \<open>eraseFirst\<close>, those whose first hop is the second end, whether they use the link or not.
\<close>

theorem erasePathWithLink_unused:
  assumes ok: "paths_ok c" and "\<And>d r i. live now c d r = Some i \<Longrightarrow> self \<notin> set r"
    and c'_def: "c' = erasePathWithLink now self a1 a2 ef b c"
  shows "(\<forall>d r i. live now c' d r = Some i \<longrightarrow> live now c d r = Some i \<and> \<not> uses_link self a1 a2 d r)
    \<and> (\<forall>d r i. live now c d r = Some i \<and> live now c' d r = None \<longleftrightarrow>
          live now c d r = Some i \<and>
          (if self = a1 then hd (r @ [d]) = a2
           else a1 \<in> set r \<or> (ef \<and> hd (r @ [d]) = a2) \<or> (b \<and> a2 \<in> set r)))"
proof (intro conjI allI impI)
  fix d r i
  assume l: "live now c' d r = Some i"
  then have n: "\<not> (if self = a1 then hd (r @ [d]) = a2 else a1 \<in> set r)"
    unfolding c'_def live_erasePathWithLink [OF ok] by (auto split: if_splits)
  show "live now c d r = Some i"
    using l unfolding c'_def live_erasePathWithLink [OF ok] by (auto split: if_splits)
  then have "self \<notin> set r" by (rule assms(2))
  with n show "\<not> uses_link self a1 a2 d r"
    by (auto dest!: uses_link_cases split: if_splits)
next
  fix d r i
  show "live now c d r = Some i \<and> live now c' d r = None \<longleftrightarrow> live now c d r = Some i \<and>
          (if self = a1 then hd (r @ [d]) = a2
           else a1 \<in> set r \<or> (ef \<and> hd (r @ [d]) = a2) \<or> (b \<and> a2 \<in> set r))"
    unfolding c'_def live_erasePathWithLink [OF ok] by (cases i) auto
qed

end
