(* ===== verification/Dsr_Links_Spec.thy ===== *)
theory Dsr_Links_Spec
  imports Dsr_Links Dsr_Paths_Spec
begin

text \<open>
  What the link cache promises when every link costs 1, as all callers ask: the search ends without
  a fault, settles exactly the nodes that can be reached over links that have not expired, each at
  its hop count, and the routes read off it are shortest.  The invariant of the search is that of a
  breadth-first search: the heap holds two consecutive levels in order.
\<close>

subsection \<open>The graph\<close>

definition live_edge :: "simtime \<Rightarrow> (nat \<Rightarrow> edge option) \<Rightarrow> nat \<Rightarrow> bool" where
  "live_edge now E p \<longleftrightarrow> (case E p of None \<Rightarrow> False | Some e \<Rightarrow> now < e_expires e)"

definition link_target :: "(nat \<Rightarrow> edge option) \<Rightarrow> nat \<Rightarrow> addr option" where
  "link_target E p = map_option last_node (E p)"

definition live_succ :: "simtime \<Rightarrow> link_db \<Rightarrow> addr \<Rightarrow> addr set" where
  "live_succ now db u = {v. \<exists>p\<in>set (links_of db u). live_edge now (edges db) p \<and> link_target (edges db) p = Some v}"

inductive hops_to :: "(addr \<Rightarrow> addr set) \<Rightarrow> addr \<Rightarrow> nat \<Rightarrow> addr \<Rightarrow> bool" for G s where
  hops_zero: "hops_to G s 0 s"
| hops_step: "hops_to G s n u \<Longrightarrow> v \<in> G u \<Longrightarrow> hops_to G s (Suc n) v"

text \<open>Every link exists, costs 1 and leads to a node that has a list of links itself.\<close>

definition link_ok :: "link_db \<Rightarrow> nat \<Rightarrow> bool" where
  "link_ok db p \<longleftrightarrow> (case edges db p of None \<Rightarrow> False
     | Some e \<Rightarrow> e_costAdd e = 1 \<and> smap_find (linkArray db) (last_node e) \<noteq> None)"

definition graph_ok :: "link_db \<Rightarrow> bool" where
  "graph_ok db \<longleftrightarrow> smap_ok (linkArray db) \<and> smap_find (linkArray db) NoAddr = None
     \<and> (\<forall>u. \<forall>p\<in>set (links_of db u). link_ok db p)"

subsection \<open>The heap\<close>

lemma weakly_ordered_distinct:
  assumes "distinct (map iD xs)"
  shows "weakly_ordered xs"
proof -
  have "elem_eqv x y \<longleftrightarrow> s_costAdd x = s_costAdd y" if "x \<in> set xs" "y \<in> set xs" for x y
    using distinct_key_eq [OF assms that] by (auto simp: elem_eqv_def elem_less_def)
  then show ?thesis by (auto simp: weakly_ordered_def list_all_iff)
qed

lemma heap_insert_max:
  assumes "distinct (map iD (x # h))" and "\<And>y. y \<in> set h \<Longrightarrow> s_costAdd y \<le> s_costAdd x"
  shows "heap_insert x h = Inr (h @ [x])"
proof -
  have "\<not> elem_less x y" if "y \<in> set h" for y
    using assms(2) [OF that] by (simp add: elem_less_def)
  then have "takeWhile (\<lambda>y. \<not> elem_less x y) h = h" "dropWhile (\<lambda>y. \<not> elem_less x y) h = []"
    by (simp_all add: takeWhile_eq_all_conv)
  then show ?thesis using weakly_ordered_distinct [OF assms(1)] by (simp add: heap_insert_def)
qed

lemma equal_run_bounds: "h \<noteq> [] \<Longrightarrow> 1 \<le> equal_run h \<and> equal_run h \<le> length h"
  by (induction h rule: equal_run.induct) auto

lemma equal_run_front:
  "sorted (map s_costAdd h) \<Longrightarrow> i < equal_run h \<Longrightarrow> s_costAdd (h ! i) = s_costAdd (hd h)"
proof (induction h arbitrary: i rule: equal_run.induct)
  case (3 x y h)
  then show ?case by (cases i) (auto split: if_splits)
qed auto

lemma take_drop_set:
  assumes "distinct (map f h)" and "i < length h"
  shows "set (take i h @ drop (Suc i) h) = set h - {h ! i}"
    and "distinct (map f (take i h @ drop (Suc i) h))"
proof -
  have h: "h = take i h @ h ! i # drop (Suc i) h" by (rule id_take_nth_drop [OF assms(2)])
  have "distinct (map f (take i h @ h ! i # drop (Suc i) h))" using assms(1) h by simp
  then have "h ! i \<notin> set (take i h)" "h ! i \<notin> set (drop (Suc i) h)"
    and d: "distinct (map f (take i h @ drop (Suc i) h))" by auto
  moreover have "set h = insert (h ! i) (set (take i h) \<union> set (drop (Suc i) h))"
    by (subst h) auto
  ultimately show "set (take i h @ drop (Suc i) h) = set h - {h ! i}" by auto
  show "distinct (map f (take i h @ drop (Suc i) h))" by (rule d)
qed

lemma take_drop_sorted:
  assumes "sorted (map f h)" and "i < length h"
  shows "sorted (map f (take i h @ drop (Suc i) h))"
proof -
  have "map f h = map f (take i h) @ f (h ! i) # map f (drop (Suc i) h)"
    using id_take_nth_drop [OF assms(2)] by (metis list.simps(9) map_append)
  then show ?thesis using assms(1) by (auto simp: sorted_append)
qed

subsection \<open>One turn of the search\<close>

text \<open>The nodes found and not settled are those in the heap, at the cost they have there.\<close>

definition heap_of :: "(addr, dstate) smap \<Rightarrow> set_elem list \<Rightarrow> bool" where
  "heap_of rm h \<longleftrightarrow> distinct (map iD h)
     \<and> (\<forall>x\<in>set h. \<exists>st. smap_find rm (iD x) = Some st \<and> d_label st = Tent \<and> d_costAdd st = s_costAdd x)
     \<and> (\<forall>v st. smap_find rm v = Some st \<longrightarrow> d_label st = Tent \<longrightarrow> v \<in> iD ` set h)"

text \<open>The heap holds the levels \<open>k\<close> and \<open>k + 1\<close> in order; what is settled is no deeper than \<open>k\<close>.\<close>

definition two_levels :: "nat \<Rightarrow> (addr, dstate) smap \<Rightarrow> set_elem list \<Rightarrow> bool" where
  "two_levels k rm h \<longleftrightarrow> sorted (map s_costAdd h)
     \<and> (\<forall>x\<in>set h. s_costAdd x = real k \<or> s_costAdd x = real (Suc k))
     \<and> (\<forall>v st. smap_find rm v = Some st \<longrightarrow> d_label st = Perm \<longrightarrow> d_costAdd st \<le> real k)"

lemma levels_cost:
  assumes "heap_of rm h" and "two_levels k rm h" and "smap_find rm v = Some st"
  shows "d_costAdd st \<le> real (Suc k)"
proof (cases "d_label st")
  case Perm
  then show ?thesis using assms(2,3) by (fastforce simp: two_levels_def)
next
  case Tent
  then have "v \<in> iD ` set h" using assms(1,3) unfolding heap_of_def by blast
  then obtain x where "x \<in> set h" "iD x = v" by auto
  then have "d_costAdd st = s_costAdd x" "s_costAdd x \<le> real (Suc k)"
    using assms by (fastforce simp: heap_of_def two_levels_def)+
  then show ?thesis by simp
qed

definition reached_by_link ::
    "simtime \<Rightarrow> (nat \<Rightarrow> edge option) \<Rightarrow> addr \<Rightarrow> nat \<Rightarrow> nat list \<Rightarrow> addr \<Rightarrow> dstate \<Rightarrow> bool" where
  "reached_by_link now E u k ps v st \<longleftrightarrow> (\<exists>p\<in>set ps. live_edge now E p \<and> link_target E p = Some v
     \<and> st = \<lparr>d_costAdd = real (Suc k), idPrev = u, d_label = Tent, d_edge = Some p\<rparr>)"

lemma heap_of_insert:
  assumes "smap_ok rm" and "heap_of rm h" and "two_levels k rm h" and "smap_find rm v = None"
    and "st = \<lparr>d_costAdd = real (Suc k), idPrev = u, d_label = Tent, d_edge = Some p\<rparr>"
    and "x = \<lparr>iD = v, s_costAdd = real (Suc k)\<rparr>"
  shows "heap_insert x h = Inr (h @ [x])"
    and "heap_of (smap_put v st rm) (h @ [x])"
    and "two_levels k (smap_put v st rm) (h @ [x])"
proof -
  have v: "v \<notin> iD ` set h" using assms(2,4) by (auto simp: heap_of_def)
  have le: "s_costAdd y \<le> real (Suc k)" if "y \<in> set h" for y
    using assms(3) that by (auto simp: two_levels_def)
  show "heap_insert x h = Inr (h @ [x])"
    using assms(2,6) v le by (intro heap_insert_max) (auto simp: heap_of_def)
  show "heap_of (smap_put v st rm) (h @ [x])"
    using assms(1,2,5,6) v by (auto simp: heap_of_def)
  show "two_levels k (smap_put v st rm) (h @ [x])"
    using assms(1,3,5,6) le by (auto simp: two_levels_def sorted_append split: if_splits)
qed

text \<open>What the loop over the links \<open>ps\<close> of \<open>u\<close> makes of the nodes found so far.\<close>

definition relaxed :: "simtime \<Rightarrow> (nat \<Rightarrow> edge option) \<Rightarrow> addr \<Rightarrow> nat \<Rightarrow> nat list
    \<Rightarrow> (addr, dstate) smap \<Rightarrow> (addr, dstate) smap \<Rightarrow> bool" where
  "relaxed now E u k ps rm rm' \<longleftrightarrow>
     (\<forall>v st. smap_find rm v = Some st \<longrightarrow> smap_find rm' v = Some st)
   \<and> (\<forall>v st. smap_find rm' v = Some st \<longrightarrow> smap_find rm v = Some st
        \<or> smap_find rm v = None \<and> reached_by_link now E u k ps v st)
   \<and> (\<forall>p\<in>set ps. live_edge now E p \<longrightarrow> (\<exists>v st. link_target E p = Some v \<and> smap_find rm' v = Some st))"

lemma reached_by_link_Cons:
  "reached_by_link now E u k ps v st \<Longrightarrow> reached_by_link now E u k (p # ps) v st"
  by (auto simp: reached_by_link_def)

lemma relaxed_old:
  assumes "relaxed now E u k ps rm rm'"
    and "live_edge now E p \<Longrightarrow> link_target E p = Some v \<and> smap_find rm v = Some st"
  shows "relaxed now E u k (p # ps) rm rm'"
  using assms unfolding relaxed_def by (fastforce intro: reached_by_link_Cons)

lemma relaxed_new:
  assumes ok: "smap_ok rm" and none: "smap_find rm v = None"
    and live: "live_edge now E p" "link_target E p = Some v"
    and st: "st = \<lparr>d_costAdd = real (Suc k), idPrev = u, d_label = Tent, d_edge = Some p\<rparr>"
    and r: "relaxed now E u k ps (smap_put v st rm) rm'"
  shows "relaxed now E u k (p # ps) rm rm'"
proof -
  have at: "smap_find rm' v = Some st" using r ok by (simp add: relaxed_def)
  have "smap_find rm' w = Some s" if "smap_find rm w = Some s" for w s
  proof -
    have "w \<noteq> v" using that none by auto
    then have "smap_find (smap_put v st rm) w = Some s" using that ok by simp
    then show ?thesis using r unfolding relaxed_def by blast
  qed
  moreover have "smap_find rm w = Some s \<or> smap_find rm w = None \<and> reached_by_link now E u k (p # ps) w s"
    if w: "smap_find rm' w = Some s" for w s
  proof (cases "w = v")
    case True
    then have "s = st" using at w by simp
    then have "reached_by_link now E u k (p # ps) w s"
      unfolding reached_by_link_def st using live True by (intro bexI [of _ p]) simp_all
    then show ?thesis using True none by simp
  next
    case False
    then have at_w: "smap_find (smap_put v st rm) w = smap_find rm w" using ok by simp
    have "smap_find (smap_put v st rm) w = Some s
        \<or> smap_find (smap_put v st rm) w = None \<and> reached_by_link now E u k ps w s"
      using r w unfolding relaxed_def by blast
    then show ?thesis unfolding at_w by (auto intro: reached_by_link_Cons)
  qed
  moreover have "\<exists>v st. link_target E q = Some v \<and> smap_find rm' v = Some st"
    if "q \<in> set (p # ps)" "live_edge now E q" for q
    using that live at r by (auto simp: relaxed_def)
  ultimately show ?thesis unfolding relaxed_def by blast
qed

lemma relax_links_ok:
  assumes "smap_ok rm" and "heap_of rm h" and "two_levels k rm h" and "Suc k < 2 ^ 53"
    and "\<forall>p\<in>set ps. \<exists>e. E p = Some e \<and> e_costAdd e = 1"
  shows "\<exists>h' rm'. relax_links now E u (real k) ps h rm = Inr (filter (live_edge now E) ps, h', rm')
    \<and> smap_ok rm' \<and> heap_of rm' h' \<and> two_levels k rm' h' \<and> relaxed now E u k ps rm rm'"
  using assms
proof (induction ps arbitrary: h rm)
  case Nil
  then show ?case by (simp add: relaxed_def)
next
  case (Cons p ps)
  obtain e where e: "E p = Some e" "e_costAdd e = 1" using Cons.prems(5) by auto
  have ps: "\<forall>p\<in>set ps. \<exists>e. E p = Some e \<and> e_costAdd e = 1" using Cons.prems(5) by simp
  let ?v = "last_node e"
  have cost: "fadd 1 (real k) = real (Suc k)" using fadd_of_nat [of 1 k] Cons.prems(4) by simp
  show ?case
  proof (cases "live_edge now E p")
    case False
    then have "e_expires e \<le> now" using e by (simp add: live_edge_def)
    moreover obtain h' rm' where "relax_links now E u (real k) ps h rm
          = Inr (filter (live_edge now E) ps, h', rm')"
      "smap_ok rm'" "heap_of rm' h'" "two_levels k rm' h'" "relaxed now E u k ps rm rm'"
      using Cons.IH [OF Cons.prems(1-4) ps] by blast
    moreover have "relaxed now E u k (p # ps) rm rm'"
      using relaxed_old [OF calculation(6)] False by blast
    ultimately show ?thesis using e False by simp
  next
    case live: True
    then have nexp: "\<not> e_expires e \<le> now" and tgt: "link_target E p = Some ?v"
      using e by (simp_all add: live_edge_def link_target_def)
    show ?thesis
    proof (cases "smap_find rm ?v")
      case (Some nx)
      have "\<not> real (Suc k) < d_costAdd nx"
        using levels_cost [OF Cons.prems(2,3) Some] by simp
      then have "relax_links now E u (real k) (p # ps) h rm =
          bindE (relax_links now E u (real k) ps h rm) (\<lambda>(kept, h', rm'). Inr (p # kept, h', rm'))"
        using nexp e Some cost by (simp add: Let_def)
      moreover obtain h' rm' where "relax_links now E u (real k) ps h rm
            = Inr (filter (live_edge now E) ps, h', rm')"
        "smap_ok rm'" "heap_of rm' h'" "two_levels k rm' h'" "relaxed now E u k ps rm rm'"
        using Cons.IH [OF Cons.prems(1-4) ps] by blast
      moreover have "relaxed now E u k (p # ps) rm rm'"
        using relaxed_old [OF calculation(6)] tgt Some by blast
      ultimately show ?thesis using live by simp
    next
      case None
      let ?st = "\<lparr>d_costAdd = real (Suc k), idPrev = u, d_label = Tent, d_edge = Some p\<rparr>"
      let ?x = "\<lparr>iD = ?v, s_costAdd = real (Suc k)\<rparr>"
      let ?rm1 = "smap_put ?v ?st rm"
      note ins = heap_of_insert [where u = u and p = p, OF Cons.prems(1-3) None refl refl]
      have "relax_links now E u (real k) (p # ps) h rm =
          bindE (relax_links now E u (real k) ps (h @ [?x]) ?rm1)
            (\<lambda>(kept, h', rm'). Inr (p # kept, h', rm'))"
        using nexp e None cost ins(1) by (simp add: Let_def)
      moreover obtain h' rm' where "relax_links now E u (real k) ps (h @ [?x]) ?rm1
            = Inr (filter (live_edge now E) ps, h', rm')"
        "smap_ok rm'" "heap_of rm' h'" "two_levels k rm' h'" "relaxed now E u k ps ?rm1 rm'"
        using Cons.IH [OF smap_ok_put [OF Cons.prems(1)] ins(2,3) Cons.prems(4) ps] by blast
      moreover have "relaxed now E u k (p # ps) rm rm'"
        using relaxed_new [OF Cons.prems(1) None live tgt refl calculation(6)] .
      ultimately show ?thesis using live by simp
    qed
  qed
qed

subsection \<open>The invariant of the search\<close>

definition settled :: "(addr, dstate) smap \<Rightarrow> addr set" where
  "settled rm = {u. \<exists>st. smap_find rm u = Some st \<and> d_label st = Perm}"

text \<open>A node hangs on a link of a settled node one level up.\<close>

definition hangs :: "simtime \<Rightarrow> link_db \<Rightarrow> addr \<Rightarrow> dstate \<Rightarrow> bool" where
  "hangs now db v st \<longleftrightarrow> (\<exists>p stu n. d_edge st = Some p \<and> p \<in> set (links_of db (idPrev st))
     \<and> live_edge now (edges db) p \<and> link_target (edges db) p = Some v
     \<and> smap_find (routeMap db) (idPrev st) = Some stu \<and> d_label stu = Perm
     \<and> d_costAdd stu = real n \<and> d_costAdd st = real (Suc n))"

text \<open>All links of a settled node are live and lead to nodes found, no more than a level deeper.\<close>

definition expanded :: "simtime \<Rightarrow> link_db \<Rightarrow> addr \<Rightarrow> dstate \<Rightarrow> bool" where
  "expanded now db u st \<longleftrightarrow> (\<forall>p\<in>set (links_of db u). live_edge now (edges db) p
     \<and> (\<exists>v stv. link_target (edges db) p = Some v \<and> smap_find (routeMap db) v = Some stv
           \<and> d_costAdd stv \<le> d_costAdd st + 1))"

definition bfs_inv :: "simtime \<Rightarrow> link_db \<Rightarrow> bool" where
  "bfs_inv now db \<longleftrightarrow> graph_ok db \<and> smap_ok (routeMap db)
     \<and> (\<exists>st. smap_find (routeMap db) (rootNode db) = Some st \<and> d_costAdd st = 0)
     \<and> (\<forall>v st. smap_find (routeMap db) v = Some st \<longrightarrow>
          smap_find (linkArray db) v \<noteq> None
        \<and> (v \<noteq> rootNode db \<longrightarrow> hangs now db v st)
        \<and> (d_label st = Perm \<longrightarrow> expanded now db v st)
        \<and> d_costAdd st \<le> real (card (settled (routeMap db))))"

lemma settled_keys: "settled rm \<subseteq> set (map fst rm)"
  by (auto simp: settled_def image_iff dest!: map_of_SomeD) (metis fst_conv)

lemma settled_finite [simp]: "finite (settled rm)"
  using settled_keys [of rm] finite_subset by auto

lemma settled_in_links: "bfs_inv now db \<Longrightarrow> settled (routeMap db) \<subseteq> set (map fst (linkArray db))"
  by (auto simp: bfs_inv_def settled_def map_of_eq_None_iff)

lemma links_of_kept:
  assumes "smap_ok (linkArray db)"
  shows "links_of (db\<lparr>rng := x, routeMap := rm, linkArray := smap_put u kept (linkArray db)\<rparr>) w
    = (if w = u then kept else links_of db w)"
  using assms by (simp add: links_of_def)

lemma settled_relaxed:
  assumes ok: "smap_ok rm" and "smap_find rm u = Some st"
    and r: "relaxed now E u k ps (smap_put u (st\<lparr>d_label := Perm\<rparr>) rm) rm'"
  shows "settled rm' = insert u (settled rm)"
proof -
  let ?rm1 = "smap_put u (st\<lparr>d_label := Perm\<rparr>) rm"
  have "w \<in> settled rm' \<longleftrightarrow> w \<in> settled ?rm1" for w
  proof -
    have "smap_find ?rm1 w = Some s" if "smap_find rm' w = Some s" "d_label s = Perm" for s
    proof -
      have "\<not> reached_by_link now E u k ps w s" using that(2) by (auto simp: reached_by_link_def)
      then show ?thesis using r that(1) unfolding relaxed_def by blast
    qed
    moreover have "smap_find rm' w = Some s" if "smap_find ?rm1 w = Some s" for s
      using r that unfolding relaxed_def by blast
    ultimately show ?thesis unfolding settled_def by blast
  qed
  moreover have "settled ?rm1 = insert u (settled rm)"
    using ok by (auto simp: settled_def split: if_splits)
  ultimately show ?thesis by blast
qed

text \<open>The turn of the loop, once the node \<open>u\<close> is taken from the heap.\<close>

lemma bfs_inv_settle:
  fixes x :: nat
  assumes inv: "bfs_inv now db" and u: "smap_find (routeMap db) u = Some st" "d_label st = Tent"
    "d_costAdd st = real k"
    and r: "relaxed now (edges db) u k (links_of db u)
              (smap_put u (st\<lparr>d_label := Perm\<rparr>) (routeMap db)) rm'"
    and ok': "smap_ok rm'" and "heap_of rm' h'" and "two_levels k rm' h'"
  defines "db' \<equiv> db\<lparr>rng := x, routeMap := rm',
    linkArray := smap_put u (filter (live_edge now (edges db)) (links_of db u)) (linkArray db)\<rparr>"
  shows "bfs_inv now db'"
proof -
  let ?rm = "routeMap db" and ?E = "edges db"
  let ?rm1 = "smap_put u (st\<lparr>d_label := Perm\<rparr>) ?rm"
  have gok: "graph_ok db" and ok: "smap_ok ?rm" and la: "smap_ok (linkArray db)"
    using inv by (simp_all add: bfs_inv_def graph_ok_def)
  have ukey: "smap_find (linkArray db) u \<noteq> None" using inv u(1) by (simp add: bfs_inv_def)
  have keys: "smap_find (linkArray db') w \<noteq> None \<longleftrightarrow> smap_find (linkArray db) w \<noteq> None" for w
    using la ukey by (simp add: db'_def)
  have links: "links_of db' w = (if w = u then filter (live_edge now ?E) (links_of db u) else links_of db w)" for w
    unfolding db'_def by (rule links_of_kept [OF la])
  have sub: "set (links_of db' w) \<subseteq> set (links_of db w)" for w by (auto simp: links)
  have [simp]: "edges db' = ?E" "routeMap db' = rm'" "rootNode db' = rootNode db"
    by (simp_all add: db'_def)
  have keep: "smap_find rm' w = Some (if w = u then st\<lparr>d_label := Perm\<rparr> else s)"
    if "smap_find ?rm w = Some s" for w s
    using r that u(1) ok unfolding relaxed_def by auto
  have origin: "(\<exists>s0. smap_find ?rm w = Some s0 \<and> s = (if w = u then st\<lparr>d_label := Perm\<rparr> else s0))
      \<or> smap_find ?rm w = None \<and> reached_by_link now ?E u k (links_of db u) w s"
    if "smap_find rm' w = Some s" for w s
  proof -
    have "smap_find ?rm1 w = Some s \<or> smap_find ?rm1 w = None
        \<and> reached_by_link now ?E u k (links_of db u) w s"
      using r that unfolding relaxed_def by blast
    then show ?thesis using ok u(1) by (auto split: if_splits)
  qed
  have lok: "link_ok db' p" if "p \<in> set (links_of db' w)" for w p
  proof -
    have "link_ok db p" using gok that sub by (auto simp: graph_ok_def)
    then show ?thesis using keys by (auto simp: link_ok_def split: option.splits)
  qed
  have graph: "graph_ok db'"
    using gok lok keys [of NoAddr] la by (auto simp: graph_ok_def db'_def)
  have "smap_find ?rm w = Some s \<Longrightarrow> d_label s = Perm \<Longrightarrow> w \<noteq> u" for w s
    using u by auto
  then have hang_old: "hangs now db' w s" if "hangs now db w s0"
    and "s = (if w = u then st\<lparr>d_label := Perm\<rparr> else s0)" and "smap_find ?rm w = Some s0" for w s s0
    using that u(1) keep unfolding hangs_def by (fastforce simp: links)
  have hang_new: "hangs now db' w s" if "reached_by_link now ?E u k (links_of db u) w s" for w s
    using that keep [OF u(1)] u(3) unfolding hangs_def reached_by_link_def by (auto simp: links)
  have set: "settled rm' = insert u (settled ?rm)" by (rule settled_relaxed [OF ok u(1) r])
  have "u \<notin> settled ?rm" using u by (auto simp: settled_def)
  then have card: "card (settled rm') = Suc (card (settled ?rm))" by (simp add: set)
  have cost: "d_costAdd s \<le> real (card (settled ?rm))" if "smap_find ?rm w = Some s" for w s
    using inv that by (simp add: bfs_inv_def)
  have exp_old: "expanded now db' w s" if "expanded now db w s" "w \<noteq> u" for w s
    using that keep unfolding expanded_def
    by (fastforce simp: links u(1) split: if_splits)
  have exp_u: "expanded now db' u (st\<lparr>d_label := Perm\<rparr>)"
  proof -
    have "\<exists>v s. link_target ?E p = Some v \<and> smap_find rm' v = Some s \<and> d_costAdd s \<le> real k + 1"
      if p: "p \<in> set (links_of db u)" "live_edge now ?E p" for p
    proof -
      obtain v s where "link_target ?E p = Some v" "smap_find rm' v = Some s"
        using r p unfolding relaxed_def by blast
      then show ?thesis using levels_cost [OF assms(7,8)] by fastforce
    qed
    then show ?thesis unfolding expanded_def by (simp add: links u(3))
  qed
  have node: "smap_find (linkArray db') w \<noteq> None \<and> (w \<noteq> rootNode db' \<longrightarrow> hangs now db' w s)
      \<and> (d_label s = Perm \<longrightarrow> expanded now db' w s) \<and> d_costAdd s \<le> real (card (settled rm'))"
    if w: "smap_find rm' w = Some s" for w s
    using origin [OF w]
  proof (elim disjE exE conjE)
    fix s0
    assume s0: "smap_find ?rm w = Some s0" "s = (if w = u then st\<lparr>d_label := Perm\<rparr> else s0)"
    then have "smap_find (linkArray db) w \<noteq> None" "w \<noteq> rootNode db \<longrightarrow> hangs now db w s0"
      "d_label s0 = Perm \<longrightarrow> expanded now db w s0" "d_costAdd s = d_costAdd s0"
      using inv u(1) by (auto simp: bfs_inv_def)
    then show ?thesis
      using hang_old [OF _ s0(2,1)] exp_old exp_u cost [OF s0(1)] s0(2) keys card by (auto split: if_splits)
  next
    assume n: "smap_find ?rm w = None" "reached_by_link now ?E u k (links_of db u) w s"
    then obtain p where p: "p \<in> set (links_of db u)" "link_target ?E p = Some w" "d_label s = Tent"
      "d_costAdd s = real (Suc k)"
      unfolding reached_by_link_def by auto
    have "link_ok db p" using gok p(1) by (simp add: graph_ok_def)
    then have "smap_find (linkArray db) w \<noteq> None"
      using p(2) by (auto simp: link_ok_def link_target_def split: option.splits)
    then show ?thesis using hang_new [OF n(2)] p(3,4) cost [OF u(1)] u(3) keys card by simp
  qed
  have "\<exists>s. smap_find rm' (rootNode db) = Some s \<and> d_costAdd s = 0"
    using inv keep u(1) unfolding bfs_inv_def by (fastforce split: if_splits)
  then show ?thesis using graph ok' node by (simp add: bfs_inv_def)
qed

subsection \<open>The search ends\<close>

text \<open>All a search does to the lists of links is to take expired ones out.\<close>

definition purged :: "simtime \<Rightarrow> link_db \<Rightarrow> link_db \<Rightarrow> bool" where
  "purged now db db' \<longleftrightarrow> edges db' = edges db \<and> next_edge db' = next_edge db
     \<and> rootNode db' = rootNode db
     \<and> (smap_ok (linkArray db) \<longrightarrow> smap_ok (linkArray db'))
     \<and> set (map fst (linkArray db')) = set (map fst (linkArray db))
     \<and> (\<forall>u. links_of db' u = links_of db u
           \<or> links_of db' u = filter (live_edge now (edges db)) (links_of db u))"

lemma purged_refl: "edges db' = edges db \<Longrightarrow> next_edge db' = next_edge db \<Longrightarrow>
   rootNode db' = rootNode db \<Longrightarrow> linkArray db' = linkArray db \<Longrightarrow> purged now db db'"
  by (simp add: purged_def links_of_def)

lemma purged_trans:
  assumes "purged now a b" and "purged now b c"
  shows "purged now a c"
proof -
  have "links_of c u = links_of a u \<or> links_of c u = filter (live_edge now (edges a)) (links_of a u)" for u
  proof -
    have "links_of b u = links_of a u \<or> links_of b u = filter (live_edge now (edges a)) (links_of a u)"
      "links_of c u = links_of b u \<or> links_of c u = filter (live_edge now (edges a)) (links_of b u)"
      using assms by (simp_all add: purged_def)
    then show ?thesis by auto
  qed
  then show ?thesis using assms by (simp add: purged_def)
qed

lemma purged_live_succ: "purged now db db' \<Longrightarrow> live_succ now db' = live_succ now db"
proof (rule ext)
  fix u
  assume p: "purged now db db'"
  then have "links_of db' u = links_of db u \<or> links_of db' u = filter (live_edge now (edges db)) (links_of db u)"
    "edges db' = edges db" by (simp_all add: purged_def)
  then show "live_succ now db' u = live_succ now db u" by (auto simp: live_succ_def)
qed

lemma smap_keys_length: "smap_ok m \<Longrightarrow> length m = card (set (map fst m))"
  using smap_ok_distinct [of m] distinct_card [of "map fst m"] by simp

lemma purged_length:
  "smap_ok (linkArray db) \<Longrightarrow> purged now db db' \<Longrightarrow> length (linkArray db') = length (linkArray db)"
  by (simp add: smap_keys_length purged_def)

definition search_state :: "simtime \<Rightarrow> nat \<Rightarrow> set_elem list \<Rightarrow> link_db \<Rightarrow> bool" where
  "search_state now k h db \<longleftrightarrow> bfs_inv now db \<and> heap_of (routeMap db) h \<and> two_levels k (routeMap db) h"

lemma heap_of_pop:
  assumes "smap_ok rm" and "heap_of rm h" and "i < length h" and "smap_find rm (iD (h ! i)) = Some st"
  shows "heap_of (smap_put (iD (h ! i)) (st\<lparr>d_label := Perm\<rparr>) rm) (take i h @ drop (Suc i) h)"
proof -
  have d: "distinct (map iD h)" using assms(2) by (simp add: heap_of_def)
  note td = take_drop_set [OF d assms(3)]
  have ne: "iD x \<noteq> iD (h ! i)" if "x \<in> set h - {h ! i}" for x
    using distinct_key_eq [OF d, of x "h ! i"] that assms(3) by auto
  have "v \<in> iD ` (set h - {h ! i})" if "v \<in> iD ` set h" "v \<noteq> iD (h ! i)" for v
    using that by auto
  then have "\<forall>v s. smap_find (smap_put (iD (h ! i)) (st\<lparr>d_label := Perm\<rparr>) rm) v = Some s \<longrightarrow>
      d_label s = Tent \<longrightarrow> v \<in> iD ` (set h - {h ! i})"
    using assms(1,2) by (simp add: heap_of_def)
  then show ?thesis
    unfolding heap_of_def td(1) using td(2) assms(1,2) ne by (auto simp: heap_of_def)
qed

lemma two_levels_pop:
  assumes ok: "smap_ok rm" and tl: "two_levels k rm h" and "h \<noteq> []" and i: "i < equal_run h"
    and st: "d_costAdd st = s_costAdd (h ! i)"
  shows "\<exists>k'. s_costAdd (h ! i) = real k' \<and>
    two_levels k' (smap_put u (st\<lparr>d_label := Perm\<rparr>) rm) (take i h @ drop (Suc i) h)"
proof -
  have len: "i < length h" using equal_run_bounds [OF assms(3)] i by simp
  have sorted: "sorted (map s_costAdd h)" using tl by (simp add: two_levels_def)
  have hd: "s_costAdd (h ! i) = s_costAdd (hd h)" by (rule equal_run_front [OF sorted i])
  have "s_costAdd (h ! i) = real k \<or> s_costAdd (h ! i) = real (Suc k)"
    using tl nth_mem [OF len] unfolding two_levels_def by blast
  then obtain k' where k': "s_costAdd (h ! i) = real k'" "k' = k \<or> k' = Suc k" by blast
  have least: "real k' \<le> s_costAdd x" if "x \<in> set h" for x
    using sorted that \<open>h \<noteq> []\<close> hd k'(1) by (cases h) auto
  have sub: "set (take i h @ drop (Suc i) h) \<subseteq> set h"
    by (auto dest: in_set_takeD in_set_dropD)
  have "s_costAdd x = real k' \<or> s_costAdd x = real (Suc k')" if "x \<in> set (take i h @ drop (Suc i) h)" for x
    using that sub least [of x] tl k'(2) by (fastforce simp: two_levels_def)
  moreover have "d_costAdd s \<le> real k'"
    if "smap_find (smap_put u (st\<lparr>d_label := Perm\<rparr>) rm) v = Some s" "d_label s = Perm" for v s
    using that tl k' st ok by (fastforce simp: two_levels_def split: if_splits)
  ultimately show ?thesis
    using take_drop_sorted [OF sorted len] k'(1) by (auto simp: two_levels_def)
qed

lemma run_step_ok:
  assumes s: "search_state now k h db" and ne: "h \<noteq> []" and big: "length (linkArray db) < 2 ^ 53"
  shows "\<exists>h' db' k'. run_step rand now NoAddr h db = Inr (Some h', db') \<and> search_state now k' h' db'
    \<and> purged now db db' \<and> card (settled (routeMap db')) = Suc (card (settled (routeMap db)))"
proof -
  let ?rm = "routeMap db"
  have inv: "bfs_inv now db" and hp: "heap_of ?rm h" and tl: "two_levels k ?rm h"
    using s by (simp_all add: search_state_def)
  have ok: "smap_ok ?rm" and gok: "graph_ok db" using inv by (simp_all add: bfs_inv_def)
  define i where "i = (if equal_run h - 1 > 0 then rand (rng db) mod (equal_run h - 1) else 0)"
  define x where "x = (if equal_run h - 1 > 0 then rng db + 1 else rng db)"
  have i: "i < equal_run h" using equal_run_bounds [OF ne]
    by (auto simp: i_def intro: less_le_trans [OF mod_less_divisor])
  then have len: "i < length h" using equal_run_bounds [OF ne] by simp
  let ?u = "iD (h ! i)" and ?h1 = "take i h @ drop (Suc i) h"
  obtain st where st: "smap_find ?rm ?u = Some st" "d_label st = Tent" "d_costAdd st = s_costAdd (h ! i)"
    using hp nth_mem [OF len] by (auto simp: heap_of_def)
  let ?rm1 = "smap_put ?u (st\<lparr>d_label := Perm\<rparr>) ?rm"
  obtain k' where k': "s_costAdd (h ! i) = real k'" "two_levels k' ?rm1 ?h1"
    using two_levels_pop [OF ok tl ne i st(3)] by blast
  have h1: "heap_of ?rm1 ?h1" by (rule heap_of_pop [OF ok hp len st(1)])
  have ok1: "smap_ok ?rm1" using ok by simp
  have key: "smap_find (linkArray db) ?u \<noteq> None" using inv st(1) by (simp add: bfs_inv_def)
  have la: "smap_ok (linkArray db)" using gok by (simp add: graph_ok_def)
  have "?u \<notin> settled ?rm" using st by (auto simp: settled_def)
  moreover have key_in: "?u \<in> set (map fst (linkArray db))" using key by (simp add: map_of_eq_None_iff)
  ultimately have "settled ?rm \<subset> set (map fst (linkArray db))"
    using settled_in_links [OF inv] by blast
  then have "card (settled ?rm) < length (linkArray db)"
    by (simp add: smap_keys_length [OF la] psubset_card_mono)
  moreover have "d_costAdd st \<le> real (card (settled ?rm))"
    using inv st(1) unfolding bfs_inv_def by blast
  ultimately have k'_big: "Suc k' < 2 ^ 53" using big st(3) k'(1) by simp
  have lok: "\<forall>p\<in>set (links_of db ?u). \<exists>e. edges db p = Some e \<and> e_costAdd e = 1"
    using gok by (fastforce simp: graph_ok_def link_ok_def split: option.splits)
  obtain h' rm' where r: "relax_links now (edges db) ?u (real k') (links_of db ?u) ?h1 ?rm1
      = Inr (filter (live_edge now (edges db)) (links_of db ?u), h', rm')"
    "smap_ok rm'" "heap_of rm' h'" "two_levels k' rm' h'"
    "relaxed now (edges db) ?u k' (links_of db ?u) ?rm1 rm'"
    using relax_links_ok [OF ok1 h1 k'(2) k'_big lok] by blast
  let ?db' = "db\<lparr>rng := x, routeMap := rm',
    linkArray := smap_put ?u (filter (live_edge now (edges db)) (links_of db ?u)) (linkArray db)\<rparr>"
  have na: "NoAddr \<noteq> ?u" using key gok by (auto simp: graph_ok_def)
  obtain ls where ls: "smap_find (linkArray db) ?u = Some ls" using key by auto
  then have "links_of db ?u = ls" by (simp add: links_of_def)
  moreover have "(if equal_run h - 1 > 0 then db\<lparr>rng := rng db + 1\<rparr> else db) = db\<lparr>rng := x\<rparr>"
    by (simp add: x_def)
  ultimately have step: "run_step rand now NoAddr h db = Inr (Some h', ?db')"
    unfolding run_step_def Let_def i_def [symmetric] using r(1) st k'(1) na ls by simp
  have inv': "bfs_inv now ?db'"
    by (rule bfs_inv_settle [OF inv st(1,2) _ r(5,2,3,4)]) (simp add: st(3) k'(1))
  have "purged now db ?db'"
    using la key_in keys_put [of ?u _ "linkArray db"]
      links_of_kept [OF la, where x = x and rm = rm' and u = ?u]
    by (simp add: purged_def insert_absorb)
  moreover have "card (settled rm') = Suc (card (settled ?rm))"
    using settled_relaxed [OF ok st(1) r(5)] \<open>?u \<notin> settled ?rm\<close> by simp
  ultimately show ?thesis using step inv' r(3,4) by (auto simp: search_state_def)
qed

text \<open>The loop settles a node in every turn, of which there are finitely many.\<close>

lemma run_loop_ok:
  assumes "search_state now k h db" and "length (linkArray db) < 2 ^ 53"
  shows "\<exists>db' k'. run_loop rand now NoAddr h db = Some (Inr db') \<and> search_state now k' [] db' \<and> purged now db db'"
  using assms
proof (induction "length (linkArray db) - card (settled (routeMap db))" arbitrary: k h db rule: less_induct)
  case less
  show ?case
  proof (cases "h = []")
    case True
    then have "run_loop rand now NoAddr h db = Some (Inr db)" by (subst run_loop.simps) simp
    then show ?thesis using True less.prems(1) purged_refl [of db db] by blast
  next
    case False
    from run_step_ok [OF less.prems(1) False less.prems(2)]
    obtain h' db' k' where s: "run_step rand now NoAddr h db = Inr (Some h', db')"
      "search_state now k' h' db'" "purged now db db'"
      "card (settled (routeMap db')) = Suc (card (settled (routeMap db)))" by blast
    have la: "smap_ok (linkArray db)" "smap_ok (linkArray db')"
      using less.prems(1) s(2) by (simp_all add: search_state_def bfs_inv_def graph_ok_def)
    have len: "length (linkArray db') = length (linkArray db)" by (rule purged_length [OF la(1) s(3)])
    have "card (settled (routeMap db')) \<le> length (linkArray db')"
      unfolding smap_keys_length [OF la(2)]
      by (rule card_mono) (use s(2) settled_in_links in \<open>auto simp: search_state_def\<close>)
    then have "length (linkArray db') - card (settled (routeMap db'))
        < length (linkArray db) - card (settled (routeMap db))" using s(4) len by simp
    from less.hyps [OF this s(2)] obtain db'' k'' where
      "run_loop rand now NoAddr h' db' = Some (Inr db'')" "search_state now k'' [] db''" "purged now db' db''"
      using less.prems(2) len by auto
    moreover have "run_loop rand now NoAddr h db = run_loop rand now NoAddr h' db'"
      using False s(1) by (subst run_loop.simps) simp
    ultimately show ?thesis using purged_trans [OF s(3)] by auto
  qed
qed

subsection \<open>The tree of shortest routes\<close>

text \<open>What stays true of \<open>routeMap\<close> while time passes and links expire.\<close>

definition tree_node :: "link_db \<Rightarrow> addr \<Rightarrow> dstate \<Rightarrow> bool" where
  "tree_node db v st \<longleftrightarrow>
     (v \<noteq> rootNode db \<longrightarrow> (\<exists>p stu n. d_edge st = Some p \<and> p \<in> set (links_of db (idPrev st))
        \<and> link_target (edges db) p = Some v \<and> smap_find (routeMap db) (idPrev st) = Some stu
        \<and> d_costAdd stu = real n \<and> d_costAdd st = real (Suc n)))
   \<and> (\<forall>p\<in>set (links_of db v). \<exists>w stw. link_target (edges db) p = Some w
        \<and> smap_find (routeMap db) w = Some stw \<and> d_costAdd stw \<le> d_costAdd st + 1)"

definition tree_ok :: "link_db \<Rightarrow> bool" where
  "tree_ok db \<longleftrightarrow> graph_ok db \<and> smap_ok (routeMap db) \<and> (routeMap db \<noteq> [] \<longrightarrow>
     (\<exists>st. smap_find (routeMap db) (rootNode db) = Some st \<and> d_costAdd st = 0)
   \<and> (\<forall>v st. smap_find (routeMap db) v = Some st \<longrightarrow> tree_node db v st))"

text \<open>The links of the graph, expired or not.\<close>

definition all_succ :: "link_db \<Rightarrow> addr \<Rightarrow> addr set" where
  "all_succ db u = {v. \<exists>p\<in>set (links_of db u). link_target (edges db) p = Some v}"

lemma live_succ_sub: "live_succ now db u \<subseteq> all_succ db u"
  by (auto simp: live_succ_def all_succ_def)

lemma tree_covers:
  assumes "tree_ok db" and "routeMap db \<noteq> []" and "hops_to (all_succ db) (rootNode db) n v"
  shows "\<exists>st. smap_find (routeMap db) v = Some st \<and> d_costAdd st \<le> real n"
  using assms(3)
proof (induction rule: hops_to.induct)
  case hops_zero
  then show ?case using assms(1,2) by (auto simp: tree_ok_def)
next
  case (hops_step n u v)
  then obtain st where st: "smap_find (routeMap db) u = Some st" "d_costAdd st \<le> real n" by auto
  then have "tree_node db u st" using assms(1,2) by (simp add: tree_ok_def)
  then show ?case using hops_step(2) st(2) unfolding tree_node_def all_succ_def by fastforce
qed

lemma tree_cost:
  assumes "tree_ok db" and "smap_find (routeMap db) v = Some st"
  shows "\<exists>n. d_costAdd st = real n \<and> (n = 0 \<longleftrightarrow> v = rootNode db)"
proof -
  have "routeMap db \<noteq> []" using assms(2) by auto
  then show ?thesis
    using assms unfolding tree_ok_def tree_node_def by (cases "v = rootNode db") fastforce+
qed

text \<open>A finished search leaves such a tree, and every link of a node in it is live.\<close>

lemma search_finished:
  assumes "search_state now k [] db"
  shows "tree_ok db"
    and "smap_find (routeMap db) v = Some st \<Longrightarrow> p \<in> set (links_of db v) \<Longrightarrow> live_edge now (edges db) p"
proof -
  have inv: "bfs_inv now db" using assms by (simp add: search_state_def)
  have perm: "d_label st = Perm" if "smap_find (routeMap db) v = Some st" for v st
    using assms that by (cases "d_label st") (auto simp: search_state_def heap_of_def)
  have node: "(v \<noteq> rootNode db \<longrightarrow> hangs now db v st) \<and> expanded now db v st"
    if "smap_find (routeMap db) v = Some st" for v st
    using inv that perm [OF that] by (simp add: bfs_inv_def)
  show "tree_ok db"
    using inv node unfolding tree_ok_def tree_node_def bfs_inv_def hangs_def expanded_def by fast
  show "live_edge now (edges db) p"
    if "smap_find (routeMap db) v = Some st" "p \<in> set (links_of db v)"
    using node [OF that(1)] that(2) by (simp add: expanded_def)
qed

lemma graph_ok_routeMap [simp]: "graph_ok (db\<lparr>routeMap := rm\<rparr>) = graph_ok db"
  by (simp add: graph_ok_def links_of_def link_ok_def cong: option.case_cong)

text \<open>The whole search: nothing is found when the node itself has no list of links.\<close>

theorem run_ok:
  assumes g: "graph_ok db" and big: "length (linkArray db) < 2 ^ 53"
  shows "\<exists>db'. run rand now NoAddr db = Some (Inr db') \<and> tree_ok db' \<and> purged now db db'
    \<and> (\<forall>v st p. smap_find (routeMap db') v = Some st \<longrightarrow> p \<in> set (links_of db' v) \<longrightarrow>
         live_edge now (edges db') p)
    \<and> (routeMap db' = [] \<longrightarrow> smap_find (linkArray db') (rootNode db') = None)"
proof (cases "smap_find (linkArray db) (rootNode db)")
  case None
  then have "run rand now NoAddr db = Some (Inr (db\<lparr>routeMap := []\<rparr>))"
    by (simp add: run_def Let_def)
  then show ?thesis using None g purged_refl [of "db\<lparr>routeMap := []\<rparr>" db]
    by (simp add: tree_ok_def)
next
  case (Some ls)
  let ?rm = "smap_put (rootNode db) (new_dstate 0) []" and ?h = "[\<lparr>iD = rootNode db, s_costAdd = 0\<rparr>]"
  let ?db = "db\<lparr>routeMap := ?rm\<rparr>"
  have "bfs_inv now ?db" using g Some by (simp add: bfs_inv_def new_dstate_def smap_ok_def)
  then have ss: "search_state now 0 ?h ?db"
    by (simp add: search_state_def heap_of_def two_levels_def new_dstate_def)
  have "length (linkArray ?db) < 2 ^ 53" using big by simp
  from run_loop_ok [OF ss this, of rand] obtain db' k' where
    r: "run_loop rand now NoAddr ?h ?db = Some (Inr db')" "search_state now k' [] db'" "purged now ?db db'"
    by blast
  have "run rand now NoAddr db = Some (Inr db')"
    using Some r(1) by (cases "linkArray db") (simp_all add: run_def Let_def)
  moreover have "routeMap db' \<noteq> []"
    using r(2) by (auto simp: search_state_def bfs_inv_def)
  moreover have "purged now db db'"
    using purged_trans [OF purged_refl [of ?db db] r(3)] by simp
  ultimately show ?thesis using search_finished [OF r(2)] by blast
qed

lemma hops_to_mono: "hops_to G s n v \<Longrightarrow> (\<And>u. G u \<subseteq> H u) \<Longrightarrow> hops_to H s n v"
  by (induction rule: hops_to.induct) (auto intro: hops_to.intros)

text \<open>A path, given by the nodes after the first.\<close>

fun path_in :: "(addr \<Rightarrow> addr set) \<Rightarrow> addr \<Rightarrow> addr list \<Rightarrow> bool" where
  "path_in G u [] = True"
| "path_in G u (x # xs) = (x \<in> G u \<and> path_in G x xs)"

lemma path_in_append: "path_in G u (xs @ [v, w]) \<longleftrightarrow> path_in G u (xs @ [v]) \<and> w \<in> G v"
  by (induction xs arbitrary: u) auto

lemma path_in_hops: "path_in G s (xs @ [v]) \<Longrightarrow> hops_to G s (Suc (length xs)) v"
proof (induction xs arbitrary: v rule: rev_induct)
  case Nil
  then show ?case by (auto intro: hops_to.intros)
next
  case (snoc x xs)
  then show ?case using path_in_append [of G s xs x v] by (auto intro: hops_step)
qed

subsection \<open>Reading a route\<close>

text \<open>Refreshing links on the way changes nothing but the expiry of live links.\<close>

definition refreshed :: "simtime \<Rightarrow> link_db \<Rightarrow> link_db \<Rightarrow> bool" where
  "refreshed now db db' \<longleftrightarrow> linkArray db' = linkArray db \<and> rootNode db' = rootNode db
     \<and> next_edge db' = next_edge db
     \<and> (\<forall>p. map_option (\<lambda>e. (last_node e, e_costAdd e)) (edges db' p)
            = map_option (\<lambda>e. (last_node e, e_costAdd e)) (edges db p))
     \<and> (\<forall>p. live_edge now (edges db') p = live_edge now (edges db) p)"

lemma refreshed_refl [simp]: "refreshed now db db"
  by (simp add: refreshed_def)

lemma refreshed_trans: "refreshed now a b \<Longrightarrow> refreshed now b c \<Longrightarrow> refreshed now a c"
  by (simp add: refreshed_def)

lemma refreshed_target:
  assumes "refreshed now db db'"
  shows "link_target (edges db') p = link_target (edges db) p"
proof -
  have "map_option (\<lambda>e. (last_node e, e_costAdd e)) (edges db' p)
      = map_option (\<lambda>e. (last_node e, e_costAdd e)) (edges db p)"
    using assms by (simp add: refreshed_def)
  then show ?thesis by (cases "edges db' p"; cases "edges db p") (auto simp: link_target_def)
qed

lemma refreshed_links: "refreshed now db db' \<Longrightarrow> links_of db' u = links_of db u"
  by (simp add: refreshed_def links_of_def)

lemma refreshed_succ: "refreshed now db db' \<Longrightarrow> live_succ now db' = live_succ now db"
  using refreshed_target [of now db db'] refreshed_links [of now db db']
  by (auto simp: fun_eq_iff live_succ_def refreshed_def)

lemma refreshed_link_ok: "refreshed now db db' \<Longrightarrow> link_ok db' p = link_ok db p"
proof -
  assume r: "refreshed now db db'"
  then have "map_option (\<lambda>e. (last_node e, e_costAdd e)) (edges db' p)
      = map_option (\<lambda>e. (last_node e, e_costAdd e)) (edges db p)" "linkArray db' = linkArray db"
    by (simp_all add: refreshed_def)
  then show ?thesis by (cases "edges db' p"; cases "edges db p") (auto simp: link_ok_def)
qed

lemma refreshed_graph: "refreshed now db db' \<Longrightarrow> graph_ok db' = graph_ok db"
  using refreshed_link_ok [of now db db'] refreshed_links [of now db db']
  by (simp add: graph_ok_def refreshed_def)

lemma refreshed_tree:
  assumes "refreshed now db db'" and "routeMap db' = routeMap db"
  shows "tree_ok db' = tree_ok db"
proof -
  have "tree_node db' v st = tree_node db v st" for v st
    using assms refreshed_target [OF assms(1)] refreshed_links [OF assms(1)]
    by (simp add: tree_node_def refreshed_def)
  then show ?thesis
    using assms refreshed_graph [OF assms(1)] by (simp add: tree_ok_def refreshed_def)
qed

text \<open>What queries may do to the links: take expired ones out of the lists, and refresh live ones.\<close>

definition evolved :: "link_db \<Rightarrow> link_db \<Rightarrow> bool" where
  "evolved db db' \<longleftrightarrow> next_edge db' = next_edge db \<and> rootNode db' = rootNode db
     \<and> set (map fst (linkArray db')) = set (map fst (linkArray db))
     \<and> (\<forall>p. edges db' p = None \<longleftrightarrow> edges db p = None)
     \<and> (\<forall>u. set (links_of db' u) \<subseteq> set (links_of db u)
          \<and> (distinct (links_of db u) \<longrightarrow> distinct (links_of db' u)))"

lemma evolved_purged: "purged now db db' \<Longrightarrow> evolved db db'"
proof -
  assume p: "purged now db db'"
  have "set (links_of db' u) \<subseteq> set (links_of db u)
      \<and> (distinct (links_of db u) \<longrightarrow> distinct (links_of db' u))" for u
  proof -
    have "links_of db' u = links_of db u \<or> links_of db' u = filter (live_edge now (edges db)) (links_of db u)"
      using p by (simp add: purged_def)
    then show ?thesis by auto
  qed
  then show ?thesis using p by (simp add: evolved_def purged_def)
qed

lemma evolved_refreshed: "refreshed now db db' \<Longrightarrow> evolved db db'"
proof -
  assume r: "refreshed now db db'"
  have "edges db' p = None \<longleftrightarrow> edges db p = None" for p
    using refreshed_target [OF r, of p] by (cases "edges db' p"; cases "edges db p") (simp_all add: link_target_def)
  then show ?thesis using r refreshed_links [OF r] by (simp add: evolved_def refreshed_def)
qed

lemma evolved_trans: "evolved a b \<Longrightarrow> evolved b c \<Longrightarrow> evolved a c"
  unfolding evolved_def by (simp, meson subset_trans)

text \<open>
  The walk ends: at the root, with the nodes of a path of live links as long as the node is deep, or
  at a link that has expired, and then the tree is dropped.
\<close>

definition walked :: "simtime \<Rightarrow> link_db \<Rightarrow> addr \<Rightarrow> nat \<Rightarrow> addr list \<Rightarrow> addr list option \<times> link_db \<Rightarrow> bool" where
  "walked now db v n acc r \<longleftrightarrow> refreshed now db (snd r) \<and>
     (case fst r of
        None \<Rightarrow> routeMap (snd r) = []
          \<and> (\<exists>u st p. smap_find (routeMap db) u = Some st \<and> p \<in> set (links_of db u)
               \<and> \<not> live_edge now (edges db) p)
      | Some path \<Rightarrow> routeMap (snd r) = routeMap db
          \<and> (\<exists>q. path = acc @ q \<and> length q = n \<and> (n > 0 \<longrightarrow> hd q = v)
               \<and> path_in (live_succ now db) (rootNode db) (rev q)))"

lemma route_walk_ok:
  assumes "tree_ok db" and "smap_find (routeMap db) v = Some st" and "d_costAdd st = real n"
  shows "\<exists>r. route_walk now tmo v st acc db = Some (Inr r) \<and> walked now db v n acc r"
  using assms
proof (induction n arbitrary: v st acc db)
  case 0
  then have "v = rootNode db" using tree_cost by fastforce
  then have "route_walk now tmo v st acc db = Some (Inr (Some acc, db))"
    by (subst route_walk.simps) simp
  then show ?case by (simp add: walked_def)
next
  case (Suc n)
  have ne: "routeMap db \<noteq> []" using Suc.prems(2) by auto
  have v: "v \<noteq> rootNode db" using tree_cost [OF Suc.prems(1,2)] Suc.prems(3) by auto
  have "tree_node db v st" using Suc.prems(1,2) ne by (simp add: tree_ok_def)
  then obtain p stu m where p: "d_edge st = Some p" "p \<in> set (links_of db (idPrev st))"
    "link_target (edges db) p = Some v" "smap_find (routeMap db) (idPrev st) = Some stu"
    "d_costAdd stu = real m" "d_costAdd st = real (Suc m)"
    using v unfolding tree_node_def by blast
  have m: "m = n" using p(6) Suc.prems(3) by simp
  obtain e where e: "edges db p = Some e" "last_node e = v"
    using p(3) by (auto simp: link_target_def)
  show ?case
  proof (cases "e_expires e \<le> now")
    case True
    then have "route_walk now tmo v st acc db = Some (Inr (None, db\<lparr>routeMap := []\<rparr>))"
      using v p(1) e(1) by (subst route_walk.simps) simp
    moreover have "refreshed now db (db\<lparr>routeMap := []\<rparr>)" by (simp add: refreshed_def)
    moreover have "\<not> live_edge now (edges db) p" using True e by (simp add: live_edge_def)
    ultimately show ?thesis using p(2,4) by (auto simp: walked_def)
  next
    case False
    let ?db1 = "if tmo > 0 then db\<lparr>edges := (edges db)(p \<mapsto> e\<lparr>e_expires := now + usecs tmo\<rparr>)\<rparr> else db"
    have live: "live_edge now (edges db) p" using False e by (simp add: live_edge_def)
    have ref: "refreshed now db ?db1"
      using e live usecs_pos [of tmo] by (auto simp: refreshed_def live_edge_def word_gt_0)
    have rm: "routeMap ?db1 = routeMap db" and root1: "rootNode ?db1 = rootNode db" by simp_all
    have walk: "route_walk now tmo v st acc db = route_walk now tmo (idPrev st) stu (acc @ [v]) ?db1"
      using v p(1,4) e(1) False by (subst route_walk.simps) (simp add: Let_def)
    have "tree_ok ?db1" using refreshed_tree [OF ref rm] Suc.prems(1) by simp
    from Suc.IH [OF this, of "idPrev st" stu "acc @ [v]"] p(4,5) m rm
    obtain r where r: "route_walk now tmo (idPrev st) stu (acc @ [v]) ?db1 = Some (Inr r)"
      "walked now ?db1 (idPrev st) n (acc @ [v]) r" by auto
    have ref': "refreshed now db (snd r)"
      by (rule refreshed_trans [OF ref]) (use r(2) in \<open>simp only: walked_def\<close>)
    have same: "links_of ?db1 u = links_of db u" "live_edge now (edges ?db1) x = live_edge now (edges db) x"
      for u x
      using refreshed_links [OF ref] ref by (simp_all only: refreshed_def)
    have "walked now db v (Suc n) acc r"
    proof (cases "fst r")
      case None
      then show ?thesis using r(2) ref' unfolding walked_def same rm by simp
    next
      case (Some path)
      then obtain q where q: "path = acc @ v # q" "length q = n" "n > 0 \<longrightarrow> hd q = idPrev st"
        "path_in (live_succ now db) (rootNode db) (rev q)"
        using r(2) refreshed_succ [OF ref] root1 by (auto simp: walked_def)
      have vs: "v \<in> live_succ now db (idPrev st)" using p(2,3) live by (auto simp: live_succ_def)
      have "path_in (live_succ now db) (rootNode db) (rev q @ [v])"
      proof (cases n)
        case 0
        then have "idPrev st = rootNode db" using tree_cost [OF Suc.prems(1) p(4)] p(5) m by auto
        then show ?thesis using 0 q(2) vs by simp
      next
        case (Suc k)
        then obtain qs where "q = idPrev st # qs" using q(2,3) by (cases q) auto
        then show ?thesis using q(4) vs by (simp add: path_in_append)
      qed
      then show ?thesis
        using Some q(1,2) r(2) ref' rm by (auto simp: walked_def intro!: exI [of _ "v # q"])
    qed
    then show ?thesis using walk r(1) by auto
  qed
qed

text \<open>The answer a query should give: a shortest path of live links, or none when there is none.\<close>

definition shortest_route :: "(addr \<Rightarrow> addr set) \<Rightarrow> addr \<Rightarrow> addr \<Rightarrow> path_route option \<Rightarrow> bool" where
  "shortest_route G s d res \<longleftrightarrow> (case res of
     None \<Rightarrow> \<forall>xs. \<not> path_in G s (xs @ [d])
   | Some r \<Rightarrow> path_in G s (r @ [d]) \<and> (\<forall>xs. path_in G s (xs @ [d]) \<longrightarrow> length r \<le> length xs))"

text \<open>A tree that answers queries: it is built, or there is nothing to build it from.\<close>

definition ready :: "link_db \<Rightarrow> bool" where
  "ready db \<longleftrightarrow> tree_ok db \<and> (routeMap db = [] \<longrightarrow> smap_find (linkArray db) (rootNode db) = None)"

lemma live_path_in_tree:
  assumes "ready db" and "path_in (live_succ now db) (rootNode db) (xs @ [d])"
  shows "\<exists>st. smap_find (routeMap db) d = Some st \<and> d_costAdd st \<le> real (Suc (length xs))"
proof -
  have "routeMap db \<noteq> []"
  proof
    assume "routeMap db = []"
    then have "live_succ now db (rootNode db) = {}"
      using assms(1) by (simp add: ready_def live_succ_def links_of_def)
    then show False using assms(2) by (cases xs) auto
  qed
  moreover have "hops_to (all_succ db) (rootNode db) (Suc (length xs)) d"
    by (rule hops_to_mono [OF path_in_hops [OF assms(2)] live_succ_sub])
  ultimately show ?thesis using tree_covers assms(1) unfolding ready_def by blast
qed

lemma walk_shortest:
  assumes "ready db" and "smap_find (routeMap db) d = Some st" and "d \<noteq> rootNode db"
    and "d_costAdd st = real n" and "walked now db d n [] (Some path, db')"
  shows "\<exists>r. route_nodes path = Inr r \<and> shortest_route (live_succ now db) (rootNode db) d (Some r)"
proof -
  have n: "n > 0" "length path = n" "hd path = d"
    "path_in (live_succ now db) (rootNode db) (rev path)"
    using assms tree_cost [of db d st] by (auto simp: walked_def ready_def)
  then have path: "rev path = rev (tl path) @ [d]" "path \<noteq> []" by (cases path; simp)+
  have "length (rev (tl path)) \<le> length xs"
    if "path_in (live_succ now db) (rootNode db) (xs @ [d])" for xs
    using live_path_in_tree [OF assms(1) that] assms(2,4) n(2) by auto
  then show ?thesis using n(4) path by (auto simp: route_nodes_def shortest_route_def)
qed

definition tree_live :: "simtime \<Rightarrow> link_db \<Rightarrow> bool" where
  "tree_live now db \<longleftrightarrow> (\<forall>v st p. smap_find (routeMap db) v = Some st \<longrightarrow>
     p \<in> set (links_of db v) \<longrightarrow> live_edge now (edges db) p)"

text \<open>One pass over a tree: an answer, or a tree that was dropped because a link expired.\<close>

lemma getRoute_pass:
  assumes built: "(if routeMap db = [] then run rand now NoAddr db else Some (Inr db)) = Some (Inr db1)"
    and r: "ready db1" and d: "d \<noteq> rootNode db1"
  shows "(\<exists>res db'. getRoute_dsr rand now d tmo db = Some (Inr (res, db')) \<and> refreshed now db1 db'
        \<and> routeMap db' = routeMap db1
        \<and> shortest_route (live_succ now db1) (rootNode db1) d res)
    \<or> (\<exists>db2. getRoute_dsr rand now d tmo db = getRoute_dsr rand now d tmo db2 \<and> refreshed now db1 db2
        \<and> routeMap db2 = [] \<and> \<not> tree_live now db1)"
proof (cases "smap_find (routeMap db1) d")
  case None
  then have "getRoute_dsr rand now d tmo db = Some (Inr (None, db1))"
    using built by (subst getRoute_dsr.simps) simp
  moreover have "shortest_route (live_succ now db1) (rootNode db1) d None"
    using live_path_in_tree [OF r] None by (fastforce simp: shortest_route_def)
  ultimately show ?thesis by auto
next
  case (Some st)
  have t: "tree_ok db1" using r by (simp add: ready_def)
  obtain n where n: "d_costAdd st = real n" using tree_cost [OF t Some] by auto
  obtain w where w: "route_walk now tmo d st [] db1 = Some (Inr w)" "walked now db1 d n [] w"
    using route_walk_ok [OF t Some n] by blast
  show ?thesis
  proof (cases "fst w")
    case None
    then have "getRoute_dsr rand now d tmo db = getRoute_dsr rand now d tmo (snd w)"
      using built Some w(1) by (subst getRoute_dsr.simps) simp
    then show ?thesis using w(2) None by (auto simp: walked_def tree_live_def)
  next
    case path: (Some path)
    then have "walked now db1 d n [] (Some path, snd w)" using w(2) by (cases w) simp
    from walk_shortest [OF r Some d n this] obtain nodes where nodes: "route_nodes path = Inr nodes"
      "shortest_route (live_succ now db1) (rootNode db1) d (Some nodes)" by blast
    then have "getRoute_dsr rand now d tmo db = Some (Inr (Some nodes, snd w))"
      using built Some w(1) path by (subst getRoute_dsr.simps) simp
    then show ?thesis using nodes(2) w(2) path by (auto simp: walked_def)
  qed
qed

text \<open>
  A query ends without a fault, also when the tree is dropped on the way and built again.
\<close>

lemma getRoute_ok:
  assumes t: "tree_ok db" and big: "length (linkArray db) < 2 ^ 53" and d: "d \<noteq> rootNode db"
  shows "\<exists>res db'. getRoute_dsr rand now d tmo db = Some (Inr (res, db')) \<and> tree_ok db'
    \<and> evolved db db' \<and> shortest_route (live_succ now db) (rootNode db) d res"
proof -
  have fresh: "\<exists>res db'. getRoute_dsr rand now d tmo x = Some (Inr (res, db')) \<and> tree_ok db'
      \<and> evolved x db' \<and> shortest_route (live_succ now x) (rootNode x) d res"
    if x: "routeMap x = []" "graph_ok x" "length (linkArray x) < 2 ^ 53" "d \<noteq> rootNode x" for x
  proof -
    from run_ok [OF x(2,3), of rand now] obtain x1 where x1: "run rand now NoAddr x = Some (Inr x1)"
      "ready x1" "purged now x x1" "tree_live now x1"
      unfolding ready_def tree_live_def by blast
    have same: "rootNode x1 = rootNode x" "live_succ now x1 = live_succ now x"
      using x1(3) purged_live_succ [OF x1(3)] by (simp_all add: purged_def)
    from getRoute_pass [of x rand now x1 d tmo] x1(1,2,4) x(1,4) same obtain res db' where
      "getRoute_dsr rand now d tmo x = Some (Inr (res, db'))" "refreshed now x1 db'"
      "routeMap db' = routeMap x1" "shortest_route (live_succ now x) (rootNode x) d res"
      by auto
    moreover have "tree_ok db'"
      using refreshed_tree [OF calculation(2,3)] x1(2) by (simp add: ready_def)
    moreover have "evolved x db'"
      using evolved_trans [OF evolved_purged [OF x1(3)] evolved_refreshed [OF calculation(2)]] .
    ultimately show ?thesis by blast
  qed
  have g: "graph_ok db" using t by (simp add: tree_ok_def)
  show ?thesis
  proof (cases "routeMap db = []")
    case True
    then show ?thesis using fresh [OF True g big d] by blast
  next
    case False
    then have "ready db" using t by (simp add: ready_def)
    from getRoute_pass [of db rand now db d tmo, OF _ this d] False consider
        (answer) res db' where "getRoute_dsr rand now d tmo db = Some (Inr (res, db'))" "refreshed now db db'"
          "routeMap db' = routeMap db" "shortest_route (live_succ now db) (rootNode db) d res"
      | (again) db2 where "getRoute_dsr rand now d tmo db = getRoute_dsr rand now d tmo db2"
          "refreshed now db db2" "routeMap db2 = []"
      by auto
    then show ?thesis
    proof cases
      case answer
      then show ?thesis using refreshed_tree [OF answer(2,3)] t evolved_refreshed [OF answer(2)] by auto
    next
      case again
      have "graph_ok db2" "length (linkArray db2) < 2 ^ 53" "rootNode db2 = rootNode db"
        using refreshed_graph [OF again(2)] g again(2) big by (simp_all add: refreshed_def)
      with fresh [OF again(3)] d again(1) refreshed_succ [OF again(2)]
      obtain res db' where "getRoute_dsr rand now d tmo db = Some (Inr (res, db'))" "tree_ok db'"
        "evolved db2 db'" "shortest_route (live_succ now db) (rootNode db) d res" by auto
      then show ?thesis using evolved_trans [OF evolved_refreshed [OF again(2)]] by blast
    qed
  qed
qed

end
