(* ===== verification/Dsr_Links_Inv.thy ===== *)
theory Dsr_Links_Inv
  imports Dsr_Links_Spec
begin

text \<open>
  The invariant of the link cache, under every operation its callers use: adding a link in both
  directions, removing one, changing the root and asking for a route.  The exception is
  \<open>cleanLinkArray\<close>, which frees the links \<open>routeMap\<close> still points to.
\<close>

text \<open>The store: no link is used before it is allocated, none is in two lists or twice in one.\<close>

definition store_ok :: "link_db \<Rightarrow> bool" where
  "store_ok db \<longleftrightarrow> (\<forall>p. edges db p \<noteq> None \<longrightarrow> p < next_edge db)
     \<and> (\<forall>u. distinct (links_of db u))
     \<and> (\<forall>u v p. p \<in> set (links_of db u) \<longrightarrow> p \<in> set (links_of db v) \<longrightarrow> u = v)"

definition keys :: "link_db \<Rightarrow> addr set" where
  "keys db = set (map fst (linkArray db))"

text \<open>The nodes of the callers are IPv4 addresses.\<close>

definition links_inv :: "link_db \<Rightarrow> bool" where
  "links_inv db \<longleftrightarrow> tree_ok db \<and> store_ok db \<and> keys db \<subseteq> range IPv4"

lemma keys_find: "u \<in> keys db \<longleftrightarrow> smap_find (linkArray db) u \<noteq> None"
  by (simp add: keys_def map_of_eq_None_iff)

lemma links_of_keys: "p \<in> set (links_of db u) \<Longrightarrow> u \<in> keys db"
  by (cases "smap_find (linkArray db) u") (simp_all add: links_of_def keys_find)

lemma links_inv_init: "links_inv link_db_init"
  by (simp add: links_inv_def tree_ok_def graph_ok_def store_ok_def link_db_init_def links_of_def
    keys_def)

lemma links_inv_length:
  assumes "links_inv db"
  shows "length (linkArray db) < 2 ^ 53"
proof -
  have "smap_ok (linkArray db)" using assms by (simp add: links_inv_def tree_ok_def graph_ok_def)
  then have "length (linkArray db) = card (keys db)" by (simp add: smap_keys_length keys_def)
  also have "\<dots> \<le> card (range IPv4)"
    using assms by (intro card_mono) (auto simp: links_inv_def)
  also have "\<dots> \<le> card (UNIV :: 32 word set)" by (rule card_image_le) simp
  also have "\<dots> = 2 ^ 32" by (simp add: card_word)
  finally show ?thesis by simp
qed

lemma store_ok_evolved: "store_ok db \<Longrightarrow> evolved db db' \<Longrightarrow> store_ok db'"
  unfolding store_ok_def evolved_def by (metis subsetD)

lemma links_inv_getRoute:
  assumes "links_inv db" and "d \<noteq> rootNode db"
  shows "\<exists>res db'. getRoute_dsr rand now d tmo db = Some (Inr (res, db')) \<and> links_inv db'
    \<and> rootNode db' = rootNode db \<and> shortest_route (live_succ now db) (rootNode db) d res"
proof -
  have "tree_ok db" using assms(1) by (simp add: links_inv_def)
  from getRoute_ok [OF this links_inv_length [OF assms(1)] assms(2), of rand now tmo]
  obtain res db' where r: "getRoute_dsr rand now d tmo db = Some (Inr (res, db'))" "tree_ok db'"
    "evolved db db'" "shortest_route (live_succ now db) (rootNode db) d res" by blast
  have "links_inv db'"
    using assms(1) r(2,3) store_ok_evolved [of db db'] by (auto simp: links_inv_def keys_def evolved_def)
  then show ?thesis using r by (auto simp: evolved_def)
qed

lemma links_inv_setRoot [intro]:
  assumes i: "links_inv db"
  shows "links_inv (setRoot d db)"
proof (cases "rootNode db = d")
  case True
  then show ?thesis using i by (simp add: setRoot_def)
next
  case False
  have "graph_ok (db\<lparr>rootNode := d\<rparr>)"
    using i by (simp add: links_inv_def tree_ok_def graph_ok_def link_ok_def links_of_def
      cong: option.case_cong)
  then show ?thesis
    using False i by (simp add: setRoot_def links_inv_def tree_ok_def store_ok_def links_of_def keys_def)
qed

subsection \<open>Adding links\<close>

text \<open>A graph whose links lead to the nodes \<open>K\<close>, which need not have lists yet.\<close>

definition graph_upto :: "addr set \<Rightarrow> link_db \<Rightarrow> bool" where
  "graph_upto K db \<longleftrightarrow> smap_ok (linkArray db) \<and> keys db \<subseteq> range IPv4
     \<and> (\<forall>u. \<forall>p\<in>set (links_of db u). \<exists>e. edges db p = Some e \<and> e_costAdd e = 1 \<and> last_node e \<in> K)"

lemma graph_upto_mono: "graph_upto K db \<Longrightarrow> K \<subseteq> L \<Longrightarrow> graph_upto L db"
  unfolding graph_upto_def by blast

lemma graph_upto_keys:
  assumes "graph_upto (keys db) db"
  shows "graph_ok db"
proof -
  have "link_ok db p" if "p \<in> set (links_of db u)" for u p
    using assms that by (fastforce simp: graph_upto_def link_ok_def keys_find)
  moreover have "NoAddr \<notin> keys db" using assms by (auto simp: graph_upto_def)
  ultimately show ?thesis using assms by (simp add: graph_ok_def graph_upto_def keys_find)
qed

lemma graph_ok_upto: "graph_ok db \<Longrightarrow> keys db \<subseteq> range IPv4 \<Longrightarrow> graph_upto (keys db) db"
  unfolding graph_ok_def graph_upto_def link_ok_def keys_find by (fastforce split: option.splits)

lemma find_edge_ok:
  assumes "\<forall>p\<in>set ps. E p \<noteq> None"
  shows "\<exists>r. find_edge E v ps = Inr r
    \<and> (\<forall>p. r = Some p \<longrightarrow> p \<in> set ps \<and> (\<exists>e. E p = Some e \<and> last_node e = v))"
  using assms by (induction ps) auto

lemma addEdge_ok:
  assumes g: "graph_upto K db" and st: "store_ok db" and u: "u \<in> range IPv4"
  shows "\<exists>db'. addEdge now u v 1 tmo db = Inr db' \<and> graph_upto (insert v K) db' \<and> store_ok db'
    \<and> keys db' = insert u (keys db) \<and> routeMap db' = [] \<and> rootNode db' = rootNode db"
proof -
  let ?db1 = "db\<lparr>routeMap := []\<rparr>"
  have "\<forall>p\<in>set (links_of ?db1 u). edges ?db1 p \<noteq> None"
    using g by (fastforce simp: graph_upto_def links_of_def)
  from find_edge_ok [OF this, of v] obtain r where r: "find_edge (edges ?db1) v (links_of ?db1 u) = Inr r"
    "\<forall>p. r = Some p \<longrightarrow> p \<in> set (links_of ?db1 u) \<and> (\<exists>e. edges ?db1 p = Some e \<and> last_node e = v)"
    by blast
  have l1: "links_of ?db1 w = links_of db w" for w by (simp add: links_of_def)
  show ?thesis
  proof (cases r)
    case (Some p)
    then obtain e where e: "edges db p = Some e" "last_node e = v" and p: "p \<in> set (links_of db u)"
      using r(2) l1 by auto
    let ?E = "(edges db)(p \<mapsto> e\<lparr>e_costAdd := 1, e_expires := now + usecs tmo\<rparr>)"
    let ?db' = "db\<lparr>routeMap := [], edges := ?E\<rparr>"
    have add: "addEdge now u v 1 tmo db = Inr ?db'"
      using r(1) Some e by (simp add: addEdge_def Let_def)
    have l: "links_of ?db' w = links_of db w" for w by (simp add: links_of_def)
    have "graph_upto (insert v K) ?db'"
      using g e(2) unfolding graph_upto_def l by (fastforce simp: keys_def)
    moreover have "store_ok ?db'" using st e(1) unfolding store_ok_def l by auto
    moreover have "u \<in> keys db" using p by (rule links_of_keys)
    then have "keys ?db' = insert u (keys db)" by (auto simp: keys_def)
    ultimately show ?thesis using add by (intro exI [of _ ?db']) simp
  next
    case None
    let ?p = "next_edge db" and ?e = "\<lparr>last_node = v, e_costAdd = 1, e_expires = now + usecs tmo\<rparr>"
    let ?db' = "db\<lparr>routeMap := [], edges := (edges db)(?p \<mapsto> ?e), next_edge := ?p + 1,
      linkArray := smap_put u (links_of db u @ [?p]) (linkArray db)\<rparr>"
    have add: "addEdge now u v 1 tmo db = Inr ?db'"
      using r(1) None by (simp add: addEdge_def Let_def l1)
    have sm: "smap_ok (linkArray db)" using g by (simp add: graph_upto_def)
    have l: "links_of ?db' w = (if w = u then links_of db u @ [?p] else links_of db w)" for w
      using sm by (simp add: links_of_def)
    have fresh: "?p \<notin> set (links_of db w)" for w
      using g st unfolding graph_upto_def store_ok_def by fastforce
    have ks: "keys ?db' = insert u (keys db)" by (simp add: keys_def keys_put del: set_map)
    have "\<exists>e. edges ?db' p = Some e \<and> e_costAdd e = 1 \<and> last_node e \<in> insert v K"
      if "p \<in> set (links_of ?db' w)" for w p
      using that g unfolding l graph_upto_def by (cases "p = ?p") (fastforce split: if_splits)+
    then have "graph_upto (insert v K) ?db'"
      using g u sm ks by (auto simp: graph_upto_def)
    moreover have "store_ok ?db'"
      using st fresh unfolding store_ok_def l by (auto simp: less_Suc_eq)
    ultimately show ?thesis using add ks by (intro exI [of _ ?db']) simp
  qed
qed

text \<open>A link is added in both directions.\<close>

definition add_both :: "simtime \<Rightarrow> addr \<Rightarrow> addr \<Rightarrow> 32 word \<Rightarrow> link_db \<Rightarrow> fault + link_db" where
  "add_both now u v tmo db = bindE (addEdge now u v 1 tmo db) (addEdge now v u 1 tmo)"

lemma links_inv_add_both:
  assumes i: "links_inv db" and "u \<in> range IPv4" and "v \<in> range IPv4"
  shows "\<exists>db'. add_both now u v tmo db = Inr db' \<and> links_inv db' \<and> rootNode db' = rootNode db"
proof -
  have g: "graph_upto (keys db) db" and st: "store_ok db"
    using i graph_ok_upto by (simp_all add: links_inv_def tree_ok_def)
  from addEdge_ok [OF g st assms(2), of now v tmo] obtain db1 where
    1: "addEdge now u v 1 tmo db = Inr db1" "graph_upto (insert v (keys db)) db1" "store_ok db1"
      "keys db1 = insert u (keys db)" "rootNode db1 = rootNode db" by blast
  from addEdge_ok [OF 1(2,3) assms(3), of now u tmo] obtain db2 where
    2: "addEdge now v u 1 tmo db1 = Inr db2" "graph_upto (insert u (insert v (keys db))) db2" "store_ok db2"
      "keys db2 = insert v (keys db1)" "routeMap db2 = []" "rootNode db2 = rootNode db1" by blast
  have "keys db2 = insert u (insert v (keys db))" using 1(4) 2(4) by auto
  then have "graph_ok db2" "keys db2 \<subseteq> range IPv4"
    using 2(2) graph_upto_keys by (simp_all add: graph_upto_def)
  then have "links_inv db2" using 2(3,5) by (simp add: links_inv_def tree_ok_def)
  then show ?thesis using 1(1,5) 2(1,6) by (simp add: add_both_def)
qed

subsection \<open>Removing links\<close>

lemma deleteEdge_keeps:
  assumes g: "graph_ok db" and st: "store_ok db" and p: "p \<in> set (links_of db u)"
  defines "db' \<equiv> db\<lparr>routeMap := [], linkArray := smap_put u (remove1 p (links_of db u)) (linkArray db)\<rparr>"
  shows "graph_ok db' \<and> store_ok db' \<and> keys db' = keys db"
proof -
  have sm: "smap_ok (linkArray db)" using g by (simp add: graph_ok_def)
  have l: "links_of db' w = (if w = u then remove1 p (links_of db u) else links_of db w)" for w
    using sm by (simp add: links_of_def db'_def)
  then have sub: "set (links_of db' w) \<subseteq> set (links_of db w)" for w
    by (simp add: l set_remove1_subset)
  have ks: "keys db' = keys db"
    using links_of_keys [OF p] by (auto simp: keys_def db'_def keys_put simp del: set_map)
  have "link_ok db' q" if "q \<in> set (links_of db' w)" for w q
  proof -
    have "link_ok db q" using g that sub by (auto simp: graph_ok_def)
    then show ?thesis using sm by (auto simp: link_ok_def db'_def split: option.splits)
  qed
  moreover have "NoAddr \<notin> keys db'" using g ks by (simp add: graph_ok_def keys_find)
  ultimately have "graph_ok db'" using sm by (simp add: graph_ok_def keys_find) (simp add: db'_def)
  moreover have "store_ok db'"
    using st sub l unfolding store_ok_def by (auto simp: db'_def)
  ultimately show ?thesis using ks by simp
qed

lemma links_inv_deleteEdge:
  assumes i: "links_inv db"
  shows "\<exists>db'. deleteEdge u v b db = Inr db' \<and> links_inv db' \<and> rootNode db' = rootNode db"
proof (cases "linkArray db = []")
  case True
  then show ?thesis using i by (simp add: deleteEdge_def)
next
  case False
  let ?db1 = "db\<lparr>routeMap := []\<rparr>"
  let ?rem = "\<lambda>u p. db\<lparr>routeMap := [], linkArray := smap_put u (remove1 p (links_of db u)) (linkArray db)\<rparr>"
  have g: "graph_ok db" and st: "store_ok db" and ip: "keys db \<subseteq> range IPv4"
    using i by (simp_all add: links_inv_def tree_ok_def)
  have l1: "links_of ?db1 w = links_of db w" for w by (simp add: links_of_def)
  have alloc: "\<forall>p\<in>set (links_of db w). edges db p \<noteq> None" for w
    using g by (auto simp: graph_ok_def link_ok_def split: option.splits)
  have rem: "links_inv (?rem w p)" if "p \<in> set (links_of db w)" for w p
    using deleteEdge_keeps [OF g st that] ip by (simp add: links_inv_def tree_ok_def)
  have none: "links_inv ?db1"
    using g st ip by (simp add: links_inv_def tree_ok_def store_ok_def l1 keys_def)
  obtain r where r: "find_edge (edges db) v (links_of db u) = Inr r"
    "\<forall>p. r = Some p \<longrightarrow> p \<in> set (links_of db u)" using find_edge_ok [OF alloc] by blast
  obtain r' where r': "find_edge (edges db) u (links_of db v) = Inr r'"
    "\<forall>p. r' = Some p \<longrightarrow> p \<in> set (links_of db v)" using find_edge_ok [OF alloc] by blast
  show ?thesis
    using False r r' none rem
    by (cases r; cases r'; cases b) (auto simp: deleteEdge_def Let_def l1)
qed

subsection \<open>Freed links\<close>

lemma free_list:
  "distinct ps \<Longrightarrow> \<forall>p\<in>set ps. E p \<noteq> None \<Longrightarrow>
   foldE free_edge ps E = Inr (\<lambda>p. if p \<in> set ps then None else E p)"
proof (induction ps arbitrary: E)
  case (Cons p ps)
  have "foldE free_edge ps (E(p := None)) = Inr (\<lambda>q. if q \<in> set ps then None else (E(p := None)) q)"
    by (rule Cons.IH) (use Cons.prems in auto)
  moreover have "free_edge E p = Inr (E(p := None))" using Cons.prems(2) by (simp add: free_edge_def)
  ultimately show ?case by (simp add: fun_eq_iff)
qed simp

lemma free_lists:
  assumes "distinct (map fst m)"
    and "\<forall>k ps. (k, ps) \<in> set m \<longrightarrow> distinct ps \<and> (\<forall>p\<in>set ps. E p \<noteq> None)"
    and "\<forall>k ps k' ps' p. (k, ps) \<in> set m \<longrightarrow> (k', ps') \<in> set m \<longrightarrow> p \<in> set ps \<longrightarrow> p \<in> set ps' \<longrightarrow> k = k'"
  shows "foldE (\<lambda>E (_, ps). foldE free_edge (rev ps) E) m E
    = Inr (\<lambda>p. if \<exists>(k, ps)\<in>set m. p \<in> set ps then None else E p)"
  using assms
proof (induction m arbitrary: E)
  case (Cons kp m)
  obtain k ps where kp: "kp = (k, ps)" by (cases kp)
  let ?E = "\<lambda>p. if p \<in> set ps then None else E p"
  have first: "foldE free_edge (rev ps) E = Inr ?E"
    using Cons.prems(2) free_list [of "rev ps" E] by (simp add: kp)
  have k: "k \<noteq> k'" if "(k', ps') \<in> set m" for k' ps'
    using Cons.prems(1) that by (force simp: kp)
  have disj: "p \<notin> set ps" if "(k', ps') \<in> set m" "p \<in> set ps'" for k' ps' p
    using Cons.prems(3) that k [OF that(1)] by (auto simp: kp)
  have "foldE (\<lambda>E (_, ps). foldE free_edge (rev ps) E) m ?E
      = Inr (\<lambda>p. if \<exists>(k, ps)\<in>set m. p \<in> set ps then None else ?E p)"
    by (rule Cons.IH) (use Cons.prems disj in \<open>auto simp: kp\<close>)
  then show ?case using first by (simp add: kp fun_eq_iff)
qed simp

lemma cleanLinkArray_frees:
  assumes "links_inv db"
  shows "\<exists>E. cleanLinkArray db = Inr (db\<lparr>edges := E, linkArray := []\<rparr>)
    \<and> (\<forall>u. \<forall>p\<in>set (links_of db u). E p = None)"
proof -
  have g: "graph_ok db" and st: "store_ok db" using assms by (simp_all add: links_inv_def tree_ok_def)
  have sm: "smap_ok (linkArray db)" using g by (simp add: graph_ok_def)
  have l: "links_of db k = ps" if "(k, ps) \<in> set (linkArray db)" for k ps
    using that sm by (simp add: links_of_def smap_ok_distinct)
  have alloc: "edges db p \<noteq> None" if "p \<in> set (links_of db u)" for u p
    using g that by (auto simp: graph_ok_def link_ok_def split: option.splits)
  define E where "E = (\<lambda>p. if \<exists>(k, ps)\<in>set (linkArray db). p \<in> set ps then None else edges db p)"
  have "foldE (\<lambda>E (_, ps). foldE free_edge (rev ps) E) (linkArray db) (edges db) = Inr E"
    unfolding E_def
  proof (rule free_lists [OF smap_ok_distinct [OF sm]])
    show "\<forall>k ps. (k, ps) \<in> set (linkArray db) \<longrightarrow> distinct ps \<and> (\<forall>p\<in>set ps. edges db p \<noteq> None)"
    proof (intro allI impI)
      fix k ps
      assume "(k, ps) \<in> set (linkArray db)"
      from l [OF this] alloc [of _ k] st show "distinct ps \<and> (\<forall>p\<in>set ps. edges db p \<noteq> None)"
        unfolding store_ok_def by metis
    qed
    show "\<forall>k ps k' ps' p. (k, ps) \<in> set (linkArray db) \<longrightarrow> (k', ps') \<in> set (linkArray db) \<longrightarrow>
        p \<in> set ps \<longrightarrow> p \<in> set ps' \<longrightarrow> k = k'"
      using l st unfolding store_ok_def by metis
  qed
  then have "cleanLinkArray db = Inr (db\<lparr>edges := E, linkArray := []\<rparr>)"
    by (simp add: cleanLinkArray_def)
  moreover have "E p = None" if "p \<in> set (links_of db u)" for u p
  proof (cases "smap_find (linkArray db) u")
    case (Some ps)
    then have "(u, ps) \<in> set (linkArray db)" by (rule map_of_SomeD)
    then show ?thesis using that Some by (auto simp: E_def links_of_def)
  qed (use that in \<open>simp add: links_of_def\<close>)
  ultimately show ?thesis by blast
qed

lemma getRoute_dangling:
  assumes t: "tree_ok db" and d: "smap_find (routeMap db) d = Some st" "d \<noteq> rootNode db"
    and freed: "\<forall>u. \<forall>p\<in>set (links_of db u). E p = None"
  shows "getRoute_dsr rand now d tmo (db\<lparr>edges := E, linkArray := []\<rparr>) = Some (Inl BadAccess)"
proof -
  let ?db = "db\<lparr>edges := E, linkArray := []\<rparr>"
  have ne: "routeMap db \<noteq> []" using d(1) by auto
  then have "tree_node db d st" using t d(1) by (simp add: tree_ok_def)
  then obtain p where p: "d_edge st = Some p" "p \<in> set (links_of db (idPrev st))"
    using d(2) unfolding tree_node_def by blast
  then have "E p = None" using freed by blast
  then have "route_walk now tmo d st [] ?db = Some (Inl BadAccess)"
    using p(1) d(2) by (subst route_walk.simps) simp
  then show ?thesis using d(1) ne by (subst getRoute_dsr.simps) simp
qed

text \<open>A query for the node itself runs off the end of an empty vector.\<close>

lemma getRoute_self:
  assumes "tree_ok db" and "routeMap db \<noteq> []"
  shows "getRoute_dsr rand now (rootNode db) tmo db = Some (Inl BadAccess)"
proof -
  obtain st where st: "smap_find (routeMap db) (rootNode db) = Some st"
    using assms by (auto simp: tree_ok_def)
  have "route_walk now tmo (rootNode db) st [] db = Some (Inr (Some [], db))"
    by (subst route_walk.simps) simp
  then show ?thesis using st assms(2) by (subst getRoute_dsr.simps) (simp add: route_nodes_def)
qed

end
