(* ===== verification/Dsr_Access.thy ===== *)
theory Dsr_Access
  imports Dsr_Links_Inv
begin

text \<open>
  How the DSR agent uses its data base, \<open>dsr_access_database.cc\<close>, with \<open>RouteFind\<close>,
  \<open>RouteAdd\<close>, \<open>linkFailed\<close> and \<open>getCost\<close> of \<open>dsr-uu-omnetpp.cc\<close>: source routes are turned
  into cached paths or links and back.  What it knows of its neighbours' delivery rates is the map
  \<open>etxNeighborTable\<close>.
\<close>

type_synonym in_addr = "32 word"
type_synonym usecs_t = "64 word"

text \<open>\<open>struct dsr_srt\<close>, a source route.\<close>

record dsr_srt =
  srt_src :: in_addr
  srt_dst :: in_addr
  srt_flags :: u16
  srt_index :: u16
  srt_laddrs :: "32 word"
  srt_cost :: "32 word list"
  srt_addrs :: "in_addr list"

definition new_srt :: dsr_srt where
  "new_srt = \<lparr>srt_src = 0, srt_dst = 0, srt_flags = 0, srt_index = 0, srt_laddrs = 0,
     srt_cost = [], srt_addrs = []\<rparr>"

definition SRT_BIDIR :: u16 where
  "SRT_BIDIR = 0x1"

definition DSR_ADDRESS_SIZE :: nat where
  "DSR_ADDRESS_SIZE = 4"

text \<open>The delivery rates of the expected transmission count, per neighbour.\<close>

record etx_entry =
  deliveryDirect :: real
  deliveryReverse :: real

text \<open>What of \<open>DSRUU\<close> takes part, with its parameters.\<close>

record dsruu =
  my_addr :: in_addr
  etxActive :: bool
  refreshIntermediate :: bool
  pathCacheConf :: bool
  etxNeighborTable :: "in_addr \<Rightarrow> etx_entry option"
  nextPurge :: simtime
  paths :: paths_cache
  links :: link_db

text \<open>\<open>toIPv4\<close> throws on an address of another family.\<close>

fun toIPv4 :: "addr \<Rightarrow> fault + in_addr" where
  "toIPv4 NoAddr = Inr 0"
| "toIPv4 (IPv4 a) = Inr a"
| "toIPv4 _ = Inl BadAccess"

definition getCost :: "dsruu \<Rightarrow> in_addr \<Rightarrow> real" where
  "getCost d a = (case etxNeighborTable d a of
     None \<Rightarrow> -1
   | Some e \<Rightarrow> if deliveryReverse e = 0 \<or> deliveryDirect e = 0 then -1
       else fround (1 / fround (deliveryReverse e * deliveryDirect e)))"

text \<open>\<open>(double) timeout/1000000.0\<close> for the wide type of the callers, and their narrowing of it.\<close>

definition wide_usecs :: "usecs_t \<Rightarrow> simtime" where
  "wide_usecs t = of_nat (unat t) / 1000000"

definition narrow :: "usecs_t \<Rightarrow> 32 word" where
  "narrow t = ucast t"

subsection \<open>Finding a route\<close>

text \<open>
  With the expected transmission count the agent weighs the cached paths itself: the first cost of a
  path is replaced by its own for the first hop (\<open>front()\<close> of an empty vector is undefined).
\<close>

definition etx_weigh :: "dsruu \<Rightarrow> real \<times> path_route \<Rightarrow> path_route \<times> real list \<Rightarrow> fault + real \<times> path_route" where
  "etx_weigh d best rc =
     (case (best, rc) of ((totalCost, route), (r, v)) \<Rightarrow>
        bindE (if r \<noteq> [] then toIPv4 (hd r) else Inr (my_addr d)) (\<lambda>first.
          if v = [] then Inl BadAccess
          else
            let costRoute = foldl fadd 0 (v[0 := getCost d first])
            in Inr (if costRoute < totalCost then (costRoute, r) else best)))"

definition etx_find ::
    "simtime \<Rightarrow> in_addr \<Rightarrow> 32 word \<Rightarrow> dsruu \<Rightarrow> fault + path_route option \<times> dsruu" where
  "etx_find now dst timeout d =
     (case getPaths now (IPv4 dst) (paths d) of ((ok, result, resultCost), c) \<Rightarrow>
        let d1 = d\<lparr>paths := c\<rparr>
        in if \<not> ok then Inr (None, d1)
           else bindE (foldE (etx_weigh d1) (zip result resultCost) (fround (10 ^ 100), [])) (\<lambda>best.
             let route = snd best
             in Inr (Some route, if timeout > 0
                  then d1\<lparr>paths := setPathsTimer now (IPv4 dst) route timeout c\<rparr> else d1)))"

text \<open>A route back into a source route.\<close>

definition srt_of_route :: "in_addr \<Rightarrow> in_addr \<Rightarrow> path_route \<Rightarrow> fault + dsr_srt" where
  "srt_of_route src dst route =
     bindE (foldE (\<lambda>as x. bindE (toIPv4 x) (\<lambda>a. Inr (as @ [a]))) route []) (\<lambda>as.
       Inr (new_srt\<lparr>srt_dst := dst, srt_src := src,
         srt_laddrs := of_nat (length route * DSR_ADDRESS_SIZE), srt_addrs := as\<rparr>))"

text \<open>
  The refresh of the paths to the intermediate nodes: for every one of them the path over the
  first node of the route alone.
\<close>

definition refresh_intermediate :: "simtime \<Rightarrow> path_route \<Rightarrow> 32 word \<Rightarrow> paths_cache \<Rightarrow> paths_cache" where
  "refresh_intermediate now route timeout c =
     foldl (\<lambda>c i. setPathsTimer now (route ! i) (take 1 route) timeout c) c [0..<length route - 1]"

definition ph_srt_find_map ::
    "simtime \<Rightarrow> in_addr \<Rightarrow> in_addr \<Rightarrow> 32 word \<Rightarrow> dsruu \<Rightarrow> fault + dsr_srt option \<times> dsruu" where
  "ph_srt_find_map now src dst timeout d =
     bindE (if etxActive d then etx_find now dst timeout d
            else (case getPath now (IPv4 dst) timeout (paths d) of ((found, route, _), c) \<Rightarrow>
                    Inr (if found then Some route else None, d\<lparr>paths := c\<rparr>))) (\<lambda>(res, d1).
       case res of
         None \<Rightarrow> Inr (None, d1)
       | Some route \<Rightarrow>
           let d2 = (if refreshIntermediate d1
                 then d1\<lparr>paths := refresh_intermediate now route timeout (paths d1)\<rparr> else d1)
           in bindE (srt_of_route src dst route) (\<lambda>srt.
                Inr (Some srt,
                  if \<not> isPathCacheEmpty (paths d2) \<and> nextPurge d2 \<le> now
                  then d2\<lparr>paths := purgePathCache now (paths d2), nextPurge := now + usecs timeout\<rparr>
                  else d2)))"

subsection \<open>Recording a source route\<close>

text \<open>Every node of a route, with the nodes before it, then the destination with the whole route.\<close>

definition set_prefixes ::
    "simtime \<Rightarrow> bool \<Rightarrow> path_route \<Rightarrow> path_route \<Rightarrow> real list \<Rightarrow> 32 word \<Rightarrow> paths_cache
      \<Rightarrow> fault + paths_cache" where
  "set_prefixes now etx dests route costVect timeout c =
     foldE (\<lambda>c i.
        if length dests \<le> i then Inl BadAccess
        else
          let subRoute = take i route;
              subCost = (if etx \<and> i + 1 < length costVect then take (i + 1) costVect else [])
          in Inr (setPath now (dests ! i) subRoute subCost (of_nat (length subRoute + 1)) 0 timeout c))
       [0..<length route] c"

text \<open>
  The code under \<open>oportunity\<close> only looks up the paths to the nodes of the route, which erases
  expired ones, and fills stacks nobody reads; with the expected transmission count it reads the cost
  vector at the position after each neighbour found.
\<close>

definition oportunity_scan ::
    "simtime \<Rightarrow> dsr_srt \<Rightarrow> bool \<Rightarrow> paths_cache \<Rightarrow> fault + paths_cache" where
  "oportunity_scan now srt etx c =
     (let (neigh, c1) = foldl (\<lambda>(neigh, c) i.
            case getPathCosVect now (IPv4 (srt_addrs srt ! i)) 0 c of ((found, routeAux, _, _), c') \<Rightarrow>
              (if found \<and> routeAux = [] then neigh @ [i] else neigh, c'))
          ([], c) [0..<length (srt_addrs srt)]
      in bindE (foldE (\<lambda>_ n. if etx \<and> length (srt_cost srt) \<le> n + 1 then Inl BadAccess else Inr ())
           neigh ()) (\<lambda>_. Inr c1))"

text \<open>
  What the node sees of a source route: whether it is its source, its destination, or one of the
  intermediate nodes, and the part of it that comes before the node, forwards and backwards.
\<close>

definition srt_is_first :: "in_addr \<Rightarrow> dsr_srt \<Rightarrow> bool" where
  "srt_is_first me srt \<longleftrightarrow> srt_src srt = me"

definition srt_is_last :: "in_addr \<Rightarrow> dsr_srt \<Rightarrow> bool" where
  "srt_is_last me srt \<longleftrightarrow> srt_src srt \<noteq> me \<and> srt_dst srt = me"

definition srt_pos :: "in_addr \<Rightarrow> dsr_srt \<Rightarrow> nat option" where
  "srt_pos me srt =
     (if srt_is_first me srt \<or> srt_is_last me srt \<or> me \<notin> set (srt_addrs srt) then None
      else Some (length (takeWhile (\<lambda>a. a \<noteq> me) (srt_addrs srt))))"

definition srt_costs :: "dsr_srt \<Rightarrow> real list" where
  "srt_costs srt = map (\<lambda>w. of_nat (unat w)) (srt_cost srt)"

definition srt_route :: "in_addr \<Rightarrow> dsr_srt \<Rightarrow> path_route" where
  "srt_route me srt = (case srt_pos me srt of
     Some i \<Rightarrow> map IPv4 (take i (srt_addrs srt))
   | None \<Rightarrow> if srt_is_first me srt then map IPv4 (srt_addrs srt) else [])"

definition srt_costVect :: "in_addr \<Rightarrow> dsr_srt \<Rightarrow> real list" where
  "srt_costVect me srt = (case srt_pos me srt of
     Some i \<Rightarrow> take (i + 1) (srt_costs srt)
   | None \<Rightarrow> if srt_is_first me srt then srt_costs srt else [])"

definition srt_route2 :: "in_addr \<Rightarrow> dsr_srt \<Rightarrow> path_route" where
  "srt_route2 me srt = (case srt_pos me srt of
     Some i \<Rightarrow> rev (map IPv4 (take i (srt_addrs srt)))
   | None \<Rightarrow> if srt_is_last me srt then rev (map IPv4 (srt_addrs srt)) else [])"

definition srt_costVect2 :: "in_addr \<Rightarrow> dsr_srt \<Rightarrow> real list" where
  "srt_costVect2 me srt = (case srt_pos me srt of
     Some i \<Rightarrow> rev (take (i + 1) (srt_costs srt))
   | None \<Rightarrow> if srt_is_last me srt then rev (srt_costs srt) else [])"

text \<open>The costs of an intermediate node are read up to its position.\<close>

definition costs_short :: "in_addr \<Rightarrow> dsr_srt \<Rightarrow> bool" where
  "costs_short me srt = (case srt_pos me srt of
     Some i \<Rightarrow> srt_cost srt \<noteq> [] \<and> length (srt_cost srt) \<le> i | None \<Rightarrow> False)"

definition add_backwards ::
    "simtime \<Rightarrow> bool \<Rightarrow> in_addr \<Rightarrow> dsr_srt \<Rightarrow> 32 word \<Rightarrow> paths_cache \<Rightarrow> fault + paths_cache" where
  "add_backwards now etx me srt t c =
     bindE (set_prefixes now etx (srt_route me srt) (srt_route2 me srt) (srt_costVect2 me srt) t c) (\<lambda>c1.
       Inr (if me \<noteq> srt_src srt
            then setPath now (IPv4 (srt_src srt)) (srt_route2 me srt) (srt_costVect2 me srt)
                   (of_nat (length (srt_route2 me srt) + 1)) 0 t c1
            else c1))"

definition add_forwards ::
    "simtime \<Rightarrow> bool \<Rightarrow> in_addr \<Rightarrow> dsr_srt \<Rightarrow> 32 word \<Rightarrow> paths_cache \<Rightarrow> fault + paths_cache" where
  "add_forwards now etx me srt t c =
     bindE (set_prefixes now etx (srt_route me srt) (srt_route me srt) (srt_costVect me srt) t c) (\<lambda>c1.
       Inr (if me \<noteq> srt_dst srt
            then setPath now (IPv4 (srt_dst srt)) (srt_route me srt) (srt_costVect me srt)
                   (of_nat (length (srt_route me srt) + 1)) 0 t c1
            else c1))"

definition ph_srt_add_map ::
    "simtime \<Rightarrow> dsr_srt option \<Rightarrow> usecs_t \<Rightarrow> u16 \<Rightarrow> bool \<Rightarrow> dsruu \<Rightarrow> fault + dsruu" where
  "ph_srt_add_map now s timeout flags oportunity d =
     (case s of None \<Rightarrow> Inr d | Some srt \<Rightarrow>
      let d1 = (if isPathCacheEmpty (paths d) then d\<lparr>nextPurge := now + wide_usecs timeout\<rparr> else d);
          me = my_addr d; t = narrow timeout; etx = etxActive d
      in if costs_short me srt then Inl BadAccess
         else bindE (if oportunity \<and> \<not> srt_is_first me srt \<and> \<not> srt_is_last me srt \<and> srt_pos me srt = None
                then oportunity_scan now srt etx (paths d1) else Inr (paths d1)) (\<lambda>c1.
           bindE (add_forwards now etx me srt t c1) (\<lambda>c2.
             if srt_is_first me srt then Inr (d1\<lparr>paths := c2\<rparr>)
             else if (srt_flags srt AND SRT_BIDIR) AND flags \<noteq> 0
             then bindE (add_backwards now etx me srt t c2) (\<lambda>c3. Inr (d1\<lparr>paths := c3\<rparr>))
             else Inr (d1\<lparr>paths := c2\<rparr>))))"

definition ph_srt_add_node_map :: "simtime \<Rightarrow> in_addr \<Rightarrow> usecs_t \<Rightarrow> dsruu \<Rightarrow> dsruu" where
  "ph_srt_add_node_map now node timeout d =
     d\<lparr>paths := setPath now (IPv4 node) [] (if etxActive d then [getCost d node] else []) 1 0
        (narrow timeout) (paths d)\<rparr>"

definition ph_srt_delete_node_map :: "simtime \<Rightarrow> in_addr \<Rightarrow> dsruu \<Rightarrow> dsruu" where
  "ph_srt_delete_node_map now node d = d\<lparr>paths := erasePathWithNode now (IPv4 node) (paths d)\<rparr>"

definition ph_srt_delete_link_map ::
    "simtime \<Rightarrow> in_addr \<Rightarrow> in_addr \<Rightarrow> dsruu \<Rightarrow> fault + dsruu" where
  "ph_srt_delete_link_map now src1 src2 d =
     (let c = erasePathWithLink now (rootNode (links d)) (IPv4 src1) (IPv4 src2)
                (src1 = my_addr d) True (paths d)
      in bindE (deleteEdge (IPv4 src1) (IPv4 src2) True (links d)) (\<lambda>l.
           Inr (d\<lparr>paths := c, links := l\<rparr>)))"

text \<open>\<open>DSRUU::linkFailed\<close>\<close>

definition linkFailed :: "simtime \<Rightarrow> in_addr \<Rightarrow> dsruu \<Rightarrow> fault + dsruu" where
  "linkFailed now ipAdd d = ph_srt_delete_link_map now (my_addr d) ipAdd d"

subsection \<open>Links\<close>

definition ph_add_link_map :: "simtime \<Rightarrow> in_addr \<Rightarrow> in_addr \<Rightarrow> usecs_t \<Rightarrow> dsruu \<Rightarrow> fault + dsruu" where
  "ph_add_link_map now src dst timeout d =
     bindE (add_both now (IPv4 src) (IPv4 dst) (narrow timeout) (links d)) (\<lambda>l. Inr (d\<lparr>links := l\<rparr>))"

text \<open>The links of a source route: its first, its last, and those between.\<close>

definition ph_srt_add_link_map ::
    "simtime \<Rightarrow> dsr_srt option \<Rightarrow> usecs_t \<Rightarrow> dsruu \<Rightarrow> fault + dsruu" where
  "ph_srt_add_link_map now s timeout d =
     (case s of None \<Rightarrow> Inr d | Some srt \<Rightarrow>
      let t = narrow timeout; addrs = map IPv4 (srt_addrs srt);
          src = IPv4 (srt_src srt); dst = IPv4 (srt_dst srt)
      in bindE
           (if addrs = [] then add_both now src dst t (links d)
            else bindE (add_both now src (hd addrs) t (links d)) (\<lambda>l1.
                 bindE (add_both now dst (last addrs) t l1) (\<lambda>l2.
                   foldE (\<lambda>l i. add_both now (addrs ! i) (addrs ! (i + 1)) t l)
                     [0..<length addrs - 1] l2)))
           (\<lambda>l. Inr (d\<lparr>links := l\<rparr>)))"

definition ph_srt_find_link_route_map ::
    "(nat \<Rightarrow> nat) \<Rightarrow> simtime \<Rightarrow> in_addr \<Rightarrow> in_addr \<Rightarrow> 32 word \<Rightarrow> dsruu
      \<Rightarrow> (fault + dsr_srt option \<times> dsruu) option" where
  "ph_srt_find_link_route_map rand now src dst timeout d =
     map_option (\<lambda>r. bindE r (\<lambda>(res, l).
        let d1 = d\<lparr>links := l\<rparr>
        in case res of
             None \<Rightarrow> Inr (None, d1)
           | Some route \<Rightarrow> bindE (srt_of_route src dst route) (\<lambda>srt. Inr (Some srt, d1))))
       (getRoute_dsr rand now (IPv4 dst) timeout (links d))"

text \<open>The two entry points of the agent, \<open>RouteFind\<close> and \<open>RouteAdd\<close>; \<open>tmo\<close> is the configured time-out.\<close>

definition RouteFind ::
    "(nat \<Rightarrow> nat) \<Rightarrow> simtime \<Rightarrow> 32 word \<Rightarrow> in_addr \<Rightarrow> in_addr \<Rightarrow> dsruu
      \<Rightarrow> (fault + dsr_srt option \<times> dsruu) option" where
  "RouteFind rand now tmo src dst d =
     (if pathCacheConf d then Some (ph_srt_find_map now src dst tmo d)
      else ph_srt_find_link_route_map rand now src dst tmo d)"

definition RouteAdd :: "simtime \<Rightarrow> dsr_srt option \<Rightarrow> usecs_t \<Rightarrow> u16 \<Rightarrow> dsruu \<Rightarrow> fault + dsruu" where
  "RouteAdd now s timeout flags d =
     (if pathCacheConf d then ph_srt_add_map now s timeout flags False d
      else ph_srt_add_link_map now s timeout d)"

text \<open>\<open>cleanAllDataBase\<close>, when the node stops or crashes; it does not touch \<open>routeMap\<close>.\<close>

definition cleanAllDataBase :: "dsruu \<Rightarrow> fault + dsruu" where
  "cleanAllDataBase d = bindE (cleanLinkArray (links d)) (\<lambda>l.
     Inr (d\<lparr>paths := cleanAllPaths (paths d), links := l\<rparr>))"

text \<open>The start: empty caches and the node itself as root.\<close>

definition dsr_start :: "dsruu \<Rightarrow> dsruu" where
  "dsr_start d = d\<lparr>paths := [], links := setRoot (IPv4 (my_addr d)) link_db_init\<rparr>"

end
