(* ===== verification/Dsr_Options.thy ===== *)
theory Dsr_Options
  imports Dsr_Access
begin

text \<open>
  The options of a DSR packet, \<open>dsr_options.h\<close>, with their field widths: lengths are one byte,
  the salvage count four bits, the segments left six.
\<close>

subsection \<open>The options\<close>

text \<open>\<open>struct dsr_rreq_opt\<close>\<close>

record rreq_opt =
  rq_length :: u8
  rq_id :: u16
  rq_target :: in_addr
  rq_addrs :: "in_addr list"

text \<open>\<open>struct dsr_rrep_opt\<close> (its \<open>l\<close> and \<open>res\<close> fields are never read)\<close>

record rrep_opt =
  rp_length :: u8
  rp_addrs :: "in_addr list"
  rp_cost :: "32 word list"

text \<open>\<open>struct dsr_rerr_opt\<close>\<close>

record rerr_opt =
  re_length :: u8
  re_type :: u8
  re_salv :: "4 word"
  re_src :: in_addr
  re_dst :: in_addr
  re_info :: in_addr

text \<open>\<open>struct dsr_srt_opt\<close>\<close>

record srt_opt =
  so_length :: u8
  so_first :: bool
  so_last :: bool
  so_salv :: "4 word"
  so_sleft :: "6 word"
  so_addrs :: "in_addr list"

text \<open>\<open>struct dsr_ack_opt\<close>, \<open>struct dsr_ack_req_opt\<close>\<close>

record ack_opt =
  ao_id :: u16
  ao_src :: in_addr
  ao_dst :: in_addr

record ack_req_opt =
  ar_id :: u16

text \<open>
  \<open>struct dsr_opt\<close>: the type byte is the constructor; the options the code only skips over
  (padding, previous hop, time-out, flow id, or an unknown type) keep it.
\<close>

datatype dsr_opt =
    RreqOpt rreq_opt
  | RrepOpt rrep_opt
  | RerrOpt rerr_opt
  | SrtOpt srt_opt
  | AckOpt ack_opt
  | AckReqOpt ack_req_opt
  | OtherOpt u8

text \<open>\<open>struct dsr_opt_hdr\<close>\<close>

record opt_hdr =
  oh_nh :: u8
  oh_p_len :: u16
  oh_option :: "dsr_opt list"

definition new_opt_hdr :: opt_hdr where
  "new_opt_hdr = \<lparr>oh_nh = 0, oh_p_len = 0, oh_option = []\<rparr>"

text \<open>\<open>class EtxCost\<close>: what the link to a node of the route costs.\<close>

record etx_cost =
  ec_address :: in_addr
  ec_cost :: real

subsection \<open>Lengths\<close>

definition DSR_SRT_HDR_LEN :: nat where "DSR_SRT_HDR_LEN = 4"
definition DSR_RREP_HDR_LEN :: nat where "DSR_RREP_HDR_LEN = 3"
definition DSR_OPT_HDR_LEN :: nat where "DSR_OPT_HDR_LEN = 4"
definition DSR_RREQ_HDR_LEN :: nat where "DSR_RREQ_HDR_LEN = 8"

lemmas dsr_lengths = DSR_SRT_HDR_LEN_def DSR_RREP_HDR_LEN_def DSR_OPT_HDR_LEN_def
  DSR_RREQ_HDR_LEN_def DSR_ADDRESS_SIZE_def

definition DSR_SRT_OPT_LEN :: "dsr_srt \<Rightarrow> nat" where
  "DSR_SRT_OPT_LEN srt = DSR_SRT_HDR_LEN + length (srt_addrs srt) * DSR_ADDRESS_SIZE"

definition DSR_RREP_OPT_LEN :: "dsr_srt \<Rightarrow> nat" where
  "DSR_RREP_OPT_LEN srt = DSR_RREP_HDR_LEN + length (srt_addrs srt) * DSR_ADDRESS_SIZE + DSR_ADDRESS_SIZE"

text \<open>\<open>DSR_RREQ_ADDRS_LEN\<close>, an \<open>int\<close> since the byte is promoted.\<close>

definition DSR_RREQ_ADDRS_LEN :: "rreq_opt \<Rightarrow> int" where
  "DSR_RREQ_ADDRS_LEN q = uint (rq_length q) - 6"

definition DSR_RREP_ADDRS_LEN :: "rrep_opt \<Rightarrow> nat" where
  "DSR_RREP_ADDRS_LEN q = (length (rp_addrs q) - 1) * DSR_ADDRESS_SIZE"

end
