(* ===== verification/Dsr_Srt.thy ===== *)
theory Dsr_Srt
  imports Dsr_Options
begin

text \<open>
  Source routes, \<open>dsr-srt.cc\<close>: the next and the previous hop, building a route from an option,
  reversing, splitting, cutting short and joining routes, the check for loops, and the options
  that carry them.  A read outside a vector is \<open>BadAccess\<close>; the errors the functions throw are
  values too.  A null pointer is \<open>None\<close>.
\<close>

text \<open>\<open>srt->laddrs / SIZE_ADDRESS\<close>\<close>

definition srt_n :: "dsr_srt \<Rightarrow> nat" where
  "srt_n srt = unat (srt_laddrs srt) div DSR_ADDRESS_SIZE"

definition dsr_srt_next_hop :: "dsr_srt \<Rightarrow> int \<Rightarrow> fault + in_addr" where
  "dsr_srt_next_hop srt sleft =
     (if sleft \<le> 0 then Inr (srt_dst srt) else vec_at (srt_addrs srt) (int (srt_n srt) - sleft))"

definition dsr_srt_prev_hop :: "dsr_srt \<Rightarrow> int \<Rightarrow> fault + in_addr" where
  "dsr_srt_prev_hop srt sleft =
     (if int (srt_n srt) - 1 = sleft then Inr (srt_src srt)
      else vec_at (srt_addrs srt) (int (srt_n srt) - 2 - sleft))"

text \<open>Whether an address is among the nodes still to be visited.\<close>

fun srt_find_loop :: "dsr_srt \<Rightarrow> in_addr \<Rightarrow> nat \<Rightarrow> fault + bool" where
  "srt_find_loop srt a 0 = Inr False"
| "srt_find_loop srt a (Suc k) =
     bindE (vec_at (srt_addrs srt) (int (srt_n srt) - int (Suc k))) (\<lambda>x.
       if x = a then Inr True else srt_find_loop srt a k)"

definition dsr_srt_find_addr :: "dsr_srt \<Rightarrow> in_addr \<Rightarrow> int \<Rightarrow> fault + bool" where
  "dsr_srt_find_addr srt a sleft =
     (if srt_n srt = 0 \<or> int (srt_n srt) < sleft \<or> sleft < 1 then Inr False
      else bindE (srt_find_loop srt a (nat sleft)) (\<lambda>found. Inr (found \<or> a = srt_dst srt)))"

subsection \<open>Building a route\<close>

text \<open>\<open>(unsigned int) cost\<close>: undefined for a value outside the type.\<close>

definition cast_cost :: "real \<Rightarrow> fault + 32 word" where
  "cast_cost c = (if -1 < c \<and> c < 4294967296 then Inr (word_of_int \<lfloor>max 0 c\<rfloor>) else Inl BadAccess)"

definition cost_at :: "etx_cost list \<Rightarrow> int \<Rightarrow> fault + 32 word" where
  "cost_at cost i = bindE (vec_at cost i) (\<lambda>c. cast_cost (ec_cost c))"

text \<open>
  The costs of the packet have one entry per node of the route and one more: either in the order
  of the addresses, or backwards, with or without an end of the route as last entry.
\<close>

definition costs_full ::
    "in_addr \<Rightarrow> in_addr \<Rightarrow> in_addr list \<Rightarrow> etx_cost list \<Rightarrow> fault + 32 word list" where
  "costs_full src dst addrs cost =
     (let size = length addrs; m = length cost in
      if list_all (\<lambda>i. ec_address (cost ! i) = addrs ! i) [0..<size]
      then mapE (\<lambda>i. cost_at cost (int i)) [0..<m]
      else bindE (mapE (\<lambda>i. cost_at cost (int m - 1 - int i)) [0..<m]) (\<lambda>cs.
        bindE (foldE (\<lambda>_ i.
             let l = ec_address (last cost);
                 a = (if l = src \<or> l = dst then ec_address (cost ! (m - 2 - i))
                      else ec_address (cost ! (m - 1 - i)))
             in if addrs ! i \<noteq> a then Inl EtxMismatch else Inr ()) [0..<size] ()) (\<lambda>_. Inr cs)))"

text \<open>
  Otherwise the part of the costs that belongs to this route is searched for, from the entry of its
  source on: first backwards, then forwards.
\<close>

fun costs_backwards :: "in_addr list \<Rightarrow> etx_cost list \<Rightarrow> nat \<Rightarrow> nat \<Rightarrow> fault + bool" where
  "costs_backwards addrs cost 0 l = Inr False"
| "costs_backwards addrs cost (Suc i) l =
     bindE (vec_at addrs (int l)) (\<lambda>a.
       if a \<noteq> ec_address (cost ! i) then Inr True else costs_backwards addrs cost i (l + 1))"

definition costs_part ::
    "in_addr \<Rightarrow> in_addr list \<Rightarrow> etx_cost list \<Rightarrow> fault + 32 word list" where
  "costs_part src addrs cost =
     (let size = length addrs; zero = replicate (size + 1) 0;
          j = length (takeWhile (\<lambda>c. ec_address c \<noteq> src) cost)
      in if j = length cost then Inl EtxMismatch
         else bindE (costs_backwards addrs cost j 0) (\<lambda>inverse.
           if \<not> inverse
           then foldE (\<lambda>cs l. bindE (cost_at cost (int j - 1 - int l)) (vec_set cs (int l))) [0..<j] zero
           else bindE (foldE (\<lambda>_ i. bindE (vec_at cost (int (j + 1 + i))) (\<lambda>c.
                    if addrs ! i \<noteq> ec_address c then Inl EtxMismatch else Inr ())) [0..<size] ()) (\<lambda>_.
                  foldE (\<lambda>cs i. bindE (cost_at cost (int (j + 1 + i))) (vec_set cs (int i)))
                    [0..<size + 1] zero)))"

definition dsr_srt_new ::
    "in_addr \<Rightarrow> in_addr \<Rightarrow> 32 word \<Rightarrow> in_addr list \<Rightarrow> etx_cost list \<Rightarrow> fault + dsr_srt" where
  "dsr_srt_new src dst len addrs cost =
     bindE (if cost = [] then Inr []
            else if length addrs = length cost - 1 then costs_full src dst addrs cost
            else costs_part src addrs cost) (\<lambda>cs.
       Inr (new_srt\<lparr>srt_src := src, srt_dst := dst, srt_laddrs := len, srt_addrs := addrs,
         srt_cost := cs, srt_flags := SRT_BIDIR\<rparr>))"

subsection \<open>Reversing and splitting\<close>

definition dsr_srt_new_rev :: "dsr_srt \<Rightarrow> fault + dsr_srt" where
  "dsr_srt_new_rev srt =
     (if srt_n srt \<noteq> length (srt_addrs srt) then Inl SizeMismatch
      else Inr (new_srt\<lparr>srt_flags := srt_flags srt, srt_src := srt_dst srt, srt_dst := srt_src srt,
        srt_laddrs := srt_laddrs srt, srt_addrs := rev (srt_addrs srt), srt_cost := rev (srt_cost srt)\<rparr>))"

text \<open>The first position of an address.\<close>

definition addr_pos :: "in_addr \<Rightarrow> in_addr list \<Rightarrow> nat option" where
  "addr_pos a as = (if a \<in> set as then Some (length (takeWhile (\<lambda>x. x \<noteq> a) as)) else None)"

definition dsr_srt_new_split :: "dsr_srt \<Rightarrow> in_addr \<Rightarrow> fault + dsr_srt option" where
  "dsr_srt_new_split srt a =
     (if srt_n srt \<noteq> length (srt_addrs srt) then Inl SizeMismatch
      else if srt_n srt = 0 then Inr None
      else case addr_pos a (srt_addrs srt) of
        None \<Rightarrow> Inr None
      | Some i \<Rightarrow>
          bindE (if srt_cost srt = [] then Inr []
                 else mapE (\<lambda>p. vec_at (srt_cost srt) (int p)) [0..<i + 1]) (\<lambda>cs.
            Inr (Some (new_srt\<lparr>srt_flags := srt_flags srt, srt_src := srt_src srt,
              srt_dst := srt_addrs srt ! i, srt_laddrs := of_nat (DSR_ADDRESS_SIZE * i),
              srt_addrs := take i (srt_addrs srt), srt_cost := cs\<rparr>))))"

definition dsr_srt_new_split_rev :: "dsr_srt \<Rightarrow> in_addr \<Rightarrow> fault + dsr_srt option" where
  "dsr_srt_new_split_rev srt a =
     bindE (dsr_srt_new_split srt a) (\<lambda>r. case r of
       None \<Rightarrow> Inr None
     | Some s \<Rightarrow> bindE (dsr_srt_new_rev s) (\<lambda>s'. Inr (Some s')))"

text \<open>
  \<open>dsr_srt_split_both\<close>: what a node learns of a route that passes it at \<open>addr\<close>: the way on to the
  destination and the way back to the source, both starting at the node itself, \<open>src\<close>.  The two
  loops after the copies are to take the node out of its own routes; \<open>m\<close> and \<open>l\<close> are the numbers of
  addresses the two copies start with.
\<close>

definition resize :: "nat \<Rightarrow> 'a \<Rightarrow> 'a list \<Rightarrow> 'a list" where
  "resize c z as = take c as @ replicate (c - length as) z"

definition shift_down :: "nat \<Rightarrow> nat \<Rightarrow> 'a list \<Rightarrow> fault + 'a list" where
  "shift_down k m as =
     foldE (\<lambda>as i. bindE (vec_at as (int i)) (vec_set as (int i - int (k + 1)))) [k + 1..<m] as"

text \<open>
  Taking the node out of the way to the destination: with costs the entry after the shortened vector
  is written.
\<close>

definition dest_loop ::
    "dsr_srt \<Rightarrow> in_addr \<Rightarrow> nat \<Rightarrow> in_addr list \<times> 32 word \<Rightarrow> nat \<Rightarrow> fault + in_addr list \<times> 32 word" where
  "dest_loop srt src m st k =
     bindE (vec_at (fst st) (int k)) (\<lambda>a.
       if a \<noteq> src then Inr st
       else if srt_cost srt \<noteq> [] then Inl BadAccess
       else bindE (shift_down k m (fst st)) (\<lambda>as.
         Inr (resize (m - (k + 1)) 0 as, of_nat (DSR_ADDRESS_SIZE * (m - (k + 1))))))"

definition split_dest :: "dsr_srt \<Rightarrow> in_addr \<Rightarrow> in_addr \<Rightarrow> int \<Rightarrow> fault + dsr_srt option" where
  "split_dest srt addr src l =
     (let m = nat (int (srt_n srt) - l - 1);
          first = (addr = srt_src srt \<and> addr \<noteq> src);
          as = (if first then srt_src srt # srt_addrs srt else drop (nat (l + 1)) (srt_addrs srt));
          cs = (if srt_cost srt = [] then []
                else if first then 1 # srt_cost srt else drop (nat (l + 1)) (srt_cost srt))
      in if m = 0 then Inr None
         else bindE (foldE (dest_loop srt src m) [0..<m] (as, of_nat (DSR_ADDRESS_SIZE * m))) (\<lambda>(as', la).
           Inr (Some (new_srt\<lparr>srt_flags := srt_flags srt, srt_src := src, srt_dst := srt_dst srt,
             srt_laddrs := la, srt_addrs := as', srt_cost := cs\<rparr>))))"

text \<open>Taking the node out of the way to the source; here only the byte count is corrected.\<close>

definition src_loop ::
    "in_addr \<Rightarrow> nat \<Rightarrow> in_addr list \<times> 32 word list \<times> 32 word \<Rightarrow> nat
      \<Rightarrow> fault + in_addr list \<times> 32 word list \<times> 32 word" where
  "src_loop src l st k =
     (case st of (as, cs, la) \<Rightarrow>
      bindE (vec_at as (int k)) (\<lambda>a.
        if a \<noteq> src then Inr st
        else bindE (shift_down k l as) (\<lambda>as'.
          bindE (if cs = [] then Inr []
                 else bindE (shift_down k l cs) (\<lambda>cs'.
                   bindE (vec_at cs' (int l)) (vec_set cs' (int (l - (k + 1)))))) (\<lambda>cs'.
            Inr (as', cs', of_nat (DSR_ADDRESS_SIZE * (l - (k + 1))))))))"

definition split_src :: "dsr_srt \<Rightarrow> in_addr \<Rightarrow> nat \<Rightarrow> fault + dsr_srt option" where
  "split_src srt src l =
     (if l = 0 then Inr None
      else bindE (mapE (\<lambda>k. vec_at (srt_addrs srt) (int (l - k - 1))) [0..<l]) (\<lambda>as.
        bindE (if srt_cost srt = [] then Inr []
               else bindE (mapE (\<lambda>k. vec_at (srt_cost srt) (int (l - k))) [0..<l]) (\<lambda>cs.
                 Inr (cs @ [hd (srt_cost srt)]))) (\<lambda>cs.
          bindE (foldE (src_loop src l) [0..<l] (as, cs, of_nat (DSR_ADDRESS_SIZE * l))) (\<lambda>(as', cs', la).
            Inr (Some (new_srt\<lparr>srt_flags := srt_flags srt, srt_src := src, srt_dst := srt_src srt,
              srt_laddrs := la, srt_addrs := as', srt_cost := cs'\<rparr>))))))"

definition dsr_srt_split_both ::
    "dsr_srt \<Rightarrow> in_addr \<Rightarrow> in_addr \<Rightarrow> fault + dsr_srt option \<times> dsr_srt option" where
  "dsr_srt_split_both srt addr src =
     (let n = srt_n srt in
      if n \<noteq> length (srt_addrs srt) then Inl SizeMismatch
      else if n = 0 then Inr (None, None)
      else
        case (if addr = srt_src srt then Some (0, if addr \<noteq> src then -2 else -1)
              else if addr = srt_dst srt
              then (if src \<in> set (srt_addrs srt) then None else Some (n, int n + 1))
              else map_option (\<lambda>i. (i, if addr \<noteq> src then int i - 1 else int i)) (addr_pos addr (srt_addrs srt)))
        of None \<Rightarrow> Inr (None, None)
         | Some (i, l) \<Rightarrow>
             bindE (split_dest srt addr src l) (\<lambda>to_dest.
               bindE (split_src srt src
                   (if addr = srt_src srt then 0
                    else if src = srt_dst srt then n
                    else if addr \<noteq> src then i + 1 else i)) (\<lambda>to_src.
                 Inr (to_dest, to_src))))"

text \<open>
  \<open>dsr_srt_shortcut\<close>: the nodes between two nodes of the route are left out.  The positions are
  the last ones found; a node that is not on the route has position -1.
\<close>

definition last_pos :: "in_addr \<Rightarrow> in_addr list \<Rightarrow> int" where
  "last_pos a as = (if a \<in> set as then int (length as) - int (length (takeWhile (\<lambda>x. x \<noteq> a) (rev as))) else -1)"

definition dsr_srt_shortcut :: "dsr_srt \<Rightarrow> in_addr \<Rightarrow> in_addr \<Rightarrow> fault + dsr_srt" where
  "dsr_srt_shortcut srt a1 a2 =
     (if srt_n srt \<noteq> length (srt_addrs srt) then Inl SizeMismatch
      else
        let n = int (srt_n srt);
            a1_num = (if a1 \<in> set (srt_addrs srt) then last_pos a1 (srt_addrs srt)
                      else if srt_src srt = a1 then 0 else -1);
            a2_num = (if srt_dst srt = a2 then n + 1 else last_pos a2 (srt_addrs srt));
            n_cut = n - (a2_num - a1_num - 1);
            keep = (\<lambda>i. \<not> (a1_num < int i + 1 \<and> int i + 1 < a2_num));
            cut = new_srt\<lparr>srt_flags := srt_flags srt, srt_src := srt_src srt, srt_dst := srt_dst srt,
              srt_laddrs := word_of_int (n_cut * int DSR_ADDRESS_SIZE)\<rparr>;
            as = map ((!) (srt_addrs srt)) (filter keep [0..<srt_n srt])
        in if srt_laddrs cut = 0 then Inr cut
           else if int (length as) \<noteq> n_cut then Inl CutError
           else Inr (cut\<lparr>srt_addrs := as,
             srt_cost := map ((!) (srt_cost srt)) (filter keep [0..<length (srt_cost srt)])\<rparr>))"

subsection \<open>Joining, and the check for loops\<close>

text \<open>The costs would be joined too, but their number \<open>size_cost\<close> is never set and stays 0.\<close>

definition dsr_srt_concatenate :: "dsr_srt \<Rightarrow> dsr_srt \<Rightarrow> fault + dsr_srt" where
  "dsr_srt_concatenate srt1 srt2 =
     (if srt_n srt1 \<noteq> length (srt_addrs srt1) then Inl SizeMismatch
      else if srt_n srt2 \<noteq> length (srt_addrs srt2) then Inl SizeMismatch
      else
        let n = srt_n srt1 + srt_n srt2 + 1; as = srt_addrs srt1 @ [srt_src srt2] @ srt_addrs srt2
        in if n \<noteq> length as then Inl SizeMismatch
           else Inr (new_srt\<lparr>srt_flags := srt_flags srt1 AND srt_flags srt2, srt_src := srt_src srt1,
             srt_dst := srt_dst srt2, srt_laddrs := of_nat (n * DSR_ADDRESS_SIZE), srt_addrs := as\<rparr>))"

text \<open>\<open>buf\<close> collects the source and the nodes seen so far.\<close>

fun dup_loop :: "dsr_srt \<Rightarrow> nat list \<Rightarrow> in_addr list \<Rightarrow> fault + bool \<times> in_addr list" where
  "dup_loop srt [] buf = Inr (False, buf)"
| "dup_loop srt (i # is) buf =
     bindE (vec_at (srt_addrs srt) (int i)) (\<lambda>a.
       if a \<in> set buf then Inr (True, buf) else dup_loop srt is (buf @ [a]))"

definition dsr_srt_check_duplicate :: "dsr_srt \<Rightarrow> fault + bool" where
  "dsr_srt_check_duplicate srt =
     bindE (dup_loop srt [0..<srt_n srt] [srt_src srt]) (\<lambda>(dup, buf).
       Inr (dup \<or> srt_dst srt \<in> set buf))"

subsection \<open>Options that carry a route\<close>

text \<open>\<open>dsr_srt_opt_add\<close> and \<open>dsr_srt_opt_add_char\<close>: the option they fill in, if there is room for it.\<close>

definition srt_option :: "nat \<Rightarrow> dsr_srt \<Rightarrow> srt_opt" where
  "srt_option salvage srt =
     \<lparr>so_length = ucast (srt_laddrs srt + 2), so_first = False, so_last = False,
      so_salv = of_nat salvage, so_sleft = of_nat (srt_n srt), so_addrs = srt_addrs srt\<rparr>"

definition dsr_srt_opt_add :: "opt_hdr \<Rightarrow> int \<Rightarrow> nat \<Rightarrow> dsr_srt \<Rightarrow> opt_hdr option" where
  "dsr_srt_opt_add h len salvage srt =
     (if len < int (DSR_SRT_OPT_LEN srt) then None
      else Some (h\<lparr>oh_option := oh_option h @ [SrtOpt (srt_option salvage srt)]\<rparr>))"

text \<open>\<open>dsr_rrep_opt_add\<close>: the route with its destination, and its costs.\<close>

definition rrep_option :: "dsr_srt \<Rightarrow> rrep_opt" where
  "rrep_option srt =
     \<lparr>rp_length = ucast (srt_laddrs srt + of_nat DSR_ADDRESS_SIZE + 1),
      rp_addrs = srt_addrs srt @ [srt_dst srt], rp_cost = srt_cost srt\<rparr>"

definition dsr_rrep_opt_add :: "opt_hdr \<Rightarrow> int \<Rightarrow> dsr_srt \<Rightarrow> opt_hdr option" where
  "dsr_rrep_opt_add h len srt =
     (if len < int (DSR_RREP_OPT_LEN srt) then None
      else Some (h\<lparr>oh_option := oh_option h @ [RrepOpt (rrep_option srt)]\<rparr>))"

end
