(* ===== verification/Dsr_State.thy ===== *)
theory Dsr_State
  imports Dsr_Srt
begin

text \<open>
  The state of a DSR node, \<open>class DSRUU\<close> (\<open>dsr-uu-omnetpp.h\<close>): its configuration, its tables and
  buffers, its timers, the packets it works on (\<open>struct dsr_pkt\<close>) and the datagrams it sends.
  Times are exact reals, \<open>struct timeval\<close> is two integers, the counters keep their width.  Lengths in
  bits and the IP total length are left out: nothing the agent decides depends on them.
\<close>

subsection \<open>Results\<close>

text \<open>
  A call of the agent returns a value, fails with a fault, or does not return: \<open>None\<close>, from the
  shortest-path search of the link cache, or when the fuel given to the mutual recursion of the
  maintenance buffer is used up.
\<close>

type_synonym 'a outcome = "(fault + 'a) option"

definition bindO :: "'a outcome \<Rightarrow> ('a \<Rightarrow> 'b outcome) \<Rightarrow> 'b outcome" where
  "bindO m f = (case m of None \<Rightarrow> None | Some (Inl e) \<Rightarrow> Some (Inl e) | Some (Inr a) \<Rightarrow> f a)"

lemma bindO_simps [simp]:
  "bindO None f = None" "bindO (Some (Inl e)) f = Some (Inl e)" "bindO (Some (Inr a)) f = f a"
  by (simp_all add: bindO_def)

lemma bindO_InrE [elim]:
  assumes "bindO m f = Some (Inr b)"
  obtains a where "m = Some (Inr a)" "f a = Some (Inr b)"
  using assms by (auto simp: bindO_def split: option.splits sum.splits)

text \<open>A loop over a vector with such a body.\<close>

fun foldO :: "('s \<Rightarrow> 'a \<Rightarrow> 's outcome) \<Rightarrow> 'a list \<Rightarrow> 's \<Rightarrow> 's outcome" where
  "foldO f [] s = Some (Inr s)"
| "foldO f (x # xs) s = bindO (f s x) (foldO f xs)"

lemma foldO_append: "foldO f (xs @ ys) s = bindO (foldO f xs s) (foldO f ys)"
proof (induction xs arbitrary: s)
  case (Cons x xs)
  then show ?case by (simp add: bindO_def split: option.split sum.split)
qed simp

lemma foldO_invariant:
  assumes "foldO f xs s = Some (Inr s')" and "P s"
    and "\<And>t x t'. x \<in> set xs \<Longrightarrow> P t \<Longrightarrow> f t x = Some (Inr t') \<Longrightarrow> P t'"
  shows "P s'"
  using assms
proof (induction xs arbitrary: s)
  case (Cons x xs)
  from Cons.prems(1) obtain t where t: "f s x = Some (Inr t)" "foldO f xs t = Some (Inr s')"
    by (auto elim: bindO_InrE)
  have "P t" using Cons.prems(2,3) t(1) by auto
  then show ?case using Cons.IH [OF t(2)] Cons.prems(3) by auto
qed simp

lemma foldO_total:
  assumes "P s" and "\<And>t x. x \<in> set xs \<Longrightarrow> P t \<Longrightarrow> \<exists>t'. f t x = Some (Inr t') \<and> P t'"
  shows "\<exists>s'. foldO f xs s = Some (Inr s') \<and> P s'"
  using assms
proof (induction xs arbitrary: s)
  case (Cons x xs)
  then obtain t where "f s x = Some (Inr t)" "P t" by (metis list.set_intros(1))
  with Cons show ?case by simp
qed simp

subsection \<open>Configuration\<close>

text \<open>The values of \<open>confvals\<close> the code reads, with those of the ETX measurement left out.\<close>

record dsr_conf =
  BroadcastJitter :: "32 word"
  RouteCacheTimeout :: "32 word"
  SendBufferTimeout :: "32 word"
  RequestTableIds :: "32 word"
  MaxRequestRexmt :: "32 word"
  MaxRequestPeriod :: "32 word"
  RequestPeriod :: "32 word"
  NonpropRequestTimeout :: "32 word"
  MaintHoldoffTime :: "32 word"
  MaxMaintRexmt :: "32 word"
  UseNetworkLayerAck :: bool
  PromiscOperation :: bool
  GratReplyHoldOff :: "32 word"
  MAX_SALVAGE_COUNT :: "32 word"
  RREQMulVisit :: "32 word"
  RREQMaxVisit :: "32 word"
  RREPDestinationOnly :: bool
  RetryPacket :: bool
  intrand :: "nat \<Rightarrow> nat"

text \<open>
  \<open>confval_to_usecs\<close>: the product is taken in 32 bits before it is widened.  Seconds and
  milliseconds are the two units in use.
\<close>

definition sec_usecs :: "32 word \<Rightarrow> usecs_t" where
  "sec_usecs v = ucast (v * 1000000)"

definition msec_usecs :: "32 word \<Rightarrow> usecs_t" where
  "msec_usecs v = ucast (v * 1000)"

subsection \<open>Time\<close>

record timeval =
  tv_sec :: int
  tv_usec :: int

definition timeval_zero :: timeval where
  "timeval_zero = \<lparr>tv_sec = 0, tv_usec = 0\<rparr>"

text \<open>\<open>gettime\<close> and \<open>timevalFromSimTime\<close>: rounded to the nearest microsecond.\<close>

definition timevalFromSimTime :: "simtime \<Rightarrow> timeval" where
  "timevalFromSimTime now =
     (let s = \<lfloor>now\<rfloor>; u = \<lfloor>(now - of_int s) * 1000000 + 1/2\<rfloor>
      in if u > 1000000 then \<lparr>tv_sec = s + 1, tv_usec = u - 1000000\<rparr> else \<lparr>tv_sec = s, tv_usec = u\<rparr>)"

definition timeval_diff :: "timeval \<Rightarrow> timeval \<Rightarrow> int" where
  "timeval_diff a b = (tv_sec a - tv_sec b) * 1000000 + tv_usec a - tv_usec b"

definition timeval_add_usecs :: "timeval \<Rightarrow> usecs_t \<Rightarrow> timeval" where
  "timeval_add_usecs t u =
     (let add = tv_usec t + uint u
      in \<lparr>tv_sec = tv_sec t + add div 1000000, tv_usec = add mod 1000000\<rparr>)"

text \<open>\<open>set_timer\<close> with \<open>add_timer\<close> and \<open>DSRUUTimer::resched\<close>: the time at which the timer is due.\<close>

definition set_timer :: "simtime \<Rightarrow> timeval \<Rightarrow> simtime" where
  "set_timer now t = max now (of_int (tv_usec t) / 1000000 + of_int (tv_sec t))"

subsection \<open>Packets\<close>

text \<open>A packet of the upper layer.\<close>

record payload =
  pl_id :: nat
  pl_bytes :: nat

text \<open>The datagrams on the air: \<open>class DSRPkt\<close>, and plain ones; how long sending is delayed.\<close>

datatype send_delay = Jitter "32 word" | UnicastDelay | BroadcastDelay

record datagram =
  dg_src :: in_addr
  dg_dst :: in_addr
  dg_ttl :: u8
  dg_tos :: u8
  dg_id :: u16
  dg_more_fragments :: bool
  dg_dont_fragment :: bool
  dg_fragmentOffset :: nat
  dg_protocol :: u8
  dg_payload :: "payload option"
  dg_h_source :: "48 word"
  dg_is_dsr :: bool
  dg_opts :: "opt_hdr list"
  dg_encap :: nat
  dg_prev :: in_addr
  dg_next :: in_addr
  dg_cost :: "etx_cost list"

text \<open>The fields of the IP header that are kept, \<open>struct iphdr\<close>.\<close>

record iphdr =
  ip_tos :: u8
  ip_id :: u16
  ip_frag_off :: u16
  ip_ttl :: u8
  ip_protocol :: u8
  ip_saddr :: in_addr
  ip_daddr :: in_addr

definition new_iphdr :: iphdr where
  "new_iphdr = \<lparr>ip_tos = 0, ip_id = 0, ip_frag_off = 0, ip_ttl = 0, ip_protocol = 0,
     ip_saddr = 0, ip_daddr = 0\<rparr>"

text \<open>
  \<open>struct dsr_pkt\<close>.  The options of a packet are in \<open>dp_opth\<close>; the pointers to them that the packet
  keeps are positions there: the header and the option in it.
\<close>

type_synonym opt_ptr = "nat \<times> nat"

record dsr_pkt =
  dp_src :: in_addr
  dp_dst :: in_addr
  dp_nxt_hop :: in_addr
  dp_prv_hop :: in_addr
  dp_flags :: u8
  dp_salvage :: nat
  dp_h_source :: "48 word"
  dp_iph :: "iphdr option"
  dp_opth :: "opt_hdr list"
  dp_srt_opt :: "opt_ptr option"
  dp_rreq_opt :: "opt_ptr list"
  dp_rrep_opt :: "opt_ptr list"
  dp_rerr_opt :: "opt_ptr list"
  dp_ack_opt :: "opt_ptr list"
  dp_ack_req_opt :: "opt_ptr option"
  dp_srt :: "dsr_srt option"
  dp_payload_len :: nat
  dp_moreFragments :: bool
  dp_fragmentOffset :: nat
  dp_payload :: "payload option"
  dp_ip_pkt :: "datagram option"
  dp_encapsulate_protocol :: nat
  dp_costVector :: "etx_cost list"

text \<open>\<open>dsr_pkt::clear\<close>, and so \<open>dsr_pkt_alloc(nullptr)\<close>.\<close>

definition empty_pkt :: dsr_pkt where
  "empty_pkt = \<lparr>dp_src = 0, dp_dst = 0, dp_nxt_hop = 0, dp_prv_hop = 0, dp_flags = 0, dp_salvage = 0,
     dp_h_source = 0, dp_iph = None, dp_opth = [], dp_srt_opt = None, dp_rreq_opt = [],
     dp_rrep_opt = [], dp_rerr_opt = [], dp_ack_opt = [], dp_ack_req_opt = None, dp_srt = None,
     dp_payload_len = 0, dp_moreFragments = False, dp_fragmentOffset = 0,
     dp_payload = None, dp_ip_pkt = None, dp_encapsulate_protocol = 0, dp_costVector = []\<rparr>"

definition PKT_PROMISC_RECV :: u8 where "PKT_PROMISC_RECV = 0x01"
definition PKT_REQUEST_ACK :: u8 where "PKT_REQUEST_ACK = 0x02"
definition PKT_XMIT_JITTER :: u8 where "PKT_XMIT_JITTER = 0x08"

definition has_flag :: "dsr_pkt \<Rightarrow> u8 \<Rightarrow> bool" where
  "has_flag dp f \<longleftrightarrow> dp_flags dp AND f \<noteq> 0"

text \<open>What the agent does to its surroundings, in order.\<close>

datatype dsr_output =
    Sent datagram send_delay        \<comment> \<open>\<open>sendDelayed(p, ..., "ipOut")\<close>\<close>
  | Delivered datagram              \<comment> \<open>\<open>send(dgram, "ipOut")\<close> of \<open>omnet_deliver\<close>\<close>
  | Dropped nat                     \<comment> \<open>a payload given up\<close>

subsection \<open>Tables and buffers\<close>

text \<open>\<open>struct neighbor\<close> (its fields \<open>rto\<close> and \<open>jitter\<close> are never used)\<close>

record neighbor =
  nb_hw_addr :: "48 word"
  nb_id :: u16
  nb_last_ack_req :: timeval
  t_srtt :: usecs_t
  t_rxtcur :: usecs_t
  t_rttmin :: usecs_t
  t_rttvar :: usecs_t

text \<open>\<open>struct Id_Entry_Route\<close>, \<open>struct Id_Entry\<close>, \<open>struct rreq_tbl_entry\<close>\<close>

record id_route =
  ir_cost :: real
  ir_length :: "32 word"
  ir_add :: "in_addr list"

record id_entry =
  ie_trg_addr :: in_addr
  ie_id :: u16
  ie_routes :: "id_route list"

record rreq_entry =
  re_in_disc :: bool
  re_ttl :: int
  re_timer :: "simtime option"
  re_last_used :: timeval
  re_timeout :: usecs_t
  re_num_rexmts :: "32 word"
  re_ids :: "id_entry list"

text \<open>\<open>struct RreqSeqInfo\<close>\<close>

record seq_info =
  si_seq :: "32 word"
  si_time :: simtime
  si_paths :: "in_addr list list"

text \<open>\<open>struct grat_rrep_entry\<close>\<close>

record grat_entry =
  gr_src :: in_addr
  gr_prev_hop :: in_addr
  gr_expires :: timeval

text \<open>
  \<open>struct maint_entry\<close>; \<open>mt_key\<close> stands for the element of the multimap that holds the entry, so that
  an iterator that points to it can be followed; an entry that is inserted again is in a new element.
\<close>

record maint_entry =
  mt_key :: nat
  mt_nxt_hop :: in_addr
  mt_rexmt :: "32 word"
  mt_id :: u16
  mt_tx_time :: simtime
  mt_expires :: simtime
  mt_rto :: usecs_t
  mt_ack_req_sent :: bool
  mt_dp :: dsr_pkt

text \<open>
  The agent.  The multimaps are lists in the order of iteration: the send buffer by destination, the
  maintenance buffer by expiry, each new entry behind those of its key.  The tables keyed by address
  are only ever looked up, so they are partial functions.
\<close>

record agent =
  ag_time :: simtime
  ag_conf :: dsr_conf
  ag_db :: dsruu
  nodeActive :: bool
  neighborMap :: "in_addr \<Rightarrow> neighbor option"
  dsrRreqTbl :: "in_addr \<Rightarrow> rreq_entry option"
  rreqInfoMap :: "in_addr \<Rightarrow> seq_info list option"
  rreq_seqno :: "32 word"
  gratRrep :: "grat_entry list"
  grat_rrep_tbl_timer :: "simtime option"
  packetBuffer :: "(in_addr \<times> simtime \<times> dsr_pkt) list"
  buffMaxlen :: nat
  send_buf_timer :: "simtime option"
  maint_buf :: "(simtime \<times> maint_entry) list"
  MaxMaintBuff :: nat
  ack_timer :: "simtime option"
  ag_key :: nat
  ag_outputs :: "dsr_output list"

text \<open>\<open>my_addr()\<close>\<close>

abbreviation myaddr :: "agent \<Rightarrow> in_addr" where
  "myaddr a \<equiv> my_addr (ag_db a)"

definition dsr_emit :: "dsr_output \<Rightarrow> agent \<Rightarrow> agent" where
  "dsr_emit e a = a\<lparr>ag_outputs := ag_outputs a @ [e]\<rparr>"

text \<open>\<open>gettime(&tv)\<close>\<close>

definition dsr_gettime :: "agent \<Rightarrow> timeval" where
  "dsr_gettime a = timevalFromSimTime (ag_time a)"

text \<open>\<open>ConfValToUsecs(RouteCacheTimeout)\<close>\<close>

definition cache_usecs :: "agent \<Rightarrow> usecs_t" where
  "cache_usecs a = sec_usecs (RouteCacheTimeout (ag_conf a))"

text \<open>\<open>dsr_rtc_find\<close> and \<open>dsr_rtc_add\<close>; the conversion of the time-out to \<open>unsigned int\<close>.\<close>

definition dsr_rtc_find :: "in_addr \<Rightarrow> in_addr \<Rightarrow> agent \<Rightarrow> (dsr_srt option \<times> agent) outcome" where
  "dsr_rtc_find src dst a =
     bindO (RouteFind (intrand (ag_conf a)) (ag_time a) (ucast (cache_usecs a)) src dst (ag_db a)) (\<lambda>(r, d).
       Some (Inr (r, a\<lparr>ag_db := d\<rparr>)))"

definition dsr_rtc_add :: "dsr_srt \<Rightarrow> agent \<Rightarrow> agent outcome" where
  "dsr_rtc_add srt a =
     Some (bindE (RouteAdd (ag_time a) (Some srt) (cache_usecs a) 0 (ag_db a)) (\<lambda>d. Inr (a\<lparr>ag_db := d\<rparr>)))"

end
