(* ===== verification/Dsr_Packet.thy ===== *)
theory Dsr_Packet
  imports Dsr_State
begin

text \<open>
  Packets: building the IP header and the options header (\<open>dsr_build_ip\<close>, \<open>dsr_opt_hdr_add\<close>), finding
  the options of a packet (\<open>dsr_opt_parse\<close>), the packet of a datagram and the datagram of a packet
  (\<open>dsr_pkt_alloc\<close>, \<open>dsr_pkt_alloc2\<close>, \<open>DSRPkt\<close>), copies (\<open>dsr_pkt::dup\<close>), and the costs that travel with
  a packet.
\<close>

definition IP_HDR_LEN :: nat where "IP_HDR_LEN = 20"
definition IPDEFTTL :: u8 where "IPDEFTTL = 64"
definition IPPROTO_DSR :: u8 where "IPPROTO_DSR = 48"
definition DSR_BROADCAST :: in_addr where "DSR_BROADCAST = 0xffffffff"
definition MAX_RREP_OPTS :: nat where "MAX_RREP_OPTS = 10"
definition MAX_RERR_OPTS :: nat where "MAX_RERR_OPTS = 10"
definition MAX_ACK_OPTS :: nat where "MAX_ACK_OPTS = 10"

subsection \<open>Headers\<close>

text \<open>
  \<open>DSRUU::dsr_build_ip\<close>; the header is the packet's own storage, so the fields that are not set keep
  their values.  A time to live of 0 asks for the default.
\<close>

definition dsr_build_ip :: "dsr_pkt \<Rightarrow> in_addr \<Rightarrow> in_addr \<Rightarrow> u8 \<Rightarrow> u8 \<Rightarrow> dsr_pkt" where
  "dsr_build_ip dp src dst protocol ttl =
     (let h = (case dp_iph dp of None \<Rightarrow> new_iphdr | Some h \<Rightarrow> h);
          h1 = (if dp_payload dp = None then h\<lparr>ip_tos := 0, ip_id := 0, ip_frag_off := 0\<rparr> else h)
      in dp\<lparr>dp_iph := Some (h1\<lparr>ip_ttl := (if ttl \<noteq> 0 then ttl else IPDEFTTL), ip_saddr := src,
           ip_daddr := dst, ip_protocol := protocol\<rparr>)\<rparr>)"

text \<open>\<open>dsr_opt_hdr_add\<close> on the last header of the packet, the one \<open>dsr_pkt_alloc_opts\<close> has appended.\<close>

definition dsr_opt_hdr_add :: "opt_hdr \<Rightarrow> nat \<Rightarrow> u8 \<Rightarrow> opt_hdr" where
  "dsr_opt_hdr_add h len protocol =
     (if len < DSR_OPT_HDR_LEN then h else h\<lparr>oh_nh := protocol, oh_p_len := of_nat (len - DSR_OPT_HDR_LEN)\<rparr>)"

text \<open>\<open>dsr_pkt_alloc_opts\<close>: one more header; \<open>dsr_pkt_free_opts\<close>: none.\<close>

definition dsr_pkt_alloc_opts :: "dsr_pkt \<Rightarrow> dsr_pkt" where
  "dsr_pkt_alloc_opts dp = dp\<lparr>dp_opth := dp_opth dp @ [new_opt_hdr]\<rparr>"

definition last_hdr :: "(opt_hdr \<Rightarrow> opt_hdr) \<Rightarrow> dsr_pkt \<Rightarrow> dsr_pkt" where
  "last_hdr f dp = dp\<lparr>dp_opth := butlast (dp_opth dp) @ [f (last (dp_opth dp))]\<rparr>"

text \<open>\<open>dp->dh.opth.begin()->p_len = len\<close>\<close>

definition first_p_len :: "nat \<Rightarrow> dsr_pkt \<Rightarrow> dsr_pkt" where
  "first_p_len len dp = dp\<lparr>dp_opth := (case dp_opth dp of [] \<Rightarrow> [] | h # hs \<Rightarrow> h\<lparr>oh_p_len := of_nat len\<rparr> # hs)\<rparr>"

text \<open>Reading and writing the option a pointer refers to.\<close>

definition opt_at :: "dsr_pkt \<Rightarrow> opt_ptr \<Rightarrow> dsr_opt option" where
  "opt_at dp p = (case p of (i, j) \<Rightarrow>
     if i < length (dp_opth dp) \<and> j < length (oh_option (dp_opth dp ! i))
     then Some (oh_option (dp_opth dp ! i) ! j) else None)"

definition set_opt :: "opt_ptr \<Rightarrow> dsr_opt \<Rightarrow> dsr_pkt \<Rightarrow> dsr_pkt" where
  "set_opt p x dp = (case p of (i, j) \<Rightarrow>
     dp\<lparr>dp_opth := (dp_opth dp)[i := (dp_opth dp ! i)\<lparr>oh_option := (oh_option (dp_opth dp ! i))[j := x]\<rparr>]\<rparr>)"

definition srt_opt_of :: "dsr_pkt \<Rightarrow> srt_opt option" where
  "srt_opt_of dp = (case dp_srt_opt dp of None \<Rightarrow> None | Some p \<Rightarrow>
     (case opt_at dp p of Some (SrtOpt s) \<Rightarrow> Some s | _ \<Rightarrow> None))"

text \<open>The pointer to the option just appended to the last header.\<close>

definition last_opt :: "dsr_pkt \<Rightarrow> opt_ptr" where
  "last_opt dp = (length (dp_opth dp) - 1, length (oh_option (last (dp_opth dp))) - 1)"

subsection \<open>Parsing\<close>

text \<open>All options of a packet, with their positions, in the order of the two loops.\<close>

definition opt_list :: "dsr_pkt \<Rightarrow> (opt_ptr \<times> dsr_opt) list" where
  "opt_list dp = concat (map (\<lambda>i. map (\<lambda>j. ((i, j), oh_option (dp_opth dp ! i) ! j))
     [0..<length (oh_option (dp_opth dp ! i))]) [0..<length (dp_opth dp)])"

fun parse_opt :: "dsr_pkt \<Rightarrow> opt_ptr \<times> dsr_opt \<Rightarrow> dsr_pkt" where
  "parse_opt dp (p, RreqOpt _) = (if dp_rreq_opt dp = [] then dp\<lparr>dp_rreq_opt := [p]\<rparr> else dp)"
| "parse_opt dp (p, RrepOpt _) =
     (if length (dp_rrep_opt dp) < MAX_RREP_OPTS then dp\<lparr>dp_rrep_opt := dp_rrep_opt dp @ [p]\<rparr> else dp)"
| "parse_opt dp (p, RerrOpt _) =
     (if length (dp_rerr_opt dp) < MAX_RERR_OPTS then dp\<lparr>dp_rerr_opt := dp_rerr_opt dp @ [p]\<rparr> else dp)"
| "parse_opt dp (p, AckOpt _) =
     (if length (dp_ack_opt dp) < MAX_ACK_OPTS then dp\<lparr>dp_ack_opt := dp_ack_opt dp @ [p]\<rparr> else dp)"
| "parse_opt dp (p, SrtOpt _) = (if dp_srt_opt dp = None then dp\<lparr>dp_srt_opt := Some p\<rparr> else dp)"
| "parse_opt dp (p, AckReqOpt _) = (if dp_ack_req_opt dp = None then dp\<lparr>dp_ack_req_opt := Some p\<rparr> else dp)"
| "parse_opt dp (p, OtherOpt _) = dp"

definition dsr_opt_parse :: "dsr_pkt \<Rightarrow> dsr_pkt" where
  "dsr_opt_parse dp = foldl parse_opt
     (dp\<lparr>dp_rreq_opt := [], dp_rrep_opt := [], dp_rerr_opt := [], dp_ack_opt := [], dp_srt_opt := None,
       dp_ack_req_opt := None\<rparr>) (opt_list dp)"

subsection \<open>Packets of datagrams\<close>

text \<open>What \<open>dsr_pkt_alloc\<close> and \<open>dsr_pkt_alloc2\<close> have in common.\<close>

definition pkt_of_header :: "datagram \<Rightarrow> dsr_pkt" where
  "pkt_of_header g = empty_pkt\<lparr>dp_src := dg_src g, dp_dst := dg_dst g, dp_h_source := dg_h_source g,
     dp_iph := Some \<lparr>ip_tos = dg_tos g, ip_id = dg_id g,
       ip_frag_off = ((of_nat (dg_fragmentOffset g) AND 0x1FFF) OR (if dg_more_fragments g then 0x2000 else 0))
         OR (if dg_dont_fragment g then 0x4000 else 0),
       ip_ttl = dg_ttl g, ip_protocol = dg_protocol g, ip_saddr = dg_src g, ip_daddr = dg_dst g\<rparr>,
     dp_moreFragments := dg_more_fragments g, dp_fragmentOffset := dg_fragmentOffset g\<rparr>"

definition payload_bytes :: "payload option \<Rightarrow> nat" where
  "payload_bytes p = (case p of None \<Rightarrow> 0 | Some x \<Rightarrow> pl_bytes x)"

definition dsr_pkt_alloc :: "bool \<Rightarrow> datagram \<Rightarrow> dsr_pkt" where
  "dsr_pkt_alloc networkAck g =
     (let dp = (pkt_of_header g)\<lparr>dp_payload := dg_payload g\<rparr>;
          dp1 = (if dg_protocol g = IPPROTO_DSR
            then (if dg_is_dsr g
                  then dsr_opt_parse (dp\<lparr>dp_opth := dg_opts g, dp_ip_pkt := Some g,
                         dp_encapsulate_protocol := (if dg_payload g = None then 0 else dg_encap g),
                         dp_costVector := dg_cost g\<rparr>)
                  else dp)
            else (if dg_payload g = None then dp
                  else dp\<lparr>dp_encapsulate_protocol := unat (dg_protocol g)\<rparr>));
          dp2 = dp1\<lparr>dp_payload_len := payload_bytes (dg_payload g)\<rparr>
      in if dp_payload_len dp2 \<noteq> 0 \<and> networkAck
         then dp2\<lparr>dp_flags := dp_flags dp2 OR PKT_REQUEST_ACK\<rparr> else dp2)"

text \<open>
  \<open>dsr_pkt_alloc2\<close>, for overheard packets: the payload stays where it is; the options are taken and
  cleared, and then taken again.
\<close>

definition dsr_pkt_alloc2 :: "datagram \<Rightarrow> dsr_pkt" where
  "dsr_pkt_alloc2 g =
     (if dg_protocol g = IPPROTO_DSR \<and> dg_is_dsr g
      then dsr_opt_parse ((pkt_of_header g)\<lparr>dp_opth := [], dp_costVector := dg_cost g\<rparr>)
      else pkt_of_header g)"

text \<open>\<open>dsr_pkt::dup\<close>: the fragment offset of the copy is the flag \<open>moreFragments\<close> of the packet.\<close>

definition pkt_dup :: "dsr_pkt \<Rightarrow> dsr_pkt" where
  "pkt_dup dp = (dsr_opt_parse (empty_pkt\<lparr>dp_h_source := dp_h_source dp, dp_iph := dp_iph dp,
     dp_src := dp_src dp, dp_dst := dp_dst dp, dp_moreFragments := dp_moreFragments dp,
     dp_fragmentOffset := (if dp_moreFragments dp then 1 else 0),
     dp_payload_len := dp_payload_len dp,
     dp_payload := dp_payload dp, dp_srt := dp_srt dp,
     dp_encapsulate_protocol := dp_encapsulate_protocol dp, dp_opth := dp_opth dp,
     dp_costVector := dp_costVector dp\<rparr>))\<lparr>dp_flags := dp_flags dp\<rparr>"

text \<open>
  The datagram of a packet: the constructor of \<open>DSRPkt\<close> and \<open>modDsrOptions\<close>, with the addresses
  \<open>omnet_xmit\<close> sets.  \<open>begin()\<close> of an empty options vector, and a missing IP header, are undefined.
\<close>

definition dsr_datagram :: "in_addr \<Rightarrow> dsr_pkt \<Rightarrow> fault + datagram" where
  "dsr_datagram me dp =
     (case dp_iph dp of None \<Rightarrow> Inl BadAccess | Some h \<Rightarrow>
      if dp_opth dp = [] then Inl BadAccess
      else Inr \<lparr>dg_src = dp_src dp, dg_dst = dp_dst dp, dg_ttl = ip_ttl h, dg_tos = ip_tos h,
        dg_id = ip_id h, dg_more_fragments = (ip_frag_off h AND 0x2000 \<noteq> 0),
        dg_dont_fragment = (ip_frag_off h AND 0x4000 \<noteq> 0), dg_fragmentOffset = (case dp_ip_pkt dp of None \<Rightarrow> 0 | Some g \<Rightarrow> dg_fragmentOffset g),
        dg_protocol = IPPROTO_DSR,
        dg_payload = dp_payload dp, dg_h_source = 0, dg_is_dsr = True, dg_opts = dp_opth dp,
        dg_encap = (if dp_payload dp = None then 0 else dp_encapsulate_protocol dp), dg_prev = me,
        dg_next = (if dp_dst dp = DSR_BROADCAST
          then (case dp_ip_pkt dp of None \<Rightarrow> 0 | Some g \<Rightarrow> dg_next g) else dp_nxt_hop dp), dg_cost = dp_costVector dp\<rparr>)"

text \<open>
  \<open>omnet_deliver\<close>: the datagram for the upper layer.  \<open>setMoreFragments\<close> is given the type of service,
  one byte, masked with \<open>0x2000\<close>.
\<close>

definition omnet_deliver :: "dsr_pkt \<Rightarrow> agent \<Rightarrow> agent outcome" where
  "omnet_deliver dp a =
     (case dp_iph dp of None \<Rightarrow> Some (Inl BadAccess) | Some h0 \<Rightarrow>
      let h = (if dp_opth dp = [] then h0
               else the (dp_iph (dsr_build_ip dp (dp_src dp) (dp_dst dp) (oh_nh (hd (dp_opth dp))) (ip_ttl h0))))
      in Some (Inr (dsr_emit (Delivered \<lparr>dg_src = dp_src dp, dg_dst = dp_dst dp, dg_ttl = ip_ttl h,
           dg_tos = ip_tos h, dg_id = ip_id h,
           dg_more_fragments = ((ucast (ip_tos h) :: u16) AND 0x2000 \<noteq> 0),
           dg_dont_fragment = (ip_frag_off h AND 0x4000 \<noteq> 0), dg_fragmentOffset = 0,
           dg_protocol = of_nat (dp_encapsulate_protocol dp), dg_payload = dp_payload dp,
           dg_h_source = 0, dg_is_dsr = False, dg_opts = [], dg_encap = 0, dg_prev = 0, dg_next = 0,
           dg_cost = []\<rparr>) a)))"

subsection \<open>Costs\<close>

definition HUGE_COST :: real where
  "HUGE_COST = fround (10 ^ 100)"

text \<open>\<open>DSRUU::ExpandCost\<close>: the node adds the cost of the link to the source.\<close>

definition ExpandCost :: "agent \<Rightarrow> dsr_pkt \<Rightarrow> dsr_pkt" where
  "ExpandCost a dp =
     (if \<not> etxActive (ag_db a) then dp\<lparr>dp_costVector := []\<rparr>
      else if dp_costVector dp = [] \<and> dp_src dp = myaddr a then dp
      else
        let c = getCost (ag_db a) (dp_src dp)
        in dp\<lparr>dp_costVector := dp_costVector dp @
             [\<lparr>ec_address = myaddr a, ec_cost = (if c < 0 then HUGE_COST else c)\<rparr>]\<rparr>)"

text \<open>\<open>DSRUU::PathCost\<close>, with the address count of the request as an integer division.\<close>

definition PathCost :: "agent \<Rightarrow> dsr_pkt \<Rightarrow> rreq_opt \<Rightarrow> real" where
  "PathCost a dp first =
     (if \<not> etxActive (ag_db a)
      then (of_int (if DSR_RREQ_ADDRS_LEN first < 0 then - ((- DSR_RREQ_ADDRS_LEN first) div 4)
                    else DSR_RREQ_ADDRS_LEN first div 4)) + 1
      else
        let total = foldl fadd 0 (map ec_cost (dp_costVector dp));
            c = (if dp_costVector dp \<noteq> [] then getCost (ag_db a) (ec_address (last (dp_costVector dp)))
                 else getCost (ag_db a) (dp_src dp))
        in fadd total (if c < 0 then HUGE_COST else c))"

text \<open>\<open>DSRUU::AddCost\<close>\<close>

definition AddCost :: "agent \<Rightarrow> dsr_srt \<Rightarrow> dsr_pkt \<Rightarrow> fault + dsr_pkt" where
  "AddCost a srt dp =
     (if \<not> etxActive (ag_db a) \<or> srt_cost srt = [] then Inr (dp\<lparr>dp_costVector := []\<rparr>)
      else
        bindE (mapE (\<lambda>i. bindE (vec_at (srt_cost srt) (int i)) (\<lambda>c.
            Inr \<lparr>ec_address = srt_addrs srt ! i, ec_cost = of_nat (unat c)\<rparr>)) [0..<length (srt_addrs srt)]) (\<lambda>cs.
          Inr (dp\<lparr>dp_costVector := cs @
            [\<lparr>ec_address = srt_dst srt, ec_cost = of_nat (unat (last (srt_cost srt)))\<rparr>]\<rparr>)))"

text \<open>\<open>DSRUU::AddCostRrep\<close>: the costs up to the node itself.\<close>

definition AddCostRrep :: "agent \<Rightarrow> dsr_srt \<Rightarrow> dsr_pkt \<Rightarrow> fault + dsr_pkt" where
  "AddCostRrep a srt dp =
     (if \<not> etxActive (ag_db a) then Inr (dp\<lparr>dp_costVector := []\<rparr>)
      else
        let k = length (takeWhile (\<lambda>x. x \<noteq> myaddr a) (srt_addrs srt))
        in bindE (mapE (\<lambda>i. bindE (vec_at (srt_cost srt) (int i)) (\<lambda>c.
               Inr \<lparr>ec_address = srt_addrs srt ! i, ec_cost = of_nat (unat c)\<rparr>)) [0..<k]) (\<lambda>cs.
             let c = (if cs \<noteq> [] then getCost (ag_db a) (ec_address (last cs)) else getCost (ag_db a) (dp_src dp))
             in Inr (dp\<lparr>dp_costVector := cs @ [\<lparr>ec_address = myaddr a, ec_cost = c\<rparr>]\<rparr>)))"

text \<open>\<open>DSRUU::ActualizeMyCostRrep\<close>; a cost of a link that is not known, \<open>-1\<close>, is cast as well.\<close>

definition ActualizeMyCostRrep :: "agent \<Rightarrow> rrep_opt \<Rightarrow> fault + rrep_opt" where
  "ActualizeMyCostRrep a r =
     (if \<not> etxActive (ag_db a) \<and> rp_cost r \<noteq> [] then Inr (r\<lparr>rp_cost := []\<rparr>)
      else if length (rp_addrs r) \<noteq> length (rp_cost r) then Inr (r\<lparr>rp_cost := []\<rparr>)
      else
        let is = filter (\<lambda>i. rp_addrs r ! i = myaddr a) (rev [0..<length (rp_addrs r) - 1]);
            k = (case is of [] \<Rightarrow> 0 | i # _ \<Rightarrow> i + 1)
        in bindE (vec_at (rp_addrs r) (int k)) (\<lambda>x.
             bindE (cast_cost (getCost (ag_db a) x)) (\<lambda>c.
               bindE (vec_set (rp_cost r) (int k) c) (\<lambda>cs. Inr (r\<lparr>rp_cost := cs\<rparr>)))))"

end
