(* ===== verification/Dsr_Tables.thy ===== *)
theory Dsr_Tables
  imports Dsr_Packet
begin

text \<open>
  The tables of the agent that need no sending: the gratuitous replies given lately (\<open>dsr-rrep.cc\<close>),
  the route requests seen (\<open>dsr-rreq.cc\<close>), and the life of their entries.
\<close>

subsection \<open>Gratuitous replies\<close>

definition grat_match :: "in_addr \<Rightarrow> in_addr \<Rightarrow> grat_entry \<Rightarrow> bool" where
  "grat_match src prev_hop e \<longleftrightarrow> gr_src e = src \<and> gr_prev_hop e = prev_hop"

definition grat_rrep_tbl_find :: "in_addr \<Rightarrow> in_addr \<Rightarrow> agent \<Rightarrow> bool" where
  "grat_rrep_tbl_find src prev_hop a \<longleftrightarrow> list_ex (grat_match src prev_hop) (gratRrep a)"

text \<open>In front of the first entry that expires later; without one the entry is nowhere put.\<close>

fun grat_insert_before :: "grat_entry \<Rightarrow> grat_entry list \<Rightarrow> grat_entry list" where
  "grat_insert_before e [] = []"
| "grat_insert_before e (x # xs) =
     (if timeval_diff (gr_expires x) (gr_expires e) > 0 then e # x # xs else x # grat_insert_before e xs)"

definition grat_insert :: "grat_entry \<Rightarrow> grat_entry list \<Rightarrow> grat_entry list" where
  "grat_insert e xs =
     (if xs = [] \<or> timeval_diff (gr_expires (last xs)) (gr_expires e) < 0 then xs @ [e]
      else if timeval_diff (gr_expires (hd xs)) (gr_expires e) > 0 then e # xs
      else grat_insert_before e xs)"

definition grat_rrep_tbl_add :: "in_addr \<Rightarrow> in_addr \<Rightarrow> agent \<Rightarrow> agent" where
  "grat_rrep_tbl_add src prev_hop a =
     (if grat_rrep_tbl_find src prev_hop a then a
      else
        let e = \<lparr>gr_src = src, gr_prev_hop = prev_hop,
              gr_expires = timeval_add_usecs (dsr_gettime a) (sec_usecs (GratReplyHoldOff (ag_conf a)))\<rparr>;
            l = grat_insert e (gratRrep a)
        in a\<lparr>gratRrep := l, grat_rrep_tbl_timer := Some (set_timer (ag_time a) (gr_expires (hd l)))\<rparr>)"

text \<open>The timer: \<open>front()\<close> of an empty table would be undefined.\<close>

definition grat_rrep_tbl_timeout :: "agent \<Rightarrow> agent outcome" where
  "grat_rrep_tbl_timeout a =
     (case gratRrep a of
        [] \<Rightarrow> Some (Inl BadAccess)
      | _ # l \<Rightarrow> Some (Inr (a\<lparr>gratRrep := l, grat_rrep_tbl_timer :=
          (if l = [] then grat_rrep_tbl_timer a
           else Some (set_timer (ag_time a) (gr_expires (hd l))))\<rparr>)))"

definition grat_rrep_tbl_cleanup :: "agent \<Rightarrow> agent" where
  "grat_rrep_tbl_cleanup a = a\<lparr>gratRrep := [], grat_rrep_tbl_timer := None\<rparr>"

subsection \<open>Entries of the request table\<close>

definition MAXTTL :: int where "MAXTTL = 255"
definition TTL_START :: int where "TTL_START = 10"

definition rreq_tbl_entry_create :: rreq_entry where
  "rreq_tbl_entry_create = \<lparr>re_in_disc = False, re_ttl = 0, re_timer = None, re_last_used = timeval_zero,
     re_timeout = 0, re_num_rexmts = 0, re_ids = []\<rparr>"

definition put_rreq :: "in_addr \<Rightarrow> rreq_entry \<Rightarrow> agent \<Rightarrow> agent" where
  "put_rreq x e a = a\<lparr>dsrRreqTbl := (dsrRreqTbl a)(x \<mapsto> e)\<rparr>"

definition drop_rreq :: "in_addr \<Rightarrow> agent \<Rightarrow> agent" where
  "drop_rreq x a = a\<lparr>dsrRreqTbl := (dsrRreqTbl a)(x := None)\<rparr>"

definition rreq_tbl_add :: "in_addr \<Rightarrow> agent \<Rightarrow> fault + rreq_entry" where
  "rreq_tbl_add x a = (if dsrRreqTbl a x = None then Inr rreq_tbl_entry_create else Inl RreqTableError)"

definition find_or_add :: "in_addr \<Rightarrow> agent \<Rightarrow> fault + rreq_entry" where
  "find_or_add x a = (case dsrRreqTbl a x of Some e \<Rightarrow> Inr e | None \<Rightarrow> rreq_tbl_add x a)"

text \<open>
  \<open>rreq_tbl_add_id\<close>: the identifier is kept with the route it came by, the oldest one is given up for
  it when the table is full.  Further routes are compared with themselves (\<open>compareAddress(id_r->add,
  id_r->add)\<close>); \<open>size() >= ConfVal\<close> and the comparison of the lengths are kept as written.
\<close>

definition id_match :: "in_addr \<Rightarrow> u16 \<Rightarrow> id_entry \<Rightarrow> bool" where
  "id_match target i e \<longleftrightarrow> ie_id e = i \<and> ie_trg_addr e = target"

text \<open>The search goes on after a hit, so it is the last one that counts.\<close>

definition last_match :: "in_addr \<Rightarrow> u16 \<Rightarrow> id_entry list \<Rightarrow> nat option" where
  "last_match target i es =
     (case filter (\<lambda>k. id_match target i (es ! k)) (rev [0..<length es]) of [] \<Rightarrow> None | k # _ \<Rightarrow> Some k)"

fun another_route :: "int \<Rightarrow> id_route list \<Rightarrow> bool" where
  "another_route len [] = True"
| "another_route len (r # rs) =
     (if sint (ir_length r) < len then False
      else if ir_add r = ir_add r then False
      else another_route len rs)"

definition add_id :: "agent \<Rightarrow> in_addr \<Rightarrow> u16 \<Rightarrow> real \<Rightarrow> in_addr list \<Rightarrow> int \<Rightarrow> id_entry list \<Rightarrow> fault + id_entry list" where
  "add_id a target i cost addr len es =
     (let new = \<lparr>ir_cost = cost, ir_length = word_of_int len, ir_add = addr\<rparr> in
      case last_match target i es of
        None \<Rightarrow>
          (if unat (RequestTableIds (ag_conf a)) \<le> length es \<and> es = [] then Inl BadAccess
           else Inr ((if unat (RequestTableIds (ag_conf a)) \<le> length es then tl es else es) @
             [\<lparr>ie_trg_addr = target, ie_id = i, ie_routes = [new]\<rparr>]))
      | Some k \<Rightarrow>
          Inr (if RREQMulVisit (ag_conf a) \<noteq> 0 \<and> \<not> unat (RREQMaxVisit (ag_conf a)) \<le> length (ie_routes (es ! k))
                  \<and> another_route len (ie_routes (es ! k))
               then es[k := (es ! k)\<lparr>ie_routes := ie_routes (es ! k) @ [new]\<rparr>] else es))"

definition rreq_tbl_add_id ::
    "in_addr \<Rightarrow> in_addr \<Rightarrow> u16 \<Rightarrow> real \<Rightarrow> in_addr list \<Rightarrow> int \<Rightarrow> agent \<Rightarrow> agent outcome" where
  "rreq_tbl_add_id initiator target i cost addr len a =
     Some (bindE (find_or_add initiator a) (\<lambda>e.
       bindE (add_id a target i cost addr len (re_ids e)) (\<lambda>es.
         Inr (put_rreq initiator (e\<lparr>re_last_used := dsr_gettime a, re_ids := es\<rparr>) a))))"

text \<open>The end of a discovery deletes the entry, and with it its timer.\<close>

definition rreq_tbl_route_discovery_cancel :: "in_addr \<Rightarrow> agent \<Rightarrow> agent" where
  "rreq_tbl_route_discovery_cancel dst a = drop_rreq dst a"

definition rreq_tbl_cleanup :: "agent \<Rightarrow> agent" where
  "rreq_tbl_cleanup a = a\<lparr>dsrRreqTbl := Map.empty\<rparr>"

subsection \<open>Duplicates\<close>

text \<open>
  \<open>dsr_rreq_duplicate\<close>, the loop over the requests remembered of the initiator: whether there is a
  hit, and the entries left.  An entry of the same number whose paths leave room is looked at again
  and again, since the iterator does not advance: the loop does not end, \<open>None\<close>.
\<close>

fun dup_scan ::
    "simtime \<Rightarrow> 32 word \<Rightarrow> 32 word \<Rightarrow> in_addr list \<Rightarrow> seq_info list \<Rightarrow> (bool \<times> seq_info list) option" where
  "dup_scan now mul i addrs [] = Some (False, [])"
| "dup_scan now mul i addrs (e # es) =
     (if now - si_time e > 100 then dup_scan now mul i addrs es
      else if si_seq e \<noteq> i then map_option (map_prod id (Cons e)) (dup_scan now mul i addrs es)
      else if mul \<noteq> 0 \<and> length (si_paths e) < unat mul
      then (if addrs \<in> set (si_paths e) then Some (True, e # es) else None)
      else Some (True, e # es))"

text \<open>What the request table says of the request.\<close>

definition dup_in_table :: "agent \<Rightarrow> in_addr \<Rightarrow> in_addr \<Rightarrow> 32 word \<Rightarrow> 32 word \<Rightarrow> in_addr list \<Rightarrow> bool" where
  "dup_in_table a initiator target i len addrs =
     (case dsrRreqTbl a initiator of
        None \<Rightarrow> False
      | Some e \<Rightarrow>
          list_ex (\<lambda>d. ie_trg_addr d = target \<and> ucast (ie_id d) = i \<and>
            (RREQMulVisit (ag_conf a) = 0 \<or>
             list_ex (\<lambda>r. ir_length r < len \<or> ir_add r = addrs) (ie_routes d))) (re_ids e))"

definition dsr_rreq_duplicate ::
    "in_addr \<Rightarrow> in_addr \<Rightarrow> 32 word \<Rightarrow> 32 word \<Rightarrow> in_addr list \<Rightarrow> agent \<Rightarrow> (bool \<times> agent) outcome" where
  "dsr_rreq_duplicate initiator target i len addrs a =
     (let new = \<lparr>si_seq = i, si_time = ag_time a, si_paths = [addrs]\<rparr>;
          es = (case rreqInfoMap a initiator of None \<Rightarrow> [] | Some es \<Rightarrow> es)
      in map_option (\<lambda>(hit, es').
           if hit then Inr (True, a\<lparr>rreqInfoMap := (rreqInfoMap a)(initiator \<mapsto> es')\<rparr>)
           else
             let a1 = a\<lparr>rreqInfoMap := (rreqInfoMap a)(initiator \<mapsto> es' @ [new])\<rparr>
             in Inr (dup_in_table a1 initiator target i len addrs, a1))
        (dup_scan (ag_time a) (RREQMulVisit (ag_conf a)) i addrs es))"

end
