(* ===== verification/Dsr_Neigh.thy ===== *)
theory Dsr_Neigh
  imports Dsr_State
begin

text \<open>
  The neighbour table, \<open>neigh.cc\<close>: who was heard, the identifier of the next acknowledgment request,
  and the round-trip estimate.  The estimate is kept in unsigned 64-bit numbers, the correction
  \<open>delta\<close> in a 32-bit signed one.
\<close>

definition DSR_SRTTBASE :: usecs_t where "DSR_SRTTBASE = 0"
definition DSR_SRTTDFLT :: usecs_t where "DSR_SRTTDFLT = 60"
definition DSR_MIN :: usecs_t where "DSR_MIN = 20"
definition DSR_REXMTMAX :: usecs_t where "DSR_REXMTMAX = 1280"
definition DSR_RTTDFLT :: usecs_t where "DSR_RTTDFLT = 30"
definition PR_SLOWHZ :: usecs_t where "PR_SLOWHZ = 2"

lemmas neigh_consts = DSR_SRTTBASE_def DSR_SRTTDFLT_def DSR_MIN_def DSR_REXMTMAX_def DSR_RTTDFLT_def
  PR_SLOWHZ_def

definition DSR_RANGESET :: "usecs_t \<Rightarrow> usecs_t \<Rightarrow> usecs_t \<Rightarrow> usecs_t" where
  "DSR_RANGESET v lo hi = (if v < lo then lo else if v > hi then hi else v)"

definition DSR_REXMTVAL :: "usecs_t \<Rightarrow> usecs_t" where
  "DSR_REXMTVAL v = drop_bit 3 v + v"

definition neigh_tbl_create :: "48 word \<Rightarrow> u16 \<Rightarrow> neighbor" where
  "neigh_tbl_create hw i =
     \<lparr>nb_hw_addr = hw, nb_id = i, nb_last_ack_req = timeval_zero, t_srtt = DSR_SRTTBASE,
      t_rxtcur = DSR_RANGESET (drop_bit 1 (drop_bit 2 DSR_SRTTBASE + push_bit 2 DSR_SRTTDFLT)) DSR_MIN DSR_REXMTMAX,
      t_rttmin = DSR_MIN, t_rttvar = push_bit 2 (DSR_RTTDFLT * PR_SLOWHZ)\<rparr>"

definition neigh_tbl_add :: "in_addr \<Rightarrow> 48 word \<Rightarrow> agent \<Rightarrow> agent" where
  "neigh_tbl_add addr hw a =
     (case neighborMap a addr of
        Some _ \<Rightarrow> a
      | None \<Rightarrow> a\<lparr>neighborMap := (neighborMap a)(addr \<mapsto> neigh_tbl_create hw 1)\<rparr>)"

definition neigh_tbl_del :: "in_addr \<Rightarrow> agent \<Rightarrow> agent" where
  "neigh_tbl_del addr a = a\<lparr>neighborMap := (neighborMap a)(addr := None)\<rparr>"

definition neigh_update :: "in_addr \<Rightarrow> (neighbor \<Rightarrow> neighbor) \<Rightarrow> agent \<Rightarrow> agent" where
  "neigh_update addr f a =
     (case neighborMap a addr of
        None \<Rightarrow> a
      | Some n \<Rightarrow> a\<lparr>neighborMap := (neighborMap a)(addr \<mapsto> f n)\<rparr>)"

definition neigh_tbl_set_ack_req_time :: "in_addr \<Rightarrow> agent \<Rightarrow> agent" where
  "neigh_tbl_set_ack_req_time addr a = neigh_update addr (\<lambda>n. n\<lparr>nb_last_ack_req := dsr_gettime a\<rparr>) a"

definition neigh_tbl_id_inc :: "in_addr \<Rightarrow> agent \<Rightarrow> agent" where
  "neigh_tbl_id_inc addr a = neigh_update addr (\<lambda>n. n\<lparr>nb_id := nb_id n + 1\<rparr>) a"

text \<open>The smoothed estimate: \<open>x += delta\<close>, and \<open>1\<close> when that is \<open>0\<close> (an unsigned number is never less).\<close>

definition plus_delta :: "usecs_t \<Rightarrow> 32 word \<Rightarrow> usecs_t" where
  "plus_delta x delta = (if x + scast delta = 0 then 1 else x + scast delta)"

definition rtt_sample :: "usecs_t \<Rightarrow> neighbor \<Rightarrow> neighbor" where
  "rtt_sample rtt n =
     (let n' = (if t_srtt n \<noteq> 0
          then
            let delta = ucast (rtt - 1 - drop_bit 3 (t_srtt n)) :: 32 word;
                srtt = plus_delta (t_srtt n) delta;
                delta' = (if sint delta < 0 then - delta else delta);
                delta'' = ucast (scast delta' - drop_bit 2 (t_rttvar n)) :: 32 word
            in n\<lparr>t_srtt := srtt, t_rttvar := plus_delta (t_rttvar n) delta''\<rparr>
          else n\<lparr>t_srtt := push_bit 3 rtt, t_rttvar := push_bit 1 rtt\<rparr>)
      in n'\<lparr>t_rxtcur := DSR_RANGESET (DSR_REXMTVAL (t_srtt n')) (t_rttmin n') DSR_REXMTMAX\<rparr>)"

definition neigh_tbl_set_rto :: "in_addr \<Rightarrow> usecs_t \<Rightarrow> agent \<Rightarrow> agent" where
  "neigh_tbl_set_rto addr rtt a = neigh_update addr (rtt_sample rtt) a"

text \<open>The retransmission time-out in microseconds, of \<open>neigh_tbl_query\<close>.\<close>

definition neigh_rto :: "neighbor \<Rightarrow> usecs_t" where
  "neigh_rto n = t_rxtcur n * 1000 div PR_SLOWHZ"

definition neigh_tbl_query :: "in_addr \<Rightarrow> agent \<Rightarrow> (u16 \<times> timeval \<times> usecs_t) option" where
  "neigh_tbl_query addr a = map_option (\<lambda>n. (nb_id n, nb_last_ack_req n, neigh_rto n)) (neighborMap a addr)"

definition neigh_tbl_cleanup :: "agent \<Rightarrow> agent" where
  "neigh_tbl_cleanup a = a\<lparr>neighborMap := Map.empty\<rparr>"

subsection \<open>The time-out is bounded\<close>

text \<open>Every entry of the table has the default minimum and a current value in range.\<close>

definition neighbor_ok :: "neighbor \<Rightarrow> bool" where
  "neighbor_ok n \<longleftrightarrow> t_rttmin n = DSR_MIN \<and> DSR_MIN \<le> t_rxtcur n \<and> t_rxtcur n \<le> DSR_REXMTMAX"

definition neighbors_ok :: "agent \<Rightarrow> bool" where
  "neighbors_ok a \<longleftrightarrow> (\<forall>x n. neighborMap a x = Some n \<longrightarrow> neighbor_ok n)"

lemma rangeset_bounds: "lo \<le> hi \<Longrightarrow> lo \<le> DSR_RANGESET v lo hi \<and> DSR_RANGESET v lo hi \<le> hi"
  by (auto simp: DSR_RANGESET_def)

lemma neigh_rto_bounds:
  assumes "neighbor_ok m" shows "10000 \<le> neigh_rto m \<and> neigh_rto m \<le> 640000"
proof -
  have "20 \<le> unat (t_rxtcur m)" "unat (t_rxtcur m) \<le> 1280"
    using assms by (simp_all add: neighbor_ok_def neigh_consts word_le_nat_alt)
  moreover from this have "unat (t_rxtcur m) * unat (1000 :: usecs_t) < 2 ^ LENGTH(64)" by simp
  then have "unat (t_rxtcur m * 1000) = unat (t_rxtcur m) * 1000" by (simp only: unat_mult_lem) simp
  ultimately show ?thesis by (simp add: neigh_rto_def word_le_nat_alt unat_div PR_SLOWHZ_def)
qed

lemma neigh_query_bounds:
  "neighbors_ok a \<Longrightarrow> neigh_tbl_query x a = Some (i, t, r) \<Longrightarrow> 10000 \<le> r \<and> r \<le> 640000"
  using neigh_rto_bounds by (auto simp: neigh_tbl_query_def neighbors_ok_def)

lemma neighbor_ok_create: "neighbor_ok (neigh_tbl_create hw i)"
  by (simp add: neighbor_ok_def neigh_tbl_create_def neigh_consts DSR_RANGESET_def)

lemma rttmin_sample: "t_rttmin (rtt_sample rtt n) = t_rttmin n"
  by (simp add: rtt_sample_def Let_def)

lemma rxtcur_sample:
  "t_rxtcur (rtt_sample rtt n) = DSR_RANGESET (DSR_REXMTVAL (t_srtt (rtt_sample rtt n))) (t_rttmin n) DSR_REXMTMAX"
  by (simp add: rtt_sample_def Let_def)

lemma neighbor_ok_sample: "neighbor_ok n \<Longrightarrow> neighbor_ok (rtt_sample rtt n)"
  unfolding neighbor_ok_def rttmin_sample rxtcur_sample
  using rangeset_bounds [of DSR_MIN DSR_REXMTMAX] by (simp add: neigh_consts)

lemma neighbors_ok_update:
  "neighbors_ok a \<Longrightarrow> (\<And>n. neighbor_ok n \<Longrightarrow> neighbor_ok (f n)) \<Longrightarrow> neighbors_ok (neigh_update x f a)"
  by (auto simp: neighbors_ok_def neigh_update_def split: option.split)

lemma neighbors_ok_ops [intro]:
  assumes "neighbors_ok a"
  shows "neighbors_ok (neigh_tbl_add x hw a)" "neighbors_ok (neigh_tbl_del x a)"
    "neighbors_ok (neigh_tbl_set_ack_req_time x a)" "neighbors_ok (neigh_tbl_id_inc x a)"
    "neighbors_ok (neigh_tbl_set_rto x rtt a)" "neighbors_ok (neigh_tbl_cleanup a)"
  using assms
  by (auto simp: neigh_tbl_set_ack_req_time_def neigh_tbl_id_inc_def neigh_tbl_set_rto_def neighbor_ok_sample
      intro!: neighbors_ok_update)
    (auto simp: neighbors_ok_def neighbor_ok_def neigh_tbl_add_def neigh_tbl_del_def neigh_tbl_cleanup_def
      neighbor_ok_create [unfolded neighbor_ok_def] split: option.splits if_splits)

end
