(* ===== verification/Dsr_Send.thy ===== *)
theory Dsr_Send
  imports Dsr_Tables Dsr_Neigh
begin

text \<open>
  What the agent sends: transmission (\<open>omnet_xmit\<close>), route requests, replies and errors,
  acknowledgments and their requests, packets with a source route, the send buffer
  (\<open>send-buf.cc\<close>) and the maintenance buffer (\<open>maint-buf.cc\<close>).
\<close>

subsection \<open>Transmission\<close>

definition drop_payload :: "payload option \<Rightarrow> agent \<Rightarrow> agent" where
  "drop_payload p a = (case p of None \<Rightarrow> a | Some x \<Rightarrow> dsr_emit (Dropped (pl_id x)) a)"

text \<open>\<open>omnet_xmit\<close> without its first line; a jitter that is drawn as 0 counts as none and is not told apart.\<close>

definition xmit_now :: "dsr_pkt \<Rightarrow> agent \<Rightarrow> agent outcome" where
  "xmit_now dp a = Some (bindE (dsr_datagram (myaddr a) dp) (\<lambda>g.
     if dg_ttl g = 0 then Inr (drop_payload (dg_payload g) a)
     else Inr (dsr_emit (Sent g
       (if has_flag dp PKT_XMIT_JITTER \<and> BroadcastJitter (ag_conf a) \<noteq> 0 then Jitter (BroadcastJitter (ag_conf a))
        else if dp_dst dp \<noteq> DSR_BROADCAST then UnicastDelay else BroadcastDelay)) a)))"

definition set_flag :: "u8 \<Rightarrow> dsr_pkt \<Rightarrow> dsr_pkt" where
  "set_flag f dp = dp\<lparr>dp_flags := dp_flags dp OR f\<rparr>"

text \<open>A header of \<open>len\<close> bytes without next header, in front of the options of a packet of the agent.\<close>

definition with_opt_hdr :: "nat \<Rightarrow> u8 \<Rightarrow> dsr_pkt \<Rightarrow> dsr_pkt" where
  "with_opt_hdr len prot dp =
     first_p_len (len - DSR_OPT_HDR_LEN) (last_hdr (\<lambda>h. dsr_opt_hdr_add h len prot) dp)"

text \<open>An option behind those of the last header.\<close>

definition push_opt :: "dsr_opt \<Rightarrow> dsr_pkt \<Rightarrow> dsr_pkt" where
  "push_opt x = last_hdr (\<lambda>h. h\<lparr>oh_option := oh_option h @ [x]\<rparr>)"

subsection \<open>Packets of the protocol\<close>

text \<open>\<open>dsr_rreq_send\<close>\<close>

definition rreq_packet :: "in_addr \<Rightarrow> in_addr \<Rightarrow> 32 word \<Rightarrow> u8 \<Rightarrow> dsr_pkt" where
  "rreq_packet me target seqno ttl =
     (let len = DSR_OPT_HDR_LEN + DSR_RREQ_HDR_LEN;
          dp = dsr_pkt_alloc_opts (empty_pkt\<lparr>dp_dst := DSR_BROADCAST, dp_nxt_hop := DSR_BROADCAST, dp_src := me\<rparr>);
          dp1 = push_opt (RreqOpt \<lparr>rq_length = 6, rq_id = ucast seqno, rq_target = target, rq_addrs = []\<rparr>)
            (with_opt_hdr len 0 (dsr_build_ip dp me DSR_BROADCAST IPPROTO_DSR ttl))
      in set_flag PKT_XMIT_JITTER (dp1\<lparr>dp_rreq_opt := [last_opt dp1]\<rparr>))"

definition dsr_rreq_send :: "in_addr \<Rightarrow> int \<Rightarrow> agent \<Rightarrow> agent outcome" where
  "dsr_rreq_send target ttl a =
     (let a1 = a\<lparr>rreq_seqno := rreq_seqno a + 1\<rparr>
      in xmit_now (rreq_packet (myaddr a) target (rreq_seqno a1) (word_of_int ttl)) a1)"

text \<open>
  \<open>dsr_rrep_send\<close>: the reply goes back along \<open>srt\<close> and carries \<open>srt_to_me\<close>.  The length computed for the
  header always has room for both options.
\<close>

definition rrep_packet :: "in_addr \<Rightarrow> dsr_srt \<Rightarrow> dsr_srt \<Rightarrow> fault + dsr_pkt" where
  "rrep_packet me srt srt_to_me =
     bindE (if srt_laddrs srt = 0 then Inr (srt_dst srt) else vec_at (srt_addrs srt) 0) (\<lambda>nxt.
       let len = DSR_OPT_HDR_LEN + DSR_SRT_OPT_LEN srt + DSR_RREP_OPT_LEN srt_to_me;
           dp = dsr_pkt_alloc_opts (empty_pkt\<lparr>dp_src := me, dp_dst := srt_dst srt, dp_nxt_hop := nxt\<rparr>);
           dp1 = with_opt_hdr len 0 (dsr_build_ip dp me (srt_dst srt) IPPROTO_DSR (of_nat (srt_n srt + 1)));
           dp2 = push_opt (SrtOpt (srt_option (dp_salvage dp1) srt)) dp1;
           dp3 = push_opt (RrepOpt (rrep_option srt_to_me)) (dp2\<lparr>dp_srt_opt := Some (last_opt dp2)\<rparr>)
       in Inr (set_flag PKT_XMIT_JITTER (dp3\<lparr>dp_rrep_opt := [last_opt dp3]\<rparr>)))"

definition dsr_rrep_send :: "dsr_srt \<Rightarrow> dsr_srt \<Rightarrow> agent \<Rightarrow> agent outcome" where
  "dsr_rrep_send srt srt_to_me a =
     bindO (Some (bindE (rrep_packet (myaddr a) srt srt_to_me) (AddCostRrep a srt_to_me))) (\<lambda>dp. xmit_now dp a)"

text \<open>
  The sizes of the acknowledgment options are those of C++ objects, on a 64-bit target: the pointer to
  the virtual table and the padding are counted.
\<close>

definition DSR_ACK_HDR_LEN :: nat where "DSR_ACK_HDR_LEN = 24"
definition DSR_ACK_REQ_HDR_LEN :: nat where "DSR_ACK_REQ_HDR_LEN = 16"
definition DSR_RERR_HDR_LEN :: nat where "DSR_RERR_HDR_LEN = 12"

text \<open>\<open>dsr_ack_send\<close>; \<open>dsr_opt_hdr_add\<close> alone sets the length here.\<close>

definition ack_packet :: "in_addr \<Rightarrow> in_addr \<Rightarrow> u16 \<Rightarrow> dsr_pkt" where
  "ack_packet me dst i =
     (let len = DSR_OPT_HDR_LEN + DSR_ACK_HDR_LEN;
          dp = dsr_pkt_alloc_opts (empty_pkt\<lparr>dp_dst := dst, dp_nxt_hop := dst, dp_src := me\<rparr>)
      in set_flag PKT_XMIT_JITTER (push_opt (AckOpt \<lparr>ao_id = i, ao_src = me, ao_dst = dst\<rparr>)
           (last_hdr (\<lambda>h. dsr_opt_hdr_add h len 0) (dsr_build_ip dp me dst IPPROTO_DSR IPDEFTTL))))"

definition dsr_ack_send :: "in_addr \<Rightarrow> u16 \<Rightarrow> agent \<Rightarrow> agent outcome" where
  "dsr_ack_send dst i a = xmit_now (ack_packet (myaddr a) dst i) a"

text \<open>\<open>dsr_ack_req_send(neigh_addr, id)\<close>\<close>

definition ack_req_packet :: "in_addr \<Rightarrow> in_addr \<Rightarrow> u16 \<Rightarrow> dsr_pkt" where
  "ack_req_packet me dst i =
     (let len = DSR_OPT_HDR_LEN + DSR_ACK_REQ_HDR_LEN;
          dp = dsr_pkt_alloc_opts (empty_pkt\<lparr>dp_dst := dst, dp_nxt_hop := dst, dp_src := me\<rparr>)
      in push_opt (AckReqOpt \<lparr>ar_id = i\<rparr>) (with_opt_hdr len 0 (dsr_build_ip dp me dst IPPROTO_DSR 1)))"

definition dsr_ack_req_send :: "in_addr \<Rightarrow> u16 \<Rightarrow> agent \<Rightarrow> agent outcome" where
  "dsr_ack_req_send dst i a = xmit_now (ack_req_packet (myaddr a) dst i) a"

text \<open>
  \<open>dsr_ack_req_send(dp)\<close>: the kept packet once more, as a new datagram without costs; a packet that
  has no DSR header stops the simulation.
\<close>

definition dsr_ack_req_send_pkt :: "dsr_pkt \<Rightarrow> agent \<Rightarrow> agent outcome" where
  "dsr_ack_req_send_pkt dp a =
     (if dp_payload dp = None then Some (Inr a)
      else case dp_iph dp of None \<Rightarrow> Some (Inl BadAccess) | Some h \<Rightarrow>
        if ip_protocol h \<noteq> IPPROTO_DSR then Some (Inl NotDsrPacket)
        else if dp_opth dp = [] then Some (Inl BadAccess)
        else if ip_ttl h = 0 then Some (Inr (drop_payload (dp_payload dp) a))
        else Some (Inr (dsr_emit (Sent
          \<lparr>dg_src = dp_src dp, dg_dst = dp_dst dp, dg_ttl = ip_ttl h, dg_tos = ip_tos h, dg_id = ip_id h,
           dg_more_fragments = ((ucast (ip_tos h) :: u16) AND 0x2000 \<noteq> 0),
           dg_dont_fragment = (ip_frag_off h AND 0x4000 \<noteq> 0), dg_fragmentOffset = 0,
           dg_protocol = IPPROTO_DSR, dg_payload = dp_payload dp, dg_h_source = 0, dg_is_dsr = True,
           dg_opts = dp_opth dp, dg_encap = dp_encapsulate_protocol dp, dg_prev = myaddr a,
           dg_next = (if dp_dst dp \<noteq> DSR_BROADCAST then dp_nxt_hop dp else 0), dg_cost = []\<rparr>
          (if has_flag dp PKT_XMIT_JITTER \<and> BroadcastJitter (ag_conf a) \<noteq> 0 then Jitter (BroadcastJitter (ag_conf a))
           else if dp_dst dp \<noteq> DSR_BROADCAST then UnicastDelay else BroadcastDelay)) a)))"

text \<open>
  \<open>dsr_ack_req_opt_add\<close>: next to a request that is there already another one is put; the comment says it
  would be overwritten.
\<close>

definition is_ack_req :: "dsr_opt \<Rightarrow> bool" where
  "is_ack_req x = (case x of AckReqOpt _ \<Rightarrow> True | _ \<Rightarrow> False)"

definition dsr_ack_req_opt_add :: "u16 \<Rightarrow> dsr_pkt \<Rightarrow> dsr_pkt" where
  "dsr_ack_req_opt_add i dp =
     (let req = AckReqOpt \<lparr>ar_id = i\<rparr>;
          ttl = (case dp_iph dp of None \<Rightarrow> IPDEFTTL | Some h \<Rightarrow> ip_ttl h);
          prot = (case dp_iph dp of None \<Rightarrow> 0 | Some h \<Rightarrow> ip_protocol h)
      in case List.find (\<lambda>k. list_ex is_ack_req (oh_option (dp_opth dp ! k))) [0..<length (dp_opth dp)] of
           Some k \<Rightarrow> dp\<lparr>dp_opth := (dp_opth dp)[k := (dp_opth dp ! k)\<lparr>oh_option := oh_option (dp_opth dp ! k) @ [req]\<rparr>]\<rparr>
         | None \<Rightarrow>
             if dp_opth dp = []
             then push_opt req (last_hdr (\<lambda>h. dsr_opt_hdr_add h (DSR_OPT_HDR_LEN + DSR_ACK_REQ_HDR_LEN) prot)
                    (dsr_build_ip (dsr_pkt_alloc_opts dp) (dp_src dp) (dp_dst dp) IPPROTO_DSR ttl))
             else push_opt req (last_hdr (\<lambda>h. dsr_opt_hdr_add h
                      (DSR_OPT_HDR_LEN + unat (oh_p_len (hd (dp_opth dp))) + DSR_ACK_REQ_HDR_LEN) (oh_nh (hd (dp_opth dp))))
                    (dsr_build_ip dp (dp_src dp) (dp_dst dp) IPPROTO_DSR ttl)))"

subsection \<open>Route errors\<close>

text \<open>The errors of the triggering packet are passed on, up to the first that was salvaged too often.\<close>

definition NODE_UNREACHABLE :: u8 where "NODE_UNREACHABLE = 1"

definition passed_errors :: "agent \<Rightarrow> dsr_pkt \<Rightarrow> dsr_opt list" where
  "passed_errors a trig =
     takeWhile (\<lambda>x. case x of RerrOpt r \<Rightarrow> \<not> unat (re_salv r) > unat (MAX_SALVAGE_COUNT (ag_conf a)) | _ \<Rightarrow> False)
       (List.map_filter (opt_at trig) (dp_rerr_opt trig))"

definition rerr_packet :: "agent \<Rightarrow> dsr_pkt \<Rightarrow> in_addr \<Rightarrow> srt_opt \<Rightarrow> in_addr \<Rightarrow> dsr_srt \<Rightarrow> fault + dsr_pkt" where
  "rerr_packet a trig unr so dst srt =
     bindE (dsr_srt_next_hop srt (int (srt_n srt))) (\<lambda>nxt.
       let me = myaddr a;
           errs = passed_errors a trig; acks = List.map_filter (opt_at trig) (dp_ack_opt trig);
           len = DSR_OPT_HDR_LEN + DSR_SRT_OPT_LEN srt + (DSR_RERR_HDR_LEN + 4)
             + DSR_ACK_HDR_LEN * length (dp_ack_opt trig)
             + sum_list (map (\<lambda>x. case x of RerrOpt r \<Rightarrow> unat (re_length r) + 2 | _ \<Rightarrow> 0) errs);
           dp = dsr_build_ip (empty_pkt\<lparr>dp_srt := Some srt, dp_src := me, dp_dst := dst, dp_nxt_hop := nxt\<rparr>)
             me dst IPPROTO_DSR IPDEFTTL;
           dp1 = with_opt_hdr len 0 (dsr_pkt_alloc_opts dp);
           dp2 = push_opt (SrtOpt (srt_option 0 srt)) dp1;
           err = RerrOpt \<lparr>re_length = 14, re_type = NODE_UNREACHABLE, re_salv = so_salv so, re_src = me,
             re_dst = dst, re_info = unr\<rparr>
       in Inr (foldl (\<lambda>p x. push_opt x p) (push_opt err (dp2\<lparr>dp_srt_opt := Some (last_opt dp2)\<rparr>)) (errs @ acks)))"

definition dsr_rerr_send :: "dsr_pkt \<Rightarrow> in_addr \<Rightarrow> agent \<Rightarrow> agent outcome" where
  "dsr_rerr_send trig unr a =
     (if dp_src trig = myaddr a then Some (Inr a)
      else case srt_opt_of trig of
        None \<Rightarrow> Some (Inr a)
      | Some so \<Rightarrow>
          bindO (Some (if so_salv so = 0 then Inr (dp_src trig) else vec_at (so_addrs so) 1)) (\<lambda>dst.
            bindO (dsr_rtc_find (myaddr a) dst a) (\<lambda>(r, a1). case r of
              None \<Rightarrow> Some (Inr a1)
            | Some srt \<Rightarrow> bindO (Some (rerr_packet a1 trig unr so dst srt)) (\<lambda>dp. xmit_now dp a1))))"

subsection \<open>Packets with a source route\<close>

text \<open>\<open>dsr_srt_add\<close>\<close>

definition dsr_srt_add :: "dsr_srt \<Rightarrow> dsr_pkt \<Rightarrow> fault + dsr_pkt" where
  "dsr_srt_add srt dp =
     bindE (dsr_srt_next_hop srt (int (srt_n srt))) (\<lambda>nxt.
       case dp_iph dp of None \<Rightarrow> Inl BadAccess | Some h \<Rightarrow>
         let len = DSR_OPT_HDR_LEN + DSR_SRT_OPT_LEN srt;
             dp1 = dsr_build_ip (dsr_pkt_alloc_opts (dp\<lparr>dp_nxt_hop := nxt\<rparr>)) (dp_src dp) (dp_dst dp) IPPROTO_DSR (ip_ttl h);
             dp2 = push_opt (SrtOpt (srt_option (dp_salvage dp) srt)) (with_opt_hdr len (ip_protocol h) dp1)
         in Inr (dp2\<lparr>dp_srt_opt := Some (last_opt dp2)\<rparr>))"

end
