(* ===== verification/Dsr_Maint.thy ===== *)
theory Dsr_Maint
  imports Dsr_Send
begin

text \<open>
  The maintenance buffer, \<open>maint-buf.cc\<close>, with \<open>omnet_xmit\<close> whole: sending a packet that asks for an
  acknowledgment keeps a copy of it, which may run the timer of the buffer, which may send again.  The
  functions that call each other in this way take fuel.  The timer's loop over the packets of a lost
  neighbour keeps an iterator to the entry after the present one; the model follows it by the entry's
  key, and an entry that has meanwhile been erased makes it invalid.
\<close>

subsection \<open>The buffer\<close>

text \<open>\<open>std::multimap\<close>: an entry goes behind those with the same or a smaller key.\<close>

fun mm_insert :: "'k::linorder \<Rightarrow> 'v \<Rightarrow> ('k \<times> 'v) list \<Rightarrow> ('k \<times> 'v) list" where
  "mm_insert k v [] = [(k, v)]"
| "mm_insert k v ((k', v') # r) = (if k < k' then (k, v) # (k', v') # r else (k', v') # mm_insert k v r)"

text \<open>\<open>maint_insert\<close>: a full buffer gives up its first entry, the one that expires first.\<close>

definition maint_insert :: "maint_entry \<Rightarrow> agent \<Rightarrow> agent outcome" where
  "maint_insert m a =
     (if MaxMaintBuff a \<le> length (maint_buf a)
      then (case maint_buf a of
              [] \<Rightarrow> Some (Inl BadAccess)
            | (_, old) # r \<Rightarrow>
                Some (Inr (drop_payload (dp_payload (mt_dp old)) (a\<lparr>maint_buf := mm_insert (mt_expires m) m r\<rparr>))))
      else Some (Inr (a\<lparr>maint_buf := mm_insert (mt_expires m) m (maint_buf a)\<rparr>)))"

definition maint_entry_create :: "dsr_pkt \<Rightarrow> u16 \<Rightarrow> usecs_t \<Rightarrow> agent \<Rightarrow> maint_entry option" where
  "maint_entry_create dp i rto a =
     (if dp_payload dp \<noteq> None \<or> \<not> dp_moreFragments dp \<or> dp_fragmentOffset dp \<noteq> 0
      then Some \<lparr>mt_key = ag_key a, mt_nxt_hop = dp_nxt_hop dp, mt_rexmt = 0, mt_id = i,
        mt_tx_time = ag_time a, mt_expires = ag_time a + wide_usecs rto, mt_rto = rto,
        mt_ack_req_sent = False, mt_dp = (pkt_dup dp)\<lparr>dp_nxt_hop := dp_nxt_hop dp\<rparr>\<rparr>
      else None)"

definition maint_update :: "nat \<Rightarrow> (maint_entry \<Rightarrow> maint_entry) \<Rightarrow> agent \<Rightarrow> agent" where
  "maint_update key f a = a\<lparr>maint_buf := map (\<lambda>(t, m). (t, if mt_key m = key then f m else m)) (maint_buf a)\<rparr>"

text \<open>The entry behind the one with a key.\<close>

fun key_after :: "nat \<Rightarrow> (simtime \<times> maint_entry) list \<Rightarrow> nat option" where
  "key_after k [] = None"
| "key_after k ((_, m) # r) =
     (if mt_key m = k then (case r of [] \<Rightarrow> None | (_, m') # _ \<Rightarrow> Some (mt_key m')) else key_after k r)"

definition entry_of :: "nat \<Rightarrow> agent \<Rightarrow> maint_entry option" where
  "entry_of k a = List.find (\<lambda>m. mt_key m = k) (map snd (maint_buf a))"

definition maint_erase :: "nat \<Rightarrow> agent \<Rightarrow> agent" where
  "maint_erase k a = a\<lparr>maint_buf := filter (\<lambda>(_, m). mt_key m \<noteq> k) (maint_buf a)\<rparr>"

subsection \<open>A new route for a packet that could not be sent\<close>

text \<open>
  The source route of \<open>maint_buf_salvage\<close>: the way of the packet to this node joined with the other
  route.  \<open>addrs[0]\<close> is read whenever the first test fails, also when there is no address.
\<close>

definition salvage_route :: "in_addr \<Rightarrow> dsr_pkt \<Rightarrow> srt_opt \<Rightarrow> dsr_srt \<Rightarrow> fault + (dsr_srt \<times> int) option" where
  "salvage_route me dp so alt =
     bindE (dsr_srt_new (dp_src dp) (dp_dst dp) (ucast (so_length so) - 2) (so_addrs so) (dp_costVector dp)) (\<lambda>old.
       bindE (if srt_addrs old = [] \<and> srt_dst old = dp_nxt_hop dp then Inr True
              else bindE (vec_at (srt_addrs old) 0) (\<lambda>x. Inr (x = dp_nxt_hop dp))) (\<lambda>mine.
         if mine then Inr (Some (alt, int (length (srt_addrs alt))))
         else bindE (dsr_srt_new_split old me) (\<lambda>r. case r of
             None \<Rightarrow> Inr None
           | Some to_me \<Rightarrow> bindE (dsr_srt_concatenate to_me alt) (\<lambda>srt.
               Inr (Some (srt, int (length (srt_addrs srt)) - int (length (srt_addrs to_me)) - 1))))))"

text \<open>The packet with the new route written over the old one.\<close>

definition salvaged :: "dsr_pkt \<Rightarrow> opt_ptr \<Rightarrow> srt_opt \<Rightarrow> dsr_srt \<Rightarrow> int \<Rightarrow> fault + dsr_pkt" where
  "salvaged dp p so srt sleft =
     (let so' = (srt_option (unat (so_salv so) + 1) srt)\<lparr>so_sleft := word_of_int sleft\<rparr>;
          dp1 = set_opt p (SrtOpt so') dp;
          old_len = uint (so_length so) + 2; new_len = int (DSR_SRT_OPT_LEN srt);
          dp2 = (if old_len = new_len then dp1
            else dp1\<lparr>dp_opth := (case dp_opth dp1 of [] \<Rightarrow> []
                | h # hs \<Rightarrow> h\<lparr>oh_p_len := word_of_int (uint (oh_p_len h) - old_len + new_len)\<rparr> # hs)\<rparr>)
      in bindE (dsr_srt_next_hop srt (uint (so_sleft so'))) (\<lambda>nxt.
           Inr (dp2\<lparr>dp_nxt_hop := nxt, dp_srt := Some srt, dp_costVector := []\<rparr>)))"

text \<open>\<open>maint_buf_salvage\<close> up to the transmission: the packet to send, if it can be saved.\<close>

definition salvage_packet :: "dsr_pkt \<Rightarrow> agent \<Rightarrow> (dsr_pkt option \<times> agent) outcome" where
  "salvage_packet dp a =
     bindO (dsr_rtc_find (myaddr a) (dp_dst dp) a) (\<lambda>(r, a1).
       case (r, dp_srt_opt dp, srt_opt_of dp) of
         (Some alt, Some p, Some so) \<Rightarrow>
           Some (bindE (salvage_route (myaddr a) dp so alt) (\<lambda>sr. case sr of
               None \<Rightarrow> Inr (None, a1)
             | Some (srt, sleft) \<Rightarrow>
                 bindE (dsr_srt_check_duplicate srt) (\<lambda>dup.
                   if dup then Inr (None, a1)
                   else bindE (salvaged dp p so srt sleft) (\<lambda>dp'. Inr (Some dp', a1)))))
       | _ \<Rightarrow> Some (Inr (None, a1)))"

subsection \<open>The functions that call each other\<close>

fun omnet_xmit :: "nat \<Rightarrow> dsr_pkt \<Rightarrow> agent \<Rightarrow> agent outcome"
and maint_buf_add :: "nat \<Rightarrow> dsr_pkt \<Rightarrow> agent \<Rightarrow> (dsr_pkt \<times> agent) outcome"
and maint_buf_set_timeout :: "nat \<Rightarrow> agent \<Rightarrow> agent outcome"
and maint_buf_timeout :: "nat \<Rightarrow> agent \<Rightarrow> agent outcome"
and maint_buf_salvage :: "nat \<Rightarrow> dsr_pkt \<Rightarrow> agent \<Rightarrow> agent outcome"
and salvage_others :: "nat \<Rightarrow> in_addr \<Rightarrow> nat option \<Rightarrow> agent \<Rightarrow> agent outcome"
where
  "omnet_xmit 0 dp a = None"
| "omnet_xmit (Suc n) dp a =
     (if has_flag dp PKT_REQUEST_ACK
      then bindO (maint_buf_add n dp a) (\<lambda>(dp', a'). xmit_now dp' a')
      else xmit_now dp a)"
| "maint_buf_add 0 dp a = None"
| "maint_buf_add (Suc n) dp a =
     (if \<not> has_flag dp PKT_REQUEST_ACK then Some (Inr (dp, a))
      else case neigh_tbl_query (dp_nxt_hop dp) a of
        None \<Rightarrow> Some (Inr (dp, a))
      | Some (i, asked, rto) \<Rightarrow>
          (case maint_entry_create dp i rto a of
             None \<Rightarrow> Some (Inr (dp, a))
           | Some m \<Rightarrow>
               bindO (maint_insert m (a\<lparr>ag_key := ag_key a + 1\<rparr>)) (\<lambda>a1.
                 let ask = (word_of_int (timeval_diff (dsr_gettime a) asked) > msec_usecs (MaintHoldoffTime (ag_conf a)));
                     a2 = (if ask then neigh_tbl_id_inc (mt_nxt_hop m) (neigh_tbl_set_ack_req_time (mt_nxt_hop m)
                             (maint_update (mt_key m) (\<lambda>m. m\<lparr>mt_ack_req_sent := True\<rparr>) a1)) else a1);
                     dp' = (if ask then dsr_ack_req_opt_add (mt_id m) dp else dp)
                 in bindO (maint_buf_set_timeout n a2) (\<lambda>a3. Some (Inr (dp', a3))))))"
| "maint_buf_set_timeout 0 a = None"
| "maint_buf_set_timeout (Suc n) a =
     (case maint_buf a of
        [] \<Rightarrow> Some (Inr a)
      | (t, _) # _ \<Rightarrow>
          if t \<le> ag_time a + 1 / 10000 then maint_buf_timeout n a
          else Some (Inr (a\<lparr>ack_timer := Some (set_timer (ag_time a) (timevalFromSimTime t))\<rparr>)))"
| "maint_buf_timeout 0 a = None"
| "maint_buf_timeout (Suc n) a =
     (if ack_timer a \<noteq> None then Some (Inr a)
      else case maint_buf a of
        [] \<Rightarrow> Some (Inr a)
      | (t, m0) # r \<Rightarrow>
          if t > ag_time a + 1 / 10000 then maint_buf_set_timeout n a
          else
            let a1 = a\<lparr>maint_buf := r\<rparr>; m = m0\<lparr>mt_rexmt := mt_rexmt m0 + 1\<rparr>
            in if MaxMaintRexmt (ag_conf a) \<le> mt_rexmt m
               then
                 bindO (Some (bindE (ph_srt_delete_link_map (ag_time a) (myaddr a) (mt_nxt_hop m) (ag_db a1)) (\<lambda>d.
                     Inr (a1\<lparr>ag_db := d\<rparr>)))) (\<lambda>a2.
                   bindO (dsr_rerr_send (mt_dp m) (mt_nxt_hop m) a2) (\<lambda>a3.
                     bindO (maint_buf_salvage n (mt_dp m) a3) (\<lambda>a4.
                       bindO (salvage_others n (mt_nxt_hop m)
                           (case maint_buf a4 of [] \<Rightarrow> None | (_, m') # _ \<Rightarrow> Some (mt_key m')) a4) (\<lambda>a5.
                         maint_buf_set_timeout n a5))))
               else
                 let m' = m\<lparr>mt_key := ag_key a, mt_tx_time := ag_time a, mt_expires := ag_time a + wide_usecs (mt_rto m)\<rparr>
                 in bindO (if mt_ack_req_sent m'
                        then (if RetryPacket (ag_conf a) then dsr_ack_req_send_pkt (mt_dp m') a1
                              else dsr_ack_req_send (mt_nxt_hop m') (mt_id m') a1)
                        else Some (Inr a1)) (\<lambda>a2.
                      bindO (maint_insert m' (a2\<lparr>ag_key := ag_key a2 + 1\<rparr>)) (\<lambda>a3. maint_buf_set_timeout n a3)))"
| "maint_buf_salvage 0 dp a = None"
| "maint_buf_salvage (Suc n) dp a =
     bindO (salvage_packet dp a) (\<lambda>(r, a1). case r of
         None \<Rightarrow> Some (Inr (drop_payload (dp_payload dp) a1))
       | Some dp' \<Rightarrow> omnet_xmit n dp' a1)"
| "salvage_others 0 nxt k a = None"
| "salvage_others (Suc n) nxt k a =
     (case k of
        None \<Rightarrow> Some (Inr a)
      | Some key \<Rightarrow>
          (case entry_of key a of
             None \<Rightarrow> Some (Inl BadAccess)
           | Some m \<Rightarrow>
               let k' = key_after key (maint_buf a)
               in if mt_nxt_hop m = nxt
                  then bindO (maint_buf_salvage n (mt_dp m) (maint_erase key a)) (\<lambda>a1. salvage_others n nxt k' a1)
                  else salvage_others n nxt k' a))"

subsection \<open>Acknowledgments\<close>

text \<open>
  \<open>maint_buf_del_all\<close>, \<open>maint_buf_del_all_id\<close>, \<open>maint_buf_del_addr\<close>: the entries of a neighbour, and
  the round-trip time of the last of them that was never sent again.
\<close>

definition maint_delete :: "(maint_entry \<Rightarrow> bool) \<Rightarrow> agent \<Rightarrow> agent" where
  "maint_delete P a = a\<lparr>maint_buf := filter (\<lambda>(_, m). \<not> P m) (maint_buf a), ack_timer := None\<rparr>"

definition measured_rtt :: "(maint_entry \<Rightarrow> bool) \<Rightarrow> agent \<Rightarrow> usecs_t" where
  "measured_rtt P a =
     (case filter P (map snd (maint_buf a)) of
        [] \<Rightarrow> 0
      | m # ms \<Rightarrow> word_of_int \<lfloor>(ag_time a - mt_tx_time (last (m # ms))) * 1000000\<rfloor>)"

definition maint_buf_del_all :: "nat \<Rightarrow> in_addr \<Rightarrow> agent \<Rightarrow> agent outcome" where
  "maint_buf_del_all n nxt a = maint_buf_set_timeout n (maint_delete (\<lambda>m. mt_nxt_hop m = nxt) a)"

definition maint_buf_del_all_id :: "nat \<Rightarrow> in_addr \<Rightarrow> u16 \<Rightarrow> agent \<Rightarrow> agent outcome" where
  "maint_buf_del_all_id n nxt i a =
     (let rtt = measured_rtt (\<lambda>m. mt_nxt_hop m = nxt \<and> mt_id m = i \<and> mt_rexmt m = 0) a;
          a1 = maint_delete (\<lambda>m. mt_nxt_hop m = nxt \<and> mt_id m \<le> i) a
      in maint_buf_set_timeout n (if rtt > 0 then neigh_tbl_set_rto nxt rtt a1 else a1))"

definition maint_buf_del_addr :: "nat \<Rightarrow> in_addr \<Rightarrow> agent \<Rightarrow> agent outcome" where
  "maint_buf_del_addr n nxt a =
     (let rtt = measured_rtt (\<lambda>m. mt_nxt_hop m = nxt \<and> mt_rexmt m = 0) a;
          a1 = maint_delete (\<lambda>m. mt_nxt_hop m = nxt) a
      in maint_buf_set_timeout n (if rtt > 0 then neigh_tbl_set_rto nxt rtt a1 else a1))"

definition maint_buf_cleanup :: "agent \<Rightarrow> agent" where
  "maint_buf_cleanup a = a\<lparr>maint_buf := [], ack_timer := None\<rparr>"

end
