(* ===== verification/Dsr_Sendbuf.thy ===== *)
theory Dsr_Sendbuf
  imports Dsr_Maint
begin

text \<open>
  Packets that wait for a route: the send buffer, \<open>send-buf.cc\<close>, the discovery of routes with its
  timer (\<open>dsr-rreq.cc\<close>), and \<open>dsr_start_xmit\<close> (\<open>dsr-io.cc\<close>), which sends a packet or makes it wait.
\<close>

subsection \<open>The send buffer\<close>

definition send_usecs :: "agent \<Rightarrow> simtime" where
  "send_usecs a = wide_usecs (sec_usecs (SendBufferTimeout (ag_conf a)))"

text \<open>The first entry of those that have waited longest.\<close>

fun oldest :: "('k \<times> simtime \<times> 'p) list \<Rightarrow> nat" where
  "oldest [] = 0"
| "oldest [_] = 0"
| "oldest ((_, t, _) # e # r) =
     (let i = oldest (e # r) in if fst (snd ((e # r) ! i)) < t then Suc i else 0)"

definition remove_nth :: "nat \<Rightarrow> 'a list \<Rightarrow> 'a list" where
  "remove_nth i xs = take i xs @ drop (Suc i) xs"

text \<open>\<open>send_buf_enqueue_packet\<close>; with a bound of 0 a single packet still finds room in an empty buffer.\<close>

definition send_buf_enqueue_packet :: "dsr_pkt \<Rightarrow> agent \<Rightarrow> agent" where
  "send_buf_enqueue_packet dp a =
     (let b = packetBuffer a;
          a1 = (if b = []
            then a\<lparr>send_buf_timer := Some (set_timer (ag_time a) (timevalFromSimTime (ag_time a + send_usecs a)))\<rparr>
            else a);
          b1 = (if b \<noteq> [] \<and> buffMaxlen a \<le> length b then remove_nth (oldest b) b else b)
      in a1\<lparr>packetBuffer := mm_insert (dp_dst dp) (ag_time a, dp) b1\<rparr>)"

text \<open>\<open>send_buf_timeout\<close>: a packet is also given up when its time is over within a hundredth of a second.\<close>

definition overdue :: "agent \<Rightarrow> in_addr \<times> simtime \<times> dsr_pkt \<Rightarrow> bool" where
  "overdue a e \<longleftrightarrow> ag_time a - fst (snd e) + 1 / 100 \<ge> send_usecs a"

definition drop_waiting :: "(in_addr \<times> simtime \<times> dsr_pkt) list \<Rightarrow> agent \<Rightarrow> agent" where
  "drop_waiting es a = foldl (\<lambda>a e. drop_payload (dp_payload (snd (snd e))) a) a es"

definition send_buf_timeout :: "agent \<Rightarrow> agent" where
  "send_buf_timeout a =
     (if packetBuffer a = [] then a
      else
        let b = filter (\<lambda>e. \<not> overdue a e) (packetBuffer a);
            a1 = (drop_waiting (filter (overdue a) (packetBuffer a)) a)\<lparr>packetBuffer := b\<rparr>
        in if b = [] then a1
           else
             let first = Min (set (map (\<lambda>e. fst (snd e)) b))
             in a1\<lparr>send_buf_timer := Some (set_timer (ag_time a) (timevalFromSimTime
                  (ag_time a + (send_usecs a - (ag_time a - first)))))\<rparr>)"

text \<open>
  \<open>send_buf_set_verdict\<close>: every packet for the destination is sent with a source route, or dropped when
  none is known after all.
\<close>

definition send_waiting :: "nat \<Rightarrow> agent \<Rightarrow> in_addr \<times> simtime \<times> dsr_pkt \<Rightarrow> agent outcome" where
  "send_waiting n a e =
     (case e of (_, _, dp) \<Rightarrow>
      bindO (dsr_rtc_find (myaddr a) (dp_dst dp) a) (\<lambda>(r, a1). case r of
          None \<Rightarrow> Some (Inr (drop_payload (dp_payload dp) a1))
        | Some srt \<Rightarrow>
            bindO (Some (bindE (dsr_srt_add srt (dp\<lparr>dp_srt := Some srt\<rparr>)) (AddCost a1 srt))) (\<lambda>dp'.
              omnet_xmit n dp' a1)))"

definition waiting_for :: "in_addr \<Rightarrow> agent \<Rightarrow> (in_addr \<times> simtime \<times> dsr_pkt) list" where
  "waiting_for dst a = filter (\<lambda>e. fst e = dst) (packetBuffer a)"

definition send_buf_send :: "nat \<Rightarrow> in_addr \<Rightarrow> agent \<Rightarrow> agent outcome" where
  "send_buf_send n dst a =
     bindO (foldO (send_waiting n) (waiting_for dst a) a) (\<lambda>a1.
       Some (Inr (a1\<lparr>packetBuffer := filter (\<lambda>e. fst e \<noteq> dst) (packetBuffer a1)\<rparr>)))"

definition send_buf_drop :: "in_addr \<Rightarrow> agent \<Rightarrow> agent" where
  "send_buf_drop dst a =
     (drop_waiting (waiting_for dst a) a)\<lparr>packetBuffer := filter (\<lambda>e. fst e \<noteq> dst) (packetBuffer a)\<rparr>"

definition send_buf_cleanup :: "agent \<Rightarrow> agent" where
  "send_buf_cleanup a = (drop_waiting (packetBuffer a) a)\<lparr>packetBuffer := [], send_buf_timer := None\<rparr>"

subsection \<open>Route discovery\<close>

definition dsr_rreq_route_discovery :: "in_addr \<Rightarrow> agent \<Rightarrow> agent outcome" where
  "dsr_rreq_route_discovery target a =
     bindO (Some (find_or_add target a)) (\<lambda>e.
       if re_in_disc e then Some (Inr (put_rreq target e a))
       else
         let timeout = (if TTL_START = 1 then msec_usecs (NonpropRequestTimeout (ag_conf a))
               else msec_usecs (RequestPeriod (ag_conf a)));
             e' = e\<lparr>re_last_used := dsr_gettime a, re_ttl := TTL_START, re_timeout := timeout, re_in_disc := True,
               re_num_rexmts := 0,
               re_timer := Some (set_timer (ag_time a) (timeval_add_usecs (dsr_gettime a) timeout))\<rparr>
         in dsr_rreq_send target TTL_START (put_rreq target e' a))"

text \<open>
  \<open>rreq_tbl_timeout\<close>: the timer belongs to the entry, so an entry that is not there cannot be reached.
\<close>

definition rreq_tbl_timeout :: "in_addr \<Rightarrow> agent \<Rightarrow> agent outcome" where
  "rreq_tbl_timeout x a =
     (case dsrRreqTbl a x of
        None \<Rightarrow> Some (Inl BadAccess)
      | Some e \<Rightarrow>
          if MaxRequestRexmt (ag_conf a) \<le> re_num_rexmts e then Some (Inr (drop_rreq x a))
          else
            let timeout = min (re_timeout e * 2) (sec_usecs (MaxRequestPeriod (ag_conf a)));
                ttl = min (re_ttl e * 2) MAXTTL;
                e' = e\<lparr>re_num_rexmts := re_num_rexmts e + 1, re_timeout := timeout, re_ttl := ttl,
                  re_last_used := dsr_gettime a\<rparr>
            in bindO (dsr_rreq_send x ttl (put_rreq x e' a)) (\<lambda>a1.
                 Some (Inr (put_rreq x (e'\<lparr>re_timer := Some (set_timer (ag_time a)
                   (timeval_add_usecs (dsr_gettime a) timeout))\<rparr>) a1))))"

subsection \<open>A packet of the upper layer\<close>

definition dsr_start_xmit :: "nat \<Rightarrow> dsr_pkt \<Rightarrow> agent \<Rightarrow> agent outcome" where
  "dsr_start_xmit n dp a =
     bindO (dsr_rtc_find (dp_src dp) (dp_dst dp) a) (\<lambda>(r, a1). case r of
         Some srt \<Rightarrow>
           bindO (Some (bindE (dsr_srt_add srt (dp\<lparr>dp_srt := Some srt\<rparr>)) (AddCost a1 srt))) (\<lambda>dp'.
             omnet_xmit n dp' a1)
       | None \<Rightarrow> dsr_rreq_route_discovery (dp_dst dp) (send_buf_enqueue_packet dp a1))"

end
