(* ===== verification/Dsr_Recv.thy ===== *)
theory Dsr_Recv
  imports Dsr_Sendbuf
begin

text \<open>
  Reception: the handlers of the options (\<open>dsr-rreq.cc\<close>, \<open>dsr-rrep.cc\<close>, \<open>dsr-rerr.cc\<close>, \<open>dsr-ack.cc\<close>,
  \<open>dsr-srt.cc\<close>), \<open>dsr_opt_recv\<close> (\<open>dsr-opt.cc\<close>) and \<open>dsr_recv\<close> (\<open>dsr-io.cc\<close>).  A handler returns the
  action, the packet, whose options it may have changed, and the agent.
\<close>

type_synonym action = "12 word"

definition DSR_PKT_NONE :: action where "DSR_PKT_NONE = 0x1"
definition DSR_PKT_SRT_REMOVE :: action where "DSR_PKT_SRT_REMOVE = 0x4"
definition DSR_PKT_SEND_ICMP :: action where "DSR_PKT_SEND_ICMP = 0x8"
definition DSR_PKT_SEND_BUFFERED :: action where "DSR_PKT_SEND_BUFFERED = 0x20"
definition DSR_PKT_FORWARD :: action where "DSR_PKT_FORWARD = 0x80"
definition DSR_PKT_FORWARD_RREQ :: action where "DSR_PKT_FORWARD_RREQ = 0x100"
definition DSR_PKT_DROP :: action where "DSR_PKT_DROP = 0x200"
definition DSR_PKT_ERROR :: action where "DSR_PKT_ERROR = 0x400"
definition DSR_PKT_DELIVER :: action where "DSR_PKT_DELIVER = 0x800"

lemmas dsr_actions = DSR_PKT_NONE_def DSR_PKT_SRT_REMOVE_def DSR_PKT_SEND_ICMP_def
  DSR_PKT_SEND_BUFFERED_def DSR_PKT_FORWARD_def DSR_PKT_FORWARD_RREQ_def DSR_PKT_DROP_def
  DSR_PKT_ERROR_def DSR_PKT_DELIVER_def

type_synonym handled = "(action \<times> dsr_pkt \<times> agent) outcome"

text \<open>Sending what waits for a node and ending the discovery of it.\<close>

definition flush_to :: "nat \<Rightarrow> agent \<Rightarrow> in_addr \<Rightarrow> agent outcome" where
  "flush_to n a x = bindO (send_buf_send n x a) (\<lambda>a1. Some (Inr (rreq_tbl_route_discovery_cancel x a1)))"

subsection \<open>Route requests\<close>

text \<open>The number of addresses the length byte stands for.\<close>

definition rreq_n :: "rreq_opt \<Rightarrow> nat" where
  "rreq_n q = nat (DSR_RREQ_ADDRS_LEN q div 4)"

text \<open>Whether one of the first \<open>n\<close> addresses is the node's; the loop stops at the first.\<close>

fun lists_me :: "in_addr \<Rightarrow> in_addr list \<Rightarrow> nat list \<Rightarrow> fault + bool" where
  "lists_me me as [] = Inr False"
| "lists_me me as (i # is) = bindE (vec_at as (int i)) (\<lambda>x. if x = me then Inr True else lists_me me as is)"

text \<open>The node puts itself on the list of the request.\<close>

definition rreq_forward :: "opt_ptr \<Rightarrow> rreq_opt \<Rightarrow> dsr_pkt \<Rightarrow> agent \<Rightarrow> action \<times> dsr_pkt \<times> agent" where
  "rreq_forward p q dp a =
     (DSR_PKT_FORWARD_RREQ,
      (let dp1 = set_opt p (RreqOpt (q\<lparr>rq_addrs := rq_addrs q @ [myaddr a], rq_length := rq_length q + 4\<rparr>)) dp
       in dp1\<lparr>dp_opth := (case dp_opth dp1 of [] \<Rightarrow> [] | h # hs \<Rightarrow> h\<lparr>oh_p_len := oh_p_len h + 4\<rparr> # hs)\<rparr>),
      a)"

definition set_daddr :: "in_addr \<Rightarrow> dsr_pkt \<Rightarrow> dsr_pkt" where
  "set_daddr x dp = dp\<lparr>dp_iph := map_option (\<lambda>h. h\<lparr>ip_daddr := x\<rparr>) (dp_iph dp)\<rparr>"

text \<open>The last part of \<open>dsr_rreq_opt_recv\<close>: answer as the target, from the cache, or pass on.\<close>

definition rreq_answer ::
    "opt_ptr \<Rightarrow> rreq_opt \<Rightarrow> dsr_srt \<Rightarrow> dsr_srt \<Rightarrow> dsr_pkt \<Rightarrow> agent \<Rightarrow> handled" where
  "rreq_answer p q srt srt_rev dp a =
     (let me = myaddr a; trg = rq_target q in
      if trg = me
      then bindO (dsr_rrep_send srt_rev srt a) (\<lambda>a1. Some (Inr (DSR_PKT_NONE, set_daddr trg dp, a1)))
      else if srt_src srt = me then Some (Inr (DSR_PKT_DROP, dp, a))
      else bindO (Some (lists_me me (srt_addrs srt) [0..<rreq_n q])) (\<lambda>listed.
        if listed then Some (Inr (DSR_PKT_DROP, dp, a))
        else bindO (if RREPDestinationOnly (ag_conf a) then Some (Inr (None, a)) else dsr_rtc_find me trg a) (\<lambda>(r, a1).
          case r of
            None \<Rightarrow> Some (Inr (rreq_forward p q dp a1))
          | Some rc \<Rightarrow>
              bindO (Some (bindE (dsr_srt_concatenate srt rc) (\<lambda>cat.
                  bindE (dsr_srt_check_duplicate cat) (\<lambda>dup. Inr (cat, dup))))) (\<lambda>(cat, dup).
                if dup then Some (Inr (rreq_forward p q dp a1))
                else bindO (dsr_rrep_send srt_rev cat a1) (\<lambda>a2.
                  Some (Inr (DSR_PKT_NONE, set_daddr trg dp, a2)))))))"

text \<open>The middle part: what the request teaches the node, and who can be served now.\<close>

definition rreq_learn ::
    "nat \<Rightarrow> rreq_opt \<Rightarrow> dsr_pkt \<Rightarrow> agent \<Rightarrow> (dsr_srt \<times> dsr_srt \<times> dsr_pkt \<times> agent) outcome" where
  "rreq_learn n q dp a =
     (let dp1 = ExpandCost a dp in
      bindO (Some (bindE (dsr_srt_new (dp_src dp1) (myaddr a) (word_of_int (DSR_RREQ_ADDRS_LEN q)) (rq_addrs q)
          (dp_costVector dp1)) (\<lambda>srt. bindE (dsr_srt_new_rev srt) (\<lambda>srt_rev. Inr (srt, srt_rev))))) (\<lambda>(srt, srt_rev).
        bindO (dsr_rtc_add srt_rev a) (\<lambda>a1.
          bindO (Some (if srt_laddrs srt_rev > 0 then vec_at (srt_addrs srt_rev) 0 else Inr (srt_dst srt_rev))) (\<lambda>prv.
            bindO (foldO (flush_to n) (srt_addrs srt_rev) (neigh_tbl_add prv (dp_h_source dp1) a1)) (\<lambda>a2.
              bindO (flush_to n a2 (srt_dst srt_rev)) (\<lambda>a3.
                Some (Inr (srt, srt_rev, dp1\<lparr>dp_srt := Some srt, dp_prv_hop := prv\<rparr>, a3))))))))"

definition rreq_first :: "dsr_pkt \<Rightarrow> rreq_opt option" where
  "rreq_first dp = (case dp_rreq_opt dp of [] \<Rightarrow> None | p # _ \<Rightarrow>
     (case opt_at dp p of Some (RreqOpt q) \<Rightarrow> Some q | _ \<Rightarrow> None))"

definition dsr_rreq_opt_recv :: "nat \<Rightarrow> opt_ptr \<Rightarrow> rreq_opt \<Rightarrow> dsr_pkt \<Rightarrow> agent \<Rightarrow> handled" where
  "dsr_rreq_opt_recv n p q dp a =
     (if has_flag dp PKT_PROMISC_RECV then Some (Inr (DSR_PKT_DROP, dp, a))
      else if length (dp_rreq_opt dp) > 1 then Some (Inr (DSR_PKT_ERROR, dp, a))
      else
        let dp1 = dp\<lparr>dp_rreq_opt := dp_rreq_opt dp @ [p]\<rparr>
        in bindO (if pathCacheConf (ag_db a)
             then if dp_src dp = myaddr a then Some (Inr True)
                  else Some (lists_me (myaddr a) (rq_addrs q) [0..<rreq_n q])
             else Some (Inr False)) (\<lambda>mine.
           if mine then Some (Inr (DSR_PKT_DROP, dp1, a))
           else case rreq_first dp1 of
               None \<Rightarrow> Some (Inl BadAccess)
             | Some q0 \<Rightarrow>
                 let cost = PathCost a dp1 q0; len = DSR_RREQ_ADDRS_LEN q
                 in bindO (dsr_rreq_duplicate (dp_src dp) (rq_target q) (ucast (rq_id q)) (word_of_int len) (rq_addrs q) a)
                      (\<lambda>(dup, a1).
                   if dup then Some (Inr (DSR_PKT_DROP, dp1, a1))
                   else bindO (rreq_tbl_add_id (dp_src dp) (rq_target q) (rq_id q) cost (rq_addrs q) len a1) (\<lambda>a2.
                     bindO (rreq_learn n q dp1 a2) (\<lambda>(srt, srt_rev, dp2, a3).
                       rreq_answer p q srt srt_rev dp2 a3)))))"

subsection \<open>Replies, errors, acknowledgments\<close>

definition dsr_rrep_opt_recv :: "opt_ptr \<Rightarrow> rrep_opt \<Rightarrow> dsr_pkt \<Rightarrow> agent \<Rightarrow> handled" where
  "dsr_rrep_opt_recv p r dp a =
     (if has_flag dp PKT_PROMISC_RECV then Some (Inr (DSR_PKT_ERROR, dp, a))
      else if MAX_RREP_OPTS \<le> length (dp_rrep_opt dp) then Some (Inr (DSR_PKT_ERROR, dp, a))
      else if rp_addrs r = [] then Some (Inl BadAccess)
      else
        let srt_dst = last (rp_addrs r)
        in bindO (Some (if srt_dst \<noteq> myaddr a then ActualizeMyCostRrep a r else Inr r)) (\<lambda>r1.
             let dp1 = set_opt p (RrepOpt r1) (dp\<lparr>dp_rrep_opt := dp_rrep_opt dp @ [p]\<rparr>)
             in bindO (Some (dsr_srt_new (dp_dst dp) srt_dst (of_nat (DSR_RREP_ADDRS_LEN r1)) (butlast (rp_addrs r1)) [])) (\<lambda>srt0.
                  let srt = (if etxActive (ag_db a) \<and> length (rp_cost r1) = length (rp_addrs r1)
                             then srt0\<lparr>srt_cost := rp_cost r1\<rparr> else srt0)
                  in bindO (dsr_rtc_add srt a) (\<lambda>a1.
                       Some (Inr (if dp_dst dp = myaddr a then DSR_PKT_SEND_BUFFERED else DSR_PKT_FORWARD, dp1,
                         rreq_tbl_route_discovery_cancel srt_dst a1))))))"

definition dsr_rerr_opt_recv :: "nat \<Rightarrow> opt_ptr \<Rightarrow> rerr_opt \<Rightarrow> dsr_pkt \<Rightarrow> agent \<Rightarrow> handled" where
  "dsr_rerr_opt_recv n p r dp a =
     (let dp1 = dp\<lparr>dp_rerr_opt := dp_rerr_opt dp @ [p]\<rparr> in
      if re_type r = NODE_UNREACHABLE
      then bindO (maint_buf_del_all n (re_dst r) a) (\<lambda>a1.
             bindO (Some (ph_srt_delete_link_map (ag_time a1) (re_src r) (re_info r) (ag_db a1))) (\<lambda>d.
               Some (Inr (0, dp1, a1\<lparr>ag_db := d\<rparr>))))
      else Some (Inr (0, dp1, a)))"

definition dsr_ack_opt_recv :: "nat \<Rightarrow> ack_opt \<Rightarrow> dsr_pkt \<Rightarrow> agent \<Rightarrow> handled" where
  "dsr_ack_opt_recv n k dp a =
     (if ao_dst k \<noteq> myaddr a then Some (Inr (DSR_PKT_ERROR, dp, a))
      else bindO (maint_buf_del_all_id n (ao_src k) (ao_id k) a) (\<lambda>a1. Some (Inr (DSR_PKT_NONE, dp, a1))))"

definition dsr_ack_req_opt_recv :: "opt_ptr \<Rightarrow> ack_req_opt \<Rightarrow> dsr_pkt \<Rightarrow> agent \<Rightarrow> handled" where
  "dsr_ack_req_opt_recv p k dp a =
     (if has_flag dp PKT_PROMISC_RECV then Some (Inr (DSR_PKT_ERROR, dp, a))
      else
        let dp1 = dp\<lparr>dp_ack_req_opt := Some p\<rparr>;
            dp2 = (if dp_srt_opt dp = None then dp1\<lparr>dp_prv_hop := dp_src dp\<rparr> else dp1)
        in bindO (dsr_ack_send (dp_prv_hop dp2) (ar_id k) a) (\<lambda>a1. Some (Inr (DSR_PKT_NONE, dp2, a1))))"

subsection \<open>Source routes\<close>

text \<open>With the path cache: the previous hop, and the two ways from the node.\<close>

definition srt_learn_paths :: "bool \<Rightarrow> in_addr \<Rightarrow> dsr_srt \<Rightarrow> agent \<Rightarrow> agent outcome" where
  "srt_learn_paths intended prv srt a =
     (let a1 = a\<lparr>ag_db := ph_srt_add_node_map (ag_time a) prv (cache_usecs a) (ag_db a)\<rparr> in
      bindO (Some (dsr_srt_split_both srt (if intended then myaddr a else prv) (myaddr a))) (\<lambda>(d, s).
        bindO (case d of None \<Rightarrow> Some (Inr a1) | Some r \<Rightarrow> dsr_rtc_add r a1) (\<lambda>a2.
          case s of None \<Rightarrow> Some (Inr a2) | Some r \<Rightarrow> dsr_rtc_add r a2)))"

text \<open>With the link cache: the link to the previous hop, the links of the route, and whoever can be served.\<close>

definition srt_learn_links :: "nat \<Rightarrow> in_addr \<Rightarrow> dsr_srt \<Rightarrow> agent \<Rightarrow> agent outcome" where
  "srt_learn_links n prv srt a =
     bindO (Some (ph_add_link_map (ag_time a) (myaddr a) prv (cache_usecs a) (ag_db a))) (\<lambda>d.
       bindO (foldO (flush_to n) (srt_addrs srt @ [srt_src srt, srt_dst srt]) (a\<lparr>ag_db := d\<rparr>)) (\<lambda>a1.
         dsr_rtc_add srt a1))"

text \<open>
  Automatic route shortening: a node that is not the next hop, but behind it on the route, tells the
  source of the shorter way; \<open>False\<close> when the packet is dropped instead.
\<close>

definition shortcut_cost :: "agent \<Rightarrow> in_addr \<Rightarrow> dsr_srt \<Rightarrow> fault + dsr_srt" where
  "shortcut_cost a prv sc =
     (if \<not> etxActive (ag_db a) then Inr sc
      else
        let k = length (takeWhile (\<lambda>x. x \<noteq> myaddr a) (srt_addrs sc));
            j = (if k < length (srt_addrs sc) then k + 1 else k)
        in if j < length (srt_cost sc)
           then bindE (cast_cost (getCost (ag_db a) prv)) (\<lambda>c. Inr (sc\<lparr>srt_cost := (srt_cost sc)[j := c]\<rparr>))
           else Inr sc)"

definition shorten_route :: "dsr_pkt \<Rightarrow> in_addr \<Rightarrow> dsr_srt \<Rightarrow> agent \<Rightarrow> (bool \<times> agent) outcome" where
  "shorten_route dp prv srt a =
     bindO (Some (bindE (dsr_srt_shortcut srt prv (myaddr a)) (\<lambda>sc0. bindE (shortcut_cost a prv sc0) (\<lambda>sc.
         bindE (if srt_n sc = 0 then bindE (dsr_srt_new_rev sc) (\<lambda>s. Inr (Some s))
                else dsr_srt_new_split_rev sc (myaddr a)) (\<lambda>back. Inr (sc, back)))))) (\<lambda>(sc, back).
       case back of
         None \<Rightarrow> Some (Inr (False, a))
       | Some s \<Rightarrow> bindO (dsr_rrep_send s sc (grat_rrep_tbl_add (dp_src dp) prv a)) (\<lambda>a1. Some (Inr (True, a1))))"

text \<open>The costs the packet carries, with the one of the link it came over brought up to date.\<close>

definition update_own_cost :: "agent \<Rightarrow> dsr_pkt \<Rightarrow> dsr_pkt" where
  "update_own_cost a dp =
     (let cs = dp_costVector dp; i = length (takeWhile (\<lambda>c. ec_address c \<noteq> myaddr a) cs)
      in if \<not> etxActive (ag_db a) \<or> i = length cs then dp
         else dp\<lparr>dp_costVector := cs[i := (cs ! i)\<lparr>ec_cost :=
           getCost (ag_db a) (if i = 0 then dp_src dp else ec_address (cs ! (i - 1)))\<rparr>]\<rparr>)"

text \<open>The end of \<open>dsr_srt_opt_recv\<close>: forward along the route.\<close>

definition srt_forward :: "opt_ptr \<Rightarrow> srt_opt \<Rightarrow> nat \<Rightarrow> dsr_pkt \<Rightarrow> agent \<Rightarrow> action \<times> dsr_pkt \<times> agent" where
  "srt_forward p so n dp a =
     (if has_flag dp PKT_PROMISC_RECV then (DSR_PKT_DROP, dp, a)
      else if so_sleft so = 0 then (DSR_PKT_SRT_REMOVE, dp, a)
      else if n < unat (so_sleft so) then (DSR_PKT_SEND_ICMP, dp, a)
      else (DSR_PKT_FORWARD, update_own_cost a (set_opt p (SrtOpt (so\<lparr>so_sleft := so_sleft so - 1\<rparr>)) dp), a))"

definition dsr_srt_opt_recv :: "nat \<Rightarrow> opt_ptr \<Rightarrow> srt_opt \<Rightarrow> dsr_pkt \<Rightarrow> agent \<Rightarrow> handled" where
  "dsr_srt_opt_recv fuel p so dp a =
     bindO (Some (bindE (dsr_srt_new (dp_src dp) (dp_dst dp) (ucast (so_length so)) (so_addrs so) (dp_costVector dp)) (\<lambda>srt.
         let sleft = uint (so_sleft so) in
         bindE (dsr_srt_next_hop srt sleft) (\<lambda>intended.
           bindE (dsr_srt_prev_hop srt (sleft - 1)) (\<lambda>prv.
             bindE (dsr_srt_next_hop srt (sleft - 1)) (\<lambda>nxt. Inr (srt, intended, prv, nxt))))))) (\<lambda>(srt, intended, prv, nxt).
       let me = myaddr a; n = srt_n srt;
           dp1 = dp\<lparr>dp_srt_opt := Some p, dp_srt := Some srt, dp_salvage := unat (so_salv so), dp_prv_hop := prv,
             dp_nxt_hop := nxt\<rparr>;
           a1 = neigh_tbl_add prv (dp_h_source dp) a
       in bindO (if pathCacheConf (ag_db a) then srt_learn_paths (intended = me) prv srt a1
                 else srt_learn_links fuel prv srt a1) (\<lambda>a2.
            bindO (Some (if intended \<noteq> me then dsr_srt_find_addr srt me (uint (so_sleft so)) else Inr False)) (\<lambda>later.
              if later \<and> \<not> grat_rrep_tbl_find (dp_src dp) prv a2
              then bindO (shorten_route dp1 prv srt a2) (\<lambda>(told, a3).
                     Some (Inr (if told then srt_forward p so n dp1 a3 else (DSR_PKT_DROP, dp1, a3))))
              else Some (Inr (srt_forward p so n dp1 a2)))))"

subsection \<open>All options, and what follows\<close>

definition recv_opt :: "nat \<Rightarrow> action \<times> dsr_pkt \<times> agent \<Rightarrow> opt_ptr \<Rightarrow> handled" where
  "recv_opt n st p =
     (case st of (act, dp, a) \<Rightarrow>
      let promisc = has_flag dp PKT_PROMISC_RECV;
          join = (\<lambda>r. bindO r (\<lambda>(act', dp', a'). Some (Inr (act OR act', dp', a'))));
          skip = Some (Inr (act, dp, a))
      in case opt_at dp p of
           Some (RreqOpt q) \<Rightarrow> if promisc then skip else join (dsr_rreq_opt_recv n p q dp a)
         | Some (RrepOpt r) \<Rightarrow> if promisc then skip else join (dsr_rrep_opt_recv p r dp a)
         | Some (RerrOpt r) \<Rightarrow> if promisc \<or> MAX_RERR_OPTS \<le> length (dp_rerr_opt dp) then skip
             else join (dsr_rerr_opt_recv n p r dp a)
         | Some (AckOpt k) \<Rightarrow> if promisc \<or> MAX_ACK_OPTS \<le> length (dp_ack_opt dp) then skip
             else join (dsr_ack_opt_recv n k (dp\<lparr>dp_ack_opt := dp_ack_opt dp @ [p]\<rparr>) a)
         | Some (SrtOpt so) \<Rightarrow> join (dsr_srt_opt_recv n p so dp a)
         | Some (AckReqOpt k) \<Rightarrow> join (dsr_ack_req_opt_recv p k dp a)
         | _ \<Rightarrow> skip)"

definition dsr_opt_recv :: "nat \<Rightarrow> dsr_pkt \<Rightarrow> agent \<Rightarrow> handled" where
  "dsr_opt_recv n dp a =
     foldO (recv_opt n) (map fst (opt_list dp))
       (if dp_dst dp = myaddr a \<and> dp_payload_len dp \<noteq> 0 then DSR_PKT_DELIVER else 0, dp, a)"

text \<open>The packets that wait for a node a reply names.\<close>

definition rrep_addrs :: "dsr_pkt \<Rightarrow> in_addr list" where
  "rrep_addrs dp = concat (map (\<lambda>p. case opt_at dp p of Some (RrepOpt r) \<Rightarrow> rp_addrs r | _ \<Rightarrow> []) (dp_rrep_opt dp))"

text \<open>
  \<open>dsr_recv\<close>: the actions are taken in the order of their bits, and the first that disposes of the
  packet ends the loop.
\<close>

definition dsr_recv :: "nat \<Rightarrow> dsr_pkt \<Rightarrow> agent \<Rightarrow> agent outcome" where
  "dsr_recv n dp0 a0 =
     bindO (dsr_opt_recv n dp0 a0) (\<lambda>(act, dp, a).
       if has_flag dp PKT_PROMISC_RECV then Some (Inr (drop_payload (dp_payload dp) a))
       else
         bindO (if act AND DSR_PKT_SEND_BUFFERED \<noteq> 0
                then foldO (\<lambda>a x. send_buf_send n x a) (rrep_addrs dp) a else Some (Inr a)) (\<lambda>a1.
           if act AND DSR_PKT_FORWARD \<noteq> 0
           then (case dp_iph dp of None \<Rightarrow> Some (Inl BadAccess) | Some h \<Rightarrow>
                   if ip_ttl h < 1 then Some (Inr (drop_payload (dp_payload dp) a1)) else omnet_xmit n dp a1)
           else if act AND DSR_PKT_FORWARD_RREQ \<noteq> 0 then omnet_xmit n dp a1
           else if act AND (DSR_PKT_DROP OR DSR_PKT_ERROR) \<noteq> 0 then Some (Inr (drop_payload (dp_payload dp) a1))
           else if act AND DSR_PKT_DELIVER \<noteq> 0 then omnet_deliver dp a1
           else Some (Inr (drop_payload (dp_payload dp) a1))))"

end
