(* ===== verification/Dsr_Events.thy ===== *)
theory Dsr_Events
  imports Dsr_Recv
begin

text \<open>
  The module around the agent, \<open>dsr-uu-omnetpp.cc\<close>: datagrams, timers, the signals of the link layer,
  start, stop and crash of the node, and the runs of a node as an inductive relation.
\<close>

subsection \<open>Datagrams\<close>

definition defaultProcess :: "nat \<Rightarrow> datagram \<Rightarrow> agent \<Rightarrow> agent outcome" where
  "defaultProcess n g a =
     (let dp = dsr_pkt_alloc (UseNetworkLayerAck (ag_conf a)) g in
      if dg_protocol g = IPPROTO_DSR
      then (if dp_src dp \<noteq> myaddr a then dsr_recv n dp a else Some (Inr (drop_payload (dp_payload dp) a)))
      else if dp_src dp = myaddr a
      then dsr_start_xmit n (dp\<lparr>dp_payload_len := dp_payload_len dp + IP_HDR_LEN\<rparr>) a
      else Some (Inr (drop_payload (dp_payload dp) a)))"

text \<open>A datagram without source address gets the node's.\<close>

definition handle_datagram :: "nat \<Rightarrow> datagram \<Rightarrow> agent \<Rightarrow> agent outcome" where
  "handle_datagram n g a =
     (if \<not> nodeActive a then Some (Inr a)
      else defaultProcess n (if dg_src g = 0 then g\<lparr>dg_src := myaddr a\<rparr> else g) a)"

subsection \<open>Signals of the link layer\<close>

text \<open>The route to a neighbour of a plain datagram, looked up without refreshing it.\<close>

definition one_hop_route :: "in_addr \<Rightarrow> agent \<Rightarrow> (bool \<times> agent) outcome" where
  "one_hop_route nxt a =
     bindO (RouteFind (intrand (ag_conf a)) (ag_time a) 0 (myaddr a) nxt (ag_db a)) (\<lambda>(r, d).
       Some (Inr (case r of None \<Rightarrow> False | Some srt \<Rightarrow> srt_addrs srt = [], a\<lparr>ag_db := d\<rparr>)))"

definition packetLinkAck :: "nat \<Rightarrow> datagram \<Rightarrow> agent \<Rightarrow> agent outcome" where
  "packetLinkAck n g a =
     (if dg_protocol g \<noteq> IPPROTO_DSR
      then bindO (one_hop_route (dg_dst g) a) (\<lambda>(one, a1).
             if one then maint_buf_del_all n (dg_dst g) a1 else Some (Inr a1))
      else if dg_is_dsr g then maint_buf_del_all n (dg_next g) a else Some (Inr a))"

definition delete_link_to :: "in_addr \<Rightarrow> agent \<Rightarrow> agent outcome" where
  "delete_link_to nxt a =
     Some (bindE (ph_srt_delete_link_map (ag_time a) (myaddr a) nxt (ag_db a)) (\<lambda>d. Inr (a\<lparr>ag_db := d\<rparr>)))"

definition packetFailed :: "nat \<Rightarrow> datagram \<Rightarrow> agent \<Rightarrow> agent outcome" where
  "packetFailed n g a =
     (if dg_protocol g \<noteq> IPPROTO_DSR
      then bindO (one_hop_route (dg_dst g) a) (\<lambda>(one, a1).
             if one then delete_link_to (dg_dst g) a1 else Some (Inr a1))
      else if dg_is_dsr g
      then
        let nxt = dg_next g; dp = dsr_pkt_alloc (UseNetworkLayerAck (ag_conf a)) g
        in bindO (delete_link_to nxt a) (\<lambda>a1.
             bindO (dsr_rerr_send dp nxt a1) (\<lambda>a2.
               maint_buf_salvage n (dp\<lparr>dp_nxt_hop := nxt\<rparr>) a2))
      else Some (Inr a))"

text \<open>\<open>tap\<close>: an overheard packet.\<close>

definition tap :: "nat \<Rightarrow> datagram \<Rightarrow> agent \<Rightarrow> agent outcome" where
  "tap n g a =
     (let dp = set_flag PKT_PROMISC_RECV (dsr_pkt_alloc2 g) in
      if dg_protocol g = IPPROTO_DSR \<and> dp_src dp \<noteq> myaddr a then dsr_recv n dp a else Some (Inr a))"

datatype link_signal = TxAcked datagram | LinkBreak datagram | Promiscuous datagram

text \<open>\<open>receiveSignal\<close>, for IEEE 802.11 frames that carry a datagram.\<close>

definition receiveSignal_dsr :: "nat \<Rightarrow> link_signal \<Rightarrow> agent \<Rightarrow> agent outcome" where
  "receiveSignal_dsr n s a =
     (case s of
        TxAcked g \<Rightarrow> if UseNetworkLayerAck (ag_conf a) then Some (Inr a) else packetLinkAck n g a
      | LinkBreak g \<Rightarrow> if UseNetworkLayerAck (ag_conf a) then Some (Inr a) else packetFailed n g a
      | Promiscuous g \<Rightarrow> if PromiscOperation (ag_conf a) \<and> dg_is_dsr g then tap n g a else Some (Inr a))"

subsection \<open>Timers\<close>

text \<open>A timer that goes off is no longer pending; then its function is called.\<close>

datatype dsr_timer = AckTimer | GratTimer | SendBufTimer | RreqTimer in_addr

fun timer_of :: "dsr_timer \<Rightarrow> agent \<Rightarrow> simtime option" where
  "timer_of AckTimer a = ack_timer a"
| "timer_of GratTimer a = grat_rrep_tbl_timer a"
| "timer_of SendBufTimer a = send_buf_timer a"
| "timer_of (RreqTimer x) a = (case dsrRreqTbl a x of None \<Rightarrow> None | Some e \<Rightarrow> re_timer e)"

fun timer_fired :: "dsr_timer \<Rightarrow> agent \<Rightarrow> agent" where
  "timer_fired AckTimer a = a\<lparr>ack_timer := None\<rparr>"
| "timer_fired GratTimer a = a\<lparr>grat_rrep_tbl_timer := None\<rparr>"
| "timer_fired SendBufTimer a = a\<lparr>send_buf_timer := None\<rparr>"
| "timer_fired (RreqTimer x) a =
     (case dsrRreqTbl a x of None \<Rightarrow> a | Some e \<Rightarrow> put_rreq x (e\<lparr>re_timer := None\<rparr>) a)"

fun handleTimer :: "nat \<Rightarrow> dsr_timer \<Rightarrow> agent \<Rightarrow> agent outcome" where
  "handleTimer n AckTimer a = maint_buf_timeout n a"
| "handleTimer n GratTimer a = grat_rrep_tbl_timeout a"
| "handleTimer n SendBufTimer a = Some (Inr (send_buf_timeout a))"
| "handleTimer n (RreqTimer x) a = rreq_tbl_timeout x a"

subsection \<open>The life of a node\<close>

text \<open>The tables and buffers of a new agent.\<close>

definition agent_start :: "dsr_conf \<Rightarrow> dsruu \<Rightarrow> agent" where
  "agent_start cf d = \<lparr>ag_time = 0, ag_conf = cf, ag_db = dsr_start d, nodeActive = True,
     neighborMap = Map.empty, dsrRreqTbl = Map.empty, rreqInfoMap = Map.empty, rreq_seqno = 0,
     gratRrep = [], grat_rrep_tbl_timer = None, packetBuffer = [], buffMaxlen = 100, send_buf_timer = None,
     maint_buf = [], MaxMaintBuff = 100, ack_timer = None, ag_key = 0, ag_outputs = []\<rparr>"

text \<open>Stop and crash do the same; a start only makes the node active again.\<close>

definition clear_tables :: "agent \<Rightarrow> agent" where
  "clear_tables a = maint_buf_cleanup (send_buf_cleanup (grat_rrep_tbl_cleanup (rreq_tbl_cleanup (neigh_tbl_cleanup a))))"

definition node_stop :: "agent \<Rightarrow> agent outcome" where
  "node_stop a = Some (bindE (cleanAllDataBase (ag_db a)) (\<lambda>d.
     Inr (clear_tables (a\<lparr>nodeActive := False, ag_db := d\<lparr>etxNeighborTable := Map.empty\<rparr>\<rparr>))))"

definition node_start :: "agent \<Rightarrow> agent" where
  "node_start a = a\<lparr>nodeActive := True\<rparr>"

subsection \<open>Runs\<close>

datatype agent_event = Datagram datagram | Signal link_signal | Timer dsr_timer | Stop | Start

text \<open>Timer messages that reach an inactive node are deleted and nothing follows.\<close>

definition agent_handle :: "nat \<Rightarrow> agent_event \<Rightarrow> agent \<Rightarrow> agent outcome" where
  "agent_handle n e a =
     (case e of
        Datagram g \<Rightarrow> handle_datagram n g a
      | Signal s \<Rightarrow> receiveSignal_dsr n s a
      | Timer t \<Rightarrow> if nodeActive a then handleTimer n t (timer_fired t a) else Some (Inr (timer_fired t a))
      | Stop \<Rightarrow> node_stop a
      | Start \<Rightarrow> Some (Inr (node_start a)))"

text \<open>
  Time passes up to the next pending timer; a timer goes off when it is due; datagrams, signals and
  operations of the node come at any time.
\<close>

inductive agent_step :: "agent \<Rightarrow> agent \<Rightarrow> bool" where
  wait: "ag_time a \<le> t \<Longrightarrow> \<forall>tm d. timer_of tm a = Some d \<longrightarrow> t \<le> d \<Longrightarrow> agent_step a (a\<lparr>ag_time := t\<rparr>)"
| timer: "timer_of tm a = Some (ag_time a) \<Longrightarrow> agent_handle n (Timer tm) a = Some (Inr a') \<Longrightarrow> agent_step a a'"
| event: "(\<And>tm. e \<noteq> Timer tm) \<Longrightarrow> agent_handle n e a = Some (Inr a') \<Longrightarrow> agent_step a a'"

inductive agent_run :: "agent \<Rightarrow> agent \<Rightarrow> bool" where
  refl: "agent_run a a"
| step: "agent_run a b \<Longrightarrow> agent_step b c \<Longrightarrow> agent_run a c"

end
