(* ===== verification/Dsr_Access_Spec.thy ===== *)
theory Dsr_Access_Spec
  imports Dsr_Access
begin

text \<open>
  The DSR data base in use: the invariant of both caches under every call of the agent, calls that
  cannot fail, and what is recorded of a source route.
\<close>

subsection \<open>Routes of IPv4 addresses\<close>

definition ipv4_bucket :: "addr \<Rightarrow> path list \<Rightarrow> bool" where
  "ipv4_bucket d ps \<longleftrightarrow> (\<forall>p\<in>set ps. set (p_route p) \<subseteq> range IPv4)"

definition ipv4_paths :: "paths_cache \<Rightarrow> bool" where
  "ipv4_paths c \<longleftrightarrow> bm.full ipv4_bucket c"

definition cache_ok :: "paths_cache \<Rightarrow> bool" where
  "cache_ok c \<longleftrightarrow> paths_ok c \<and> ipv4_paths c"

lemma cache_ok_Nil [simp]: "cache_ok []"
  by (simp add: cache_ok_def ipv4_paths_def bm.full_def)

lemma ipv4_bucket_find: "ipv4_paths c \<Longrightarrow> smap_find c d = Some ps \<Longrightarrow> ipv4_bucket d ps"
  by (simp add: ipv4_paths_def bm.full_def)

lemma set_loop_ipv4:
  assumes "\<And>p. p_route (upd p) = p_route p" and "ipv4_bucket d ps"
  shows "ipv4_bucket d (fst (set_loop now r upd ps))"
  using assms(2)
proof (induction ps)
  case (Cons p ps)
  then show ?case by (auto simp: ipv4_bucket_def case_prod_beta assms(1))
qed (simp add: ipv4_bucket_def)

lemma cache_ok_setPath [intro]:
  assumes "cache_ok c" and "set r \<subseteq> range IPv4"
  shows "cache_ok (setPath now d r v k st t c)"
proof -
  let ?ps = "case smap_find c d of None \<Rightarrow> [] | Some ps \<Rightarrow> ps"
  let ?upd = "\<lambda>p :: path. p\<lparr>p_vector_cost := v, p_cost := k, p_status := st, p_expires := now + usecs t\<rparr>"
  have "ipv4_bucket d ?ps"
    using assms(1) ipv4_bucket_find [of c d]
    by (cases "smap_find c d") (simp_all add: cache_ok_def, simp add: ipv4_bucket_def)
  then have "ipv4_bucket d (fst (set_loop now r ?upd ?ps))" by (rule set_loop_ipv4 [rotated]) simp
  moreover have "fst (set_loop now r ?upd ?ps) \<noteq> []" if "snd (set_loop now r ?upd ?ps)"
    using that by (rule set_loop_nonempty)
  ultimately have "ipv4_paths (setPath now d r v k st t c)"
    using assms unfolding ipv4_paths_def setPath_def Let_def case_prod_beta
    by (intro bm.full_put) (auto simp: cache_ok_def ipv4_paths_def ipv4_bucket_def new_path_def)
  then show ?thesis using assms(1) setPath_ok by (simp add: cache_ok_def)
qed

lemma cache_ok_prune_filter: "cache_ok c \<Longrightarrow> cache_ok (smap_prune (\<lambda>d. filter (P d)) c)"
proof -
  assume c: "cache_ok c"
  have "ipv4_paths (smap_prune (\<lambda>d. filter (P d)) c)"
    unfolding ipv4_paths_def
    by (rule bm.full_prune) (use c in \<open>auto simp: cache_ok_def ipv4_paths_def ipv4_bucket_def\<close>)
  then show ?thesis using c prune_filter_ok by (simp add: cache_ok_def)
qed

lemma cache_ok_write_back:
  assumes "cache_ok c" and "distinct (map p_route ps)" and "ipv4_bucket d ps"
  shows "cache_ok (if ps = [] then smap_erase d c else smap_put d ps c)"
  using assms by (simp add: cache_ok_def paths_ok_def ipv4_paths_def bucket_ok_def
    bm.full_write_back bm.full_erase bm.full_put)

lemma cache_ok_bucket:
  "cache_ok c \<Longrightarrow> smap_find c d = Some ps \<Longrightarrow> ps \<noteq> [] \<and> distinct (map p_route ps) \<and> ipv4_bucket d ps"
  using paths_ok_bucket [of c d ps] ipv4_bucket_find [of c d ps] by (simp add: cache_ok_def)

lemma cache_ok_erase: "cache_ok c \<Longrightarrow> cache_ok (smap_erase d c)"
  by (simp add: cache_ok_def paths_ok_def ipv4_paths_def bm.full_erase)

lemma cache_ok_setPathsTimer [intro]:
  assumes c: "cache_ok c"
  shows "cache_ok (setPathsTimer now d r t c)"
proof (cases "t = 0 \<or> smap_find c d = None")
  case True
  then show ?thesis using c by (auto simp: setPathsTimer_def set_existing_def)
next
  case False
  then obtain ps where ps: "smap_find c d = Some ps" by auto
  let ?upd = "\<lambda>p :: path. p\<lparr>p_expires := now + usecs t\<rparr>"
  let ?l = "set_loop now r ?upd ps"
  have "ipv4_paths (setPathsTimer now d r t c)"
  proof -
    have "ipv4_bucket d (fst ?l)" by (rule set_loop_ipv4) (use cache_ok_bucket [OF c ps] in simp_all)
    moreover have "fst ?l \<noteq> []" if "snd ?l" using that by (rule set_loop_nonempty)
    ultimately show ?thesis
      using False c ps by (auto simp: setPathsTimer_def set_existing_def case_prod_beta cache_ok_def
        ipv4_paths_def intro: bm.full_put bm.full_erase)
  qed
  then show ?thesis using c setPathsTimer_ok by (simp add: cache_ok_def)
qed

lemma cache_ok_erasePathWithNode [intro]: "cache_ok c \<Longrightarrow> cache_ok (erasePathWithNode now a c)"
  unfolding erasePathWithNode_def deleteAddress_def
  by (auto intro!: cache_ok_prune_filter intro: cache_ok_erase split: option.split)

lemma cache_ok_purge [intro]: "cache_ok c \<Longrightarrow> cache_ok (purgePathCache now c)"
  unfolding purgePathCache_def by (rule cache_ok_prune_filter)

lemma cache_ok_kept:
  assumes "cache_ok c" and "smap_find c d = Some ps"
  shows "cache_ok (if filter P ps = [] then smap_erase d c else smap_put d (filter P ps) c)"
  using cache_ok_bucket [OF assms] assms(1)
  by (intro cache_ok_write_back) (auto simp: distinct_map_filter ipv4_bucket_def)

lemma cache_ok_erasePathWithLink [intro]:
  assumes c: "cache_ok c"
  shows "cache_ok (erasePathWithLink now self a1 a2 ef b c)"
proof -
  have "cache_ok (eraseRootLink now a2 c)"
  proof (cases "smap_find c a2")
    case None
    then show ?thesis using c unfolding eraseRootLink_def by (simp add: cache_ok_prune_filter)
  next
    case (Some ps)
    show ?thesis
      unfolding eraseRootLink_def Let_def Some option.case
      by (rule cache_ok_prune_filter [OF cache_ok_kept [OF c Some]])
  qed
  then show ?thesis using c unfolding erasePathWithLink_def by (auto intro: cache_ok_prune_filter)
qed

subsection \<open>Searching keeps the cache in order\<close>

lemma getPath_loop_routes:
  "map p_route (fst (getPath_loop now ps s)) = map p_route (filter (\<lambda>p. \<not> expired now p) ps)"
  by (induction now ps s rule: getPath_loop.induct) (auto simp: case_prod_beta Let_def)

lemma ipv4_bucket_map: "ipv4_bucket d ps \<longleftrightarrow> (\<forall>r\<in>set (map p_route ps). set r \<subseteq> range IPv4)"
  by (auto simp: ipv4_bucket_def)

lemma cache_ok_search_end:
  assumes c: "cache_ok c" and ps: "smap_find c d = Some ps"
    and kept: "map p_route kept = map p_route (filter (\<lambda>p. \<not> expired now p) ps)"
  shows "cache_ok (search_end now d t (kept, s) c)"
proof -
  have b: "distinct (map p_route ps)" "ipv4_bucket d ps" using cache_ok_bucket [OF c ps] by simp_all
  have upd: "map p_route (kept[i := (kept ! i)\<lparr>p_expires := x\<rparr>]) = map p_route kept" for i x
    by (cases "i < length kept") (simp_all add: distinct_map_update not_less list_update_beyond)
  have "cache_ok (smap_put d q c)" if "map p_route q = map p_route kept" "kept \<noteq> []" for q
  proof -
    have "q \<noteq> []" using that by auto
    moreover have "distinct (map p_route q)"
      unfolding that(1) kept using b(1) by (rule distinct_map_filter)
    moreover have "ipv4_bucket d q"
      using b(2) unfolding ipv4_bucket_map that(1) kept by auto
    ultimately show ?thesis using cache_ok_write_back [OF c, of q d] by simp
  qed
  then show ?thesis using upd c cache_ok_erase by (auto simp: search_end_def Let_def)
qed

lemma cache_ok_getPath [intro]:
  assumes c: "cache_ok c"
  shows "cache_ok (snd (getPath now d t c))"
proof (cases "smap_find c d")
  case (Some ps)
  let ?r = "getPath_loop now ps search_start"
  have "cache_ok (search_end now d t (fst ?r, snd ?r) c)"
    by (rule cache_ok_search_end [OF c Some getPath_loop_routes])
  then show ?thesis using Some c cache_ok_erase by (simp add: getPath_def Let_def)
qed (use c in \<open>simp add: getPath_def\<close>)

lemma cache_ok_getPathCosVect [intro]:
  assumes c: "cache_ok c"
  shows "cache_ok (snd (getPathCosVect now d t c))"
proof (cases "smap_find c d")
  case (Some ps)
  let ?r = "getPathCosVect_loop now ps search_start"
  have "cache_ok (search_end now d t (fst ?r, snd ?r) c)"
    by (rule cache_ok_search_end [OF c Some]) (simp add: getPathCosVect_kept)
  then show ?thesis using Some c cache_ok_erase by (simp add: getPathCosVect_def Let_def)
qed (use c in \<open>simp add: getPathCosVect_def\<close>)

lemma cache_ok_getPaths [intro]:
  assumes c: "cache_ok c"
  shows "cache_ok (snd (getPaths now d c))"
proof (cases "smap_find c d")
  case (Some ps)
  then show ?thesis
    using c cache_ok_erase cache_ok_kept [OF c Some, of "\<lambda>p. \<not> expired now p"]
    by (auto simp: getPaths_def Let_def)
qed (use c in \<open>simp add: getPaths_def\<close>)

text \<open>What a search returns is a route of the cache, or the empty route.\<close>

lemma getPath_loop_result:
  "s_route (snd (getPath_loop now ps s)) \<in> insert (s_route s) (p_route ` set ps)"
proof (induction now ps s rule: getPath_loop.induct)
  case (2 now p ps s)
  let ?s1 = "s\<lparr>s_cont := s_cont s + 1\<rparr>"
  consider "expired now p" | "\<not> expired now p" "p_status p = VALID"
    | "\<not> expired now p" "p_status p \<noteq> VALID" by blast
  then show ?case
  proof cases
    case 1
    then show ?thesis using 2 by auto
  next
    case k: 2
    show ?thesis
      using "2.IH"(2) [OF k(1) refl k(2) refl refl] k
      by (cases "better ?s1 (if p_vector_cost p \<noteq> []
            then p\<lparr>p_vector_cost := (p_vector_cost p)[0 := s_cost ?s1]\<rparr> else p)")
        (auto simp: case_prod_beta Let_def take_path_def)
  next
    case k: 3
    then show ?thesis using "2.IH"(3) [OF k(1) refl k(2)] by (auto simp: case_prod_beta Let_def)
  qed
qed simp

lemma getPath_route_ipv4:
  assumes c: "cache_ok c" and "getPath now d t c = ((found, r, k), c')"
  shows "set r \<subseteq> range IPv4"
proof (cases "smap_find c d")
  case (Some ps)
  then have "r \<in> insert [] (p_route ` set ps)"
    using assms(2) getPath_loop_result [of now ps search_start]
    by (auto simp: getPath_def Let_def search_start_def split: if_splits)
  then show ?thesis using cache_ok_bucket [OF c Some] by (auto simp: ipv4_bucket_def)
qed (use assms(2) in \<open>simp add: getPath_def\<close>)

lemma srt_of_route_ok:
  assumes "set r \<subseteq> range IPv4"
  shows "\<exists>srt. srt_of_route src dst r = Inr srt \<and> map IPv4 (srt_addrs srt) = r
    \<and> srt_src srt = src \<and> srt_dst srt = dst"
proof -
  have "\<exists>as'. foldE (\<lambda>as x. bindE (toIPv4 x) (\<lambda>a. Inr (as @ [a]))) r as = Inr (as @ as')
      \<and> map IPv4 as' = r" for as
    using assms
  proof (induction r arbitrary: as)
    case (Cons x r)
    then obtain a where a: "x = IPv4 a" by auto
    from Cons.IH [of "as @ [a]"] Cons.prems obtain as' where
      "foldE (\<lambda>as x. bindE (toIPv4 x) (\<lambda>a. Inr (as @ [a]))) r (as @ [a]) = Inr ((as @ [a]) @ as')"
      "map IPv4 as' = r" by auto
    then show ?case using a by (intro exI [of _ "a # as'"]) simp
  qed simp
  from this [of "[]"] show ?thesis by (auto simp: srt_of_route_def)
qed

subsection \<open>The invariant of the agent's data\<close>

definition dsr_inv :: "dsruu \<Rightarrow> bool" where
  "dsr_inv d \<longleftrightarrow> cache_ok (paths d) \<and> links_inv (links d) \<and> rootNode (links d) = IPv4 (my_addr d)"

lemma dsr_inv_paths: "dsr_inv d \<Longrightarrow> cache_ok c \<Longrightarrow> dsr_inv (d\<lparr>paths := c\<rparr>)"
  by (simp add: dsr_inv_def)

lemma dsr_inv_links:
  "dsr_inv d \<Longrightarrow> links_inv l \<Longrightarrow> rootNode l = rootNode (links d) \<Longrightarrow> dsr_inv (d\<lparr>links := l\<rparr>)"
  by (simp add: dsr_inv_def)

lemma dsr_inv_nextPurge [simp]: "dsr_inv (d\<lparr>nextPurge := x\<rparr>) = dsr_inv d"
  by (simp add: dsr_inv_def)

lemma dsr_inv_start: "dsr_inv (dsr_start d)"
  using links_inv_setRoot [OF links_inv_init, of "IPv4 (my_addr d)"]
  by (simp add: dsr_inv_def dsr_start_def) (simp add: setRoot_def link_db_init_def)

lemma foldl_cache_ok:
  "cache_ok c \<Longrightarrow> (\<And>c i. cache_ok c \<Longrightarrow> cache_ok (f c i)) \<Longrightarrow> cache_ok (foldl f c is)"
  by (rule foldl_invariant [where P = cache_ok])

lemma cache_ok_refresh [intro]: "cache_ok c \<Longrightarrow> cache_ok (refresh_intermediate now r t c)"
  unfolding refresh_intermediate_def by (rule foldl_cache_ok) auto

lemma set_take_ipv4: "set r \<subseteq> range IPv4 \<Longrightarrow> set (take n r) \<subseteq> range IPv4"
  by (meson set_take_subset subset_trans)

lemma set_prefixes_cache_ok:
  assumes "set_prefixes now etx dests r v t c = Inr c'" and "cache_ok c" and "set r \<subseteq> range IPv4"
  shows "cache_ok c'"
  using assms(1,2) unfolding set_prefixes_def
  by (rule foldE_invariant)
    (auto simp only: Let_def sum.inject split: if_splits intro!: cache_ok_setPath set_take_ipv4 [OF assms(3)])

lemma set_prefixes_returns:
  "length r \<le> length dests \<Longrightarrow> \<exists>c'. set_prefixes now etx dests r v t c = Inr c'"
  unfolding set_prefixes_def by (rule foldE_returns) (auto simp: Let_def)

lemma oportunity_scan_cache_ok:
  assumes "oportunity_scan now srt etx c = Inr c'" and "cache_ok c"
  shows "cache_ok c'"
proof -
  let ?f = "\<lambda>(neigh, c) i.
     case getPathCosVect now (IPv4 (srt_addrs srt ! i)) 0 c of ((found, routeAux, _, _), c') \<Rightarrow>
       (if found \<and> routeAux = [] then neigh @ [i] else neigh, c')"
  have "cache_ok (snd (foldl ?f ([], c) [0..<length (srt_addrs srt)]))"
  proof (rule foldl_invariant [where P = "\<lambda>x. cache_ok (snd x)"])
    show "cache_ok (snd (?f x i))" if "cache_ok (snd x)" for x i
      using cache_ok_getPathCosVect [OF that] by (auto simp: case_prod_beta)
  qed (simp add: assms(2))
  then show ?thesis
    using assms(1) by (auto simp: oportunity_scan_def Let_def case_prod_beta bindE_Inr_iff)
qed

lemma srt_routes_ipv4:
  "set (srt_route me srt) \<subseteq> range IPv4" "set (srt_route2 me srt) \<subseteq> range IPv4"
  by (auto simp: srt_route_def srt_route2_def split: option.splits)

lemma prefixes_then_set:
  assumes "bindE (set_prefixes now etx dests r v t c) (\<lambda>c1. Inr (if P then setPath now d r w k 0 t c1 else c1))
      = Inr c'" and "cache_ok c" and "set r \<subseteq> range IPv4"
  shows "cache_ok c'"
proof -
  obtain c1 where "set_prefixes now etx dests r v t c = Inr c1"
    and c': "c' = (if P then setPath now d r w k 0 t c1 else c1)"
    using assms(1) by (auto elim!: bindE_InrE)
  then have "cache_ok c1" using set_prefixes_cache_ok assms(2,3) by blast
  then show ?thesis using cache_ok_setPath assms(3) by (simp add: c')
qed

lemma add_forwards_cache_ok:
  "add_forwards now etx me srt t c = Inr c' \<Longrightarrow> cache_ok c \<Longrightarrow> cache_ok c'"
  unfolding add_forwards_def by (rule prefixes_then_set [OF _ _ srt_routes_ipv4(1)])

lemma add_backwards_cache_ok:
  "add_backwards now etx me srt t c = Inr c' \<Longrightarrow> cache_ok c \<Longrightarrow> cache_ok c'"
  unfolding add_backwards_def by (rule prefixes_then_set [OF _ _ srt_routes_ipv4(2)])

lemma ph_srt_add_map_inv:
  assumes i: "dsr_inv d" and r: "ph_srt_add_map now s t flags op d = Inr d'"
  shows "dsr_inv d'"
proof (cases s)
  case (Some srt)
  define d1 where "d1 = (if isPathCacheEmpty (paths d) then d\<lparr>nextPurge := now + wide_usecs t\<rparr> else d)"
  have i1: "dsr_inv d1" using i by (simp add: d1_def)
  then have c: "cache_ok (paths d1)" by (simp add: dsr_inv_def)
  let ?me = "my_addr d"
  from r obtain c1 c2 where
    1: "(if op \<and> \<not> srt_is_first ?me srt \<and> \<not> srt_is_last ?me srt \<and> srt_pos ?me srt = None
      then oportunity_scan now srt (etxActive d) (paths d1) else Inr (paths d1)) = Inr c1"
    and 2: "add_forwards now (etxActive d) ?me srt (narrow t) c1 = Inr c2"
    and 3: "(if srt_is_first ?me srt then Inr (d1\<lparr>paths := c2\<rparr>)
             else if (srt_flags srt AND SRT_BIDIR) AND flags \<noteq> 0
             then bindE (add_backwards now (etxActive d) ?me srt (narrow t) c2) (\<lambda>c3. Inr (d1\<lparr>paths := c3\<rparr>))
             else Inr (d1\<lparr>paths := c2\<rparr>)) = Inr d'"
    unfolding Some ph_srt_add_map_def option.case Let_def d1_def [symmetric] bindE_Inr_iff
    by (auto split: if_split_asm simp: bindE_Inr_iff)
  have "cache_ok c1" using 1 c oportunity_scan_cache_ok by (auto split: if_splits)
  then have c2: "cache_ok c2" using 2 add_forwards_cache_ok by blast
  have "cache_ok (paths d') \<and> d' = d1\<lparr>paths := paths d'\<rparr>"
    using 3 c2 add_backwards_cache_ok by (auto split: if_splits elim!: bindE_InrE)
  then show ?thesis using dsr_inv_paths [OF i1] by metis
qed (use assms in \<open>simp add: ph_srt_add_map_def\<close>)

lemma foldE_add_both:
  assumes "links_inv l" and "\<forall>x\<in>set as. x \<in> range IPv4"
  shows "\<exists>l'. foldE (\<lambda>l i. add_both now (as ! i) (as ! (i + 1)) t l) [0..<length as - 1] l = Inr l'
    \<and> links_inv l' \<and> rootNode l' = rootNode l"
proof (rule foldE_total [where P = "\<lambda>x. links_inv x \<and> rootNode x = rootNode l"])
  fix x i
  assume "i \<in> set [0..<length as - 1]" and x: "links_inv x \<and> rootNode x = rootNode l"
  then have "as ! i \<in> range IPv4" "as ! (i + 1) \<in> range IPv4" using assms(2) by auto
  then show "\<exists>l'. add_both now (as ! i) (as ! (i + 1)) t x = Inr l' \<and> links_inv l' \<and> rootNode l' = rootNode l"
    using links_inv_add_both [of x "as ! i" "as ! (i + 1)" now t] x by auto
qed (simp add: assms(1))

lemma ph_srt_add_link_map_ok:
  assumes i: "dsr_inv d"
  shows "\<exists>d'. ph_srt_add_link_map now s t d = Inr d' \<and> dsr_inv d'"
proof (cases s)
  case None
  then show ?thesis using i by (simp add: ph_srt_add_link_map_def)
next
  case (Some srt)
  let ?as = "map IPv4 (srt_addrs srt)" and ?src = "IPv4 (srt_src srt)" and ?dst = "IPv4 (srt_dst srt)"
  have l: "links_inv (links d)" using i by (simp add: dsr_inv_def)
  show ?thesis
  proof (cases "?as = []")
    case True
    from links_inv_add_both [OF l, of ?src ?dst now "narrow t"] obtain l1 where
      "add_both now ?src ?dst (narrow t) (links d) = Inr l1" "links_inv l1" "rootNode l1 = rootNode (links d)"
      by auto
    then show ?thesis using True Some dsr_inv_links [OF i] by (simp add: ph_srt_add_link_map_def)
  next
    case False
    then have h: "hd ?as \<in> range IPv4" "last ?as \<in> range IPv4"
      using hd_in_set [OF False] last_in_set [OF False] by auto
    from links_inv_add_both [OF l _ h(1), of ?src now "narrow t"] obtain l1 where
      1: "add_both now ?src (hd ?as) (narrow t) (links d) = Inr l1" "links_inv l1"
        "rootNode l1 = rootNode (links d)" by auto
    from links_inv_add_both [OF 1(2) _ h(2), of ?dst now "narrow t"] obtain l2 where
      2: "add_both now ?dst (last ?as) (narrow t) l1 = Inr l2" "links_inv l2"
        "rootNode l2 = rootNode l1" by auto
    have "\<forall>x\<in>set ?as. x \<in> range IPv4" by auto
    from foldE_add_both [OF 2(2) this, of now "narrow t"] obtain l3 where
      3: "foldE (\<lambda>l i. add_both now (?as ! i) (?as ! (i + 1)) (narrow t) l) [0..<length ?as - 1] l2 = Inr l3"
        "links_inv l3" "rootNode l3 = rootNode l2" by blast
    have "ph_srt_add_link_map now s t d = Inr (d\<lparr>links := l3\<rparr>)"
      using False 1(1) 2(1) 3(1) unfolding Some ph_srt_add_link_map_def Let_def option.case
      by (simp only: if_False bindE_simps)
    then show ?thesis using dsr_inv_links [OF i 3(2)] 1(3) 2(3) 3(3) by simp
  qed
qed

lemma ph_add_link_map_ok:
  assumes i: "dsr_inv d"
  shows "\<exists>d'. ph_add_link_map now a b t d = Inr d' \<and> dsr_inv d'"
proof -
  have l: "links_inv (links d)" using i by (simp add: dsr_inv_def)
  from links_inv_add_both [OF l, of "IPv4 a" "IPv4 b" now "narrow t"] obtain l1 where
    "add_both now (IPv4 a) (IPv4 b) (narrow t) (links d) = Inr l1" "links_inv l1"
    "rootNode l1 = rootNode (links d)" by auto
  then show ?thesis using dsr_inv_links [OF i] by (simp add: ph_add_link_map_def)
qed

lemma ph_srt_delete_link_map_ok:
  assumes i: "dsr_inv d"
  shows "\<exists>d'. ph_srt_delete_link_map now a b d = Inr d' \<and> dsr_inv d'"
proof -
  have l: "links_inv (links d)" and c: "cache_ok (paths d)" using i by (simp_all add: dsr_inv_def)
  from links_inv_deleteEdge [OF l, of "IPv4 a" "IPv4 b" True] obtain l1 where
    "deleteEdge (IPv4 a) (IPv4 b) True (links d) = Inr l1" "links_inv l1"
    "rootNode l1 = rootNode (links d)" by auto
  then show ?thesis
    using i cache_ok_erasePathWithLink [OF c]
    by (simp add: ph_srt_delete_link_map_def Let_def dsr_inv_def)
qed

text \<open>A query of the link cache that returns leaves it in order, also one for the node itself.\<close>

lemma getRoute_returns_inv:
  assumes i: "links_inv l" and r: "getRoute_dsr rand now d t l = Some (Inr (res, l'))"
  shows "links_inv l' \<and> rootNode l' = rootNode l"
proof (cases "d = rootNode l")
  case False
  then show ?thesis using links_inv_getRoute [OF i False, of rand now t] r by auto
next
  case True
  have tree: "tree_ok l" using i by (simp add: links_inv_def)
  then have empty: "routeMap l = []" using getRoute_self [OF tree, of rand now t] r True by auto
  have "graph_ok l" using tree by (simp add: tree_ok_def)
  from run_ok [OF this links_inv_length [OF i], of rand now] obtain l1 where
    1: "run rand now NoAddr l = Some (Inr l1)" "tree_ok l1" "purged now l l1" by blast
  have root: "rootNode l1 = rootNode l" using 1(3) by (simp add: purged_def)
  have "smap_find (routeMap l1) d = None"
  proof (rule ccontr)
    assume "smap_find (routeMap l1) d \<noteq> None"
    then obtain st where st: "smap_find (routeMap l1) d = Some st" by auto
    have "route_walk now t d st [] l1 = Some (Inr (Some [], l1))"
      using True root by (subst route_walk.simps) simp
    then have "getRoute_dsr rand now d t l = Some (Inl BadAccess)"
      using 1(1) st empty by (subst getRoute_dsr.simps) (simp add: route_nodes_def)
    then show False using r by simp
  qed
  then have "getRoute_dsr rand now d t l = Some (Inr (None, l1))"
    using 1(1) empty by (subst getRoute_dsr.simps) simp
  then have "l' = l1" using r by simp
  moreover have "links_inv l1"
    using i 1(2) store_ok_evolved [OF _ evolved_purged [OF 1(3)]] 1(3)
    by (auto simp: links_inv_def keys_def purged_def)
  ultimately show ?thesis using root by simp
qed

text \<open>Routes over links visit nodes with lists of links only.\<close>

lemma live_succ_keys: "links_inv db \<Longrightarrow> live_succ now db u \<subseteq> keys db"
  by (fastforce simp: live_succ_def links_inv_def tree_ok_def graph_ok_def link_ok_def keys_find
    link_target_def split: option.splits)

lemma path_in_keys: "path_in G u xs \<Longrightarrow> (\<And>u. G u \<subseteq> K) \<Longrightarrow> set xs \<subseteq> K"
  by (induction xs arbitrary: u) auto

lemma shortest_route_ipv4:
  assumes "links_inv db" and "shortest_route (live_succ now db) s d res"
  shows "\<forall>r. res = Some r \<longrightarrow> set r \<subseteq> range IPv4"
proof (intro allI impI)
  fix r
  assume "res = Some r"
  then have "path_in (live_succ now db) s (r @ [d])" using assms(2) by (simp add: shortest_route_def)
  then have "set (r @ [d]) \<subseteq> keys db" by (rule path_in_keys) (rule live_succ_keys [OF assms(1)])
  then show "set r \<subseteq> range IPv4" using assms(1) by (auto simp: links_inv_def)
qed

subsection \<open>The calls of the agent\<close>

datatype dsr_event =
    FindRoute in_addr in_addr "32 word"
  | AddRoute "dsr_srt option" usecs_t u16
  | AddNeighbour in_addr usecs_t
  | DropNode in_addr
  | DropLink in_addr in_addr
  | LinkFailed in_addr
  | AddLink in_addr in_addr usecs_t

fun dsr_do :: "(nat \<Rightarrow> nat) \<Rightarrow> simtime \<Rightarrow> dsr_event \<Rightarrow> dsruu \<Rightarrow> (fault + dsruu) option" where
  "dsr_do rand now (FindRoute src dst t) d =
     map_option (\<lambda>r. bindE r (\<lambda>(_, d'). Inr d')) (RouteFind rand now t src dst d)"
| "dsr_do rand now (AddRoute s t flags) d = Some (RouteAdd now s t flags d)"
| "dsr_do rand now (AddNeighbour a t) d = Some (Inr (ph_srt_add_node_map now a t d))"
| "dsr_do rand now (DropNode a) d = Some (Inr (ph_srt_delete_node_map now a d))"
| "dsr_do rand now (DropLink a b) d = Some (ph_srt_delete_link_map now a b d)"
| "dsr_do rand now (LinkFailed a) d = Some (linkFailed now a d)"
| "dsr_do rand now (AddLink a b t) d = Some (ph_add_link_map now a b t d)"

text \<open>The states of a node: calls in any order, at any time, that return.\<close>

inductive dsr_reach :: "dsruu \<Rightarrow> dsruu \<Rightarrow> bool" for d0 where
  reach_start: "dsr_reach d0 (dsr_start d0)"
| reach_call: "dsr_reach d0 d \<Longrightarrow> dsr_do rand now ev d = Some (Inr d') \<Longrightarrow> dsr_reach d0 d'"

lemma ph_srt_find_map_inv:
  assumes i: "dsr_inv d" and r: "ph_srt_find_map now src dst t d = Inr (res, d')"
  shows "dsr_inv d'"
proof -
  have c: "cache_ok (paths d)" using i by (simp add: dsr_inv_def)
  obtain res1 d1 where
    1: "(if etxActive d then etx_find now dst t d
        else (case getPath now (IPv4 dst) t (paths d) of ((found, route, _), c) \<Rightarrow>
                Inr (if found then Some route else None, d\<lparr>paths := c\<rparr>))) = Inr (res1, d1)"
    using r unfolding ph_srt_find_map_def by (auto elim!: bindE_InrE)
  have i1: "dsr_inv d1"
  proof (cases "etxActive d")
    case True
    obtain ok rs vs c1 where g: "getPaths now (IPv4 dst) (paths d) = ((ok, rs, vs), c1)"
      by (metis prod.collapse)
    then have "cache_ok c1" using cache_ok_getPaths [OF c, of now "IPv4 dst"] by simp
    then show ?thesis
      using 1 True g dsr_inv_paths [OF i] cache_ok_setPathsTimer
      by (auto simp: etx_find_def Let_def split: if_split_asm elim!: bindE_InrE)
  next
    case False
    then show ?thesis
      using 1 dsr_inv_paths [OF i] cache_ok_getPath [OF c, of now "IPv4 dst" t]
      by (auto simp: case_prod_beta)
  qed
  show ?thesis
  proof (cases res1)
    case None
    then have "d' = d1" using r unfolding ph_srt_find_map_def 1 by simp
    then show ?thesis using i1 by simp
  next
    case (Some route)
    define d2 where "d2 = (if refreshIntermediate d1
      then d1\<lparr>paths := refresh_intermediate now route t (paths d1)\<rparr> else d1)"
    have i2: "dsr_inv d2"
      using i1 dsr_inv_paths [OF i1] cache_ok_refresh by (simp add: d2_def dsr_inv_def)
    have "d' = (if \<not> isPathCacheEmpty (paths d2) \<and> nextPurge d2 \<le> now
        then d2\<lparr>paths := purgePathCache now (paths d2), nextPurge := now + usecs t\<rparr> else d2)"
      using r unfolding ph_srt_find_map_def 1 Some bindE_simps prod.case option.case Let_def
        d2_def [symmetric] by (auto elim!: bindE_InrE)
    then show ?thesis using i2 cache_ok_purge by (simp add: dsr_inv_def)
  qed
qed

lemma dsr_do_inv:
  assumes i: "dsr_inv d" and r: "dsr_do rand now ev d = Some (Inr d')"
  shows "dsr_inv d'"
proof (cases ev)
  case (FindRoute src dst t)
  then obtain res where f: "RouteFind rand now t src dst d = Some (Inr (res, d'))"
    using r by (auto elim!: bindE_InrE)
  show ?thesis
  proof (cases "pathCacheConf d")
    case True
    then show ?thesis using f ph_srt_find_map_inv [OF i] by (simp add: RouteFind_def)
  next
    case False
    then obtain x l where g: "getRoute_dsr rand now (IPv4 dst) t (links d) = Some (Inr (x, l))"
      and d': "d' = d\<lparr>links := l\<rparr>"
      using f by (auto simp: RouteFind_def ph_srt_find_link_route_map_def Let_def elim!: bindE_InrE
        split: option.split_asm)
    have "links_inv (links d)" using i by (simp add: dsr_inv_def)
    from getRoute_returns_inv [OF this g] show ?thesis using dsr_inv_links [OF i] by (simp add: d')
  qed
next
  case (AddRoute s t flags)
  then show ?thesis
    using r ph_srt_add_map_inv [OF i] ph_srt_add_link_map_ok [OF i, of now s t]
    by (auto simp: RouteAdd_def split: if_split_asm)
next
  case (AddNeighbour a t)
  then show ?thesis
    using r i by (auto simp: ph_srt_add_node_map_def dsr_inv_def intro!: cache_ok_setPath)
next
  case (DropNode a)
  then show ?thesis using r i by (auto simp: ph_srt_delete_node_map_def dsr_inv_def)
next
  case (DropLink a b)
  then show ?thesis using r ph_srt_delete_link_map_ok [OF i, of now a b] by auto
next
  case (LinkFailed a)
  then show ?thesis using r ph_srt_delete_link_map_ok [OF i, of now "my_addr d" a] by (auto simp: linkFailed_def)
next
  case (AddLink a b t)
  then show ?thesis using r ph_add_link_map_ok [OF i, of now a b t] by auto
qed

lemma dsr_reach_inv: "dsr_reach d0 d \<Longrightarrow> dsr_inv d"
  by (induction rule: dsr_reach.induct) (auto intro: dsr_inv_start dsr_do_inv)

text \<open>
  The calls the agent makes: it asks for routes to other nodes, adds routes with no flags and with
  either no costs or one per hop, and, as far as this lemma goes, the expected transmission count is off.
\<close>

definition proper_call :: "dsruu \<Rightarrow> dsr_event \<Rightarrow> bool" where
  "proper_call d ev = (case ev of
     FindRoute src dst t \<Rightarrow> (if pathCacheConf d then \<not> etxActive d else dst \<noteq> my_addr d)
   | AddRoute (Some srt) t flags \<Rightarrow> pathCacheConf d \<longrightarrow> flags = 0
       \<and> (srt_cost srt = [] \<or> length (srt_addrs srt) < length (srt_cost srt))
   | _ \<Rightarrow> True)"

lemma ph_srt_find_map_returns:
  assumes i: "dsr_inv d" and "\<not> etxActive d"
  shows "\<exists>r. ph_srt_find_map now src dst t d = Inr r"
proof -
  obtain found route k c where g: "getPath now (IPv4 dst) t (paths d) = ((found, route, k), c)"
    by (metis prod.collapse)
  have "set route \<subseteq> range IPv4"
    using getPath_route_ipv4 [OF _ g] i by (simp add: dsr_inv_def)
  from srt_of_route_ok [OF this, of src dst] obtain srt where "srt_of_route src dst route = Inr srt" by blast
  then show ?thesis using assms(2) g by (simp add: ph_srt_find_map_def Let_def)
qed

lemma ph_srt_add_map_returns:
  assumes "srt_cost srt = [] \<or> length (srt_addrs srt) < length (srt_cost srt)"
  shows "\<exists>d'. ph_srt_add_map now (Some srt) t 0 False d = Inr d'"
proof -
  have "length (takeWhile P xs) \<le> length xs" for P and xs :: "in_addr list"
    by (rule length_takeWhile_le)
  then have "\<not> costs_short (my_addr d) srt"
    using assms by (auto simp: costs_short_def srt_pos_def not_le intro: le_less_trans)
  moreover obtain c' where "add_forwards now (etxActive d) (my_addr d) srt (narrow t) (paths d) = Inr c'"
    using set_prefixes_returns [of "srt_route (my_addr d) srt" "srt_route (my_addr d) srt" now
        "etxActive d" "srt_costVect (my_addr d) srt" "narrow t" "paths d"]
    by (auto simp: add_forwards_def)
  ultimately show ?thesis by (auto simp: ph_srt_add_map_def Let_def)
qed

text \<open>
  C10: in every state a node reaches by calls (requests, additions, deleted links and failures; not
  cleaning) in any order and at any time, both caches satisfy their invariant and the link cache is
  rooted at the node; and a proper call returns without an undefined read, a thrown error or an
  endless loop, and keeps it so.
\<close>

theorem dsr_calls_safe:
  assumes "dsr_reach d0 d" and "proper_call d ev"
  shows "dsr_inv d \<and> (\<exists>d'. dsr_do rand now ev d = Some (Inr d') \<and> dsr_inv d')"
proof -
  have i: "dsr_inv d" using assms(1) by (rule dsr_reach_inv)
  have "\<exists>d'. dsr_do rand now ev d = Some (Inr d')"
  proof (cases ev)
    case (FindRoute src dst t)
    show ?thesis
    proof (cases "pathCacheConf d")
      case True
      then have "\<exists>r. ph_srt_find_map now src dst t d = Inr r"
        using assms(2) FindRoute by (intro ph_srt_find_map_returns [OF i]) (simp add: proper_call_def)
      then show ?thesis using True FindRoute by (auto simp: RouteFind_def)
    next
      case False
      then have dst: "IPv4 dst \<noteq> rootNode (links d)"
        using assms(2) FindRoute i by (simp add: proper_call_def dsr_inv_def)
      have l: "links_inv (links d)" using i by (simp add: dsr_inv_def)
      from links_inv_getRoute [OF l dst, of rand now t] obtain res l' where
        g: "getRoute_dsr rand now (IPv4 dst) t (links d) = Some (Inr (res, l'))"
           "shortest_route (live_succ now (links d)) (rootNode (links d)) (IPv4 dst) res" by blast
      have "\<exists>srt. srt_of_route src dst r = Inr srt" if "res = Some r" for r
        using shortest_route_ipv4 [OF l g(2)] srt_of_route_ok that by blast
      then show ?thesis
        using False FindRoute g(1)
        by (cases res) (auto simp: RouteFind_def ph_srt_find_link_route_map_def Let_def)
    qed
  next
    case (AddRoute s t flags)
    show ?thesis
    proof (cases "pathCacheConf d \<and> s \<noteq> None")
      case True
      then obtain srt where "s = Some srt" by auto
      then show ?thesis
        using True assms(2) AddRoute ph_srt_add_map_returns [of srt now t d]
        by (auto simp: proper_call_def RouteAdd_def)
    next
      case False
      then show ?thesis
        using AddRoute ph_srt_add_link_map_ok [OF i, of now s t]
        by (auto simp: RouteAdd_def ph_srt_add_map_def)
    qed
  next
    case (DropLink a b)
    then show ?thesis using ph_srt_delete_link_map_ok [OF i, of now a b] by auto
  next
    case (LinkFailed a)
    then show ?thesis
      using ph_srt_delete_link_map_ok [OF i, of now "my_addr d" a] by (auto simp: linkFailed_def)
  next
    case (AddLink a b t)
    then show ?thesis using ph_add_link_map_ok [OF i, of now a b t] by auto
  qed simp_all
  then show ?thesis using i dsr_do_inv by blast
qed

subsection \<open>Routes over links\<close>

text \<open>
  C11: without the path cache, a request for a route to another node returns a source route whose
  links are all live and which no other path of live links undercuts in length, or nothing when
  the destination cannot be reached.
\<close>

theorem link_route_shortest:
  assumes "dsr_reach d0 d" and conf: "\<not> pathCacheConf d" and dst: "dst \<noteq> my_addr d"
  shows "\<exists>res d'. RouteFind rand now t src dst d = Some (Inr (res, d'))
    \<and> shortest_route (live_succ now (links d)) (IPv4 (my_addr d)) (IPv4 dst)
        (map_option (\<lambda>s. map IPv4 (srt_addrs s)) res)"
proof -
  have i: "dsr_inv d" using assms(1) by (rule dsr_reach_inv)
  then have l: "links_inv (links d)" and root: "rootNode (links d) = IPv4 (my_addr d)"
    by (simp_all add: dsr_inv_def)
  have "IPv4 dst \<noteq> rootNode (links d)" using dst root by simp
  from links_inv_getRoute [OF l this, of rand now t] obtain res l' where
    g: "getRoute_dsr rand now (IPv4 dst) t (links d) = Some (Inr (res, l'))"
       "shortest_route (live_succ now (links d)) (rootNode (links d)) (IPv4 dst) res" by blast
  show ?thesis
  proof (cases res)
    case None
    then show ?thesis using g conf root
      by (simp add: RouteFind_def ph_srt_find_link_route_map_def Let_def)
  next
    case (Some r)
    have "set r \<subseteq> range IPv4" using shortest_route_ipv4 [OF l] g(2) Some by simp
    from srt_of_route_ok [OF this, of src dst] obtain srt where
      "srt_of_route src dst r = Inr srt" "map IPv4 (srt_addrs srt) = r" by blast
    then show ?thesis using g conf root Some
      by (simp add: RouteFind_def ph_srt_find_link_route_map_def Let_def)
  qed
qed

text \<open>
  C40: stopping a node frees the links but keeps the routes computed over them: the next request
  for a node that was in the tree, before any link is added, reads a freed link.
\<close>

theorem clean_then_find_faults:
  assumes "dsr_reach d0 d" and "\<not> pathCacheConf d" and "dst \<noteq> my_addr d"
    and "smap_find (routeMap (links d)) (IPv4 dst) \<noteq> None"
  shows "\<exists>d'. cleanAllDataBase d = Inr d' \<and> RouteFind rand now t src dst d' = Some (Inl BadAccess)"
proof -
  have i: "dsr_inv d" using assms(1) by (rule dsr_reach_inv)
  then have l: "links_inv (links d)" and root: "rootNode (links d) = IPv4 (my_addr d)"
    by (simp_all add: dsr_inv_def)
  obtain E where E: "cleanLinkArray (links d) = Inr ((links d)\<lparr>edges := E, linkArray := []\<rparr>)"
    "\<forall>u. \<forall>p\<in>set (links_of (links d) u). E p = None" using cleanLinkArray_frees [OF l] by blast
  obtain st where "smap_find (routeMap (links d)) (IPv4 dst) = Some st" using assms(4) by auto
  from getRoute_dangling [OF _ this _ E(2), of rand now t] l root assms(3)
  have "getRoute_dsr rand now (IPv4 dst) t ((links d)\<lparr>edges := E, linkArray := []\<rparr>) = Some (Inl BadAccess)"
    by (simp add: links_inv_def)
  then show ?thesis
    using E(1) assms(2)
    by (simp add: cleanAllDataBase_def RouteFind_def ph_srt_find_link_route_map_def)
qed

subsection \<open>What is recorded of a source route\<close>

definition sub_costs :: "bool \<Rightarrow> real list \<Rightarrow> nat \<Rightarrow> real list" where
  "sub_costs etx v i = (if etx \<and> i + 1 < length v then take (i + 1) v else [])"

lemma live_set_prefixes:
  assumes ok: "paths_ok c" and "length r \<le> length dests" and "t \<noteq> 0"
  shows "\<exists>c'. set_prefixes now etx dests r v t c = Inr c' \<and> paths_ok c' \<and>
    (\<forall>x q. live now c' x q =
      (if \<exists>i<length r. x = dests ! i \<and> q = take i r
       then Some (0, now + usecs t, sub_costs etx v (length q)) else live now c x q))"
proof -
  let ?f = "\<lambda>c i. if length dests \<le> i then Inl BadAccess
        else
          let subRoute = take i r;
              subCost = (if etx \<and> i + 1 < length v then take (i + 1) v else [])
          in Inr (setPath now (dests ! i) subRoute subCost (of_nat (length subRoute + 1)) 0 t c)"
  have "\<exists>c'. foldE ?f [0..<n] c = Inr c' \<and> paths_ok c' \<and>
    (\<forall>x q. live now c' x q =
      (if \<exists>i<n. x = dests ! i \<and> q = take i r
       then Some (0, now + usecs t, sub_costs etx v (length q)) else live now c x q))"
    if "n \<le> length r" for n
    using that
  proof (induction n)
    case 0
    then show ?case using ok by simp
  next
    case (Suc n)
    then obtain c1 where c1: "foldE ?f [0..<n] c = Inr c1" "paths_ok c1"
      "\<forall>x q. live now c1 x q = (if \<exists>i<n. x = dests ! i \<and> q = take i r
         then Some (0, now + usecs t, sub_costs etx v (length q)) else live now c x q)" by auto
    let ?c' = "setPath now (dests ! n) (take n r) (sub_costs etx v n) (of_nat (length (take n r) + 1)) 0 t c1"
    have "foldE ?f [0..<Suc n] c = Inr ?c'"
      using c1(1) Suc.prems assms(2) by (simp add: foldE_append sub_costs_def Let_def)
    moreover have "live now ?c' x q = (if \<exists>i<Suc n. x = dests ! i \<and> q = take i r
         then Some (0, now + usecs t, sub_costs etx v (length q)) else live now c x q)" for x q
      unfolding live_setPath [OF c1(2)] using Suc.prems assms(3) c1(3)
      by (auto simp: less_Suc_eq)
    ultimately show ?case using setPath_ok [OF c1(2)] by blast
  qed
  from this [of "length r"] show ?thesis by (simp add: set_prefixes_def)
qed

lemma live_add_forwards:
  assumes ok: "paths_ok c" and "t \<noteq> 0"
  shows "\<exists>c'. add_forwards now etx me srt t c = Inr c' \<and>
    (\<forall>x q. live now c' x q =
      (if me \<noteq> srt_dst srt \<and> x = IPv4 (srt_dst srt) \<and> q = srt_route me srt
       then Some (0, now + usecs t, srt_costVect me srt)
       else if \<exists>i<length (srt_route me srt). x = srt_route me srt ! i \<and> q = take i (srt_route me srt)
       then Some (0, now + usecs t, sub_costs etx (srt_costVect me srt) (length q)) else live now c x q))"
proof -
  obtain c1 where c1: "set_prefixes now etx (srt_route me srt) (srt_route me srt) (srt_costVect me srt) t c = Inr c1"
    "paths_ok c1" "\<forall>x q. live now c1 x q =
      (if \<exists>i<length (srt_route me srt). x = srt_route me srt ! i \<and> q = take i (srt_route me srt)
       then Some (0, now + usecs t, sub_costs etx (srt_costVect me srt) (length q)) else live now c x q)"
    using live_set_prefixes [OF ok order_refl assms(2)] by blast
  let ?c' = "if me \<noteq> srt_dst srt
    then setPath now (IPv4 (srt_dst srt)) (srt_route me srt) (srt_costVect me srt)
           (of_nat (length (srt_route me srt) + 1)) 0 t c1 else c1"
  have "add_forwards now etx me srt t c = Inr ?c'" by (simp add: add_forwards_def c1(1))
  moreover have "live now ?c' x q =
      (if me \<noteq> srt_dst srt \<and> x = IPv4 (srt_dst srt) \<and> q = srt_route me srt
       then Some (0, now + usecs t, srt_costVect me srt)
       else if \<exists>i<length (srt_route me srt). x = srt_route me srt ! i \<and> q = take i (srt_route me srt)
       then Some (0, now + usecs t, sub_costs etx (srt_costVect me srt) (length q)) else live now c x q)" for x q
    using c1(3) assms(2) by (auto simp: live_setPath [OF c1(2)])
  ultimately show ?thesis by blast
qed

lemma ph_srt_add_map_forwards:
  assumes "add_forwards now (etxActive d) (my_addr d) srt (narrow t) (paths d) = Inr c'"
    and "\<not> costs_short (my_addr d) srt" and "srt_is_first (my_addr d) srt \<or> flags = 0"
  shows "\<exists>d'. ph_srt_add_map now (Some srt) t flags False d = Inr d' \<and> paths d' = c'"
  using assms by (auto simp: ph_srt_add_map_def Let_def)

text \<open>
  C32: with a time-out that is not 0, the source of a route to another node records, for every node on it, the part of the route before that
  node, and for the destination the whole of it, all valid until the time-out; nothing else in
  the cache changes.
\<close>

theorem source_records_prefixes:
  assumes ok: "paths_ok (paths d)" and src: "srt_src srt = my_addr d" and dst: "srt_dst srt \<noteq> my_addr d"
    and t: "narrow t \<noteq> 0" and r: "r = map IPv4 (srt_addrs srt)"
  shows "\<exists>d'. ph_srt_add_map now (Some srt) t flags False d = Inr d' \<and> (\<forall>x q. live now (paths d') x q =
      (if x = IPv4 (srt_dst srt) \<and> q = r then Some (0, now + usecs (narrow t), srt_costs srt)
       else if \<exists>i<length r. x = r ! i \<and> q = take i r
       then Some (0, now + usecs (narrow t), sub_costs (etxActive d) (srt_costs srt) (length q))
       else live now (paths d) x q))"
proof -
  have f: "srt_is_first (my_addr d) srt" using src by (simp add: srt_is_first_def)
  then have p: "srt_pos (my_addr d) srt = None" by (simp add: srt_pos_def)
  have v: "srt_route (my_addr d) srt = r" "srt_costVect (my_addr d) srt = srt_costs srt"
    using f p by (simp_all add: srt_route_def srt_costVect_def r)
  obtain c' where c': "add_forwards now (etxActive d) (my_addr d) srt (narrow t) (paths d) = Inr c'"
    "\<forall>x q. live now c' x q =
      (if x = IPv4 (srt_dst srt) \<and> q = r then Some (0, now + usecs (narrow t), srt_costs srt)
       else if \<exists>i<length r. x = r ! i \<and> q = take i r
       then Some (0, now + usecs (narrow t), sub_costs (etxActive d) (srt_costs srt) (length q))
       else live now (paths d) x q)"
    using live_add_forwards [OF ok t, of now "etxActive d" "my_addr d" srt] dst unfolding v by auto
  have "\<not> costs_short (my_addr d) srt" by (simp add: costs_short_def p)
  from ph_srt_add_map_forwards [OF c'(1) this] f c'(2) show ?thesis by blast
qed

text \<open>
  Any other node but the destination records the destination wrongly: as reached over the
  nodes between the source and itself when it is on the route, so away from the destination, and as
  a neighbour when it is not on the route at all.
\<close>

theorem intermediate_records_backwards:
  assumes ok: "paths_ok (paths d)" and src: "srt_src srt \<noteq> my_addr d" and dst: "srt_dst srt \<noteq> my_addr d"
    and t: "narrow t \<noteq> 0" and cost: "srt_cost srt = []"
  shows "\<exists>d'. ph_srt_add_map now (Some srt) t 0 False d = Inr d' \<and>
    live now (paths d') (IPv4 (srt_dst srt))
      (if my_addr d \<in> set (srt_addrs srt) then map IPv4 (takeWhile (\<lambda>a. a \<noteq> my_addr d) (srt_addrs srt)) else [])
    = Some (0, now + usecs (narrow t), [])"
proof -
  let ?me = "my_addr d"
  have nf: "\<not> srt_is_first ?me srt" "\<not> srt_is_last ?me srt"
    using src dst by (simp_all add: srt_is_first_def srt_is_last_def)
  have route: "srt_route ?me srt = (if ?me \<in> set (srt_addrs srt)
      then map IPv4 (takeWhile (\<lambda>a. a \<noteq> ?me) (srt_addrs srt)) else [])"
    using nf by (simp add: srt_route_def srt_pos_def takeWhile_eq_take [symmetric])
  have costs: "srt_costVect ?me srt = []" using nf cost
    by (simp add: srt_costVect_def srt_costs_def split: option.split)
  obtain c' where c': "add_forwards now (etxActive d) ?me srt (narrow t) (paths d) = Inr c'"
    "live now c' (IPv4 (srt_dst srt)) (srt_route ?me srt) = Some (0, now + usecs (narrow t), [])"
    using live_add_forwards [OF ok t, of now "etxActive d" ?me srt] dst costs by auto
  have "\<not> costs_short ?me srt" using cost by (simp add: costs_short_def split: option.split)
  from ph_srt_add_map_forwards [OF c'(1) this, of 0] c'(2) show ?thesis unfolding route by auto
qed

end
