(* ===== verification/Dsr_Agent_Frame.thy ===== *)
theory Dsr_Agent_Frame
  imports Dsr_Events Dsr_Access_Spec
begin

text \<open>
  What the operations of the agent leave alone, and the invariants of its buffers and tables: lemmas
  for each function, from the calls to the route caches up to the functions of the maintenance buffer
  that call each other.
\<close>

subsection \<open>The configuration of the data base\<close>

definition db_conf :: "dsruu \<Rightarrow> in_addr \<times> bool \<times> bool \<times> bool \<times> (in_addr \<Rightarrow> etx_entry option)" where
  "db_conf d = (my_addr d, etxActive d, refreshIntermediate d, pathCacheConf d, etxNeighborTable d)"

lemma db_conf_simps [simp]:
  "db_conf (d\<lparr>paths := c\<rparr>) = db_conf d" "db_conf (d\<lparr>links := l\<rparr>) = db_conf d"
  "db_conf (d\<lparr>nextPurge := t\<rparr>) = db_conf d"
  by (simp_all add: db_conf_def)

lemma etx_find_conf: "etx_find now dst t d = Inr (res, d') \<Longrightarrow> db_conf d' = db_conf d"
  by (auto simp: etx_find_def Let_def case_prod_beta split: if_splits elim!: bindE_InrE)

lemma ph_srt_find_map_conf:
  "ph_srt_find_map now src dst t d = Inr (res, d') \<Longrightarrow> db_conf d' = db_conf d"
  by (auto simp: ph_srt_find_map_def Let_def case_prod_beta dest!: etx_find_conf
      split: if_splits option.splits elim!: bindE_InrE)

lemma ph_srt_add_map_conf: "ph_srt_add_map now s t f op d = Inr d' \<Longrightarrow> db_conf d' = db_conf d"
  by (auto simp: ph_srt_add_map_def Let_def split: if_splits option.splits elim!: bindE_InrE)

lemma ph_srt_add_link_map_conf: "ph_srt_add_link_map now s t d = Inr d' \<Longrightarrow> db_conf d' = db_conf d"
  by (auto simp: ph_srt_add_link_map_def Let_def split: option.splits elim!: bindE_InrE)

lemma RouteFind_conf: "RouteFind rand now t src dst d = Some (Inr (res, d')) \<Longrightarrow> db_conf d' = db_conf d"
  by (auto simp: RouteFind_def ph_srt_find_link_route_map_def Let_def dest!: ph_srt_find_map_conf
      split: if_splits option.splits elim!: bindE_InrE)

lemma RouteAdd_conf: "RouteAdd now s t f d = Inr d' \<Longrightarrow> db_conf d' = db_conf d"
  by (auto simp: RouteAdd_def dest: ph_srt_add_map_conf ph_srt_add_link_map_conf split: if_splits)

lemma other_calls_conf:
  "db_conf (ph_srt_add_node_map now x t d) = db_conf d"
  "ph_srt_delete_link_map now x y d = Inr d' \<Longrightarrow> db_conf d' = db_conf d"
  "ph_add_link_map now x y t d = Inr d' \<Longrightarrow> db_conf d' = db_conf d"
  "cleanAllDataBase d = Inr d' \<Longrightarrow> db_conf d' = db_conf d"
  by (auto simp: ph_srt_add_node_map_def ph_srt_delete_link_map_def ph_add_link_map_def
      cleanAllDataBase_def Let_def elim!: bindE_InrE)

subsection \<open>Frames\<close>

text \<open>What no handler changes, and what the maintenance buffer does not touch.\<close>

definition agent_view :: "agent \<Rightarrow> _" where
  "agent_view a = (ag_time a, ag_conf a, db_conf (ag_db a), nodeActive a, MaxMaintBuff a, buffMaxlen a)"

definition agent_tables :: "agent \<Rightarrow> _" where
  "agent_tables a = (dsrRreqTbl a, rreqInfoMap a, rreq_seqno a, gratRrep a, grat_rrep_tbl_timer a,
     packetBuffer a, send_buf_timer a)"

lemmas agent_parts = agent_view_def agent_tables_def

lemma myaddr_view: "agent_view a = agent_view b \<Longrightarrow> myaddr a = myaddr b"
  by (simp add: agent_view_def db_conf_def)

subsection \<open>The maintenance buffer in order\<close>

definition maint_ok :: "agent \<Rightarrow> bool" where
  "maint_ok a \<longleftrightarrow> length (maint_buf a) \<le> MaxMaintBuff a \<and> sorted (map fst (maint_buf a))
    \<and> distinct (map (mt_key \<circ> snd) (maint_buf a))
    \<and> (\<forall>(t, m)\<in>set (maint_buf a). mt_expires m = t \<and> mt_key m < ag_key a \<and> 10000 \<le> mt_rto m)"

definition base_ok :: "agent \<Rightarrow> bool" where
  "base_ok a \<longleftrightarrow> neighbors_ok a \<and> maint_ok a \<and> 0 < MaxMaintBuff a"

text \<open>One relation for the functions that only touch the buffer, the neighbours and the data base.\<close>

definition maint_rel :: "agent \<Rightarrow> agent \<Rightarrow> bool" where
  "maint_rel a b \<longleftrightarrow> agent_view b = agent_view a \<and> agent_tables b = agent_tables a \<and> (base_ok a \<longrightarrow> base_ok b)"

lemma maint_rel_refl [simp]: "maint_rel a a"
  by (simp add: maint_rel_def)

lemma maint_rel_trans: "maint_rel a b \<Longrightarrow> maint_rel b c \<Longrightarrow> maint_rel a c"
  by (simp add: maint_rel_def)

lemma maint_rel_outputs:
  assumes "agent_view b = agent_view a" "agent_tables b = agent_tables a"
    "neighborMap b = neighborMap a" "maint_buf b = maint_buf a" "ag_key b = ag_key a"
  shows "maint_rel a b"
  using assms by (simp add: maint_rel_def base_ok_def maint_ok_def neighbors_ok_def agent_view_def)

lemma dsr_emit_rel: "maint_rel a (dsr_emit e a)"
  by (rule maint_rel_outputs) (simp_all add: dsr_emit_def agent_parts)

lemma drop_payload_rel: "maint_rel a (drop_payload p a)"
  by (simp add: drop_payload_def dsr_emit_rel split: option.split)

lemma db_rel: "db_conf d = db_conf (ag_db a) \<Longrightarrow> maint_rel a (a\<lparr>ag_db := d\<rparr>)"
  by (rule maint_rel_outputs) (simp_all add: agent_parts)

lemma xmit_now_rel: "xmit_now dp a = Some (Inr b) \<Longrightarrow> maint_rel a b"
  by (auto simp: xmit_now_def dsr_emit_rel drop_payload_rel split: if_splits elim!: bindE_InrE)

lemma dsr_rtc_find_rel: "dsr_rtc_find src dst a = Some (Inr (r, b)) \<Longrightarrow> maint_rel a b"
  unfolding dsr_rtc_find_def by (auto elim!: bindO_InrE intro!: db_rel RouteFind_conf)

lemma dsr_rtc_add_rel: "dsr_rtc_add srt a = Some (Inr b) \<Longrightarrow> maint_rel a b"
  unfolding dsr_rtc_add_def by (auto elim!: bindE_InrE intro!: db_rel RouteAdd_conf)

lemma dsr_rerr_send_rel: "dsr_rerr_send trig unr a = Some (Inr b) \<Longrightarrow> maint_rel a b"
  unfolding dsr_rerr_send_def
  by (auto split: if_splits option.splits elim!: bindO_InrE
      dest!: xmit_now_rel dsr_rtc_find_rel intro: maint_rel_trans)

lemma ack_sends_rel:
  "dsr_ack_send x i a = Some (Inr b) \<Longrightarrow> maint_rel a b"
  "dsr_ack_req_send x i a = Some (Inr b) \<Longrightarrow> maint_rel a b"
  "dsr_ack_req_send_pkt dp a = Some (Inr b) \<Longrightarrow> maint_rel a b"
  by (auto simp: dsr_ack_send_def dsr_ack_req_send_def dsr_ack_req_send_pkt_def drop_payload_rel dsr_emit_rel
      dest: xmit_now_rel split: if_splits option.splits)

lemma dsr_rrep_send_rel: "dsr_rrep_send s t a = Some (Inr b) \<Longrightarrow> maint_rel a b"
  unfolding dsr_rrep_send_def by (auto elim!: bindO_InrE dest!: xmit_now_rel)

lemma salvage_packet_rel: "salvage_packet dp a = Some (Inr (r, b)) \<Longrightarrow> maint_rel a b"
  unfolding salvage_packet_def
  by (auto split: option.splits if_splits elim!: bindO_InrE bindE_InrE dest!: dsr_rtc_find_rel)

lemma neigh_update_rel:
  assumes "\<And>n. neighbor_ok n \<Longrightarrow> neighbor_ok (f n)"
  shows "maint_rel a (neigh_update x f a)"
proof -
  have "neighbors_ok a \<Longrightarrow> neighbors_ok (neigh_update x f a)" by (rule neighbors_ok_update [OF _ assms])
  then show ?thesis
    by (auto simp: maint_rel_def base_ok_def maint_ok_def neigh_update_def agent_parts split: option.splits)
qed

lemma neigh_ops_rel:
  "maint_rel a (neigh_tbl_set_ack_req_time x a)" "maint_rel a (neigh_tbl_id_inc x a)"
  "maint_rel a (neigh_tbl_set_rto x rtt a)"
  unfolding neigh_tbl_set_ack_req_time_def neigh_tbl_id_inc_def neigh_tbl_set_rto_def
  by (auto intro!: neigh_update_rel neighbor_ok_sample simp: neighbor_ok_def [of "nb_id_update _ _"]
      neighbor_ok_def [of "nb_last_ack_req_update _ _"]) (auto simp: neighbor_ok_def)

lemma neigh_tbl_add_rel: "maint_rel a (neigh_tbl_add x hw a)"
  using neighbors_ok_ops(1) [of a x hw]
  by (auto simp: maint_rel_def base_ok_def maint_ok_def neigh_tbl_add_def agent_parts split: option.splits)

subsection \<open>Operations of the buffer\<close>

lemma set_mm_insert: "set (mm_insert k v xs) = insert (k, v) (set xs)"
  by (induction k v xs rule: mm_insert.induct) auto

lemma length_mm_insert [simp]: "length (mm_insert k v xs) = Suc (length xs)"
  by (induction k v xs rule: mm_insert.induct) auto

lemma sorted_mm_insert: "sorted (map fst xs) \<Longrightarrow> sorted (map fst (mm_insert k v xs))"
proof (induction k v xs rule: mm_insert.induct)
  case (2 k v k' v' r)
  then show ?case using set_mm_insert [of k v r] by (auto simp: not_less)
qed simp

lemma distinct_mm_insert:
  "distinct (map (f \<circ> snd) (mm_insert k v xs)) \<longleftrightarrow> distinct (map (f \<circ> snd) xs) \<and> f v \<notin> f ` snd ` set xs"
proof (induction k v xs rule: mm_insert.induct)
  case (2 k v k' v' r)
  then show ?case using set_mm_insert [of k v r] by (auto simp: image_iff)
qed simp

lemma maint_insert_ok:
  assumes "maint_insert m a = Some (Inr b)" and "base_ok a"
    and "mt_key m < ag_key a" and "mt_key m \<notin> mt_key ` snd ` set (maint_buf a)" and "10000 \<le> mt_rto m"
  shows "base_ok b"
proof (cases "MaxMaintBuff a \<le> length (maint_buf a)")
  case False
  then have "b = a\<lparr>maint_buf := mm_insert (mt_expires m) m (maint_buf a)\<rparr>"
    using assms(1) by (simp add: maint_insert_def)
  then show ?thesis using assms False
    by (auto simp: base_ok_def maint_ok_def neighbors_ok_def set_mm_insert sorted_mm_insert distinct_mm_insert)
next
  case True
  then obtain t old r where r: "maint_buf a = (t, old) # r"
    using assms(2) by (cases "maint_buf a") (auto simp: base_ok_def)
  let ?a = "a\<lparr>maint_buf := mm_insert (mt_expires m) m r\<rparr>"
  have "b = drop_payload (dp_payload (mt_dp old)) ?a" using assms(1) True r by (simp add: maint_insert_def)
  moreover have "base_ok ?a" using assms(2-5) r
    by (auto simp: base_ok_def maint_ok_def neighbors_ok_def set_mm_insert sorted_mm_insert distinct_mm_insert)
  ultimately show ?thesis using drop_payload_rel [of ?a] by (auto simp: maint_rel_def)
qed

lemma maint_insert_frame:
  "maint_insert m a = Some (Inr b) \<Longrightarrow> agent_view b = agent_view a \<and> agent_tables b = agent_tables a"
  by (auto simp: maint_insert_def drop_payload_def dsr_emit_def agent_parts split: if_splits list.splits option.splits)

lemma maint_filter_rel: "maint_rel a (a\<lparr>maint_buf := filter P (maint_buf a)\<rparr>)"
proof -
  have "distinct (map f (filter P xs))" if "distinct (map f xs)" for f :: "_ \<Rightarrow> nat" and xs
    using that by (rule distinct_map_filter)
  then show ?thesis
    by (auto simp: maint_rel_def base_ok_def maint_ok_def neighbors_ok_def agent_parts sorted_filter
        intro: le_trans [OF length_filter_le])
qed

lemma maint_erase_rel: "maint_rel a (maint_erase k a)"
  unfolding maint_erase_def by (rule maint_filter_rel)

lemma maint_update_rel:
  assumes "\<And>m. mt_key (f m) = mt_key m \<and> mt_expires (f m) = mt_expires m \<and> mt_rto (f m) = mt_rto m"
  shows "maint_rel a (maint_update k f a)"
proof -
  let ?g = "\<lambda>(t :: simtime, m). (t, if mt_key m = k then f m else m)"
  have "map fst (map ?g xs) = map fst xs" for xs by (induction xs) auto
  moreover have "map (mt_key \<circ> snd) (map ?g xs) = map (mt_key \<circ> snd) xs" for xs
    using assms by (induction xs) auto
  ultimately show ?thesis using assms
    by (auto simp: maint_rel_def base_ok_def maint_ok_def neighbors_ok_def agent_parts maint_update_def
        simp del: map_map)
qed

lemma ack_timer_rel: "maint_rel a (a\<lparr>ack_timer := t\<rparr>)"
  by (rule maint_rel_outputs) (simp_all add: agent_parts)

lemma maint_delete_rel: "maint_rel a (maint_delete P a)"
proof -
  have "maint_delete P a = (a\<lparr>maint_buf := filter (\<lambda>(_, m). \<not> P m) (maint_buf a)\<rparr>)\<lparr>ack_timer := None\<rparr>"
    by (simp add: maint_delete_def)
  then show ?thesis by (metis maint_filter_rel ack_timer_rel maint_rel_trans)
qed

subsection \<open>The functions that call each other\<close>

text \<open>The statement for all six at once, by induction on the fuel they share.\<close>

definition calls_rel :: "nat \<Rightarrow> bool" where
  "calls_rel n \<longleftrightarrow>
     (\<forall>dp a b. omnet_xmit n dp a = Some (Inr b) \<longrightarrow> maint_rel a b)
   \<and> (\<forall>dp a r b. maint_buf_add n dp a = Some (Inr (r, b)) \<longrightarrow> maint_rel a b)
   \<and> (\<forall>a b. maint_buf_set_timeout n a = Some (Inr b) \<longrightarrow> maint_rel a b)
   \<and> (\<forall>a b. maint_buf_timeout n a = Some (Inr b) \<longrightarrow> maint_rel a b)
   \<and> (\<forall>dp a b. maint_buf_salvage n dp a = Some (Inr b) \<longrightarrow> maint_rel a b)
   \<and> (\<forall>x k a b. salvage_others n x k a = Some (Inr b) \<longrightarrow> maint_rel a b)"

lemma calls_relD:
  assumes "calls_rel n"
  shows "omnet_xmit n dp a = Some (Inr b) \<Longrightarrow> maint_rel a b"
    "maint_buf_add n dp a = Some (Inr (r, b)) \<Longrightarrow> maint_rel a b"
    "maint_buf_set_timeout n a = Some (Inr b) \<Longrightarrow> maint_rel a b"
    "maint_buf_timeout n a = Some (Inr b) \<Longrightarrow> maint_rel a b"
    "maint_buf_salvage n dp a = Some (Inr b) \<Longrightarrow> maint_rel a b"
    "salvage_others n x k a = Some (Inr b) \<Longrightarrow> maint_rel a b"
  using assms unfolding calls_rel_def by blast+

lemma omnet_xmit_step: "calls_rel n \<Longrightarrow> omnet_xmit (Suc n) dp a = Some (Inr b) \<Longrightarrow> maint_rel a b"
  by (auto split: if_splits elim!: bindO_InrE dest!: calls_relD(2) xmit_now_rel intro: maint_rel_trans)

lemma maint_salvage_step:
  assumes n: "calls_rel n" and s: "maint_buf_salvage (Suc n) dp a = Some (Inr b)"
  shows "maint_rel a b"
proof -
  from s obtain r a1 where r: "salvage_packet dp a = Some (Inr (r, a1))"
    and b: "(case r of None \<Rightarrow> Some (Inr (drop_payload (dp_payload dp) a1)) | Some dp' \<Rightarrow> omnet_xmit n dp' a1) = Some (Inr b)"
    by (auto elim!: bindO_InrE)
  have "maint_rel a1 b" using b drop_payload_rel calls_relD(1) [OF n] by (auto split: option.splits)
  then show ?thesis by (rule maint_rel_trans [OF salvage_packet_rel [OF r]])
qed

lemma salvage_others_step:
  assumes n: "calls_rel n" and s: "salvage_others (Suc n) x k a = Some (Inr b)"
  shows "maint_rel a b"
  using s calls_relD(6) [OF n] calls_relD(5) [OF n] maint_erase_rel
  by (auto simp: Let_def split: option.splits if_splits elim!: bindO_InrE) (metis maint_rel_trans)

lemma maint_set_timeout_step:
  assumes n: "calls_rel n" and s: "maint_buf_set_timeout (Suc n) a = Some (Inr b)"
  shows "maint_rel a b"
  using s calls_relD(4) [OF n] by (auto simp: ack_timer_rel split: list.splits if_splits)

lemma new_entry_rel:
  assumes "maint_entry_create dp i rto a = Some m" "maint_insert m (a\<lparr>ag_key := ag_key a + 1\<rparr>) = Some (Inr b)"
    and "neigh_tbl_query x a = Some (i, asked, rto)"
  shows "maint_rel a b"
proof -
  let ?a = "a\<lparr>ag_key := ag_key a + 1\<rparr>"
  have key: "mt_key m = ag_key a" "mt_rto m = rto" using assms(1) by (auto simp: maint_entry_create_def split: if_splits)
  have "base_ok b" if a: "base_ok a"
  proof (rule maint_insert_ok [OF assms(2)])
    show "base_ok ?a" using a by (force simp: base_ok_def maint_ok_def neighbors_ok_def)
    show "mt_key m < ag_key ?a" using key by simp
    show "mt_key m \<notin> mt_key ` snd ` set (maint_buf ?a)" using a key by (force simp: base_ok_def maint_ok_def)
    show "10000 \<le> mt_rto m" using neigh_query_bounds [OF _ assms(3)] a key(2) by (simp add: base_ok_def)
  qed
  moreover have "agent_view ?a = agent_view a \<and> agent_tables ?a = agent_tables a" by (simp add: agent_parts)
  ultimately show ?thesis using maint_insert_frame [OF assms(2)] by (auto simp: maint_rel_def)
qed

lemma asked_rel: "maint_rel a (neigh_tbl_id_inc x (neigh_tbl_set_ack_req_time x
    (maint_update k (\<lambda>m. m\<lparr>mt_ack_req_sent := True\<rparr>) a)))"
  by (rule maint_rel_trans [OF maint_rel_trans [OF maint_update_rel neigh_ops_rel(1)] neigh_ops_rel(2)]) simp

lemma maint_add_step:
  assumes n: "calls_rel n" and s: "maint_buf_add (Suc n) dp a = Some (Inr (r, b))"
  shows "maint_rel a b"
proof (cases "has_flag dp PKT_REQUEST_ACK")
  case True
  show ?thesis
    using s True
    by (auto simp: Let_def split: option.splits prod.splits if_splits elim!: bindO_InrE
        dest!: calls_relD(3) [OF n] new_entry_rel) (metis asked_rel maint_rel_trans)+
qed (use s in simp)

text \<open>The two ways of the timer: the neighbour is lost, or the packet is sent once more.\<close>

definition neighbour_lost :: "nat \<Rightarrow> maint_entry \<Rightarrow> agent \<Rightarrow> agent outcome" where
  "neighbour_lost n m a =
     bindO (Some (bindE (ph_srt_delete_link_map (ag_time a) (myaddr a) (mt_nxt_hop m) (ag_db a)) (\<lambda>d.
         Inr (a\<lparr>ag_db := d\<rparr>)))) (\<lambda>a2.
       bindO (dsr_rerr_send (mt_dp m) (mt_nxt_hop m) a2) (\<lambda>a3.
         bindO (maint_buf_salvage n (mt_dp m) a3) (\<lambda>a4.
           bindO (salvage_others n (mt_nxt_hop m)
               (case maint_buf a4 of [] \<Rightarrow> None | (_, m') # _ \<Rightarrow> Some (mt_key m')) a4) (\<lambda>a5.
             maint_buf_set_timeout n a5))))"

definition ask_again :: "maint_entry \<Rightarrow> agent \<Rightarrow> agent outcome" where
  "ask_again m a =
     (if mt_ack_req_sent m
      then (if RetryPacket (ag_conf a) then dsr_ack_req_send_pkt (mt_dp m) a
            else dsr_ack_req_send (mt_nxt_hop m) (mt_id m) a)
      else Some (Inr a))"

definition again :: "agent \<Rightarrow> maint_entry \<Rightarrow> maint_entry" where
  "again a m = m\<lparr>mt_rexmt := mt_rexmt m + 1, mt_key := ag_key a, mt_tx_time := ag_time a, mt_expires := ag_time a + wide_usecs (mt_rto m)\<rparr>"

lemma maint_buf_timeout_Suc:
  "maint_buf_timeout (Suc n) a =
     (if ack_timer a \<noteq> None then Some (Inr a)
      else case maint_buf a of
        [] \<Rightarrow> Some (Inr a)
      | (t, m) # r \<Rightarrow>
          if t > ag_time a + 1 / 10000 then maint_buf_set_timeout n a
          else if MaxMaintRexmt (ag_conf a) \<le> mt_rexmt m + 1
            then neighbour_lost n (m\<lparr>mt_rexmt := mt_rexmt m + 1\<rparr>) (a\<lparr>maint_buf := r\<rparr>)
            else bindO (ask_again (again a m) (a\<lparr>maint_buf := r\<rparr>)) (\<lambda>a2.
              bindO (maint_insert (again a m) (a2\<lparr>ag_key := ag_key a2 + 1\<rparr>)) (\<lambda>a3. maint_buf_set_timeout n a3)))"
  by (simp add: neighbour_lost_def ask_again_def again_def Let_def split: list.split prod.split)

lemma neighbour_lost_rel:
  assumes n: "calls_rel n" and s: "neighbour_lost n m a = Some (Inr b)"
  shows "maint_rel a b"
proof -
  obtain a2 a3 a4 a5 where
    "bindE (ph_srt_delete_link_map (ag_time a) (myaddr a) (mt_nxt_hop m) (ag_db a)) (\<lambda>d. Inr (a\<lparr>ag_db := d\<rparr>)) = Inr a2"
    "dsr_rerr_send (mt_dp m) (mt_nxt_hop m) a2 = Some (Inr a3)"
    "maint_buf_salvage n (mt_dp m) a3 = Some (Inr a4)"
    "salvage_others n (mt_nxt_hop m) (case maint_buf a4 of [] \<Rightarrow> None | (_, m') # _ \<Rightarrow> Some (mt_key m')) a4 = Some (Inr a5)"
    "maint_buf_set_timeout n a5 = Some (Inr b)"
    using s unfolding neighbour_lost_def by (elim bindO_InrE) (drule option.inject [THEN iffD1], blast)
  note calls = this
  have "maint_rel a a2" using calls(1) by (auto elim!: bindE_InrE intro!: db_rel dest: other_calls_conf(2))
  moreover have "maint_rel a2 a3" using calls(2) by (rule dsr_rerr_send_rel)
  moreover have "maint_rel a3 a4" "maint_rel a4 a5" "maint_rel a5 b" using calls(3-) calls_relD [OF n] by blast+
  ultimately show ?thesis using maint_rel_trans by blast
qed

text \<open>An entry that is taken out of the buffer, and one put in with a new key.\<close>

lemma maint_tail_rel:
  assumes "maint_buf a = e # r" shows "maint_rel a (a\<lparr>maint_buf := r\<rparr>)"
  using assms by (auto simp: maint_rel_def base_ok_def maint_ok_def neighbors_ok_def agent_parts)

lemma ask_again_same:
  "ask_again m a = Some (Inr b) \<Longrightarrow> maint_rel a b \<and> maint_buf b = maint_buf a \<and> ag_key b = ag_key a"
  by (auto simp: ask_again_def dsr_ack_req_send_pkt_def dsr_ack_req_send_def xmit_now_def dsr_emit_rel drop_payload_rel
      split: if_splits option.splits elim!: bindE_InrE) (auto simp: dsr_emit_def drop_payload_def split: option.split)

lemma base_ok_key: "base_ok a \<Longrightarrow> base_ok (a\<lparr>ag_key := ag_key a + 1\<rparr>)"
  by (auto simp: base_ok_def maint_ok_def neighbors_ok_def)

lemma send_again_rel:
  assumes buf: "maint_buf a = (t, m) # r"
    and a2: "ask_again (again a m) (a\<lparr>maint_buf := r\<rparr>) = Some (Inr a2)" and a3: "maint_insert (again a m) (a2\<lparr>ag_key := ag_key a2 + 1\<rparr>) = Some (Inr a3)"
  shows "maint_rel a a3"
proof -
  have same: "maint_rel (a\<lparr>maint_buf := r\<rparr>) a2" "maint_buf a2 = r" "ag_key a2 = ag_key a"
    using ask_again_same [OF a2] by auto
  have "base_ok a3" if a: "base_ok a"
  proof (rule maint_insert_ok [OF a3])
    have "base_ok a2" using same(1) maint_tail_rel [OF buf] a by (simp add: maint_rel_def)
    then show "base_ok (a2\<lparr>ag_key := ag_key a2 + 1\<rparr>)" by (rule base_ok_key)
    show "mt_key (again a m) < ag_key (a2\<lparr>ag_key := ag_key a2 + 1\<rparr>)"
      "mt_key (again a m) \<notin> mt_key ` snd ` set (maint_buf (a2\<lparr>ag_key := ag_key a2 + 1\<rparr>))" "10000 \<le> mt_rto (again a m)"
      using a buf same(2,3) by (auto simp: base_ok_def maint_ok_def again_def)
  qed
  moreover have "agent_view (a2\<lparr>ag_key := k\<rparr>) = agent_view a2" "agent_tables (a2\<lparr>ag_key := k\<rparr>) = agent_tables a2" for k
    by (simp_all add: agent_parts)
  ultimately show ?thesis using maint_insert_frame [OF a3] same(1) maint_tail_rel [OF buf] by (auto simp: maint_rel_def)
qed

lemma maint_timeout_step:
  assumes n: "calls_rel n" and s: "maint_buf_timeout (Suc n) a = Some (Inr b)"
  shows "maint_rel a b"
proof (cases "maint_buf a")
  case (Cons e r)
  obtain t m where e: "e = (t, m)" by force
  have lost: "maint_rel a b" if "neighbour_lost n x (a\<lparr>maint_buf := r\<rparr>) = Some (Inr b)" for x
    using neighbour_lost_rel [OF n that] maint_tail_rel [OF Cons] maint_rel_trans by blast
  have sent: "maint_rel a b" if "ask_again (again a m) (a\<lparr>maint_buf := r\<rparr>) = Some (Inr a2)"
    "maint_insert (again a m) (a2\<lparr>ag_key := ag_key a2 + 1\<rparr>) = Some (Inr a3)" "maint_buf_set_timeout n a3 = Some (Inr b)" for a2 a3
    using send_again_rel [OF Cons [unfolded e] that(1,2)] calls_relD(3) [OF n that(3)] maint_rel_trans by blast
  show ?thesis
    using s lost sent calls_relD(3) [OF n, of a b] unfolding maint_buf_timeout_Suc Cons e
    by (auto split: if_splits elim!: bindO_InrE)
qed (use s in \<open>auto split: if_splits\<close>)

lemma calls_rel: "calls_rel n"
proof (induction n)
  case (Suc n)
  show ?case
    unfolding calls_rel_def [of "Suc n"]
    using omnet_xmit_step [OF Suc] maint_add_step [OF Suc] maint_set_timeout_step [OF Suc]
      maint_timeout_step [OF Suc] maint_salvage_step [OF Suc] salvage_others_step [OF Suc] by blast
qed (simp add: calls_rel_def)

lemmas maint_call_rels = calls_relD [OF calls_rel]

end
