(* ===== verification/Dsr_Agent_Inv.thy ===== *)
theory Dsr_Agent_Inv
  imports Dsr_Agent_Frame
begin

text \<open>
  The invariant of a DSR node and its preservation by every handler: the buffers are bounded and in
  order, the estimates of the neighbours stay in range, a packet that waits has a timer that ends its
  wait in time, and the request table remembers no identifier.
\<close>

subsection \<open>The invariant\<close>

definition usec :: simtime where "usec = 1 / 1000000"

text \<open>A packet as \<open>dsr_start_xmit\<close> gets it: of the upper layer, without options.\<close>

definition upper_packet :: "dsr_conf \<Rightarrow> dsr_pkt \<Rightarrow> bool" where
  "upper_packet cf dp \<longleftrightarrow> dp_opth dp = [] \<and> dp_iph dp \<noteq> None \<and> (UseNetworkLayerAck cf \<or> dp_flags dp = 0)"

text \<open>
  The timer of the send buffer is due when the packet that has waited longest has to go.  What waits are
  packets of the upper layer, each under its destination.
\<close>

definition send_ok :: "agent \<Rightarrow> bool" where
  "send_ok a \<longleftrightarrow> length (packetBuffer a) \<le> max 1 (buffMaxlen a)
    \<and> (\<forall>e\<in>set (packetBuffer a). fst (snd e) \<le> ag_time a
         \<and> (\<exists>d. send_buf_timer a = Some d \<and> d \<le> fst (snd e) + send_usecs a + usec))
    \<and> (\<forall>d. send_buf_timer a = Some d \<longrightarrow> ag_time a \<le> d)
    \<and> (\<forall>(x, _, dp)\<in>set (packetBuffer a). dp_dst dp = x \<and> upper_packet (ag_conf a) dp)"

definition no_ids :: "in_addr set \<Rightarrow> agent \<Rightarrow> bool" where
  "no_ids S a \<longleftrightarrow> (\<forall>x e. x \<notin> S \<longrightarrow> dsrRreqTbl a x = Some e \<longrightarrow> re_ids e = [])"

definition agent_inv :: "in_addr set \<Rightarrow> agent \<Rightarrow> bool" where
  "agent_inv S a \<longleftrightarrow> base_ok a \<and> send_ok a \<and> no_ids S a"

definition agent_rel :: "agent \<Rightarrow> agent \<Rightarrow> bool" where
  "agent_rel a b \<longleftrightarrow> agent_view b = agent_view a \<and> (\<forall>S. agent_inv S a \<longrightarrow> agent_inv S b)"

lemma agent_rel_refl [simp]: "agent_rel a a"
  by (simp add: agent_rel_def)

lemma agent_rel_trans [trans]: "agent_rel a b \<Longrightarrow> agent_rel b c \<Longrightarrow> agent_rel a c"
  by (simp add: agent_rel_def)

lemma send_usecs_view: "agent_view b = agent_view a \<Longrightarrow> send_usecs b = send_usecs a"
  by (simp add: agent_view_def send_usecs_def)

lemma maint_agent_rel: "maint_rel a b \<Longrightarrow> agent_rel a b"
  using send_usecs_view [of b a]
  by (simp add: agent_rel_def maint_rel_def agent_inv_def send_ok_def no_ids_def agent_tables_def)
    (simp add: agent_view_def)

text \<open>Changes to one table at a time.\<close>

lemma tables_rel:
  assumes "agent_view b = agent_view a" "maint_buf b = maint_buf a" "ag_key b = ag_key a"
    "neighborMap b = neighborMap a" "send_ok a \<Longrightarrow> send_ok b" "\<And>S. no_ids S a \<Longrightarrow> no_ids S b"
  shows "agent_rel a b"
  using assms
  by (simp add: agent_rel_def agent_inv_def base_ok_def maint_ok_def neighbors_ok_def agent_view_def)

lemma other_tables_rel:
  assumes "agent_view b = agent_view a" "maint_buf b = maint_buf a" "ag_key b = ag_key a"
    "neighborMap b = neighborMap a" "packetBuffer b = packetBuffer a" "send_buf_timer b = send_buf_timer a"
    "dsrRreqTbl b = dsrRreqTbl a"
  shows "agent_rel a b"
  using assms send_usecs_view [of b a]
  by (intro tables_rel) (simp_all add: send_ok_def no_ids_def agent_view_def)

lemma put_rreq_rel:
  assumes "\<And>e'. dsrRreqTbl a x = Some e' \<Longrightarrow> re_ids e = re_ids e'" "dsrRreqTbl a x = None \<Longrightarrow> re_ids e = []"
  shows "agent_rel a (put_rreq x e a)"
proof (rule tables_rel)
  fix S assume "no_ids S a"
  then show "no_ids S (put_rreq x e a)" using assms
    by (cases "dsrRreqTbl a x") (auto simp: no_ids_def put_rreq_def)
qed (auto simp: put_rreq_def agent_view_def send_ok_def send_usecs_def)

lemma drop_rreq_rel: "agent_rel a (drop_rreq x a)"
  by (rule tables_rel) (auto simp: drop_rreq_def agent_view_def send_ok_def no_ids_def send_usecs_def)

subsection \<open>The send buffer\<close>

lemma fewer_waiting:
  assumes "send_ok a" "set b \<subseteq> set (packetBuffer a)" "length b \<le> length (packetBuffer a)"
  shows "send_ok (a\<lparr>packetBuffer := b\<rparr>)"
  using assms by (auto simp: send_ok_def send_usecs_def)

lemma fewer_waiting_rel:
  "set b \<subseteq> set (packetBuffer a) \<Longrightarrow> length b \<le> length (packetBuffer a) \<Longrightarrow> agent_rel a (a\<lparr>packetBuffer := b\<rparr>)"
  by (rule tables_rel) (simp_all add: agent_view_def no_ids_def fewer_waiting)

lemma drop_waiting_rel: "maint_rel a (drop_waiting es a)"
  unfolding drop_waiting_def
proof (induction es arbitrary: a)
  case (Cons e es)
  then show ?case using drop_payload_rel maint_rel_trans by simp blast
qed simp

lemma set_timer_bounds: "now \<le> set_timer now v" "t \<le> now \<Longrightarrow> of_int (tv_usec v) / 1000000 + of_int (tv_sec v) \<le> t
  \<Longrightarrow> set_timer now v = now"
  by (auto simp: set_timer_def)

lemma timeval_near: "of_int (tv_usec (timevalFromSimTime t)) / 1000000 + of_int (tv_sec (timevalFromSimTime t)) \<le> t + usec / 2"
proof -
  let ?r = "(t - of_int \<lfloor>t\<rfloor>) * 1000000 + 1 / 2"
  have "of_int \<lfloor>?r\<rfloor> \<le> ?r" by simp
  then show ?thesis by (auto simp: timevalFromSimTime_def Let_def usec_def field_simps)
qed

lemma send_timer_bound: "set_timer now (timevalFromSimTime t) \<le> max now (t + usec / 2)"
  using timeval_near [of t] by (simp add: set_timer_def max_def)

lemma send_usecs_nonneg: "0 \<le> send_usecs a"
  unfolding send_usecs_def wide_usecs_def by (rule divide_nonneg_nonneg) (rule of_nat_0_le_iff, simp)

lemma oldest_in: "xs \<noteq> [] \<Longrightarrow> oldest xs < length xs"
  by (induction xs rule: oldest.induct) (auto simp: Let_def)

lemma remove_nth_smaller:
  "set (remove_nth i xs) \<subseteq> set xs" "i < length xs \<Longrightarrow> length (remove_nth i xs) = length xs - 1"
  by (auto simp: remove_nth_def dest: in_set_takeD in_set_dropD)

lemma enqueue_ok:
  assumes ok: "send_ok a" and up: "upper_packet (ag_conf a) dp"
  shows "send_ok (send_buf_enqueue_packet dp a)"
proof (cases "packetBuffer a = []")
  case True
  let ?d = "set_timer (ag_time a) (timevalFromSimTime (ag_time a + send_usecs a))"
  have "ag_time a \<le> ?d" "?d \<le> ag_time a + send_usecs a + usec"
    using send_timer_bound [of "ag_time a" "ag_time a + send_usecs a"] send_usecs_nonneg [of a] set_timer_bounds(1)
    by (auto simp: usec_def)
  then show ?thesis using True up by (simp add: send_buf_enqueue_packet_def Let_def send_ok_def send_usecs_def)
next
  case False
  define b where "b = (if buffMaxlen a \<le> length (packetBuffer a)
    then remove_nth (oldest (packetBuffer a)) (packetBuffer a) else packetBuffer a)"
  have b: "set b \<subseteq> set (packetBuffer a)" "Suc (length b) \<le> max 1 (buffMaxlen a)"
    using ok remove_nth_smaller(1) [of "oldest (packetBuffer a)" "packetBuffer a"]
      remove_nth_smaller(2) [OF oldest_in [OF False]] False
    by (auto simp: b_def send_ok_def simp flip: length_greater_0_conv)
  obtain e where "e \<in> set (packetBuffer a)" using False by (meson list.set_sel(1))
  then obtain d where d: "send_buf_timer a = Some d" "d \<le> ag_time a + send_usecs a + usec"
    using ok by (force simp: send_ok_def)
  have "send_buf_enqueue_packet dp a = a\<lparr>packetBuffer := mm_insert (dp_dst dp) (ag_time a, dp) b\<rparr>"
    using False by (simp add: send_buf_enqueue_packet_def Let_def b_def)
  then show ?thesis using ok b d up by (auto simp: send_ok_def set_mm_insert send_usecs_def)
qed

lemma enqueue_rel: "upper_packet (ag_conf a) dp \<Longrightarrow> agent_rel a (send_buf_enqueue_packet dp a)"
  by (rule tables_rel [OF _ _ _ _ enqueue_ok])
    (simp_all add: send_buf_enqueue_packet_def Let_def agent_view_def no_ids_def)

text \<open>The timer makes a new appointment for the packets that may still wait.\<close>

lemma send_timeout_ok:
  assumes ok: "send_ok a"
  shows "send_ok (send_buf_timeout (a\<lparr>send_buf_timer := None\<rparr>))"
proof (cases "filter (\<lambda>e. \<not> overdue a e) (packetBuffer a) = []")
  case True
  let ?a = "a\<lparr>send_buf_timer := None\<rparr>"
  have "overdue ?a = overdue a" by (auto simp: overdue_def send_usecs_def)
  then show ?thesis using True drop_waiting_rel [of ?a]
    by (auto simp: send_buf_timeout_def Let_def send_ok_def maint_rel_def agent_tables_def)
next
  case False
  let ?a = "a\<lparr>send_buf_timer := None\<rparr>" and ?b = "filter (\<lambda>e. \<not> overdue a e) (packetBuffer a)"
  let ?first = "Min (set (map (\<lambda>e. fst (snd e)) ?b))"
  let ?d = "set_timer (ag_time a) (timevalFromSimTime (ag_time a + (send_usecs a - (ag_time a - ?first))))"
  have over: "overdue ?a = overdue a" "send_usecs ?a = send_usecs a" by (auto simp: overdue_def send_usecs_def)
  obtain a1 where a1: "a1 = drop_waiting (filter (overdue a) (packetBuffer a)) ?a" "maint_rel ?a a1"
    using drop_waiting_rel by blast
  have res: "send_buf_timeout ?a = a1\<lparr>packetBuffer := ?b, send_buf_timer := Some ?d\<rparr>"
    using False over a1 drop_waiting_rel [of ?a]
    by (auto simp: send_buf_timeout_def Let_def maint_rel_def agent_view_def send_usecs_def)
  have "?first \<in> set (map (\<lambda>e. fst (snd e)) ?b)"
    by (intro Min_in finite_set) (metis False map_is_Nil_conv set_empty)
  then have "ag_time a < ?first + send_usecs a" by (auto simp: overdue_def)
  moreover have "ag_time a + (send_usecs a - (ag_time a - ?first)) = ?first + send_usecs a" by simp
  ultimately have "?d \<le> ?first + send_usecs a + usec"
    using send_timer_bound [of "ag_time a" "?first + send_usecs a"] by (auto simp only: usec_def max_def split: if_splits)
  moreover have "ag_time a \<le> ?d" by (rule set_timer_bounds(1))
  ultimately have d: "?d \<le> ?first + send_usecs a + usec" "ag_time a \<le> ?d" by blast+
  have "?first \<le> fst (snd e)" if "e \<in> set ?b" for e using that by (intro Min_le) auto
  then have "\<forall>e\<in>set ?b. ?d \<le> fst (snd e) + send_usecs a + usec" using d(1) by fastforce
  moreover have "length ?b \<le> max 1 (buffMaxlen a)" using ok
    by (auto simp: send_ok_def intro: le_trans [OF length_filter_le])
  ultimately show ?thesis using ok d(2) a1(2) unfolding res
    by (auto simp: send_ok_def maint_rel_def agent_view_def send_usecs_def)
qed

text \<open>Sending the packets that wait for a node.\<close>

lemma send_waiting_rel:
  assumes "send_waiting n e a = Some (Inr b)" shows "maint_rel e b"
proof -
  obtain k t dp where a: "a = (k, t, dp)" by (rule prod_cases3)
  from assms obtain r a1 where r: "dsr_rtc_find (myaddr e) (dp_dst dp) e = Some (Inr (r, a1))"
    and b: "(case r of None \<Rightarrow> Some (Inr (drop_payload (dp_payload dp) a1))
      | Some srt \<Rightarrow> bindO (Some (bindE (dsr_srt_add srt (dp\<lparr>dp_srt := Some srt\<rparr>)) (AddCost a1 srt))) (\<lambda>dp'.
          omnet_xmit n dp' a1)) = Some (Inr b)"
    unfolding send_waiting_def a by (auto elim!: bindO_InrE)
  have "maint_rel a1 b" using b drop_payload_rel maint_call_rels(1) by (auto split: option.splits elim!: bindO_InrE)
  then show ?thesis by (rule maint_rel_trans [OF dsr_rtc_find_rel [OF r]])
qed

lemma send_all_rel:
  assumes "foldO (send_waiting n) es a = Some (Inr b)" shows "maint_rel a b"
  by (rule foldO_invariant [OF assms, of "maint_rel a"]) (auto dest: send_waiting_rel maint_rel_trans)

lemma send_buf_send_rel:
  assumes "send_buf_send n x a = Some (Inr b)" shows "agent_rel a b"
proof -
  from assms obtain a1 where a1: "foldO (send_waiting n) (waiting_for x a) a = Some (Inr a1)"
    "b = a1\<lparr>packetBuffer := filter (\<lambda>e. fst e \<noteq> x) (packetBuffer a1)\<rparr>"
    by (auto simp: send_buf_send_def)
  have "agent_rel a1 b" unfolding a1(2) by (rule fewer_waiting_rel) auto
  then show ?thesis using maint_agent_rel [OF send_all_rel [OF a1(1)]] agent_rel_trans by blast
qed

lemma flush_to_rel:
  assumes "flush_to n a x = Some (Inr b)" shows "agent_rel a b" "dsrRreqTbl b x = None"
  using assms
  using agent_rel_trans [OF send_buf_send_rel drop_rreq_rel]
  by (auto simp: flush_to_def rreq_tbl_route_discovery_cancel_def elim!: bindO_InrE) (simp add: drop_rreq_def)

lemma flush_all_rel:
  assumes "foldO (flush_to n) xs a = Some (Inr b)" shows "agent_rel a b"
  by (rule foldO_invariant [OF assms, of "agent_rel a"]) (auto dest: flush_to_rel(1) agent_rel_trans)

lemma send_lists_rel:
  assumes "foldO (\<lambda>a x. send_buf_send n x a) xs a = Some (Inr b)" shows "agent_rel a b"
  by (rule foldO_invariant [OF assms, of "agent_rel a"]) (auto dest: send_buf_send_rel agent_rel_trans)

subsection \<open>Discovery\<close>

lemma find_or_add_ids:
  "find_or_add x a = Inr e \<Longrightarrow> case dsrRreqTbl a x of Some e' \<Rightarrow> e = e' | None \<Rightarrow> e = rreq_tbl_entry_create"
  by (auto simp: find_or_add_def rreq_tbl_add_def split: option.splits if_splits)

lemma rreq_send_rel: "dsr_rreq_send x ttl a = Some (Inr b) \<Longrightarrow> agent_rel a b \<and> dsrRreqTbl b = dsrRreqTbl a"
proof -
  assume "dsr_rreq_send x ttl a = Some (Inr b)"
  then have "maint_rel (a\<lparr>rreq_seqno := rreq_seqno a + 1\<rparr>) b"
    unfolding dsr_rreq_send_def Let_def by (rule xmit_now_rel)
  moreover have "agent_rel a (a\<lparr>rreq_seqno := rreq_seqno a + 1\<rparr>)"
    by (rule other_tables_rel) (simp_all add: agent_view_def)
  ultimately show ?thesis using maint_agent_rel agent_rel_trans by (auto simp: maint_rel_def agent_tables_def)
qed

lemma discovery_rel:
  assumes "dsr_rreq_route_discovery x a = Some (Inr b)" shows "agent_rel a b"
proof -
  from assms obtain e where e: "find_or_add x a = Inr e"
    and b: "\<exists>e'. re_ids e' = re_ids e \<and> (b = put_rreq x e' a
      \<or> dsr_rreq_send x TTL_START (put_rreq x e' a) = Some (Inr b))"
    unfolding dsr_rreq_route_discovery_def
    by (elim bindO_InrE) (fastforce simp: Let_def split: if_splits)
  have "agent_rel a (put_rreq x e' a)" if "re_ids e' = re_ids e" for e'
    using find_or_add_ids [OF e] that
    by (intro put_rreq_rel) (auto simp: rreq_tbl_entry_create_def split: option.splits)
  with b show ?thesis using rreq_send_rel agent_rel_trans by blast
qed

lemma start_xmit_rel:
  assumes "dsr_start_xmit n dp a = Some (Inr b)" and up: "upper_packet (ag_conf a) dp" shows "agent_rel a b"
proof -
  from assms obtain r a1 where r: "dsr_rtc_find (dp_src dp) (dp_dst dp) a = Some (Inr (r, a1))"
    and b: "(\<exists>dp'. omnet_xmit n dp' a1 = Some (Inr b))
      \<or> dsr_rreq_route_discovery (dp_dst dp) (send_buf_enqueue_packet dp a1) = Some (Inr b)"
    unfolding dsr_start_xmit_def by (elim bindO_InrE) (fastforce split: option.splits)
  have "agent_rel a a1" by (rule maint_agent_rel [OF dsr_rtc_find_rel [OF r]])
  moreover from this have "upper_packet (ag_conf a1) dp" using up by (simp add: agent_rel_def agent_view_def)
  then have "agent_rel a1 b"
    using b maint_agent_rel [OF maint_call_rels(1)] agent_rel_trans [OF enqueue_rel discovery_rel] by blast
  ultimately show ?thesis by (rule agent_rel_trans)
qed

subsection \<open>Handlers of the options\<close>

lemma duplicate_rel:
  assumes "dsr_rreq_duplicate x t i len addrs a = Some (Inr (dup, b))"
  shows "agent_rel a b" "dsrRreqTbl b = dsrRreqTbl a"
  using assms
  by (auto simp: dsr_rreq_duplicate_def Let_def agent_view_def split: if_splits intro!: other_tables_rel)

text \<open>While a request is handled its identifier is in the table.\<close>

lemma add_id_ok:
  assumes "rreq_tbl_add_id x t i c as len a = Some (Inr b)"
  shows "agent_view b = agent_view a" "agent_inv S a \<Longrightarrow> agent_inv (insert x S) b"
proof -
  from assms obtain e where b: "b = put_rreq x e a"
    unfolding rreq_tbl_add_id_def by (auto elim!: bindE_InrE)
  then show "agent_view b = agent_view a" by (simp add: put_rreq_def agent_view_def)
  show "agent_inv (insert x S) b" if "agent_inv S a"
    using that unfolding b
    by (auto simp: agent_inv_def base_ok_def maint_ok_def neighbors_ok_def send_ok_def no_ids_def put_rreq_def send_usecs_def)
qed

lemma ExpandCost_src [simp]: "dp_src (ExpandCost a dp) = dp_src dp"
  by (simp add: ExpandCost_def Let_def)

lemma srt_new_ends: "dsr_srt_new s d l as cs = Inr r \<Longrightarrow> srt_src r = s \<and> srt_dst r = d"
  by (auto simp: dsr_srt_new_def elim!: bindE_InrE)

lemma srt_rev_ends: "dsr_srt_new_rev r = Inr r' \<Longrightarrow> srt_src r' = srt_dst r \<and> srt_dst r' = srt_src r"
  by (auto simp: dsr_srt_new_rev_def split: if_splits)

lemma rreq_learn_rel:
  assumes "rreq_learn n q dp a = Some (Inr (srt, srt_rev, dp', b))"
  shows "agent_rel a b" "dsrRreqTbl b (dp_src dp) = None"
proof -
  let ?dp = "ExpandCost a dp"
  from assms obtain a1 prv a2 where
    srt: "dsr_srt_new (dp_src ?dp) (myaddr a) (word_of_int (DSR_RREQ_ADDRS_LEN q)) (rq_addrs q) (dp_costVector ?dp) = Inr srt"
      "dsr_srt_new_rev srt = Inr srt_rev" and
    a1: "dsr_rtc_add srt_rev a = Some (Inr a1)" and
    a2: "foldO (flush_to n) (srt_addrs srt_rev) (neigh_tbl_add prv (dp_h_source ?dp) a1) = Some (Inr a2)" and
    b: "flush_to n a2 (srt_dst srt_rev) = Some (Inr b)"
    unfolding rreq_learn_def Let_def by (elim bindO_InrE) (auto elim!: bindO_InrE bindE_InrE)
  have "agent_rel a a1" by (rule maint_agent_rel [OF dsr_rtc_add_rel [OF a1]])
  also have "agent_rel a1 (neigh_tbl_add prv (dp_h_source ?dp) a1)" by (rule maint_agent_rel [OF neigh_tbl_add_rel])
  also have "agent_rel \<dots> a2" by (rule flush_all_rel [OF a2])
  also have "agent_rel a2 b" by (rule flush_to_rel(1) [OF b])
  finally show "agent_rel a b" .
  show "dsrRreqTbl b (dp_src dp) = None"
    using flush_to_rel(2) [OF b] srt_new_ends [OF srt(1)] srt_rev_ends [OF srt(2)] by simp
qed

lemma rreq_answer_rel:
  assumes "rreq_answer p q srt srt_rev dp a = Some (Inr (act, dp', b))" shows "maint_rel a b"
  using assms unfolding rreq_answer_def rreq_forward_def Let_def
  by (auto split: if_splits option.splits elim!: bindO_InrE dest!: dsr_rrep_send_rel dsr_rtc_find_rel)
    (rule maint_rel_trans)

text \<open>After a request that was not dropped the table has no entry for its initiator.\<close>

lemma rreq_recv_rel:
  assumes "dsr_rreq_opt_recv n p q dp a = Some (Inr (act, dp', b))"
  shows "agent_rel a b \<and> (dsrRreqTbl b = dsrRreqTbl a \<or> dsrRreqTbl b (dp_src dp) = None)"
proof -
  let ?dp = "dp\<lparr>dp_rreq_opt := dp_rreq_opt dp @ [p]\<rparr>" and ?len = "DSR_RREQ_ADDRS_LEN q"
  have "(b = a) \<or> (\<exists>dup a1. dsr_rreq_duplicate (dp_src dp) (rq_target q) (ucast (rq_id q)) (word_of_int ?len) (rq_addrs q) a
      = Some (Inr (dup, a1)) \<and> (b = a1 \<or> (\<exists>c a2 srt srt_rev dp2 a3.
        rreq_tbl_add_id (dp_src dp) (rq_target q) (rq_id q) c (rq_addrs q) ?len a1 = Some (Inr a2)
        \<and> rreq_learn n q ?dp a2 = Some (Inr (srt, srt_rev, dp2, a3))
        \<and> rreq_answer p q srt srt_rev dp2 a3 = Some (Inr (act, dp', b)))))"
    using assms unfolding dsr_rreq_opt_recv_def Let_def
    by (auto split: if_splits option.splits elim!: bindO_InrE)
  then consider (same) "b = a"
    | (dup) dup where "dsr_rreq_duplicate (dp_src dp) (rq_target q) (ucast (rq_id q)) (word_of_int ?len) (rq_addrs q) a
        = Some (Inr (dup, b))"
    | (new) dup a1 c a2 srt srt_rev dp2 a3 where
        "dsr_rreq_duplicate (dp_src dp) (rq_target q) (ucast (rq_id q)) (word_of_int ?len) (rq_addrs q) a = Some (Inr (dup, a1))"
        "rreq_tbl_add_id (dp_src dp) (rq_target q) (rq_id q) c (rq_addrs q) ?len a1 = Some (Inr a2)"
        "rreq_learn n q ?dp a2 = Some (Inr (srt, srt_rev, dp2, a3))"
        "rreq_answer p q srt srt_rev dp2 a3 = Some (Inr (act, dp', b))"
    by blast
  then show ?thesis
  proof cases
    case new
    note a1 = duplicate_rel(1) [OF new(1)] and a2 = add_id_ok [OF new(2)] and a3 = rreq_learn_rel [OF new(3)]
    have tbl: "dsrRreqTbl a3 (dp_src dp) = None" using a3(2) by simp
    have "agent_inv S a3" if "agent_inv S a" for S
    proof -
      have "agent_inv (insert (dp_src dp) S) a3"
        using that a1 a2(2) a3(1) by (auto simp: agent_rel_def)
      then show ?thesis using tbl by (auto simp: agent_inv_def no_ids_def) (metis option.distinct(1))
    qed
    then have "agent_rel a a3" using a1 a2(1) a3(1) by (simp add: agent_rel_def)
    with rreq_answer_rel [OF new(4)] tbl show ?thesis
      using maint_agent_rel agent_rel_trans by (auto simp: maint_rel_def agent_tables_def)
  qed (auto dest: duplicate_rel)
qed

lemma rrep_recv_rel: "dsr_rrep_opt_recv p r dp a = Some (Inr (act, dp', b)) \<Longrightarrow> agent_rel a b"
  unfolding dsr_rrep_opt_recv_def Let_def rreq_tbl_route_discovery_cancel_def
  by (auto split: if_splits elim!: bindO_InrE dest!: dsr_rtc_add_rel [THEN maint_agent_rel]
      intro: agent_rel_trans [OF _ drop_rreq_rel])

lemma small_recv_rel:
  "dsr_rerr_opt_recv n p r dp a = Some (Inr (act, dp', b)) \<Longrightarrow> maint_rel a b"
  "dsr_ack_opt_recv n k dp a = Some (Inr (act, dp', b)) \<Longrightarrow> maint_rel a b"
  "dsr_ack_req_opt_recv p q dp a = Some (Inr (act, dp', b)) \<Longrightarrow> maint_rel a b"
proof -
  have delete: "maint_buf_del_all n x a = Some (Inr c) \<Longrightarrow> maint_rel a c" for x c
    unfolding maint_buf_del_all_def using maint_delete_rel maint_call_rels(3) maint_rel_trans by blast
  have delete_id: "maint_buf_del_all_id n x i a = Some (Inr c) \<Longrightarrow> maint_rel a c" for x i c
    unfolding maint_buf_del_all_id_def Let_def
    using maint_delete_rel neigh_ops_rel(3) maint_call_rels(3) maint_rel_trans by (smt (verit))
  have db: "maint_rel a (a'\<lparr>ag_db := d\<rparr>)" if "maint_rel a a'" "db_conf d = db_conf (ag_db a')" for a' d
    using that(1) db_rel [OF that(2)] by (rule maint_rel_trans)
  show "dsr_rerr_opt_recv n p r dp a = Some (Inr (act, dp', b)) \<Longrightarrow> maint_rel a b"
    unfolding dsr_rerr_opt_recv_def Let_def
    by (auto split: if_splits elim!: bindO_InrE dest!: delete intro!: db other_calls_conf(2))
  show "dsr_ack_opt_recv n k dp a = Some (Inr (act, dp', b)) \<Longrightarrow> maint_rel a b"
    unfolding dsr_ack_opt_recv_def by (auto split: if_splits elim!: bindO_InrE dest!: delete_id)
  show "dsr_ack_req_opt_recv p q dp a = Some (Inr (act, dp', b)) \<Longrightarrow> maint_rel a b"
    unfolding dsr_ack_req_opt_recv_def Let_def
    by (auto split: if_splits elim!: bindO_InrE dest!: ack_sends_rel(1))
qed

lemma grat_add_rel: "agent_rel a (grat_rrep_tbl_add x y a)"
  by (rule other_tables_rel) (simp_all add: grat_rrep_tbl_add_def Let_def agent_view_def)

lemma learn_paths_rel:
  assumes "srt_learn_paths i prv srt a = Some (Inr b)" shows "maint_rel a b"
proof -
  let ?a = "a\<lparr>ag_db := ph_srt_add_node_map (ag_time a) prv (cache_usecs a) (ag_db a)\<rparr>"
  from assms obtain d s a2 where
    d: "(case d of None \<Rightarrow> Some (Inr ?a) | Some r \<Rightarrow> dsr_rtc_add r ?a) = Some (Inr a2)" and
    s: "(case s of None \<Rightarrow> Some (Inr a2) | Some r \<Rightarrow> dsr_rtc_add r a2) = Some (Inr b)"
    unfolding srt_learn_paths_def Let_def by (auto elim!: bindO_InrE)
  have "maint_rel a ?a" by (rule db_rel) (rule other_calls_conf)
  moreover have "maint_rel ?a a2" "maint_rel a2 b"
    using d s by (auto split: option.splits dest: dsr_rtc_add_rel)
  ultimately show ?thesis using maint_rel_trans by blast
qed

lemma learn_links_rel:
  assumes "srt_learn_links n prv srt a = Some (Inr b)" shows "agent_rel a b"
proof -
  from assms obtain d a1 where d: "ph_add_link_map (ag_time a) (myaddr a) prv (cache_usecs a) (ag_db a) = Inr d"
    and a1: "foldO (flush_to n) (srt_addrs srt @ [srt_src srt, srt_dst srt]) (a\<lparr>ag_db := d\<rparr>) = Some (Inr a1)"
    and b: "dsr_rtc_add srt a1 = Some (Inr b)"
    unfolding srt_learn_links_def by (auto elim!: bindO_InrE simp del: foldO.simps)
  have "agent_rel a (a\<lparr>ag_db := d\<rparr>)" by (rule maint_agent_rel [OF db_rel [OF other_calls_conf(3) [OF d]]])
  also have "agent_rel \<dots> a1" by (rule flush_all_rel [OF a1])
  also have "agent_rel a1 b" by (rule maint_agent_rel [OF dsr_rtc_add_rel [OF b]])
  finally show ?thesis .
qed

lemma shorten_rel:
  assumes "shorten_route dp prv srt a = Some (Inr (told, b))" shows "agent_rel a b"
  using assms unfolding shorten_route_def
  by (auto split: option.splits elim!: bindO_InrE dest!: dsr_rrep_send_rel [THEN maint_agent_rel]
      intro: agent_rel_trans [OF grat_add_rel])

lemma srt_recv_rel:
  assumes "dsr_srt_opt_recv n p so dp a = Some (Inr (act, dp', b))" shows "agent_rel a b"
proof -
  have "\<exists>i prv srt a2. (srt_learn_paths i prv srt (neigh_tbl_add prv (dp_h_source dp) a) = Some (Inr a2)
        \<or> srt_learn_links n prv srt (neigh_tbl_add prv (dp_h_source dp) a) = Some (Inr a2))
      \<and> (b = a2 \<or> (\<exists>dp told. shorten_route dp prv srt a2 = Some (Inr (told, b))))"
    using assms unfolding dsr_srt_opt_recv_def Let_def srt_forward_def
    by (elim bindO_InrE) (auto split: if_splits prod.splits elim!: bindO_InrE; blast)
  then obtain i prv srt a2 where
    learn: "srt_learn_paths i prv srt (neigh_tbl_add prv (dp_h_source dp) a) = Some (Inr a2)
        \<or> srt_learn_links n prv srt (neigh_tbl_add prv (dp_h_source dp) a) = Some (Inr a2)" and
    told: "b = a2 \<or> (\<exists>dp told. shorten_route dp prv srt a2 = Some (Inr (told, b)))"
    by blast
  have "agent_rel a (neigh_tbl_add prv (dp_h_source dp) a)" by (rule maint_agent_rel [OF neigh_tbl_add_rel])
  also have "agent_rel \<dots> a2" using learn learn_links_rel maint_agent_rel [OF learn_paths_rel] by blast
  also have "agent_rel a2 b" using told shorten_rel by auto
  finally show ?thesis .
qed

subsection \<open>Packets\<close>

lemma recv_opt_rel:
  assumes "recv_opt n (act, dp, a) p = Some (Inr (act', dp', b))" shows "agent_rel a b"
  using assms unfolding recv_opt_def Let_def
  by (auto split: option.splits dsr_opt.splits if_splits elim!: bindO_InrE dest: rreq_recv_rel rrep_recv_rel srt_recv_rel
      small_recv_rel [THEN maint_agent_rel])

lemma opt_recv_rel:
  assumes "dsr_opt_recv n dp a = Some (Inr (act, dp', b))" shows "agent_rel a b"
proof -
  have "agent_rel a (snd (snd (act, dp', b)))"
    by (rule foldO_invariant [OF assms [unfolded dsr_opt_recv_def], of "\<lambda>st. agent_rel a (snd (snd st))"])
      (auto intro: agent_rel_trans [OF _ recv_opt_rel])
  then show ?thesis by simp
qed

lemma deliver_rel: "omnet_deliver dp a = Some (Inr b) \<Longrightarrow> maint_rel a b"
  by (auto simp: omnet_deliver_def dsr_emit_rel Let_def split: option.splits)

lemma recv_rel:
  assumes "dsr_recv n dp a = Some (Inr b)" shows "agent_rel a b"
proof -
  from assms obtain act dp' a1 where a1: "dsr_opt_recv n dp a = Some (Inr (act, dp', a1))" and
    b: "\<exists>a2. (a2 = a1 \<or> foldO (\<lambda>a x. send_buf_send n x a) (rrep_addrs dp') a1 = Some (Inr a2))
      \<and> (b = drop_payload (dp_payload dp') a2 \<or> omnet_xmit n dp' a2 = Some (Inr b) \<or> omnet_deliver dp' a2 = Some (Inr b))"
    unfolding dsr_recv_def
    by (elim bindO_InrE) (auto split: if_splits option.splits elim!: bindO_InrE; blast)
  then obtain a2 where a2: "agent_rel a1 a2" and
    b: "b = drop_payload (dp_payload dp') a2 \<or> omnet_xmit n dp' a2 = Some (Inr b) \<or> omnet_deliver dp' a2 = Some (Inr b)"
    using send_lists_rel agent_rel_refl by blast
  have "agent_rel a2 b"
    using b maint_agent_rel drop_payload_rel maint_call_rels(1) deliver_rel by blast
  then show ?thesis using opt_recv_rel [OF a1] a2 agent_rel_trans by blast
qed

lemma alloc_upper:
  assumes "dg_protocol g \<noteq> IPPROTO_DSR"
  shows "upper_packet cf ((dsr_pkt_alloc (UseNetworkLayerAck cf) g)\<lparr>dp_payload_len := l\<rparr>)"
  using assms by (auto simp: upper_packet_def dsr_pkt_alloc_def pkt_of_header_def empty_pkt_def Let_def)

lemma datagram_rel: "handle_datagram n g a = Some (Inr b) \<Longrightarrow> agent_rel a b"
  unfolding handle_datagram_def defaultProcess_def Let_def
  by (auto split: if_splits dest: recv_rel start_xmit_rel simp: maint_agent_rel drop_payload_rel alloc_upper)

lemma one_hop_rel: "one_hop_route nxt a = Some (Inr (r, b)) \<Longrightarrow> maint_rel a b"
  unfolding one_hop_route_def by (auto elim!: bindO_InrE intro!: db_rel RouteFind_conf)

lemma del_all_rel: "maint_buf_del_all n x a = Some (Inr b) \<Longrightarrow> maint_rel a b"
  unfolding maint_buf_del_all_def using maint_delete_rel maint_call_rels(3) maint_rel_trans by blast

lemma delete_link_rel: "delete_link_to x a = Some (Inr b) \<Longrightarrow> maint_rel a b"
  unfolding delete_link_to_def by (auto elim!: bindE_InrE intro!: db_rel other_calls_conf(2))

lemma signals_rel:
  "packetLinkAck n g a = Some (Inr b) \<Longrightarrow> maint_rel a b"
  "packetFailed n g a = Some (Inr b) \<Longrightarrow> maint_rel a b"
  "tap n g a = Some (Inr b) \<Longrightarrow> agent_rel a b"
proof -
  show "packetLinkAck n g a = Some (Inr b) \<Longrightarrow> maint_rel a b"
    unfolding packetLinkAck_def
    by (auto split: if_splits elim!: bindO_InrE dest!: one_hop_rel del_all_rel intro: maint_rel_trans)
  show "packetFailed n g a = Some (Inr b) \<Longrightarrow> maint_rel a b"
    unfolding packetFailed_def Let_def
    by (auto split: if_splits elim!: bindO_InrE dest!: one_hop_rel delete_link_rel dsr_rerr_send_rel maint_call_rels(5)
        intro: maint_rel_trans)
  show "tap n g a = Some (Inr b) \<Longrightarrow> agent_rel a b"
    unfolding tap_def Let_def by (auto split: if_splits dest: recv_rel)
qed

lemma signal_rel: "receiveSignal_dsr n s a = Some (Inr b) \<Longrightarrow> agent_rel a b"
  unfolding receiveSignal_dsr_def
  by (auto split: link_signal.splits if_splits dest: signals_rel(1,2) [THEN maint_agent_rel] signals_rel(3))

subsection \<open>Overheard packets\<close>

lemma alloc2_no_options: "dp_opth (dsr_pkt_alloc2 g) = []" "dp_payload (dsr_pkt_alloc2 g) = None"
  by (simp_all add: dsr_pkt_alloc2_def pkt_of_header_def dsr_opt_parse_def opt_list_def empty_pkt_def)

lemma tap_same: "tap n g a = Some (Inr a)"
proof -
  let ?dp = "set_flag PKT_PROMISC_RECV (dsr_pkt_alloc2 g)"
  have "has_flag ?dp PKT_PROMISC_RECV"
    unfolding has_flag_def set_flag_def
    by simp (metis PKT_PROMISC_RECV_def and.commute one_neq_zero word_bw_comms(1) word_ao_absorbs(2))
  moreover have "opt_list ?dp = []" by (simp add: opt_list_def set_flag_def alloc2_no_options)
  ultimately have "dsr_recv n ?dp a = Some (Inr a)"
    by (simp add: dsr_recv_def dsr_opt_recv_def drop_payload_def set_flag_def alloc2_no_options)
  then show ?thesis by (simp add: tap_def Let_def)
qed

subsection \<open>Timers and operations\<close>

lemma grat_timeout_rel: "grat_rrep_tbl_timeout a = Some (Inr b) \<Longrightarrow> agent_rel a b"
  by (rule other_tables_rel) (auto simp: grat_rrep_tbl_timeout_def agent_view_def split: list.splits)

lemma rreq_timeout_rel:
  assumes "rreq_tbl_timeout x a = Some (Inr b)" shows "agent_rel a b"
proof -
  obtain e where e: "dsrRreqTbl a x = Some e" using assms by (auto simp: rreq_tbl_timeout_def split: option.splits)
  let ?timeout = "min (re_timeout e * 2) (sec_usecs (MaxRequestPeriod (ag_conf a)))"
  let ?e = "e\<lparr>re_num_rexmts := re_num_rexmts e + 1, re_timeout := ?timeout, re_ttl := min (re_ttl e * 2) MAXTTL,
      re_last_used := dsr_gettime a\<rparr>"
  let ?e' = "?e\<lparr>re_timer := Some (set_timer (ag_time a) (timeval_add_usecs (dsr_gettime a) ?timeout))\<rparr>"
  have "b = drop_rreq x a \<or> (\<exists>a1. dsr_rreq_send x (min (re_ttl e * 2) MAXTTL) (put_rreq x ?e a) = Some (Inr a1)
      \<and> b = put_rreq x ?e' a1)"
    using assms e unfolding rreq_tbl_timeout_def Let_def by (auto split: if_splits)
  then consider "b = drop_rreq x a"
    | a1 where "dsr_rreq_send x (min (re_ttl e * 2) MAXTTL) (put_rreq x ?e a) = Some (Inr a1)" "b = put_rreq x ?e' a1"
    by blast
  then show ?thesis
  proof cases
    case 2
    have "agent_rel a (put_rreq x ?e a)" using e by (intro put_rreq_rel) auto
    also have "agent_rel \<dots> a1" using rreq_send_rel [OF 2(1)] by blast
    also have "agent_rel a1 b"
      unfolding 2(2) using rreq_send_rel [OF 2(1)] by (intro put_rreq_rel) (auto simp: put_rreq_def)
    finally show ?thesis .
  qed (simp add: drop_rreq_rel)
qed

lemma fired_rel: "tm \<noteq> SendBufTimer \<Longrightarrow> agent_rel a (timer_fired tm a)"
proof (induction tm a rule: timer_fired.induct)
  case (1 a) show ?case using maint_agent_rel [OF ack_timer_rel] by simp
next
  case (2 a) show ?case by (simp, rule other_tables_rel) (simp_all add: agent_view_def)
next
  case (4 x a) show ?case by (auto split: option.split intro!: put_rreq_rel)
qed simp

lemma send_timer_inv:
  assumes "agent_inv S a" shows "agent_inv S (send_buf_timeout (a\<lparr>send_buf_timer := None\<rparr>))"
proof -
  let ?a = "a\<lparr>send_buf_timer := None\<rparr>"
  have "base_ok a \<Longrightarrow> base_ok (drop_waiting w ?a)" for w
    using drop_waiting_rel [of ?a w] by (auto simp: maint_rel_def base_ok_def maint_ok_def neighbors_ok_def)
  moreover have "no_ids S (drop_waiting w ?a)" if "no_ids S a" for w
    using that drop_waiting_rel [of ?a w] by (auto simp: maint_rel_def no_ids_def agent_tables_def)
  ultimately show ?thesis
    using assms send_timeout_ok [of a]
    by (auto simp: agent_inv_def send_buf_timeout_def Let_def base_ok_def maint_ok_def neighbors_ok_def no_ids_def)
qed

lemma timer_inv:
  assumes "handleTimer n tm (timer_fired tm a) = Some (Inr b)" and inv: "agent_inv S a"
  shows "agent_inv S b"
proof (cases "tm = SendBufTimer")
  case False
  then have "agent_rel (timer_fired tm a) b" using assms(1)
    by (cases tm) (auto dest: maint_call_rels(4) maint_agent_rel grat_timeout_rel rreq_timeout_rel)
  with fired_rel [OF False] inv show ?thesis by (auto simp: agent_rel_def)
qed (use assms send_timer_inv in auto)

end
