(* ===== verification/Dsr_Srt_Spec.thy ===== *)
theory Dsr_Srt_Spec
  imports Dsr_Srt
begin

text \<open>
  What the source-route functions compute, as operations on the list of the nodes of a route from its
  source to its destination.
\<close>

definition srt_nodes :: "dsr_srt \<Rightarrow> in_addr list" where
  "srt_nodes srt = srt_src srt # srt_addrs srt @ [srt_dst srt]"

text \<open>The byte count agrees with the addresses: what the functions check before they start.\<close>

definition srt_sized :: "dsr_srt \<Rightarrow> bool" where
  "srt_sized srt \<longleftrightarrow> srt_n srt = length (srt_addrs srt)"

text \<open>A route with a cost for every link, or with none.\<close>

definition srt_costed :: "dsr_srt \<Rightarrow> bool" where
  "srt_costed srt \<longleftrightarrow> srt_cost srt = [] \<or> length (srt_cost srt) = length (srt_addrs srt) + 1"

text \<open>Routes as short as one byte of length allows: the bound of the options.\<close>

definition srt_short :: "dsr_srt \<Rightarrow> bool" where
  "srt_short srt \<longleftrightarrow> length (srt_addrs srt) \<le> 63"

lemma new_srt_simps [simp]:
  "srt_src new_srt = 0" "srt_dst new_srt = 0" "srt_flags new_srt = 0" "srt_index new_srt = 0"
  "srt_laddrs new_srt = 0" "srt_cost new_srt = []" "srt_addrs new_srt = []"
  by (simp_all add: new_srt_def)

subsection \<open>Byte counts\<close>

lemma unat_bytes: "k < 2 ^ 30 \<Longrightarrow> unat (of_nat (4 * k) :: 32 word) = 4 * k"
proof -
  assume "k < 2 ^ 30"
  then have "4 * k < 2 ^ 32" by simp
  then show ?thesis by (simp only: unsigned_of_nat) (simp add: take_bit_nat_eq_self)
qed

lemmas bytes_del = of_nat_mult of_nat_add of_nat_Suc

lemma bytes_zero: "k < 2 ^ 30 \<Longrightarrow> (of_nat (4 * k) :: 32 word) = 0 \<longleftrightarrow> k = 0"
  using unat_bytes [of k] by (auto simp del: bytes_del)

lemma srt_n_bytes:
  "srt_laddrs srt = of_nat (4 * k) \<Longrightarrow> k < 2 ^ 30 \<Longrightarrow> srt_n srt = k"
  by (simp add: srt_n_def DSR_ADDRESS_SIZE_def unat_bytes del: bytes_del)

lemma srt_n_bound: "srt_n srt < 2 ^ 30"
proof -
  have "unat (srt_laddrs srt) < 2 ^ 32" using unsigned_less [of "srt_laddrs srt"] by simp
  then show ?thesis by (simp add: srt_n_def DSR_ADDRESS_SIZE_def less_mult_imp_div_less)
qed

lemma srt_sized_bound: "srt_sized srt \<Longrightarrow> length (srt_addrs srt) < 2 ^ 30"
  using srt_n_bound [of srt] by (simp add: srt_sized_def)

subsection \<open>Hops\<close>

lemma next_hop_walk:
  assumes "srt_sized srt" and "j \<le> length (srt_addrs srt)"
  shows "dsr_srt_next_hop srt (int (length (srt_addrs srt)) - int j) = Inr (srt_nodes srt ! (j + 1))"
  using assms by (auto simp: dsr_srt_next_hop_def srt_sized_def srt_nodes_def nth_append)

lemma prev_hop_walk:
  assumes "srt_sized srt" and "j < length (srt_addrs srt)"
  shows "dsr_srt_prev_hop srt (int (length (srt_addrs srt)) - int j - 1) = Inr (srt_nodes srt ! j)"
proof (cases j)
  case (Suc i)
  have "nat (int (length (srt_addrs srt)) - 2 - (int (length (srt_addrs srt)) - int (Suc i) - 1)) = i" by simp
  with Suc assms show ?thesis
    by (simp add: dsr_srt_prev_hop_def srt_sized_def srt_nodes_def nth_append vec_at_def)
qed (use assms in \<open>simp add: dsr_srt_prev_hop_def srt_sized_def srt_nodes_def\<close>)

lemma srt_find_loop_sized:
  assumes "srt_sized srt" and "k \<le> length (srt_addrs srt)"
  shows "srt_find_loop srt a k = Inr (a \<in> set (drop (length (srt_addrs srt) - k) (srt_addrs srt)))"
  using assms(2)
proof (induction k)
  case (Suc k)
  let ?as = "srt_addrs srt"
  have i: "length ?as - Suc k < length ?as" "Suc (length ?as - Suc k) = length ?as - k" using Suc.prems by auto
  have "drop (length ?as - Suc k) ?as = ?as ! (length ?as - Suc k) # drop (length ?as - k) ?as"
    using Cons_nth_drop_Suc [OF i(1)] i(2) by simp
  moreover have "vec_at ?as (int (length ?as) - int (Suc k)) = Inr (?as ! (length ?as - Suc k))"
    using Suc.prems by (simp add: vec_at_def nat_diff_distrib nat_add_distrib)
  ultimately show ?case using Suc assms(1) by (auto simp: srt_sized_def)
qed simp

lemma find_addr_sized:
  assumes "srt_sized srt" and "1 \<le> k" and "k \<le> length (srt_addrs srt)"
  shows "dsr_srt_find_addr srt a (int k)
    = Inr (a \<in> set (drop (length (srt_addrs srt) - k) (srt_addrs srt)) \<or> a = srt_dst srt)"
proof -
  have "srt_n srt \<noteq> 0" "\<not> int (srt_n srt) < int k" "\<not> int k < 1" using assms by (auto simp: srt_sized_def)
  then show ?thesis by (simp add: dsr_srt_find_addr_def srt_find_loop_sized [OF assms(1,3)])
qed

subsection \<open>Reversing, joining\<close>

theorem srt_rev_rev:
  assumes "srt_sized srt"
  shows "bindE (dsr_srt_new_rev srt) dsr_srt_new_rev = Inr (srt\<lparr>srt_index := 0\<rparr>)
    \<and> map_sum id srt_nodes (dsr_srt_new_rev srt) = Inr (rev (srt_nodes srt))"
proof -
  have "srt_n (new_srt\<lparr>srt_flags := f, srt_src := s, srt_dst := d, srt_laddrs := srt_laddrs srt,
      srt_addrs := as, srt_cost := cs\<rparr>) = srt_n srt" for f s d as cs
    by (simp add: srt_n_def)
  then show ?thesis
    using assms by (cases srt) (simp add: dsr_srt_new_rev_def srt_sized_def srt_nodes_def new_srt_def)
qed

text \<open>The two parts meet: the route to a node and the route from it.\<close>

theorem concatenate_nodes:
  assumes "srt_sized s1" and "srt_sized s2"
    and "length (srt_addrs s1) + length (srt_addrs s2) + 1 < 2 ^ 30"
  shows "\<exists>s. dsr_srt_concatenate s1 s2 = Inr s \<and> srt_nodes s = butlast (srt_nodes s1) @ srt_nodes s2
    \<and> srt_sized s \<and> srt_cost s = []"
proof -
  let ?k = "length (srt_addrs s1) + length (srt_addrs s2) + 1"
  let ?s = "new_srt\<lparr>srt_flags := srt_flags s1 AND srt_flags s2, srt_src := srt_src s1,
    srt_dst := srt_dst s2, srt_laddrs := of_nat (4 * ?k),
    srt_addrs := srt_addrs s1 @ [srt_src s2] @ srt_addrs s2\<rparr>"
  have "dsr_srt_concatenate s1 s2 = Inr ?s"
    using assms(1,2) by (simp add: dsr_srt_concatenate_def srt_sized_def DSR_ADDRESS_SIZE_def mult.commute
      del: bytes_del)
  moreover have "srt_n ?s = ?k" by (rule srt_n_bytes [OF _ assms(3)]) simp
  ultimately show ?thesis by (simp add: srt_sized_def srt_nodes_def butlast_append)
qed

subsection \<open>Loops\<close>

lemma dup_loop_sized:
  assumes "k + i = length (srt_addrs srt)"
  shows "\<exists>buf. dup_loop srt [i..<i + k] (srt_src srt # take i (srt_addrs srt)) =
      Inr (\<not> (distinct (drop i (srt_addrs srt)) \<and>
            set (drop i (srt_addrs srt)) \<inter> set (srt_src srt # take i (srt_addrs srt)) = {}), buf)
    \<and> (distinct (drop i (srt_addrs srt)) \<and>
         set (drop i (srt_addrs srt)) \<inter> set (srt_src srt # take i (srt_addrs srt)) = {}
       \<longrightarrow> buf = srt_src srt # srt_addrs srt)"
  using assms
proof (induction k arbitrary: i)
  case (Suc k)
  let ?as = "srt_addrs srt"
  have i: "i < length ?as" using Suc.prems by simp
  have up: "[i..<i + Suc k] = i # [Suc i..<Suc i + k]" using upt_conv_Cons [of i "i + Suc k"] by simp
  have d: "drop i ?as = ?as ! i # drop (Suc i) ?as" using Cons_nth_drop_Suc [OF i] by simp
  have t: "take (Suc i) ?as = take i ?as @ [?as ! i]" using take_Suc_conv_app_nth [OF i] by simp
  show ?case
  proof (cases "?as ! i \<in> set (srt_src srt # take i ?as)")
    case True
    then show ?thesis using i unfolding up d by (auto simp del: upt_Suc)
  next
    case False
    have "dup_loop srt [i..<i + Suc k] (srt_src srt # take i ?as)
      = dup_loop srt [Suc i..<Suc i + k] (srt_src srt # take (Suc i) ?as)"
      using False i unfolding up t by (simp del: upt_Suc)
    moreover have "distinct (drop i ?as) \<and> set (drop i ?as) \<inter> set (srt_src srt # take i ?as) = {} \<longleftrightarrow>
      distinct (drop (Suc i) ?as) \<and> set (drop (Suc i) ?as) \<inter> set (srt_src srt # take (Suc i) ?as) = {}"
      using False unfolding d t by auto
    ultimately show ?thesis using Suc.IH [of "Suc i"] Suc.prems by (simp only:)
  qed
qed simp

text \<open>
  The check finds exactly the routes that visit a node twice.
\<close>

theorem check_duplicate_iff:
  assumes "srt_sized srt"
  shows "dsr_srt_check_duplicate srt = Inr (\<not> distinct (srt_nodes srt))"
proof -
  have n: "srt_n srt = length (srt_addrs srt)" using assms by (simp add: srt_sized_def)
  obtain buf where buf: "dup_loop srt [0..<length (srt_addrs srt)] [srt_src srt] =
      Inr (\<not> (distinct (srt_addrs srt) \<and> srt_src srt \<notin> set (srt_addrs srt)), buf)"
    "distinct (srt_addrs srt) \<and> srt_src srt \<notin> set (srt_addrs srt) \<longrightarrow> buf = srt_src srt # srt_addrs srt"
    using dup_loop_sized [of "length (srt_addrs srt)" 0 srt] by auto
  then show ?thesis by (auto simp: dsr_srt_check_duplicate_def n srt_nodes_def)
qed

subsection \<open>Positions\<close>

lemma takeWhile_pos: "as = xs @ a # ys \<Longrightarrow> a \<notin> set xs \<Longrightarrow> takeWhile (\<lambda>x. x \<noteq> a) as = xs"
  by (auto simp: takeWhile_append)

lemma addr_pos_nth:
  assumes "distinct as" and "i < length as"
  shows "addr_pos (as ! i) as = Some i"
proof -
  have "as = take i as @ as ! i # drop (Suc i) as" using id_take_nth_drop [OF assms(2)] .
  moreover have "as ! i \<notin> set (take i as)"
    using assms by (auto simp: in_set_conv_nth nth_eq_iff_index_eq)
  ultimately have "takeWhile (\<lambda>x. x \<noteq> as ! i) as = take i as" by (rule takeWhile_pos)
  with assms show ?thesis by (simp add: addr_pos_def)
qed

lemma last_pos_nth:
  assumes "distinct as" and "i < length as"
  shows "last_pos (as ! i) as = int i + 1"
proof -
  have "as = take i as @ as ! i # drop (Suc i) as" using id_take_nth_drop [OF assms(2)] .
  then have "rev as = rev (drop (Suc i) as) @ as ! i # rev (take i as)" by (metis rev.simps(2) rev_append append.assoc append_Cons append_Nil)
  moreover have "as ! i \<notin> set (rev (drop (Suc i) as))"
    using assms by (auto simp: in_set_conv_nth nth_eq_iff_index_eq)
  ultimately have "takeWhile (\<lambda>x. x \<noteq> as ! i) (rev as) = rev (drop (Suc i) as)" by (rule takeWhile_pos)
  with assms show ?thesis by (simp add: last_pos_def of_nat_diff)
qed

subsection \<open>Splitting\<close>

lemma mapE_vec_at: "(\<And>i. i \<in> set is \<Longrightarrow> i < length xs) \<Longrightarrow> mapE (\<lambda>p. vec_at xs (int p)) is = Inr (map ((!) xs) is)"
  by (rule mapE_Inr) simp

lemma map_nth_prefix: "k \<le> length xs \<Longrightarrow> map ((!) xs) [0..<k] = take k xs"
  by (rule nth_equalityI) simp_all

theorem split_prefix:
  assumes "srt_sized srt" and "srt_costed srt" and "distinct (srt_addrs srt)"
    and "i < length (srt_addrs srt)"
  shows "\<exists>s. dsr_srt_new_split srt (srt_addrs srt ! i) = Inr (Some s)
    \<and> srt_nodes s = take (i + 2) (srt_nodes srt) \<and> srt_sized s
    \<and> srt_cost s = take (i + 1) (srt_cost srt)"
proof -
  let ?s = "new_srt\<lparr>srt_flags := srt_flags srt, srt_src := srt_src srt,
    srt_dst := srt_addrs srt ! i, srt_laddrs := of_nat (4 * i),
    srt_addrs := take i (srt_addrs srt), srt_cost := take (i + 1) (srt_cost srt)\<rparr>"
  have "i < 2 ^ 30" using srt_sized_bound [OF assms(1)] assms(4) by simp
  then have n: "srt_n ?s = i" by (intro srt_n_bytes) simp_all
  have "mapE (\<lambda>p. vec_at (srt_cost srt) (int p)) [0..<i + 1] = Inr (take (i + 1) (srt_cost srt))"
    if "srt_cost srt \<noteq> []"
    using that assms(2,4) by (subst mapE_vec_at) (simp_all add: srt_costed_def map_nth_prefix del: upt_Suc)
  then have "dsr_srt_new_split srt (srt_addrs srt ! i) = Inr (Some ?s)"
    using assms addr_pos_nth [OF assms(3,4)]
    by (auto simp add: dsr_srt_new_split_def srt_sized_def DSR_ADDRESS_SIZE_def del: bytes_del upt_Suc)
  moreover have "srt_nodes ?s = take (i + 2) (srt_nodes srt)"
    using assms(4) by (simp add: srt_nodes_def take_Suc_conv_app_nth)
  ultimately show ?thesis using n assms(4) by (simp add: srt_sized_def)
qed

subsection \<open>Both ways from a node on the route\<close>

lemma foldE_keep: "(\<And>x. x \<in> set xs \<Longrightarrow> f s x = Inr s) \<Longrightarrow> foldE f xs s = Inr s"
  by (induction xs) auto

lemma map_nth_back: "l \<le> length xs \<Longrightarrow> map (\<lambda>k. xs ! (l - k - 1)) [0..<l] = rev (take l xs)"
  by (rule nth_equalityI) (auto simp: rev_nth)

lemma mapE_back:
  assumes "l \<le> length xs"
  shows "mapE (\<lambda>k. vec_at xs (int (l - k - 1))) [0..<l] = Inr (rev (take l xs))"
proof -
  have "mapE (\<lambda>k. vec_at xs (int (l - k - 1))) [0..<l] = Inr (map (\<lambda>k. xs ! (l - k - 1)) [0..<l])"
    using assms by (intro mapE_Inr vec_at_nat) auto
  then show ?thesis using map_nth_back [OF assms] by simp
qed

lemma mapE_back_costs:
  assumes "l < length xs"
  shows "mapE (\<lambda>k. vec_at xs (int (l - k))) [0..<l] = Inr (rev (tl (take (Suc l) xs)))"
proof -
  have "mapE (\<lambda>k. vec_at xs (int (l - k))) [0..<l] = Inr (map (\<lambda>k. xs ! (l - k)) [0..<l])"
    using assms by (intro mapE_Inr vec_at_nat) auto
  moreover have "map (\<lambda>k. xs ! (l - k)) [0..<l] = rev (tl (take (Suc l) xs))"
    using assms by (intro nth_equalityI) (auto simp: rev_nth nth_tl Suc_diff_Suc)
  ultimately show ?thesis by simp
qed

text \<open>A copy that does not hold the node itself is left alone by the two loops.\<close>

lemma split_dest_clean:
  assumes "src \<notin> set (drop (nat (l + 1)) (srt_addrs srt))" and "srt_sized srt"
    and "addr \<noteq> srt_src srt \<or> addr = src" and "-1 \<le> l" and "l + 1 < int (length (srt_addrs srt))"
  shows "split_dest srt addr src l = Inr (Some (new_srt\<lparr>srt_flags := srt_flags srt, srt_src := src,
    srt_dst := srt_dst srt, srt_laddrs := of_nat (4 * (length (srt_addrs srt) - nat (l + 1))),
    srt_addrs := drop (nat (l + 1)) (srt_addrs srt),
    srt_cost := drop (nat (l + 1)) (srt_cost srt)\<rparr>))"
proof -
  let ?m = "length (srt_addrs srt) - nat (l + 1)" and ?as = "drop (nat (l + 1)) (srt_addrs srt)"
  have n: "nat (int (srt_n srt) - l - 1) = ?m" using assms(2,4) by (auto simp: srt_sized_def nat_diff_distrib)
  have "foldE (dest_loop srt src ?m) [0..<?m] (?as, of_nat (4 * ?m)) = Inr (?as, of_nat (4 * ?m))"
  proof (rule foldE_keep)
    fix k assume "k \<in> set [0..<?m]"
    then have "k < length ?as" by simp
    then have "?as ! k \<noteq> src" "vec_at ?as (int k) = Inr (?as ! k)" using assms(1) by (metis nth_mem, simp)
    then show "dest_loop srt src ?m (?as, of_nat (4 * ?m)) k = Inr (?as, of_nat (4 * ?m))"
      by (simp add: dest_loop_def del: bytes_del)
  qed
  moreover have "?m \<noteq> 0" using assms(4,5) by auto
  ultimately show ?thesis
    using assms(3) by (auto simp: split_dest_def n Let_def DSR_ADDRESS_SIZE_def simp del: bytes_del)
qed

lemma split_src_clean:
  assumes "src \<notin> set (take l (srt_addrs srt))" and "srt_costed srt"
    and "0 < l" and "l \<le> length (srt_addrs srt)"
  shows "split_src srt src l = Inr (Some (new_srt\<lparr>srt_flags := srt_flags srt, srt_src := src,
    srt_dst := srt_src srt, srt_laddrs := of_nat (4 * l), srt_addrs := rev (take l (srt_addrs srt)),
    srt_cost := rev (take (Suc l) (srt_cost srt))\<rparr>))"
proof -
  let ?as = "rev (take l (srt_addrs srt))" and ?cs = "rev (take (Suc l) (srt_cost srt))"
  have "foldE (src_loop src l) [0..<l] (?as, ?cs, of_nat (4 * l)) = Inr (?as, ?cs, of_nat (4 * l))"
  proof (rule foldE_keep)
    fix k assume "k \<in> set [0..<l]"
    then have k: "k < length ?as" using assms(4) by simp
    then have "?as ! k \<noteq> src" using assms(1) by (metis nth_mem set_rev)
    with k show "src_loop src l (?as, ?cs, of_nat (4 * l)) k = Inr (?as, ?cs, of_nat (4 * l))"
      by (simp add: src_loop_def del: bytes_del)
  qed
  moreover have "(if srt_cost srt = [] then Inr []
     else bindE (mapE (\<lambda>k. vec_at (srt_cost srt) (int (l - k))) [0..<l]) (\<lambda>cs. Inr (cs @ [hd (srt_cost srt)])))
     = Inr ?cs"
  proof (cases "srt_cost srt")
    case (Cons c cs)
    then have "l < length (srt_cost srt)" using assms(2,4) by (simp add: srt_costed_def)
    from mapE_back_costs [OF this] show ?thesis using Cons by simp
  qed simp
  ultimately show ?thesis
    using assms(3) unfolding split_src_def mapE_back [OF assms(4)]
    by (simp add: DSR_ADDRESS_SIZE_def del: bytes_del)
qed

text \<open>
  C13: a node on the way of a packet learns from its source route exactly the rest of the route and, in
  the other direction, the part the packet has come, each with the costs of its links; a neighbour of
  the end gives no route, since it is reached in one hop.
\<close>

theorem split_both_on_route:
  assumes "srt_sized srt" and "srt_costed srt" and "distinct (srt_nodes srt)"
    and "i < length (srt_addrs srt)" and "me = srt_addrs srt ! i"
  shows "\<exists>d s. dsr_srt_split_both srt me me = Inr (d, s)
    \<and> (if i + 1 = length (srt_addrs srt) then d = None
       else \<exists>t. d = Some t \<and> srt_nodes t = drop (i + 1) (srt_nodes srt) \<and> srt_sized t
         \<and> srt_cost t = drop (i + 1) (srt_cost srt))
    \<and> (if i = 0 then s = None
       else \<exists>t. s = Some t \<and> srt_nodes t = rev (take (i + 2) (srt_nodes srt)) \<and> srt_sized t
         \<and> srt_cost t = rev (take (i + 1) (srt_cost srt)))"
proof -
  let ?as = "srt_addrs srt"
  have dist: "distinct ?as" "srt_src srt \<notin> set ?as" "srt_dst srt \<notin> set ?as"
    using assms(3) by (auto simp: srt_nodes_def)
  have me: "me \<noteq> srt_src srt" "me \<noteq> srt_dst srt" using dist(2,3) assms(4,5) by (metis nth_mem)+
  have n: "srt_n srt = length ?as" using assms(1) by (simp add: srt_sized_def)
  have split: "dsr_srt_split_both srt me me =
    bindE (split_dest srt me me (int i)) (\<lambda>d. bindE (split_src srt me i) (\<lambda>s. Inr (d, s)))"
    using me addr_pos_nth [OF dist(1) assms(4)] assms(4,5) by (auto simp: dsr_srt_split_both_def n Let_def)
  have bound: "length ?as < 2 ^ 30" by (rule srt_sized_bound [OF assms(1)])
  define D where "D = new_srt\<lparr>srt_flags := srt_flags srt, srt_src := me, srt_dst := srt_dst srt,
    srt_laddrs := of_nat (4 * (length ?as - (i + 1))), srt_addrs := drop (i + 1) ?as,
    srt_cost := drop (i + 1) (srt_cost srt)\<rparr>"
  define S where "S = new_srt\<lparr>srt_flags := srt_flags srt, srt_src := me, srt_dst := srt_src srt,
    srt_laddrs := of_nat (4 * i), srt_addrs := rev (take i ?as),
    srt_cost := rev (take (i + 1) (srt_cost srt))\<rparr>"
  have d: "split_dest srt me me (int i) = Inr (if i + 1 = length ?as then None else Some D)"
  proof (cases "i + 1 = length ?as")
    case True
    then have "nat (int (srt_n srt) - int i - 1) = 0" by (simp add: n)
    then show ?thesis using True by (simp add: split_dest_def)
  next
    case False
    have "me \<notin> set (drop (i + 1) ?as)"
      using dist(1) assms(4,5) by (auto simp: in_set_conv_nth nth_eq_iff_index_eq)
    then show ?thesis using False assms(1,4) me split_dest_clean [of me "int i" srt me]
      by (simp add: nat_add_distrib D_def del: bytes_del)
  qed
  have s: "split_src srt me i = Inr (if i = 0 then None else Some S)"
  proof (cases "i = 0")
    case False
    have "me \<notin> set (take i ?as)"
      using dist(1) assms(4,5) by (auto simp: in_set_conv_nth nth_eq_iff_index_eq)
    then show ?thesis using False assms(2,4) split_src_clean [of me i srt] by (simp add: S_def)
  qed (simp add: split_src_def)
  have "srt_n D = length ?as - (i + 1)" using bound by (intro srt_n_bytes) (simp_all add: D_def)
  then have D: "srt_nodes D = drop (i + 1) (srt_nodes srt)" "srt_sized D" "srt_cost D = drop (i + 1) (srt_cost srt)"
    using assms(4,5) Cons_nth_drop_Suc [OF assms(4)] by (simp_all add: srt_nodes_def srt_sized_def D_def)
  have "srt_n S = i" using bound assms(4) by (intro srt_n_bytes) (simp_all add: S_def)
  then have S: "srt_nodes S = rev (take (i + 2) (srt_nodes srt))" "srt_sized S"
      "srt_cost S = rev (take (i + 1) (srt_cost srt))"
    using assms(4,5) take_Suc_conv_app_nth [OF assms(4)] by (simp_all add: srt_nodes_def srt_sized_def S_def)
  show ?thesis unfolding split d s using D S by simp
qed

subsection \<open>A route that is overheard\<close>

lemma shift_down_steps:
  assumes "k < m" and "m \<le> length as"
  shows "\<exists>as'. shift_down k m as = Inr as' \<and> length as' = length as
    \<and> take (m - (k + 1)) as' = take (m - (k + 1)) (drop (k + 1) as)
    \<and> drop (m - (k + 1)) as' = drop (m - (k + 1)) as"
  using assms
proof (induction m)
  case (Suc m)
  show ?case
  proof (cases "k = m")
    case False
    then have km: "k < m" "m \<le> length as" "m < length as" using Suc.prems by auto
    then obtain as' where as': "shift_down k m as = Inr as'" "length as' = length as"
      "take (m - (k + 1)) as' = take (m - (k + 1)) (drop (k + 1) as)"
      "drop (m - (k + 1)) as' = drop (m - (k + 1)) as" using Suc.IH by blast
    let ?j = "m - (k + 1)" and ?x = "as ! m"
    have "as' ! m = drop ?j as' ! (m - ?j)" using km as'(2) by simp
    also have "\<dots> = ?x" unfolding as'(4) using km by simp
    finally have x: "as' ! m = ?x" .
    have "nat (int m - int (k + 1)) = ?j" "0 \<le> int m - int (k + 1)" using km by auto
    then have set: "vec_set as' (int m - int (k + 1)) ?x = Inr (as'[?j := ?x])"
      using km as'(2) by (auto simp: vec_set_def)
    have "[k + 1..<Suc m] = [k + 1..<m] @ [m]" using km by simp
    then have "shift_down k (Suc m) as = Inr (as'[?j := ?x])"
      using as'(1,2) km x set by (simp add: shift_down_def foldE_append)
    moreover have "Suc m - (k + 1) = Suc ?j" using km by simp
    moreover have "take (Suc ?j) (as'[?j := ?x]) = take (Suc ?j) (drop (k + 1) as)"
    proof -
      have "?j < length as'" "?j < length (drop (k + 1) as)" using km as'(2) by auto
      moreover have "drop (k + 1) as ! ?j = ?x" using km by simp
      ultimately show ?thesis using as'(3) by (simp add: take_Suc_conv_app_nth)
    qed
    moreover have "drop (Suc ?j) (as'[?j := ?x]) = drop (Suc ?j) as"
      using as'(4) by simp (metis drop_Suc drop_drop plus_1_eq_Suc tl_drop)
    ultimately show ?thesis using as'(2) by simp
  qed (simp add: shift_down_def)
qed simp

lemma foldE_stuck:
  assumes "\<And>x. x \<in> set xs \<Longrightarrow> f s x = Inr s \<or> f s x = Inl e" and "x \<in> set xs" and "f s x = Inl e"
  shows "foldE f xs s = Inl e"
  using assms
proof (induction xs)
  case (Cons y ys)
  then consider "f s y = Inl e" | "f s y = Inr s" "x \<in> set ys" by auto
  then show ?case using Cons by cases auto
qed simp

text \<open>
  For a node on the route behind the one that follows the previous hop, and before the last, the split
  cuts the node's own address out of the way to the destination and then reads behind the shortened
  vector.  Only an overheard packet could ask for such a split; the agent clears the options of these
  before it reads them (\<open>overheard_ignored\<close>), so no packet gets there.
\<close>

lemma split_both_overheard:
  assumes "srt_sized srt" and "distinct (srt_nodes srt)"
    and "p < q" and "q + 1 < length (srt_addrs srt)"
  shows "dsr_srt_split_both srt (srt_addrs srt ! p) (srt_addrs srt ! q) = Inl BadAccess"
proof -
  let ?as = "srt_addrs srt" and ?m = "length (srt_addrs srt) - p" and ?k = "q - p"
  let ?prv = "?as ! p" and ?me = "?as ! q" and ?bs = "drop p ?as"
  have dist: "distinct ?as" "srt_src srt \<notin> set ?as" "srt_dst srt \<notin> set ?as"
    using assms(2) by (auto simp: srt_nodes_def)
  have pq: "p < length ?as" "q < length ?as" using assms(3,4) by auto
  have ne: "?prv \<noteq> srt_src srt" "?prv \<noteq> srt_dst srt" "?prv \<noteq> ?me"
    using dist pq assms(3) by (metis nth_mem, metis nth_mem, metis nth_eq_iff_index_eq less_irrefl)
  have n: "srt_n srt = length ?as" using assms(1) by (simp add: srt_sized_def)
  have m: "nat (int (srt_n srt) - (int p - 1) - 1) = ?m" using pq by (simp add: n nat_diff_distrib)
  have k: "?k < ?m" "?k + 1 < ?m" "length ?bs = ?m" using assms(3,4) by auto
  have here: "?bs ! ?k = ?me" using assms(3) pq by simp
  have other: "?bs ! j \<noteq> ?me" if "j < ?m" "j \<noteq> ?k" for j
    using that dist(1) assms(3) pq by (auto simp: nth_eq_iff_index_eq)
  let ?f = "dest_loop srt ?me ?m" and ?st = "(?bs, of_nat (4 * ?m))"
  have up: "[0..<?m] = [0..<?k] @ ?k # [?k + 1..<?m]"
    using k(1) upt_add_eq_append [of 0 ?k "?m - ?k"] upt_conv_Cons [of ?k ?m] by simp
  have "foldE ?f [0..<?k] ?st = Inr ?st"
  proof (rule foldE_keep)
    fix j assume "j \<in> set [0..<?k]"
    then have "j < ?m" "j \<noteq> ?k" using k(1) by auto
    then show "?f ?st j = Inr ?st"
      using other [of j] k(3) by (simp add: dest_loop_def del: bytes_del)
  qed
  then have start: "foldE ?f [0..<?m] ?st = bindE (?f ?st ?k) (foldE ?f [?k + 1..<?m])"
    unfolding up by (simp add: foldE_append del: upt_Suc)
  have "bindE (?f ?st ?k) (foldE ?f [?k + 1..<?m]) = Inl BadAccess"
  proof (cases "srt_cost srt = []")
    case False
    then show ?thesis using here k by (simp add: dest_loop_def)
  next
    case True
    obtain cs where cs: "shift_down ?k ?m ?bs = Inr cs" "length cs = ?m"
      "take (?m - (?k + 1)) cs = take (?m - (?k + 1)) (drop (?k + 1) ?bs)"
      using shift_down_steps [OF k(1), of ?bs] k(3) by auto
    let ?c = "?m - (?k + 1)"
    let ?st' = "(resize ?c 0 cs, of_nat (DSR_ADDRESS_SIZE * ?c) :: 32 word)"
    define ds where "ds = drop (?k + 1) ?bs"
    have r: "resize ?c 0 cs = ds" using cs(2,3) k by (simp add: resize_def ds_def)
    have len: "length ds = ?c" using k by (simp add: ds_def)
    have ds: "ds ! j \<noteq> ?me" if "j < ?c" for j
    proof -
      have "ds ! j = ?bs ! (?k + 1 + j)" using that k(3) unfolding ds_def by (subst nth_drop) simp_all
      then show ?thesis using other [of "?k + 1 + j"] that by simp
    qed
    have "?f ?st ?k = Inr ?st'"
      using here k cs(1) True by (simp add: dest_loop_def del: bytes_del)
    moreover have "foldE ?f [?k + 1..<?m] ?st' = Inl BadAccess"
    proof (rule foldE_stuck [where x = "?m - 1"])
      fix j assume "j \<in> set [?k + 1..<?m]"
      then show "?f ?st' j = Inr ?st' \<or> ?f ?st' j = Inl BadAccess"
        using ds [of j] len unfolding r
        by (cases "j < ?c") (simp_all add: dest_loop_def vec_at_def del: bytes_del)
    next
      show "?m - 1 \<in> set [?k + 1..<?m]" using k(2) by auto
    next
      have "length (fst ?st') \<le> ?m - 1" using r len k by simp
      then show "?f ?st' (?m - 1) = Inl BadAccess"
        unfolding dest_loop_def by (subst vec_at_out) auto
    qed
    ultimately show ?thesis by simp
  qed
  then have "split_dest srt ?prv ?me (int p - 1) = Inl BadAccess"
    using start ne k(1) m by (simp add: split_dest_def Let_def DSR_ADDRESS_SIZE_def del: bytes_del upt_Suc)
  then show ?thesis
    using ne addr_pos_nth [OF dist(1) pq(1)] pq by (auto simp: dsr_srt_split_both_def n Let_def)
qed

subsection \<open>Shortcuts\<close>

lemma map_nth_skip:
  assumes "a \<le> b" and "b \<le> length xs"
  shows "map ((!) xs) (filter (\<lambda>i. \<not> (a \<le> i \<and> i < b)) [0..<length xs]) = take a xs @ drop b xs"
proof -
  have up: "[0..<length xs] = [0..<a] @ [a..<b] @ [b..<length xs]"
    using assms upt_add_eq_append [of 0 b "length xs - b"] upt_add_eq_append [of 0 a "b - a"] by simp
  have "filter (\<lambda>i. \<not> (a \<le> i \<and> i < b)) [0..<length xs] = [0..<a] @ [b..<length xs]"
    unfolding up by (auto simp: filter_empty_conv intro!: filter_True)
  moreover have "map ((!) xs) [b..<length xs] = drop b xs" by (rule nth_equalityI) simp_all
  ultimately show ?thesis using assms by (simp add: map_nth_prefix)
qed

lemma nodes_nth:
  "srt_nodes srt ! 0 = srt_src srt"
  "i < length (srt_addrs srt) \<Longrightarrow> srt_nodes srt ! Suc i = srt_addrs srt ! i"
  "srt_nodes srt ! Suc (length (srt_addrs srt)) = srt_dst srt"
  by (simp_all add: srt_nodes_def nth_append)

text \<open>
  C17: the shortcut between two nodes of a route, the second behind the first, is the route without the
  nodes between them, and keeps the costs of the links that remain.
\<close>

theorem shortcut_nodes:
  assumes "srt_sized srt" and "srt_costed srt" and "distinct (srt_nodes srt)"
    and "p < q" and "q < length (srt_nodes srt)"
  shows "\<exists>s. dsr_srt_shortcut srt (srt_nodes srt ! p) (srt_nodes srt ! q) = Inr s
    \<and> srt_nodes s = take (p + 1) (srt_nodes srt) @ drop q (srt_nodes srt) \<and> srt_sized s
    \<and> (srt_addrs s \<noteq> [] \<longrightarrow> srt_cost s = take p (srt_cost srt) @ drop (q - 1) (srt_cost srt))"
proof -
  let ?as = "srt_addrs srt" and ?N = "srt_nodes srt"
  let ?c = "length ?as - (q - 1 - p)"
  have dist: "distinct ?as" "srt_src srt \<notin> set ?as" "srt_dst srt \<notin> set ?as" "srt_src srt \<noteq> srt_dst srt"
    using assms(3) by (auto simp: srt_nodes_def)
  have n: "srt_n srt = length ?as" using assms(1) by (simp add: srt_sized_def)
  have q: "q - 1 \<le> length ?as" "1 \<le> q" using assms(4,5) by (auto simp: srt_nodes_def)
  have bound: "length ?as < 2 ^ 30" by (rule srt_sized_bound [OF assms(1)])
  have a1: "(if ?N ! p \<in> set ?as then last_pos (?N ! p) ?as
      else if srt_src srt = ?N ! p then 0 else -1) = int p"
  proof (cases p)
    case (Suc i)
    then have "i < length ?as" using assms(4) q by simp
    then show ?thesis using Suc last_pos_nth [OF dist(1)] by (simp add: nodes_nth)
  qed (use dist in \<open>simp add: nodes_nth\<close>)
  have a2: "(if srt_dst srt = ?N ! q then int (length ?as) + 1 else last_pos (?N ! q) ?as) = int q"
  proof (cases "q - 1 = length ?as")
    case True
    then have "q = Suc (length ?as)" using q by simp
    then show ?thesis by (simp add: nodes_nth)
  next
    case False
    then obtain i where "q = Suc i" "i < length ?as" using q by (cases q) auto
    then show ?thesis using dist(3) last_pos_nth [OF dist(1)] by (auto simp: nodes_nth)
  qed
  have cut: "int (length ?as) - (int q - int p - 1) = int ?c" using q assms(4) by (simp add: of_nat_diff)
  have keep: "(\<lambda>i. \<not> (int p < int i + 1 \<and> int i + 1 < int q)) = (\<lambda>i. \<not> (p \<le> i \<and> i < q - 1))"
    using q by (intro ext) auto
  have as: "map ((!) ?as) (filter (\<lambda>i. \<not> (p \<le> i \<and> i < q - 1)) [0..<length ?as]) = take p ?as @ drop (q - 1) ?as"
    using assms(4) q by (intro map_nth_skip) auto
  have cs: "map ((!) (srt_cost srt)) (filter (\<lambda>i. \<not> (p \<le> i \<and> i < q - 1)) [0..<length (srt_cost srt)])
      = take p (srt_cost srt) @ drop (q - 1) (srt_cost srt)"
  proof (cases "srt_cost srt")
    case (Cons c cs)
    then show ?thesis using assms(2,4) q by (intro map_nth_skip) (auto simp: srt_costed_def)
  qed simp
  have len: "length (take p ?as @ drop (q - 1) ?as) = ?c" using assms(4) q by simp
  define cut0 where "cut0 = new_srt\<lparr>srt_flags := srt_flags srt, srt_src := srt_src srt,
    srt_dst := srt_dst srt, srt_laddrs := of_nat (4 * ?c)\<rparr>"
  have w: "word_of_int (int ?c * int DSR_ADDRESS_SIZE) = (of_nat (4 * ?c) :: 32 word)"
    by (simp add: DSR_ADDRESS_SIZE_def mult.commute)
  have c: "?c < 2 ^ 30" using bound by simp
  have zero: "srt_laddrs cut0 = 0 \<longleftrightarrow> ?c = 0" using bytes_zero [OF c] by (simp add: cut0_def del: bytes_del)
  have run: "dsr_srt_shortcut srt (?N ! p) (?N ! q) = Inr (if ?c = 0 then cut0
     else cut0\<lparr>srt_addrs := take p ?as @ drop (q - 1) ?as,
       srt_cost := take p (srt_cost srt) @ drop (q - 1) (srt_cost srt)\<rparr>)"
    using n zero len
    unfolding dsr_srt_shortcut_def Let_def n a1 a2 cut keep as cs w cut0_def by (auto simp del: bytes_del)
  have nodes: "take (p + 1) ?N @ drop q ?N = srt_src srt # take p ?as @ drop (q - 1) ?as @ [srt_dst srt]"
    using assms(4) q by (cases q) (auto simp: srt_nodes_def)
  show ?thesis
  proof (cases "?c = 0")
    case True
    then have "take p ?as @ drop (q - 1) ?as = []" using len by (metis length_0_conv)
    moreover have "srt_n cut0 = 0" using True by (simp add: srt_n_def cut0_def)
    ultimately show ?thesis unfolding run nodes using True by (simp add: srt_nodes_def srt_sized_def cut0_def)
  next
    case False
    let ?s = "cut0\<lparr>srt_addrs := take p ?as @ drop (q - 1) ?as,
       srt_cost := take p (srt_cost srt) @ drop (q - 1) (srt_cost srt)\<rparr>"
    have "srt_n ?s = ?c" by (rule srt_n_bytes [OF _ c]) (simp add: cut0_def)
    then have "srt_sized ?s" using len by (simp add: srt_sized_def)
    then show ?thesis unfolding run nodes using False by (simp add: srt_nodes_def cut0_def)
  qed
qed

subsection \<open>Routes in options\<close>

lemma ucast_of_nat_byte: "ucast (of_nat k :: 32 word) = (of_nat k :: 8 word)"
  by (rule bit_word_eqI) (simp add: bit_ucast_iff bit_of_nat_iff)

text \<open>
  C14: what an option for at most 63 addresses carries is the route it was filled from: read back with
  the ends of the packet it gives the same nodes, and following its segments left visits them in
  order; beyond 63 addresses the length byte overflows.
\<close>

theorem srt_option_roundtrip:
  assumes "srt_laddrs srt = of_nat (4 * length (srt_addrs srt))" and "srt_short srt"
    and "so = srt_option salv srt"
  shows "\<exists>s. dsr_srt_new (srt_src srt) (srt_dst srt) (ucast (so_length so)) (so_addrs so) [] = Inr s
    \<and> srt_nodes s = srt_nodes srt \<and> srt_sized s
    \<and> map (\<lambda>j. dsr_srt_next_hop s (uint (so_sleft so) - int j)) [0..<length (srt_addrs srt) + 1]
      = map Inr (tl (srt_nodes srt))"
proof -
  let ?n = "length (srt_addrs srt)"
  have n: "?n \<le> 63" using assms(2) by (simp add: srt_short_def)
  then have sn: "srt_n srt = ?n" using assms(1) by (intro srt_n_bytes) simp_all
  have sleft: "uint (so_sleft so) = int ?n"
    using n by (simp add: assms(3) srt_option_def sn unsigned_of_nat take_bit_nat_eq_self)
  define s where "s = new_srt\<lparr>srt_src := srt_src srt, srt_dst := srt_dst srt,
    srt_laddrs := ucast (so_length so), srt_addrs := srt_addrs srt, srt_cost := [], srt_flags := SRT_BIDIR\<rparr>"
  have len: "so_length so = of_nat (4 * ?n + 2)"
  proof -
    have "srt_laddrs srt + 2 = (of_nat (4 * ?n + 2) :: 32 word)" by (simp add: assms(1))
    then show ?thesis by (simp add: assms(3) srt_option_def ucast_of_nat_byte del: bytes_del)
  qed
  have "unat (ucast (so_length so) :: 32 word) = 4 * ?n + 2"
    using n by (simp add: len unsigned_ucast_eq unsigned_of_nat take_bit_nat_eq_self del: bytes_del)
  then have sized: "srt_sized s" by (simp add: s_def srt_sized_def srt_n_def DSR_ADDRESS_SIZE_def)
  have "dsr_srt_next_hop s (uint (so_sleft so) - int j) = Inr (tl (srt_nodes srt) ! j)" if "j < ?n + 1" for j
    using next_hop_walk [OF sized, of j] that unfolding sleft by (simp add: s_def srt_nodes_def nth_append)
  then have walk: "map (\<lambda>j. dsr_srt_next_hop s (uint (so_sleft so) - int j)) [0..<?n + 1] = map Inr (tl (srt_nodes srt))"
    by (intro nth_equalityI) (simp_all add: srt_nodes_def nth_append del: upt_Suc)
  have "dsr_srt_new (srt_src srt) (srt_dst srt) (ucast (so_length so)) (so_addrs so) [] = Inr s"
    by (simp add: dsr_srt_new_def s_def assms(3) srt_option_def)
  then show ?thesis using sized walk by (intro exI [of _ s]) (simp add: s_def srt_nodes_def)
qed

end
