(* ===== verification/Dsr_Agent_Spec.thy ===== *)
theory Dsr_Agent_Spec
  imports Dsr_Agent_Inv Dsr_Srt_Spec
begin

text \<open>
  What holds of a DSR node: its invariant over all runs, the bound on the time a packet waits, requests
  and their duplicates, discovery, and the way of a packet along its source route.
\<close>

subsection \<open>Runs\<close>

text \<open>The invariant, with what no handler changes; a node that is stopped keeps no packet.\<close>

definition run_inv :: "dsr_conf \<Rightarrow> agent \<Rightarrow> bool" where
  "run_inv cf a \<longleftrightarrow> agent_inv {} a \<and> ag_conf a = cf \<and> MaxMaintBuff a = 100 \<and> buffMaxlen a = 100
    \<and> (nodeActive a \<or> packetBuffer a = [])"

lemma agent_rel_conf: "agent_rel a b \<Longrightarrow> ag_conf b = ag_conf a \<and> MaxMaintBuff b = MaxMaintBuff a
    \<and> buffMaxlen b = buffMaxlen a \<and> nodeActive b = nodeActive a"
  by (simp add: agent_rel_def agent_view_def)

lemma run_inv_start: "run_inv cf (agent_start cf d)"
  by (simp add: run_inv_def agent_start_def agent_inv_def base_ok_def neighbors_ok_def maint_ok_def send_ok_def no_ids_def)

text \<open>An operation on an active node, and one that leaves the send buffer alone.\<close>

lemma run_inv_rel:
  "run_inv cf a \<Longrightarrow> agent_rel a b \<Longrightarrow> nodeActive a \<or> packetBuffer b = packetBuffer a \<Longrightarrow> run_inv cf b"
  using agent_rel_conf [of a b] by (auto simp: run_inv_def agent_rel_def)

lemma run_inv_maint: "run_inv cf a \<Longrightarrow> maint_rel a b \<Longrightarrow> run_inv cf b"
  by (erule run_inv_rel [OF _ maint_agent_rel]) (auto simp: maint_rel_def agent_tables_def)

lemma run_inv_signal:
  assumes "run_inv cf a" and "receiveSignal_dsr n s a = Some (Inr b)" shows "run_inv cf b"
  using assms run_inv_maint [OF assms(1) signals_rel(1)] run_inv_maint [OF assms(1) signals_rel(2)]
  by (auto simp: receiveSignal_dsr_def tap_same split: link_signal.splits if_splits)

lemma send_timeout_conf:
  "ag_conf (send_buf_timeout a) = ag_conf a \<and> MaxMaintBuff (send_buf_timeout a) = MaxMaintBuff a
    \<and> buffMaxlen (send_buf_timeout a) = buffMaxlen a \<and> nodeActive (send_buf_timeout a) = nodeActive a"
proof -
  have "agent_view (drop_waiting w a) = agent_view a" for w using drop_waiting_rel by (simp add: maint_rel_def)
  then show ?thesis by (simp add: send_buf_timeout_def Let_def agent_view_def)
qed

lemma run_inv_timer:
  assumes inv: "run_inv cf a" and t: "agent_handle n (Timer tm) a = Some (Inr b)" shows "run_inv cf b"
proof (cases "nodeActive a")
  case True
  then have h: "handleTimer n tm (timer_fired tm a) = Some (Inr b)" using t by (simp add: agent_handle_def)
  have "agent_inv {} b" using timer_inv [OF h] inv by (simp add: run_inv_def)
  moreover have "ag_conf b = ag_conf a \<and> MaxMaintBuff b = MaxMaintBuff a \<and> buffMaxlen b = buffMaxlen a
    \<and> nodeActive b = nodeActive a"
  proof (cases "tm = SendBufTimer")
    case False
    have "agent_rel (timer_fired tm a) b" using h False
      by (cases tm) (auto dest: maint_call_rels(4) maint_agent_rel grat_timeout_rel rreq_timeout_rel)
    then show ?thesis using agent_rel_conf agent_rel_conf [OF fired_rel [OF False]] by metis
  qed (use h send_timeout_conf [of "a\<lparr>send_buf_timer := None\<rparr>"] in auto)
  ultimately show ?thesis using inv True by (simp add: run_inv_def)
next
  case False
  then have b: "b = timer_fired tm a" using t by (simp add: agent_handle_def)
  show ?thesis
  proof (cases "tm = SendBufTimer")
    case True
    then show ?thesis using inv False b
      by (auto simp: run_inv_def agent_inv_def base_ok_def maint_ok_def neighbors_ok_def send_ok_def no_ids_def)
  next
    case other: False
    have "packetBuffer (timer_fired tm a) = packetBuffer a"
      by (cases tm) (auto simp: put_rreq_def split: option.split)
    then show ?thesis using run_inv_rel [OF inv fired_rel [OF other]] b by simp
  qed
qed

lemma drop_waiting_outputs: "\<exists>os. drop_waiting w c = c\<lparr>ag_outputs := os\<rparr>"
proof (induction w arbitrary: c)
  case Nil
  have "drop_waiting [] c = c\<lparr>ag_outputs := ag_outputs c\<rparr>" by (simp add: drop_waiting_def)
  then show ?case by blast
next
  case (Cons e w)
  have "\<exists>os. drop_payload p c = c\<lparr>ag_outputs := os\<rparr>" for p
    by (cases p) (auto simp: drop_payload_def dsr_emit_def intro: exI [of _ "ag_outputs c"])
  then obtain o1 where "drop_payload (dp_payload (snd (snd e))) c = c\<lparr>ag_outputs := o1\<rparr>" by blast
  moreover obtain o2 where "drop_waiting w (c\<lparr>ag_outputs := o1\<rparr>) = c\<lparr>ag_outputs := o1, ag_outputs := o2\<rparr>"
    using Cons.IH by blast
  ultimately have "drop_waiting (e # w) c = c\<lparr>ag_outputs := o2\<rparr>" by (simp add: drop_waiting_def)
  then show ?case by blast
qed

lemma run_inv_stop:
  assumes inv: "run_inv cf a" and s: "node_stop a = Some (Inr b)" shows "run_inv cf b"
proof -
  obtain d where b: "b = clear_tables (a\<lparr>nodeActive := False, ag_db := d\<rparr>)"
    using s by (auto simp: node_stop_def elim!: bindE_InrE)
  obtain os where os: "drop_waiting (packetBuffer a) (a\<lparr>nodeActive := False, ag_db := d, neighborMap := Map.empty,
      dsrRreqTbl := Map.empty, gratRrep := [], grat_rrep_tbl_timer := None\<rparr>)
    = a\<lparr>nodeActive := False, ag_db := d, neighborMap := Map.empty, dsrRreqTbl := Map.empty, gratRrep := [],
      grat_rrep_tbl_timer := None, ag_outputs := os\<rparr>"
    using drop_waiting_outputs by blast
  show ?thesis using inv unfolding b
    by (simp add: os run_inv_def clear_tables_def maint_buf_cleanup_def send_buf_cleanup_def grat_rrep_tbl_cleanup_def
        rreq_tbl_cleanup_def neigh_tbl_cleanup_def agent_inv_def base_ok_def maint_ok_def neighbors_ok_def send_ok_def
        no_ids_def)
qed

lemma send_ok_wait:
  assumes "send_ok a" "ag_time a \<le> t" "\<forall>d. send_buf_timer a = Some d \<longrightarrow> t \<le> d"
  shows "send_ok (a\<lparr>ag_time := t\<rparr>)"
  using assms unfolding send_ok_def send_usecs_def by (simp add: order.trans [OF _ assms(2)])

lemma base_ok_wait: "base_ok (a\<lparr>ag_time := t\<rparr>) = base_ok a" "no_ids S (a\<lparr>ag_time := t\<rparr>) = no_ids S a"
  by (simp_all add: base_ok_def maint_ok_def neighbors_ok_def no_ids_def)

lemma active_same: "base_ok (a\<lparr>nodeActive := t\<rparr>) = base_ok a" "no_ids S (a\<lparr>nodeActive := t\<rparr>) = no_ids S a"
  "send_ok (a\<lparr>nodeActive := t\<rparr>) = send_ok a"
  by (simp_all add: base_ok_def maint_ok_def neighbors_ok_def no_ids_def send_ok_def send_usecs_def)

lemma run_inv_step: "agent_step a b \<Longrightarrow> run_inv cf a \<Longrightarrow> run_inv cf b"
proof (induction rule: agent_step.induct)
  case (wait a t)
  have "\<forall>d. send_buf_timer a = Some d \<longrightarrow> t \<le> d" using wait(2) timer_of.simps(3) by metis
  then show ?case using wait(1,3) send_ok_wait by (simp add: run_inv_def agent_inv_def base_ok_wait)
next
  case (timer tm a n a')
  then show ?case by (blast intro: run_inv_timer)
next
  case (event e n a a')
  show ?case
  proof (cases e)
    case (Datagram g)
    have "handle_datagram n g a = Some (Inr a')" using event(2) Datagram by (simp add: agent_handle_def)
    then show ?thesis using run_inv_rel [OF event(3) datagram_rel] by (auto simp: handle_datagram_def split: if_splits)
  next
    case (Signal s)
    then show ?thesis using event run_inv_signal by (simp add: agent_handle_def)
  next
    case Stop
    then show ?thesis using event run_inv_stop by (simp add: agent_handle_def)
  next
    case Start
    then show ?thesis using event(2,3)
      by (auto simp: agent_handle_def node_start_def run_inv_def agent_inv_def active_same)
  qed (use event in blast)
qed

lemma run_inv_run: "agent_run a b \<Longrightarrow> run_inv cf a \<Longrightarrow> run_inv cf b"
  by (induction rule: agent_run.induct) (auto dest: run_inv_step)

lemmas reached_inv = run_inv_run [OF _ run_inv_start]

text \<open>C3: In every state a DSR node reaches, with any datagrams, signals, timers, stops and starts, the two buffers
  hold at most 100 packets, the maintenance buffer is in the order of expiry without two entries of one
  address, and every time-out for an acknowledgment is between 10 and 640 milliseconds.\<close>

theorem dsr_node_invariant:
  assumes "agent_run (agent_start cf d) a"
  shows "length (packetBuffer a) \<le> 100 \<and> length (maint_buf a) \<le> 100
    \<and> sorted (map fst (maint_buf a)) \<and> distinct (map (mt_key \<circ> snd) (maint_buf a))
    \<and> (\<forall>x i t r. neigh_tbl_query x a = Some (i, t, r) \<longrightarrow> 10000 \<le> r \<and> r \<le> 640000)"
proof -
  have inv: "run_inv cf a" by (rule reached_inv [OF assms])
  then have "base_ok a" "send_ok a" "MaxMaintBuff a = 100" "buffMaxlen a = 100"
    by (simp_all add: run_inv_def agent_inv_def)
  then show ?thesis using neigh_query_bounds [of a] by (auto simp: base_ok_def maint_ok_def send_ok_def)
qed

text \<open>C12: A packet stays in the send buffer for \<open>SendBufferTimeout\<close> at most, but for the rounding of the timer to
  microseconds, whatever happens in the meantime.\<close>

theorem waiting_time_bounded:
  assumes "agent_run (agent_start cf d) a" and "(dst, arrival, dp) \<in> set (packetBuffer a)"
  shows "ag_time a \<le> arrival + wide_usecs (sec_usecs (SendBufferTimeout cf)) + 1 / 1000000"
proof -
  have "run_inv cf a" by (rule reached_inv [OF assms(1)])
  then have "send_ok a" "ag_conf a = cf" by (simp_all add: run_inv_def agent_inv_def)
  with assms(2) show ?thesis by (force simp: send_ok_def send_usecs_def usec_def)
qed

text \<open>C37: The request table never holds an identifier when a handler has ended, since the handler that records one
  erases the entry of the initiator again; looking a request up in it finds nothing.\<close>

theorem no_request_remembered:
  assumes "agent_run (agent_start cf d) a"
  shows "\<not> dup_in_table a initiator target i len addrs"
proof -
  have "run_inv cf a" by (rule reached_inv [OF assms])
  then have "no_ids {} a" by (simp add: run_inv_def agent_inv_def)
  then show ?thesis by (auto simp: dup_in_table_def no_ids_def split: option.split)
qed

text \<open>C39: A node in promiscuous mode learns nothing from the packets it overhears: the options of the packet are
  cleared before they are read, so whatever the packet carries, its handling ends at once and the state
  stays as it was, the caches, the neighbours, the buffers and the outputs included.\<close>

theorem overheard_ignored:
  "dp_opth (dsr_pkt_alloc2 g) = [] \<and> tap n g a = Some (Inr a) \<and> receiveSignal_dsr n (Promiscuous g) a = Some (Inr a)"
  by (simp add: alloc2_no_options receiveSignal_dsr_def tap_same)

subsection \<open>Repeated requests\<close>

lemma dup_scan_none_left:
  "dup_scan now m i addrs es = Some (False, es') \<Longrightarrow> \<forall>e\<in>set es'. si_seq e \<noteq> i"
  by (induction now m i addrs es arbitrary: es' rule: dup_scan.induct) (auto split: if_splits)

lemma dup_scan_skip:
  assumes "\<forall>e\<in>set es. si_seq e \<noteq> i"
  shows "\<exists>es'. dup_scan now m i addrs (es @ r) = map_option (map_prod id (\<lambda>r'. es' @ r')) (dup_scan now m i addrs r)"
  using assms
proof (induction es)
  case Nil
  show ?case by (intro exI [of _ "[]"]) (simp add: option.map_ident)
next
  case (Cons e es)
  have "\<forall>e\<in>set es. si_seq e \<noteq> i" using Cons.prems by simp
  then obtain es' where es': "dup_scan now m i addrs (es @ r) = map_option (map_prod id ((@) es')) (dup_scan now m i addrs r)"
    using Cons.IH by blast
  show ?case
  proof (cases "now - si_time e > 100")
    case False
    then have "dup_scan now m i addrs ((e # es) @ r) = map_option (map_prod id ((@) (e # es'))) (dup_scan now m i addrs r)"
      using Cons.prems es' by (cases "dup_scan now m i addrs r") auto
    then show ?thesis by blast
  next
    case True
    then show ?thesis using es' by (intro exI [of _ "es'"]) (cases "dup_scan now m i addrs r"; simp add: id_def)
  qed
qed

text \<open>C16: When a request was new, the next one of the same number from the same initiator within 100 seconds is a
  duplicate, whatever its path, unless several visits are configured; with two or more, and another
  path, the loop over the requests does not end.\<close>

theorem repeated_request:
  assumes new: "dsr_rreq_duplicate x t i len addrs a = Some (Inr (False, a1))"
    and later: "rreqInfoMap a2 x = rreqInfoMap a1 x" "ag_time a2 \<le> ag_time a + 100"
  shows "if unat (RREQMulVisit (ag_conf a2)) \<le> 1 \<or> addrs' = addrs
    then \<exists>a3. dsr_rreq_duplicate x t' i len' addrs' a2 = Some (Inr (True, a3))
    else dsr_rreq_duplicate x t' i len' addrs' a2 = None"
proof -
  obtain es' where es': "\<forall>e\<in>set es'. si_seq e \<noteq> i"
    and a1: "rreqInfoMap a1 x = Some (es' @ [\<lparr>si_seq = i, si_time = ag_time a, si_paths = [addrs]\<rparr>])"
    using new dup_scan_none_left by (fastforce simp: dsr_rreq_duplicate_def Let_def split: if_splits)
  obtain es'' where scan: "dup_scan (ag_time a2) (RREQMulVisit (ag_conf a2)) i addrs'
      (es' @ [\<lparr>si_seq = i, si_time = ag_time a, si_paths = [addrs]\<rparr>])
    = map_option (map_prod id ((@) es'')) (dup_scan (ag_time a2) (RREQMulVisit (ag_conf a2)) i addrs'
      [\<lparr>si_seq = i, si_time = ag_time a, si_paths = [addrs]\<rparr>])"
    using dup_scan_skip [OF es'] by blast
  show ?thesis
    using later(2) by (auto simp: dsr_rreq_duplicate_def Let_def later(1) a1 scan unat_eq_zero)
qed

end
