(* ===== verification/Dsr_Route_Spec.thy ===== *)
theory Dsr_Route_Spec
  imports Dsr_Agent_Spec
begin

text \<open>
  The way of a packet over a source route: the node that has the route sends it to the first node, every
  node on the route sends it to the next one, and the destination passes its payload up.  The path
  cache is in use, without transmission counts and without acknowledgments of the network layer
  (\<open>UseNetworkLayerAck\<close>, on by default).
\<close>

subsection \<open>A packet on its way\<close>

text \<open>The datagram has a source route with the first \<open>j\<close> nodes behind it.\<close>

definition on_route :: "dsr_srt \<Rightarrow> nat \<Rightarrow> datagram \<Rightarrow> bool" where
  "on_route srt j g \<longleftrightarrow> dg_protocol g = IPPROTO_DSR \<and> dg_is_dsr g \<and> dg_src g = srt_src srt
    \<and> dg_dst g = srt_dst srt \<and> dg_cost g = [] \<and> dg_ttl g \<noteq> 0 \<and> j \<le> length (srt_addrs srt)
    \<and> (\<exists>h so. dg_opts g = [h] \<and> oh_option h = [SrtOpt so] \<and> so_addrs so = srt_addrs srt
         \<and> unat (so_length so) = 4 * length (srt_addrs srt) + 2 \<and> unat (so_sleft so) = length (srt_addrs srt) - j)"

text \<open>The routes in question, and the nodes: active, and configured as above.\<close>

definition plain_route :: "dsr_srt \<Rightarrow> bool" where
  "plain_route srt \<longleftrightarrow> srt_short srt \<and> distinct (srt_nodes srt) \<and> srt_src srt \<noteq> 0 \<and> srt_dst srt \<noteq> DSR_BROADCAST"

definition plain_node :: "in_addr \<Rightarrow> agent \<Rightarrow> bool" where
  "plain_node me a \<longleftrightarrow> myaddr a = me \<and> nodeActive a \<and> \<not> UseNetworkLayerAck (ag_conf a)
    \<and> pathCacheConf (ag_db a) \<and> \<not> etxActive (ag_db a)"

subsection \<open>What a node learns\<close>

lemma rtc_add_returns:
  assumes "pathCacheConf (ag_db a)" and "srt_cost r = []"
  shows "\<exists>d. dsr_rtc_add r a = Some (Inr (a\<lparr>ag_db := d\<rparr>)) \<and> db_conf d = db_conf (ag_db a)"
proof -
  obtain d where d: "RouteAdd (ag_time a) (Some r) (cache_usecs a) 0 (ag_db a) = Inr d"
    using ph_srt_add_map_returns [of r "ag_time a" "cache_usecs a" "ag_db a"] assms by (auto simp: RouteAdd_def)
  then show ?thesis using RouteAdd_conf by (auto simp: dsr_rtc_add_def)
qed

lemma learn_paths_returns:
  assumes conf: "pathCacheConf (ag_db a)" and split: "dsr_srt_split_both srt (myaddr a) (myaddr a) = Inr (d, s)"
    and costs: "\<And>r. d = Some r \<Longrightarrow> srt_cost r = []" "\<And>r. s = Some r \<Longrightarrow> srt_cost r = []"
  shows "\<exists>db. srt_learn_paths True prv srt a = Some (Inr (a\<lparr>ag_db := db\<rparr>)) \<and> db_conf db = db_conf (ag_db a)"
proof -
  define a1 where "a1 = a\<lparr>ag_db := ph_srt_add_node_map (ag_time a) prv (cache_usecs a) (ag_db a)\<rparr>"
  have c1: "db_conf (ag_db a1) = db_conf (ag_db a)" using other_calls_conf(1) by (simp add: a1_def)
  have add: "\<exists>db. (case r of None \<Rightarrow> Some (Inr b) | Some x \<Rightarrow> dsr_rtc_add x b) = Some (Inr (b\<lparr>ag_db := db\<rparr>))
      \<and> db_conf db = db_conf (ag_db a)"
    if "db_conf (ag_db b) = db_conf (ag_db a)" "\<And>x. r = Some x \<Longrightarrow> srt_cost x = []" for r b
  proof (cases r)
    case None
    then show ?thesis using that(1) by (auto intro: exI [of _ "ag_db b"])
  next
    case (Some x)
    then show ?thesis using rtc_add_returns [of b x] that conf by (auto simp: db_conf_def)
  qed
  obtain d1 where d1: "(case d of None \<Rightarrow> Some (Inr a1) | Some x \<Rightarrow> dsr_rtc_add x a1) = Some (Inr (a1\<lparr>ag_db := d1\<rparr>))"
    "db_conf d1 = db_conf (ag_db a)" using add [OF c1 costs(1)] by blast
  obtain d2 where d2: "(case s of None \<Rightarrow> Some (Inr (a1\<lparr>ag_db := d1\<rparr>)) | Some x \<Rightarrow> dsr_rtc_add x (a1\<lparr>ag_db := d1\<rparr>))
      = Some (Inr (a1\<lparr>ag_db := d1, ag_db := d2\<rparr>))" "db_conf d2 = db_conf (ag_db a)"
    using add [of "a1\<lparr>ag_db := d1\<rparr>" s] d1(2) costs(2) by auto
  have "srt_learn_paths True prv srt a = Some (Inr (a1\<lparr>ag_db := d1, ag_db := d2\<rparr>))"
    using split d1(1) d2(1) by (simp add: srt_learn_paths_def Let_def a1_def [symmetric])
  then show ?thesis using d2(2) by (auto simp: a1_def)
qed

text \<open>At the destination there is only the way back.\<close>

lemma split_both_at_end:
  assumes "srt_sized srt" and "distinct (srt_nodes srt)" and "srt_cost srt = []"
  shows "\<exists>s. dsr_srt_split_both srt (srt_dst srt) (srt_dst srt) = Inr (None, s) \<and> (\<forall>r. s = Some r \<longrightarrow> srt_cost r = [])"
proof (cases "srt_addrs srt = []")
  case True
  then show ?thesis using assms by (simp add: dsr_srt_split_both_def srt_sized_def)
next
  case False
  have n: "srt_n srt = length (srt_addrs srt)" using assms(1) by (simp add: srt_sized_def)
  have d: "srt_dst srt \<notin> set (srt_addrs srt)" "srt_dst srt \<noteq> srt_src srt" using assms(2) by (auto simp: srt_nodes_def)
  have "split_dest srt (srt_dst srt) (srt_dst srt) (int (length (srt_addrs srt)) + 1) = Inr None"
    by (simp add: split_dest_def n)
  moreover obtain r where "split_src srt (srt_dst srt) (length (srt_addrs srt)) = Inr (Some r)" "srt_cost r = []"
    using split_src_clean [of "srt_dst srt" "length (srt_addrs srt)" srt] d False assms(3) by (auto simp: srt_costed_def)
  ultimately show ?thesis using False d n by (simp add: dsr_srt_split_both_def)
qed

subsection \<open>One hop\<close>

text \<open>The route a node reads from the option.\<close>

definition received :: "dsr_srt \<Rightarrow> u8 \<Rightarrow> dsr_srt" where
  "received srt l = new_srt\<lparr>srt_src := srt_src srt, srt_dst := srt_dst srt, srt_laddrs := ucast l,
     srt_addrs := srt_addrs srt, srt_cost := [], srt_flags := SRT_BIDIR\<rparr>"

lemma received_simps [simp]:
  "dsr_srt_new (srt_src srt) (srt_dst srt) (ucast l) (srt_addrs srt) [] = Inr (received srt l)"
  "srt_addrs (received srt l) = srt_addrs srt" "srt_nodes (received srt l) = srt_nodes srt"
  "srt_cost (received srt l) = []" "srt_dst (received srt l) = srt_dst srt"
  by (simp_all add: dsr_srt_new_def received_def srt_nodes_def)

lemma unat_widened: "unat (ucast l :: 32 word) = unat (l :: u8)"
proof -
  have "unat l < 2 ^ 8" using unsigned_less [of l] by simp
  then show ?thesis by (simp add: unsigned_ucast_eq take_bit_nat_eq_self)
qed

lemma received_sized: "unat l = 4 * length (srt_addrs srt) + 2 \<Longrightarrow> srt_sized (received srt l)"
  by (simp add: srt_sized_def srt_n_def received_def DSR_ADDRESS_SIZE_def unat_widened)

lemma prev_hop_all:
  assumes "srt_sized srt" and "j \<le> length (srt_addrs srt)"
  shows "dsr_srt_prev_hop srt (int (length (srt_addrs srt)) - int j - 1) = Inr (srt_nodes srt ! j)"
proof (cases "j < length (srt_addrs srt)")
  case False
  then have j: "j = length (srt_addrs srt)" using assms(2) by simp
  show ?thesis
  proof (cases j)
    case (Suc k)
    then have "vec_at (srt_addrs srt) (int k) = Inr (srt_addrs srt ! k)" using j by (intro vec_at_nat) simp
    then show ?thesis using assms(1) Suc j by (simp add: dsr_srt_prev_hop_def srt_sized_def nodes_nth)
  qed (use assms(1) j in \<open>simp add: dsr_srt_prev_hop_def srt_sized_def nodes_nth\<close>)
qed (use prev_hop_walk assms in simp)

definition next_stop :: "dsr_srt \<Rightarrow> nat \<Rightarrow> in_addr" where
  "next_stop srt j = (if j < length (srt_addrs srt) then srt_nodes srt ! (j + 2) else srt_dst srt)"

lemma next_stop_hop:
  assumes "srt_sized srt" and "j \<le> length (srt_addrs srt)"
  shows "dsr_srt_next_hop srt (int (length (srt_addrs srt)) - int j - 1) = Inr (next_stop srt j)"
proof (cases "j < length (srt_addrs srt)")
  case True
  then show ?thesis using next_hop_walk [OF assms(1), of "j + 1"] by (simp add: next_stop_def algebra_simps)
next
  case False
  then show ?thesis using assms(2) by (simp add: next_stop_def dsr_srt_next_hop_def)
qed

lemma split_both_here:
  assumes "srt_sized srt" "distinct (srt_nodes srt)" "srt_cost srt = []" "j \<le> length (srt_addrs srt)"
    and "me = srt_nodes srt ! (j + 1)"
  shows "\<exists>d s. dsr_srt_split_both srt me me = Inr (d, s)
    \<and> (\<forall>r. d = Some r \<longrightarrow> srt_cost r = []) \<and> (\<forall>r. s = Some r \<longrightarrow> srt_cost r = [])"
proof (cases "j < length (srt_addrs srt)")
  case True
  then show ?thesis
    using split_both_on_route [OF assms(1) _ assms(2), of j me] assms(3,5)
    by (auto simp: srt_costed_def nodes_nth split: if_splits)
next
  case False
  then show ?thesis using split_both_at_end [OF assms(1-3)] assms(4,5) by (auto simp: nodes_nth)
qed

lemma srt_recv_on_route:
  assumes node: "plain_node (srt_nodes srt ! (j + 1)) a" and route: "distinct (srt_nodes srt)"
    and j: "j \<le> length (srt_addrs srt)"
    and so: "so_addrs so = srt_addrs srt" "unat (so_length so) = 4 * length (srt_addrs srt) + 2"
      "unat (so_sleft so) = length (srt_addrs srt) - j"
    and dp: "dp_src dp = srt_src srt" "dp_dst dp = srt_dst srt" "dp_costVector dp = []"
  shows "\<exists>db. dsr_srt_opt_recv n p so dp a = Some (Inr (srt_forward p so (length (srt_addrs srt))
      (dp\<lparr>dp_srt_opt := Some p, dp_srt := Some (received srt (so_length so)), dp_salvage := unat (so_salv so),
        dp_prv_hop := srt_nodes srt ! j, dp_nxt_hop := next_stop srt j\<rparr>)
      ((neigh_tbl_add (srt_nodes srt ! j) (dp_h_source dp) a)\<lparr>ag_db := db\<rparr>)))
    \<and> db_conf db = db_conf (ag_db a)"
proof -
  let ?r = "received srt (so_length so)" and ?me = "srt_nodes srt ! (j + 1)"
  let ?a = "neigh_tbl_add (srt_nodes srt ! j) (dp_h_source dp) a"
  have r: "srt_sized ?r" by (rule received_sized [OF so(2)])
  have left: "uint (so_sleft so) = int (length (srt_addrs srt)) - int j"
    using so(3) j by (metis of_nat_diff unat_eq_nat_uint uint_nat)
  have hops: "dsr_srt_next_hop ?r (uint (so_sleft so)) = Inr ?me"
    "dsr_srt_prev_hop ?r (uint (so_sleft so) - 1) = Inr (srt_nodes srt ! j)"
    "dsr_srt_next_hop ?r (uint (so_sleft so) - 1) = Inr (next_stop srt j)"
    using next_hop_walk [OF r, of j] prev_hop_all [OF r, of j] next_stop_hop [OF r, of j] j
    by (simp_all add: left next_stop_def)
  have me: "myaddr ?a = ?me" "ag_db ?a = ag_db a" "pathCacheConf (ag_db ?a)"
    using node by (auto simp: plain_node_def neigh_tbl_add_def split: option.split)
  obtain d s where "dsr_srt_split_both ?r ?me ?me = Inr (d, s)"
    "\<forall>x. d = Some x \<longrightarrow> srt_cost x = []" "\<forall>x. s = Some x \<longrightarrow> srt_cost x = []"
    using split_both_here [OF r, of j ?me] route j by auto
  then obtain db where db: "srt_learn_paths True (srt_nodes srt ! j) ?r ?a = Some (Inr (?a\<lparr>ag_db := db\<rparr>))"
    "db_conf db = db_conf (ag_db a)"
    using learn_paths_returns [OF me(3), of ?r d s "srt_nodes srt ! j"] me(1,2) by auto
  have "srt_n ?r = length (srt_addrs srt)" using r by (simp add: srt_sized_def)
  then show ?thesis
    using hops db node so(1) dp by (auto simp: dsr_srt_opt_recv_def plain_node_def Let_def intro!: exI [of _ db])
qed

text \<open>The packet of a datagram with one option, a source route.\<close>

lemma alloc_on_route:
  assumes "dg_protocol g = IPPROTO_DSR" "dg_is_dsr g" "dg_opts g = [h]" "oh_option h = [SrtOpt so]"
  shows "dsr_pkt_alloc False g = (pkt_of_header g)\<lparr>dp_payload := dg_payload g, dp_opth := [h], dp_ip_pkt := Some g,
    dp_encapsulate_protocol := (if dg_payload g = None then 0 else dg_encap g), dp_costVector := dg_cost g,
    dp_srt_opt := Some (0, 0), dp_payload_len := payload_bytes (dg_payload g)\<rparr>"
  using assms by (simp add: dsr_pkt_alloc_def Let_def dsr_opt_parse_def opt_list_def pkt_of_header_def empty_pkt_def)

lemma neigh_add_same: "nodeActive (neigh_tbl_add x h a) = nodeActive a" "ag_conf (neigh_tbl_add x h a) = ag_conf a"
  "ag_db (neigh_tbl_add x h a) = ag_db a" "ag_outputs (neigh_tbl_add x h a) = ag_outputs a"
  by (simp_all add: neigh_tbl_add_def split: option.split)

lemma opt_recv_on_route:
  assumes node: "plain_node (srt_nodes srt ! (j + 1)) a" and route: "distinct (srt_nodes srt)"
    and g: "on_route srt j g"
  shows "\<exists>h so dp db. dg_opts g = [h] \<and> oh_option h = [SrtOpt so]
    \<and> dsr_opt_recv n (dsr_pkt_alloc False g) a =
      bindO (Some (Inr (srt_forward (0, 0) so (length (srt_addrs srt)) dp
          ((neigh_tbl_add (srt_nodes srt ! j) (dg_h_source g) a)\<lparr>ag_db := db\<rparr>)))) (\<lambda>(act, dp', a').
        Some (Inr ((if srt_dst srt = myaddr a \<and> payload_bytes (dg_payload g) \<noteq> 0 then DSR_PKT_DELIVER else 0) OR act, dp', a')))
    \<and> dp = (dsr_pkt_alloc False g)\<lparr>dp_srt_opt := Some (0, 0), dp_srt := Some (received srt (so_length so)),
        dp_salvage := unat (so_salv so), dp_prv_hop := srt_nodes srt ! j, dp_nxt_hop := next_stop srt j\<rparr>
    \<and> db_conf db = db_conf (ag_db a)"
proof -
  obtain h so where h: "dg_opts g = [h]" "oh_option h = [SrtOpt so]" "so_addrs so = srt_addrs srt"
    "unat (so_length so) = 4 * length (srt_addrs srt) + 2" "unat (so_sleft so) = length (srt_addrs srt) - j"
    using g by (auto simp: on_route_def)
  let ?dp = "dsr_pkt_alloc False g"
  have dp: "?dp = (pkt_of_header g)\<lparr>dp_payload := dg_payload g, dp_opth := [h], dp_ip_pkt := Some g,
      dp_encapsulate_protocol := (if dg_payload g = None then 0 else dg_encap g), dp_costVector := dg_cost g,
      dp_srt_opt := Some (0, 0), dp_payload_len := payload_bytes (dg_payload g)\<rparr>"
    using alloc_on_route h(1,2) g by (simp add: on_route_def)
  have fields: "dp_src ?dp = srt_src srt" "dp_dst ?dp = srt_dst srt" "dp_costVector ?dp = []" "dp_h_source ?dp = dg_h_source g"
    "opt_list ?dp = [((0, 0), SrtOpt so)]" "opt_at ?dp (0, 0) = Some (SrtOpt so)"
    "dp_payload_len ?dp = payload_bytes (dg_payload g)"
    using g h(2) by (simp_all add: dp on_route_def pkt_of_header_def opt_list_def opt_at_def)
  obtain db where "dsr_srt_opt_recv n (0, 0) so ?dp a = Some (Inr (srt_forward (0, 0) so (length (srt_addrs srt))
      (?dp\<lparr>dp_srt_opt := Some (0, 0), dp_srt := Some (received srt (so_length so)), dp_salvage := unat (so_salv so),
        dp_prv_hop := srt_nodes srt ! j, dp_nxt_hop := next_stop srt j\<rparr>)
      ((neigh_tbl_add (srt_nodes srt ! j) (dg_h_source g) a)\<lparr>ag_db := db\<rparr>)))" "db_conf db = db_conf (ag_db a)"
    using srt_recv_on_route [OF node route _ h(3-5) fields(1-3), of n "(0, 0)"] g fields(4) by (auto simp: on_route_def)
  then show ?thesis using h(1,2) fields
    by (intro exI [of _ h] exI [of _ so] exI [of _ "?dp\<lparr>dp_srt_opt := Some (0, 0),
        dp_srt := Some (received srt (so_length so)), dp_salvage := unat (so_salv so),
        dp_prv_hop := srt_nodes srt ! j, dp_nxt_hop := next_stop srt j\<rparr>"] exI [of _ db])
      (simp add: dsr_opt_recv_def recv_opt_def Let_def case_prod_unfold)
qed

lemma start_bits:
  "(0 OR DSR_PKT_FORWARD) AND DSR_PKT_SEND_BUFFERED = 0" "(0 OR DSR_PKT_FORWARD) AND DSR_PKT_FORWARD \<noteq> 0"
  by (simp_all add: dsr_actions)

text \<open>A node on the route sends the packet to the next stop, with one segment less.\<close>

lemma forwarded_hop:
  assumes node: "plain_node (srt_nodes srt ! (j + 1)) a" and route: "plain_route srt"
    and g: "on_route srt j g" and j: "j < length (srt_addrs srt)"
  shows "\<exists>b g'. handle_datagram (Suc n) g a = Some (Inr b) \<and> ag_outputs b = ag_outputs a @ [Sent g' UnicastDelay]
    \<and> on_route srt (j + 1) g' \<and> dg_prev g' = srt_nodes srt ! (j + 1) \<and> dg_next g' = srt_nodes srt ! (j + 2)
    \<and> dg_payload g' = dg_payload g \<and> (dg_payload g \<noteq> None \<longrightarrow> dg_encap g' = dg_encap g)"
proof -
  have dist: "distinct (srt_nodes srt)" and ends: "srt_src srt \<noteq> 0" "srt_dst srt \<noteq> DSR_BROADCAST"
    using route by (simp_all add: plain_route_def)
  have me: "myaddr a = srt_nodes srt ! (j + 1)" using node by (simp add: plain_node_def)
  then have other: "srt_dst srt \<noteq> myaddr a" "srt_src srt \<noteq> myaddr a"
    using dist j nth_eq_iff_index_eq [OF dist, of "j + 1" 0] nth_eq_iff_index_eq [OF dist, of "j + 1" "length (srt_addrs srt) + 1"]
    by (auto simp: srt_nodes_def nth_append split: if_splits)
  obtain h so dp db where h: "dg_opts g = [h]" "oh_option h = [SrtOpt so]"
    and recv: "dsr_opt_recv (Suc n) (dsr_pkt_alloc False g) a =
      bindO (Some (Inr (srt_forward (0, 0) so (length (srt_addrs srt)) dp
          ((neigh_tbl_add (srt_nodes srt ! j) (dg_h_source g) a)\<lparr>ag_db := db\<rparr>)))) (\<lambda>(act, dp', a').
        Some (Inr ((if srt_dst srt = myaddr a \<and> payload_bytes (dg_payload g) \<noteq> 0 then DSR_PKT_DELIVER else 0) OR act, dp', a')))"
    and dp: "dp = (dsr_pkt_alloc False g)\<lparr>dp_srt_opt := Some (0, 0), dp_srt := Some (received srt (so_length so)),
        dp_salvage := unat (so_salv so), dp_prv_hop := srt_nodes srt ! j, dp_nxt_hop := next_stop srt j\<rparr>"
    and db: "db_conf db = db_conf (ag_db a)"
    using opt_recv_on_route [OF node dist g] by blast
  have so: "unat (so_sleft so) = length (srt_addrs srt) - j" "so_addrs so = srt_addrs srt"
      "unat (so_length so) = 4 * length (srt_addrs srt) + 2"
    using g h by (auto simp: on_route_def)
  define a1 where "a1 = (neigh_tbl_add (srt_nodes srt ! j) (dg_h_source g) a)\<lparr>ag_db := db\<rparr>"
  define so' where "so' = so\<lparr>so_sleft := so_sleft so - 1\<rparr>"
  define dp' where "dp' = set_opt (0, 0) (SrtOpt so') dp"
  have pkt: "dsr_pkt_alloc False g = (pkt_of_header g)\<lparr>dp_payload := dg_payload g, dp_opth := [h], dp_ip_pkt := Some g,
      dp_encapsulate_protocol := (if dg_payload g = None then 0 else dg_encap g), dp_costVector := dg_cost g,
      dp_srt_opt := Some (0, 0), dp_payload_len := payload_bytes (dg_payload g)\<rparr>"
    using alloc_on_route h g by (simp add: on_route_def)
  have a1: "myaddr a1 = myaddr a" "\<not> etxActive (ag_db a1)" "ag_conf a1 = ag_conf a" "ag_outputs a1 = ag_outputs a"
    using db node by (auto simp: a1_def db_conf_def plain_node_def neigh_add_same)
  have flags: "dp_flags dp = 0" "dp_flags dp' = 0" by (simp_all add: dp'_def set_opt_def dp pkt pkt_of_header_def empty_pkt_def)
  have left: "so_sleft so \<noteq> 0" "\<not> length (srt_addrs srt) < unat (so_sleft so)" using so(1) j by auto
  have act: "dsr_opt_recv (Suc n) (dsr_pkt_alloc False g) a = Some (Inr (0 OR DSR_PKT_FORWARD, dp', a1))"
    using recv other(1) left flags a1(2)
    by (simp add: srt_forward_def has_flag_def update_own_cost_def Let_def dp'_def so'_def a1_def)
  have iph: "dp_iph dp' = dp_iph (pkt_of_header g)" "dp_opth dp' = [h\<lparr>oh_option := [SrtOpt so']\<rparr>]" "dp_src dp' = srt_src srt"
    "dp_dst dp' = srt_dst srt" "dp_payload dp' = dg_payload g" "dp_costVector dp' = []" "dp_nxt_hop dp' = next_stop srt j"
    "dp_encapsulate_protocol dp' = (if dg_payload g = None then 0 else dg_encap g)" "dp_ip_pkt dp' = Some g"
    using g h(2) by (simp_all add: dp'_def set_opt_def dp pkt pkt_of_header_def on_route_def)
  obtain g' where g': "dsr_datagram (myaddr a1) dp' = Inr g'" "dg_ttl g' = dg_ttl g"
    "dg_protocol g' = IPPROTO_DSR" "dg_is_dsr g'" "dg_src g' = srt_src srt" "dg_dst g' = srt_dst srt" "dg_cost g' = []"
    "dg_opts g' = [h\<lparr>oh_option := [SrtOpt so']\<rparr>]" "dg_prev g' = myaddr a" "dg_next g' = next_stop srt j"
    "dg_payload g' = dg_payload g" "dg_payload g \<noteq> None \<longrightarrow> dg_encap g' = dg_encap g"
    using iph ends(2) a1(1) by (auto simp: dsr_datagram_def pkt_of_header_def)
  have sent: "omnet_xmit (Suc n) dp' a1 = Some (Inr (dsr_emit (Sent g' UnicastDelay) a1))"
    using g' flags iph(4) ends(2) g by (simp add: xmit_now_def has_flag_def on_route_def)
  have "handle_datagram (Suc n) g a = Some (Inr (dsr_emit (Sent g' UnicastDelay) a1))"
  proof -
    have "handle_datagram (Suc n) g a = dsr_recv (Suc n) (dsr_pkt_alloc False g) a"
      using node g ends(1) other(2) by (simp add: handle_datagram_def plain_node_def defaultProcess_def Let_def on_route_def pkt pkt_of_header_def)
    moreover have "\<exists>x. dp_iph dp' = Some x \<and> \<not> ip_ttl x < 1"
      using g by (simp add: iph(1) pkt_of_header_def on_route_def)
    ultimately show ?thesis using act sent start_bits flags by (auto simp: dsr_recv_def has_flag_def)
  qed
  moreover have "unat (so_sleft so') = length (srt_addrs srt) - (j + 1)"
    using so(1) left(1) j by (simp add: so'_def unat_minus_one)
  then have "on_route srt (j + 1) g'" using g' g so(2,3) j by (auto simp: on_route_def so'_def)
  ultimately show ?thesis using g' a1(4) me j by (auto simp: dsr_emit_def next_stop_def)
qed

text \<open>The destination passes the payload up.\<close>

definition passed_up :: "datagram \<Rightarrow> datagram \<Rightarrow> bool" where
  "passed_up g d \<longleftrightarrow> dg_src d = dg_src g \<and> dg_dst d = dg_dst g \<and> dg_payload d = dg_payload g
    \<and> dg_protocol d = of_nat (dg_encap g) \<and> \<not> dg_is_dsr d \<and> dg_opts d = []"

lemma delivered_at_end:
  assumes node: "plain_node (srt_dst srt) a" and route: "plain_route srt"
    and g: "on_route srt (length (srt_addrs srt)) g" and load: "payload_bytes (dg_payload g) \<noteq> 0"
  shows "\<exists>b d. handle_datagram n g a = Some (Inr b) \<and> ag_outputs b = ag_outputs a @ [Delivered d] \<and> passed_up g d"
proof -
  let ?j = "length (srt_addrs srt)"
  have dist: "distinct (srt_nodes srt)" and ends: "srt_src srt \<noteq> 0" using route by (simp_all add: plain_route_def)
  have me: "myaddr a = srt_dst srt" "srt_nodes srt ! (?j + 1) = srt_dst srt" using node by (simp_all add: plain_node_def nodes_nth)
  have other: "srt_src srt \<noteq> srt_dst srt" using dist by (simp add: srt_nodes_def)
  obtain h so dp db where h: "dg_opts g = [h]" "oh_option h = [SrtOpt so]"
    and recv: "dsr_opt_recv n (dsr_pkt_alloc False g) a =
      bindO (Some (Inr (srt_forward (0, 0) so ?j dp
          ((neigh_tbl_add (srt_nodes srt ! ?j) (dg_h_source g) a)\<lparr>ag_db := db\<rparr>)))) (\<lambda>(act, dp', a').
        Some (Inr ((if srt_dst srt = myaddr a \<and> payload_bytes (dg_payload g) \<noteq> 0 then DSR_PKT_DELIVER else 0) OR act, dp', a')))"
    and dp: "dp = (dsr_pkt_alloc False g)\<lparr>dp_srt_opt := Some (0, 0), dp_srt := Some (received srt (so_length so)),
        dp_salvage := unat (so_salv so), dp_prv_hop := srt_nodes srt ! ?j, dp_nxt_hop := next_stop srt ?j\<rparr>"
    using opt_recv_on_route [OF _ dist g, of a n] node me(2) by auto
  have so: "so_sleft so = 0" using g h by (auto simp: on_route_def unat_eq_zero)
  define a1 where "a1 = (neigh_tbl_add (srt_nodes srt ! ?j) (dg_h_source g) a)\<lparr>ag_db := db\<rparr>"
  have pkt: "dsr_pkt_alloc False g = (pkt_of_header g)\<lparr>dp_payload := dg_payload g, dp_opth := [h], dp_ip_pkt := Some g,
      dp_encapsulate_protocol := (if dg_payload g = None then 0 else dg_encap g), dp_costVector := dg_cost g,
      dp_srt_opt := Some (0, 0), dp_payload_len := payload_bytes (dg_payload g)\<rparr>"
    using alloc_on_route h g by (simp add: on_route_def)
  have a1: "ag_outputs a1 = ag_outputs a" by (simp add: a1_def neigh_add_same)
  have flags: "dp_flags dp = 0" by (simp add: dp pkt pkt_of_header_def empty_pkt_def)
  have act: "dsr_opt_recv n (dsr_pkt_alloc False g) a = Some (Inr (DSR_PKT_DELIVER OR DSR_PKT_SRT_REMOVE, dp, a1))"
    using recv me(1) so load flags by (simp add: srt_forward_def has_flag_def a1_def)
  have some: "dg_payload g \<noteq> None" using load by (cases "dg_payload g") (auto simp: payload_bytes_def)
  have "\<exists>d. omnet_deliver dp a1 = Some (Inr (dsr_emit (Delivered d) a1)) \<and> passed_up g d"
    using g some by (auto simp: omnet_deliver_def Let_def dp pkt pkt_of_header_def dsr_build_ip_def passed_up_def on_route_def)
  then obtain d where d: "omnet_deliver dp a1 = Some (Inr (dsr_emit (Delivered d) a1))" "passed_up g d" by blast
  have "handle_datagram n g a = dsr_recv n (dsr_pkt_alloc False g) a"
    using node g ends other me(1) by (simp add: handle_datagram_def plain_node_def defaultProcess_def Let_def on_route_def pkt pkt_of_header_def)
  also have "\<dots> = omnet_deliver dp a1" using act flags by (simp add: dsr_recv_def has_flag_def) (simp add: dsr_actions)
  finally show ?thesis using d a1 by (auto simp: dsr_emit_def)
qed

subsection \<open>The whole way\<close>

text \<open>
  The datagrams on the way, one sent by each node that has been reached: what is sent to a node is what the
  node handles, and what it then sends is the next one.
\<close>

definition passed_along :: "nat \<Rightarrow> agent list \<Rightarrow> datagram list \<Rightarrow> bool" where
  "passed_along n as gs \<longleftrightarrow> length gs = Suc (length as)
    \<and> (\<forall>i<length as. dg_next (gs ! i) = myaddr (as ! i)
         \<and> (\<exists>b. handle_datagram n (gs ! i) (as ! i) = Some (Inr b)
              \<and> ag_outputs b = ag_outputs (as ! i) @ [Sent (gs ! Suc i) UnicastDelay]))"

lemma passed_along_Nil: "passed_along n [] [g]"
  by (simp add: passed_along_def)

lemma passed_along_Cons:
  assumes "passed_along n as gs" "dg_next g = myaddr a" "handle_datagram n g a = Some (Inr b)"
    "ag_outputs b = ag_outputs a @ [Sent (hd gs) UnicastDelay]"
  shows "passed_along n (a # as) (g # gs)"
  using assms by (cases gs) (auto simp: passed_along_def less_Suc_eq_0_disj)

lemma along_route:
  assumes route: "plain_route srt" and g: "on_route srt j g" "dg_next g = srt_nodes srt ! (j + 1)"
    and nodes: "list_all2 plain_node (drop j (srt_addrs srt)) as"
  shows "\<exists>gs. gs \<noteq> [] \<and> hd gs = g \<and> passed_along (Suc n) as gs \<and> map dg_next gs = drop j (srt_addrs srt @ [srt_dst srt])
    \<and> on_route srt (length (srt_addrs srt)) (last gs)
    \<and> dg_payload (last gs) = dg_payload g \<and> (dg_payload g \<noteq> None \<longrightarrow> dg_encap (last gs) = dg_encap g)"
  using g nodes
proof (induction as arbitrary: j g)
  case Nil
  then have "j = length (srt_addrs srt)" by (simp add: on_route_def)
  then show ?case using Nil passed_along_Nil by (intro exI [of _ "[g]"]) (simp add: nodes_nth)
next
  case (Cons a as)
  then have j: "j < length (srt_addrs srt)" by (auto dest: list_all2_lengthD)
  then have d: "drop j (srt_addrs srt) = srt_nodes srt ! (j + 1) # drop (j + 1) (srt_addrs srt)"
    by (simp add: Cons_nth_drop_Suc nodes_nth)
  then have node: "plain_node (srt_nodes srt ! (j + 1)) a" and rest: "list_all2 plain_node (drop (j + 1) (srt_addrs srt)) as"
    using Cons.prems(3) by simp_all
  obtain b g' where b: "handle_datagram (Suc n) g a = Some (Inr b)" "ag_outputs b = ag_outputs a @ [Sent g' UnicastDelay]"
    "on_route srt (j + 1) g'" "dg_next g' = srt_nodes srt ! (j + 2)" "dg_payload g' = dg_payload g"
    "dg_payload g \<noteq> None \<longrightarrow> dg_encap g' = dg_encap g"
    using forwarded_hop [OF node route Cons.prems(1) j, of n] by auto
  obtain gs where gs: "gs \<noteq> []" "hd gs = g'" "passed_along (Suc n) as gs"
    "map dg_next gs = drop (j + 1) (srt_addrs srt @ [srt_dst srt])" "on_route srt (length (srt_addrs srt)) (last gs)"
    "dg_payload (last gs) = dg_payload g'" "dg_payload g' \<noteq> None \<longrightarrow> dg_encap (last gs) = dg_encap g'"
    using Cons.IH [OF b(3) _ rest] b(4) by auto
  have "passed_along (Suc n) (a # as) (g # gs)"
    using passed_along_Cons [OF gs(3) _ b(1)] b(2) gs(2) Cons.prems(2) node by (simp add: plain_node_def)
  moreover have "map dg_next (g # gs) = drop j (srt_addrs srt @ [srt_dst srt])" using Cons.prems(2) gs(4) j d by simp
  ultimately show ?case using gs b(5,6) by (intro exI [of _ "g # gs"]) simp
qed

subsection \<open>The source\<close>

lemma foldE_toIPv4: "foldE (\<lambda>as x. bindE (toIPv4 x) (\<lambda>a. Inr (as @ [a]))) route as = Inr bs \<Longrightarrow> length bs = length as + length route"
  by (induction route arbitrary: as) (fastforce elim!: bindE_InrE)+

lemma found_route:
  assumes "dsr_rtc_find src dst a = Some (Inr (Some srt, a1))" and "pathCacheConf (ag_db a)"
  shows "srt_src srt = src \<and> srt_dst srt = dst \<and> srt_laddrs srt = of_nat (4 * length (srt_addrs srt))
    \<and> srt_cost srt = [] \<and> (\<exists>d. a1 = a\<lparr>ag_db := d\<rparr> \<and> db_conf d = db_conf (ag_db a))"
proof -
  obtain d where d: "ph_srt_find_map (ag_time a) src dst (ucast (cache_usecs a)) (ag_db a) = Inr (Some srt, d)" "a1 = a\<lparr>ag_db := d\<rparr>"
    using assms by (auto simp: dsr_rtc_find_def RouteFind_def elim!: bindO_InrE)
  then obtain route where "srt_of_route src dst route = Inr srt"
    by (auto simp: ph_srt_find_map_def Let_def split: option.splits if_splits elim!: bindE_InrE)
  then show ?thesis using d ph_srt_find_map_conf [OF d(1)] foldE_toIPv4
    by (fastforce simp: srt_of_route_def DSR_ADDRESS_SIZE_def mult.commute elim!: bindE_InrE)
qed

lemma option_bytes:
  assumes "srt_laddrs srt = of_nat (4 * length (srt_addrs srt))" and "srt_short srt"
  shows "unat (so_length (srt_option s srt)) = 4 * length (srt_addrs srt) + 2"
    "unat (so_sleft (srt_option s srt)) = length (srt_addrs srt)"
proof -
  have n: "length (srt_addrs srt) \<le> 63" using assms(2) by (simp add: srt_short_def)
  have "srt_n srt = length (srt_addrs srt)" using n by (intro srt_n_bytes [OF assms(1)]) simp
  then show "unat (so_sleft (srt_option s srt)) = length (srt_addrs srt)"
    using n by (simp add: srt_option_def unsigned_of_nat take_bit_nat_eq_self)
  have "srt_laddrs srt + 2 = of_nat (4 * length (srt_addrs srt) + 2)" by (simp add: assms(1))
  then have "so_length (srt_option s srt) = of_nat (4 * length (srt_addrs srt) + 2)"
    by (simp only: srt_option_def srt_opt.simps ucast_of_nat_byte)
  moreover have "4 * length (srt_addrs srt) + 2 < 2 ^ 8" using n by simp
  ultimately show "unat (so_length (srt_option s srt)) = 4 * length (srt_addrs srt) + 2"
    by (simp only: unsigned_of_nat) (simp add: take_bit_nat_eq_self)
qed

lemma sent_by_source:
  assumes node: "plain_node (dg_src g) a" and g: "dg_protocol g \<noteq> IPPROTO_DSR" "dg_payload g \<noteq> None"
    and found: "dsr_rtc_find (dg_src g) (dg_dst g) a = Some (Inr (Some srt, a1))" and route: "plain_route srt"
  shows "\<exists>b g'. handle_datagram (Suc n) g a = Some (Inr b) \<and> ag_outputs b = ag_outputs a @ [Sent g' UnicastDelay]
    \<and> on_route srt 0 g' \<and> dg_next g' = srt_nodes srt ! 1 \<and> dg_payload g' = dg_payload g
    \<and> dg_encap g' = unat (dg_protocol g)"
proof -
  have me: "myaddr a = dg_src g" using node by (simp add: plain_node_def)
  obtain d where srt: "srt_src srt = dg_src g" "srt_dst srt = dg_dst g" "srt_laddrs srt = of_nat (4 * length (srt_addrs srt))"
    "srt_cost srt = []" "a1 = a\<lparr>ag_db := d\<rparr>" "db_conf d = db_conf (ag_db a)"
    using found_route [OF found] node by (auto simp: plain_node_def)
  have n: "srt_n srt = length (srt_addrs srt)"
    using route by (intro srt_n_bytes [OF srt(3)]) (simp add: plain_route_def srt_short_def)
  then have sized: "srt_sized srt" by (simp add: srt_sized_def)
  let ?dp = "(dsr_pkt_alloc False g)\<lparr>dp_payload_len := dp_payload_len (dsr_pkt_alloc False g) + IP_HDR_LEN, dp_srt := Some srt\<rparr>"
  have pkt: "dsr_pkt_alloc False g = (pkt_of_header g)\<lparr>dp_payload := dg_payload g,
      dp_encapsulate_protocol := unat (dg_protocol g), dp_payload_len := payload_bytes (dg_payload g)\<rparr>"
    using g by (auto simp: dsr_pkt_alloc_def Let_def)
  have nxt: "dsr_srt_next_hop srt (int (srt_n srt)) = Inr (srt_nodes srt ! 1)"
    using next_hop_walk [OF sized, of 0] n by simp
  obtain dp where dp: "dsr_srt_add srt ?dp = Inr dp" "dp_src dp = dg_src g" "dp_dst dp = dg_dst g"
    "dp_nxt_hop dp = srt_nodes srt ! 1" "dp_payload dp = dg_payload g" "dp_flags dp = 0"
    "dp_encapsulate_protocol dp = unat (dg_protocol g)" "dp_ip_pkt dp = None"
    "\<exists>h. dp_opth dp = [h] \<and> oh_option h = [SrtOpt (srt_option 0 srt)]"
    "\<exists>h. dp_iph dp = Some h \<and> ip_ttl h \<noteq> 0"
    using nxt by (simp add: dsr_srt_add_def pkt pkt_of_header_def empty_pkt_def dsr_build_ip_def dsr_pkt_alloc_opts_def push_opt_def
        with_opt_hdr_def last_hdr_def first_p_len_def new_opt_hdr_def Let_def IPDEFTTL_def dsr_opt_hdr_add_def)
  define dp' where "dp' = dp\<lparr>dp_costVector := []\<rparr>"
  have cost: "AddCost a1 srt dp = Inr dp'" by (simp add: AddCost_def srt(4) dp'_def)
  obtain g' where g': "dsr_datagram (myaddr a1) dp' = Inr g'" "dg_ttl g' \<noteq> 0"
    "dg_protocol g' = IPPROTO_DSR" "dg_is_dsr g'" "dg_src g' = dg_src g" "dg_dst g' = dg_dst g" "dg_cost g' = []"
    "\<exists>h. dg_opts g' = [h] \<and> oh_option h = [SrtOpt (srt_option 0 srt)]"
    "dg_next g' = srt_nodes srt ! 1" "dg_payload g' = dg_payload g" "dg_encap g' = unat (dg_protocol g)"
    using dp route g(2) srt(2) by (auto simp: dsr_datagram_def dp'_def plain_route_def)
  have "omnet_xmit (Suc n) dp' a1 = Some (Inr (dsr_emit (Sent g' UnicastDelay) a1))"
    using g'(1,2) dp(3,6) route srt(2) by (simp add: xmit_now_def has_flag_def dp'_def plain_route_def)
  moreover have "handle_datagram (Suc n) g a = omnet_xmit (Suc n) dp' a1"
  proof -
    have "dg_src g \<noteq> 0" using route srt(1) by (simp add: plain_route_def)
    moreover have "dp_src (dsr_pkt_alloc False g) = dg_src g" "dp_dst (dsr_pkt_alloc False g) = dg_dst g"
      by (simp_all add: pkt pkt_of_header_def)
    ultimately show ?thesis
      using node g(1) me found dp(1) cost
      by (simp add: handle_datagram_def plain_node_def defaultProcess_def Let_def dsr_start_xmit_def del: omnet_xmit.simps)
  qed
  moreover have "on_route srt 0 g'"
    using g' option_bytes [OF srt(3), of 0] route srt(1,2)
    by (auto simp: on_route_def plain_route_def srt_option_def)
  ultimately show ?thesis using g' srt(5) by (auto simp: dsr_emit_def)
qed

text \<open>C4: A packet of the upper layer for which the path cache has a route is sent to the first node of the route,
  every node of the route gets it in turn and sends it to the one behind it, in the order of the route, and
  the destination passes the payload up as it was, with its protocol and its addresses.  The nodes are
  active, use the path cache without transmission counts, and leave acknowledgments to the link layer
  (\<open>UseNetworkLayerAck\<close> off, which is not the default); the route has at most 63 intermediate nodes,
  visits no node twice, does not start at the unspecified address and does not end at the broadcast address.\<close>

theorem packet_travels_route:
  assumes "plain_node (dg_src g) a0" and "dg_protocol g \<noteq> IPPROTO_DSR" and "payload_bytes (dg_payload g) \<noteq> 0"
    and "dsr_rtc_find (dg_src g) (dg_dst g) a0 = Some (Inr (Some srt, a1))" and "plain_route srt"
    and "list_all2 plain_node (srt_addrs srt) as" and "plain_node (dg_dst g) z"
  shows "\<exists>b0 gs b d. handle_datagram (Suc n) g a0 = Some (Inr b0) \<and> ag_outputs b0 = ag_outputs a0 @ [Sent (hd gs) UnicastDelay]
    \<and> map dg_next gs = srt_addrs srt @ [dg_dst g] \<and> passed_along (Suc n) as gs
    \<and> handle_datagram n (last gs) z = Some (Inr b) \<and> ag_outputs b = ag_outputs z @ [Delivered d]
    \<and> dg_src d = dg_src g \<and> dg_dst d = dg_dst g \<and> dg_payload d = dg_payload g \<and> dg_protocol d = dg_protocol g"
proof -
  have some: "dg_payload g \<noteq> None" using assms(3) by (cases "dg_payload g") (auto simp: payload_bytes_def)
  have srt: "srt_src srt = dg_src g" "srt_dst srt = dg_dst g"
    using found_route [OF assms(4)] assms(1) by (auto simp: plain_node_def)
  obtain b0 g1 where g1: "handle_datagram (Suc n) g a0 = Some (Inr b0)" "ag_outputs b0 = ag_outputs a0 @ [Sent g1 UnicastDelay]"
    "on_route srt 0 g1" "dg_next g1 = srt_nodes srt ! 1" "dg_payload g1 = dg_payload g" "dg_encap g1 = unat (dg_protocol g)"
    using sent_by_source [OF assms(1,2) some assms(4,5)] by blast
  obtain gs where gs: "hd gs = g1" "passed_along (Suc n) as gs" "map dg_next gs = srt_addrs srt @ [dg_dst g]"
    "on_route srt (length (srt_addrs srt)) (last gs)" "dg_payload (last gs) = dg_payload g"
    "dg_encap (last gs) = unat (dg_protocol g)"
    using along_route [OF assms(5) g1(3), of as n] assms(6) g1(4-6) some srt(2) by auto
  obtain b d where "handle_datagram n (last gs) z = Some (Inr b)" "ag_outputs b = ag_outputs z @ [Delivered d]" "passed_up (last gs) d"
    using delivered_at_end [OF _ assms(5) gs(4), of z n] assms(3,7) gs(5) srt(2) by auto
  then show ?thesis using g1(1,2) gs srt
    by (intro exI [of _ b0] exI [of _ gs] exI [of _ b] exI [of _ d]) (simp add: passed_up_def on_route_def)
qed

end
