(* ===== verification/Dsr_Fuel.thy ===== *)
theory Dsr_Fuel
  imports Dsr_Agent_Frame Dsr_Srt_Spec
begin

text \<open>
  The functions of the maintenance buffer, which call each other through \<open>omnet_xmit\<close>, end: more fuel
  never changes a result, and over a path cache there is always enough.  Each turn of the timer takes
  an entry that is due out of the buffer; an entry that is put back, or a packet that is salvaged, is
  not due again at once; and after a neighbour is lost no route of the cache begins with it, so the
  packets salvaged are not for it.
\<close>

subsection \<open>More fuel\<close>

definition ext :: "'a option \<Rightarrow> 'a option \<Rightarrow> bool" where
  "ext m m' \<longleftrightarrow> (\<forall>x. m = Some x \<longrightarrow> m' = Some x)"

lemma ext_refl [intro]: "ext m m"
  by (simp add: ext_def)

lemma ext_None [simp]: "ext None m"
  by (simp add: ext_def)

lemma ext_bindO [intro]:
  assumes "ext m m'" and "\<And>a. ext (f a) (f' a)" shows "ext (bindO m f) (bindO m' f')"
  using assms by (cases m) (auto simp: ext_def bindO_def split: sum.splits option.splits)

lemma ext_if [intro]: "(P \<Longrightarrow> ext a a') \<Longrightarrow> (\<not> P \<Longrightarrow> ext b b') \<Longrightarrow> ext (if P then a else b) (if P then a' else b')"
  by simp

lemmas calls_Suc = omnet_xmit.simps(2) maint_buf_add.simps(2) maint_buf_set_timeout.simps(2)
  maint_buf_salvage.simps(2) salvage_others.simps(2)

declare calls_Suc [simp del] maint_buf_timeout.simps(2) [simp del]

definition calls_le :: "nat \<Rightarrow> nat \<Rightarrow> bool" where
  "calls_le n k \<longleftrightarrow>
     (\<forall>dp a. ext (omnet_xmit n dp a) (omnet_xmit k dp a))
   \<and> (\<forall>dp a. ext (maint_buf_add n dp a) (maint_buf_add k dp a))
   \<and> (\<forall>a. ext (maint_buf_set_timeout n a) (maint_buf_set_timeout k a))
   \<and> (\<forall>a. ext (maint_buf_timeout n a) (maint_buf_timeout k a))
   \<and> (\<forall>dp a. ext (maint_buf_salvage n dp a) (maint_buf_salvage k dp a))
   \<and> (\<forall>x i a. ext (salvage_others n x i a) (salvage_others k x i a))"

lemma calls_leD:
  assumes "calls_le n k"
  shows "ext (omnet_xmit n dp a) (omnet_xmit k dp a)"
    "ext (maint_buf_add n dp a) (maint_buf_add k dp a)"
    "ext (maint_buf_set_timeout n a) (maint_buf_set_timeout k a)"
    "ext (maint_buf_timeout n a) (maint_buf_timeout k a)"
    "ext (maint_buf_salvage n dp a) (maint_buf_salvage k dp a)"
    "ext (salvage_others n x i a) (salvage_others k x i a)"
  using assms unfolding calls_le_def by blast+

lemma calls_le_Suc:
  assumes n: "calls_le n k" shows "calls_le (Suc n) (Suc k)"
proof -
  note D = calls_leD [OF n]
  have "ext (omnet_xmit (Suc n) dp a) (omnet_xmit (Suc k) dp a)" for dp a
    unfolding omnet_xmit.simps(2) by (intro ext_if ext_bindO D) (auto split: prod.split)
  moreover have "ext (maint_buf_add (Suc n) dp a) (maint_buf_add (Suc k) dp a)" for dp a
    unfolding maint_buf_add.simps(2) Let_def by (auto split: option.split prod.split intro!: ext_bindO D)
  moreover have "ext (maint_buf_set_timeout (Suc n) a) (maint_buf_set_timeout (Suc k) a)" for a
    unfolding maint_buf_set_timeout.simps(2) by (auto split: list.split intro!: D)
  moreover have "ext (maint_buf_timeout (Suc n) a) (maint_buf_timeout (Suc k) a)" for a
    unfolding maint_buf_timeout_Suc neighbour_lost_def by (auto split: list.split intro!: ext_bindO D)
  moreover have "ext (maint_buf_salvage (Suc n) dp a) (maint_buf_salvage (Suc k) dp a)" for dp a
    unfolding maint_buf_salvage.simps(2) by (auto split: option.split intro!: ext_bindO D)
  moreover have "ext (salvage_others (Suc n) x i a) (salvage_others (Suc k) x i a)" for x i a
    unfolding salvage_others.simps(2) Let_def by (auto split: option.split intro!: ext_bindO D)
  ultimately show ?thesis unfolding calls_le_def [of "Suc n"] by blast
qed

lemma calls_le: "n \<le> k \<Longrightarrow> calls_le n k"
proof (induction n arbitrary: k)
  case (Suc n)
  then obtain j where "k = Suc j" "n \<le> j" by (cases k) auto
  then show ?case using Suc.IH calls_le_Suc by blast
qed (simp add: calls_le_def)

text \<open>A function of the fuel that only ever gains results, and one that ends.\<close>

definition gains :: "(nat \<Rightarrow> 'a option) \<Rightarrow> bool" where
  "gains F \<longleftrightarrow> (\<forall>n k. n \<le> k \<longrightarrow> ext (F n) (F k))"

definition ends :: "(nat \<Rightarrow> 'a option) \<Rightarrow> bool" where
  "ends F \<longleftrightarrow> (\<exists>N. \<forall>n\<ge>N. F n \<noteq> None)"

lemma gains_le: "gains F \<Longrightarrow> F n = Some r \<Longrightarrow> n \<le> k \<Longrightarrow> F k = Some r"
  by (auto simp: gains_def ext_def)

lemma endsI: "gains F \<Longrightarrow> F n = Some r \<Longrightarrow> ends F"
  unfolding ends_def by (metis gains_le option.distinct(1))

lemma gains_calls [simp]:
  "gains (\<lambda>n. omnet_xmit n dp a)" "gains (\<lambda>n. maint_buf_add n dp a)" "gains (\<lambda>n. maint_buf_set_timeout n a)"
  "gains (\<lambda>n. maint_buf_timeout n a)" "gains (\<lambda>n. maint_buf_salvage n dp a)" "gains (\<lambda>n. salvage_others n x i a)"
  by (simp_all add: gains_def calls_leD [OF calls_le])

lemma ends_const [simp]: "ends (\<lambda>_. m) \<longleftrightarrow> m \<noteq> None"
  by (auto simp: ends_def)

lemma ends_bindO:
  assumes F: "gains F" "ends F" and G: "\<And>n a. F n = Some (Inr a) \<Longrightarrow> ends (\<lambda>n. G n a)"
  shows "ends (\<lambda>n. bindO (F n) (G n))"
proof -
  obtain N r where N: "F N = Some r" using F(2) by (auto simp: ends_def)
  have same: "F n = Some r" if "N \<le> n" for n using gains_le [OF F(1) N that] .
  show ?thesis
  proof (cases r)
    case (Inl e)
    then show ?thesis using same unfolding ends_def by (intro exI [of _ N]) simp
  next
    case (Inr a)
    then have "ends (\<lambda>n. G n a)" using G N by blast
    then obtain M where "\<forall>n\<ge>M. G n a \<noteq> None" unfolding ends_def by blast
    then show ?thesis using same Inr unfolding ends_def by (intro exI [of _ "max N M"]) simp
  qed
qed

text \<open>One call spends one unit.\<close>

lemma ends_Suc: "ends (\<lambda>n. F (Suc n)) \<longleftrightarrow> ends F"
  unfolding ends_def by (metis Suc_le_D Suc_le_mono le_SucI)

subsection \<open>The routes of a path cache\<close>

definition stored :: "paths_cache \<Rightarrow> (addr \<times> path_route) set" where
  "stored c = {(t, r). \<exists>ps. (t, ps) \<in> set c \<and> r \<in> p_route ` set ps}"

text \<open>A cache with less than 64 nodes in each route and with IPv4 addresses only.\<close>

definition plain_cache :: "dsruu \<Rightarrow> bool" where
  "plain_cache d \<longleftrightarrow> pathCacheConf d \<and> \<not> etxActive d \<and> smap_ok (paths d)
    \<and> (\<forall>(t, r)\<in>stored (paths d). length r < 64 \<and> set r \<subseteq> range IPv4)"

text \<open>No route begins with the node.\<close>

definition blocked :: "in_addr \<Rightarrow> dsruu \<Rightarrow> bool" where
  "blocked x d \<longleftrightarrow> (\<forall>(t, r)\<in>stored (paths d). hd (r @ [t]) \<noteq> IPv4 x)"

definition shrinks :: "paths_cache \<Rightarrow> paths_cache \<Rightarrow> bool" where
  "shrinks c c' \<longleftrightarrow> (smap_ok c \<longrightarrow> smap_ok c') \<and> stored c' \<subseteq> stored c"

lemma shrinks_refl [simp]: "shrinks c c"
  by (simp add: shrinks_def)

lemma shrinks_trans: "shrinks a b \<Longrightarrow> shrinks b c \<Longrightarrow> shrinks a c"
  by (auto simp: shrinks_def)

lemma set_smap_put: "set (smap_put k v c) \<subseteq> insert (k, v) (set c)"
  by (induction k v c rule: smap_put.induct) auto

lemma shrinks_put:
  assumes "(t, ps) \<in> set c" and "p_route ` set qs \<subseteq> p_route ` set ps" shows "shrinks c (smap_put t qs c)"
proof -
  have "stored (smap_put t qs c) \<subseteq> stored c"
  proof clarify
    fix u r assume "(u, r) \<in> stored (smap_put t qs c)"
    then obtain rs where rs: "(u, rs) \<in> set (smap_put t qs c)" "r \<in> p_route ` set rs" unfolding stored_def by blast
    then have "(u, rs) = (t, qs) \<or> (u, rs) \<in> set c" using set_smap_put [of t qs c] by blast
    then show "(u, r) \<in> stored c" using rs(2) assms unfolding stored_def by blast
  qed
  then show ?thesis by (simp add: shrinks_def)
qed

lemma shrinks_erase: "shrinks c (smap_erase t c)"
  using smap_ok_erase [of c t] by (auto simp: shrinks_def stored_def smap_erase_def)

lemma set_smap_prune: "(t, qs) \<in> set (smap_prune f c) \<Longrightarrow> \<exists>ps. (t, ps) \<in> set c \<and> qs = f t ps"
  by (auto simp: smap_prune_def Let_def smap_erase_all)

lemma shrinks_prune:
  assumes f: "\<And>t ps. p_route ` set (f t ps) \<subseteq> p_route ` set ps" shows "shrinks c (smap_prune f c)"
proof -
  have "stored (smap_prune f c) \<subseteq> stored c"
  proof clarify
    fix t r assume "(t, r) \<in> stored (smap_prune f c)"
    then obtain ps where "(t, ps) \<in> set c" "r \<in> p_route ` set (f t ps)"
      unfolding stored_def by (blast dest: set_smap_prune)
    then show "(t, r) \<in> stored c" using f [of t ps] unfolding stored_def by blast
  qed
  then show ?thesis by (simp add: shrinks_def)
qed

lemma set_loop_kept:
  assumes "\<And>p. p_route (upd p) = p_route p"
  shows "p_route ` set (fst (set_loop now r upd ps)) \<subseteq> p_route ` set ps"
proof (induction ps)
  case (Cons p ps)
  then show ?case using assms by (auto simp: case_prod_beta)
qed simp

lemma getPath_loop_kept:
  assumes "s_found s \<Longrightarrow> s_route s \<in> R" and "p_route ` set ps \<subseteq> R"
  shows "p_route ` set (fst (getPath_loop now ps s)) \<subseteq> p_route ` set ps
    \<and> (s_found (snd (getPath_loop now ps s)) \<longrightarrow> s_route (snd (getPath_loop now ps s)) \<in> R)"
  using assms
proof (induction ps arbitrary: s)
  case (Cons p ps)
  let ?s1 = "s\<lparr>s_cont := s_cont s + 1\<rparr>"
  let ?p1 = "if p_vector_cost p \<noteq> [] then p\<lparr>p_vector_cost := (p_vector_cost p)[0 := s_cost ?s1]\<rparr> else p"
  let ?s2 = "(if better ?s1 ?p1 then take_path ?s1 ?p1 else ?s1)\<lparr>s_found := True\<rparr>"
  have p: "p_route ?p1 = p_route p" by simp
  have R: "p_route p \<in> R" "p_route ` set ps \<subseteq> R" using Cons.prems(2) by auto
  have s2: "s_route ?s2 \<in> R" using Cons.prems(1) R(1) by (auto simp: better_def take_path_def)
  have IH: "p_route ` set (fst (getPath_loop now ps s')) \<subseteq> p_route ` set ps
    \<and> (s_found (snd (getPath_loop now ps s')) \<longrightarrow> s_route (snd (getPath_loop now ps s')) \<in> R)"
    if "s_found s' \<Longrightarrow> s_route s' \<in> R" for s' using Cons.IH [OF that R(2)] .
  show ?case
  proof (cases "expired now p")
    case True
    then show ?thesis using IH [of s] Cons.prems(1) by auto
  next
    case fresh: False
    show ?thesis
    proof (cases "p_status p = VALID")
      case True
      have e: "getPath_loop now (p # ps) s = (?p1 # fst (getPath_loop now ps ?s2), snd (getPath_loop now ps ?s2))"
        using fresh True by (simp only: getPath_loop.simps Let_def case_prod_beta simp_thms if_True if_False)
      have i: "p_route ` set (fst (getPath_loop now ps ?s2)) \<subseteq> p_route ` set ps"
        "s_found (snd (getPath_loop now ps ?s2)) \<longrightarrow> s_route (snd (getPath_loop now ps ?s2)) \<in> R"
        using IH [OF s2] by blast+
      have "p_route ` set (?p1 # fst (getPath_loop now ps ?s2)) \<subseteq> p_route ` set (p # ps)"
        using i(1) unfolding list.set image_insert p by blast
      then show ?thesis using i(2) unfolding e fst_conv snd_conv by blast
    next
      case False
      have e: "getPath_loop now (p # ps) s = (p # fst (getPath_loop now ps ?s1), snd (getPath_loop now ps ?s1))"
        using fresh False by (simp only: getPath_loop.simps Let_def case_prod_beta if_False)
      have "s_found ?s1 \<Longrightarrow> s_route ?s1 \<in> R" using Cons.prems(1) by simp
      from IH [OF this] show ?thesis unfolding e fst_conv snd_conv list.set image_insert by blast
    qed
  qed
qed simp

lemma shrinks_set_existing:
  assumes "\<And>p. p_route (upd p) = p_route p" shows "shrinks c (set_existing now t r upd c)"
proof (cases "smap_find c t")
  case (Some ps)
  have "(t, ps) \<in> set c" using Some by (rule map_of_SomeD)
  then have "shrinks c (smap_put t (fst (set_loop now r upd ps)) c)" by (rule shrinks_put [OF _ set_loop_kept [OF assms]])
  then show ?thesis using Some shrinks_erase by (simp add: set_existing_def case_prod_beta)
qed (simp add: set_existing_def)

lemma shrinks_timer: "shrinks c (setPathsTimer now t r tmo c)"
  by (simp add: setPathsTimer_def shrinks_set_existing)

lemma shrinks_refresh: "shrinks c (refresh_intermediate now route tmo c)"
proof -
  have "shrinks c (foldl (\<lambda>c i. setPathsTimer now (route ! i) r tmo c) c is)" for r "is"
    by (induction "is" arbitrary: c) (auto intro: shrinks_trans [OF shrinks_timer])
  then show ?thesis by (simp add: refresh_intermediate_def)
qed

lemma shrinks_purge: "shrinks c (purgePathCache now c)"
  unfolding purgePathCache_def by (rule shrinks_prune) auto

lemma getPath_shrinks:
  assumes "getPath now t tmo c = ((found, r, k), c')"
  shows "shrinks c c' \<and> (found \<longrightarrow> (t, r) \<in> stored c)"
proof (cases "smap_find c t")
  case (Some ps)
  let ?L = "getPath_loop now ps search_start"
  have in_c: "(t, ps) \<in> set c" using Some by (rule map_of_SomeD)
  have L: "p_route ` set (fst ?L) \<subseteq> p_route ` set ps" "s_found (snd ?L) \<Longrightarrow> s_route (snd ?L) \<in> p_route ` set ps"
    using getPath_loop_kept [of search_start "p_route ` set ps" ps now] by (auto simp: search_start_def)
  have upd: "p_route ` set (xs[i := (xs ! i)\<lparr>p_expires := e\<rparr>]) \<subseteq> p_route ` set xs" for xs :: "path list" and i e
  proof (cases "i < length xs")
    case True
    then have "p_route (xs ! i) \<in> p_route ` set xs" by simp
    then show ?thesis using set_update_subset_insert [of xs i "(xs ! i)\<lparr>p_expires := e\<rparr>"] by (auto simp: image_iff) force
  qed (simp add: list_update_beyond)
  have "shrinks c (search_end now t tmo ?L c)"
    using shrinks_erase shrinks_put [OF in_c L(1)] shrinks_put [OF in_c order.trans [OF upd L(1)]]
    by (simp add: search_end_def case_prod_beta Let_def)
  then show ?thesis using assms Some L(2) in_c shrinks_erase
    by (auto simp: getPath_def Let_def stored_def split: if_splits)
qed (use assms in \<open>auto simp: getPath_def search_start_def\<close>)

lemma erase_shrinks: "shrinks c (erasePathWithLink now n0 x y ef b c)"
proof -
  have "shrinks c (eraseRootLink now y c)"
  proof -
    let ?kept = "filter (\<lambda>p. \<not> expired now p \<and> p_route p \<noteq> [])"
    have "shrinks c (case smap_find c y of None \<Rightarrow> c
        | Some ps \<Rightarrow> if ?kept ps = [] then smap_erase y c else smap_put y (?kept ps) c)"
      using shrinks_erase by (auto split: option.split intro!: shrinks_put [OF map_of_SomeD])
    then show ?thesis unfolding eraseRootLink_def Let_def by (rule shrinks_trans) (rule shrinks_prune, auto)
  qed
  moreover have "shrinks c (smap_prune (\<lambda>t. filter (\<lambda>p. \<not> erased_with_link now x y ef b t p)) c)"
    by (rule shrinks_prune) auto
  ultimately show ?thesis by (simp add: erasePathWithLink_def)
qed

text \<open>After the link to a neighbour is erased no route begins with it.\<close>

lemma erase_blocks:
  assumes ok: "smap_ok c" and r: "(t, r) \<in> stored (erasePathWithLink now n0 x y True b c)"
  shows "hd (r @ [t]) \<noteq> y"
proof (cases "c = [] \<or> n0 \<noteq> x")
  case True
  then show ?thesis using r
    by (auto simp: erasePathWithLink_def stored_def erased_with_link_def Let_def dest!: set_smap_prune split: if_splits)
next
  case False
  let ?kept = "filter (\<lambda>p. \<not> expired now p \<and> p_route p \<noteq> [])"
  let ?c1 = "case smap_find c y of None \<Rightarrow> c
    | Some ps \<Rightarrow> if ?kept ps = [] then smap_erase y c else smap_put y (?kept ps) c"
  have r2: "(t, r) \<in> stored (smap_prune (\<lambda>_. filter (\<lambda>p. \<not> expired now p \<and> \<not> (p_route p \<noteq> [] \<and> hd (p_route p) = y))) ?c1)"
    using r False by (simp add: erasePathWithLink_def eraseRootLink_def Let_def cong: option.case_cong)
  then obtain ps where ps: "(t, ps) \<in> set ?c1" "r \<in> p_route ` set ps" "r \<noteq> [] \<longrightarrow> hd r \<noteq> y"
  proof -
    obtain qs where qs: "(t, qs) \<in> set (smap_prune (\<lambda>_. filter (\<lambda>p. \<not> expired now p \<and> \<not> (p_route p \<noteq> [] \<and> hd (p_route p) = y))) ?c1)"
      "r \<in> p_route ` set qs" using r2 unfolding stored_def by blast
    obtain ps where "(t, ps) \<in> set ?c1" "qs = filter (\<lambda>p. \<not> expired now p \<and> \<not> (p_route p \<noteq> [] \<and> hd (p_route p) = y)) ps"
      using set_smap_prune [OF qs(1)] by blast
    then show ?thesis using that [of ps] qs(2) by auto
  qed
  have "smap_find ?c1 t = Some ps"
  proof -
    have "smap_ok ?c1" using ok by (auto split: option.split)
    from smap_find_in [OF this] show ?thesis using ps(1) by (rule iffD2)
  qed
  then have find: "smap_find ?c1 t = Some ps" .
  have "r \<noteq> []" if t: "t = y"
  proof (cases "smap_find c y")
    case (Some ps0)
    have "ps = ?kept ps0" using find Some ok by (simp add: t split: if_splits)
    then show ?thesis using ps(2) by auto
  qed (use find in \<open>simp add: t\<close>)
  then show ?thesis using ps(3) by (cases r) auto
qed

subsection \<open>Calls to the cache\<close>

text \<open>What a call leaves of the data base, and the route it finds.\<close>

definition db_less :: "dsruu \<Rightarrow> dsruu \<Rightarrow> bool" where
  "db_less d d' \<longleftrightarrow> db_conf d' = db_conf d \<and> shrinks (paths d) (paths d')"

lemma db_less_refl [simp]: "db_less d d"
  by (simp add: db_less_def)

lemma db_less_trans: "db_less a b \<Longrightarrow> db_less b c \<Longrightarrow> db_less a c"
  unfolding db_less_def using shrinks_trans by metis

lemma db_less_plain: "db_less d d' \<Longrightarrow> plain_cache d \<Longrightarrow> plain_cache d'"
  unfolding db_less_def plain_cache_def shrinks_def db_conf_def by blast

lemma db_less_blocked: "db_less d d' \<Longrightarrow> blocked x d \<Longrightarrow> blocked x d'"
  unfolding db_less_def blocked_def shrinks_def by blast

lemma foldE_IPv4:
  assumes "foldE (\<lambda>as x. bindE (toIPv4 x) (\<lambda>a. Inr (as @ [a]))) route acc = Inr bs" and "set route \<subseteq> range IPv4"
  shows "map IPv4 bs = map IPv4 acc @ route"
  using assms by (induction route arbitrary: acc) (auto elim!: bindE_InrE)

lemma plain_find:
  assumes plain: "plain_cache d" and f: "ph_srt_find_map now src dst tmo d = Inr (res, d')"
  shows "db_less d d' \<and> (\<forall>srt. res = Some srt \<longrightarrow> srt_dst srt = dst \<and> length (srt_addrs srt) < 64
    \<and> srt_laddrs srt = of_nat (4 * length (srt_addrs srt)) \<and> (IPv4 dst, map IPv4 (srt_addrs srt)) \<in> stored (paths d))"
proof -
  obtain found route k c where g: "getPath now (IPv4 dst) tmo (paths d) = ((found, route, k), c)"
    by (metis prod.exhaust)
  have c: "shrinks (paths d) c" "found \<longrightarrow> (IPv4 dst, route) \<in> stored (paths d)" using getPath_shrinks [OF g] by auto
  have etx: "\<not> etxActive d" using plain by (simp add: plain_cache_def)
  show ?thesis
  proof (cases found)
    case False
    then show ?thesis using f g etx c(1) by (auto simp: ph_srt_find_map_def db_less_def db_conf_def)
  next
    case True
    have route: "length route < 64" "set route \<subseteq> range IPv4" using plain c(2) True by (auto simp: plain_cache_def)
    define c2 where "c2 = (if refreshIntermediate d then refresh_intermediate now route tmo c else c)"
    have c2: "shrinks (paths d) c2" using c(1) shrinks_refresh shrinks_trans by (auto simp: c2_def)
    obtain srt where srt: "srt_of_route src dst route = Inr srt" "res = Some srt"
      "d' = (if \<not> isPathCacheEmpty c2 \<and> nextPurge d \<le> now
         then d\<lparr>paths := purgePathCache now c2, nextPurge := now + usecs tmo\<rparr> else d\<lparr>paths := c2\<rparr>)"
      using f g True etx by (auto simp: ph_srt_find_map_def Let_def c2_def split: if_splits elim!: bindE_InrE)
    have "db_less d d'" using c2 shrinks_trans [OF c2 shrinks_purge] by (simp add: srt(3) db_less_def db_conf_def)
    moreover obtain as where as: "foldE (\<lambda>as x. bindE (toIPv4 x) (\<lambda>a. Inr (as @ [a]))) route [] = Inr as"
      "srt = new_srt\<lparr>srt_dst := dst, srt_src := src, srt_laddrs := of_nat (length route * DSR_ADDRESS_SIZE), srt_addrs := as\<rparr>"
      using srt(1) by (auto simp: srt_of_route_def elim!: bindE_InrE)
    have "map IPv4 as = route" using foldE_IPv4 [OF as(1) route(2)] by simp
    moreover from this have "length as = length route" by (metis length_map)
    ultimately show ?thesis using srt(2) as(2) route(1) c(2) True by (auto simp: DSR_ADDRESS_SIZE_def mult.commute)
  qed
qed

lemma plain_rtc_find:
  assumes "plain_cache (ag_db a)"
  shows "dsr_rtc_find src dst a \<noteq> None"
    and "dsr_rtc_find src dst a = Some (Inr (res, b)) \<Longrightarrow> \<exists>d. b = a\<lparr>ag_db := d\<rparr> \<and> db_less (ag_db a) d
      \<and> (\<forall>srt. res = Some srt \<longrightarrow> srt_dst srt = dst \<and> length (srt_addrs srt) < 64
        \<and> srt_laddrs srt = of_nat (4 * length (srt_addrs srt))
        \<and> (IPv4 dst, map IPv4 (srt_addrs srt)) \<in> stored (paths (ag_db a)))"
proof -
  have conf: "pathCacheConf (ag_db a)" using assms by (simp add: plain_cache_def)
  then show "dsr_rtc_find src dst a \<noteq> None" by (auto simp: dsr_rtc_find_def RouteFind_def bindO_def split: sum.splits prod.splits)
  assume "dsr_rtc_find src dst a = Some (Inr (res, b))"
  then obtain d where d: "ph_srt_find_map (ag_time a) src dst (ucast (cache_usecs a)) (ag_db a) = Inr (res, d)" "b = a\<lparr>ag_db := d\<rparr>"
    using conf by (auto simp: dsr_rtc_find_def RouteFind_def elim!: bindO_InrE)
  then show "\<exists>d. b = a\<lparr>ag_db := d\<rparr> \<and> db_less (ag_db a) d
      \<and> (\<forall>srt. res = Some srt \<longrightarrow> srt_dst srt = dst \<and> length (srt_addrs srt) < 64
        \<and> srt_laddrs srt = of_nat (4 * length (srt_addrs srt))
        \<and> (IPv4 dst, map IPv4 (srt_addrs srt)) \<in> stored (paths (ag_db a)))"
    using plain_find [OF assms d(1)] by blast
qed

lemma link_shrinks:
  assumes "ph_srt_delete_link_map now x y d = Inr d'" shows "db_less d d'"
proof -
  obtain l where d': "d' = d\<lparr>paths := erasePathWithLink now (rootNode (links d)) (IPv4 x) (IPv4 y) (x = my_addr d) True (paths d), links := l\<rparr>"
    using assms by (auto simp: ph_srt_delete_link_map_def Let_def elim!: bindE_InrE)
  show ?thesis using erase_shrinks by (simp add: d' db_less_def db_conf_def)
qed

lemma link_deleted:
  assumes "ph_srt_delete_link_map now me x d = Inr d'" and "plain_cache d" and "me = my_addr d"
  shows "db_less d d' \<and> blocked x d'"
proof -
  obtain l where d': "d' = d\<lparr>paths := erasePathWithLink now (rootNode (links d)) (IPv4 me) (IPv4 x) True True (paths d), links := l\<rparr>"
    using assms(1,3) by (auto simp: ph_srt_delete_link_map_def Let_def elim!: bindE_InrE)
  have "db_less d d'" using assms(1) by (rule link_shrinks)
  moreover have "blocked x d'" using erase_blocks assms(2) unfolding d' blocked_def plain_cache_def by auto
  ultimately show ?thesis by blast
qed

subsection \<open>Where a salvaged packet goes\<close>

lemma six_bits:
  assumes "k < 64" shows "uint (word_of_int (int k) :: 6 word) = int k"
proof -
  have "uint (word_of_int (int k) :: 6 word) = int k mod 2 ^ 6" by (simp only: unsigned_of_int take_bit_eq_mod) simp
  also have "\<dots> = int k" using assms by simp
  finally show ?thesis .
qed

lemma next_hop_alone:
  assumes "length (srt_addrs r) < 64" and "srt_laddrs r = of_nat (4 * length (srt_addrs r))"
    and "dsr_srt_next_hop r (uint (word_of_int (int (length (srt_addrs r))) :: 6 word)) = Inr y"
  shows "y = hd (srt_addrs r @ [srt_dst r])"
proof -
  have "srt_n r = length (srt_addrs r)" using assms(1) by (intro srt_n_bytes [OF assms(2)]) simp
  then show ?thesis using assms(3) unfolding six_bits [OF assms(1)]
    by (cases "srt_addrs r") (auto simp: dsr_srt_next_hop_def)
qed

lemma next_hop_joined:
  assumes alt: "length (srt_addrs alt) < 64" and cat: "dsr_srt_concatenate to_me alt = Inr r"
    and small: "length (srt_addrs to_me) + 1 < 2 ^ 30"
    and y: "dsr_srt_next_hop r (uint (word_of_int (int (length (srt_addrs r)) - int (length (srt_addrs to_me)) - 1) :: 6 word)) = Inr y"
  shows "y = hd (srt_addrs alt @ [srt_dst alt])"
proof -
  let ?i = "length (srt_addrs to_me)" and ?k = "length (srt_addrs alt)"
  have r: "srt_addrs r = srt_addrs to_me @ [srt_src alt] @ srt_addrs alt" "srt_dst r = srt_dst alt"
    "srt_laddrs r = of_nat ((?i + ?k + 1) * 4)"
    using cat by (auto simp: dsr_srt_concatenate_def Let_def DSR_ADDRESS_SIZE_def split: if_splits)
  have "int (length (srt_addrs r)) - int ?i - 1 = int ?k" by (simp add: r(1))
  then have hop: "dsr_srt_next_hop r (int ?k) = Inr y" using y by (simp only: six_bits [OF alt])
  show ?thesis
  proof (cases "srt_addrs alt")
    case Nil
    then show ?thesis using hop r(2) by (simp add: dsr_srt_next_hop_def)
  next
    case (Cons z zs)
    have at: "vec_at (srt_addrs r) (int (srt_n r) - int ?k) = Inr y" using hop Cons by (simp add: dsr_srt_next_hop_def split: if_splits)
    have "unat (srt_laddrs r) = (?i + ?k + 1) * 4 mod 2 ^ 32" by (simp only: r(3) unsigned_of_nat take_bit_eq_mod) simp
    moreover have "m * 4 mod 2 ^ 32 div 4 = m mod (2 ^ 30 :: nat)" for m
      using mult_mod_right [of 4 m "2 ^ 30"] by (simp add: mult.commute)
    ultimately have n: "srt_n r = (?i + ?k + 1) mod 2 ^ 30" by (simp only: srt_n_def DSR_ADDRESS_SIZE_def)
    have "?i + ?k + 1 < 2 ^ 30"
    proof (rule ccontr)
      assume "\<not> ?i + ?k + 1 < 2 ^ 30"
      then have "srt_n r = ?i + ?k + 1 - 2 ^ 30" using n small alt by (simp add: mod_if le_mod_geq)
      then have "srt_n r < ?k" using small Cons by simp
      then show False using at by (simp add: vec_at_def split: if_splits)
    qed
    then have "int (srt_n r) - int ?k = int (?i + 1)" using n by simp
    then show ?thesis using at Cons by (simp add: r(1) vec_at_def nth_append split: if_splits)
  qed
qed

lemma salvage_route_hop:
  assumes r: "salvage_route me dp so alt = Inr (Some (srt, sleft))" and y: "dsr_srt_next_hop srt (uint (word_of_int sleft :: 6 word)) = Inr y"
    and alt: "length (srt_addrs alt) < 64" "srt_laddrs alt = of_nat (4 * length (srt_addrs alt))"
  shows "y = hd (srt_addrs alt @ [srt_dst alt])"
proof -
  from r obtain old to_me where "srt = alt \<and> sleft = int (length (srt_addrs alt)) \<or>
      dsr_srt_new_split old me = Inr (Some to_me) \<and> dsr_srt_concatenate to_me alt = Inr srt
        \<and> sleft = int (length (srt_addrs srt)) - int (length (srt_addrs to_me)) - 1"
    unfolding salvage_route_def by (elim bindE_InrE) (fastforce elim!: bindE_InrE split: if_splits option.splits)
  then show ?thesis
  proof
    assume "srt = alt \<and> sleft = int (length (srt_addrs alt))"
    then show ?thesis using next_hop_alone [OF alt] y by simp
  next
    assume j: "dsr_srt_new_split old me = Inr (Some to_me) \<and> dsr_srt_concatenate to_me alt = Inr srt
        \<and> sleft = int (length (srt_addrs srt)) - int (length (srt_addrs to_me)) - 1"
    have "srt_n old < 2 ^ 30" using unsigned_less [of "srt_laddrs old", where ?'a = nat] by (simp add: srt_n_def DSR_ADDRESS_SIZE_def less_mult_imp_div_less)
    moreover have "length (srt_addrs to_me) < srt_n old"
    proof -
      obtain i where "addr_pos me (srt_addrs old) = Some i" "srt_addrs to_me = take i (srt_addrs old)"
        "srt_n old = length (srt_addrs old)"
        using j by (auto simp: dsr_srt_new_split_def elim!: bindE_InrE split: if_splits option.splits)
      moreover have "length (takeWhile (\<lambda>x. x \<noteq> me) as) < length as" if "me \<in> set as" for as
        using that by (induction as) auto
      ultimately show ?thesis by (auto simp: addr_pos_def split: if_splits)
    qed
    ultimately have "length (srt_addrs to_me) + 1 < 2 ^ 30" by simp
    then show ?thesis using next_hop_joined [OF alt(1)] j y by auto
  qed
qed

end
