(* ===== verification/Dsr_Ends.thy ===== *)
theory Dsr_Ends
  imports Dsr_Fuel
begin

text \<open>
  Over a path cache the functions of the maintenance buffer end.  The measure is the number of entries
  that are due; while the packets of a lost neighbour are salvaged it is the number of entries for that
  neighbour, and then how many entries are left to look at.
\<close>

subsection \<open>Measures\<close>

definition due :: "agent \<Rightarrow> nat" where
  "due a = length (filter (\<lambda>(t, m). t \<le> ag_time a + 1 / 10000) (maint_buf a))"

definition to_nb :: "in_addr \<Rightarrow> agent \<Rightarrow> nat" where
  "to_nb x a = length (filter (\<lambda>(t, m). mt_nxt_hop m = x) (maint_buf a))"

text \<open>
  What every call does: it leaves no new entry that is due, and none for a neighbour that no route of the
  cache begins with, those in \<open>Y\<close> excepted.
\<close>

definition eases :: "in_addr set \<Rightarrow> agent \<Rightarrow> agent \<Rightarrow> bool" where
  "eases Y a b \<longleftrightarrow> maint_rel a b \<and> db_less (ag_db a) (ag_db b) \<and> due b \<le> due a
    \<and> (\<forall>x. x \<notin> Y \<longrightarrow> blocked x (ag_db a) \<longrightarrow> to_nb x b \<le> to_nb x a)"

definition good :: "agent \<Rightarrow> bool" where
  "good a \<longleftrightarrow> plain_cache (ag_db a) \<and> base_ok a"

lemma eases_refl [simp]: "eases Y a a"
  by (simp add: eases_def)

lemma eases_trans: "eases Y a b \<Longrightarrow> eases Y b c \<Longrightarrow> eases Y a c"
  unfolding eases_def by (metis db_less_trans db_less_blocked maint_rel_trans order_trans)

lemma eases_mono: "eases Y a b \<Longrightarrow> Y \<subseteq> Z \<Longrightarrow> eases Z a b"
  by (auto simp: eases_def)

lemma eases_good: "eases Y a b \<Longrightarrow> good a \<Longrightarrow> good b"
  by (auto simp: eases_def good_def maint_rel_def intro: db_less_plain)

lemma eases_time: "eases Y a b \<Longrightarrow> ag_time b = ag_time a"
  by (simp add: eases_def maint_rel_def agent_view_def)

lemma eases_due: "eases Y a b \<Longrightarrow> due b \<le> due a"
  by (simp add: eases_def)

lemma eases_blocked: "eases Y a b \<Longrightarrow> blocked x (ag_db a) \<Longrightarrow> blocked x (ag_db b)"
  unfolding eases_def using db_less_blocked by blast

text \<open>A call that leaves the buffer alone.\<close>

lemma same_eases:
  assumes "maint_rel a b" "maint_buf b = maint_buf a" "db_less (ag_db a) (ag_db b)" shows "eases Y a b"
  using assms by (simp add: eases_def due_def to_nb_def maint_rel_def agent_view_def)

lemma emit_eases: "eases Y a (dsr_emit e a)"
  by (rule same_eases [OF dsr_emit_rel]) (simp_all add: dsr_emit_def)

lemma drop_eases: "eases Y a (drop_payload p a)"
  by (simp add: drop_payload_def emit_eases split: option.split)

lemma xmit_eases: "xmit_now dp a = Some (Inr b) \<Longrightarrow> eases Y a b"
  by (auto simp: xmit_now_def emit_eases drop_eases split: if_splits elim!: bindE_InrE)

lemma ask_again_eases: "ask_again m a = Some (Inr b) \<Longrightarrow> eases Y a b"
  by (auto simp: ask_again_def dsr_ack_req_send_pkt_def dsr_ack_req_send_def emit_eases drop_eases xmit_eases
      split: if_splits option.splits)

lemma timer_eases: "eases Y a (a\<lparr>ack_timer := t\<rparr>)"
  by (rule same_eases [OF ack_timer_rel]) simp_all

lemma find_eases:
  assumes "plain_cache (ag_db a)" "dsr_rtc_find src dst a = Some (Inr (r, b))" shows "eases Y a b"
proof -
  obtain d where "b = a\<lparr>ag_db := d\<rparr>" "db_less (ag_db a) d" using plain_rtc_find(2) [OF assms] by blast
  then show ?thesis by (intro same_eases [OF dsr_rtc_find_rel [OF assms(2)]]) simp_all
qed

lemma rerr_eases:
  assumes "plain_cache (ag_db a)" "dsr_rerr_send trig unr a = Some (Inr b)" shows "eases Y a b"
  using assms(2) unfolding dsr_rerr_send_def
  by (auto split: if_splits option.splits elim!: bindO_InrE dest!: xmit_eases find_eases [OF assms(1)]
      intro: eases_trans)

lemma deleted_eases:
  assumes "ph_srt_delete_link_map now (myaddr a) x (ag_db a) = Inr d" "plain_cache (ag_db a)"
  shows "eases Y a (a\<lparr>ag_db := d\<rparr>) \<and> blocked x d"
  using link_deleted [OF assms(1,2)] other_calls_conf(2) [OF assms(1)]
  by (auto intro!: same_eases db_rel)

lemma salvage_eases:
  assumes "plain_cache (ag_db a)" "salvage_packet dp a = Some (Inr (r, b))"
  shows "eases Y a b \<and> (\<forall>dp'. r = Some dp' \<longrightarrow> \<not> blocked (dp_nxt_hop dp') (ag_db a))"
proof -
  obtain s where s: "dsr_rtc_find (myaddr a) (dp_dst dp) a = Some (Inr (s, b))"
    using assms(2) unfolding salvage_packet_def
    by (auto split: option.splits if_splits elim!: bindO_InrE bindE_InrE)
  have "\<not> blocked (dp_nxt_hop dp') (ag_db a)" if r: "r = Some dp'" for dp'
  proof -
    obtain alt p so srt sleft where alt: "s = Some alt" "salvage_route (myaddr a) dp so alt = Inr (Some (srt, sleft))"
      "salvaged dp p so srt sleft = Inr dp'"
      using assms(2) r s unfolding salvage_packet_def
      by (auto split: option.splits if_splits elim!: bindO_InrE bindE_InrE)
    have hop: "dsr_srt_next_hop srt (uint (word_of_int sleft :: 6 word)) = Inr (dp_nxt_hop dp')"
      using alt(3) by (auto simp: salvaged_def Let_def elim!: bindE_InrE split: if_splits)
    obtain plain: "srt_dst alt = dp_dst dp" "length (srt_addrs alt) < 64"
      "srt_laddrs alt = of_nat (4 * length (srt_addrs alt))"
      "(IPv4 (dp_dst dp), map IPv4 (srt_addrs alt)) \<in> stored (paths (ag_db a))"
      using plain_rtc_find(2) [OF assms(1) s] alt(1) by blast
    have "IPv4 (dp_nxt_hop dp') = hd (map IPv4 (srt_addrs alt) @ [IPv4 (dp_dst dp)])"
      using salvage_route_hop [OF alt(2) hop plain(2,3)] plain(1) by (cases "srt_addrs alt") auto
    then show ?thesis using plain(4) unfolding blocked_def by auto
  qed
  then show ?thesis using find_eases [OF assms(1) s] by blast
qed

subsection \<open>Entries put in and taken out\<close>

lemma length_filter_mm_insert:
  "length (filter P (mm_insert k v xs)) = length (filter P xs) + (if P (k, v) then 1 else 0)"
  by (induction k v xs rule: mm_insert.induct) auto

lemma insert_counts:
  assumes "maint_insert m a = Some (Inr b)"
  shows "ag_db b = ag_db a"
    "due b \<le> due a + (if mt_expires m \<le> ag_time a + 1 / 10000 then 1 else 0)"
    "to_nb x b \<le> to_nb x a + (if mt_nxt_hop m = x then 1 else 0)"
  using assms
  by (auto simp: maint_insert_def drop_payload_def dsr_emit_def due_def to_nb_def length_filter_mm_insert
      split: if_splits list.splits option.splits)

text \<open>A neighbour's timeout is at least 10 ms, the timer serves what expires within 0.1 ms.\<close>

lemma rto_not_due:
  assumes "10000 \<le> rto" shows "\<not> now + wide_usecs rto \<le> now + 1 / 10000"
proof -
  have "(10000 :: nat) \<le> unat rto" using assms by (simp add: word_le_nat_alt)
  then have "(of_nat 10000 :: simtime) \<le> of_nat (unat rto)" by (rule of_nat_mono)
  then show ?thesis by (simp add: wide_usecs_def)
qed

subsection \<open>Every call eases the buffer\<close>

definition calls_ease :: "nat \<Rightarrow> bool" where
  "calls_ease n \<longleftrightarrow>
     (\<forall>dp a b. good a \<longrightarrow> omnet_xmit n dp a = Some (Inr b) \<longrightarrow> eases {dp_nxt_hop dp} a b)
   \<and> (\<forall>dp a r b. good a \<longrightarrow> maint_buf_add n dp a = Some (Inr (r, b)) \<longrightarrow> eases {dp_nxt_hop dp} a b)
   \<and> (\<forall>a b. good a \<longrightarrow> maint_buf_set_timeout n a = Some (Inr b) \<longrightarrow> eases {} a b)
   \<and> (\<forall>a b. good a \<longrightarrow> maint_buf_timeout n a = Some (Inr b) \<longrightarrow> eases {} a b)
   \<and> (\<forall>dp a b. good a \<longrightarrow> maint_buf_salvage n dp a = Some (Inr b) \<longrightarrow> eases {} a b)
   \<and> (\<forall>x k a b. good a \<longrightarrow> salvage_others n x k a = Some (Inr b) \<longrightarrow> eases {} a b)"

lemma calls_easeD:
  assumes "calls_ease n" "good a"
  shows "omnet_xmit n dp a = Some (Inr b) \<Longrightarrow> eases {dp_nxt_hop dp} a b"
    "maint_buf_add n dp a = Some (Inr (r, b)) \<Longrightarrow> eases {dp_nxt_hop dp} a b"
    "maint_buf_set_timeout n a = Some (Inr b) \<Longrightarrow> eases {} a b"
    "maint_buf_timeout n a = Some (Inr b) \<Longrightarrow> eases {} a b"
    "maint_buf_salvage n dp a = Some (Inr b) \<Longrightarrow> eases {} a b"
    "salvage_others n x k a = Some (Inr b) \<Longrightarrow> eases {} a b"
  using assms unfolding calls_ease_def by blast+

lemma xmit_eases_step:
  assumes n: "calls_ease n" and a: "good a" and s: "omnet_xmit (Suc n) dp a = Some (Inr b)"
  shows "eases {dp_nxt_hop dp} a b"
  using s unfolding omnet_xmit.simps(2)
  by (auto split: if_splits elim!: bindO_InrE dest!: calls_easeD(2) [OF n a] dest: xmit_eases intro: eases_trans)

lemma set_timeout_eases_step:
  assumes n: "calls_ease n" and a: "good a" and s: "maint_buf_set_timeout (Suc n) a = Some (Inr b)"
  shows "eases {} a b"
  using s calls_easeD(4) [OF n a] unfolding maint_buf_set_timeout.simps(2)
  by (auto simp: timer_eases split: list.splits if_splits)

lemma salvage_eases_step:
  assumes n: "calls_ease n" and a: "good a" and s: "maint_buf_salvage (Suc n) dp a = Some (Inr b)"
  shows "eases {} a b"
proof -
  obtain r a1 where r: "salvage_packet dp a = Some (Inr (r, a1))"
    and b: "(case r of None \<Rightarrow> Some (Inr (drop_payload (dp_payload dp) a1)) | Some dp' \<Rightarrow> omnet_xmit n dp' a1) = Some (Inr b)"
    using s unfolding maint_buf_salvage.simps(2) by (auto elim!: bindO_InrE)
  have plain: "plain_cache (ag_db a)" using a by (simp add: good_def)
  note found = salvage_eases [OF plain r]
  then have a1: "eases {} a a1" "good a1" using a eases_good by blast+
  show ?thesis
  proof (cases r)
    case None
    then show ?thesis using b a1(1) drop_eases eases_trans by auto
  next
    case (Some dp')
    then have "eases {dp_nxt_hop dp'} a1 b" using b calls_easeD(1) [OF n a1(2)] by simp
    moreover have "\<not> blocked (dp_nxt_hop dp') (ag_db a)" using found Some by blast
    ultimately have "eases {} a b" using a1(1) unfolding eases_def
      by (metis (no_types, lifting) db_less_trans db_less_blocked maint_rel_trans order_trans empty_iff singletonD)
    then show ?thesis .
  qed
qed

lemma length_filter_both: "length (filter Q (filter P xs)) \<le> length (filter Q xs)"
  by (induction xs) auto

lemma filter_eases: "eases Y a (a\<lparr>maint_buf := filter P (maint_buf a)\<rparr>)"
  using maint_filter_rel [of a P]
  by (simp add: eases_def due_def to_nb_def length_filter_both del: filter_filter)

lemma erase_eases: "eases Y a (maint_erase k a)"
  unfolding maint_erase_def by (rule filter_eases)

lemma salvage_others_eases_step:
  assumes n: "calls_ease n" and a: "good a" and s: "salvage_others (Suc n) x k a = Some (Inr b)"
  shows "eases {} a b"
proof (cases k)
  case (Some key)
  then obtain m where m: "entry_of key a = Some m" using s unfolding salvage_others.simps(2) by (auto split: option.splits)
  let ?k = "key_after key (maint_buf a)"
  show ?thesis
  proof (cases "mt_nxt_hop m = x")
    case True
    then obtain a1 where a1: "maint_buf_salvage n (mt_dp m) (maint_erase key a) = Some (Inr a1)" "salvage_others n x ?k a1 = Some (Inr b)"
      using s Some m unfolding salvage_others.simps(2) by (auto simp: Let_def elim!: bindO_InrE)
    have e: "good (maint_erase key a)" using eases_good [OF erase_eases a] .
    have 1: "eases {} (maint_erase key a) a1" by (rule calls_easeD(5) [OF n e a1(1)])
    show ?thesis
      using eases_trans [OF eases_trans [OF erase_eases 1] calls_easeD(6) [OF n eases_good [OF 1 e] a1(2)]] .
  next
    case False
    then show ?thesis using s Some m calls_easeD(6) [OF n a] unfolding salvage_others.simps(2) by (auto simp: Let_def)
  qed
qed (use s in \<open>auto simp: salvage_others.simps(2)\<close>)

text \<open>A packet that is kept, and a request that is put down.\<close>

lemma new_entry_eases:
  assumes c: "maint_entry_create dp i rto a = Some m" and i: "maint_insert m (a\<lparr>ag_key := ag_key a + 1\<rparr>) = Some (Inr b)"
    and q: "neigh_tbl_query x a = Some (i, asked, rto)" and a: "good a"
  shows "eases {dp_nxt_hop dp} a b"
proof -
  have m: "mt_nxt_hop m = dp_nxt_hop dp" "mt_expires m = ag_time a + wide_usecs rto"
    using c by (auto simp: maint_entry_create_def split: if_splits)
  have "10000 \<le> rto" using neigh_query_bounds [OF _ q] a by (simp add: good_def base_ok_def)
  then have "\<not> mt_expires m \<le> ag_time a + 1 / 10000" unfolding m by (rule rto_not_due)
  moreover have "due (a\<lparr>ag_key := ag_key a + 1\<rparr>) = due a" "to_nb y (a\<lparr>ag_key := ag_key a + 1\<rparr>) = to_nb y a" for y
    by (simp_all add: due_def to_nb_def)
  ultimately have "due b \<le> due a" "\<forall>y. y \<noteq> dp_nxt_hop dp \<longrightarrow> to_nb y b \<le> to_nb y a"
    using insert_counts(2) [OF i] insert_counts(3) [OF i] m(1) by (simp, metis add_0_right)
  then show ?thesis using insert_counts(1) [OF i] new_entry_rel [OF c i q] by (auto simp: eases_def)
qed

lemma update_counts:
  assumes "\<And>m. mt_nxt_hop (f m) = mt_nxt_hop m"
  shows "due (maint_update k f a) = due a" "to_nb x (maint_update k f a) = to_nb x a"
  using assms by (auto simp: due_def to_nb_def maint_update_def filter_map o_def case_prod_unfold)

lemma asked_eases:
  "eases Y a (neigh_tbl_id_inc x (neigh_tbl_set_ack_req_time x (maint_update k (\<lambda>m. m\<lparr>mt_ack_req_sent := True\<rparr>) a)))"
proof -
  let ?f = "\<lambda>m. m\<lparr>mt_ack_req_sent := True\<rparr>" let ?u = "maint_update k ?f a"
  have "eases Y a ?u" unfolding eases_def using maint_update_rel [where f = ?f and k = k and a = a] update_counts [where f = ?f and k = k and a = a]
    by (simp add: maint_update_def)
  moreover have "eases Y ?u (neigh_tbl_id_inc x (neigh_tbl_set_ack_req_time x ?u))"
    by (rule same_eases [OF maint_rel_trans [OF neigh_ops_rel(1) neigh_ops_rel(2)]])
      (simp_all add: neigh_tbl_id_inc_def neigh_tbl_set_ack_req_time_def neigh_update_def split: option.split)
  ultimately show ?thesis by (rule eases_trans)
qed

lemma add_eases_step:
  assumes n: "calls_ease n" and a: "good a" and s: "maint_buf_add (Suc n) dp a = Some (Inr (r, b))"
  shows "eases {dp_nxt_hop dp} a b"
proof -
  have timer: "eases {dp_nxt_hop dp} a b" if "eases {dp_nxt_hop dp} a c" "maint_buf_set_timeout n c = Some (Inr b)" for c
    using eases_trans [OF that(1) eases_mono [OF calls_easeD(3) [OF n eases_good [OF that(1) a] that(2)]]] by simp
  have asked: "eases {dp_nxt_hop dp} a b" if "eases {dp_nxt_hop dp} a c"
    "maint_buf_set_timeout n (neigh_tbl_id_inc x (neigh_tbl_set_ack_req_time x
      (maint_update k (\<lambda>m. m\<lparr>mt_ack_req_sent := True\<rparr>) c))) = Some (Inr b)" for c x k
    using timer [OF eases_trans [OF that(1) asked_eases] that(2)] .
  show ?thesis
    using s timer asked unfolding maint_buf_add.simps(2)
    by (auto simp: Let_def split: option.splits prod.splits if_splits elim!: bindO_InrE
        dest!: new_entry_eases [OF _ _ _ a])
qed

subsection \<open>The timer\<close>

text \<open>An entry that is due and is taken out of the buffer; one that is put in again.\<close>

lemma tail_eases:
  assumes "maint_buf a = (t, m) # r"
  shows "eases Y a (a\<lparr>maint_buf := r\<rparr>)"
    and "t \<le> ag_time a + 1 / 10000 \<Longrightarrow> due (a\<lparr>maint_buf := r\<rparr>) < due a"
    and "to_nb x a = to_nb x (a\<lparr>maint_buf := r\<rparr>) + (if mt_nxt_hop m = x then 1 else 0)"
  using maint_tail_rel [OF assms] assms by (auto simp: eases_def due_def to_nb_def)

lemma send_again_eases:
  assumes buf: "maint_buf a = (t, m) # r" and t: "t \<le> ag_time a + 1 / 10000" and a: "good a"
    and a2: "ask_again (again a m) (a\<lparr>maint_buf := r\<rparr>) = Some (Inr a2)" and a3: "maint_insert (again a m) (a2\<lparr>ag_key := ag_key a2 + 1\<rparr>) = Some (Inr a3)"
  shows "eases {} a a3 \<and> due a3 < due a"
proof -
  let ?r = "a\<lparr>maint_buf := r\<rparr>"
  have "10000 \<le> mt_rto m" using a buf by (auto simp: good_def base_ok_def maint_ok_def)
  then have late: "\<not> mt_expires (again a m) \<le> ag_time a + 1 / 10000" using rto_not_due [of "mt_rto m" "ag_time a"] by (simp add: again_def)
  have same: "maint_buf a2 = r" using ask_again_same [OF a2] by simp
  have e: "eases {} ?r a2" by (rule ask_again_eases [OF a2])
  have time: "ag_time a2 = ag_time a" using eases_time [OF e] by simp
  have "due (a2\<lparr>ag_key := ag_key a2 + 1\<rparr>) = due a2" by (simp add: due_def)
  then have "due a3 \<le> due ?r" using insert_counts(2) [OF a3] eases_due [OF e] late by (simp add: time)
  moreover have "to_nb x a3 \<le> to_nb x a" for x
    using insert_counts(3) [OF a3, of x] tail_eases(3) [OF buf, of x] same by (simp add: to_nb_def again_def)
  moreover have "db_less (ag_db a) (ag_db a3)" using insert_counts(1) [OF a3] e by (simp add: eases_def)
  ultimately show ?thesis using send_again_rel [OF buf a2 a3] tail_eases(2) [OF buf t] by (auto simp: eases_def)
qed

lemma lost_eases_step:
  assumes n: "calls_ease n" and a: "good a" and s: "neighbour_lost n m a = Some (Inr b)"
  shows "eases {} a b"
proof -
  obtain d a3 a4 a5 where d: "ph_srt_delete_link_map (ag_time a) (myaddr a) (mt_nxt_hop m) (ag_db a) = Inr d"
    and calls: "dsr_rerr_send (mt_dp m) (mt_nxt_hop m) (a\<lparr>ag_db := d\<rparr>) = Some (Inr a3)"
    "maint_buf_salvage n (mt_dp m) a3 = Some (Inr a4)"
    "salvage_others n (mt_nxt_hop m) (case maint_buf a4 of [] \<Rightarrow> None | (_, m') # _ \<Rightarrow> Some (mt_key m')) a4 = Some (Inr a5)"
    "maint_buf_set_timeout n a5 = Some (Inr b)"
    using s unfolding neighbour_lost_def by (elim bindO_InrE) (drule option.inject [THEN iffD1], auto elim!: bindE_InrE)
  have plain: "plain_cache (ag_db x)" if "good x" for x using that by (simp add: good_def)
  have 2: "eases {} a (a\<lparr>ag_db := d\<rparr>)" using deleted_eases [OF d plain [OF a]] by blast
  note g2 = eases_good [OF 2 a]
  have 3: "eases {} (a\<lparr>ag_db := d\<rparr>) a3" by (rule rerr_eases [OF plain [OF g2] calls(1)])
  note g3 = eases_good [OF 3 g2]
  have 4: "eases {} a3 a4" by (rule calls_easeD(5) [OF n g3 calls(2)])
  note g4 = eases_good [OF 4 g3]
  have 5: "eases {} a4 a5" by (rule calls_easeD(6) [OF n g4 calls(3)])
  have "eases {} a5 b" by (rule calls_easeD(3) [OF n eases_good [OF 5 g4] calls(4)])
  then show ?thesis using 2 3 4 5 eases_trans by meson
qed

lemma timeout_eases_step:
  assumes n: "calls_ease n" and a: "good a" and s: "maint_buf_timeout (Suc n) a = Some (Inr b)"
  shows "eases {} a b"
proof (cases "maint_buf a")
  case (Cons e r)
  obtain t m where e: "e = (t, m)" by force
  let ?r = "a\<lparr>maint_buf := r\<rparr>"
  have tail: "eases {} a ?r" using tail_eases(1) [OF Cons [unfolded e]] .
  have lost: "eases {} a b" if "neighbour_lost n x ?r = Some (Inr b)" for x
    using eases_trans [OF tail lost_eases_step [OF n eases_good [OF tail a] that]] .
  have sent: "eases {} a b" if "t \<le> ag_time a + 1 / 10000" "ask_again (again a m) ?r = Some (Inr a2)"
    "maint_insert (again a m) (a2\<lparr>ag_key := ag_key a2 + 1\<rparr>) = Some (Inr a3)" "maint_buf_set_timeout n a3 = Some (Inr b)" for a2 a3
  proof -
    have 3: "eases {} a a3" using send_again_eases [OF Cons [unfolded e] that(1) a that(2,3)] by blast
    show ?thesis using eases_trans [OF 3 calls_easeD(3) [OF n eases_good [OF 3 a] that(4)]] .
  qed
  show ?thesis
    using s lost sent calls_easeD(3) [OF n a, of b] unfolding maint_buf_timeout_Suc Cons e
    by (auto split: if_splits elim!: bindO_InrE)
qed (use s in \<open>auto simp: maint_buf_timeout.simps(2) split: if_splits\<close>)

lemma calls_ease: "calls_ease n"
proof (induction n)
  case (Suc n)
  show ?case
    unfolding calls_ease_def [of "Suc n"]
    using xmit_eases_step [OF Suc] add_eases_step [OF Suc] set_timeout_eases_step [OF Suc]
      timeout_eases_step [OF Suc] salvage_eases_step [OF Suc] salvage_others_eases_step [OF Suc] by blast
qed (simp add: calls_ease_def)

lemmas eases_calls = calls_easeD [OF calls_ease]

subsection \<open>There is enough fuel\<close>

lemma bindO_total: "m \<noteq> None \<Longrightarrow> (\<And>x. f x \<noteq> None) \<Longrightarrow> bindO m f \<noteq> None"
  by (auto simp: bindO_def split: sum.splits)

lemma steps_total:
  "xmit_now dp a \<noteq> None" "ask_again m a \<noteq> None" "maint_insert m a \<noteq> None"
  "plain_cache (ag_db a) \<Longrightarrow> salvage_packet dp a \<noteq> None"
  "plain_cache (ag_db a) \<Longrightarrow> dsr_rerr_send trig unr a \<noteq> None"
proof -
  show xmit: "xmit_now dp a \<noteq> None" for dp a by (simp add: xmit_now_def)
  show "ask_again m a \<noteq> None"
    using xmit by (auto simp: ask_again_def dsr_ack_req_send_def dsr_ack_req_send_pkt_def split: option.split)
  show "maint_insert m a \<noteq> None" by (auto simp: maint_insert_def split: list.split)
  show "salvage_packet dp a \<noteq> None" if "plain_cache (ag_db a)"
    using plain_rtc_find(1) [OF that] by (auto simp: salvage_packet_def bindO_def split: option.split sum.split prod.split)
  have tail: "\<exists>y. bindO (Some z) (\<lambda>dp. xmit_now dp b) = Some y" for z b
    using bindO_total [of "Some z" "\<lambda>dp. xmit_now dp b"] xmit by simp
  show "dsr_rerr_send trig unr a \<noteq> None" if "plain_cache (ag_db a)"
    unfolding dsr_rerr_send_def
    by (split if_split, intro conjI impI, simp, split option.split, intro conjI allI impI, simp)
      (intro bindO_total plain_rtc_find(1) [OF that], auto intro!: tail split: option.split)
qed

lemma gains_const [simp]: "gains (\<lambda>_. m)"
  by (simp add: gains_def ext_refl)

definition calls_end :: "nat \<Rightarrow> bool" where
  "calls_end d \<longleftrightarrow> (\<forall>a. good a \<longrightarrow> due a \<le> d \<longrightarrow>
     ends (\<lambda>n. maint_buf_timeout n a) \<and> ends (\<lambda>n. maint_buf_set_timeout n a)
   \<and> (\<forall>dp. ends (\<lambda>n. omnet_xmit n dp a) \<and> ends (\<lambda>n. maint_buf_add n dp a) \<and> ends (\<lambda>n. maint_buf_salvage n dp a))
   \<and> (\<forall>x k. blocked x (ag_db a) \<longrightarrow> ends (\<lambda>n. salvage_others n x k a)))"

lemma calls_endD:
  assumes "calls_end d" "good a" "due a \<le> d"
  shows "ends (\<lambda>n. maint_buf_timeout n a)" "ends (\<lambda>n. maint_buf_set_timeout n a)" "ends (\<lambda>n. omnet_xmit n dp a)"
    "ends (\<lambda>n. maint_buf_add n dp a)" "ends (\<lambda>n. maint_buf_salvage n dp a)"
    "blocked x (ag_db a) \<Longrightarrow> ends (\<lambda>n. salvage_others n x k a)"
  using assms unfolding calls_end_def by blast+

text \<open>A neighbour that is lost, when the calls end that come after.\<close>

lemma lost_ends:
  assumes C: "calls_end d" and a: "good a" "due a \<le> d"
  shows "ends (\<lambda>n. neighbour_lost n m a)"
  unfolding neighbour_lost_def
proof (rule ends_bindO)
  fix n a2
  assume "Some (bindE (ph_srt_delete_link_map (ag_time a) (myaddr a) (mt_nxt_hop m) (ag_db a)) (\<lambda>d. Inr (a\<lparr>ag_db := d\<rparr>)))
    = Some (Inr a2)"
  then have "eases {} a a2 \<and> blocked (mt_nxt_hop m) (ag_db a2)"
    using deleted_eases a(1) by (auto simp: good_def elim!: bindE_InrE)
  then have 2: "good a2" "due a2 \<le> d" "blocked (mt_nxt_hop m) (ag_db a2)"
    using eases_good [OF _ a(1)] eases_due order_trans [OF _ a(2)] by blast+
  have plain: "plain_cache (ag_db a2)" using 2 by (simp add: good_def)
  show "ends (\<lambda>n. bindO (dsr_rerr_send (mt_dp m) (mt_nxt_hop m) a2) (\<lambda>a3. bindO (maint_buf_salvage n (mt_dp m) a3) (\<lambda>a4.
      bindO (salvage_others n (mt_nxt_hop m) (case maint_buf a4 of [] \<Rightarrow> None | (_, m') # _ \<Rightarrow> Some (mt_key m')) a4)
        (maint_buf_set_timeout n))))"
  proof (rule ends_bindO)
    fix n a3 assume "dsr_rerr_send (mt_dp m) (mt_nxt_hop m) a2 = Some (Inr a3)"
    from rerr_eases [OF plain this] have 23: "eases {} a2 a3" .
    note 3 = eases_good [OF 23 2(1)] order_trans [OF eases_due [OF 23] 2(2)] eases_blocked [OF 23 2(3)]
    show "ends (\<lambda>n. bindO (maint_buf_salvage n (mt_dp m) a3) (\<lambda>a4. bindO (salvage_others n (mt_nxt_hop m)
        (case maint_buf a4 of [] \<Rightarrow> None | (_, m') # _ \<Rightarrow> Some (mt_key m')) a4) (maint_buf_set_timeout n)))"
    proof (rule ends_bindO)
      fix n a4 assume "maint_buf_salvage n (mt_dp m) a3 = Some (Inr a4)"
      from eases_calls(5) [OF 3(1) this] have 34: "eases {} a3 a4" .
      note 4 = eases_good [OF 34 3(1)] order_trans [OF eases_due [OF 34] 3(2)] eases_blocked [OF 34 3(3)]
      show "ends (\<lambda>n. bindO (salvage_others n (mt_nxt_hop m)
          (case maint_buf a4 of [] \<Rightarrow> None | (_, m') # _ \<Rightarrow> Some (mt_key m')) a4) (maint_buf_set_timeout n))"
      proof (rule ends_bindO)
        fix n a5 assume "salvage_others n (mt_nxt_hop m)
          (case maint_buf a4 of [] \<Rightarrow> None | (_, m') # _ \<Rightarrow> Some (mt_key m')) a4 = Some (Inr a5)"
        from eases_calls(6) [OF 4(1) this] have 45: "eases {} a4 a5" .
        show "ends (\<lambda>n. maint_buf_set_timeout n a5)"
          by (rule calls_endD(2) [OF C eases_good [OF 45 4(1)] order_trans [OF eases_due [OF 45] 4(2)]])
      qed (simp_all add: calls_endD(6) [OF C 4])
    qed (simp_all add: calls_endD(5) [OF C 3(1,2)])
  qed (simp_all add: steps_total(5) [OF plain])
qed simp_all

text \<open>The other entries of the lost neighbour: what is left to look at.\<close>

definition left :: "nat option \<Rightarrow> (simtime \<times> maint_entry) list \<Rightarrow> nat" where
  "left k xs = (case k of None \<Rightarrow> 0 | Some key \<Rightarrow> length (dropWhile (\<lambda>(_, m). mt_key m \<noteq> key) xs))"

lemma key_after_in: "key_after k xs = Some k' \<Longrightarrow> k' \<in> (mt_key \<circ> snd) ` set xs"
  by (induction k xs rule: key_after.induct) (auto split: if_splits list.splits)

lemma left_after:
  assumes "distinct (map (mt_key \<circ> snd) xs)" and "key \<in> (mt_key \<circ> snd) ` set xs"
  shows "left (key_after key xs) xs < left (Some key) xs"
  using assms
proof (induction xs)
  case (Cons e r)
  obtain t m where e: "e = (t, m)" by force
  show ?case
  proof (cases "mt_key m = key")
    case True
    have "left k (e # r) \<le> length r" if "k = None \<or> k = Some k'" "k' \<noteq> key" for k k'
      using that e True length_dropWhile_le [of "\<lambda>(_, m). mt_key m \<noteq> k'" r] by (auto simp: left_def)
    moreover have "key_after key (e # r) = None \<or> (\<exists>k'. key_after key (e # r) = Some k' \<and> k' \<noteq> key)"
      using Cons.prems(1) e True by (auto split: list.split)
    ultimately have "left (key_after key (e # r)) (e # r) \<le> length r" by (auto simp: left_def)
    then show ?thesis using e True by (simp add: left_def)
  next
    case False
    then have r: "key \<in> (mt_key \<circ> snd) ` set r" "distinct (map (mt_key \<circ> snd) r)" using Cons.prems e by (auto simp: o_def)
    have "left (key_after key r) (e # r) = left (key_after key r) r"
    proof (cases "key_after key r")
      case (Some k')
      have "k' \<noteq> mt_key m" using Cons.prems(1) key_after_in [OF Some] e by (auto simp: o_def) force
      then show ?thesis using e Some by (simp add: left_def)
    qed (simp add: left_def)
    then show ?thesis using Cons.IH [OF r(2,1)] False e by (simp add: left_def)
  qed
qed simp

lemma entry_of_in: "entry_of key a = Some m \<Longrightarrow> mt_key m = key \<and> m \<in> snd ` set (maint_buf a)"
  unfolding entry_of_def by (auto simp: find_Some_iff)

lemma erase_to_nb:
  assumes "entry_of key a = Some m" shows "to_nb (mt_nxt_hop m) (maint_erase key a) < to_nb (mt_nxt_hop m) a"
proof -
  have strict: "length (filter Q (filter P xs)) < length (filter Q xs)" if "y \<in> set xs" "Q y" "\<not> P y"
    for P Q and y :: 'x and xs using that
  proof (induction xs)
    case (Cons x xs)
    then show ?case using length_filter_both [of Q P xs] by auto
  qed simp
  obtain t where "(t, m) \<in> set (maint_buf a)" using entry_of_in [OF assms] by auto
  then show ?thesis unfolding to_nb_def maint_erase_def using entry_of_in [OF assms]
    by (simp del: filter_filter) (rule strict, auto)
qed

lemma others_end:
  assumes C: "\<And>b dp. good b \<Longrightarrow> due b \<le> d \<Longrightarrow> ends (\<lambda>n. maint_buf_salvage n dp b)"
  shows "good a \<Longrightarrow> due a \<le> d \<Longrightarrow> blocked x (ag_db a) \<Longrightarrow> ends (\<lambda>n. salvage_others n x k a)"
proof (induction "(to_nb x a, left k (maint_buf a))" arbitrary: a k
    rule: wf_induct_rule [OF wf_lex_prod [OF wf_less_than wf_less_than]])
  case 1
  note IH = 1(1) and a = 1(2-4)
  have "ends (\<lambda>n. salvage_others (Suc n) x k a)"
  proof (cases k)
    case (Some key)
    let ?k = "key_after key (maint_buf a)"
    show ?thesis
    proof (cases "entry_of key a")
      case m: (Some m)
      show ?thesis
      proof (cases "mt_nxt_hop m = x")
        case True
        let ?e = "maint_erase key a"
        have ae: "eases {} a ?e" by (rule erase_eases)
        note e = eases_good [OF ae a(1)] order_trans [OF eases_due [OF ae] a(2)] eases_blocked [OF ae a(3)]
        have "ends (\<lambda>n. bindO (maint_buf_salvage n (mt_dp m) ?e) (salvage_others n x ?k))"
        proof (rule ends_bindO)
          fix n b assume "maint_buf_salvage n (mt_dp m) ?e = Some (Inr b)"
          from eases_calls(5) [OF e(1) this] have eb: "eases {} ?e b" .
          have "to_nb x b \<le> to_nb x ?e" using eb e(3) by (simp add: eases_def)
          then have "to_nb x b < to_nb x a" using erase_to_nb [OF m] True by simp
          then show "ends (\<lambda>n. salvage_others n x ?k b)"
            by (intro IH) (simp_all add: eases_good [OF eb e(1)] order_trans [OF eases_due [OF eb] e(2)] eases_blocked [OF eb e(3)])
        qed (simp_all add: C [OF e(1,2)])
        then show ?thesis using Some m True by (simp add: salvage_others.simps(2) Let_def)
      next
        case False
        have "distinct (map (mt_key \<circ> snd) (maint_buf a))" using a(1) by (simp add: good_def base_ok_def maint_ok_def)
        then have "left ?k (maint_buf a) < left k (maint_buf a)"
          unfolding Some by (rule left_after) (use entry_of_in [OF m] in auto)
        then have "ends (\<lambda>n. salvage_others n x ?k a)" by (intro IH) (simp_all add: a)
        then show ?thesis using Some m False by (simp add: salvage_others.simps(2) Let_def)
      qed
    qed (simp add: Some salvage_others.simps(2))
  qed (simp add: salvage_others.simps(2))
  then show ?case using ends_Suc [of "\<lambda>n. salvage_others n x k a"] by simp
qed

text \<open>What the timer is called by.\<close>

lemma add_ends:
  assumes a: "good a" "due a \<le> d" and C: "\<And>b. good b \<Longrightarrow> due b \<le> d \<Longrightarrow> ends (\<lambda>n. maint_buf_set_timeout n b)"
  shows "ends (\<lambda>n. maint_buf_add n dp a)"
proof -
  have next_step: "ends (\<lambda>n. bindO (maint_buf_set_timeout n b) (\<lambda>a3. Some (Inr (dp', a3))))" if "eases Y a b" for b dp' Y
    by (rule ends_bindO) (simp_all add: C [OF eases_good [OF that a(1)] order_trans [OF eases_due [OF that] a(2)]])
  have "ends (\<lambda>n. maint_buf_add (Suc n) dp a)"
  proof (cases "neigh_tbl_query (dp_nxt_hop dp) a")
    case (Some q)
    obtain i asked rto where q: "q = (i, asked, rto)" by (metis prod.exhaust)
    show ?thesis
    proof (cases "maint_entry_create dp i rto a")
      case m: (Some m)
      let ?ask = "word_of_int (timeval_diff (dsr_gettime a) asked) > msec_usecs (MaintHoldoffTime (ag_conf a))"
      let ?a2 = "\<lambda>a1. if ?ask then neigh_tbl_id_inc (mt_nxt_hop m) (neigh_tbl_set_ack_req_time (mt_nxt_hop m)
        (maint_update (mt_key m) (\<lambda>m. m\<lparr>mt_ack_req_sent := True\<rparr>) a1)) else a1"
      have "ends (\<lambda>n. bindO (maint_insert m (a\<lparr>ag_key := ag_key a + 1\<rparr>)) (\<lambda>a1. bindO (maint_buf_set_timeout n (?a2 a1))
          (\<lambda>a3. Some (Inr (if ?ask then dsr_ack_req_opt_add (mt_id m) dp else dp, a3)))))"
      proof (rule ends_bindO)
        fix n a1 assume i: "maint_insert m (a\<lparr>ag_key := ag_key a + 1\<rparr>) = Some (Inr a1)"
        have 1: "eases {dp_nxt_hop dp} a a1" by (rule new_entry_eases [OF m i Some [unfolded q] a(1)])
        then have "eases {dp_nxt_hop dp} a (?a2 a1)" using eases_trans [OF 1 asked_eases] by simp
        then show "ends (\<lambda>n. bindO (maint_buf_set_timeout n (?a2 a1))
            (\<lambda>a3. Some (Inr (if ?ask then dsr_ack_req_opt_add (mt_id m) dp else dp, a3))))" by (rule next_step)
      qed (simp_all add: steps_total(3))
      then show ?thesis using Some m q by (cases "has_flag dp PKT_REQUEST_ACK") (simp_all add: maint_buf_add.simps(2) Let_def)
    qed (use Some q in \<open>cases "has_flag dp PKT_REQUEST_ACK"; simp add: maint_buf_add.simps(2)\<close>)
  qed (cases "has_flag dp PKT_REQUEST_ACK"; simp add: maint_buf_add.simps(2))
  then show ?thesis using ends_Suc [of "\<lambda>n. maint_buf_add n dp a"] by simp
qed

lemma xmit_ends:
  assumes C: "ends (\<lambda>n. maint_buf_add n dp a)" shows "ends (\<lambda>n. omnet_xmit n dp a)"
proof -
  have "ends (\<lambda>n. bindO (maint_buf_add n dp a) (\<lambda>(dp', a'). xmit_now dp' a'))"
    by (rule ends_bindO) (use C steps_total(1) in \<open>auto split: prod.split\<close>)
  then have "ends (\<lambda>n. omnet_xmit (Suc n) dp a)" using steps_total(1) [of dp a]
    by (cases "has_flag dp PKT_REQUEST_ACK") (simp_all add: omnet_xmit.simps(2))
  then show ?thesis using ends_Suc [of "\<lambda>n. omnet_xmit n dp a"] by simp
qed

lemma salvage_ends:
  assumes a: "good a" "due a \<le> d" and C: "\<And>b dp. good b \<Longrightarrow> due b \<le> d \<Longrightarrow> ends (\<lambda>n. omnet_xmit n dp b)"
  shows "ends (\<lambda>n. maint_buf_salvage n dp a)"
proof -
  have plain: "plain_cache (ag_db a)" using a by (simp add: good_def)
  have "ends (\<lambda>n. maint_buf_salvage (Suc n) dp a)"
    unfolding maint_buf_salvage.simps(2)
  proof (rule ends_bindO)
    fix n x assume x: "salvage_packet dp a = Some (Inr x)"
    obtain r b where rb: "x = (r, b)" by force
    have ab: "eases {} a b" using salvage_eases [OF plain x [unfolded rb]] by blast
    show "ends (\<lambda>n. case x of (r, a1) \<Rightarrow> case r of None \<Rightarrow> Some (Inr (drop_payload (dp_payload dp) a1)) | Some dp' \<Rightarrow> omnet_xmit n dp' a1)"
      using C [OF eases_good [OF ab a(1)] order_trans [OF eases_due [OF ab] a(2)]] unfolding rb by (cases r) simp_all
  qed (simp_all add: steps_total(4) [OF plain])
  then show ?thesis using ends_Suc [of "\<lambda>n. maint_buf_salvage n dp a"] by simp
qed

text \<open>The timer, when the calls with less due end.\<close>

lemma set_timeout_late:
  assumes "maint_buf a = [] \<or> \<not> fst (hd (maint_buf a)) \<le> ag_time a + 1 / 10000"
  shows "ends (\<lambda>n. maint_buf_set_timeout n a)"
proof -
  have "ends (\<lambda>n. maint_buf_set_timeout (Suc n) a)"
    using assms unfolding maint_buf_set_timeout.simps(2) by (cases "maint_buf a") (simp_all add: case_prod_beta)
  then show ?thesis using ends_Suc [of "\<lambda>n. maint_buf_set_timeout n a"] by simp
qed

lemma sent_again_ends:
  assumes C: "calls_end (due a - 1)" and a: "good a"
    and buf: "maint_buf a = (t, m) # r" and t: "t \<le> ag_time a + 1 / 10000"
  shows "ends (\<lambda>n. bindO (ask_again (again a m) (a\<lparr>maint_buf := r\<rparr>)) (\<lambda>a2.
    bindO (maint_insert (again a m) (a2\<lparr>ag_key := ag_key a2 + 1\<rparr>)) (maint_buf_set_timeout n)))"
proof (rule ends_bindO)
  fix n a2 assume a2: "ask_again (again a m) (a\<lparr>maint_buf := r\<rparr>) = Some (Inr a2)"
  show "ends (\<lambda>n. bindO (maint_insert (again a m) (a2\<lparr>ag_key := ag_key a2 + 1\<rparr>)) (maint_buf_set_timeout n))"
  proof (rule ends_bindO)
    fix n a3 assume "maint_insert (again a m) (a2\<lparr>ag_key := ag_key a2 + 1\<rparr>) = Some (Inr a3)"
    from send_again_eases [OF buf t a a2 this] have "eases {} a a3" "due a3 < due a" by blast+
    then show "ends (\<lambda>n. maint_buf_set_timeout n a3)" using calls_endD(2) [OF C eases_good [OF _ a]] by simp
  qed (simp_all add: steps_total(3))
qed (simp_all add: steps_total(2))

lemma timeout_ends:
  assumes C: "0 < due a \<Longrightarrow> calls_end (due a - 1)" and a: "good a"
  shows "ends (\<lambda>n. maint_buf_timeout n a)"
proof -
  have "ends (\<lambda>n. maint_buf_timeout (Suc n) a)"
  proof (cases "ack_timer a \<noteq> None \<or> maint_buf a = [] \<or> \<not> fst (hd (maint_buf a)) \<le> ag_time a + 1 / 10000")
    case True
    then show ?thesis using set_timeout_late [of a] unfolding maint_buf_timeout_Suc
      by (cases "ack_timer a"; cases "maint_buf a") (auto simp: case_prod_beta)
  next
    case False
    then obtain t m r where buf: "maint_buf a = (t, m) # r" and t: "t \<le> ag_time a + 1 / 10000"
      by (cases "maint_buf a") auto
    have fewer: "due (a\<lparr>maint_buf := r\<rparr>) < due a" by (rule tail_eases(2) [OF buf t])
    then have d: "calls_end (due a - 1)" using C by simp
    have "ends (\<lambda>n. neighbour_lost n m' (a\<lparr>maint_buf := r\<rparr>))" for m'
      using lost_ends [OF d eases_good [OF tail_eases(1) [OF buf] a]] fewer by simp
    then show ?thesis using False buf t sent_again_ends [OF d a buf t]
      by (cases "MaxMaintRexmt (ag_conf a) \<le> mt_rexmt m + 1") (simp_all add: maint_buf_timeout_Suc)
  qed
  then show ?thesis using ends_Suc [of "\<lambda>n. maint_buf_timeout n a"] by simp
qed

lemma set_timeout_ends:
  assumes "ends (\<lambda>n. maint_buf_timeout n a)" shows "ends (\<lambda>n. maint_buf_set_timeout n a)"
proof -
  have "ends (\<lambda>n. maint_buf_set_timeout (Suc n) a)"
    using assms unfolding maint_buf_set_timeout.simps(2)
    by (cases "maint_buf a"; cases "fst (hd (maint_buf a)) \<le> ag_time a + 1 / 10000") (simp_all add: case_prod_beta)
  then show ?thesis using ends_Suc [of "\<lambda>n. maint_buf_set_timeout n a"] by simp
qed

text \<open>The calls with less due first; then the timer, and what calls it.\<close>

lemma calls_end: "calls_end d"
proof (induction d rule: less_induct)
  case (less d)
  have timeout: "ends (\<lambda>n. maint_buf_timeout n a)" if "good a" "due a \<le> d" for a
    using timeout_ends [OF less that(1)] that(2) by simp
  have set_timeout: "ends (\<lambda>n. maint_buf_set_timeout n a)" if "good a" "due a \<le> d" for a
    by (rule set_timeout_ends [OF timeout [OF that]])
  have add: "ends (\<lambda>n. maint_buf_add n dp a)" if "good a" "due a \<le> d" for dp a
    by (rule add_ends [OF that set_timeout])
  have xmit: "ends (\<lambda>n. omnet_xmit n dp a)" if "good a" "due a \<le> d" for dp a
    by (rule xmit_ends [OF add [OF that]])
  have salvage: "ends (\<lambda>n. maint_buf_salvage n dp a)" if "good a" "due a \<le> d" for dp a
    by (rule salvage_ends [OF that xmit])
  show ?case
    unfolding calls_end_def using timeout set_timeout add xmit salvage others_end [OF salvage] by blast
qed

end
