(* ===== verification/Dsr_Learn.thy ===== *)
theory Dsr_Learn
  imports Dsr_Ends Dsr_Agent_Inv
begin

text \<open>
  What a node learns stays short: the routes it records are parts of the source route it records, and
  the source routes are not longer than the lists of addresses of the options they come from.
\<close>

subsection \<open>Recorded routes\<close>

lemma stored_put: "stored (smap_put t ps c) \<subseteq> {(t, r) |r. r \<in> p_route ` set ps} \<union> stored c"
  using set_smap_put [of t ps c] unfolding stored_def by blast

lemma stored_setPath: "stored (setPath now t r v k s tmo c) \<subseteq> insert (t, r) (stored c)"
proof -
  let ?ps = "case smap_find c t of None \<Rightarrow> [] | Some ps \<Rightarrow> ps"
  let ?upd = "\<lambda>p :: path. p\<lparr>p_vector_cost := v, p_cost := k, p_status := s, p_expires := now + usecs tmo\<rparr>"
  have "p_route ` set (fst (set_loop now r ?upd ?ps)) \<subseteq> p_route ` set ?ps" by (rule set_loop_kept) simp
  moreover have "(t, u) \<in> stored c" if "u \<in> p_route ` set ?ps" for u
    using that by (cases "smap_find c t") (auto simp: stored_def dest: map_of_SomeD)
  ultimately have kept: "\<And>u. u \<in> p_route ` set (fst (set_loop now r ?upd ?ps)) \<Longrightarrow> (t, u) \<in> stored c" by blast
  obtain qs where qs: "setPath now t r v k s tmo c = smap_put t qs c"
    "p_route ` set qs \<subseteq> insert r (p_route ` set (fst (set_loop now r ?upd ?ps)))"
    by (cases "snd (set_loop now r ?upd ?ps)") (auto simp: setPath_def Let_def case_prod_beta new_path_def)
  show ?thesis unfolding qs(1) using stored_put [of t qs c] qs(2) kept by blast
qed

definition short_cache :: "paths_cache \<Rightarrow> bool" where
  "short_cache c \<longleftrightarrow> smap_ok c \<and> (\<forall>(t, r)\<in>stored c. length r < 64 \<and> set r \<subseteq> range IPv4)"

lemma plain_short: "plain_cache d \<longleftrightarrow> pathCacheConf d \<and> \<not> etxActive d \<and> short_cache (paths d)"
  by (auto simp: plain_cache_def short_cache_def)

lemma short_setPath:
  assumes "short_cache c" "length r < 64" "set r \<subseteq> range IPv4"
  shows "short_cache (setPath now t r v k s tmo c)"
proof -
  have "smap_ok (setPath now t r v k s tmo c)"
    using assms(1) by (simp add: short_cache_def setPath_def Let_def case_prod_beta)
  moreover have "length u < 64 \<and> set u \<subseteq> range IPv4" if "(x, u) \<in> stored (setPath now t r v k s tmo c)" for x u
  proof -
    have "(x, u) = (t, r) \<or> (x, u) \<in> stored c" using that stored_setPath by blast
    then show ?thesis using assms by (auto simp: short_cache_def)
  qed
  ultimately show ?thesis unfolding short_cache_def by blast
qed

lemma short_prefixes:
  assumes "set_prefixes now etx dests r v tmo c = Inr c'" "short_cache c" "length r < 64" "set r \<subseteq> range IPv4"
  shows "short_cache c'"
proof (rule foldE_invariant [where P = short_cache, OF assms(1) [unfolded set_prefixes_def] assms(2)])
  fix c1 i c2
  assume "short_cache c1" and "(if length dests \<le> i then Inl BadAccess
    else let subRoute = take i r; subCost = (if etx \<and> i + 1 < length v then take (i + 1) v else [])
      in Inr (setPath now (dests ! i) subRoute subCost (of_nat (length subRoute + 1)) 0 tmo c1)) = Inr c2"
  moreover have "length (take i r) < 64" "set (take i r) \<subseteq> range IPv4"
    using assms(3) set_take_ipv4 [OF assms(4)] by simp_all
  ultimately show "short_cache c2" using short_setPath by (auto simp only: Let_def sum.inject split: if_splits)
qed

lemma short_routes:
  "length (srt_addrs srt) < 64 \<Longrightarrow> length (srt_route me srt) < 64 \<and> length (srt_route2 me srt) < 64"
  by (auto simp: srt_route_def srt_route2_def split: option.split)

lemma short_then_set:
  assumes "bindE (set_prefixes now etx dests r v tmo c) (\<lambda>c1. Inr (if P then setPath now t r w k 0 tmo c1 else c1)) = Inr c'"
    and "short_cache c" "length r < 64" "set r \<subseteq> range IPv4"
  shows "short_cache c'"
proof -
  obtain c1 where c1: "set_prefixes now etx dests r v tmo c = Inr c1" "c' = (if P then setPath now t r w k 0 tmo c1 else c1)"
    using assms(1) by (auto elim!: bindE_InrE)
  show ?thesis using short_setPath [OF short_prefixes [OF c1(1) assms(2-4)] assms(3,4)] short_prefixes [OF c1(1) assms(2-4)]
    by (simp add: c1(2))
qed

lemma short_forwards:
  "add_forwards now etx me srt tmo c = Inr c' \<Longrightarrow> short_cache c \<Longrightarrow> length (srt_addrs srt) < 64 \<Longrightarrow> short_cache c'"
  unfolding add_forwards_def by (rule short_then_set [OF _ _ _ srt_routes_ipv4(1)]) (use short_routes in blast)+

lemma short_backwards:
  "add_backwards now etx me srt tmo c = Inr c' \<Longrightarrow> short_cache c \<Longrightarrow> length (srt_addrs srt) < 64 \<Longrightarrow> short_cache c'"
  unfolding add_backwards_def by (rule short_then_set [OF _ _ _ srt_routes_ipv4(2)]) (use short_routes in blast)+

lemma plain_add_map:
  assumes r: "ph_srt_add_map now (Some srt) t f False d = Inr d'" and d: "plain_cache d" and n: "length (srt_addrs srt) < 64"
  shows "plain_cache d'"
proof -
  define d1 where "d1 = (if isPathCacheEmpty (paths d) then d\<lparr>nextPurge := now + wide_usecs t\<rparr> else d)"
  have d1: "short_cache (paths d1)" using d by (simp add: d1_def plain_short)
  from r obtain c2 where
    2: "add_forwards now (etxActive d) (my_addr d) srt (narrow t) (paths d1) = Inr c2"
    and 3: "(if srt_is_first (my_addr d) srt then Inr (d1\<lparr>paths := c2\<rparr>)
             else if (srt_flags srt AND SRT_BIDIR) AND f \<noteq> 0
             then bindE (add_backwards now (etxActive d) (my_addr d) srt (narrow t) c2) (\<lambda>c3. Inr (d1\<lparr>paths := c3\<rparr>))
             else Inr (d1\<lparr>paths := c2\<rparr>)) = Inr d'"
    unfolding ph_srt_add_map_def option.case Let_def d1_def [symmetric] bindE_Inr_iff
    by (auto split: if_split_asm simp: bindE_Inr_iff)
  have "short_cache c2" by (rule short_forwards [OF 2 d1 n])
  then have "short_cache (paths d')" using 3 short_backwards [OF _ _ n] by (auto split: if_splits elim!: bindE_InrE)
  then show ?thesis using d ph_srt_add_map_conf [OF r] by (simp add: plain_short db_conf_def)
qed

lemma plain_RouteAdd:
  assumes "RouteAdd now (Some srt) t f d = Inr d'" "plain_cache d" "length (srt_addrs srt) < 64"
  shows "plain_cache d'"
proof -
  have "ph_srt_add_map now (Some srt) t f False d = Inr d'" using assms(1,2) by (simp add: RouteAdd_def plain_cache_def)
  then show ?thesis by (rule plain_add_map [OF _ assms(2,3)])
qed

lemma plain_node: "plain_cache d \<Longrightarrow> plain_cache (ph_srt_add_node_map now x t d)"
  using short_setPath [of "paths d" "[]"] by (simp add: plain_short ph_srt_add_node_map_def)

lemma plain_clean: "cleanAllDataBase d = Inr d' \<Longrightarrow> plain_cache d \<Longrightarrow> plain_cache d'"
  by (auto simp: cleanAllDataBase_def cleanAllPaths_def plain_cache_def stored_def elim!: bindE_InrE)

subsection \<open>The length of source routes\<close>

lemma rev_length: "dsr_srt_new_rev srt = Inr r \<Longrightarrow> length (srt_addrs r) = length (srt_addrs srt)"
  by (auto simp: dsr_srt_new_rev_def split: if_splits)

lemma shift_length: "shift_down k m as = Inr as' \<Longrightarrow> length as' = length as"
proof -
  have "length (bs :: 'x list) = length as" if "foldE (\<lambda>as i. bindE (vec_at as (int i)) (vec_set as (int i - int (k + 1)))) xs as = Inr bs"
    for bs as :: "'x list" and xs using that
  proof (induction xs arbitrary: as)
    case (Cons x xs)
    then show ?case by (auto simp: vec_set_def elim!: bindE_InrE split: if_splits)
  qed simp
  then show "shift_down k m as = Inr as' \<Longrightarrow> length as' = length as" unfolding shift_down_def by blast
qed

lemma mapE_length: "mapE f xs = Inr ys \<Longrightarrow> length ys = length xs"
  by (induction xs arbitrary: ys) (auto elim!: bindE_InrE)

lemma split_dest_length:
  assumes r: "split_dest srt addr src l = Inr (Some r)" and n: "srt_n srt = length (srt_addrs srt)" and l: "- 2 \<le> l"
  shows "length (srt_addrs r) \<le> length (srt_addrs srt) + 1"
proof -
  define m where "m = nat (int (srt_n srt) - l - 1)"
  define as where "as = (if addr = srt_src srt \<and> addr \<noteq> src then srt_src srt # srt_addrs srt else drop (nat (l + 1)) (srt_addrs srt))"
  obtain la where la: "foldE (dest_loop srt src m) [0..<m] (as, of_nat (DSR_ADDRESS_SIZE * m)) = Inr (srt_addrs r, la)"
    using r by (auto simp: split_dest_def Let_def m_def as_def elim!: bindE_InrE split: if_splits)
  have m: "m \<le> length (srt_addrs srt) + 1" using l by (simp add: m_def n)
  have "length (fst (srt_addrs r, la)) \<le> length (srt_addrs srt) + 1"
  proof (rule foldE_invariant [OF la, of "\<lambda>st. length (fst st) \<le> length (srt_addrs srt) + 1"])
    show "length (fst (as, of_nat (DSR_ADDRESS_SIZE * m) :: 32 word)) \<le> length (srt_addrs srt) + 1"
      by (simp add: as_def) (simp add: le_SucI)
  next
    fix st k st' assume "length (fst st) \<le> length (srt_addrs srt) + 1" "dest_loop srt src m st k = Inr st'"
    then show "length (fst st') \<le> length (srt_addrs srt) + 1"
      using m by (auto simp: dest_loop_def resize_def elim!: bindE_InrE split: if_splits)
  qed
  then show ?thesis by simp
qed

lemma split_src_length:
  assumes r: "split_src srt src l = Inr (Some r)" shows "length (srt_addrs r) = l"
proof -
  obtain as cs cs' la where as: "mapE (\<lambda>k. vec_at (srt_addrs srt) (int (l - k - 1))) [0..<l] = Inr as"
    and la: "foldE (src_loop src l) [0..<l] (as, cs, of_nat (DSR_ADDRESS_SIZE * l)) = Inr (srt_addrs r, cs', la)"
    using r by (auto simp: split_src_def elim!: bindE_InrE split: if_splits)
  have "length (fst (srt_addrs r, cs', la)) = l"
  proof (rule foldE_invariant [OF la, of "\<lambda>st. length (fst st) = l"])
    show "length (fst (as, cs, of_nat (DSR_ADDRESS_SIZE * l) :: 32 word)) = l" using mapE_length [OF as] by simp
  next
    fix st k st' assume "length (fst st) = l" "src_loop src l st k = Inr st'"
    then show "length (fst st') = l"
      by (cases st) (auto simp: src_loop_def elim!: bindE_InrE split: if_splits, (metis shift_length)+)
  qed
  then show ?thesis by simp
qed

lemma split_both_length:
  assumes s: "dsr_srt_split_both srt addr src = Inr (d, b)"
  shows "d = Some r \<Longrightarrow> length (srt_addrs r) \<le> length (srt_addrs srt) + 1"
    and "b = Some r \<Longrightarrow> length (srt_addrs r) \<le> length (srt_addrs srt) + 1"
proof -
  have i: "addr_pos x as = Some i \<Longrightarrow> i \<le> length as" for i x as
    by (auto simp: addr_pos_def length_takeWhile_le split: if_splits)
  show "d = Some r \<Longrightarrow> length (srt_addrs r) \<le> length (srt_addrs srt) + 1"
    using s by (auto simp: dsr_srt_split_both_def Let_def elim!: bindE_InrE split: if_splits option.splits
        dest!: split_dest_length i)
  show "b = Some r \<Longrightarrow> length (srt_addrs r) \<le> length (srt_addrs srt) + 1"
    using s by (auto simp: dsr_srt_split_both_def Let_def elim!: bindE_InrE split: if_splits option.splits
        dest!: split_src_length i)
qed

end
