(* ===== verification/Dsr_Returns.thy ===== *)
theory Dsr_Returns
  imports Dsr_Learn Dsr_Agent_Spec
begin

text \<open>
  Every event of a DSR node with the path cache returns.  A function of the fuel is fine when more fuel
  does not change its result, enough fuel gives one, and a result that is no error satisfies the
  condition; each handler is fine for the states the node stays in.
\<close>

subsection \<open>Fine functions\<close>

definition fine :: "('a \<Rightarrow> bool) \<Rightarrow> (nat \<Rightarrow> 'a outcome) \<Rightarrow> bool" where
  "fine Q F \<longleftrightarrow> gains F \<and> ends F \<and> (\<forall>n r. F n = Some (Inr r) \<longrightarrow> Q r)"

lemma fine_mono: "fine P F \<Longrightarrow> (\<And>r. P r \<Longrightarrow> Q r) \<Longrightarrow> fine Q F"
  by (auto simp: fine_def)

lemma fine_const: "m \<noteq> None \<Longrightarrow> (\<And>r. m = Some (Inr r) \<Longrightarrow> Q r) \<Longrightarrow> fine Q (\<lambda>_. m)"
  by (auto simp: fine_def)

lemma fine_ret: "Q x \<Longrightarrow> fine Q (\<lambda>_. Some (Inr x))"
  by (rule fine_const) auto

lemma fine_err: "fine Q (\<lambda>_. Some (Inl e))"
  by (rule fine_const) auto

lemma fine_bindO:
  assumes F: "fine P F" and G: "\<And>a. P a \<Longrightarrow> fine Q (\<lambda>n. G n a)"
  shows "fine Q (\<lambda>n. bindO (F n) (G n))"
proof -
  have "ext (bindO (F n) (G n)) (bindO (F k) (G k))" if "n \<le> k" for n k
  proof -
    have f: "ext (F n) (F k)" using F that by (simp add: fine_def gains_def)
    show ?thesis
    proof (cases "\<exists>a. F n = Some (Inr a)")
      case True
      then obtain a where a: "F n = Some (Inr a)" by blast
      then have "fine Q (\<lambda>n. G n a)" using F G by (auto simp: fine_def)
      then have "ext (G n a) (G k a)" using that by (simp add: fine_def gains_def)
      then show ?thesis using f a by (simp add: ext_def)
    next
      case False
      then show ?thesis using f by (cases "F n") (auto simp: ext_def bindO_def split: sum.splits)
    qed
  qed
  moreover have "ends (\<lambda>n. bindO (F n) (G n))"
    by (rule ends_bindO) (use F G in \<open>auto simp: fine_def\<close>)
  moreover have "Q r" if "bindO (F n) (G n) = Some (Inr r)" for n r
    using that F G by (auto simp: fine_def elim!: bindO_InrE)
  ultimately show ?thesis by (auto simp: fine_def gains_def)
qed

lemma fine_if: "(P \<Longrightarrow> fine Q F) \<Longrightarrow> (\<not> P \<Longrightarrow> fine Q G) \<Longrightarrow> fine Q (\<lambda>n. if P then F n else G n)"
  by (cases P) simp_all

lemma fine_option: "(m = None \<Longrightarrow> fine Q F) \<Longrightarrow> (\<And>x. m = Some x \<Longrightarrow> fine Q (\<lambda>n. G n x))
    \<Longrightarrow> fine Q (\<lambda>n. case m of None \<Rightarrow> F n | Some x \<Rightarrow> G n x)"
  by (cases m) simp_all

lemma fine_prod: "(\<And>x y. p = (x, y) \<Longrightarrow> fine Q (\<lambda>n. G n x y)) \<Longrightarrow> fine Q (\<lambda>n. case p of (x, y) \<Rightarrow> G n x y)"
  by (cases p) simp

lemma fine_foldO:
  assumes "\<And>a x. x \<in> set xs \<Longrightarrow> P a \<Longrightarrow> fine P (\<lambda>n. f n a x)" and "P a"
  shows "fine P (\<lambda>n. foldO (f n) xs a)"
  using assms
proof (induction xs arbitrary: a)
  case (Cons x xs)
  have "fine P (\<lambda>n. bindO (f n a x) (foldO (f n) xs))"
    by (rule fine_bindO [OF Cons.prems(1) [OF _ Cons.prems(2)]]) (use Cons in auto)
  then show ?case by simp
qed (simp add: fine_ret)

lemma bind_pure: "(\<And>x. z = Inr x \<Longrightarrow> fine Q (\<lambda>n. G n x)) \<Longrightarrow> fine Q (\<lambda>n. bindO (Some z) (G n))"
  by (cases z) (simp_all add: fine_err)

subsection \<open>The states a node stays in\<close>

definition dsr_ready :: "agent \<Rightarrow> bool" where
  "dsr_ready a \<longleftrightarrow> plain_cache (ag_db a) \<and> agent_inv UNIV a \<and> RREQMulVisit (ag_conf a) = 0"

lemma ready_good: "dsr_ready a \<Longrightarrow> good a"
  by (simp add: dsr_ready_def good_def agent_inv_def)

lemma ready_step: "dsr_ready a \<Longrightarrow> agent_rel a b \<Longrightarrow> plain_cache (ag_db b) \<Longrightarrow> dsr_ready b"
  by (auto simp: dsr_ready_def agent_rel_def agent_view_def)

lemma ready_eases: "dsr_ready a \<Longrightarrow> eases Y a b \<Longrightarrow> dsr_ready b"
  using ready_step [of a b] eases_good [of Y a b] ready_good [of a]
  by (auto simp: eases_def good_def intro: maint_agent_rel)

lemma ready_tables: "dsr_ready a \<Longrightarrow> agent_rel a b \<Longrightarrow> ag_db b = ag_db a \<Longrightarrow> dsr_ready b"
  by (rule ready_step) (simp_all add: dsr_ready_def)

lemma bind_ready: "fine dsr_ready F \<Longrightarrow> (\<And>b. dsr_ready b \<Longrightarrow> fine Q (\<lambda>n. G n b)) \<Longrightarrow> fine Q (\<lambda>n. bindO (F n) (G n))"
  by (rule fine_bindO)

text \<open>The six functions of the maintenance buffer, and the calls to the path cache.\<close>

lemma fine_calls:
  assumes a: "dsr_ready a"
  shows "fine dsr_ready (\<lambda>n. omnet_xmit n dp a)" "fine dsr_ready (\<lambda>n. maint_buf_set_timeout n a)"
    "fine dsr_ready (\<lambda>n. maint_buf_timeout n a)" "fine dsr_ready (\<lambda>n. maint_buf_salvage n dp a)"
proof -
  note g = ready_good [OF a] and E = calls_endD [OF calls_end [of "due a"] ready_good [OF a] order_refl]
  note R = ready_eases [OF a eases_calls(1) [OF g]] ready_eases [OF a eases_calls(3) [OF g]]
    ready_eases [OF a eases_calls(4) [OF g]] ready_eases [OF a eases_calls(5) [OF g]]
  show "fine dsr_ready (\<lambda>n. omnet_xmit n dp a)" using E(3) R(1) by (auto simp: fine_def)
  show "fine dsr_ready (\<lambda>n. maint_buf_set_timeout n a)" using E(2) R(2) by (auto simp: fine_def)
  show "fine dsr_ready (\<lambda>n. maint_buf_timeout n a)" using E(1) R(3) by (auto simp: fine_def)
  show "fine dsr_ready (\<lambda>n. maint_buf_salvage n dp a)" using E(5) R(4) by (auto simp: fine_def)
qed

lemma bind_find:
  assumes a: "dsr_ready a" and G: "\<And>r b. dsr_ready b \<Longrightarrow> fine Q (\<lambda>n. G n (r, b))"
  shows "fine Q (\<lambda>n. bindO (dsr_rtc_find src dst a) (G n))"
proof -
  have plain: "plain_cache (ag_db a)" using a by (simp add: dsr_ready_def)
  have "fine (\<lambda>(r, b). dsr_ready b) (\<lambda>_. dsr_rtc_find src dst a)"
    using plain_rtc_find(1) [OF plain] find_eases [OF plain] ready_eases [OF a] by (intro fine_const) auto
  then show ?thesis by (rule fine_bindO) (use G in auto)
qed

lemma fine_add:
  assumes a: "dsr_ready a" and n: "length (srt_addrs srt) < 64" shows "fine dsr_ready (\<lambda>_. dsr_rtc_add srt a)"
proof (rule fine_const)
  show "dsr_rtc_add srt a \<noteq> None" by (simp add: dsr_rtc_add_def)
  fix b assume b: "dsr_rtc_add srt a = Some (Inr b)"
  have "plain_cache (ag_db b)" using b a plain_RouteAdd [OF _ _ n]
    by (auto simp: dsr_rtc_add_def dsr_ready_def elim!: bindE_InrE)
  then show "dsr_ready b" using ready_step [OF a maint_agent_rel [OF dsr_rtc_add_rel [OF b]]] by blast
qed

lemma ready_same: "dsr_ready a \<Longrightarrow> maint_rel a b \<Longrightarrow> ag_db b = ag_db a \<Longrightarrow> dsr_ready b"
  using ready_tables maint_agent_rel by blast

lemma fine_xmit: "dsr_ready a \<Longrightarrow> fine dsr_ready (\<lambda>_. xmit_now dp a)"
  by (rule fine_const) (auto simp: steps_total intro: ready_eases xmit_eases)

lemma ready_drop: "dsr_ready a \<Longrightarrow> dsr_ready (drop_payload p a)"
  by (rule ready_eases [OF _ drop_eases])

lemmas fine_rules = bind_pure bind_find bind_ready fine_if fine_option fine_prod fine_ret fine_err
  fine_calls fine_xmit ready_drop

subsection \<open>Waiting packets\<close>

lemma fine_send_waiting: "dsr_ready a \<Longrightarrow> fine dsr_ready (\<lambda>n. send_waiting n a e)"
  unfolding send_waiting_def
  by (intro fine_rules) auto

lemma fine_send_buf_send:
  assumes a: "dsr_ready a" shows "fine dsr_ready (\<lambda>n. send_buf_send n x a)"
  unfolding send_buf_send_def
proof (rule bind_ready)
  show "fine dsr_ready (\<lambda>n. foldO (send_waiting n) (waiting_for x a) a)"
    by (rule fine_foldO [OF fine_send_waiting a])
  fix b assume b: "dsr_ready b"
  show "fine dsr_ready (\<lambda>n. Some (Inr (b\<lparr>packetBuffer := filter (\<lambda>e. fst e \<noteq> x) (packetBuffer b)\<rparr>)))"
    by (intro fine_ret ready_tables [OF b] fewer_waiting_rel) auto
qed

lemma ready_drop_rreq: "dsr_ready a \<Longrightarrow> dsr_ready (drop_rreq x a)"
  by (rule ready_tables [OF _ drop_rreq_rel]) (simp_all add: drop_rreq_def)

lemma fine_flush: "dsr_ready a \<Longrightarrow> fine dsr_ready (\<lambda>n. flush_to n a x)"
  unfolding flush_to_def rreq_tbl_route_discovery_cancel_def
  by (intro bind_ready fine_send_buf_send fine_ret ready_drop_rreq)

lemma fine_flush_all: "dsr_ready a \<Longrightarrow> fine dsr_ready (\<lambda>n. foldO (flush_to n) xs a)"
  by (rule fine_foldO [OF fine_flush])

lemma fine_send_lists: "dsr_ready a \<Longrightarrow> fine dsr_ready (\<lambda>n. foldO (\<lambda>a x. send_buf_send n x a) xs a)"
  by (rule fine_foldO [OF fine_send_buf_send])

subsection \<open>Handlers of the options\<close>

text \<open>The options of a packet but for one.\<close>

definition same_opts :: "opt_ptr \<Rightarrow> dsr_pkt \<Rightarrow> dsr_pkt \<Rightarrow> bool" where
  "same_opts p dp dp' \<longleftrightarrow> (\<forall>q. q \<noteq> p \<longrightarrow> opt_at dp' q = opt_at dp q)"

definition kept :: "opt_ptr \<Rightarrow> dsr_pkt \<Rightarrow> action \<times> dsr_pkt \<times> agent \<Rightarrow> bool" where
  "kept p dp st \<longleftrightarrow> (case st of (_, dp', b) \<Rightarrow> dsr_ready b \<and> same_opts p dp dp')"

lemma opt_at_cong:
  assumes "map oh_option (dp_opth dp') = map oh_option (dp_opth dp)" shows "opt_at dp' q = opt_at dp q"
proof -
  have n: "length (dp_opth dp') = length (dp_opth dp)" using assms by (metis length_map)
  have "oh_option (dp_opth dp' ! i) = oh_option (dp_opth dp ! i)" if "i < length (dp_opth dp)" for i
    using arg_cong [OF assms, of "\<lambda>xs. xs ! i"] n that by simp
  then show ?thesis using n by (auto simp: opt_at_def split: prod.split)
qed

lemma same_opts_refl [simp]: "same_opts p dp dp"
  by (simp add: same_opts_def)

lemma same_opts_trans: "same_opts p a b \<Longrightarrow> same_opts p b c \<Longrightarrow> same_opts p a c"
  by (simp add: same_opts_def)

lemma same_opts_opth: "dp_opth dp' = dp_opth dp \<Longrightarrow> same_opts p dp dp'"
  using opt_at_cong [of dp' dp] by (simp add: same_opts_def)

lemma same_opts_set: "same_opts p dp (set_opt p x dp)"
proof -
  obtain i j where p: "p = (i, j)" by force
  have "opt_at (set_opt p x dp) (k, l) = opt_at dp (k, l)" if "(k, l) \<noteq> p" for k l
    using that by (cases "k = i"; cases "k < length (dp_opth dp)") (auto simp: p opt_at_def set_opt_def)
  then show ?thesis by (simp add: same_opts_def)
qed

lemma same_opts_forward: "same_opts p dp (fst (snd (rreq_forward p q dp a)))"
proof -
  let ?x = "RreqOpt (q\<lparr>rq_addrs := rq_addrs q @ [myaddr a], rq_length := rq_length q + 4\<rparr>)"
  have "map oh_option (dp_opth (fst (snd (rreq_forward p q dp a)))) = map oh_option (dp_opth (set_opt p ?x dp))"
    by (simp add: rreq_forward_def Let_def split: list.split)
  then show ?thesis using same_opts_set [of p dp ?x] opt_at_cong unfolding same_opts_def by metis
qed

lemma kept_forward: "dsr_ready a \<Longrightarrow> kept p dp (rreq_forward p q dp a)"
  using same_opts_forward [of p dp q a] by (simp add: kept_def rreq_forward_def)

lemma keptI: "dsr_ready b \<Longrightarrow> same_opts p dp dp' \<Longrightarrow> kept p dp (act, dp', b)"
  by (simp add: kept_def)

lemma fine_find: "dsr_ready a \<Longrightarrow> fine (\<lambda>(r, b). dsr_ready b) (\<lambda>_. dsr_rtc_find src dst a)"
  using plain_rtc_find(1) [of a] find_eases [of a] ready_eases [of a]
  by (intro fine_const) (auto simp: dsr_ready_def [of a])

lemma fine_rrep_send: "dsr_ready a \<Longrightarrow> fine dsr_ready (\<lambda>_. dsr_rrep_send s t a)"
  unfolding dsr_rrep_send_def by (intro bind_pure fine_xmit)

lemma fine_duplicate:
  assumes a: "dsr_ready a" shows "fine (\<lambda>(dup, b). dsr_ready b) (\<lambda>_. dsr_rreq_duplicate x t i len addrs a)"
proof (rule fine_const)
  have "dup_scan now 0 i addrs es \<noteq> None" for now es
    by (induction es) (auto simp: map_option_is_None)
  then show "dsr_rreq_duplicate x t i len addrs a \<noteq> None"
    using a by (simp add: dsr_rreq_duplicate_def dsr_ready_def Let_def)
  fix r assume r: "dsr_rreq_duplicate x t i len addrs a = Some (Inr r)"
  obtain dup b where b: "r = (dup, b)" by force
  have "ag_db b = ag_db a" using r b by (auto simp: dsr_rreq_duplicate_def Let_def split: if_splits)
  then show "case r of (dup, b) \<Rightarrow> dsr_ready b" using ready_tables [OF a duplicate_rel(1)] r b by auto
qed

lemma fine_add_id:
  assumes a: "dsr_ready a" shows "fine dsr_ready (\<lambda>_. rreq_tbl_add_id x t i c as len a)"
proof (rule fine_const)
  show "rreq_tbl_add_id x t i c as len a \<noteq> None" by (simp add: rreq_tbl_add_id_def)
  fix b assume b: "rreq_tbl_add_id x t i c as len a = Some (Inr b)"
  have "ag_db b = ag_db a" using b by (auto simp: rreq_tbl_add_id_def put_rreq_def elim!: bindE_InrE)
  then show "dsr_ready b" using add_id_ok(1) [OF b] add_id_ok(2) [OF b, of UNIV] a
    by (simp add: dsr_ready_def agent_view_def)
qed

lemma fine_rreq_answer:
  assumes a: "dsr_ready a" shows "fine (kept p dp) (\<lambda>_. rreq_answer p q srt srt_rev dp a)"
proof -
  have "fine (\<lambda>(r, b). dsr_ready b) (\<lambda>_. if RREPDestinationOnly (ag_conf a) then Some (Inr (None, a)) else dsr_rtc_find (myaddr a) t a)" for t
    using fine_find [OF a] by (simp add: fine_ret a)
  note find = fine_bindO [OF this]
  have daddr: "same_opts p dp (set_daddr x dp)" for x by (rule same_opts_opth) (simp add: set_daddr_def)
  show ?thesis
    unfolding rreq_answer_def Let_def
    by (intro fine_if bind_ready fine_rrep_send fine_ret keptI daddr a bind_pure find same_opts_refl)
      (auto intro!: fine_option fine_ret kept_forward bind_pure fine_if bind_ready fine_rrep_send keptI daddr)
qed

lemma fine_rreq_learn:
  assumes a: "dsr_ready a" and n: "length (rq_addrs q) < 64"
  shows "fine (\<lambda>(srt, srt_rev, dp', b). dsr_ready b \<and> dp_opth dp' = dp_opth dp) (\<lambda>n. rreq_learn n q dp a)"
proof -
  have neigh: "dsr_ready b \<Longrightarrow> dsr_ready (neigh_tbl_add x h b)" for x h b
    by (rule ready_same [OF _ neigh_tbl_add_rel]) (simp_all add: neigh_tbl_add_def split: option.split)
  have short: "length (srt_addrs r) < 64" if "dsr_srt_new s d l (rq_addrs q) cs = Inr srt" "dsr_srt_new_rev srt = Inr r" for s d l cs srt r
  proof -
    have "srt_addrs srt = rq_addrs q" using that(1) by (auto simp: dsr_srt_new_def elim!: bindE_InrE)
    then show ?thesis using rev_length [OF that(2)] n by simp
  qed
  show ?thesis
    unfolding rreq_learn_def Let_def
    apply (rule bind_pure)
    apply (rule fine_prod)
    apply (rule bind_ready)
     apply (rule fine_add [OF a])
     apply (auto elim!: bindE_InrE dest: short) []
    apply (intro bind_pure bind_ready fine_flush_all fine_flush neigh fine_ret)
    apply (auto simp: ExpandCost_def Let_def)
    done
qed

lemma kept_trans:
  assumes "dp_opth dp' = dp_opth dp" "kept p dp' st" shows "kept p dp st"
  using same_opts_trans [OF same_opts_opth [OF assms(1)]] assms(2) by (simp add: kept_def split: prod.splits)

lemma fine_rreq_recv:
  assumes a: "dsr_ready a" and n: "length (rq_addrs q) < 64"
  shows "fine (kept p dp) (\<lambda>n. dsr_rreq_opt_recv n p q dp a)"
proof -
  let ?dp1 = "dp\<lparr>dp_rreq_opt := dp_rreq_opt dp @ [p]\<rparr>"
  have o: "same_opts p dp ?dp1" by (rule same_opts_opth) simp
  have answer: "fine (kept p dp) (\<lambda>_. rreq_answer p q srt srt_rev dp2 b)" if "dsr_ready b" "dp_opth dp2 = dp_opth dp" for srt srt_rev dp2 b
    using fine_mono [OF fine_rreq_answer [OF that(1)] kept_trans [OF that(2)]] .
  have rest: "fine (kept p dp) (\<lambda>n. bindO (rreq_learn n q ?dp1 b) (\<lambda>(srt, srt_rev, dp2, a3). rreq_answer p q srt srt_rev dp2 a3))"
    if "dsr_ready b" for b
    by (rule fine_bindO [OF fine_rreq_learn [OF that n]]) (auto intro!: answer)
  show ?thesis
    unfolding dsr_rreq_opt_recv_def Let_def
    apply (intro fine_if fine_ret keptI a same_opts_refl)
    apply (rule fine_bindO [where P = "\<lambda>_. True"])
     apply (rule fine_const)
      apply simp
     apply simp
    apply (intro fine_if fine_ret keptI a o fine_option fine_err)
    apply (rule fine_bindO [OF fine_duplicate [OF a]])
    apply (auto intro!: fine_if fine_ret keptI o bind_ready fine_add_id rest)
    done
qed

lemma fine_rrep_recv:
  assumes a: "dsr_ready a" and n: "length (rp_addrs r) < 64"
  shows "fine (kept p dp) (\<lambda>_. dsr_rrep_opt_recv p r dp a)"
proof -
  have same: "rp_addrs r1 = rp_addrs r" if "(if x then ActualizeMyCostRrep a r else Inr r) = Inr r1" for x r1
    using that by (auto simp: ActualizeMyCostRrep_def Let_def elim!: bindE_InrE split: if_splits)
  have new: "length (srt_addrs srt) < 64" if "dsr_srt_new s d l (butlast (rp_addrs r)) cs = Inr srt" for s d l cs srt
    using that n by (auto simp: dsr_srt_new_def elim!: bindE_InrE)
  have o: "same_opts p dp (set_opt p x (dp\<lparr>dp_rrep_opt := l\<rparr>))" for x l
    by (rule same_opts_trans [OF same_opts_opth same_opts_set]) simp
  show ?thesis
    unfolding dsr_rrep_opt_recv_def Let_def rreq_tbl_route_discovery_cancel_def
    apply (intro fine_if fine_ret keptI a same_opts_refl fine_err bind_pure bind_ready fine_add)
     apply (use same new in fastforce)
    apply (intro fine_ret keptI ready_drop_rreq)
     apply assumption
    apply (rule o)
    done
qed

lemma fine_del_all:
  assumes a: "dsr_ready a"
  shows "fine dsr_ready (\<lambda>n. maint_buf_del_all n x a)" "fine dsr_ready (\<lambda>n. maint_buf_del_all_id n x i a)"
proof -
  have d: "dsr_ready (maint_delete P a)" for P
    by (rule ready_same [OF a maint_delete_rel]) (simp add: maint_delete_def)
  have r: "dsr_ready b \<Longrightarrow> dsr_ready (neigh_tbl_set_rto x t b)" for b t
    by (rule ready_same [OF _ neigh_ops_rel(3)]) (simp_all add: neigh_tbl_set_rto_def neigh_update_def split: option.split)
  show "fine dsr_ready (\<lambda>n. maint_buf_del_all n x a)"
    unfolding maint_buf_del_all_def by (rule fine_calls(2) [OF d])
  show "fine dsr_ready (\<lambda>n. maint_buf_del_all_id n x i a)"
    unfolding maint_buf_del_all_id_def Let_def by (rule fine_calls(2)) (simp add: d r)
qed

lemma fine_ack_recv: "dsr_ready a \<Longrightarrow> fine (kept p dp) (\<lambda>n. dsr_ack_opt_recv n k dp a)"
  unfolding dsr_ack_opt_recv_def by (intro fine_if fine_ret keptI same_opts_refl bind_ready fine_del_all)

lemma fine_ack_req_recv: "dsr_ready a \<Longrightarrow> fine (kept p dp) (\<lambda>_. dsr_ack_req_opt_recv p k dp a)"
  unfolding dsr_ack_req_opt_recv_def Let_def dsr_ack_send_def
  by (intro fine_if fine_ret keptI same_opts_refl bind_ready fine_xmit) (auto intro: same_opts_opth)

lemma fine_rerr_recv:
  assumes a: "dsr_ready a" shows "fine (kept p dp) (\<lambda>n. dsr_rerr_opt_recv n p r dp a)"
proof -
  have o: "same_opts p dp (dp\<lparr>dp_rerr_opt := l\<rparr>)" for l by (rule same_opts_opth) simp
  have deleted: "dsr_ready (b\<lparr>ag_db := d\<rparr>)" if b: "dsr_ready b" and d: "ph_srt_delete_link_map now x y (ag_db b) = Inr d" for b now x y d
    using link_shrinks [OF d] db_less_plain b
    by (intro ready_step [OF b maint_agent_rel [OF db_rel]]) (auto simp: db_less_def dsr_ready_def)
  show ?thesis
    unfolding dsr_rerr_opt_recv_def Let_def
    by (intro fine_if bind_ready fine_del_all a bind_pure fine_ret keptI o) (rule deleted)
qed

subsection \<open>Source routes\<close>

lemma ready_neigh: "dsr_ready a \<Longrightarrow> dsr_ready (neigh_tbl_add x h a)"
  by (rule ready_same [OF _ neigh_tbl_add_rel]) (simp_all add: neigh_tbl_add_def split: option.split)

lemma fine_learn_paths:
  assumes a: "dsr_ready a" and n: "length (srt_addrs srt) < 63"
  shows "fine dsr_ready (\<lambda>_. srt_learn_paths i prv srt a)"
proof -
  let ?a1 = "a\<lparr>ag_db := ph_srt_add_node_map (ag_time a) prv (cache_usecs a) (ag_db a)\<rparr>"
  have a1: "dsr_ready ?a1" using plain_node a
    by (intro ready_step [OF a maint_agent_rel [OF db_rel]]) (auto simp: other_calls_conf dsr_ready_def)
  have add: "fine dsr_ready (\<lambda>_. dsr_rtc_add r b)"
    if "dsr_ready b" "dsr_srt_split_both srt x y = Inr (d, s)" "d = Some r \<or> s = Some r" for b d s r x y
    using split_both_length [OF that(2), of r] that(3) n by (intro fine_add that(1)) auto
  show ?thesis
    unfolding srt_learn_paths_def Let_def
    by (intro bind_pure fine_prod bind_ready fine_option fine_ret a1) (auto intro!: add a1)
qed

lemma fine_shorten:
  assumes a: "dsr_ready a" shows "fine (\<lambda>(told, b). dsr_ready b) (\<lambda>_. shorten_route dp prv srt a)"
proof -
  have g: "dsr_ready (grat_rrep_tbl_add x y a)" for x y
    by (rule ready_tables [OF a grat_add_rel]) (simp add: grat_rrep_tbl_add_def Let_def)
  show ?thesis
    unfolding shorten_route_def
    by (intro bind_pure fine_prod fine_option bind_ready fine_rrep_send g fine_ret) (simp_all add: a)
qed

lemma kept_srt_forward:
  assumes "dsr_ready a" "same_opts p dp dp1" shows "kept p dp (srt_forward p so n dp1 a)"
proof -
  have "dp_opth (update_own_cost a x) = dp_opth x" for x by (simp add: update_own_cost_def Let_def)
  then have "same_opts p dp1 (update_own_cost a (set_opt p x dp1))" for x
    using same_opts_trans [OF same_opts_set same_opts_opth] by blast
  then have "same_opts p dp (update_own_cost a (set_opt p x dp1))" for x by (rule same_opts_trans [OF assms(2)])
  then show ?thesis using assms by (simp add: srt_forward_def keptI)
qed

lemma fine_srt_recv:
  assumes a: "dsr_ready a" and n: "length (so_addrs so) < 63"
  shows "fine (kept p dp) (\<lambda>n. dsr_srt_opt_recv n p so dp a)"
proof -
  have conf: "pathCacheConf (ag_db a)" using a by (simp add: dsr_ready_def plain_cache_def)
  have new: "length (srt_addrs srt) < 63" if "dsr_srt_new s d l (so_addrs so) cs = Inr srt" for s d l cs srt
    using that n by (auto simp: dsr_srt_new_def elim!: bindE_InrE)
  have o: "same_opts p dp (dp\<lparr>dp_srt_opt := x1, dp_srt := x2, dp_salvage := x3, dp_prv_hop := x4, dp_nxt_hop := x5\<rparr>)" for x1 x2 x3 x4 x5
    by (rule same_opts_opth) simp
  show ?thesis
    unfolding dsr_srt_opt_recv_def Let_def
    apply (intro bind_pure fine_prod bind_ready)
     apply (simp only: conf if_True)
     apply (rule fine_learn_paths [OF ready_neigh [OF a]])
     apply (auto elim!: bindE_InrE dest: new) []
    apply (intro bind_pure fine_if fine_ret kept_srt_forward o)
      apply (rule fine_bindO [OF fine_shorten])
       apply assumption
      apply (auto intro!: fine_ret kept_srt_forward keptI o)
    done
qed

subsection \<open>All options of a packet\<close>

text \<open>An option that lists less than 63 addresses.\<close>

definition short_opt :: "dsr_opt \<Rightarrow> bool" where
  "short_opt x = (case x of
       RreqOpt q \<Rightarrow> length (rq_addrs q) < 63
     | RrepOpt r \<Rightarrow> length (rp_addrs r) < 63
     | SrtOpt s \<Rightarrow> length (so_addrs s) < 63
     | _ \<Rightarrow> True)"

definition short_opts :: "opt_hdr list \<Rightarrow> bool" where
  "short_opts hs \<longleftrightarrow> list_all (\<lambda>h. list_all short_opt (oh_option h)) hs"

lemma short_opt_at: "short_opts (dp_opth dp) \<Longrightarrow> opt_at dp p = Some x \<Longrightarrow> short_opt x"
  by (auto simp: short_opts_def opt_at_def list_all_iff split: prod.splits if_splits) (meson nth_mem)

lemma fine_join:
  assumes "fine (kept p dp) H"
  shows "fine (kept p dp) (\<lambda>n. bindO (H n) (\<lambda>(act', dp', a'). Some (Inr (act OR act', dp', a'))))"
  by (rule fine_bindO [OF assms]) (auto simp: kept_def intro!: fine_ret)

lemma fine_recv_opt:
  assumes a: "dsr_ready a" and s: "\<And>x. opt_at dp p = Some x \<Longrightarrow> short_opt x"
  shows "fine (kept p dp) (\<lambda>n. recv_opt n (act, dp, a) p)"
proof -
  have skip: "fine (kept p dp) (\<lambda>_. Some (Inr (act, dp, a)))" by (intro fine_ret keptI a same_opts_refl)
  have ack: "fine (kept p dp) (\<lambda>n. dsr_ack_opt_recv n k (dp\<lparr>dp_ack_opt := l\<rparr>) a)" for k l
    by (rule fine_mono [OF fine_ack_recv [OF a] kept_trans]) simp_all
  show ?thesis
  proof (cases "opt_at dp p")
    case (Some x)
    then show ?thesis using s [OF Some] a skip
      by (cases x) (simp_all add: recv_opt_def Let_def short_opt_def fine_if fine_join fine_rreq_recv fine_rrep_recv
        fine_rerr_recv fine_ack_req_recv fine_srt_recv ack)
  qed (simp add: recv_opt_def Let_def skip)
qed

lemma fine_recv_opts:
  assumes "dsr_ready a" "distinct ps" "\<And>p x. p \<in> set ps \<Longrightarrow> opt_at dp p = Some x \<Longrightarrow> short_opt x"
  shows "fine (\<lambda>(act, dp, b). dsr_ready b) (\<lambda>n. foldO (recv_opt n) ps (act, dp, a))"
  using assms
proof (induction ps arbitrary: act dp a)
  case (Cons p ps)
  have "fine (\<lambda>(act, dp, b). dsr_ready b) (\<lambda>n. bindO (recv_opt n (act, dp, a) p) (foldO (recv_opt n) ps))"
  proof (rule fine_bindO [OF fine_recv_opt [OF Cons.prems(1)]])
    show "short_opt x" if "opt_at dp p = Some x" for x using Cons.prems(3) [OF _ that] by simp
  next
    fix st assume st: "kept p dp st"
    obtain act' dp' b where st_eq: "st = (act', dp', b)" by (rule prod_cases3)
    have b: "dsr_ready b" "same_opts p dp dp'" using st by (simp_all add: kept_def st_eq)
    show "fine (\<lambda>(act, dp, b). dsr_ready b) (\<lambda>n. foldO (recv_opt n) ps st)"
      unfolding st_eq
    proof (rule Cons.IH [OF b(1)])
      show "distinct ps" using Cons.prems(2) by simp
      fix q x assume q: "q \<in> set ps" "opt_at dp' q = Some x"
      then have "q \<noteq> p" using Cons.prems(2) by auto
      then have "opt_at dp q = Some x" using q(2) b(2) by (metis same_opts_def)
      then show "short_opt x" using Cons.prems(3) [of q] q(1) by simp
    qed
  qed
  then show ?case by simp
qed (simp add: fine_ret)

lemma distinct_pointers: "distinct (map fst (opt_list dp))"
proof -
  have e: "map fst (opt_list dp) = concat (map (\<lambda>i. map (Pair i) [0..<length (oh_option (dp_opth dp ! i))]) [0..<length (dp_opth dp)])"
    by (simp add: opt_list_def map_concat o_def)
  have "distinct (concat (map (\<lambda>i. map (Pair i) [0..<f i]) is))" if "distinct is" for f :: "nat \<Rightarrow> nat" and "is" :: "nat list"
    using that by (induction "is") (auto simp: distinct_map inj_on_def)
  then show ?thesis unfolding e by simp
qed

lemma fine_opt_recv:
  assumes "dsr_ready a" "short_opts (dp_opth dp)"
  shows "fine (\<lambda>(act, dp, b). dsr_ready b) (\<lambda>n. dsr_opt_recv n dp a)"
  unfolding dsr_opt_recv_def using short_opt_at [OF assms(2)]
  by (intro fine_recv_opts assms(1) distinct_pointers)

subsection \<open>Events\<close>

lemma fine_deliver: "dsr_ready a \<Longrightarrow> fine dsr_ready (\<lambda>_. omnet_deliver dp a)"
  unfolding omnet_deliver_def Let_def by (intro fine_option fine_err fine_ret) (erule ready_eases [OF _ emit_eases])

lemma fine_recv:
  assumes "dsr_ready a" "short_opts (dp_opth dp)" shows "fine dsr_ready (\<lambda>n. dsr_recv n dp a)"
  unfolding dsr_recv_def
proof (rule fine_bindO [OF fine_opt_recv [OF assms]])
  fix st :: "action \<times> dsr_pkt \<times> agent"
  obtain act dp' b where st: "st = (act, dp', b)" by (rule prod_cases3)
  assume "case st of (act, dp, b) \<Rightarrow> dsr_ready b"
  then have b: "dsr_ready b" by (simp add: st)
  show "fine dsr_ready (\<lambda>n. case st of (act, dp, a) \<Rightarrow>
       if has_flag dp PKT_PROMISC_RECV then Some (Inr (drop_payload (dp_payload dp) a))
       else
         bindO (if act AND DSR_PKT_SEND_BUFFERED \<noteq> 0
                then foldO (\<lambda>a x. send_buf_send n x a) (rrep_addrs dp) a else Some (Inr a)) (\<lambda>a1.
           if act AND DSR_PKT_FORWARD \<noteq> 0
           then (case dp_iph dp of None \<Rightarrow> Some (Inl BadAccess) | Some h \<Rightarrow>
                   if ip_ttl h < 1 then Some (Inr (drop_payload (dp_payload dp) a1)) else omnet_xmit n dp a1)
           else if act AND DSR_PKT_FORWARD_RREQ \<noteq> 0 then omnet_xmit n dp a1
           else if act AND (DSR_PKT_DROP OR DSR_PKT_ERROR) \<noteq> 0 then Some (Inr (drop_payload (dp_payload dp) a1))
           else if act AND DSR_PKT_DELIVER \<noteq> 0 then omnet_deliver dp a1
           else Some (Inr (drop_payload (dp_payload dp) a1))))"
    unfolding st prod.case
    by (intro fine_if fine_ret ready_drop b bind_ready fine_send_lists fine_option fine_err fine_calls(1) fine_deliver)
qed

lemma ready_put_rreq: "dsr_ready a \<Longrightarrow> dsr_ready (put_rreq x e a)"
  by (simp add: dsr_ready_def agent_inv_def no_ids_def put_rreq_def base_ok_def maint_ok_def neighbors_ok_def
      send_ok_def send_usecs_def)

lemma fine_rreq_send:
  assumes a: "dsr_ready a" shows "fine dsr_ready (\<lambda>_. dsr_rreq_send x ttl a)"
proof -
  have "agent_rel a (a\<lparr>rreq_seqno := rreq_seqno a + 1\<rparr>)" by (rule other_tables_rel) (simp_all add: agent_view_def)
  from ready_tables [OF a this] have "dsr_ready (a\<lparr>rreq_seqno := rreq_seqno a + 1\<rparr>)" by simp
  then show ?thesis unfolding dsr_rreq_send_def Let_def by (rule fine_xmit)
qed

lemma fine_start_xmit:
  assumes a: "dsr_ready a" and up: "upper_packet (ag_conf a) dp" shows "fine dsr_ready (\<lambda>n. dsr_start_xmit n dp a)"
proof -
  let ?Q = "\<lambda>(r, b). dsr_ready b \<and> upper_packet (ag_conf b) dp"
  have find: "fine ?Q (\<lambda>_. dsr_rtc_find (dp_src dp) (dp_dst dp) a)"
    using fine_find [OF a, of "dp_src dp" "dp_dst dp"] dsr_rtc_find_rel up
    by (fastforce simp: fine_def maint_rel_def agent_view_def)
  have e: "dsr_ready (send_buf_enqueue_packet dp b)" if "dsr_ready b" "upper_packet (ag_conf b) dp" for b
    by (rule ready_tables [OF that(1) enqueue_rel [OF that(2)]]) (simp add: send_buf_enqueue_packet_def Let_def)
  have d: "dsr_ready b \<Longrightarrow> fine dsr_ready (\<lambda>_. dsr_rreq_route_discovery x b)" for x b
    unfolding dsr_rreq_route_discovery_def Let_def
    by (intro bind_pure fine_if fine_ret fine_rreq_send ready_put_rreq)
  show ?thesis
    unfolding dsr_start_xmit_def
    by (rule fine_bindO [OF find]) (auto intro!: fine_option bind_pure fine_calls(1) d e)
qed

lemma alloc_opts: "dp_opth (dsr_pkt_alloc f g) = dg_opts g \<or> dp_opth (dsr_pkt_alloc f g) = []"
proof -
  have "dp_opth (parse_opt dp x) = dp_opth dp" for dp x by (cases "(dp, x)" rule: parse_opt.cases) auto
  then have "dp_opth (foldl parse_opt dp xs) = dp_opth dp" for dp xs by (induction xs arbitrary: dp) simp_all
  then have "dp_opth (dsr_opt_parse dp) = dp_opth dp" for dp by (simp add: dsr_opt_parse_def)
  then show ?thesis by (simp add: dsr_pkt_alloc_def Let_def pkt_of_header_def empty_pkt_def)
qed

lemma fine_datagram:
  assumes a: "dsr_ready a" and g: "short_opts (dg_opts g)" shows "fine dsr_ready (\<lambda>n. handle_datagram n g a)"
proof -
  have "short_opts (dp_opth (dsr_pkt_alloc f (if dg_src g = 0 then g\<lparr>dg_src := x\<rparr> else g)))" for f x
    using alloc_opts [of f "if dg_src g = 0 then g\<lparr>dg_src := x\<rparr> else g"] g by (auto simp: short_opts_def)
  then show ?thesis
    unfolding handle_datagram_def defaultProcess_def Let_def
    by (intro fine_if fine_ret a fine_recv fine_start_xmit ready_drop alloc_upper)
qed

lemma fine_hop:
  assumes a: "dsr_ready a" shows "fine (\<lambda>(one, b). dsr_ready b) (\<lambda>_. one_hop_route x a)"
proof (rule fine_const)
  have conf: "pathCacheConf (ag_db a)" "plain_cache (ag_db a)" using a by (simp_all add: dsr_ready_def plain_cache_def)
  then show "one_hop_route x a \<noteq> None"
    by (auto simp: one_hop_route_def RouteFind_def bindO_def split: sum.splits prod.splits)
  fix r assume r: "one_hop_route x a = Some (Inr r)"
  obtain one b where b: "r = (one, b)" by force
  obtain res d where d: "ph_srt_find_map (ag_time a) (myaddr a) x 0 (ag_db a) = Inr (res, d)" "b = a\<lparr>ag_db := d\<rparr>"
    using r conf(1) by (auto simp: b one_hop_route_def RouteFind_def elim!: bindO_InrE)
  have "plain_cache d" using plain_find [OF conf(2) d(1)] db_less_plain conf(2) by blast
  then have "dsr_ready b" using ready_step [OF a maint_agent_rel [OF one_hop_rel]] r b d(2) by auto
  then show "case r of (one, b) \<Rightarrow> dsr_ready b" by (simp add: b)
qed

lemma fine_delete_link:
  assumes a: "dsr_ready a" shows "fine dsr_ready (\<lambda>_. delete_link_to x a)"
  unfolding delete_link_to_def
proof (rule fine_const)
  fix b assume "Some (bindE (ph_srt_delete_link_map (ag_time a) (myaddr a) x (ag_db a)) (\<lambda>d. Inr (a\<lparr>ag_db := d\<rparr>))) = Some (Inr b)"
  then have "eases {} a b" using deleted_eases [of "ag_time a" a x] a by (auto simp: dsr_ready_def elim!: bindE_InrE)
  then show "dsr_ready b" by (rule ready_eases [OF a])
qed simp

lemma fine_rerr_send:
  assumes a: "dsr_ready a" shows "fine dsr_ready (\<lambda>_. dsr_rerr_send dp x a)"
proof -
  have p: "plain_cache (ag_db a)" using a by (simp add: dsr_ready_def)
  show ?thesis by (rule fine_const [OF steps_total(5) [OF p]]) (rule ready_eases [OF a rerr_eases [OF p]])
qed

lemma fine_signal:
  assumes a: "dsr_ready a" shows "fine dsr_ready (\<lambda>n. receiveSignal_dsr n s a)"
proof -
  have acked: "fine dsr_ready (\<lambda>n. packetLinkAck n g a)" for g
    unfolding packetLinkAck_def
    by (intro fine_if fine_del_all fine_ret a fine_bindO [OF fine_hop]) (auto intro!: fine_if fine_del_all fine_ret)
  have failed: "fine dsr_ready (\<lambda>n. packetFailed n g a)" for g
    unfolding packetFailed_def Let_def
    by (intro fine_if fine_bindO [OF fine_hop] bind_ready fine_delete_link fine_rerr_send fine_calls fine_ret a)
      (auto intro!: fine_if fine_delete_link fine_ret)
  show ?thesis
    by (cases s) (simp_all add: receiveSignal_dsr_def tap_same fine_if fine_ret a acked failed)
qed

lemma fine_timer:
  assumes a: "dsr_ready a" shows "fine dsr_ready (\<lambda>n. handleTimer n tm (timer_fired tm a))"
proof (cases "tm = SendBufTimer")
  case True
  let ?a = "a\<lparr>send_buf_timer := None\<rparr>"
  have db: "ag_db (send_buf_timeout ?a) = ag_db a"
  proof -
    obtain os where "drop_waiting (filter (overdue ?a) (packetBuffer a)) ?a = ?a\<lparr>ag_outputs := os\<rparr>"
      using drop_waiting_outputs by blast
    then show ?thesis by (simp add: send_buf_timeout_def Let_def)
  qed
  have "dsr_ready (send_buf_timeout ?a)"
    using a send_timer_inv [of UNIV a] send_timeout_conf [of ?a] db by (simp add: dsr_ready_def)
  then show ?thesis by (simp add: True fine_ret)
next
  case False
  have db: "ag_db (timer_fired tm a) = ag_db a" by (cases tm) (simp_all add: put_rreq_def split: option.split)
  have t: "dsr_ready (timer_fired tm a)" by (rule ready_tables [OF a fired_rel [OF False] db])
  have grat: "fine dsr_ready (\<lambda>_. grat_rrep_tbl_timeout b)" if b: "dsr_ready b" for b
  proof (rule fine_const)
    show "grat_rrep_tbl_timeout b \<noteq> None" by (simp add: grat_rrep_tbl_timeout_def split: list.split)
    fix c assume c: "grat_rrep_tbl_timeout b = Some (Inr c)"
    then have "ag_db c = ag_db b" by (auto simp: grat_rrep_tbl_timeout_def split: list.splits)
    then show "dsr_ready c" by (rule ready_tables [OF b grat_timeout_rel [OF c]])
  qed
  have rreq: "fine dsr_ready (\<lambda>_. rreq_tbl_timeout x b)" if b: "dsr_ready b" for x b
    unfolding rreq_tbl_timeout_def Let_def
    by (intro fine_option fine_err fine_if fine_ret ready_drop_rreq ready_put_rreq bind_ready fine_rreq_send b)
  show ?thesis using t grat rreq fine_calls(3) False by (cases tm) simp_all
qed

lemma fine_stop:
  assumes a: "dsr_ready a" shows "fine dsr_ready (\<lambda>_. node_stop a)"
proof (rule fine_const)
  show "node_stop a \<noteq> None" by (simp add: node_stop_def)
  fix b assume "node_stop a = Some (Inr b)"
  then obtain d where d: "cleanAllDataBase (ag_db a) = Inr d"
    and b: "b = clear_tables (a\<lparr>nodeActive := False, ag_db := d\<lparr>etxNeighborTable := Map.empty\<rparr>\<rparr>)"
    by (auto simp: node_stop_def elim!: bindE_InrE)
  let ?d = "d\<lparr>etxNeighborTable := Map.empty\<rparr>"
  have plain: "plain_cache ?d" using plain_clean [OF d] a by (simp add: dsr_ready_def plain_cache_def)
  obtain os where os: "drop_waiting (packetBuffer a) (a\<lparr>nodeActive := False, ag_db := ?d, neighborMap := Map.empty,
      dsrRreqTbl := Map.empty, gratRrep := [], grat_rrep_tbl_timer := None\<rparr>)
    = a\<lparr>nodeActive := False, ag_db := ?d, neighborMap := Map.empty, dsrRreqTbl := Map.empty, gratRrep := [],
      grat_rrep_tbl_timer := None, ag_outputs := os\<rparr>"
    using drop_waiting_outputs by blast
  show "dsr_ready b" using a plain unfolding b
    by (simp add: os clear_tables_def maint_buf_cleanup_def send_buf_cleanup_def grat_rrep_tbl_cleanup_def
        rreq_tbl_cleanup_def neigh_tbl_cleanup_def dsr_ready_def agent_inv_def base_ok_def maint_ok_def
        neighbors_ok_def send_ok_def no_ids_def)
qed

definition short_event :: "agent_event \<Rightarrow> bool" where
  "short_event e = (case e of Datagram g \<Rightarrow> short_opts (dg_opts g) | _ \<Rightarrow> True)"

lemma fine_event:
  assumes a: "dsr_ready a" and e: "short_event e" and w: "nodeActive a \<or> packetBuffer a = []"
  shows "fine dsr_ready (\<lambda>n. agent_handle n e a)"
proof (cases e)
  case (Timer tm)
  have "dsr_ready (timer_fired tm a)" if "\<not> nodeActive a"
  proof (cases "tm = SendBufTimer")
    case True
    then show ?thesis using a w that
      by (simp add: dsr_ready_def agent_inv_def base_ok_def maint_ok_def neighbors_ok_def send_ok_def no_ids_def)
  next
    case False
    show ?thesis by (rule ready_tables [OF a fired_rel [OF False]]) (cases tm; simp add: put_rreq_def split: option.split)
  qed
  then show ?thesis using fine_timer [OF a] Timer by (simp add: agent_handle_def fine_if fine_ret)
next
  case Start
  have "dsr_ready (node_start a)" using a by (simp add: node_start_def dsr_ready_def agent_inv_def active_same)
  then show ?thesis by (simp add: Start agent_handle_def fine_ret)
qed (use e fine_datagram [OF a] fine_signal [OF a] fine_stop [OF a] in \<open>simp_all add: agent_handle_def short_event_def\<close>)

subsection \<open>Runs\<close>

text \<open>A run in which every datagram that comes lists less than 63 addresses in each option.\<close>

inductive short_run :: "agent \<Rightarrow> agent \<Rightarrow> bool" where
  refl: "short_run a a"
| wait: "short_run a b \<Longrightarrow> ag_time b \<le> t \<Longrightarrow> \<forall>tm d. timer_of tm b = Some d \<longrightarrow> t \<le> d \<Longrightarrow> short_run a (b\<lparr>ag_time := t\<rparr>)"
| event: "short_run a b \<Longrightarrow> short_event e \<Longrightarrow> \<forall>tm. e = Timer tm \<longrightarrow> timer_of tm b = Some (ag_time b)
    \<Longrightarrow> agent_handle n e b = Some (Inr c) \<Longrightarrow> short_run a c"

lemma short_run_run: "short_run a b \<Longrightarrow> agent_run a b"
proof (induction rule: short_run.induct)
  case (event a b e n c)
  have "agent_step b c"
  proof (cases "\<exists>tm. e = Timer tm")
    case True
    then show ?thesis using event.hyps(3,4) by (auto intro: agent_step.timer)
  next
    case False
    then show ?thesis using event.hyps(4) by (intro agent_step.event) auto
  qed
  then show ?case using event.IH agent_run.step by blast
qed (auto intro: agent_run.intros agent_step.wait)

lemma ready_start:
  "pathCacheConf d \<Longrightarrow> \<not> etxActive d \<Longrightarrow> RREQMulVisit cf = 0 \<Longrightarrow> dsr_ready (agent_start cf d)"
  using run_inv_start [of cf d]
  by (simp add: run_inv_def dsr_ready_def agent_start_def agent_inv_def no_ids_def plain_cache_def stored_def dsr_start_def)

lemma ready_run:
  assumes "short_run a b" "run_inv cf a" "dsr_ready a" shows "dsr_ready b"
  using assms
proof (induction rule: short_run.induct)
  case (wait a b t)
  have "dsr_ready b" by (rule wait.IH [OF wait.prems])
  moreover have "\<forall>d. send_buf_timer b = Some d \<longrightarrow> t \<le> d" using wait.hyps(3) timer_of.simps(3) by metis
  ultimately show ?case using wait.hyps(2) send_ok_wait by (simp add: dsr_ready_def agent_inv_def base_ok_wait)
next
  case (event a b e n c)
  have "run_inv cf b" by (rule run_inv_run [OF short_run_run [OF event.hyps(1)] event.prems(1)])
  then have "nodeActive b \<or> packetBuffer b = []" by (simp add: run_inv_def)
  then show ?case using fine_event [OF event.IH [OF event.prems] event.hyps(2)] event.hyps(4) by (auto simp: fine_def)
qed simp

text \<open>C5: Every event of a DSR node returns that uses the path cache, no transmission counts (ETX) and no several
  visits of requests (\<open>RREQMulVisit\<close> 0; with 2 or more \<open>repeated_request\<close> shows a handler without a
  result): for datagrams whose options list less than 63 addresses, signals of the link layer, timers,
  stops and starts there is an amount of fuel from which on the handler has a result, always the same, and
  no amount gives another, in every state of a run of such events from the start.  No timer runs for
  ever, however the maintenance buffer, the salvaging of packets and their transmission call each other.\<close>

theorem dsr_events_return:
  assumes run: "short_run (agent_start cf d) a" and "short_event e"
    and conf: "pathCacheConf d" "\<not> etxActive d" "RREQMulVisit cf = 0"
  shows "\<exists>N r. (\<forall>n\<ge>N. agent_handle n e a = Some r) \<and> (\<forall>n r'. agent_handle n e a = Some r' \<longrightarrow> r' = r)"
proof -
  have inv: "run_inv cf a" by (rule run_inv_run [OF short_run_run [OF run] run_inv_start])
  have "dsr_ready a" by (rule ready_run [OF run run_inv_start ready_start [OF conf]])
  then have F: "fine dsr_ready (\<lambda>n. agent_handle n e a)"
    using fine_event assms(2) inv by (simp add: run_inv_def)
  then have g: "gains (\<lambda>n. agent_handle n e a)" and "ends (\<lambda>n. agent_handle n e a)" by (simp_all add: fine_def)
  then obtain N where "agent_handle N e a \<noteq> None" unfolding ends_def by blast
  then obtain r where N: "agent_handle N e a = Some r" by blast
  have same: "agent_handle k e a = Some r" if "N \<le> k" for k by (rule gains_le [OF g N that])
  have "r' = r" if "agent_handle n e a = Some r'" for n r'
    using gains_le [OF g that, of "max n N"] same [of "max n N"] by simp
  then show ?thesis using same by blast
qed

end
