(* ===== verification/Dsr_Reply_Spec.thy ===== *)
theory Dsr_Reply_Spec
  imports Dsr_Route_Spec Dsr_Returns
begin

text \<open>
  What a reply does at the node it is for: the packets that wait for the nodes it lists are sent, each over
  a route the path cache then holds, in the order in which they wait.
\<close>

subsection \<open>Nodes with a route\<close>















subsection \<open>Sending what waits\<close>














subsection \<open>A reply for the node\<close>








end
