(* ===== verification/Dsr_Discovery_Spec.thy ===== *)
theory Dsr_Discovery_Spec
  imports Dsr_Agent_Spec
begin

text \<open>
  Discovery of routes: the requests of a node for a destination, one after the other, and what a reply does
  at a node it passes.
\<close>

subsection \<open>One request\<close>

definition request_delay :: "dsr_conf \<Rightarrow> send_delay" where
  "request_delay cf = (if BroadcastJitter cf \<noteq> 0 then Jitter (BroadcastJitter cf) else BroadcastDelay)"

text \<open>What a datagram of the protocol shows: its time to live, its destination and its options.\<close>

definition shown :: "datagram \<Rightarrow> nat \<times> in_addr \<times> dsr_opt list list" where
  "shown g = (unat (dg_ttl g), dg_dst g, map oh_option (dg_opts g))"

definition request_shown :: "in_addr \<Rightarrow> 32 word \<Rightarrow> nat \<Rightarrow> nat \<times> in_addr \<times> dsr_opt list list" where
  "request_shown x seqno ttl =
     (ttl, DSR_BROADCAST, [[RreqOpt \<lparr>rq_length = 6, rq_id = ucast seqno, rq_target = x, rq_addrs = []\<rparr>]])"

lemma request_sent:
  assumes "0 < ttl" and "ttl < 256"
  shows "\<exists>g. dsr_rreq_send x (int ttl) a =
      Some (Inr (dsr_emit (Sent g (request_delay (ag_conf a))) (a\<lparr>rreq_seqno := rreq_seqno a + 1\<rparr>)))
    \<and> shown g = request_shown x (rreq_seqno a + 1) ttl"
proof -
  have ttl: "unat (word_of_int (int ttl) :: u8) = ttl" using assms by (simp add: unsigned_of_nat take_bit_nat_eq_self)
  then have "(word_of_int (int ttl) :: u8) \<noteq> 0" using assms(1) by (metis less_irrefl unat_0)
  then obtain g where g: "dsr_datagram (myaddr a) (rreq_packet (myaddr a) x (rreq_seqno a + 1) (word_of_int (int ttl))) = Inr g"
    "shown g = request_shown x (rreq_seqno a + 1) ttl" "dg_ttl g \<noteq> 0"
    using ttl
    by (simp add: dsr_datagram_def rreq_packet_def set_flag_def push_opt_def Let_def
        with_opt_hdr_def last_hdr_def first_p_len_def dsr_build_ip_def dsr_pkt_alloc_opts_def empty_pkt_def
        new_opt_hdr_def dsr_opt_hdr_add_def shown_def request_shown_def)
  have "has_flag (rreq_packet (myaddr a) x (rreq_seqno a + 1) (word_of_int (int ttl))) PKT_XMIT_JITTER"
    "dp_dst (rreq_packet (myaddr a) x (rreq_seqno a + 1) (word_of_int (int ttl))) = DSR_BROADCAST"
    by (simp_all add: rreq_packet_def set_flag_def push_opt_def Let_def with_opt_hdr_def last_hdr_def first_p_len_def
        dsr_build_ip_def dsr_pkt_alloc_opts_def empty_pkt_def has_flag_def PKT_XMIT_JITTER_def)
  with g show ?thesis by (auto simp: dsr_rreq_send_def Let_def xmit_now_def request_delay_def)
qed

subsection \<open>The requests of a discovery\<close>

text \<open>The time-out of the entry after \<open>k\<close> repetitions, doubled up to the longest period.\<close>

definition period :: "dsr_conf \<Rightarrow> nat \<Rightarrow> nat" where
  "period cf k = (if k = 0 then unat (msec_usecs (RequestPeriod cf))
     else min (unat (msec_usecs (RequestPeriod cf)) * 2 ^ k) (unat (sec_usecs (MaxRequestPeriod cf))))"

definition request_ttl :: "nat \<Rightarrow> nat" where
  "request_ttl k = min 255 (10 * 2 ^ k)"

definition in_discovery :: "dsr_conf \<Rightarrow> nat \<Rightarrow> rreq_entry \<Rightarrow> bool" where
  "in_discovery cf k e \<longleftrightarrow> re_in_disc e \<and> unat (re_num_rexmts e) = k \<and> re_ttl e = int (request_ttl k)
    \<and> unat (re_timeout e) = period cf k \<and> re_timer e \<noteq> None"

lemma confval_bound: "unat (ucast (w :: 32 word) :: usecs_t) < 2 ^ 32"
proof -
  have "unat w < 2 ^ 32" using unsigned_less [of w] by simp
  then show ?thesis by (simp add: unsigned_ucast_eq take_bit_nat_eq_self)
qed

lemma period_bound: "period cf k < 2 ^ 32"
  using confval_bound [of "RequestPeriod cf * 1000"] confval_bound [of "MaxRequestPeriod cf * 1000000"]
  by (auto simp: period_def msec_usecs_def sec_usecs_def)

lemma period_Suc: "min (2 * period cf k) (unat (sec_usecs (MaxRequestPeriod cf))) = period cf (Suc k)"
  by (auto simp: period_def min_def)

lemma unat_min: "unat (min (v :: 'a::len word) w) = min (unat v) (unat w)"
  by (simp add: min_def word_le_nat_alt)

lemma ttl_Suc: "min (int (request_ttl k) * 2) MAXTTL = int (request_ttl (Suc k))"
proof -
  have "min (int (min 255 (10 * p)) * 2) 255 = int (min 255 (10 * (2 * p)))" for p :: nat
    by (cases "10 * p \<le> 255") (simp_all add: min_def)
  then show ?thesis by (simp only: request_ttl_def MAXTTL_def power_Suc)
qed

lemma ttl_range: "0 < request_ttl k" "request_ttl k < 256"
  by (simp_all add: request_ttl_def min_def)

text \<open>The start, one repetition, and the end.\<close>

lemma discovery_starts:
  assumes "dsrRreqTbl a x = None"
  shows "\<exists>b g e. dsr_rreq_route_discovery x a = Some (Inr b)
    \<and> ag_outputs b = ag_outputs a @ [Sent g (request_delay (ag_conf a))]
    \<and> shown g = request_shown x (rreq_seqno a + 1) (request_ttl 0)
    \<and> rreq_seqno b = rreq_seqno a + 1 \<and> ag_conf b = ag_conf a \<and> packetBuffer b = packetBuffer a
    \<and> dsrRreqTbl b x = Some e \<and> in_discovery (ag_conf a) 0 e"
proof -
  define e where "e = rreq_tbl_entry_create\<lparr>re_last_used := dsr_gettime a, re_ttl := TTL_START,
    re_timeout := msec_usecs (RequestPeriod (ag_conf a)), re_in_disc := True, re_num_rexmts := 0,
    re_timer := Some (set_timer (ag_time a) (timeval_add_usecs (dsr_gettime a) (msec_usecs (RequestPeriod (ag_conf a)))))\<rparr>"
  obtain g where g: "dsr_rreq_send x (int (request_ttl 0)) (put_rreq x e a) = Some (Inr (dsr_emit
      (Sent g (request_delay (ag_conf a))) (put_rreq x e a\<lparr>rreq_seqno := rreq_seqno a + 1\<rparr>)))"
    "shown g = request_shown x (rreq_seqno a + 1) (request_ttl 0)"
    using request_sent [OF ttl_range, of x 0 "put_rreq x e a"] by (auto simp: put_rreq_def)
  moreover have "dsr_rreq_route_discovery x a = dsr_rreq_send x (int (request_ttl 0)) (put_rreq x e a)"
    using assms by (simp add: dsr_rreq_route_discovery_def find_or_add_def rreq_tbl_add_def rreq_tbl_entry_create_def
        TTL_START_def request_ttl_def e_def Let_def)
  moreover have "in_discovery (ag_conf a) 0 e"
    by (simp add: in_discovery_def e_def request_ttl_def TTL_START_def period_def)
  ultimately show ?thesis by (simp add: dsr_emit_def put_rreq_def)
qed

lemma discovery_repeats:
  assumes e: "dsrRreqTbl a x = Some e" "in_discovery (ag_conf a) k e" and k: "k < unat (MaxRequestRexmt (ag_conf a))"
  shows "\<exists>b g e'. rreq_tbl_timeout x a = Some (Inr b)
    \<and> ag_outputs b = ag_outputs a @ [Sent g (request_delay (ag_conf a))]
    \<and> shown g = request_shown x (rreq_seqno a + 1) (request_ttl (Suc k))
    \<and> rreq_seqno b = rreq_seqno a + 1 \<and> ag_conf b = ag_conf a \<and> packetBuffer b = packetBuffer a
    \<and> dsrRreqTbl b x = Some e' \<and> in_discovery (ag_conf a) (Suc k) e'"
proof -
  let ?timeout = "min (re_timeout e * 2) (sec_usecs (MaxRequestPeriod (ag_conf a)))"
  define e1 where "e1 = e\<lparr>re_num_rexmts := re_num_rexmts e + 1, re_timeout := ?timeout,
    re_ttl := int (request_ttl (Suc k)), re_last_used := dsr_gettime a\<rparr>"
  define e2 where "e2 = e1\<lparr>re_timer := Some (set_timer (ag_time a) (timeval_add_usecs (dsr_gettime a) ?timeout))\<rparr>"
  have num: "unat (re_num_rexmts e) = k" "re_ttl e = int (request_ttl k)" "unat (re_timeout e) = period (ag_conf a) k"
    using e(2) by (simp_all add: in_discovery_def)
  obtain g where g: "dsr_rreq_send x (int (request_ttl (Suc k))) (put_rreq x e1 a) = Some (Inr (dsr_emit
      (Sent g (request_delay (ag_conf a))) (put_rreq x e1 a\<lparr>rreq_seqno := rreq_seqno a + 1\<rparr>)))"
    "shown g = request_shown x (rreq_seqno a + 1) (request_ttl (Suc k))"
    using request_sent [OF ttl_range, of x "Suc k" "put_rreq x e1 a"] by (auto simp: put_rreq_def)
  have "rreq_tbl_timeout x a = Some (Inr (put_rreq x e2 (dsr_emit (Sent g (request_delay (ag_conf a)))
      (put_rreq x e1 a\<lparr>rreq_seqno := rreq_seqno a + 1\<rparr>))))"
    using e(1) k num g(1) unfolding rreq_tbl_timeout_def Let_def
    by (simp add: word_le_nat_alt not_le ttl_Suc e1_def [symmetric] e2_def)
  moreover have "in_discovery (ag_conf a) (Suc k) e2"
  proof -
    have "unat (re_timeout e) * unat (2 :: usecs_t) < 2 ^ LENGTH(64)"
      using period_bound [of "ag_conf a" k] num(3) by simp
    then have "unat (re_timeout e * 2) = 2 * period (ag_conf a) k" by (simp only: unat_mult_lem) (simp add: num(3))
    then have "unat ?timeout = period (ag_conf a) (Suc k)" by (simp add: unat_min period_Suc)
    moreover have "unat (MaxRequestRexmt (ag_conf a)) < 2 ^ 32" using unsigned_less [of "MaxRequestRexmt (ag_conf a)"] by simp
    then have "unat (re_num_rexmts e) + unat (1 :: 32 word) < 2 ^ LENGTH(32)" using k num(1) by simp
    then have "unat (re_num_rexmts e + 1) = Suc k" by (simp only: unat_add_lem) (simp add: num(1))
    ultimately show ?thesis using e(2) by (simp add: in_discovery_def e2_def e1_def)
  qed
  ultimately show ?thesis using g(2) by (simp add: dsr_emit_def put_rreq_def)
qed

lemma discovery_ends:
  assumes "dsrRreqTbl a x = Some e" "in_discovery (ag_conf a) k e" "unat (MaxRequestRexmt (ag_conf a)) \<le> k"
  shows "rreq_tbl_timeout x a = Some (Inr (drop_rreq x a))"
  using assms by (simp add: rreq_tbl_timeout_def in_discovery_def word_le_nat_alt)

text \<open>The timer goes off at one time after the other; the packets sent so far.\<close>

definition time_out :: "in_addr \<Rightarrow> agent \<Rightarrow> simtime \<Rightarrow> agent outcome" where
  "time_out x a t = rreq_tbl_timeout x (a\<lparr>ag_time := t\<rparr>)"

text \<open>C6: A discovery sends the request again each time its timer goes off, with a time to live that starts at 10 and
  doubles up to 255, a new identifier each time and a time-out that doubles up to \<open>MaxRequestPeriod\<close>;
  after \<open>MaxRequestRexmt\<close> repetitions it ends, and the packets that wait stay where they are.\<close>

theorem discovery_schedule:
  assumes new: "dsrRreqTbl a x = None" and ts: "length ts \<le> unat (MaxRequestRexmt (ag_conf a))"
  shows "\<exists>b gs e. bindO (dsr_rreq_route_discovery x a) (foldO (time_out x) ts) = Some (Inr b)
    \<and> ag_outputs b = ag_outputs a @ map (\<lambda>g. Sent g (request_delay (ag_conf a))) gs
    \<and> map shown gs = map (\<lambda>k. request_shown x (rreq_seqno a + 1 + of_nat k) (request_ttl k)) [0..<length ts + 1]
    \<and> dsrRreqTbl b x = Some e \<and> in_discovery (ag_conf a) (length ts) e \<and> packetBuffer b = packetBuffer a
    \<and> (length ts = unat (MaxRequestRexmt (ag_conf a)) \<longrightarrow>
         time_out x b t = Some (Inr (drop_rreq x (b\<lparr>ag_time := t\<rparr>))))"
proof -
  have "\<exists>b gs e. bindO (dsr_rreq_route_discovery x a) (foldO (time_out x) ts) = Some (Inr b)
    \<and> ag_outputs b = ag_outputs a @ map (\<lambda>g. Sent g (request_delay (ag_conf a))) gs
    \<and> map shown gs = map (\<lambda>k. request_shown x (rreq_seqno a + 1 + of_nat k) (request_ttl k)) [0..<length ts + 1]
    \<and> dsrRreqTbl b x = Some e \<and> in_discovery (ag_conf a) (length ts) e \<and> packetBuffer b = packetBuffer a
    \<and> ag_conf b = ag_conf a \<and> rreq_seqno b = rreq_seqno a + 1 + of_nat (length ts)"
    using ts
  proof (induction ts rule: rev_induct)
    case Nil
    obtain b g e where "dsr_rreq_route_discovery x a = Some (Inr b)"
      "ag_outputs b = ag_outputs a @ [Sent g (request_delay (ag_conf a))]"
      "shown g = request_shown x (rreq_seqno a + 1) (request_ttl 0)" "rreq_seqno b = rreq_seqno a + 1"
      "ag_conf b = ag_conf a" "packetBuffer b = packetBuffer a" "dsrRreqTbl b x = Some e" "in_discovery (ag_conf a) 0 e"
      using discovery_starts [OF new] by blast
    then show ?case by (intro exI [of _ b] exI [of _ "[g]"] exI [of _ e]) simp
  next
    case (snoc t ts)
    then obtain b gs e where b: "bindO (dsr_rreq_route_discovery x a) (foldO (time_out x) ts) = Some (Inr b)"
      "ag_outputs b = ag_outputs a @ map (\<lambda>g. Sent g (request_delay (ag_conf a))) gs"
      "map shown gs = map (\<lambda>k. request_shown x (rreq_seqno a + 1 + of_nat k) (request_ttl k)) [0..<length ts + 1]"
      "dsrRreqTbl b x = Some e" "in_discovery (ag_conf a) (length ts) e" "packetBuffer b = packetBuffer a"
      "ag_conf b = ag_conf a" "rreq_seqno b = rreq_seqno a + 1 + of_nat (length ts)"
      by auto
    obtain c g e' where c: "time_out x b t = Some (Inr c)" "ag_outputs c = ag_outputs b @ [Sent g (request_delay (ag_conf a))]"
      "shown g = request_shown x (rreq_seqno b + 1) (request_ttl (Suc (length ts)))" "rreq_seqno c = rreq_seqno b + 1"
      "ag_conf c = ag_conf a" "packetBuffer c = packetBuffer a" "dsrRreqTbl c x = Some e'"
      "in_discovery (ag_conf a) (Suc (length ts)) e'"
      using discovery_repeats [of "b\<lparr>ag_time := t\<rparr>" x e "length ts"] b(4-8) snoc.prems by (auto simp: time_out_def)
    have "bindO (dsr_rreq_route_discovery x a) (foldO (time_out x) (ts @ [t])) = Some (Inr c)"
      using b(1) c(1) by (auto simp: foldO_append bindO_def split: option.splits sum.splits)
    then show ?case using b(2,3,8) c
      by (intro exI [of _ c] exI [of _ "gs @ [g]"] exI [of _ e']) (simp add: algebra_simps)
  qed
  then obtain b gs e where "bindO (dsr_rreq_route_discovery x a) (foldO (time_out x) ts) = Some (Inr b)"
    "ag_outputs b = ag_outputs a @ map (\<lambda>g. Sent g (request_delay (ag_conf a))) gs"
    "map shown gs = map (\<lambda>k. request_shown x (rreq_seqno a + 1 + of_nat k) (request_ttl k)) [0..<length ts + 1]"
    "dsrRreqTbl b x = Some e" "in_discovery (ag_conf a) (length ts) e" "packetBuffer b = packetBuffer a" "ag_conf b = ag_conf a"
    by blast
  then show ?thesis using discovery_ends [of "b\<lparr>ag_time := t\<rparr>" x e "length ts"]
    by (intro exI [of _ b] exI [of _ gs] exI [of _ e]) (simp add: time_out_def)
qed

subsection \<open>Replies\<close>

text \<open>C38: A reply for another node ends the discovery of its target here too, but sends nothing of what waits for
  the target: the route is known and the packets stay.\<close>

theorem relayed_reply_strands:
  assumes "dsr_rrep_opt_recv p r dp a = Some (Inr (act, dp', b))" and "dp_dst dp \<noteq> myaddr a"
    and "\<not> has_flag dp PKT_PROMISC_RECV" and "length (dp_rrep_opt dp) < MAX_RREP_OPTS"
  shows "act = DSR_PKT_FORWARD \<and> dsrRreqTbl b (last (rp_addrs r)) = None \<and> packetBuffer b = packetBuffer a
    \<and> ag_outputs b = ag_outputs a"
proof -
  from assms obtain srt a1 where a1: "dsr_rtc_add srt a = Some (Inr a1)" "act = DSR_PKT_FORWARD"
    "b = rreq_tbl_route_discovery_cancel (last (rp_addrs r)) a1"
    unfolding dsr_rrep_opt_recv_def Let_def
    by (auto split: if_splits elim!: bindO_InrE dest!: srt_new_ends)
  have "packetBuffer a1 = packetBuffer a \<and> ag_outputs a1 = ag_outputs a"
    using a1(1) by (auto simp: dsr_rtc_add_def elim!: bindE_InrE)
  then show ?thesis using a1 by (simp add: rreq_tbl_route_discovery_cancel_def drop_rreq_def)
qed

end
