(* ===== verification/Dsr_Examples.thy ===== *)
theory Dsr_Examples
  imports Dsr_Access_Spec
begin

text \<open>
  Concrete caches and routes of DSR: the hypotheses of the theorems on the data base hold together,
  and the theorems say something about them.
\<close>

text \<open>Two paths to node 9: a cheap one over node 3 that expires first, and one over nodes 1 and 2.\<close>

definition demo_cache :: paths_cache where
  "demo_cache = setPath 0 (IPv4 9) [IPv4 1, IPv4 2] [3, 4, 5] 3 0 6000000
     (setPath 0 (IPv4 9) [IPv4 3] [1, 2] 2 0 5000000 [])"

lemma demo_cache_ok: "paths_ok demo_cache"
  by (simp add: demo_cache_def setPath_ok)

lemma usecs_demo [simp]: "usecs 5000000 = 5" "usecs 6000000 = 6"
  by (simp_all add: usecs_def)

lemma demo_cache_live:
  "live 0 demo_cache d r = (if d = IPv4 9 \<and> r = [IPv4 1, IPv4 2] then Some (0, 6, [3, 4, 5])
     else if d = IPv4 9 \<and> r = [IPv4 3] then Some (0, 5, [1, 2]) else None)"
  by (simp add: demo_cache_def live_setPath setPath_ok)

lemma path_cache_refines_map_witness:
  "live 0 (purgePathCache 0 demo_cache) = live 0 demo_cache
    \<and> live 0 (setPath 0 (IPv4 7) [] [] 1 0 5000000 demo_cache) (IPv4 7) [] = Some (0, 5, [])"
  using path_cache_refines_map [OF demo_cache_ok, of 0 "IPv4 7" "[]" "[]" 1 0 5000000] by simp

lemma demo_search:
  "\<exists>c'. getPathCosVect 0 (IPv4 9) 0 demo_cache = ((True, [IPv4 3], [1, 2], 3), c')"
  by (simp add: demo_cache_def setPath_def getPathCosVect_def expired_def new_path_def
    search_start_def better_def take_path_def costPath_def VALID_def)

lemma getPathCosVect_best_witness:
  "\<exists>e. live 0 demo_cache (IPv4 9) [IPv4 3] = Some (VALID, e, [1, 2])
    \<and> 3 = route_cost [IPv4 3] [1, 2] \<and> 3 < route_cost [IPv4 1, IPv4 2] [3, 4, 5]"
proof -
  obtain c' where "getPathCosVect 0 (IPv4 9) 0 demo_cache = ((True, [IPv4 3], [1, 2], 3), c')"
    using demo_search by blast
  from getPathCosVect_best [OF demo_cache_ok this] obtain e where
    e: "live 0 demo_cache (IPv4 9) [IPv4 3] = Some (VALID, e, [1, 2])" "3 = route_cost [IPv4 3] [1, 2]"
      "\<forall>r' e' v'. live 0 demo_cache (IPv4 9) r' = Some (VALID, e', v') \<longrightarrow>
         3 < route_cost r' v' \<or> 3 = route_cost r' v' \<and> e' \<le> e" by blast
  then have "3 < route_cost [IPv4 1, IPv4 2] [3, 4, 5] \<or> 3 = route_cost [IPv4 1, IPv4 2] [3, 4, 5] \<and> 6 \<le> e"
    using e(3) [rule_format, of "[IPv4 1, IPv4 2]" 6 "[3, 4, 5]"] by (simp add: demo_cache_live VALID_def)
  moreover have "e = 5" using e(1) by (simp add: demo_cache_live)
  ultimately show ?thesis using e(1,2) by auto
qed

text \<open>With the other search the path that expires last wins, though it costs more.\<close>

lemma demo_getPath:
  "\<exists>r k c'. getPath 0 (IPv4 9) 0 demo_cache = ((True, r, k), c')"
proof -
  obtain ps where ps: "smap_find demo_cache (IPv4 9) = Some ps"
    using live_no_bucket [of demo_cache "IPv4 9" 0 "[IPv4 3]"] demo_cache_live [of "IPv4 9" "[IPv4 3]"]
    by (cases "smap_find demo_cache (IPv4 9)") auto
  have "live 0 demo_cache (IPv4 9) [IPv4 3] = Some (0, 5, [1, 2])" by (simp add: demo_cache_live)
  then have cand: "\<exists>p\<in>set ps. candidate 0 p"
    unfolding live_in_bucket [OF demo_cache_ok ps] by (auto simp: candidate_def path_info_def VALID_def)
  have "\<forall>p\<in>set ps. candidate 0 p \<longrightarrow> swamped (p_vector_cost p)"
  proof (intro ballI impI)
    fix p
    assume p: "p \<in> set ps" "candidate 0 p"
    then have "live 0 demo_cache (IPv4 9) (p_route p) = Some (path_info p)"
      unfolding live_in_bucket [OF demo_cache_ok ps] by (auto simp: candidate_def)
    then have "p_vector_cost p \<in> {[1, 2], [3, 4, 5]}"
      by (auto simp: demo_cache_live path_info_def split: if_splits)
    then show "swamped (p_vector_cost p)" by (auto simp: swamped_def)
  qed
  then have "by_expiry 0 ps search_start (snd (getPath_loop 0 ps search_start))"
    by (rule getPath_loop_by_expiry) (simp add: HUGE_def)
  then have "s_found (snd (getPath_loop 0 ps search_start))" using cand by (simp add: by_expiry_def)
  then show ?thesis
    using ps paths_ok_bucket [OF demo_cache_ok ps] by (auto simp: getPath_def Let_def)
qed

lemma getPath_by_expiry_witness:
  "\<exists>k c'. getPath 0 (IPv4 9) 0 demo_cache = ((True, [IPv4 1, IPv4 2], k), c') \<and> k = HUGE"
proof -
  obtain r k c' where g: "getPath 0 (IPv4 9) 0 demo_cache = ((True, r, k), c')"
    using demo_getPath by blast
  have "swamped v" if "live 0 demo_cache (IPv4 9) r = Some (VALID, e, v)" for r e v
    using that by (auto simp: demo_cache_live swamped_def split: if_splits)
  then have "k = HUGE \<and> (\<exists>e v. live 0 demo_cache (IPv4 9) r = Some (VALID, e, v) \<and>
      (\<forall>r' e' v'. live 0 demo_cache (IPv4 9) r' = Some (VALID, e', v') \<longrightarrow> e' \<le> e))"
    by (rule getPath_by_expiry [OF demo_cache_ok _ g])
  then obtain e v where
    k: "k = HUGE" and e: "live 0 demo_cache (IPv4 9) r = Some (VALID, e, v)"
      "\<forall>r' e' v'. live 0 demo_cache (IPv4 9) r' = Some (VALID, e', v') \<longrightarrow> e' \<le> e" by blast
  have "live 0 demo_cache (IPv4 9) [IPv4 1, IPv4 2] = Some (VALID, 6, [3, 4, 5])"
    by (simp add: demo_cache_live VALID_def)
  then have "6 \<le> e" using e(2) by blast
  then have "r = [IPv4 1, IPv4 2]" using e(1) by (auto simp: demo_cache_live split: if_splits)
  then show ?thesis using g k by blast
qed

lemma erasePathWithLink_unused_witness:
  "live 0 (erasePathWithLink 0 (IPv4 5) (IPv4 1) (IPv4 2) False True demo_cache) (IPv4 9) [IPv4 1, IPv4 2] = None"
    (is "live 0 ?c _ _ = None")
proof -
  have "IPv4 5 \<notin> set r" if "live 0 demo_cache d r = Some i" for d r i
    using that by (auto simp: demo_cache_live split: if_splits)
  then have "\<forall>d r i. live 0 ?c d r = Some i \<longrightarrow> live 0 demo_cache d r = Some i \<and>
      \<not> uses_link (IPv4 5) (IPv4 1) (IPv4 2) d r"
    by (rule conjunct1 [OF erasePathWithLink_unused [OF demo_cache_ok _ refl]])
  moreover have "uses_link (IPv4 5) (IPv4 1) (IPv4 2) (IPv4 9) [IPv4 1, IPv4 2]"
    by (simp add: uses_link_def)
  ultimately show ?thesis by (cases "live 0 ?c (IPv4 9) [IPv4 1, IPv4 2]") blast+
qed

subsection \<open>A node with one link\<close>

definition demo_node :: dsruu where
  "demo_node = \<lparr>my_addr = 5, etxActive = False, refreshIntermediate = True, pathCacheConf = False,
     etxNeighborTable = (\<lambda>_. None), nextPurge = 0, paths = [], links = link_db_init\<rparr>"

definition demo_linked :: dsruu where
  "demo_linked = (dsr_start demo_node)\<lparr>links :=
     \<lparr>edges = (\<lambda>_. None)(0 \<mapsto> \<lparr>last_node = IPv4 7, e_costAdd = 1, e_expires = 5\<rparr>,
        1 \<mapsto> \<lparr>last_node = IPv4 5, e_costAdd = 1, e_expires = 5\<rparr>), next_edge = 2,
      linkArray = [(IPv4 5, [0]), (IPv4 7, [1])], routeMap = [], rootNode = IPv4 5, rng = 0\<rparr>\<rparr>"

lemma narrow_demo [simp]: "narrow 5000000 = 5000000"
  by (simp add: narrow_def)

lemma IPv4_less: "IPv4 a < IPv4 b \<longleftrightarrow> a < b"
  by (simp add: l3_order word_less_def)

lemma demo_add_link: "dsr_do f 0 (AddLink 5 7 5000000) (dsr_start demo_node) = Some (Inr demo_linked)"
  by (simp add: ph_add_link_map_def add_both_def addEdge_def Let_def links_of_def dsr_start_def
    demo_node_def demo_linked_def setRoot_def link_db_init_def IPv4_less)

lemma demo_reach: "dsr_reach demo_node demo_linked"
  by (rule reach_call [OF reach_start demo_add_link [of "\<lambda>_. 0"]])

lemma dsr_calls_safe_witness:
  "dsr_inv demo_linked \<and> (\<exists>d'. dsr_do (\<lambda>_. 0) 1 (FindRoute 5 7 0) demo_linked = Some (Inr d') \<and> dsr_inv d')"
  by (rule dsr_calls_safe [OF demo_reach])
    (simp add: proper_call_def demo_linked_def dsr_start_def demo_node_def)

lemma link_route_shortest_witness:
  "\<exists>srt d'. RouteFind (\<lambda>_. 0) 1 0 5 7 demo_linked = Some (Inr (Some srt, d')) \<and> srt_addrs srt = []"
proof -
  have n: "\<not> pathCacheConf demo_linked" "(7 :: in_addr) \<noteq> my_addr demo_linked" "my_addr demo_linked = 5"
    by (simp_all add: demo_linked_def dsr_start_def demo_node_def)
  from link_route_shortest [OF demo_reach n(1,2), of "\<lambda>_. 0" 1 0 5] obtain res d' where
    r: "RouteFind (\<lambda>_. 0) 1 0 5 7 demo_linked = Some (Inr (res, d'))"
      "shortest_route (live_succ 1 (links demo_linked)) (IPv4 5) (IPv4 7)
        (map_option (\<lambda>s. map IPv4 (srt_addrs s)) res)"
    by (auto simp: n(3))
  have "path_in (live_succ 1 (links demo_linked)) (IPv4 5) ([] @ [IPv4 7])"
    by (simp add: live_succ_def demo_linked_def links_of_def live_edge_def link_target_def)
  then show ?thesis using r unfolding shortest_route_def
    by (cases res) (auto dest: spec [where x = "[]"])
qed

text \<open>The same node after it looked for node 7.\<close>

definition demo_found :: dsruu where
  "demo_found = demo_linked\<lparr>links := (links demo_linked)\<lparr>routeMap :=
     [(IPv4 5, \<lparr>d_costAdd = 0, idPrev = NoAddr, d_label = Perm, d_edge = None\<rparr>),
      (IPv4 7, \<lparr>d_costAdd = 1, idPrev = IPv4 5, d_label = Perm, d_edge = Some 0\<rparr>)]\<rparr>\<rparr>"

lemma fadd_1_0 [simp]: "fadd 1 0 = 1"
  using fadd_of_int [of 1 0] by simp

lemma demo_run:
  "run (\<lambda>_. 0) 1 NoAddr (links demo_linked) = Some (Inr (links demo_found))"
proof -
  let ?db0 = "(links demo_linked)\<lparr>routeMap := [(IPv4 5, new_dstate 0)]\<rparr>"
  let ?db1 = "(links demo_linked)\<lparr>routeMap :=
     [(IPv4 5, \<lparr>d_costAdd = 0, idPrev = NoAddr, d_label = Perm, d_edge = None\<rparr>),
      (IPv4 7, \<lparr>d_costAdd = 1, idPrev = IPv4 5, d_label = Tent, d_edge = Some 0\<rparr>)]\<rparr>"
  let ?e0 = "\<lparr>iD = IPv4 5, s_costAdd = 0\<rparr>" and ?e1 = "\<lparr>iD = IPv4 7, s_costAdd = 1\<rparr>"
  have "run_step (\<lambda>_. 0) 1 NoAddr [?e0] ?db0 = Inr (Some [?e1], ?db1)"
    by (simp add: run_step_def demo_linked_def new_dstate_def heap_insert_def weakly_ordered_def
      elem_eqv_def IPv4_less Let_def)
  moreover have "run_step (\<lambda>_. 0) 1 NoAddr [?e1] ?db1 = Inr (Some [], links demo_found)"
    by (simp add: run_step_def demo_linked_def demo_found_def IPv4_less Let_def)
  ultimately have "run_loop (\<lambda>_. 0) 1 NoAddr [?e0] ?db0 = Some (Inr (links demo_found))"
    by (simp add: run_loop.simps [of _ _ _ "[?e0]"] run_loop.simps [of _ _ _ "[?e1]"] run_loop.simps [of _ _ _ "[]"])
  then show ?thesis by (simp add: run_def demo_linked_def Let_def)
qed

lemma demo_find: "dsr_do (\<lambda>_. 0) 1 (FindRoute 5 7 0) demo_linked = Some (Inr demo_found)"
proof -
  have w: "route_walk 1 0 (IPv4 7) \<lparr>d_costAdd = 1, idPrev = IPv4 5, d_label = Perm, d_edge = Some 0\<rparr> []
      (links demo_found) = Some (Inr (Some [IPv4 7], links demo_found))"
    by (subst route_walk.simps, simp add: demo_found_def demo_linked_def, subst route_walk.simps, simp)
  have "getRoute_dsr (\<lambda>_. 0) 1 (IPv4 7) 0 (links demo_linked) = Some (Inr (Some [], links demo_found))"
    using demo_run w
    by (subst getRoute_dsr.simps) (simp add: demo_linked_def demo_found_def route_nodes_def)
  then show ?thesis
    by (simp add: RouteFind_def ph_srt_find_link_route_map_def srt_of_route_def Let_def)
      (simp add: demo_found_def demo_linked_def dsr_start_def demo_node_def)
qed

lemma clean_then_find_faults_witness:
  "\<exists>d'. cleanAllDataBase demo_found = Inr d' \<and> RouteFind (\<lambda>_. 0) 2 0 5 7 d' = Some (Inl BadAccess)"
proof (rule clean_then_find_faults)
  show "dsr_reach demo_node demo_found" by (rule reach_call [OF demo_reach demo_find])
qed (simp_all add: demo_found_def demo_linked_def dsr_start_def demo_node_def)

subsection \<open>Recording a route\<close>

text \<open>A route from node 1 over the nodes 2, 3 and 4 to node 6, as node 1, 3 and 5 record it.\<close>

definition demo_srt :: dsr_srt where
  "demo_srt = new_srt\<lparr>srt_src := 1, srt_dst := 6, srt_addrs := [2, 3, 4]\<rparr>"

lemma source_records_prefixes_witness:
  "\<exists>d'. ph_srt_add_map 0 (Some demo_srt) 5000000 0 False (demo_node\<lparr>my_addr := 1\<rparr>) = Inr d'
    \<and> live 0 (paths d') (IPv4 4) [IPv4 2, IPv4 3] = Some (0, 5, [])
    \<and> live 0 (paths d') (IPv4 6) [IPv4 2, IPv4 3, IPv4 4] = Some (0, 5, [])"
proof -
  have h: "paths_ok (paths (demo_node\<lparr>my_addr := 1\<rparr>))" "srt_src demo_srt = my_addr (demo_node\<lparr>my_addr := 1\<rparr>)"
    "srt_dst demo_srt \<noteq> my_addr (demo_node\<lparr>my_addr := 1\<rparr>)" "narrow 5000000 \<noteq> 0"
    "[IPv4 2, IPv4 3, IPv4 4] = map IPv4 (srt_addrs demo_srt)"
    by (simp_all add: demo_node_def demo_srt_def new_srt_def)
  from source_records_prefixes [OF h, of 0 0] show ?thesis
    by (fastforce simp: sub_costs_def demo_node_def srt_costs_def demo_srt_def new_srt_def
      intro!: exI [of _ "2 :: nat"])
qed

lemma intermediate_records_backwards_witness:
  "\<exists>d'. ph_srt_add_map 0 (Some demo_srt) 5000000 0 False (demo_node\<lparr>my_addr := 3\<rparr>) = Inr d'
    \<and> live 0 (paths d') (IPv4 6) [IPv4 2] = Some (0, 5, [])"
proof -
  have h: "paths_ok (paths (demo_node\<lparr>my_addr := 3\<rparr>))" "srt_src demo_srt \<noteq> my_addr (demo_node\<lparr>my_addr := 3\<rparr>)"
    "srt_dst demo_srt \<noteq> my_addr (demo_node\<lparr>my_addr := 3\<rparr>)" "narrow 5000000 \<noteq> 0" "srt_cost demo_srt = []"
    by (simp_all add: demo_node_def demo_srt_def new_srt_def)
  from intermediate_records_backwards [OF h, of 0] show ?thesis
    by (simp add: demo_srt_def new_srt_def demo_node_def)
qed

end
