(* ===== verification/Dsr_Agent_Examples.thy ===== *)
theory Dsr_Agent_Examples
  imports Dsr_Reply_Spec Dsr_Discovery_Spec Dsr_Examples
begin

text \<open>
  Concrete routes, nodes and runs of DSR: the hypotheses of the theorems on source routes and on the
  agent hold together, and the theorems say something about them.
\<close>

subsection \<open>Source routes\<close>

text \<open>From node 1 over the nodes 2, 3, 4 and 5 to node 6, with a cost for each link.\<close>

definition demo_route :: dsr_srt where
  "demo_route = new_srt\<lparr>srt_src := 1, srt_dst := 6, srt_laddrs := 16, srt_addrs := [2, 3, 4, 5],
     srt_cost := [10, 20, 30, 40, 50]\<rparr>"

lemma demo_route_ok: "srt_sized demo_route" "srt_costed demo_route" "distinct (srt_nodes demo_route)"
  "srt_nodes demo_route = [1, 2, 3, 4, 5, 6]" "srt_addrs demo_route = [2, 3, 4, 5]"
  "srt_cost demo_route = [10, 20, 30, 40, 50]"
  by (simp_all add: demo_route_def new_srt_def srt_sized_def srt_n_def DSR_ADDRESS_SIZE_def srt_costed_def srt_nodes_def)

lemma split_both_on_route_witness:
  "\<exists>t s. dsr_srt_split_both demo_route 3 3 = Inr (Some t, Some s)
    \<and> srt_nodes t = [3, 4, 5, 6] \<and> srt_cost t = [30, 40, 50]
    \<and> srt_nodes s = [3, 2, 1] \<and> srt_cost s = [20, 10]"
proof -
  have "1 < length (srt_addrs demo_route)" "3 = srt_addrs demo_route ! 1" by (simp_all add: demo_route_ok)
  from split_both_on_route [OF demo_route_ok(1-3) this] obtain d s where
    "dsr_srt_split_both demo_route 3 3 = Inr (d, s)"
    "\<exists>t. d = Some t \<and> srt_nodes t = [3, 4, 5, 6] \<and> srt_cost t = [30, 40, 50]"
    "\<exists>t. s = Some t \<and> srt_nodes t = [3, 2, 1] \<and> srt_cost t = [20, 10]"
    by (simp add: demo_route_ok) blast
  then show ?thesis by blast
qed

lemma shortcut_nodes_witness:
  "\<exists>s. dsr_srt_shortcut demo_route 2 5 = Inr s \<and> srt_nodes s = [1, 2, 5, 6] \<and> srt_cost s = [10, 40, 50]"
proof -
  obtain s where s: "dsr_srt_shortcut demo_route 2 5 = Inr s" "srt_nodes s = [1, 2, 5, 6]"
    "srt_addrs s \<noteq> [] \<longrightarrow> srt_cost s = [10, 40, 50]"
    using shortcut_nodes [OF demo_route_ok(1-3), of 1 4] by (auto simp: demo_route_ok)
  then have "srt_addrs s \<noteq> []" by (auto simp: srt_nodes_def)
  with s show ?thesis by blast
qed

lemma srt_option_roundtrip_witness:
  "\<exists>s. dsr_srt_new 1 6 (ucast (so_length (srt_option 2 demo_route))) [2, 3, 4, 5] [] = Inr s
    \<and> srt_nodes s = [1, 2, 3, 4, 5, 6]"
proof -
  have "srt_laddrs demo_route = of_nat (4 * length (srt_addrs demo_route))" "srt_short demo_route"
    "so_addrs (srt_option 2 demo_route) = [2, 3, 4, 5]" "srt_src demo_route = 1" "srt_dst demo_route = 6"
    by (simp_all add: demo_route_def new_srt_def srt_short_def srt_option_def)
  then show ?thesis using srt_option_roundtrip [of demo_route "srt_option 2 demo_route" 2] by (auto simp: demo_route_ok)
qed

subsection \<open>Nodes\<close>

text \<open>The default configuration with acknowledgments of the link layer, and a path cache.\<close>

definition demo_conf :: dsr_conf where
  "demo_conf = \<lparr>BroadcastJitter = 20, RouteCacheTimeout = 300, SendBufferTimeout = 30, RequestTableIds = 16,
     MaxRequestRexmt = 16, MaxRequestPeriod = 10, RequestPeriod = 500, NonpropRequestTimeout = 30,
     MaintHoldoffTime = 250, MaxMaintRexmt = 2, UseNetworkLayerAck = False, PromiscOperation = True,
     GratReplyHoldOff = 1, MAX_SALVAGE_COUNT = 15, RREQMulVisit = 0, RREQMaxVisit = 1,
     RREPDestinationOnly = False, RetryPacket = False, intrand = (\<lambda>_. 0)\<rparr>"

definition demo_db :: "in_addr \<Rightarrow> dsruu" where
  "demo_db x = \<lparr>my_addr = x, etxActive = False, refreshIntermediate = True, pathCacheConf = True,
     etxNeighborTable = (\<lambda>_. None), nextPurge = 0, paths = [], links = link_db_init\<rparr>"

definition demo_agent :: "in_addr \<Rightarrow> agent" where
  "demo_agent x = agent_start demo_conf (demo_db x)"

lemma demo_agent_plain: "plain_node x (demo_agent x)"
  by (simp add: plain_node_def demo_agent_def agent_start_def dsr_start_def demo_db_def demo_conf_def)

text \<open>A packet of the upper layer of node 1 for node 3.\<close>

definition demo_datagram :: datagram where
  "demo_datagram = \<lparr>dg_src = 1, dg_dst = 3, dg_ttl = 32, dg_tos = 0, dg_id = 7, dg_more_fragments = False,
     dg_dont_fragment = False, dg_fragmentOffset = 0, dg_protocol = 17,
     dg_payload = Some \<lparr>pl_id = 1, pl_bytes = 100\<rparr>, dg_h_source = 0, dg_is_dsr = False, dg_opts = [],
     dg_encap = 0, dg_prev = 0, dg_next = 0, dg_cost = []\<rparr>"

text \<open>Node 1 with a path over node 2 to node 3.\<close>

definition demo_source :: agent where
  "demo_source = (demo_agent 1)\<lparr>ag_db := (demo_db 1)\<lparr>paths := setPath 0 (IPv4 3) [IPv4 2] [] 2 0 300000000 []\<rparr>\<rparr>"

definition demo_short :: dsr_srt where
  "demo_short = new_srt\<lparr>srt_src := 1, srt_dst := 3, srt_laddrs := 4, srt_addrs := [2]\<rparr>"

lemma demo_source_finds: "\<exists>a. dsr_rtc_find 1 3 demo_source = Some (Inr (Some demo_short, a))"
  by (simp add: dsr_rtc_find_def RouteFind_def demo_source_def demo_agent_def agent_start_def demo_db_def
      ph_srt_find_map_def getPath_def setPath_def new_path_def expired_def search_start_def VALID_def
      better_def take_path_def srt_of_route_def demo_short_def new_srt_def DSR_ADDRESS_SIZE_def usecs_def Let_def)

lemma packet_travels_route_witness:
  "\<exists>b0 g1 g2 b d. handle_datagram 1 demo_datagram demo_source = Some (Inr b0)
    \<and> ag_outputs b0 = [Sent g1 UnicastDelay] \<and> dg_next g1 = 2 \<and> dg_next g2 = 3
    \<and> passed_along 1 [demo_agent 2] [g1, g2]
    \<and> handle_datagram 0 g2 (demo_agent 3) = Some (Inr b) \<and> ag_outputs b = [Delivered d]
    \<and> dg_src d = 1 \<and> dg_dst d = 3 \<and> dg_payload d = Some \<lparr>pl_id = 1, pl_bytes = 100\<rparr> \<and> dg_protocol d = 17"
proof -
  obtain a where a: "dsr_rtc_find (dg_src demo_datagram) (dg_dst demo_datagram) demo_source = Some (Inr (Some demo_short, a))"
    using demo_source_finds by (auto simp: demo_datagram_def)
  have p: "plain_node (dg_src demo_datagram) demo_source" "plain_node (dg_dst demo_datagram) (demo_agent 3)"
    "list_all2 plain_node (srt_addrs demo_short) [demo_agent 2]"
    using demo_agent_plain
    by (simp_all add: demo_datagram_def demo_short_def demo_source_def plain_node_def demo_agent_def agent_start_def
        demo_db_def demo_conf_def dsr_start_def)
  have r: "plain_route demo_short"
    by (simp add: plain_route_def demo_short_def new_srt_def srt_short_def srt_nodes_def DSR_BROADCAST_def)
  have o: "ag_outputs demo_source = []" "ag_outputs (demo_agent 3) = []" "srt_addrs demo_short = [2]"
    by (simp_all add: demo_source_def demo_agent_def agent_start_def demo_short_def)
  have k: "dg_protocol demo_datagram \<noteq> IPPROTO_DSR" "payload_bytes (dg_payload demo_datagram) \<noteq> 0"
    by (simp_all add: demo_datagram_def payload_bytes_def IPPROTO_DSR_def)
  have f: "dg_src demo_datagram = 1" "dg_dst demo_datagram = 3" "dg_payload demo_datagram = Some \<lparr>pl_id = 1, pl_bytes = 100\<rparr>"
    "dg_protocol demo_datagram = 17" by (simp_all add: demo_datagram_def)
  obtain b0 gs b d where
    t: "handle_datagram (Suc 0) demo_datagram demo_source = Some (Inr b0)" "ag_outputs b0 = [Sent (hd gs) UnicastDelay]"
    "map dg_next gs = [2, 3]" "passed_along (Suc 0) [demo_agent 2] gs"
    "handle_datagram 0 (last gs) (demo_agent 3) = Some (Inr b)" "ag_outputs b = [Delivered d]"
    "dg_src d = 1" "dg_dst d = 3" "dg_payload d = Some \<lparr>pl_id = 1, pl_bytes = 100\<rparr>" "dg_protocol d = 17"
    using packet_travels_route [OF p(1) k a r p(3,2), of 0] unfolding f o append.simps by (elim exE conjE) (rule that)
  obtain g1 g2 where "gs = [g1, g2]" "dg_next g1 = 2" "dg_next g2 = 3" using t(3) by (auto simp: map_eq_Cons_conv)
  then show ?thesis using t unfolding One_nat_def by (intro exI [of _ b0] exI [of _ g1] exI [of _ g2] exI [of _ b] exI [of _ d]) simp
qed

subsection \<open>A discovery\<close>

text \<open>Node 1 without a route: the packet waits and a request goes out.\<close>

lemma demo_no_route: "dsr_rtc_find 1 3 (demo_agent 1) = Some (Inr (None, demo_agent 1))"
  by (simp add: dsr_rtc_find_def RouteFind_def demo_agent_def agent_start_def demo_db_def dsr_start_def
      ph_srt_find_map_def getPath_def)

definition demo_waiting :: agent where
  "demo_waiting = send_buf_enqueue_packet ((dsr_pkt_alloc False demo_datagram)\<lparr>dp_payload_len := 120\<rparr>) (demo_agent 1)"

lemma demo_waiting_facts: "dsrRreqTbl demo_waiting 3 = None" "ag_outputs demo_waiting = []" "ag_time demo_waiting = 0"
  "ag_conf demo_waiting = demo_conf" "\<exists>dp. packetBuffer demo_waiting = [(3, 0, dp)]" "rreq_seqno demo_waiting = 0"
  by (simp_all add: demo_waiting_def send_buf_enqueue_packet_def demo_agent_def agent_start_def dsr_pkt_alloc_def
      demo_datagram_def IPPROTO_DSR_def pkt_of_header_def dsr_build_ip_def empty_pkt_def Let_def)

lemma demo_discovery: "handle_datagram 0 demo_datagram (demo_agent 1) = dsr_rreq_route_discovery 3 demo_waiting"
proof -
  have "dsr_pkt_alloc False demo_datagram = (pkt_of_header demo_datagram)\<lparr>dp_payload := dg_payload demo_datagram,
      dp_encapsulate_protocol := 17, dp_payload_len := 100\<rparr>"
    by (simp add: dsr_pkt_alloc_def demo_datagram_def IPPROTO_DSR_def payload_bytes_def Let_def)
  moreover have "nodeActive (demo_agent 1)" "\<not> UseNetworkLayerAck (ag_conf (demo_agent 1))" "myaddr (demo_agent 1) = 1"
    using demo_agent_plain [of 1] by (simp_all add: plain_node_def)
  ultimately show ?thesis using demo_no_route
    by (simp add: handle_datagram_def defaultProcess_def dsr_start_xmit_def demo_waiting_def demo_datagram_def
        IPPROTO_DSR_def pkt_of_header_def IP_HDR_LEN_def Let_def)
qed

lemma demo_first_event:
  "\<exists>b g e dp. agent_handle 0 (Datagram demo_datagram) (demo_agent 1) = Some (Inr b) \<and> packetBuffer b = [(3, 0, dp)]
    \<and> ag_outputs b = [Sent g (Jitter 20)] \<and> shown g = request_shown 3 1 10 \<and> dsrRreqTbl b 3 = Some e"
proof -
  obtain b g e where b: "dsr_rreq_route_discovery 3 demo_waiting = Some (Inr b)"
    "ag_outputs b = [Sent g (Jitter 20)]" "shown g = request_shown 3 1 10"
    "packetBuffer b = packetBuffer demo_waiting" "dsrRreqTbl b 3 = Some e"
    using discovery_starts [OF demo_waiting_facts(1)]
    by (auto simp: demo_waiting_facts request_delay_def request_ttl_def demo_conf_def)
  then have "agent_handle 0 (Datagram demo_datagram) (demo_agent 1) = Some (Inr b)"
    by (simp add: agent_handle_def demo_discovery)
  then show ?thesis using b demo_waiting_facts(5) by auto
qed

lemma demo_first_run:
  "\<exists>b g e dp. agent_run (agent_start demo_conf (demo_db 1)) b \<and> packetBuffer b = [(3, 0, dp)]
    \<and> ag_outputs b = [Sent g (Jitter 20)] \<and> shown g = request_shown 3 1 10 \<and> dsrRreqTbl b 3 = Some e"
proof -
  obtain b g e dp where b: "agent_handle 0 (Datagram demo_datagram) (demo_agent 1) = Some (Inr b)" "packetBuffer b = [(3, 0, dp)]"
    "ag_outputs b = [Sent g (Jitter 20)]" "shown g = request_shown 3 1 10" "dsrRreqTbl b 3 = Some e"
    using demo_first_event by blast
  have "agent_step (demo_agent 1) b" by (rule agent_step.event [OF _ b(1)]) simp
  then have "agent_run (agent_start demo_conf (demo_db 1)) b"
    using agent_run.step [OF agent_run.refl] by (simp add: demo_agent_def)
  then show ?thesis using b by blast
qed

text \<open>The timer of the request, while the packet waits.\<close>

lemma dsr_events_return_witness:
  "\<exists>b dp N r. short_run (agent_start demo_conf (demo_db 1)) b \<and> packetBuffer b = [(3, 0, dp)]
    \<and> (\<forall>n\<ge>N. agent_handle n (Timer (RreqTimer 3)) b = Some r)"
proof -
  obtain b dp where b: "agent_handle 0 (Datagram demo_datagram) (demo_agent 1) = Some (Inr b)" "packetBuffer b = [(3, 0, dp)]"
    using demo_first_event by blast
  have "short_event (Datagram demo_datagram)" by (simp add: short_event_def short_opts_def demo_datagram_def)
  then have run: "short_run (agent_start demo_conf (demo_db 1)) b"
    using short_run.event [OF short_run.refl, of _ "agent_start demo_conf (demo_db 1)"] b(1) by (simp add: demo_agent_def)
  have conf: "pathCacheConf (demo_db 1)" "\<not> etxActive (demo_db 1)" "RREQMulVisit demo_conf = 0"
    by (simp_all add: demo_db_def demo_conf_def)
  have "short_event (Timer (RreqTimer 3))" by (simp add: short_event_def)
  from dsr_events_return [OF run this conf] show ?thesis using run b(2) by blast
qed

lemma dsr_node_invariant_witness:
  "\<exists>b dp. agent_run (agent_start demo_conf (demo_db 1)) b \<and> packetBuffer b = [(3, 0, dp)]
    \<and> length (packetBuffer b) \<le> 100 \<and> length (maint_buf b) \<le> 100 \<and> sorted (map fst (maint_buf b))"
proof -
  obtain b dp where b: "agent_run (agent_start demo_conf (demo_db 1)) b" "packetBuffer b = [(3, 0, dp)]"
    using demo_first_run by blast
  then show ?thesis using dsr_node_invariant [OF b(1)] by blast
qed

lemma waiting_time_bounded_witness:
  "\<exists>b dp. agent_run (agent_start demo_conf (demo_db 1)) b \<and> (3, 0, dp) \<in> set (packetBuffer b)
    \<and> ag_time b \<le> 30 + 1 / 1000000"
proof -
  obtain b dp where b: "agent_run (agent_start demo_conf (demo_db 1)) b" "(3, 0, dp) \<in> set (packetBuffer b)"
    using demo_first_run by fastforce
  have "wide_usecs (sec_usecs (SendBufferTimeout demo_conf)) = 30"
    by (simp add: wide_usecs_def sec_usecs_def demo_conf_def)
  then show ?thesis using waiting_time_bounded [OF b] b by auto
qed

lemma no_request_remembered_witness:
  "\<exists>b e. agent_run (agent_start demo_conf (demo_db 1)) b \<and> dsrRreqTbl b 3 = Some e \<and> \<not> dup_in_table b 3 1 7 0 []"
proof -
  obtain b e where b: "agent_run (agent_start demo_conf (demo_db 1)) b" "dsrRreqTbl b 3 = Some e"
    using demo_first_run by blast
  then show ?thesis using no_request_remembered [OF b(1)] by blast
qed

lemma repeated_request_witness:
  "\<exists>a1 a3. dsr_rreq_duplicate 1 3 7 0 [] (demo_agent 2) = Some (Inr (False, a1))
    \<and> dsr_rreq_duplicate 1 3 7 4 [4] a1 = Some (Inr (True, a3))
    \<and> dsr_rreq_duplicate 1 3 7 4 [4] (a1\<lparr>ag_conf := demo_conf\<lparr>RREQMulVisit := 2\<rparr>\<rparr>) = None"
proof -
  obtain a1 where a1: "dsr_rreq_duplicate 1 3 7 0 [] (demo_agent 2) = Some (Inr (False, a1))"
    "ag_time a1 = 0" "ag_conf a1 = demo_conf"
    by (simp add: dsr_rreq_duplicate_def demo_agent_def agent_start_def dup_in_table_def)
  have t: "ag_time a1 \<le> ag_time (demo_agent 2) + 100" by (simp add: a1 demo_agent_def agent_start_def)
  have "\<exists>a3. dsr_rreq_duplicate 1 3 7 4 [4] a1 = Some (Inr (True, a3))"
    using repeated_request [OF a1(1) HOL.refl t, of "[4]" 3 4] by (simp add: a1(3) demo_conf_def)
  moreover have "dsr_rreq_duplicate 1 3 7 4 [4] (a1\<lparr>ag_conf := demo_conf\<lparr>RREQMulVisit := 2\<rparr>\<rparr>) = None"
    using repeated_request [OF a1(1), of "a1\<lparr>ag_conf := demo_conf\<lparr>RREQMulVisit := 2\<rparr>\<rparr>" "[4]" 3 4] t by simp
  ultimately show ?thesis using a1(1) by blast
qed

text \<open>With two repetitions the third time-out ends the discovery.\<close>

lemma discovery_schedule_witness:
  "\<exists>b g1 g2 g3. bindO (dsr_rreq_route_discovery 3 (demo_waiting\<lparr>ag_conf := demo_conf\<lparr>MaxRequestRexmt := 2\<rparr>\<rparr>))
      (foldO (time_out 3) [1 / 2, 3 / 2]) = Some (Inr b)
    \<and> ag_outputs b = [Sent g1 (Jitter 20), Sent g2 (Jitter 20), Sent g3 (Jitter 20)]
    \<and> shown g1 = request_shown 3 1 10 \<and> shown g2 = request_shown 3 2 20 \<and> shown g3 = request_shown 3 3 40
    \<and> time_out 3 b (7 / 2) = Some (Inr (drop_rreq 3 (b\<lparr>ag_time := 7 / 2\<rparr>)))"
  (is "\<exists>b g1 g2 g3. bindO (dsr_rreq_route_discovery 3 ?a) _ = _ \<and> _")
proof -
  have delay: "request_delay (demo_conf\<lparr>MaxRequestRexmt := 2\<rparr>) = Jitter 20" by (simp add: request_delay_def demo_conf_def)
  have ttl: "request_ttl 0 = 10" "request_ttl (Suc 0) = 20" "request_ttl (Suc (Suc 0)) = 40"
    by (simp_all add: request_ttl_def)
  have "dsrRreqTbl ?a 3 = None" "length [1 / 2, 3 / 2 :: simtime] \<le> unat (MaxRequestRexmt (ag_conf ?a))"
    using demo_waiting_facts(1) by simp_all
  from discovery_schedule [OF this, of "7 / 2"] show ?thesis
    by (auto simp: demo_waiting_facts delay ttl)
qed

subsection \<open>The reply\<close>

text \<open>Node 3 answers node 1 that it is reached over node 2.\<close>

definition demo_rrep :: rrep_opt where
  "demo_rrep = \<lparr>rp_length = 9, rp_addrs = [2, 3], rp_cost = []\<rparr>"

definition demo_answer :: datagram where
  "demo_answer = demo_datagram\<lparr>dg_src := 3, dg_dst := 1, dg_protocol := IPPROTO_DSR, dg_payload := None,
     dg_is_dsr := True, dg_opts := [new_opt_hdr\<lparr>oh_option := [RrepOpt demo_rrep]\<rparr>], dg_prev := 2, dg_next := 1\<rparr>"

definition demo_reply :: dsr_pkt where
  "demo_reply = (pkt_of_header demo_answer)\<lparr>dp_opth := [new_opt_hdr\<lparr>oh_option := [RrepOpt demo_rrep]\<rparr>],
     dp_ip_pkt := Some demo_answer, dp_rrep_opt := [(0, 0)]\<rparr>"

lemma demo_reply_parsed: "dsr_pkt_alloc False demo_answer = demo_reply"
  by (simp add: dsr_pkt_alloc_def demo_reply_def demo_answer_def demo_datagram_def pkt_of_header_def empty_pkt_def
      dsr_opt_parse_def opt_list_def MAX_RREP_OPTS_def payload_bytes_def new_opt_hdr_def Let_def)

lemma demo_reply_facts: "dp_dst demo_reply = 1" "dp_flags demo_reply = 0" "dp_payload_len demo_reply = 0"
  "dp_rrep_opt demo_reply = [(0, 0)]" "opt_at demo_reply (0, 0) = Some (RrepOpt demo_rrep)"
  "map fst (opt_list demo_reply) = [(0, 0)]" "dp_payload demo_reply = None"
  by (simp_all add: demo_reply_def demo_answer_def pkt_of_header_def empty_pkt_def opt_at_def opt_list_def new_opt_hdr_def)

lemma demo_rrep_received:
  assumes "pathCacheConf (ag_db a)" and "\<not> etxActive (ag_db a)"
  shows "\<exists>dp d. dsr_rrep_opt_recv (0, 0) demo_rrep demo_reply a =
      Some (Inr (if myaddr a = 1 then DSR_PKT_SEND_BUFFERED else DSR_PKT_FORWARD, dp,
        rreq_tbl_route_discovery_cancel 3 (a\<lparr>ag_db := d\<rparr>)))
    \<and> RouteAdd (ag_time a) (Some (demo_short\<lparr>srt_flags := SRT_BIDIR\<rparr>)) (cache_usecs a) 0 (ag_db a) = Inr d
    \<and> dp_flags dp = 0 \<and> rrep_addrs dp = [2, 3, 2, 3] \<and> dp_payload dp = None"
proof -
  have short: "dsr_srt_new 1 3 4 [2] [] = Inr (demo_short\<lparr>srt_flags := SRT_BIDIR\<rparr>)"
    by (simp add: dsr_srt_new_def demo_short_def new_srt_def Let_def)
  obtain d where d: "RouteAdd (ag_time a) (Some (demo_short\<lparr>srt_flags := SRT_BIDIR\<rparr>)) (cache_usecs a) 0 (ag_db a) = Inr d"
    using ph_srt_add_map_returns [of "demo_short\<lparr>srt_flags := SRT_BIDIR\<rparr>" "ag_time a" "cache_usecs a" "ag_db a"] assms(1)
    by (auto simp: RouteAdd_def demo_short_def new_srt_def)
  show ?thesis using assms d short
    by (simp add: dsr_rrep_opt_recv_def demo_reply_facts has_flag_def MAX_RREP_OPTS_def demo_rrep_def
        ActualizeMyCostRrep_def DSR_RREP_ADDRS_LEN_def DSR_ADDRESS_SIZE_def dsr_rtc_add_def Let_def)
      (simp add: rrep_addrs_def opt_at_def set_opt_def demo_reply_def pkt_of_header_def empty_pkt_def new_opt_hdr_def)
qed

text \<open>Node 2 with a packet for node 3 waiting and node 3 sought, when it gets the reply for node 1.\<close>

definition demo_relay :: agent where
  "demo_relay = put_rreq 3 (rreq_tbl_entry_create\<lparr>re_in_disc := True\<rparr>) (demo_waiting\<lparr>ag_db := demo_db 2\<rparr>)"

lemma relayed_reply_strands_witness:
  "\<exists>dp b w. dsr_rrep_opt_recv (0, 0) demo_rrep demo_reply demo_relay = Some (Inr (DSR_PKT_FORWARD, dp, b))
    \<and> re_in_disc (the (dsrRreqTbl demo_relay 3)) \<and> dsrRreqTbl b 3 = None \<and> packetBuffer b = [(3, 0, w)] \<and> ag_outputs b = []"
proof -
  have me: "pathCacheConf (ag_db demo_relay)" "\<not> etxActive (ag_db demo_relay)" "myaddr demo_relay = 2"
    by (simp_all add: demo_relay_def put_rreq_def demo_db_def)
  obtain w where w: "packetBuffer demo_relay = [(3, 0, w)]" "ag_outputs demo_relay = []" "re_in_disc (the (dsrRreqTbl demo_relay 3))"
    using demo_waiting_facts by (auto simp: demo_relay_def put_rreq_def)
  obtain act dp b where b: "dsr_rrep_opt_recv (0, 0) demo_rrep demo_reply demo_relay = Some (Inr (act, dp, b))"
    using demo_rrep_received [OF me(1,2)] by blast
  have "dp_dst demo_reply \<noteq> myaddr demo_relay" "\<not> has_flag demo_reply PKT_PROMISC_RECV"
    "length (dp_rrep_opt demo_reply) < MAX_RREP_OPTS"
    by (simp_all add: demo_reply_facts me has_flag_def MAX_RREP_OPTS_def)
  then show ?thesis using relayed_reply_strands [OF b] b w by (simp add: demo_rrep_def)
qed





end
