(* ===== verification/Tuple_Store.thy ===== *)
theory Tuple_Store
  imports Prelude
begin

text \<open>
  The repositories of an OLSR node are \<open>std::vector\<close>s of pointers to heap objects
  (\<open>OLSR_repositories.h\<close>).  An object taken out of its vector stays alive as long as the timer
  that will delete it, and it is changed through any pointer to it.  A \<open>pool\<close> models one
  such vector together with the objects of its type: the memory, the vector of addresses, and
  the next free address.  The operations below are those of \<open>std::vector\<close> that the source
  uses, plus \<open>new\<close>, \<open>delete\<close> and assignment through a pointer.
\<close>

type_synonym ptr = nat

record 'a pool =
  pmem :: "ptr \<Rightarrow> 'a option"
  pvec :: "ptr list"
  pnext :: ptr

definition empty_pool :: "'a pool" where
  "empty_pool = \<lparr>pmem = (\<lambda>_. None), pvec = [], pnext = 0\<rparr>"

definition deref :: "'a pool \<Rightarrow> ptr \<Rightarrow> 'a" where
  "deref s p = the (pmem s p)"

definition tuples :: "'a pool \<Rightarrow> 'a list" where
  "tuples s = map (deref s) (pvec s)"

text \<open>The search loops: the first element of the vector that satisfies the test.\<close>

definition find_ptr :: "('a \<Rightarrow> bool) \<Rightarrow> 'a pool \<Rightarrow> ptr option" where
  "find_ptr P s = List.find (\<lambda>p. P (deref s p)) (pvec s)"

definition new_obj :: "'a \<Rightarrow> 'a pool \<Rightarrow> ptr \<times> 'a pool" where
  "new_obj t s = (pnext s, s\<lparr>pmem := (pmem s)(pnext s := Some t), pnext := Suc (pnext s)\<rparr>)"

definition push_back :: "ptr \<Rightarrow> 'a pool \<Rightarrow> 'a pool" where
  "push_back p s = s\<lparr>pvec := pvec s @ [p]\<rparr>"

definition set_obj :: "ptr \<Rightarrow> ('a \<Rightarrow> 'a) \<Rightarrow> 'a pool \<Rightarrow> 'a pool" where
  "set_obj p f s = s\<lparr>pmem := (pmem s)(p := map_option f (pmem s p))\<rparr>"

definition delete_obj :: "ptr \<Rightarrow> 'a pool \<Rightarrow> 'a pool" where
  "delete_obj p s = s\<lparr>pmem := (pmem s)(p := None)\<rparr>"

text \<open>\<open>erase\<close> of the first occurrence of a pointer, then \<open>break\<close>.\<close>

definition erase_ptr :: "ptr \<Rightarrow> 'a pool \<Rightarrow> 'a pool" where
  "erase_ptr p s = s\<lparr>pvec := remove1 p (pvec s)\<rparr>"

text \<open>\<open>erase\<close> of the first element that satisfies a test, then \<open>break\<close>.\<close>

definition erase_first :: "('a \<Rightarrow> bool) \<Rightarrow> 'a pool \<Rightarrow> 'a pool" where
  "erase_first P s = (case find_ptr P s of None \<Rightarrow> s | Some p \<Rightarrow> erase_ptr p s)"

text \<open>
  The loop that erases every match and goes on; it also tells whether it erased any (its early
  exit on an emptied vector ends a loop that has nothing left to visit).
\<close>

fun erase_loop :: "(ptr \<Rightarrow> bool) \<Rightarrow> ptr list \<Rightarrow> ptr list \<times> bool" where
  "erase_loop P [] = ([], False)"
| "erase_loop P (p # ps) =
     (let (qs, b) = erase_loop P ps in if P p then (qs, True) else (p # qs, b))"

definition erase_all :: "('a \<Rightarrow> bool) \<Rightarrow> 'a pool \<Rightarrow> 'a pool \<times> bool" where
  "erase_all P s = (let (v, b) = erase_loop (\<lambda>p. P (deref s p)) (pvec s)
     in (s\<lparr>pvec := v\<rparr>, b))"

definition pool_ok :: "'a pool \<Rightarrow> bool" where
  "pool_ok s \<longleftrightarrow> distinct (pvec s) \<and> (\<forall>p\<in>set (pvec s). pmem s p \<noteq> None) \<and>
     (\<forall>p. pmem s p \<noteq> None \<longrightarrow> p < pnext s)"

subsection \<open>Contents after each operation\<close>

lemma erase_loop_filter:
  "erase_loop P ps = (filter (\<lambda>p. \<not> P p) ps, \<exists>p\<in>set ps. P p)"
  by (induction ps) auto

lemma pool_okD:
  assumes "pool_ok s"
  shows "distinct (pvec s)" "p \<in> set (pvec s) \<Longrightarrow> pmem s p \<noteq> None"
    "pmem s p \<noteq> None \<Longrightarrow> p < pnext s" "pmem s (pnext s) = None" "pnext s \<notin> set (pvec s)"
  using assms unfolding pool_ok_def by (blast, blast, blast, force, force)

lemma pool_ok_empty [simp]: "pool_ok empty_pool"
  by (simp add: pool_ok_def empty_pool_def)

lemma tuples_empty [simp]: "tuples empty_pool = []"
  by (simp add: tuples_def empty_pool_def)

lemma find_ptr_None [tuple_simps]:
  "find_ptr P s = None \<longleftrightarrow> (\<forall>t\<in>set (tuples s). \<not> P t)"
  by (auto simp: find_ptr_def tuples_def find_None_iff)

lemma find_ptr_SomeD:
  assumes "find_ptr P s = Some p"
  shows "p \<in> set (pvec s)" "P (deref s p)" "deref s p \<in> set (tuples s)"
  using find_Some_in [of "\<lambda>p. P (deref s p)" "pvec s" p] assms
  by (auto simp: find_ptr_def tuples_def)

text \<open>A vector that gets a fresh object at its end.\<close>

definition add_obj :: "'a \<Rightarrow> 'a pool \<Rightarrow> 'a pool" where
  "add_obj t s = (let (p, s') = new_obj t s in push_back p s')"

lemma tuples_add_obj [tuple_simps]: "pool_ok s \<Longrightarrow> tuples (add_obj t s) = tuples s @ [t]"
  using pool_okD(5) [of s]
  by (auto simp: add_obj_def new_obj_def push_back_def tuples_def deref_def)

lemma pool_ok_add_obj [tuple_simps]: "pool_ok s \<Longrightarrow> pool_ok (add_obj t s)"
  using pool_okD(5) [of s]
  by (auto simp: add_obj_def new_obj_def push_back_def pool_ok_def less_Suc_eq)

lemma pool_ok_set_obj [tuple_simps]: "pool_ok s \<Longrightarrow> pool_ok (set_obj p f s)"
  by (auto simp: set_obj_def pool_ok_def)

lemma tuples_set_obj_map:
  assumes "pool_ok s" and "distinct (map key (tuples s))" and "p \<in> set (pvec s)"
  shows "tuples (set_obj p f s) =
    map (\<lambda>t. if key t = key (deref s p) then f t else t) (tuples s)"
proof -
  have "deref (set_obj p f s) q =
      (if key (deref s q) = key (deref s p) then f (deref s q) else deref s q)"
    if "q \<in> set (pvec s)" for q
  proof -
    have "inj_on (\<lambda>q. key (deref s q)) (set (pvec s))"
      using assms(2) by (simp add: tuples_def distinct_map o_def comp_inj_on_iff inj_on_def)
    then have "key (deref s q) = key (deref s p) \<longleftrightarrow> q = p"
      using that assms(3) by (auto dest: inj_onD)
    then show ?thesis
      using pool_okD(2) [OF assms(1) that] by (auto simp: set_obj_def deref_def)
  qed
  moreover have "pvec (set_obj p f s) = pvec s" by (simp add: set_obj_def)
  ultimately show ?thesis by (simp add: tuples_def)
qed

lemma tuples_set_obj_key [tuple_simps]:
  assumes "\<And>t. key (f t) = key t" and "pool_ok s"
  shows "map key (tuples (set_obj p f s)) = map key (tuples s)"
proof -
  have "key (deref (set_obj p f s) q) = key (deref s q)" if "q \<in> set (pvec s)" for q
    using pool_okD(2) [OF assms(2) that] assms(1) by (auto simp: set_obj_def deref_def)
  then show ?thesis by (simp add: tuples_def set_obj_def)
qed

lemma pool_ok_erase_ptr [tuple_simps]: "pool_ok s \<Longrightarrow> pool_ok (erase_ptr p s)"
  by (auto simp: erase_ptr_def pool_ok_def dest: notin_set_remove1 set_remove1_subset [THEN subsetD])

lemma tuples_erase_ptr:
  assumes "pool_ok s"
  shows "tuples (erase_ptr p s) = map (deref s) (filter (\<lambda>q. q \<noteq> p) (pvec s))"
  using assms
  by (simp add: tuples_def erase_ptr_def remove1_as_filter pool_ok_def deref_def [abs_def])

lemma tuples_erase_ptr_key:
  assumes "pool_ok s" and "distinct (map key (tuples s))" and "p \<in> set (pvec s)"
  shows "tuples (erase_ptr p s) = filter (\<lambda>t. key t \<noteq> key (deref s p)) (tuples s)"
proof -
  have "inj_on (\<lambda>q. key (deref s q)) (set (pvec s))"
    using assms(2) by (simp add: tuples_def distinct_map o_def)
  then have "key (deref s q) = key (deref s p) \<longleftrightarrow> q = p" if "q \<in> set (pvec s)" for q
    using that assms(3) by (auto dest: inj_onD)
  then show ?thesis
    unfolding tuples_erase_ptr [OF assms(1)]
    by (simp add: tuples_def filter_map o_def cong: filter_cong)
qed

lemma set_tuples_erase_ptr: "set (tuples (erase_ptr p s)) \<subseteq> set (tuples s)"
  by (auto simp: tuples_def erase_ptr_def deref_def dest: set_remove1_subset [THEN subsetD])

lemma distinct_erase_ptr [tuple_simps]:
  "distinct (map key (tuples s)) \<Longrightarrow> distinct (map key (tuples (erase_ptr p s)))"
  by (simp add: tuples_def erase_ptr_def deref_def [abs_def] o_def distinct_map_remove1)

lemma pool_ok_erase_first [tuple_simps]: "pool_ok s \<Longrightarrow> pool_ok (erase_first P s)"
  by (auto simp: erase_first_def pool_ok_erase_ptr split: option.splits)

lemma distinct_erase_first [tuple_simps]:
  "distinct (map key (tuples s)) \<Longrightarrow> distinct (map key (tuples (erase_first P s)))"
  by (auto simp: erase_first_def distinct_erase_ptr split: option.splits)

lemma tuples_erase_first_key [tuple_simps]:
  assumes "pool_ok s" and "distinct (map key (tuples s))"
  shows "tuples (erase_first (\<lambda>t. key t = k) s) = filter (\<lambda>t. key t \<noteq> k) (tuples s)"
proof (cases "find_ptr (\<lambda>t. key t = k) s")
  case None
  then have "\<forall>t\<in>set (tuples s). key t \<noteq> k" by (simp add: find_ptr_None)
  then show ?thesis using None by (simp add: erase_first_def filter_id_conv)
next
  case (Some p)
  from find_ptr_SomeD [OF Some] show ?thesis
    using tuples_erase_ptr_key [OF assms, of p] Some by (simp add: erase_first_def)
qed

lemma pool_ok_erase_all [tuple_simps]: "pool_ok s \<Longrightarrow> pool_ok (fst (erase_all P s))"
  by (auto simp: erase_all_def erase_loop_filter pool_ok_def)

lemma tuples_erase_all [tuple_simps]:
  "tuples (fst (erase_all P s)) = filter (\<lambda>t. \<not> P t) (tuples s)"
  by (simp add: erase_all_def erase_loop_filter tuples_def filter_map o_def deref_def [abs_def])

lemma erase_all_found [tuple_simps]: "snd (erase_all P s) \<longleftrightarrow> (\<exists>t\<in>set (tuples s). P t)"
  by (simp add: erase_all_def erase_loop_filter tuples_def)

lemma pool_ok_delete_obj [tuple_simps]:
  "pool_ok s \<Longrightarrow> p \<notin> set (pvec s) \<Longrightarrow> pool_ok (delete_obj p s)"
  by (auto simp: delete_obj_def pool_ok_def)

lemma tuples_delete_obj [tuple_simps]:
  "p \<notin> set (pvec s) \<Longrightarrow> tuples (delete_obj p s) = tuples s"
  by (auto simp: delete_obj_def tuples_def deref_def)

lemma erase_ptr_gone: "pool_ok s \<Longrightarrow> p \<notin> set (pvec (erase_ptr p s))"
  by (auto simp: erase_ptr_def pool_ok_def)

lemma find_ptr_new_obj:
  "pool_ok s \<Longrightarrow> find_ptr P (snd (new_obj t s)) = find_ptr P s"
  using pool_okD(5) [of s]
  by (auto simp: find_ptr_def new_obj_def deref_def intro!: find_cong)

lemma erase_first_new_obj:
  "pool_ok s \<Longrightarrow> erase_first P (snd (new_obj t s)) = snd (new_obj t (erase_first P s))"
  using find_ptr_new_obj [of s P t]
  by (auto simp: erase_first_def erase_ptr_def new_obj_def split: option.split)

lemma pnext_erase_first [simp]: "pnext (erase_first P s) = pnext s"
  by (simp add: erase_first_def erase_ptr_def split: option.split)

subsection \<open>Tuples and the timers that delete them\<close>

text \<open>
  \<open>J\<close> holds the addresses a live timer refers to: none of them dangles, and every tuple of the
  vector is among them, so that each tuple will be deleted in its time.
\<close>

definition watched :: "ptr set \<Rightarrow> 'a pool \<Rightarrow> bool" where
  "watched J s \<longleftrightarrow> (\<forall>p\<in>J. pmem s p \<noteq> None) \<and> set (pvec s) \<subseteq> J"

lemma watched_mem: "watched J s \<Longrightarrow> p \<in> J \<Longrightarrow> pmem s p \<noteq> None"
  by (simp add: watched_def)

lemma watched_empty [simp]: "watched {} empty_pool"
  by (simp add: watched_def empty_pool_def)

lemma watched_set_obj [tuple_simps]: "watched J (set_obj p f s) = watched J s"
  by (auto simp: watched_def set_obj_def)

lemma watched_erase_ptr [tuple_simps]: "watched J s \<Longrightarrow> watched J (erase_ptr p s)"
  by (auto simp: watched_def erase_ptr_def dest: set_remove1_subset [THEN subsetD])

lemma watched_erase_first [tuple_simps]: "watched J s \<Longrightarrow> watched J (erase_first P s)"
  by (auto simp: erase_first_def watched_erase_ptr split: option.split)

lemma watched_erase_all [tuple_simps]: "watched J s \<Longrightarrow> watched J (fst (erase_all P s))"
  by (auto simp: watched_def erase_all_def erase_loop_filter)

lemma watched_add_obj: "watched J s \<Longrightarrow> watched (insert (pnext s) J) (add_obj t s)"
  by (auto simp: watched_def add_obj_def new_obj_def push_back_def)

lemma watched_fresh: "watched J s \<Longrightarrow> pool_ok s \<Longrightarrow> pnext s \<notin> J"
  using pool_okD(4) [of s] by (auto simp: watched_def)

lemma watched_delete:
  "watched (insert p J) s \<Longrightarrow> p \<notin> J \<Longrightarrow> pool_ok s \<Longrightarrow> watched J (delete_obj p (erase_ptr p s))"
  by (auto simp: watched_def delete_obj_def erase_ptr_def pool_ok_def)

text \<open>The same without the second half, for a vector that also holds tuples that never go.\<close>

definition held :: "ptr set \<Rightarrow> 'a pool \<Rightarrow> bool" where
  "held J s \<longleftrightarrow> (\<forall>p\<in>J. pmem s p \<noteq> None)"

lemma held_empty [simp]: "held {} s"
  by (simp add: held_def)

lemma held_set_obj [tuple_simps]: "held J (set_obj p f s) = held J s"
  by (auto simp: held_def set_obj_def)

lemma held_add_obj: "held J s \<Longrightarrow> held (insert (pnext s) J) (add_obj t s)"
  by (auto simp: held_def add_obj_def new_obj_def push_back_def)

lemma held_fresh: "held J s \<Longrightarrow> pool_ok s \<Longrightarrow> pnext s \<notin> J"
  using pool_okD(4) [of s] by (auto simp: held_def)

lemma held_delete: "held (insert p J) s \<Longrightarrow> p \<notin> J \<Longrightarrow> held J (delete_obj p (erase_ptr p s))"
  by (auto simp: held_def delete_obj_def erase_ptr_def)

subsection \<open>The interface the agent relies on\<close>

text \<open>
  A set of tuples with a key: find the tuple with a given key, add a fresh one, change one in
  place.  The agent's handlers rest on one pattern over it, ``refresh the tuple if it is there,
  otherwise record a new one'', which keeps the keys unique.
\<close>

locale tuple_set =
  fixes contents :: "'s \<Rightarrow> 't list"
    and key :: "'t \<Rightarrow> 'k"
    and lookup :: "'s \<Rightarrow> 'k \<Rightarrow> ptr option"
    and fetch :: "'s \<Rightarrow> ptr \<Rightarrow> 't"
    and add_new :: "'t \<Rightarrow> 's \<Rightarrow> 's"
    and change :: "ptr \<Rightarrow> ('t \<Rightarrow> 't) \<Rightarrow> 's \<Rightarrow> 's"
    and wf :: "'s \<Rightarrow> bool"
  assumes lookup_none: "lookup s k = None \<longleftrightarrow> k \<notin> key ` set (contents s)"
    and lookup_some: "lookup s k = Some p \<Longrightarrow> fetch s p \<in> set (contents s) \<and> key (fetch s p) = k"
    and contents_add: "wf s \<Longrightarrow> contents (add_new t s) = contents s @ [t]"
    and wf_add: "wf s \<Longrightarrow> wf (add_new t s)"
    and contents_change: "wf s \<Longrightarrow> distinct (map key (contents s)) \<Longrightarrow> lookup s k = Some p \<Longrightarrow>
      contents (change p f s) = map (\<lambda>t. if key t = k then f t else t) (contents s)"
    and wf_change: "wf s \<Longrightarrow> wf (change p f s)"
begin

definition unique :: "'s \<Rightarrow> bool" where
  "unique s \<longleftrightarrow> wf s \<and> distinct (map key (contents s))"

definition refresh :: "'k \<Rightarrow> 't \<Rightarrow> ('t \<Rightarrow> 't) \<Rightarrow> 's \<Rightarrow> 's" where
  "refresh k t f s = (case lookup s k of None \<Rightarrow> add_new t s | Some p \<Rightarrow> change p f s)"

lemma unique_add: "unique s \<Longrightarrow> lookup s (key t) = None \<Longrightarrow> unique (add_new t s)"
  by (auto simp: unique_def wf_add contents_add lookup_none)

lemma unique_change:
  assumes "unique s" and "lookup s k = Some p" and "\<And>t. key (f t) = key t"
  shows "unique (change p f s)"
proof -
  have "map key (contents (change p f s)) = map key (contents s)"
    using assms by (auto simp: unique_def contents_change)
  then show ?thesis using assms(1) by (simp add: unique_def wf_change)
qed

lemma unique_refresh:
  assumes "unique s" and "key t = k" and "\<And>t. key (f t) = key t"
  shows "unique (refresh k t f s)"
  using assms by (auto simp: refresh_def split: option.split intro: unique_add unique_change)

lemma contents_refresh:
  assumes "unique s" and "key t = k"
  shows "contents (refresh k t f s) =
    (if k \<in> key ` set (contents s)
     then map (\<lambda>u. if key u = k then f u else u) (contents s) else contents s @ [t])"
  using assms lookup_none [of s k]
  by (auto simp: refresh_def unique_def contents_add contents_change split: option.split)

lemma refresh_present:
  assumes "unique s" and "key t = k" and "\<And>t. key (f t) = key t"
  shows "\<exists>u\<in>set (contents (refresh k t f s)). key u = k"
proof (cases "k \<in> key ` set (contents s)")
  case True
  then obtain u where u: "u \<in> set (contents s)" "key u = k" by auto
  then have "f u \<in> set (contents (refresh k t f s))"
    using True assms by (force simp: contents_refresh)
  then show ?thesis using u(2) assms(3) by blast
qed (use assms in \<open>simp add: contents_refresh\<close>)

text \<open>Refreshing one key after another: \<open>mk k\<close> is the tuple recorded for a key that is not there.\<close>

lemma refresh_others:
  assumes "unique s" and "key t = k" and "\<And>v. key (f v) = key v" and "key u \<noteq> k"
  shows "u \<in> set (contents (refresh k t f s)) \<longleftrightarrow> u \<in> set (contents s)"
  using assms by (auto simp: contents_refresh)

lemma refresh_hit:
  assumes "unique s" and "key t = k" and "\<And>v. key (f v) = key v"
    and "u \<in> set (contents (refresh k t f s))" and "key u = k" and "P t" and "\<And>v. P (f v)"
  shows "P u"
proof (cases "k \<in> key ` set (contents s)")
  case True
  then have "u \<in> (\<lambda>v. if key v = k then f v else v) ` set (contents s)"
    using assms(1,2,4) by (simp add: contents_refresh)
  then obtain v where "u = (if key v = k then f v else v)" by blast
  then show ?thesis using assms(5,7) by (auto split: if_splits)
next
  case False
  then have "u \<in> set (contents s) \<or> u = t" using assms(1,2,4) by (auto simp: contents_refresh)
  then show ?thesis using False assms(5,6) by auto
qed

text \<open>Refreshing one key after another: \<open>mk k\<close> is the tuple recorded for a key that is not there.\<close>

definition refresh_all :: "('k \<Rightarrow> 't) \<Rightarrow> ('t \<Rightarrow> 't) \<Rightarrow> 'k list \<Rightarrow> 's \<Rightarrow> 's" where
  "refresh_all mk f ks s = foldl (\<lambda>s k. refresh k (mk k) f s) s ks"

lemma refresh_all_snoc:
  "refresh_all mk f (ks @ [k]) s = refresh k (mk k) f (refresh_all mk f ks s)"
  by (simp add: refresh_all_def)

lemma unique_refresh_all:
  assumes "unique s" and "\<And>k. key (mk k) = k" and "\<And>t. key (f t) = key t"
  shows "unique (refresh_all mk f ks s)"
proof (induction ks rule: rev_induct)
  case (snoc k ks)
  then show ?case using unique_refresh [OF _ assms(2,3)] by (simp add: refresh_all_snoc)
qed (simp add: refresh_all_def assms(1))

lemma refresh_all_others:
  assumes "unique s" and "\<And>k. key (mk k) = k" and "\<And>t. key (f t) = key t" and "key u \<notin> set ks"
  shows "u \<in> set (contents (refresh_all mk f ks s)) \<longleftrightarrow> u \<in> set (contents s)"
  using assms(4)
proof (induction ks rule: rev_induct)
  case (snoc k ks)
  then show ?case
    using refresh_others [OF unique_refresh_all [OF assms(1-3)] assms(2,3), of u k ks]
    by (simp add: refresh_all_snoc)
qed (simp add: refresh_all_def)

lemma refresh_all_present:
  assumes "unique s" and "\<And>k. key (mk k) = k" and "\<And>t. key (f t) = key t" and "k \<in> set ks"
  shows "\<exists>u\<in>set (contents (refresh_all mk f ks s)). key u = k"
  using assms(4)
proof (induction ks rule: rev_induct)
  case (snoc k' ks)
  note u = unique_refresh_all [OF assms(1-3), of ks]
  show ?case
  proof (cases "k = k'")
    case True
    then show ?thesis using refresh_present [OF u assms(2,3)] by (simp add: refresh_all_snoc)
  next
    case False
    then obtain v where "v \<in> set (contents (refresh_all mk f ks s))" "key v = k"
      using snoc by auto
    then show ?thesis using refresh_others [OF u assms(2,3), of v k'] False
      by (auto simp: refresh_all_snoc)
  qed
qed simp

lemma refresh_all_hit:
  assumes "unique s" and "\<And>k. key (mk k) = k" and "\<And>t. key (f t) = key t"
    and "u \<in> set (contents (refresh_all mk f ks s))" and "key u \<in> set ks"
    and "\<And>k. P (mk k)" and "\<And>t. P (f t)"
  shows "P u"
  using assms(4,5)
proof (induction ks rule: rev_induct)
  case (snoc k ks)
  note u = unique_refresh_all [OF assms(1-3), of ks]
  have r: "u \<in> set (contents (refresh k (mk k) f (refresh_all mk f ks s)))"
    using snoc.prems(1) by (simp add: refresh_all_snoc)
  show ?case
  proof (cases "key u = k")
    case True
    then show ?thesis using refresh_hit [OF u assms(2,3) r] assms(6,7) by blast
  next
    case False
    then show ?thesis using snoc refresh_others [OF u assms(2,3) False] r by auto
  qed
qed simp

lemma refresh_all_keeps:
  assumes "unique s" and "\<And>k. key (mk k) = k" and "\<And>t. key (f t) = key t"
    and "\<And>u. u \<in> set (contents s) \<Longrightarrow> P u" and "\<And>k. P (mk k)" and "\<And>t. P t \<Longrightarrow> P (f t)"
    and "u \<in> set (contents (refresh_all mk f ks s))"
  shows "P u"
  using assms(7)
proof (induction ks arbitrary: u rule: rev_induct)
  case (snoc k ks)
  note u = unique_refresh_all [OF assms(1-3), of ks]
  then show ?case using snoc assms(2,5,6)
    by (auto simp: refresh_all_snoc contents_refresh split: if_splits)
qed (simp add: refresh_all_def assms(4))

end

text \<open>Every pool is such a set, whatever the key.\<close>

lemma pool_tuple_set:
  "tuple_set tuples key (\<lambda>s k. find_ptr (\<lambda>t. key t = k) s) deref add_obj set_obj pool_ok"
proof
  fix s :: "'a pool" and k :: 'b and p t f
  show "find_ptr (\<lambda>t. key t = k) s = None \<longleftrightarrow> k \<notin> key ` set (tuples s)"
    by (auto simp: find_ptr_None)
  show "find_ptr (\<lambda>t. key t = k) s = Some p \<Longrightarrow> deref s p \<in> set (tuples s) \<and> key (deref s p) = k"
    using find_ptr_SomeD by fastforce
  assume ok: "pool_ok s"
  show "tuples (add_obj t s) = tuples s @ [t]" "pool_ok (add_obj t s)" "pool_ok (set_obj p f s)"
    using ok by (simp_all add: tuple_simps)
  show "distinct (map key (tuples s)) \<Longrightarrow> find_ptr (\<lambda>t. key t = k) s = Some p \<Longrightarrow>
      tuples (set_obj p f s) = map (\<lambda>t. if key t = k then f t else t) (tuples s)"
    using ok find_ptr_SomeD tuples_set_obj_map by fastforce
qed

text \<open>A structure that keeps a pool in one of its fields provides the interface with that field.\<close>

lemma field_tuple_set:
  assumes look: "\<And>st k. look st k = find_ptr (\<lambda>t. key t = k) (get st)"
    and add: "\<And>t st. get (add t st) = add_obj t (get st)"
    and change: "\<And>p f st. get (change p f st) = set_obj p f (get st)"
  shows "tuple_set (\<lambda>st. tuples (get st)) key look (\<lambda>st. deref (get st)) add change
    (\<lambda>st. pool_ok (get st))"
  using pool_tuple_set [of key] unfolding tuple_set_def look add change by blast

end
