(* ===== verification/Olsr_Repositories.thy ===== *)
theory Olsr_Repositories
  imports L3_Address Tuple_Store
begin

text \<open>
  The data an OLSR node stores (\<open>OLSR_repositories.h\<close>), one record per tuple type, and the
  constants of \<open>OLSR.h\<close> that give the status and type fields their meaning.  The back pointer
  \<open>asocTimer\<close> of the tuples is written and never read, so the records do not have it; the memory
  management of the tuples is that of \<open>Tuple_Store\<close>.
\<close>

subsection \<open>Constants\<close>

definition OLSR_UNSPEC_LINK :: nat where "OLSR_UNSPEC_LINK = 0"
definition OLSR_ASYM_LINK :: nat where "OLSR_ASYM_LINK = 1"
definition OLSR_SYM_LINK :: nat where "OLSR_SYM_LINK = 2"
definition OLSR_LOST_LINK :: nat where "OLSR_LOST_LINK = 3"

definition OLSR_NOT_NEIGH :: nat where "OLSR_NOT_NEIGH = 0"
definition OLSR_SYM_NEIGH :: nat where "OLSR_SYM_NEIGH = 1"
definition OLSR_MPR_NEIGH :: nat where "OLSR_MPR_NEIGH = 2"

definition OLSR_WILL_NEVER :: u8 where "OLSR_WILL_NEVER = 0"
definition OLSR_WILL_DEFAULT :: u8 where "OLSR_WILL_DEFAULT = 3"
definition OLSR_WILL_ALWAYS :: u8 where "OLSR_WILL_ALWAYS = 7"

definition OLSR_STATUS_NOT_SYM :: u8 where "OLSR_STATUS_NOT_SYM = 0"
definition OLSR_STATUS_SYM :: u8 where "OLSR_STATUS_SYM = 1"

definition OLSR_DUP_HOLD_TIME :: simtime where "OLSR_DUP_HOLD_TIME = 30"

lemmas olsr_link_types =
  OLSR_UNSPEC_LINK_def OLSR_ASYM_LINK_def OLSR_SYM_LINK_def OLSR_LOST_LINK_def
lemmas olsr_neigh_types = OLSR_NOT_NEIGH_def OLSR_SYM_NEIGH_def OLSR_MPR_NEIGH_def
lemmas olsr_willingness = OLSR_WILL_NEVER_def OLSR_WILL_DEFAULT_def OLSR_WILL_ALWAYS_def
lemmas olsr_status = OLSR_STATUS_NOT_SYM_def OLSR_STATUS_SYM_def
lemmas olsr_consts =
  olsr_link_types olsr_neigh_types olsr_willingness olsr_status OLSR_DUP_HOLD_TIME_def

lemma olsr_status_neq [simp]:
  "OLSR_STATUS_NOT_SYM \<noteq> OLSR_STATUS_SYM" "OLSR_STATUS_SYM \<noteq> OLSR_STATUS_NOT_SYM"
  "OLSR_WILL_ALWAYS \<noteq> OLSR_WILL_NEVER" "OLSR_WILL_NEVER \<noteq> OLSR_WILL_ALWAYS"
  by (simp_all add: olsr_status olsr_willingness)

subsection \<open>Tuples\<close>

record rt_entry =
  dest_addr :: addr
  next_addr :: addr
  iface_addr :: addr
  dist :: nat
  quality :: real
  delay :: real
  rt_index :: int
  route :: "addr list"

record iface_assoc_tuple =
  ia_iface_addr :: addr
  ia_main_addr :: addr
  ia_time :: simtime
  ia_index :: int

record link_tuple =
  l_local_iface_addr :: addr
  l_nb_iface_addr :: addr
  l_sym_time :: simtime
  l_asym_time :: simtime
  l_lost_time :: simtime
  l_time :: simtime
  l_index :: int

record nb_tuple =
  nb_main_addr :: addr
  nb_status :: u8
  nb_willingness :: u8

record nb2hop_tuple =
  n2_nb_main_addr :: addr
  n2_nb2hop_addr :: addr
  n2_time :: simtime

record mprsel_tuple =
  ms_main_addr :: addr
  ms_time :: simtime

record dup_tuple =
  d_addr :: addr
  d_seq_num :: u16
  d_retransmitted :: bool
  d_iface_list :: "addr list"
  d_time :: simtime

record topology_tuple =
  t_dest_addr :: addr
  t_last_addr :: addr
  t_seq :: u16
  t_time :: simtime
  t_index :: int

text \<open>What identifies a tuple within its set.\<close>

definition ia_key :: "iface_assoc_tuple \<Rightarrow> addr \<times> addr" where
  "ia_key t = (ia_iface_addr t, ia_main_addr t)"

definition n2_key :: "nb2hop_tuple \<Rightarrow> addr \<times> addr" where
  "n2_key t = (n2_nb_main_addr t, n2_nb2hop_addr t)"

definition d_key :: "dup_tuple \<Rightarrow> addr \<times> u16" where
  "d_key t = (d_addr t, d_seq_num t)"

definition t_key :: "topology_tuple \<Rightarrow> addr \<times> addr" where
  "t_key t = (t_dest_addr t, t_last_addr t)"

lemmas tuple_keys = ia_key_def n2_key_def d_key_def t_key_def

lemma tuple_key_updates [simp]:
  "ia_key (t1\<lparr>ia_time := x\<rparr>) = ia_key t1"
  "n2_key (t2\<lparr>n2_time := x\<rparr>) = n2_key t2"
  "d_key (t3\<lparr>d_time := x\<rparr>) = d_key t3"
  "d_key (t3\<lparr>d_retransmitted := r\<rparr>) = d_key t3"
  "d_key (t3\<lparr>d_iface_list := l\<rparr>) = d_key t3"
  "t_key (t4\<lparr>t_time := x\<rparr>) = t_key t4"
  by (simp_all add: tuple_keys)

end
