(* ===== verification/Olsr_State.thy ===== *)
theory Olsr_State
  imports Olsr_Repositories
begin

text \<open>
  The internal state of an OLSR node, \<open>OLSR_state.cc\<close>: seven vectors of tuples and the MPR set,
  each with the operations that search it, add to it and erase from it, in the order of the
  source.  The second half interprets the interface \<open>tuple_set\<close> on each of them and states the
  invariant of the whole state: every vector is well formed and no two of its tuples have the
  same key.
\<close>

record olsr_state =
  linkset :: "link_tuple pool"
  nbset :: "nb_tuple pool"
  nb2hopset :: "nb2hop_tuple pool"
  topologyset :: "topology_tuple pool"
  mprset :: "addr set"
  mprselset :: "mprsel_tuple pool"
  dupset :: "dup_tuple pool"
  ifaceassocset :: "iface_assoc_tuple pool"

definition OLSR_state_init :: olsr_state where
  "OLSR_state_init = \<lparr>linkset = empty_pool, nbset = empty_pool, nb2hopset = empty_pool,
     topologyset = empty_pool, mprset = {}, mprselset = empty_pool, dupset = empty_pool,
     ifaceassocset = empty_pool\<rparr>"

subsection \<open>MPR selector set\<close>

definition find_mprsel_tuple :: "olsr_state \<Rightarrow> addr \<Rightarrow> ptr option" where
  "find_mprsel_tuple st main_addr = find_ptr (\<lambda>t. ms_main_addr t = main_addr) (mprselset st)"

definition erase_mprsel_tuple :: "ptr \<Rightarrow> olsr_state \<Rightarrow> olsr_state" where
  "erase_mprsel_tuple p st = st\<lparr>mprselset := erase_ptr p (mprselset st)\<rparr>"

definition erase_mprsel_tuples :: "addr \<Rightarrow> olsr_state \<Rightarrow> olsr_state \<times> bool" where
  "erase_mprsel_tuples main_addr st =
     (let (s, topologyChanged) = erase_all (\<lambda>t. ms_main_addr t = main_addr) (mprselset st)
      in (st\<lparr>mprselset := s\<rparr>, topologyChanged))"

definition insert_mprsel_tuple :: "ptr \<Rightarrow> olsr_state \<Rightarrow> olsr_state" where
  "insert_mprsel_tuple p st = st\<lparr>mprselset := push_back p (mprselset st)\<rparr>"

subsection \<open>Neighbor set\<close>

definition find_nb_tuple :: "olsr_state \<Rightarrow> addr \<Rightarrow> ptr option" where
  "find_nb_tuple st main_addr = find_ptr (\<lambda>t. nb_main_addr t = main_addr) (nbset st)"

definition find_sym_nb_tuple :: "olsr_state \<Rightarrow> addr \<Rightarrow> ptr option" where
  "find_sym_nb_tuple st main_addr =
     find_ptr (\<lambda>t. nb_main_addr t = main_addr \<and> nb_status t = OLSR_STATUS_SYM) (nbset st)"

definition find_nb_tuple_will :: "olsr_state \<Rightarrow> addr \<Rightarrow> u8 \<Rightarrow> ptr option" where
  "find_nb_tuple_will st main_addr willingness =
     find_ptr (\<lambda>t. nb_main_addr t = main_addr \<and> nb_willingness t = willingness) (nbset st)"

definition erase_nb_tuple :: "ptr \<Rightarrow> olsr_state \<Rightarrow> olsr_state" where
  "erase_nb_tuple p st = st\<lparr>nbset := erase_ptr p (nbset st)\<rparr>"

definition erase_nb_tuple_addr :: "addr \<Rightarrow> olsr_state \<Rightarrow> olsr_state" where
  "erase_nb_tuple_addr main_addr st =
     st\<lparr>nbset := erase_first (\<lambda>t. nb_main_addr t = main_addr) (nbset st)\<rparr>"

definition insert_nb_tuple :: "ptr \<Rightarrow> olsr_state \<Rightarrow> olsr_state" where
  "insert_nb_tuple p st = st\<lparr>nbset := push_back p (nbset st)\<rparr>"

subsection \<open>2-hop neighbor set\<close>

definition find_nb2hop_tuple :: "olsr_state \<Rightarrow> addr \<Rightarrow> addr \<Rightarrow> ptr option" where
  "find_nb2hop_tuple st nb_addr nb2hop =
     find_ptr (\<lambda>t. n2_nb_main_addr t = nb_addr \<and> n2_nb2hop_addr t = nb2hop) (nb2hopset st)"

definition erase_nb2hop_tuple :: "ptr \<Rightarrow> olsr_state \<Rightarrow> olsr_state" where
  "erase_nb2hop_tuple p st = st\<lparr>nb2hopset := erase_ptr p (nb2hopset st)\<rparr>"

definition erase_nb2hop_tuples2 :: "addr \<Rightarrow> addr \<Rightarrow> olsr_state \<Rightarrow> olsr_state \<times> bool" where
  "erase_nb2hop_tuples2 nb_addr nb2hop st =
     (let (s, returnValue) = erase_all
        (\<lambda>t. n2_nb_main_addr t = nb_addr \<and> n2_nb2hop_addr t = nb2hop) (nb2hopset st)
      in (st\<lparr>nb2hopset := s\<rparr>, returnValue))"

definition erase_nb2hop_tuples :: "addr \<Rightarrow> olsr_state \<Rightarrow> olsr_state \<times> bool" where
  "erase_nb2hop_tuples nb_addr st =
     (let (s, topologyChanged) = erase_all (\<lambda>t. n2_nb_main_addr t = nb_addr) (nb2hopset st)
      in (st\<lparr>nb2hopset := s\<rparr>, topologyChanged))"

definition insert_nb2hop_tuple :: "ptr \<Rightarrow> olsr_state \<Rightarrow> olsr_state" where
  "insert_nb2hop_tuple p st = st\<lparr>nb2hopset := push_back p (nb2hopset st)\<rparr>"

subsection \<open>MPR set\<close>

definition find_mpr_addr :: "olsr_state \<Rightarrow> addr \<Rightarrow> bool" where
  "find_mpr_addr st a \<longleftrightarrow> a \<in> mprset st"

definition insert_mpr_addr :: "addr \<Rightarrow> olsr_state \<Rightarrow> olsr_state" where
  "insert_mpr_addr a st = st\<lparr>mprset := insert a (mprset st)\<rparr>"

definition clear_mprset :: "olsr_state \<Rightarrow> olsr_state" where
  "clear_mprset st = st\<lparr>mprset := {}\<rparr>"

subsection \<open>Duplicate set\<close>

definition find_dup_tuple :: "olsr_state \<Rightarrow> addr \<Rightarrow> u16 \<Rightarrow> ptr option" where
  "find_dup_tuple st a seq_num =
     find_ptr (\<lambda>t. d_addr t = a \<and> d_seq_num t = seq_num) (dupset st)"

definition erase_dup_tuple :: "ptr \<Rightarrow> olsr_state \<Rightarrow> olsr_state" where
  "erase_dup_tuple p st = st\<lparr>dupset := erase_ptr p (dupset st)\<rparr>"

definition insert_dup_tuple :: "ptr \<Rightarrow> olsr_state \<Rightarrow> olsr_state" where
  "insert_dup_tuple p st = st\<lparr>dupset := push_back p (dupset st)\<rparr>"

subsection \<open>Link set\<close>

definition find_link_tuple :: "olsr_state \<Rightarrow> addr \<Rightarrow> ptr option" where
  "find_link_tuple st iface = find_ptr (\<lambda>t. l_nb_iface_addr t = iface) (linkset st)"

text \<open>The loop stops at the first tuple of the interface, symmetric or not.\<close>

definition find_sym_link_tuple :: "olsr_state \<Rightarrow> addr \<Rightarrow> simtime \<Rightarrow> ptr option" where
  "find_sym_link_tuple st iface now =
     (case find_ptr (\<lambda>t. l_nb_iface_addr t = iface) (linkset st) of
        None \<Rightarrow> None
      | Some p \<Rightarrow> if l_sym_time (deref (linkset st) p) > now then Some p else None)"

definition erase_link_tuple :: "ptr \<Rightarrow> olsr_state \<Rightarrow> olsr_state" where
  "erase_link_tuple p st = st\<lparr>linkset := erase_ptr p (linkset st)\<rparr>"

definition insert_link_tuple :: "ptr \<Rightarrow> olsr_state \<Rightarrow> olsr_state" where
  "insert_link_tuple p st = st\<lparr>linkset := push_back p (linkset st)\<rparr>"

subsection \<open>Topology set\<close>

definition find_topology_tuple :: "olsr_state \<Rightarrow> addr \<Rightarrow> addr \<Rightarrow> ptr option" where
  "find_topology_tuple st dest last_addr =
     find_ptr (\<lambda>t. t_dest_addr t = dest \<and> t_last_addr t = last_addr) (topologyset st)"

definition find_newer_topology_tuple :: "olsr_state \<Rightarrow> addr \<Rightarrow> u16 \<Rightarrow> ptr option" where
  "find_newer_topology_tuple st last_addr ansn =
     find_ptr (\<lambda>t. t_last_addr t = last_addr \<and> t_seq t > ansn) (topologyset st)"

definition erase_topology_tuple :: "ptr \<Rightarrow> olsr_state \<Rightarrow> olsr_state" where
  "erase_topology_tuple p st = st\<lparr>topologyset := erase_ptr p (topologyset st)\<rparr>"

definition erase_older_topology_tuples :: "addr \<Rightarrow> u16 \<Rightarrow> olsr_state \<Rightarrow> olsr_state" where
  "erase_older_topology_tuples last_addr ansn st =
     st\<lparr>topologyset :=
       fst (erase_all (\<lambda>t. t_last_addr t = last_addr \<and> t_seq t < ansn) (topologyset st))\<rparr>"

definition insert_topology_tuple :: "ptr \<Rightarrow> olsr_state \<Rightarrow> olsr_state" where
  "insert_topology_tuple p st = st\<lparr>topologyset := push_back p (topologyset st)\<rparr>"

subsection \<open>Interface association set\<close>

definition find_ifaceassoc_tuple :: "olsr_state \<Rightarrow> addr \<Rightarrow> ptr option" where
  "find_ifaceassoc_tuple st iface =
     find_ptr (\<lambda>t. ia_iface_addr t = iface) (ifaceassocset st)"

definition erase_ifaceassoc_tuple :: "ptr \<Rightarrow> olsr_state \<Rightarrow> olsr_state" where
  "erase_ifaceassoc_tuple p st = st\<lparr>ifaceassocset := erase_ptr p (ifaceassocset st)\<rparr>"

definition insert_ifaceassoc_tuple :: "ptr \<Rightarrow> olsr_state \<Rightarrow> olsr_state" where
  "insert_ifaceassoc_tuple p st = st\<lparr>ifaceassocset := push_back p (ifaceassocset st)\<rparr>"

subsection \<open>Clearing and copying\<close>

definition clear_pool :: "'a pool \<Rightarrow> 'a pool" where
  "clear_pool s = s\<lparr>pmem := (\<lambda>p. if p \<in> set (pvec s) then None else pmem s p), pvec := []\<rparr>"

definition clear_all :: "olsr_state \<Rightarrow> olsr_state" where
  "clear_all st = st\<lparr>linkset := clear_pool (linkset st), nbset := clear_pool (nbset st),
     nb2hopset := clear_pool (nb2hopset st), topologyset := clear_pool (topologyset st),
     mprselset := clear_pool (mprselset st), dupset := clear_pool (dupset st),
     ifaceassocset := clear_pool (ifaceassocset st), mprset := {}\<rparr>"

text \<open>The copy constructor: a fresh copy of every tuple, pushed back in the same order.\<close>

definition copy_pool :: "'a pool \<Rightarrow> 'a pool" where
  "copy_pool s = foldl (\<lambda>c t. add_obj t c) empty_pool (tuples s)"

definition OLSR_state_copy :: "olsr_state \<Rightarrow> olsr_state" where
  "OLSR_state_copy st = \<lparr>linkset = copy_pool (linkset st), nbset = copy_pool (nbset st),
     nb2hopset = copy_pool (nb2hopset st), topologyset = copy_pool (topologyset st),
     mprset = mprset st, mprselset = copy_pool (mprselset st), dupset = copy_pool (dupset st),
     ifaceassocset = copy_pool (ifaceassocset st)\<rparr>"

lemmas olsr_find_defs =
  find_mprsel_tuple_def find_nb_tuple_def find_sym_nb_tuple_def find_nb_tuple_will_def
  find_nb2hop_tuple_def find_mpr_addr_def find_dup_tuple_def find_link_tuple_def
  find_sym_link_tuple_def find_topology_tuple_def find_newer_topology_tuple_def
  find_ifaceassoc_tuple_def

subsection \<open>Allocation and assignment through a pointer\<close>

text \<open>\<open>new\<close> of a tuple, and assignment to the fields of the tuple a pointer leads to.\<close>

definition new_link :: "link_tuple \<Rightarrow> olsr_state \<Rightarrow> ptr \<times> olsr_state" where
  "new_link t st = (let (p, s) = new_obj t (linkset st) in (p, st\<lparr>linkset := s\<rparr>))"

definition set_link :: "ptr \<Rightarrow> (link_tuple \<Rightarrow> link_tuple) \<Rightarrow> olsr_state \<Rightarrow> olsr_state" where
  "set_link p f st = st\<lparr>linkset := set_obj p f (linkset st)\<rparr>"

definition delete_link :: "ptr \<Rightarrow> olsr_state \<Rightarrow> olsr_state" where
  "delete_link p st = st\<lparr>linkset := delete_obj p (linkset st)\<rparr>"

definition new_nb :: "nb_tuple \<Rightarrow> olsr_state \<Rightarrow> ptr \<times> olsr_state" where
  "new_nb t st = (let (p, s) = new_obj t (nbset st) in (p, st\<lparr>nbset := s\<rparr>))"

definition set_nb :: "ptr \<Rightarrow> (nb_tuple \<Rightarrow> nb_tuple) \<Rightarrow> olsr_state \<Rightarrow> olsr_state" where
  "set_nb p f st = st\<lparr>nbset := set_obj p f (nbset st)\<rparr>"

definition delete_nb :: "ptr \<Rightarrow> olsr_state \<Rightarrow> olsr_state" where
  "delete_nb p st = st\<lparr>nbset := delete_obj p (nbset st)\<rparr>"

definition new_nb2hop :: "nb2hop_tuple \<Rightarrow> olsr_state \<Rightarrow> ptr \<times> olsr_state" where
  "new_nb2hop t st = (let (p, s) = new_obj t (nb2hopset st) in (p, st\<lparr>nb2hopset := s\<rparr>))"

definition set_nb2hop :: "ptr \<Rightarrow> (nb2hop_tuple \<Rightarrow> nb2hop_tuple) \<Rightarrow> olsr_state \<Rightarrow> olsr_state" where
  "set_nb2hop p f st = st\<lparr>nb2hopset := set_obj p f (nb2hopset st)\<rparr>"

definition delete_nb2hop :: "ptr \<Rightarrow> olsr_state \<Rightarrow> olsr_state" where
  "delete_nb2hop p st = st\<lparr>nb2hopset := delete_obj p (nb2hopset st)\<rparr>"

definition new_topology :: "topology_tuple \<Rightarrow> olsr_state \<Rightarrow> ptr \<times> olsr_state" where
  "new_topology t st = (let (p, s) = new_obj t (topologyset st) in (p, st\<lparr>topologyset := s\<rparr>))"

definition set_topology :: "ptr \<Rightarrow> (topology_tuple \<Rightarrow> topology_tuple) \<Rightarrow> olsr_state \<Rightarrow> olsr_state" where
  "set_topology p f st = st\<lparr>topologyset := set_obj p f (topologyset st)\<rparr>"

definition delete_topology :: "ptr \<Rightarrow> olsr_state \<Rightarrow> olsr_state" where
  "delete_topology p st = st\<lparr>topologyset := delete_obj p (topologyset st)\<rparr>"

definition new_mprsel :: "mprsel_tuple \<Rightarrow> olsr_state \<Rightarrow> ptr \<times> olsr_state" where
  "new_mprsel t st = (let (p, s) = new_obj t (mprselset st) in (p, st\<lparr>mprselset := s\<rparr>))"

definition set_mprsel :: "ptr \<Rightarrow> (mprsel_tuple \<Rightarrow> mprsel_tuple) \<Rightarrow> olsr_state \<Rightarrow> olsr_state" where
  "set_mprsel p f st = st\<lparr>mprselset := set_obj p f (mprselset st)\<rparr>"

definition delete_mprsel :: "ptr \<Rightarrow> olsr_state \<Rightarrow> olsr_state" where
  "delete_mprsel p st = st\<lparr>mprselset := delete_obj p (mprselset st)\<rparr>"

definition new_dup :: "dup_tuple \<Rightarrow> olsr_state \<Rightarrow> ptr \<times> olsr_state" where
  "new_dup t st = (let (p, s) = new_obj t (dupset st) in (p, st\<lparr>dupset := s\<rparr>))"

definition set_dup :: "ptr \<Rightarrow> (dup_tuple \<Rightarrow> dup_tuple) \<Rightarrow> olsr_state \<Rightarrow> olsr_state" where
  "set_dup p f st = st\<lparr>dupset := set_obj p f (dupset st)\<rparr>"

definition delete_dup :: "ptr \<Rightarrow> olsr_state \<Rightarrow> olsr_state" where
  "delete_dup p st = st\<lparr>dupset := delete_obj p (dupset st)\<rparr>"

definition new_ifaceassoc :: "iface_assoc_tuple \<Rightarrow> olsr_state \<Rightarrow> ptr \<times> olsr_state" where
  "new_ifaceassoc t st = (let (p, s) = new_obj t (ifaceassocset st) in (p, st\<lparr>ifaceassocset := s\<rparr>))"

definition set_ifaceassoc :: "ptr \<Rightarrow> (iface_assoc_tuple \<Rightarrow> iface_assoc_tuple) \<Rightarrow> olsr_state \<Rightarrow> olsr_state" where
  "set_ifaceassoc p f st = st\<lparr>ifaceassocset := set_obj p f (ifaceassocset st)\<rparr>"

definition delete_ifaceassoc :: "ptr \<Rightarrow> olsr_state \<Rightarrow> olsr_state" where
  "delete_ifaceassoc p st = st\<lparr>ifaceassocset := delete_obj p (ifaceassocset st)\<rparr>"

lemmas olsr_new_defs = new_link_def new_nb_def new_nb2hop_def new_topology_def new_mprsel_def new_dup_def new_ifaceassoc_def
lemmas olsr_set_defs = set_link_def set_nb_def set_nb2hop_def set_topology_def set_mprsel_def set_dup_def set_ifaceassoc_def
lemmas olsr_delete_defs = delete_link_def delete_nb_def delete_nb2hop_def delete_topology_def delete_mprsel_def delete_dup_def delete_ifaceassoc_def
lemmas olsr_insert_defs = insert_mprsel_tuple_def insert_nb_tuple_def insert_nb2hop_tuple_def
  insert_dup_tuple_def insert_link_tuple_def insert_topology_tuple_def insert_ifaceassoc_tuple_def
lemmas olsr_erase_defs = erase_mprsel_tuple_def erase_mprsel_tuples_def erase_nb_tuple_def
  erase_nb_tuple_addr_def erase_nb2hop_tuple_def erase_nb2hop_tuples2_def erase_nb2hop_tuples_def
  erase_dup_tuple_def erase_link_tuple_def erase_topology_tuple_def
  erase_older_topology_tuples_def erase_ifaceassoc_tuple_def

subsection \<open>Each set provides the interface\<close>

text \<open>
  The tuple sets of the state, each with the key its handlers look up, are sets in the sense of
  \<open>tuple_set\<close>: the searches, \<open>new\<close> followed by the insertion, and assignment through a pointer.
\<close>

definition record_link :: "link_tuple \<Rightarrow> olsr_state \<Rightarrow> olsr_state" where
  "record_link t st = (let (p, st') = new_link t st in insert_link_tuple p st')"

interpretation links: tuple_set "\<lambda>st. tuples (linkset st)" l_nb_iface_addr find_link_tuple
    "\<lambda>st. deref (linkset st)" record_link set_link "\<lambda>st. pool_ok (linkset st)"
  by (rule field_tuple_set)
    (auto simp: record_link_def new_link_def set_link_def olsr_insert_defs olsr_find_defs tuple_keys
      add_obj_def new_obj_def split: prod.splits)

definition record_nb :: "nb_tuple \<Rightarrow> olsr_state \<Rightarrow> olsr_state" where
  "record_nb t st = (let (p, st') = new_nb t st in insert_nb_tuple p st')"

interpretation nbs: tuple_set "\<lambda>st. tuples (nbset st)" nb_main_addr find_nb_tuple
    "\<lambda>st. deref (nbset st)" record_nb set_nb "\<lambda>st. pool_ok (nbset st)"
  by (rule field_tuple_set)
    (auto simp: record_nb_def new_nb_def set_nb_def olsr_insert_defs olsr_find_defs tuple_keys
      add_obj_def new_obj_def split: prod.splits)

definition record_nb2hop :: "nb2hop_tuple \<Rightarrow> olsr_state \<Rightarrow> olsr_state" where
  "record_nb2hop t st = (let (p, st') = new_nb2hop t st in insert_nb2hop_tuple p st')"

interpretation nb2hops: tuple_set "\<lambda>st. tuples (nb2hopset st)" n2_key "\<lambda>st k. find_nb2hop_tuple st (fst k) (snd k)"
    "\<lambda>st. deref (nb2hopset st)" record_nb2hop set_nb2hop "\<lambda>st. pool_ok (nb2hopset st)"
  by (rule field_tuple_set)
    (auto simp: record_nb2hop_def new_nb2hop_def set_nb2hop_def olsr_insert_defs olsr_find_defs tuple_keys
      add_obj_def new_obj_def split: prod.splits)

definition record_topology :: "topology_tuple \<Rightarrow> olsr_state \<Rightarrow> olsr_state" where
  "record_topology t st = (let (p, st') = new_topology t st in insert_topology_tuple p st')"

interpretation topologys: tuple_set "\<lambda>st. tuples (topologyset st)" t_key "\<lambda>st k. find_topology_tuple st (fst k) (snd k)"
    "\<lambda>st. deref (topologyset st)" record_topology set_topology "\<lambda>st. pool_ok (topologyset st)"
  by (rule field_tuple_set)
    (auto simp: record_topology_def new_topology_def set_topology_def olsr_insert_defs olsr_find_defs tuple_keys
      add_obj_def new_obj_def split: prod.splits)

definition record_mprsel :: "mprsel_tuple \<Rightarrow> olsr_state \<Rightarrow> olsr_state" where
  "record_mprsel t st = (let (p, st') = new_mprsel t st in insert_mprsel_tuple p st')"

interpretation mprsels: tuple_set "\<lambda>st. tuples (mprselset st)" ms_main_addr find_mprsel_tuple
    "\<lambda>st. deref (mprselset st)" record_mprsel set_mprsel "\<lambda>st. pool_ok (mprselset st)"
  by (rule field_tuple_set)
    (auto simp: record_mprsel_def new_mprsel_def set_mprsel_def olsr_insert_defs olsr_find_defs tuple_keys
      add_obj_def new_obj_def split: prod.splits)

definition record_dup :: "dup_tuple \<Rightarrow> olsr_state \<Rightarrow> olsr_state" where
  "record_dup t st = (let (p, st') = new_dup t st in insert_dup_tuple p st')"

interpretation dups: tuple_set "\<lambda>st. tuples (dupset st)" d_key "\<lambda>st k. find_dup_tuple st (fst k) (snd k)"
    "\<lambda>st. deref (dupset st)" record_dup set_dup "\<lambda>st. pool_ok (dupset st)"
  by (rule field_tuple_set)
    (auto simp: record_dup_def new_dup_def set_dup_def olsr_insert_defs olsr_find_defs tuple_keys
      add_obj_def new_obj_def split: prod.splits)

definition record_ifaceassoc :: "iface_assoc_tuple \<Rightarrow> olsr_state \<Rightarrow> olsr_state" where
  "record_ifaceassoc t st = (let (p, st') = new_ifaceassoc t st in insert_ifaceassoc_tuple p st')"

interpretation ifaceassocs: tuple_set "\<lambda>st. tuples (ifaceassocset st)" ia_key "\<lambda>st k. find_ptr (\<lambda>t. ia_key t = k) (ifaceassocset st)"
    "\<lambda>st. deref (ifaceassocset st)" record_ifaceassoc set_ifaceassoc "\<lambda>st. pool_ok (ifaceassocset st)"
  by (rule field_tuple_set)
    (auto simp: record_ifaceassoc_def new_ifaceassoc_def set_ifaceassoc_def olsr_insert_defs olsr_find_defs tuple_keys
      add_obj_def new_obj_def split: prod.splits)

subsection \<open>The invariant of the state\<close>

text \<open>
  Every vector is well formed (no pointer twice, none dangling, memory above the next address
  unused) and its tuples have distinct keys.
\<close>

definition olsr_state_ok :: "olsr_state \<Rightarrow> bool" where
  "olsr_state_ok st \<longleftrightarrow> links.unique st \<and> nbs.unique st \<and> nb2hops.unique st \<and>
     topologys.unique st \<and> mprsels.unique st \<and> dups.unique st \<and> ifaceassocs.unique st"

lemmas olsr_unique_defs = links.unique_def nbs.unique_def nb2hops.unique_def
  topologys.unique_def mprsels.unique_def dups.unique_def ifaceassocs.unique_def

lemma olsr_state_ok_init [simp]: "olsr_state_ok OLSR_state_init"
  by (simp add: olsr_state_ok_def olsr_unique_defs OLSR_state_init_def)

text \<open>Recording a tuple whose key is new keeps the invariant.\<close>

lemma olsr_state_ok_record:
  "olsr_state_ok st \<Longrightarrow> find_link_tuple st (l_nb_iface_addr t0) = None \<Longrightarrow> olsr_state_ok (record_link t0 st)"
  "olsr_state_ok st \<Longrightarrow> find_nb_tuple st (nb_main_addr t1) = None \<Longrightarrow> olsr_state_ok (record_nb t1 st)"
  "olsr_state_ok st \<Longrightarrow> find_nb2hop_tuple st (n2_nb_main_addr t2) (n2_nb2hop_addr t2) = None \<Longrightarrow> olsr_state_ok (record_nb2hop t2 st)"
  "olsr_state_ok st \<Longrightarrow> find_topology_tuple st (t_dest_addr t3) (t_last_addr t3) = None \<Longrightarrow> olsr_state_ok (record_topology t3 st)"
  "olsr_state_ok st \<Longrightarrow> find_mprsel_tuple st (ms_main_addr t4) = None \<Longrightarrow> olsr_state_ok (record_mprsel t4 st)"
  "olsr_state_ok st \<Longrightarrow> find_dup_tuple st (d_addr t5) (d_seq_num t5) = None \<Longrightarrow> olsr_state_ok (record_dup t5 st)"
  "olsr_state_ok st \<Longrightarrow> find_ptr (\<lambda>u. ia_key u = ia_key t6) (ifaceassocset st) = None \<Longrightarrow> olsr_state_ok (record_ifaceassoc t6 st)"
  unfolding olsr_state_ok_def
  subgoal by (use links.unique_add [of st t0] in \<open>auto simp: olsr_unique_defs record_link_def new_link_def olsr_insert_defs split: prod.splits\<close>)
  subgoal by (use nbs.unique_add [of st t1] in \<open>auto simp: olsr_unique_defs record_nb_def new_nb_def olsr_insert_defs split: prod.splits\<close>)
  subgoal by (use nb2hops.unique_add [of st t2] in \<open>auto simp: olsr_unique_defs record_nb2hop_def new_nb2hop_def olsr_insert_defs n2_key_def split: prod.splits\<close>)
  subgoal by (use topologys.unique_add [of st t3] in \<open>auto simp: olsr_unique_defs record_topology_def new_topology_def olsr_insert_defs t_key_def split: prod.splits\<close>)
  subgoal by (use mprsels.unique_add [of st t4] in \<open>auto simp: olsr_unique_defs record_mprsel_def new_mprsel_def olsr_insert_defs split: prod.splits\<close>)
  subgoal by (use dups.unique_add [of st t5] in \<open>auto simp: olsr_unique_defs record_dup_def new_dup_def olsr_insert_defs d_key_def split: prod.splits\<close>)
  subgoal by (use ifaceassocs.unique_add [of st t6] in \<open>auto simp: olsr_unique_defs record_ifaceassoc_def new_ifaceassoc_def olsr_insert_defs split: prod.splits\<close>)
  done

text \<open>So does assignment to fields other than the key, and erasing.\<close>

lemma olsr_state_ok_set:
  "olsr_state_ok st \<Longrightarrow> (\<And>t. l_nb_iface_addr (f0 t) = l_nb_iface_addr t) \<Longrightarrow> olsr_state_ok (set_link p f0 st)"
  "olsr_state_ok st \<Longrightarrow> (\<And>t. nb_main_addr (f1 t) = nb_main_addr t) \<Longrightarrow> olsr_state_ok (set_nb p f1 st)"
  "olsr_state_ok st \<Longrightarrow> (\<And>t. n2_key (f2 t) = n2_key t) \<Longrightarrow> olsr_state_ok (set_nb2hop p f2 st)"
  "olsr_state_ok st \<Longrightarrow> (\<And>t. t_key (f3 t) = t_key t) \<Longrightarrow> olsr_state_ok (set_topology p f3 st)"
  "olsr_state_ok st \<Longrightarrow> (\<And>t. ms_main_addr (f4 t) = ms_main_addr t) \<Longrightarrow> olsr_state_ok (set_mprsel p f4 st)"
  "olsr_state_ok st \<Longrightarrow> (\<And>t. d_key (f5 t) = d_key t) \<Longrightarrow> olsr_state_ok (set_dup p f5 st)"
  "olsr_state_ok st \<Longrightarrow> (\<And>t. ia_key (f6 t) = ia_key t) \<Longrightarrow> olsr_state_ok (set_ifaceassoc p f6 st)"
  by (auto simp: olsr_state_ok_def olsr_unique_defs olsr_set_defs pool_ok_set_obj tuples_set_obj_key)

lemma olsr_state_ok_erase [simp]:
  assumes "olsr_state_ok st"
  shows
    "olsr_state_ok (erase_mprsel_tuple p st)"
    "olsr_state_ok (fst (erase_mprsel_tuples a st))"
    "olsr_state_ok (erase_nb_tuple p st)"
    "olsr_state_ok (erase_nb_tuple_addr a st)"
    "olsr_state_ok (erase_nb2hop_tuple p st)"
    "olsr_state_ok (fst (erase_nb2hop_tuples2 a b st))"
    "olsr_state_ok (fst (erase_nb2hop_tuples a st))"
    "olsr_state_ok (erase_dup_tuple p st)"
    "olsr_state_ok (erase_link_tuple p st)"
    "olsr_state_ok (erase_topology_tuple p st)"
    "olsr_state_ok (erase_older_topology_tuples a n st)"
    "olsr_state_ok (erase_ifaceassoc_tuple p st)"
    "olsr_state_ok (clear_mprset st)"
    "olsr_state_ok (insert_mpr_addr a st)"
  using assms
  by (auto simp: olsr_state_ok_def olsr_unique_defs olsr_erase_defs clear_mprset_def
    insert_mpr_addr_def tuple_simps distinct_map_filter split_beta Let_def)

lemma olsr_state_ok_delete:
  "olsr_state_ok st \<Longrightarrow> p \<notin> set (pvec (linkset st)) \<Longrightarrow> olsr_state_ok (delete_link p st)"
  "olsr_state_ok st \<Longrightarrow> p \<notin> set (pvec (nbset st)) \<Longrightarrow> olsr_state_ok (delete_nb p st)"
  "olsr_state_ok st \<Longrightarrow> p \<notin> set (pvec (nb2hopset st)) \<Longrightarrow> olsr_state_ok (delete_nb2hop p st)"
  "olsr_state_ok st \<Longrightarrow> p \<notin> set (pvec (topologyset st)) \<Longrightarrow> olsr_state_ok (delete_topology p st)"
  "olsr_state_ok st \<Longrightarrow> p \<notin> set (pvec (mprselset st)) \<Longrightarrow> olsr_state_ok (delete_mprsel p st)"
  "olsr_state_ok st \<Longrightarrow> p \<notin> set (pvec (dupset st)) \<Longrightarrow> olsr_state_ok (delete_dup p st)"
  "olsr_state_ok st \<Longrightarrow> p \<notin> set (pvec (ifaceassocset st)) \<Longrightarrow> olsr_state_ok (delete_ifaceassoc p st)"
  by (simp_all add: olsr_state_ok_def olsr_unique_defs olsr_delete_defs pool_ok_delete_obj
    tuples_delete_obj)

subsection \<open>Clearing and copying\<close>

lemma tuples_copy_pool: "pool_ok s \<Longrightarrow> pool_ok (copy_pool s) \<and> tuples (copy_pool s) = tuples s"
proof -
  have "pool_ok (foldl (\<lambda>c t. add_obj t c) c ts) \<and>
      tuples (foldl (\<lambda>c t. add_obj t c) c ts) = tuples c @ ts" if "pool_ok c" for c :: "'a pool" and ts
    using that by (induction ts arbitrary: c) (simp_all add: tuple_simps)
  then show "pool_ok (copy_pool s) \<and> tuples (copy_pool s) = tuples s"
    by (simp add: copy_pool_def)
qed

text \<open>Two states with the same contents, wherever their tuples are stored.\<close>

definition same_contents :: "olsr_state \<Rightarrow> olsr_state \<Rightarrow> bool" where
  "same_contents a b \<longleftrightarrow> tuples (linkset a) = tuples (linkset b) \<and>
     tuples (nbset a) = tuples (nbset b) \<and> tuples (nb2hopset a) = tuples (nb2hopset b) \<and>
     tuples (topologyset a) = tuples (topologyset b) \<and> mprset a = mprset b \<and>
     tuples (mprselset a) = tuples (mprselset b) \<and> tuples (dupset a) = tuples (dupset b) \<and>
     tuples (ifaceassocset a) = tuples (ifaceassocset b)"

text \<open>
  A copy of the state holds the same tuples in the same order and is well formed.
\<close>

theorem OLSR_state_copy_contents:
  "olsr_state_ok st \<Longrightarrow>
   olsr_state_ok (OLSR_state_copy st) \<and> same_contents (OLSR_state_copy st) st"
  by (simp add: olsr_state_ok_def olsr_unique_defs OLSR_state_copy_def same_contents_def
    tuples_copy_pool)

lemma OLSR_state_copy_contents_witness:
  "same_contents (OLSR_state_copy (record_nb \<lparr>nb_main_addr = IPv4 2, nb_status = 1, nb_willingness = 3\<rparr> OLSR_state_init))
     (record_nb \<lparr>nb_main_addr = IPv4 2, nb_status = 1, nb_willingness = 3\<rparr> OLSR_state_init)"
proof -
  have "find_nb_tuple OLSR_state_init (IPv4 2) = None"
    by (simp add: find_nb_tuple_def find_ptr_None OLSR_state_init_def)
  then show ?thesis using OLSR_state_copy_contents olsr_state_ok_record(2) [OF olsr_state_ok_init] by simp
qed

end
