(* ===== verification/Olsr_Rtable.thy ===== *)
theory Olsr_Rtable
  imports Olsr_Repositories
begin

text \<open>
  The routing table, \<open>OLSR_rtable.cc\<close>: a \<open>std::map\<close> from destination to entry, modelled by the
  list of its pairs in the order of an iteration (increasing destination, no destination twice).
  The locale \<open>route_table\<close> states what the route computation relies on; it is interpreted on the
  model of the map at the end.
\<close>

type_synonym rtable = "(addr \<times> rt_entry) list"

definition rtable_empty :: rtable where
  "rtable_empty = []"

text \<open>\<open>rt_[dest] = entry\<close>\<close>

fun rt_assign :: "addr \<Rightarrow> rt_entry \<Rightarrow> rtable \<Rightarrow> rtable" where
  "rt_assign k e [] = [(k, e)]"
| "rt_assign k e ((k', e') # r) =
     (if k < k' then (k, e) # (k', e') # r
      else if k = k' then (k, e) # r
      else (k', e') # rt_assign k e r)"

text \<open>The elements a loop from position \<open>i\<close> up to, not including, position \<open>j\<close> visits.\<close>

definition iter_range :: "nat \<Rightarrow> nat \<Rightarrow> 'a list \<Rightarrow> 'a list" where
  "iter_range i j xs = drop i (take j xs)"

text \<open>The copy constructor: its loop runs from \<open>begin()\<close> until it meets \<open>begin()\<close>.\<close>

definition OLSR_rtable_copy :: "rtable \<Rightarrow> rtable" where
  "OLSR_rtable_copy rt = foldl (\<lambda>c (k, e). rt_assign k e c) rtable_empty (iter_range 0 0 rt)"

definition rtable_clear :: "rtable \<Rightarrow> rtable" where
  "rtable_clear rt = []"

definition rm_entry :: "addr \<Rightarrow> rtable \<Rightarrow> rtable" where
  "rm_entry d rt = filter (\<lambda>(k, _). k \<noteq> d) rt"

definition rtable_lookup :: "rtable \<Rightarrow> addr \<Rightarrow> rt_entry option" where
  "rtable_lookup rt d = map_of rt d"

text \<open>
  The walk along next hops until an entry whose destination is its next hop; \<open>Some None\<close> is
  the null pointer, \<open>None\<close> a walk that does not end.
\<close>

partial_function (option) find_send_entry ::
    "rtable \<Rightarrow> rt_entry option \<Rightarrow> rt_entry option option" where
  [code]: "find_send_entry rt e =
     (case e of
        None \<Rightarrow> Some None
      | Some x \<Rightarrow> if dest_addr x \<noteq> next_addr x
          then find_send_entry rt (rtable_lookup rt (next_addr x)) else Some e)"

text \<open>The two overloads of \<open>add_entry\<close>, with their default \<open>quality\<close> and \<open>delay\<close>.\<close>

definition add_entry :: "addr \<Rightarrow> addr \<Rightarrow> addr \<Rightarrow> nat \<Rightarrow> int \<Rightarrow> rtable \<Rightarrow> rtable" where
  "add_entry dest next_hop iface d index rt =
     rt_assign dest \<lparr>dest_addr = dest, next_addr = next_hop, iface_addr = iface, dist = d,
       quality = -1, delay = -1, rt_index = index,
       route = (if d = 2 then [next_hop] else [])\<rparr> rt"

definition add_entry_via ::
    "addr \<Rightarrow> addr \<Rightarrow> addr \<Rightarrow> nat \<Rightarrow> int \<Rightarrow> rt_entry \<Rightarrow> rtable \<Rightarrow> rtable" where
  "add_entry_via dest next_hop iface d index entryAux rt =
     rt_assign dest \<lparr>dest_addr = dest, next_addr = next_hop, iface_addr = iface, dist = d,
       quality = -1, delay = -1, rt_index = index,
       route = (if int (dist entryAux) = int d - 1
         then route entryAux @ [dest_addr entryAux] else route entryAux)\<rparr> rt"

definition rtable_size :: "rtable \<Rightarrow> nat" where
  "rtable_size rt = length rt"

definition rtable_ok :: "rtable \<Rightarrow> bool" where
  "rtable_ok rt \<longleftrightarrow> sorted_wrt (<) (map fst rt)"

subsection \<open>The laws of the map\<close>

lemma set_rt_assign: "set (map fst (rt_assign k e rt)) = insert k (set (map fst rt))"
  by (induction k e rt rule: rt_assign.induct) auto

lemma rtable_ok_assign [simp]: "rtable_ok rt \<Longrightarrow> rtable_ok (rt_assign k e rt)"
proof (induction k e rt rule: rt_assign.induct)
  case (2 k e k' e' r)
  then have "\<forall>x\<in>insert k (set (map fst r)). k' < x" if "k > k'"
    using that by (auto simp: rtable_ok_def)
  then show ?case
    using 2 set_rt_assign [of k e r] by (auto simp: rtable_ok_def not_less_iff_gr_or_eq)
qed (simp add: rtable_ok_def)

lemma lookup_rt_assign [simp]:
  "rtable_ok rt \<Longrightarrow>
   rtable_lookup (rt_assign k e rt) d = (if d = k then Some e else rtable_lookup rt d)"
proof (induction k e rt rule: rt_assign.induct)
  case (2 k e k' e' r)
  have ok: "rtable_ok r" using "2.prems" by (simp add: rtable_ok_def)
  show ?case
    by (cases "k < k'"; cases "k = k'") (use 2 ok in \<open>auto simp: rtable_lookup_def\<close>)
qed (simp add: rtable_lookup_def)

lemma rtable_ok_empty [simp]: "rtable_ok rtable_empty" "rtable_ok []"
  by (simp_all add: rtable_ok_def rtable_empty_def)

lemma lookup_empty [simp]: "rtable_lookup [] d = None" "rtable_lookup rtable_empty d = None"
  by (simp_all add: rtable_lookup_def rtable_empty_def)

lemma rtable_ok_rm [simp]: "rtable_ok rt \<Longrightarrow> rtable_ok (rm_entry d rt)"
  by (induction rt) (auto simp: rtable_ok_def rm_entry_def)

lemma lookup_rm [simp]:
  "rtable_lookup (rm_entry d rt) d' = (if d' = d then None else rtable_lookup rt d')"
  by (induction rt) (auto simp: rtable_lookup_def rm_entry_def)

lemma rtable_ok_distinct: "rtable_ok rt \<Longrightarrow> distinct (map fst rt)"
  by (simp add: rtable_ok_def strict_sorted_iff)

lemma rtable_lookup_in: "rtable_lookup rt d = Some e \<Longrightarrow> (d, e) \<in> set rt"
  by (simp add: rtable_lookup_def map_of_SomeD)

lemma size_rt_assign:
  "rtable_ok rt \<Longrightarrow> rtable_size (rt_assign k e rt) =
     (if rtable_lookup rt k = None then Suc (rtable_size rt) else rtable_size rt)"
proof (induction k e rt rule: rt_assign.induct)
  case (2 k e k' e' r)
  have ok: "rtable_ok r" and gt: "\<forall>x\<in>set (map fst r). k' < x"
    using "2.prems" by (auto simp: rtable_ok_def)
  have "k < k' \<Longrightarrow> map_of r k = None"
    using gt by (auto simp: map_of_eq_None_iff)
  then show ?case
    by (cases "k < k'"; cases "k = k'")
      (use 2 ok in \<open>auto simp: rtable_lookup_def rtable_size_def\<close>)
qed (simp add: rtable_lookup_def rtable_size_def)

subsection \<open>The interface of the route computation\<close>

text \<open>
  What the route computation asks of a table: assignment and lookup obey the laws of a map.  Its
  client lemmas are about tables whose entries are filed under their own destination and lead, in
  one step, to an entry of a neighbour: \<open>one_step\<close>.
\<close>

locale route_table =
  fixes look :: "'t \<Rightarrow> addr \<Rightarrow> rt_entry option"
    and assign :: "addr \<Rightarrow> rt_entry \<Rightarrow> 't \<Rightarrow> 't"
    and wf :: "'t \<Rightarrow> bool"
  assumes wf_assign: "wf t \<Longrightarrow> wf (assign k e t)"
    and look_assign: "wf t \<Longrightarrow> look (assign k e t) d = (if d = k then Some e else look t d)"
begin

definition one_step :: "'t \<Rightarrow> bool" where
  "one_step t \<longleftrightarrow> wf t \<and> (\<forall>d e. look t d = Some e \<longrightarrow> dest_addr e = d \<and>
     (\<exists>n. look t (next_addr e) = Some n \<and> next_addr n = next_addr e))"

lemma one_step_neighbour:
  "one_step t \<Longrightarrow> dest_addr e = k \<Longrightarrow> next_addr e = k \<Longrightarrow> one_step (assign k e t)"
  unfolding one_step_def by (auto simp: wf_assign look_assign)

lemma one_step_borrow:
  assumes "one_step t" and "look t m = Some n" and "next_addr e = next_addr n"
    and "dest_addr e = k" and "next_addr n = k \<or> look t k = None \<or> (\<exists>o'. look t k = Some o' \<and> next_addr o' \<noteq> k)"
  shows "one_step (assign k e t)"
proof -
  have wf: "wf t" and *: "\<And>d e. look t d = Some e \<Longrightarrow> dest_addr e = d \<and>
      (\<exists>n. look t (next_addr e) = Some n \<and> next_addr n = next_addr e)"
    using assms(1) by (auto simp: one_step_def)
  obtain n' where n': "look t (next_addr n) = Some n'" "next_addr n' = next_addr n"
    using *[OF assms(2)] by blast
  have "dest_addr x = d \<and> (\<exists>y. look (assign k e t) (next_addr x) = Some y \<and> next_addr y = next_addr x)"
    if "look (assign k e t) d = Some x" for d x
  proof (cases "d = k")
    case True
    then have "x = e" using that wf by (simp add: look_assign)
    then show ?thesis using assms(3,4) n' True wf by (auto simp: look_assign)
  next
    case False
    then have x: "look t d = Some x" using that wf by (simp add: look_assign)
    from *[OF x] obtain y where "dest_addr x = d" "look t (next_addr x) = Some y"
      "next_addr y = next_addr x" by blast
    then show ?thesis using assms(3,5) wf n' by (auto simp: look_assign)
  qed
  then show ?thesis using wf by (auto simp: one_step_def wf_assign)
qed

end

interpretation rt: route_table rtable_lookup rt_assign rtable_ok
  by unfold_locales simp_all

lemma find_send_entry_one_step:
  assumes "rt.one_step rt" and "rtable_lookup rt d = Some e"
  shows "\<exists>n. find_send_entry rt (Some e) = Some (Some n) \<and> next_addr n = next_addr e \<and>
    dest_addr n = next_addr e"
proof -
  have *: "dest_addr e = d \<and> (\<exists>n. rtable_lookup rt (next_addr e) = Some n \<and> next_addr n = next_addr e)"
    using assms by (auto simp: rt.one_step_def)
  then obtain n where n: "rtable_lookup rt (next_addr e) = Some n" "next_addr n = next_addr e"
    by blast
  then have "dest_addr n = next_addr e" using assms(1) by (auto simp: rt.one_step_def)
  with n show ?thesis
    by (cases "dest_addr e = next_addr e")
      (simp_all add: find_send_entry.simps [of rt "Some e"] find_send_entry.simps [of rt "Some n"])
qed

end
