(* ===== verification/Olsr_Pkt.thy ===== *)
theory Olsr_Pkt
  imports L3_Address
begin

text \<open>
  Messages and packets (\<open>OLSRpkt.msg\<close>, \<open>OLSRpkt_m.h\<close>), the mantissa/exponent coding of times and
  the circular comparison of sequence numbers (\<open>OLSR.cc\<close>).  The fixed-size address arrays with
  their counts are lists; their limits are checked where the source asserts them.  The
  link-quality fields of the shared address record are used only by the ETX variant and are left
  out.
\<close>

subsection \<open>Messages\<close>

definition OLSR_HELLO_MSG :: u8 where "OLSR_HELLO_MSG = 1"
definition OLSR_TC_MSG :: u8 where "OLSR_TC_MSG = 2"
definition OLSR_MID_MSG :: u8 where "OLSR_MID_MSG = 3"
definition OLSR_MAX_MSGS :: nat where "OLSR_MAX_MSGS = 4"
definition OLSR_MAX_HELLOS :: nat where "OLSR_MAX_HELLOS = 12"
definition OLSR_MAX_ADDRS :: nat where "OLSR_MAX_ADDRS = 64"
definition OLSR_PKT_HDR_SIZE :: nat where "OLSR_PKT_HDR_SIZE = 4"
definition OLSR_HELLO_HDR_SIZE :: nat where "OLSR_HELLO_HDR_SIZE = 4"
definition OLSR_HELLO_MSG_HDR_SIZE :: nat where "OLSR_HELLO_MSG_HDR_SIZE = 4"
definition OLSR_TC_HDR_SIZE :: nat where "OLSR_TC_HDR_SIZE = 4"

text \<open>The message header holds one address, whose size the node configures.\<close>

definition OLSR_MSG_HDR_SIZE :: "nat \<Rightarrow> nat" where
  "OLSR_MSG_HDR_SIZE addr_size = 8 + addr_size"

lemmas olsr_msg_types = OLSR_HELLO_MSG_def OLSR_TC_MSG_def OLSR_MID_MSG_def
lemmas olsr_limits = OLSR_MAX_MSGS_def OLSR_MAX_HELLOS_def OLSR_MAX_ADDRS_def
lemmas olsr_hdr_sizes = OLSR_PKT_HDR_SIZE_def OLSR_HELLO_HDR_SIZE_def OLSR_HELLO_MSG_HDR_SIZE_def
  OLSR_TC_HDR_SIZE_def OLSR_MSG_HDR_SIZE_def

record hello_msg =
  link_code :: u8
  hm_reserved :: u8
  link_msg_size :: u16
  nb_iface_addrs :: "addr list"

record olsr_hello =
  h_reserved :: u16
  htime :: u8
  h_willingness :: u8
  hello_body :: "hello_msg list"

record olsr_tc =
  tc_ansn :: u16
  tc_reserved :: u16
  nb_main_addrs :: "addr list"

record olsr_mid =
  mid_iface_addrs :: "addr list"

record olsr_msg =
  msg_type :: u8
  vtime :: u8
  msg_size :: u16
  orig_addr :: addr
  ttl :: u8
  hop_count :: u8
  msg_seq_num :: u16
  msg_hello :: olsr_hello
  msg_tc :: olsr_tc
  msg_mid :: olsr_mid

text \<open>The zeroed body of a new message.\<close>

definition zero_hello :: olsr_hello where
  "zero_hello = \<lparr>h_reserved = 0, htime = 0, h_willingness = 0, hello_body = []\<rparr>"

definition zero_tc :: olsr_tc where
  "zero_tc = \<lparr>tc_ansn = 0, tc_reserved = 0, nb_main_addrs = []\<rparr>"

definition zero_mid :: olsr_mid where
  "zero_mid = \<lparr>mid_iface_addrs = []\<rparr>"

definition hello_msg_size :: "nat \<Rightarrow> hello_msg \<Rightarrow> nat" where
  "hello_msg_size addr_size m = OLSR_HELLO_MSG_HDR_SIZE + length (nb_iface_addrs m) * addr_size"

definition hello_size :: "nat \<Rightarrow> olsr_hello \<Rightarrow> nat" where
  "hello_size addr_size h =
     foldl (\<lambda>sz m. sz + hello_msg_size addr_size m) OLSR_HELLO_HDR_SIZE (hello_body h)"

definition tc_size :: "nat \<Rightarrow> olsr_tc \<Rightarrow> nat" where
  "tc_size addr_size t = OLSR_TC_HDR_SIZE + length (nb_main_addrs t) * addr_size"

definition mid_size :: "nat \<Rightarrow> olsr_mid \<Rightarrow> nat" where
  "mid_size addr_size m = length (mid_iface_addrs m) * addr_size"

definition olsr_msg_size :: "nat \<Rightarrow> olsr_msg \<Rightarrow> nat" where
  "olsr_msg_size addr_size m = OLSR_MSG_HDR_SIZE addr_size +
     (if msg_type m = OLSR_HELLO_MSG then hello_size addr_size (msg_hello m)
      else if msg_type m = OLSR_TC_MSG then tc_size addr_size (msg_tc m)
      else if msg_type m = OLSR_MID_MSG then mid_size addr_size (msg_mid m) else 0)"

record olsr_pkt =
  byte_length :: nat
  pkt_seq_num :: u16
  reduce_func :: bool
  pkt_msgs :: "olsr_msg list"

subsection \<open>Times in mantissa/exponent format\<close>

definition OLSR_C :: real where "OLSR_C = 0.0625"

text \<open>A C cast from \<open>double\<close> to \<open>int\<close>.\<close>

definition c_int :: "real \<Rightarrow> int" where
  "c_int x = (if 0 \<le> x then \<lfloor>x\<rfloor> else \<lceil>x\<rceil>)"

text \<open>\<open>while (seconds/OLSR_C >= pow(2, b)) b++;\<close>\<close>

function emf_exp :: "real \<Rightarrow> nat \<Rightarrow> nat" where
  "emf_exp seconds b = (if seconds / OLSR_C \<ge> 2 ^ b then emf_exp seconds (Suc b) else b)"
  by auto
termination
proof (relation "measure (\<lambda>(s, b). nat \<lceil>s / OLSR_C\<rceil> - b)")
  fix s :: real and b :: nat
  assume *: "s / OLSR_C \<ge> 2 ^ b"
  have "real b < 2 ^ b" by (rule of_nat_less_two_power)
  with * have "real b < s / OLSR_C" by linarith
  then have "b < nat \<lceil>s / OLSR_C\<rceil>" by linarith
  then show "((s, Suc b), (s, b)) \<in> measure (\<lambda>(s, b). nat \<lceil>s / OLSR_C\<rceil> - b)" by simp
qed simp

declare emf_exp.simps [simp del]

text \<open>\<open>while (a >= 16) { a -= 16; b++; }\<close>\<close>

function emf_norm :: "int \<Rightarrow> int \<Rightarrow> int \<times> int" where
  "emf_norm a b = (if a \<ge> 16 then emf_norm (a - 16) (b + 1) else (a, b))"
  by auto
termination by (relation "measure (\<lambda>(a, b). nat a)") auto

declare emf_norm.simps [simp del]

definition seconds_to_emf :: "real \<Rightarrow> u8" where
  "seconds_to_emf seconds =
     (let b = int (emf_exp seconds 0) - 1;
          (a, b) = (if b < 0 then (1, 0)
            else if b > 15 then (15, 15)
            else emf_norm (c_int (16 * (seconds / (OLSR_C * 2 ^ nat b) - 1))) b)
      in word_of_int (a * 16 + b))"

definition emf_to_seconds :: "u8 \<Rightarrow> real" where
  "emf_to_seconds olsr_format =
     (let a = uint (drop_bit 4 olsr_format); b = uint olsr_format - a * 16
      in OLSR_C * (1 + of_int a / 16) * 2 ^ nat b)"

lemma emf_exp_eq:
  assumes "2 ^ b \<le> s / OLSR_C" and "s / OLSR_C < 2 ^ Suc b" and "k \<le> Suc b"
  shows "emf_exp s k = Suc b"
  using assms(3)
proof (induction rule: inc_induct)
  case base
  then show ?case using assms(2) by (simp add: emf_exp.simps)
next
  case (step n)
  have "(2::real) ^ n \<le> 2 ^ b" using step.hyps by simp
  then have "2 ^ n \<le> s / OLSR_C" using assms(1) by linarith
  then show ?case using step.IH by (simp add: emf_exp.simps [of s n])
qed

lemma emf_exp_bracket:
  assumes "OLSR_C \<le> s"
  obtains b where "emf_exp s 0 = Suc b" "2 ^ b \<le> s / OLSR_C" "s / OLSR_C < 2 ^ Suc b"
proof -
  have C: "0 < OLSR_C" by (simp add: OLSR_C_def)
  then have s1: "1 \<le> s / OLSR_C" using assms by simp
  obtain n where "s / OLSR_C < 2 ^ n"
    using real_arch_pow [of 2 "s / OLSR_C"] by auto
  then have ex: "\<exists>n. s / OLSR_C < 2 ^ n" by blast
  define m where "m = (LEAST n. s / OLSR_C < 2 ^ n)"
  have m: "s / OLSR_C < 2 ^ m" unfolding m_def by (rule LeastI_ex [OF ex])
  have "m \<noteq> 0" using m s1 by (cases m) auto
  then obtain b where b: "m = Suc b" by (cases m) auto
  have "b < m" using b by simp
  then have "\<not> s / OLSR_C < 2 ^ b" unfolding m_def by (rule not_less_Least)
  then have "2 ^ b \<le> s / OLSR_C" "s / OLSR_C < 2 ^ Suc b" using m b by auto
  then show ?thesis using that emf_exp_eq [of b s 0] by auto
qed

text \<open>The byte made of a mantissa and an exponent.\<close>

definition emf_code :: "int \<Rightarrow> nat \<Rightarrow> u8" where
  "emf_code a b = word_of_int (a * 16 + int b)"

text \<open>The mantissa the source computes, for a time within the range of the format.\<close>

lemma seconds_to_emf_range:
  assumes "2 ^ b \<le> s / OLSR_C" and "s / OLSR_C < 2 ^ Suc b" and "b \<le> 15"
  defines "a \<equiv> \<lfloor>16 * (s / (OLSR_C * 2 ^ b) - 1)\<rfloor>"
  shows "seconds_to_emf s = emf_code a b" and "0 \<le> a" and "a < 16"
proof -
  have q: "1 \<le> s / (OLSR_C * 2 ^ b)" "s / (OLSR_C * 2 ^ b) < 2"
    using assms(1,2) by (simp_all add: OLSR_C_def field_simps)
  then show a: "0 \<le> a" "a < 16" unfolding a_def by (simp_all add: floor_less_iff)
  have "emf_exp s 0 = Suc b" using emf_exp_eq [OF assms(1,2)] by simp
  moreover have "c_int (16 * (s / (OLSR_C * 2 ^ b) - 1)) = a"
    using q by (simp add: c_int_def a_def)
  ultimately show "seconds_to_emf s = emf_code a b"
    using a assms(3) by (simp add: seconds_to_emf_def emf_norm.simps Let_def emf_code_def)
qed

lemma emf_parts:
  assumes "0 \<le> a" and "a < 16" and "b \<le> 15"
  shows "emf_to_seconds (emf_code a b) = OLSR_C * (1 + of_int a / 16) * 2 ^ b"
proof -
  have "uint (emf_code a b) = (a * 16 + int b) mod 256"
    unfolding emf_code_def by (simp only: uint_word_of_int) simp
  then have u: "uint (emf_code a b) = a * 16 + int b" using assms by simp
  moreover have "uint (drop_bit 4 (emf_code a b)) = a"
    using assms by (simp add: drop_bit_eq_div uint_div u)
  ultimately show ?thesis by (simp add: emf_to_seconds_def Let_def)
qed

lemma emf_byte:
  fixes w :: u8
  obtains a b where "w = emf_code a b" "0 \<le> a" "a < 16" "b \<le> 15"
proof (rule that)
  have k: "k < 256 \<Longrightarrow> 0 \<le> k \<Longrightarrow> 0 \<le> k div 16 \<and> k div 16 < 16 \<and> nat (k mod 16) \<le> 15" for k :: int
    by auto
  have "uint w < 256" using uint_lt2p [of w] by simp
  from k [OF this uint_ge_0]
  show "0 \<le> uint w div 16" "uint w div 16 < 16" "nat (uint w mod 16) \<le> 15" by blast+
  have "uint w div 16 * 16 + int (nat (uint w mod 16)) = uint w" by simp
  then show "w = emf_code (uint w div 16) (nat (uint w mod 16))"
    unfolding emf_code_def by (simp only: word_of_int_uint)
qed

text \<open>
  The time format loses nothing: each of its 256 codes denotes a time that is coded as itself.
\<close>

theorem emf_roundtrip: "seconds_to_emf (emf_to_seconds w) = w"
proof -
  obtain a b where w: "w = emf_code a b" and ab: "0 \<le> a" "a < 16" "b \<le> 15"
    by (rule emf_byte)
  let ?s = "emf_to_seconds w"
  have s: "?s = OLSR_C * (1 + of_int a / 16) * 2 ^ b" using emf_parts [OF ab] w by simp
  have C: "OLSR_C > 0" by (simp add: OLSR_C_def)
  have q: "?s / OLSR_C = (1 + of_int a / 16) * 2 ^ b" "?s / (OLSR_C * 2 ^ b) = 1 + of_int a / 16"
    using C by (simp_all add: s)
  have "1 \<le> 1 + real_of_int a / 16" "1 + real_of_int a / 16 < 2" using ab by auto
  then have "2 ^ b \<le> ?s / OLSR_C" "?s / OLSR_C < 2 ^ Suc b" by (simp_all add: q(1))
  from seconds_to_emf_range(1) [OF this ab(3)] show ?thesis unfolding q(2) by (simp add: w)
qed

text \<open>
  A time from \<open>OLSR_C\<close> up to the largest the format can hold is rounded down, by less
  than one sixteenth of its power of two, so by less than one sixteenth of the time itself.
\<close>

theorem emf_rounds_down:
  assumes "OLSR_C \<le> s" and "s < OLSR_C * 2 ^ 16"
  shows "emf_to_seconds (seconds_to_emf s) \<le> s \<and> s - emf_to_seconds (seconds_to_emf s) < s / 16"
proof -
  have C: "OLSR_C > 0" by (simp add: OLSR_C_def)
  obtain b where b: "2 ^ b \<le> s / OLSR_C" "s / OLSR_C < 2 ^ Suc b"
    using emf_exp_bracket [OF assms(1)] by metis
  have "(2::real) ^ b < 2 ^ 16" using b(1) assms(2) C by (simp add: OLSR_C_def)
  then have b15: "b \<le> 15" using power_less_imp_less_exp [of "2::real" b 16] by simp
  let ?x = "16 * (s / (OLSR_C * 2 ^ b) - 1)" and ?d = "emf_to_seconds (seconds_to_emf s)"
  have d: "?d = OLSR_C * (1 + of_int \<lfloor>?x\<rfloor> / 16) * 2 ^ b"
    using seconds_to_emf_range [OF b b15] emf_parts [of "\<lfloor>?x\<rfloor>" b] b15 by simp
  have s: "s = OLSR_C * 2 ^ b * (1 + ?x / 16)" using C by (simp add: field_simps)
  have fl: "of_int \<lfloor>?x\<rfloor> \<le> ?x" "?x - of_int \<lfloor>?x\<rfloor> < 1" by linarith+
  have diff: "s - ?d = OLSR_C * 2 ^ b * (?x - of_int \<lfloor>?x\<rfloor>) / 16"
    unfolding d by (subst s) (simp add: algebra_simps add_divide_distrib diff_divide_distrib)
  have "0 \<le> s - ?d" unfolding diff using fl C by simp
  moreover have "s - ?d < OLSR_C * 2 ^ b / 16"
    unfolding diff using fl(2) C mult_strict_left_mono [OF fl(2), of "OLSR_C * 2 ^ b"] by simp
  moreover have "OLSR_C * 2 ^ b \<le> s" using b(1) C by (simp add: field_simps)
  ultimately show ?thesis by simp
qed

lemma emf_rounds_down_witness: "emf_to_seconds (seconds_to_emf 6) \<le> 6 \<and> 6 - emf_to_seconds (seconds_to_emf 6) < 6 / 16"
  using emf_rounds_down [of 6] by (simp add: OLSR_C_def)

lemma emf_positive: "0 < emf_to_seconds w"
proof -
  obtain a b where "w = emf_code a b" "0 \<le> a" "a < 16" "b \<le> 15"
    by (rule emf_byte)
  then show ?thesis using emf_parts [of a b]
    by (simp only: OLSR_C_def) (intro mult_pos_pos add_pos_nonneg; simp)
qed

subsection \<open>Sequence numbers\<close>

text \<open>\<open>OLSR::seq_num_bigger_than\<close>; the differences are taken on \<open>int\<close>, without wrap-around.\<close>

definition seq_num_bigger_than :: "u16 \<Rightarrow> u16 \<Rightarrow> bool" where
  "seq_num_bigger_than s1 s2 \<longleftrightarrow>
     (s1 > s2 \<and> uint s1 - uint s2 \<le> 65535 div 2) \<or> (s2 > s1 \<and> uint s2 - uint s1 > 65535 div 2)"

text \<open>
  The circular comparison is the one on the wrapped difference, and it decides every pair of
  distinct numbers one way.
\<close>

theorem seq_num_bigger_than_circular:
  "seq_num_bigger_than s1 s2 =
     (0 < s1 - s2 \<and> (uint (s1 - s2) \<le> 32767 \<or> uint (s1 - s2) = 32768 \<and> s1 < s2)) \<and>
   (if s1 = s2 then \<not> seq_num_bigger_than s1 s2
    else seq_num_bigger_than s1 s2 = (\<not> seq_num_bigger_than s2 s1))"
proof -
  have r: "0 \<le> uint s1" "uint s1 < 65536" "0 \<le> uint s2" "uint s2 < 65536"
    using uint_lt2p [of s1] uint_lt2p [of s2] by simp_all
  have "uint (s1 - s2) = (uint s1 - uint s2) mod 65536" by (simp add: uint_word_ariths)
  moreover have "(x - y) mod 65536 = (if y \<le> x then x - y else x - y + 65536)"
    if "0 \<le> x" "x < 65536" "0 \<le> y" "y < 65536" for x y :: int
    using that mod_pos_pos_trivial [of "x - y + 65536" 65536] by auto
  ultimately have d: "uint (s1 - s2) = (if uint s2 \<le> uint s1 then uint s1 - uint s2
      else uint s1 - uint s2 + 65536)" using r by presburger
  have "seq_num_bigger_than s1 s2 =
     (0 < s1 - s2 \<and> (uint (s1 - s2) \<le> 32767 \<or> uint (s1 - s2) = 32768 \<and> s1 < s2))"
    unfolding seq_num_bigger_than_def word_less_def d using r
    by (simp only: uint_0_eq split: if_split) linarith
  moreover have "if s1 = s2 then \<not> seq_num_bigger_than s1 s2
    else seq_num_bigger_than s1 s2 = (\<not> seq_num_bigger_than s2 s1)"
    unfolding seq_num_bigger_than_def word_less_def by (auto simp: word_uint_eq_iff)
  ultimately show ?thesis by blast
qed

end
