(* ===== verification/Olsr_Timers.thy ===== *)
theory Olsr_Timers
  imports Tuple_Store "HOL-Library.Multiset"
begin

text \<open>
  The timers of an OLSR agent (\<open>OLSR.h\<close>, \<open>OLSR.cc\<close>) and its timer queue, a
  \<open>std::multimap\<close> from time to timer: a list of pairs in increasing time, a new pair going behind
  those of the same time.  A tuple timer holds the address of the tuple it deletes; the link timer
  also its flag \<open>first_time_\<close>; the many message timers are told apart by a number.  The locale
  \<open>timer_queue\<close> is what the agent relies on.
\<close>

datatype timer =
    HelloTimer
  | TcTimer
  | MidTimer
  | MsgTimer nat
  | DupTupleTimer ptr
  | LinkTupleTimer ptr bool
  | Nb2hopTupleTimer ptr
  | MprSelTupleTimer ptr
  | TopologyTupleTimer ptr
  | IfaceAssocTupleTimer ptr

type_synonym timer_queue = "(simtime \<times> timer) list"

text \<open>\<open>timerQueuePtr->insert(pair(time, timer))\<close>\<close>

fun tq_insert :: "simtime \<Rightarrow> timer \<Rightarrow> timer_queue \<Rightarrow> timer_queue" where
  "tq_insert x t [] = [(x, t)]"
| "tq_insert x t ((y, u) # q) = (if x < y then (x, t) # (y, u) # q else (y, u) # tq_insert x t q)"

text \<open>\<open>OLSR_Timer::removeQueueTimer\<close>: the first pair that holds the timer is erased.\<close>

fun removeQueueTimer :: "timer \<Rightarrow> timer_queue \<Rightarrow> timer_queue" where
  "removeQueueTimer t [] = []"
| "removeQueueTimer t ((y, u) # q) = (if u = t then q else (y, u) # removeQueueTimer t q)"

text \<open>\<open>OLSR_Timer::resched\<close>, at simulation time \<open>now\<close>.\<close>

definition resched :: "simtime \<Rightarrow> simtime \<Rightarrow> timer \<Rightarrow> timer_queue \<Rightarrow> timer_queue" where
  "resched now time t q = tq_insert (now + time) t (removeQueueTimer t q)"

text \<open>The macro \<open>DELAY\<close>, at simulation time \<open>now\<close>.\<close>

definition DELAY :: "simtime \<Rightarrow> simtime \<Rightarrow> simtime" where
  "DELAY now time = (if time < now then 0.000001 else time - now + 0.000001)"

lemma DELAY_pos: "0 < DELAY now time"
  by (simp add: DELAY_def)

definition tq_ok :: "timer_queue \<Rightarrow> bool" where
  "tq_ok q \<longleftrightarrow> sorted (map fst q) \<and> distinct (map snd q)"

lemma mset_tq_insert: "mset (tq_insert x t q) = add_mset (x, t) (mset q)"
  by (induction x t q rule: tq_insert.induct) auto

lemma set_tq_insert [simp]: "set (tq_insert x t q) = insert (x, t) (set q)"
  by (induction x t q rule: tq_insert.induct) auto

lemma sorted_tq_insert: "sorted (map fst q) \<Longrightarrow> sorted (map fst (tq_insert x t q))"
  by (induction x t q rule: tq_insert.induct) auto

lemma distinct_tq_insert:
  "distinct (map snd (tq_insert x t q)) \<longleftrightarrow> distinct (map snd q) \<and> t \<notin> set (map snd q)"
  by (induction x t q rule: tq_insert.induct) auto

lemma set_removeQueueTimer:
  "distinct (map snd q) \<Longrightarrow> set (removeQueueTimer t q) = {p \<in> set q. snd p \<noteq> t}"
  by (induction t q rule: removeQueueTimer.induct) force+

lemma removeQueueTimer_subset: "set (removeQueueTimer t q) \<subseteq> set q"
  by (induction t q rule: removeQueueTimer.induct) auto

lemma removeQueueTimer_absent: "t \<notin> snd ` set q \<Longrightarrow> removeQueueTimer t q = q"
  by (induction t q rule: removeQueueTimer.induct) auto

lemma sorted_removeQueueTimer:
  "sorted (map fst q) \<Longrightarrow> sorted (map fst (removeQueueTimer t q))"
  by (induction t q rule: removeQueueTimer.induct)
    (auto dest: removeQueueTimer_subset [THEN subsetD])

lemma distinct_removeQueueTimer:
  "distinct (map snd q) \<Longrightarrow> distinct (map snd (removeQueueTimer t q))"
  by (induction t q rule: removeQueueTimer.induct)
    (auto dest: removeQueueTimer_subset [THEN subsetD] intro: rev_image_eqI)

lemma tq_ok_tl: "tq_ok (p # q) \<Longrightarrow> tq_ok q"
  by (simp add: tq_ok_def)

lemma tq_ok_Nil [simp]: "tq_ok []"
  by (simp add: tq_ok_def)

subsection \<open>The interface the agent relies on\<close>

text \<open>
  A queue of timed jobs from which a job can be taken back: rescheduling a job leaves exactly one
  appointment for it, the new one, and does not touch the others; the head of the queue is due
  first.
\<close>

locale timer_queue =
  fixes appts :: "'q \<Rightarrow> (simtime \<times> 'j) list"
    and put :: "simtime \<Rightarrow> 'j \<Rightarrow> 'q \<Rightarrow> 'q"
    and cancel :: "'j \<Rightarrow> 'q \<Rightarrow> 'q"
    and wf :: "'q \<Rightarrow> bool"
  assumes wf_sorted: "wf q \<Longrightarrow> sorted (map fst (appts q))"
    and wf_once: "wf q \<Longrightarrow> distinct (map snd (appts q))"
    and wf_put: "wf q \<Longrightarrow> j \<notin> snd ` set (appts q) \<Longrightarrow> wf (put x j q)"
    and set_put: "set (appts (put x j q)) = insert (x, j) (set (appts q))"
    and wf_cancel: "wf q \<Longrightarrow> wf (cancel j q)"
    and set_cancel: "wf q \<Longrightarrow> set (appts (cancel j q)) = {p \<in> set (appts q). snd p \<noteq> j}"
begin

definition move :: "simtime \<Rightarrow> 'j \<Rightarrow> 'q \<Rightarrow> 'q" where
  "move x j q = put x j (cancel j q)"

lemma wf_move: "wf q \<Longrightarrow> wf (move x j q)"
  unfolding move_def by (rule wf_put) (auto simp: wf_cancel set_cancel)

lemma set_move:
  "wf q \<Longrightarrow> set (appts (move x j q)) = insert (x, j) {p \<in> set (appts q). snd p \<noteq> j}"
  by (simp add: move_def set_put set_cancel)

lemma jobs_move: "wf q \<Longrightarrow> snd ` set (appts (move x j q)) = insert j (snd ` set (appts q))"
  by (auto simp: set_move)

lemma move_appointment: "wf q \<Longrightarrow> (y, j) \<in> set (appts (move x j q)) \<longleftrightarrow> y = x"
  by (auto simp: set_move)

lemma head_due_first:
  assumes "wf q" and "appts q = p # ps" and "r \<in> set (appts q)"
  shows "fst p \<le> fst r"
  using wf_sorted [OF assms(1)] assms(2,3) by auto

end

interpretation tq: timer_queue "\<lambda>q. q" tq_insert removeQueueTimer tq_ok
  by unfold_locales
    (auto simp: tq_ok_def sorted_tq_insert distinct_tq_insert sorted_removeQueueTimer
      distinct_removeQueueTimer set_removeQueueTimer)

lemma resched_move: "resched now time t q = tq.move (now + time) t q"
  by (simp add: resched_def tq.move_def)

lemma tq_ok_resched [simp]: "tq_ok q \<Longrightarrow> tq_ok (resched now time t q)"
  by (simp add: resched_move tq.wf_move)

lemma jobs_resched [simp]: "tq_ok q \<Longrightarrow> snd ` set (resched now time t q) = insert t (snd ` set q)"
  using tq.jobs_move by (simp add: resched_move)

end
