(* ===== verification/Olsr_Agent.thy ===== *)
theory Olsr_Agent
  imports Olsr_State Olsr_Rtable Olsr_Pkt Olsr_Timers
begin

text \<open>
  The OLSR agent (class \<open>OLSR\<close>, \<open>OLSR.h\<close>): its environment, its state, and the operations of
  \<open>OLSR.cc\<close> that add tuples to the state and remove them.  The environment collects what the agent
  asks of its base class and of the simulator: the addresses and interfaces of the node, the
  module parameters, the stream of random numbers, the routing tables of the other nodes (the
  static \<open>globalRtable\<close>).  Every operation that reads the clock takes the simulation time \<open>now\<close>.
\<close>

record olsr_env =
  ra_addr :: addr
  is_local_address :: "addr \<Rightarrow> bool"
  in_mac_layer :: bool
  wlan_ifaces :: "(int \<times> int) list"     \<comment> \<open>index and id of each wireless interface\<close>
  iface_mac :: "int \<Rightarrow> 64 word"
  iface_ipv4 :: "int \<Rightarrow> 32 word"
  wlan_id_by_address :: "addr \<Rightarrow> int option"
  get_ap :: "addr \<Rightarrow> addr option"
  find_in_address_group :: "addr \<Rightarrow> int \<Rightarrow> bool"
  address_group :: "int \<Rightarrow> addr list"
  hello_ival :: real
  tc_ival :: real
  mid_ival :: real
  refresh_interval :: real
  willingness_par :: int
  use_mac :: bool
  use_index :: bool
  optimized_mid :: bool
  del_only_rt_entries :: bool
  reduce_funcionality :: bool
  addr_size :: nat
  max_simtime :: simtime
  rnd :: "nat \<Rightarrow> real"                     \<comment> \<open>uniform numbers in \<open>[0,1)\<close>\<close>
  global_rtable :: "addr \<Rightarrow> rtable option"  \<comment> \<open>the tables of the other nodes\<close>

text \<open>The calls that change the forwarding table of the IP layer.\<close>

datatype rte_cmd =
    CleanRte
  | ChgRte addr addr nat bool addr       \<comment> \<open>destination, gateway, hops, delete?, interface address\<close>
  | ChgRteIndex addr addr nat bool int   \<comment> \<open>the same with an interface index\<close>
  | DeleteIpEntry addr

record olsr =
  state_ptr :: olsr_state
  rtable_of :: rtable
  msgs_of :: "olsr_msg list"
  timerQueue :: timer_queue
  timerMessage :: "simtime option"        \<comment> \<open>arrival time of the self message, when scheduled\<close>
  pkt_seq_of :: u16
  msg_seq_of :: u16
  ansn_of :: u16
  topologyChange :: bool
  distributionPath :: "addr \<Rightarrow> addr list option"
  route_log :: "rte_cmd list"
  sent :: "olsr_pkt list"
  rnd_pos :: nat
  next_msg_timer :: nat

definition OLSR_MAX_SEQ_NUM :: u16 where "OLSR_MAX_SEQ_NUM = 65535"

definition upd_state :: "(olsr_state \<Rightarrow> olsr_state) \<Rightarrow> olsr \<Rightarrow> olsr" where
  "upd_state f a = a\<lparr>state_ptr := f (state_ptr a)\<rparr>"

definition OLSR_NEIGHB_HOLD_TIME :: "olsr_env \<Rightarrow> simtime" where
  "OLSR_NEIGHB_HOLD_TIME e = 3 * refresh_interval e"

definition OLSR_TOP_HOLD_TIME :: "olsr_env \<Rightarrow> simtime" where
  "OLSR_TOP_HOLD_TIME e = 3 * tc_ival e"

definition OLSR_MID_HOLD_TIME :: "olsr_env \<Rightarrow> simtime" where
  "OLSR_MID_HOLD_TIME e = 3 * mid_ival e"

definition OLSR_MAXJITTER :: "olsr_env \<Rightarrow> simtime" where
  "OLSR_MAXJITTER e = hello_ival e / 4"

text \<open>\<open>jitter()\<close>: the next random number, uniform in \<open>[0, OLSR_MAXJITTER)\<close>.\<close>

definition jitter :: "olsr_env \<Rightarrow> olsr \<Rightarrow> simtime \<times> olsr" where
  "jitter e a = (rnd e (rnd_pos a) * OLSR_MAXJITTER e, a\<lparr>rnd_pos := Suc (rnd_pos a)\<rparr>)"

definition next_pkt_seq :: "olsr \<Rightarrow> u16 \<times> olsr" where
  "next_pkt_seq a = (pkt_seq_of a + 1, a\<lparr>pkt_seq_of := pkt_seq_of a + 1\<rparr>)"

definition next_msg_seq :: "olsr \<Rightarrow> u16 \<times> olsr" where
  "next_msg_seq a = (msg_seq_of a + 1, a\<lparr>msg_seq_of := msg_seq_of a + 1\<rparr>)"

definition getIfaceAddressFromIndex :: "olsr_env \<Rightarrow> int \<Rightarrow> addr" where
  "getIfaceAddressFromIndex e index =
     (if in_mac_layer e then MAC (iface_mac e index) else IPv4 (iface_ipv4 e index))"

definition schedule :: "simtime \<Rightarrow> simtime \<Rightarrow> timer \<Rightarrow> olsr \<Rightarrow> olsr" where
  "schedule now time t a = a\<lparr>timerQueue := resched now time t (timerQueue a)\<rparr>"

text \<open>\<open>OLSR::get_main_addr\<close>\<close>

definition get_main_addr :: "olsr_state \<Rightarrow> addr \<Rightarrow> addr" where
  "get_main_addr st iface =
     (case find_ifaceassoc_tuple st iface of
        Some p \<Rightarrow> ia_main_addr (deref (ifaceassocset st) p)
      | None \<Rightarrow> iface)"

subsection \<open>Adding and removing tuples\<close>

definition add_dup_tuple :: "ptr \<Rightarrow> olsr_state \<Rightarrow> olsr_state" where
  "add_dup_tuple p st = insert_dup_tuple p st"

definition rm_dup_tuple :: "ptr \<Rightarrow> olsr_state \<Rightarrow> olsr_state" where
  "rm_dup_tuple p st = erase_dup_tuple p st"

definition add_nb_tuple :: "ptr \<Rightarrow> olsr_state \<Rightarrow> olsr_state" where
  "add_nb_tuple p st =
     insert_nb_tuple p (erase_nb_tuple_addr (nb_main_addr (deref (nbset st) p)) st)"

definition rm_nb_tuple :: "ptr \<Rightarrow> olsr_state \<Rightarrow> olsr_state" where
  "rm_nb_tuple p st = erase_nb_tuple p st"

text \<open>The neighbour tuple that goes with a link tuple.\<close>

definition nb_of_link :: "simtime \<Rightarrow> link_tuple \<Rightarrow> u8 \<Rightarrow> olsr_state \<Rightarrow> nb_tuple" where
  "nb_of_link now t willingness st =
     \<lparr>nb_main_addr = get_main_addr st (l_nb_iface_addr t),
      nb_status = (if l_sym_time t \<ge> now then OLSR_STATUS_SYM else OLSR_STATUS_NOT_SYM),
      nb_willingness = willingness\<rparr>"

definition add_link_tuple :: "simtime \<Rightarrow> ptr \<Rightarrow> u8 \<Rightarrow> olsr_state \<Rightarrow> olsr_state" where
  "add_link_tuple now p willingness st =
     (let st1 = insert_link_tuple p st;
          (q, st2) = new_nb (nb_of_link now (deref (linkset st1) p) willingness st1) st1
      in add_nb_tuple q st2)"

definition rm_link_tuple :: "ptr \<Rightarrow> olsr_state \<Rightarrow> olsr_state" where
  "rm_link_tuple p st =
     (let nb_addr = get_main_addr st (l_nb_iface_addr (deref (linkset st) p));
          st1 = erase_link_tuple p st
      in case find_nb_tuple st1 nb_addr of
           None \<Rightarrow> st1
         | Some q \<Rightarrow> delete_nb q (erase_nb_tuple q st1))"

text \<open>\<open>find_or_add_nb\<close>: the pointer is the tuple found after the insertion.\<close>

definition find_or_add_nb :: "simtime \<Rightarrow> ptr \<Rightarrow> u8 \<Rightarrow> olsr_state \<Rightarrow> ptr option \<times> olsr_state" where
  "find_or_add_nb now p willingness st =
     (let t = deref (linkset st) p; main = get_main_addr st (l_nb_iface_addr t)
      in case find_nb_tuple st main of
           Some q \<Rightarrow> (Some q, st)
         | None \<Rightarrow>
             let st1 = erase_nb_tuple_addr (l_nb_iface_addr t) st;
                 (q, st2) = new_nb (nb_of_link now t willingness st1) st1;
                 st3 = add_nb_tuple q st2
             in (find_nb_tuple st3 main, st3))"

definition updated_link_tuple ::
    "olsr_env \<Rightarrow> simtime \<Rightarrow> ptr \<Rightarrow> u8 \<Rightarrow> olsr_state \<Rightarrow> olsr_state" where
  "updated_link_tuple e now p willingness st =
     (let (nb, st1) = find_or_add_nb now p willingness st; t = deref (linkset st1) p
      in case nb of
           None \<Rightarrow> st1
         | Some q \<Rightarrow> set_nb q (\<lambda>n. n\<lparr>nb_status :=
             (if use_mac e \<and> l_lost_time t \<ge> now then OLSR_STATUS_NOT_SYM
              else if l_sym_time t \<ge> now then OLSR_STATUS_SYM
              else OLSR_STATUS_NOT_SYM)\<rparr>) st1)"

definition add_nb2hop_tuple :: "ptr \<Rightarrow> olsr_state \<Rightarrow> olsr_state" where
  "add_nb2hop_tuple p st = insert_nb2hop_tuple p st"

definition rm_nb2hop_tuple :: "ptr \<Rightarrow> olsr_state \<Rightarrow> olsr_state" where
  "rm_nb2hop_tuple p st = erase_nb2hop_tuple p st"

definition add_topology_tuple :: "ptr \<Rightarrow> olsr_state \<Rightarrow> olsr_state" where
  "add_topology_tuple p st = insert_topology_tuple p st"

definition rm_topology_tuple :: "ptr \<Rightarrow> olsr_state \<Rightarrow> olsr_state" where
  "rm_topology_tuple p st = erase_topology_tuple p st"

definition add_ifaceassoc_tuple :: "ptr \<Rightarrow> olsr_state \<Rightarrow> olsr_state" where
  "add_ifaceassoc_tuple p st = insert_ifaceassoc_tuple p st"

definition rm_ifaceassoc_tuple :: "ptr \<Rightarrow> olsr_state \<Rightarrow> olsr_state" where
  "rm_ifaceassoc_tuple p st = erase_ifaceassoc_tuple p st"

text \<open>A change of the MPR selector set gives the advertised neighbour set a new number.\<close>

definition add_mprsel_tuple :: "ptr \<Rightarrow> olsr \<Rightarrow> olsr" where
  "add_mprsel_tuple p a =
     (upd_state (insert_mprsel_tuple p) a)\<lparr>ansn_of := ansn_of a + 1\<rparr>"

definition rm_mprsel_tuple :: "ptr \<Rightarrow> olsr \<Rightarrow> olsr" where
  "rm_mprsel_tuple p a =
     (upd_state (erase_mprsel_tuple p) a)\<lparr>ansn_of := ansn_of a + 1\<rparr>"

text \<open>\<open>OLSR::degree\<close>\<close>

definition degree :: "olsr_state \<Rightarrow> nb_tuple \<Rightarrow> nat" where
  "degree st t = foldl (\<lambda>d n2. if n2_nb_main_addr n2 = nb_main_addr t \<and>
       find_nb_tuple st (n2_nb2hop_addr n2) = None then d + 1 else d) 0 (tuples (nb2hopset st))"

lemmas olsr_add_rm_defs = add_dup_tuple_def rm_dup_tuple_def rm_nb_tuple_def
  add_nb2hop_tuple_def rm_nb2hop_tuple_def add_topology_tuple_def rm_topology_tuple_def
  add_ifaceassoc_tuple_def rm_ifaceassoc_tuple_def

end
