(* ===== verification/Olsr_Mpr.thy ===== *)
theory Olsr_Mpr
  imports Olsr_Agent
begin

text \<open>
  Selection of the multipoint relays, \<open>OLSR::mpr_computation\<close> and \<open>CoverTwoHopNeighbors\<close>.  The local
  vectors \<open>N\<close> (symmetric neighbours) and \<open>N2\<close> (tuples of the strict two-hop neighbourhood) are lists
  of tuples.  The \<open>while\<close> loop of step 4 may run forever in general (when no neighbour reaches
  what is left); it is a \<open>partial_function\<close> and shown to end on the \<open>N\<close> and \<open>N2\<close> the source builds.
  The results: every strict two-hop neighbour has a relay, only willing symmetric neighbours are
  relays, and those that are always willing are.
\<close>

definition CoverTwoHopNeighbors :: "addr \<Rightarrow> nb2hop_tuple list \<Rightarrow> nb2hop_tuple list" where
  "CoverTwoHopNeighbors neighborMainAddr N2 =
     (let toRemove = foldl (\<lambda>S t. if n2_nb_main_addr t = neighborMainAddr
            then insert (n2_nb2hop_addr t) S else S) {} N2
      in filter (\<lambda>t. n2_nb2hop_addr t \<notin> toRemove) N2)"

text \<open>\<open>N\<close>: the neighbours with status \<open>SYM\<close>.\<close>

definition mpr_N :: "olsr_state \<Rightarrow> nb_tuple list" where
  "mpr_N st = filter (\<lambda>t. nb_status t = OLSR_STATUS_SYM) (tuples (nbset st))"

text \<open>
  The test for membership in \<open>N2\<close>: not this node; reached through a member of \<open>N\<close> (the first
  one of that address) that is willing; and not itself a member of \<open>N\<close>.
\<close>

definition in_N2 :: "olsr_env \<Rightarrow> nb_tuple list \<Rightarrow> nb2hop_tuple \<Rightarrow> bool" where
  "in_N2 e N t \<longleftrightarrow>
     \<not> is_local_address e (n2_nb2hop_addr t) \<and>
     (case List.find (\<lambda>n. nb_main_addr n = n2_nb_main_addr t) N of
        None \<Rightarrow> False
      | Some neigh \<Rightarrow> nb_willingness neigh \<noteq> OLSR_WILL_NEVER) \<and>
     List.find (\<lambda>n. nb_main_addr n = n2_nb2hop_addr t) N = None"

definition mpr_N2 :: "olsr_env \<Rightarrow> olsr_state \<Rightarrow> nb2hop_tuple list" where
  "mpr_N2 e st = filter (in_N2 e (mpr_N st)) (tuples (nb2hopset st))"

text \<open>Step 1: the neighbours that are always willing.\<close>

definition mpr_step1 ::
    "nb_tuple list \<Rightarrow> addr set \<times> nb2hop_tuple list \<Rightarrow> addr set \<times> nb2hop_tuple list" where
  "mpr_step1 N MN2 = foldl (\<lambda>(M, N2) n. if nb_willingness n = OLSR_WILL_ALWAYS
      then (insert (nb_main_addr n) M, CoverTwoHopNeighbors (nb_main_addr n) N2)
      else (M, N2)) MN2 N"

text \<open>Step 3: the neighbours that alone reach some two-hop neighbour.\<close>

definition only_one :: "nb2hop_tuple list \<Rightarrow> nb2hop_tuple \<Rightarrow> bool" where
  "only_one N2 t \<longleftrightarrow> \<not> list_ex (\<lambda>u. n2_nb2hop_addr u = n2_nb2hop_addr t \<and>
     n2_nb_main_addr u \<noteq> n2_nb_main_addr t) N2"

definition reached_by :: "addr \<Rightarrow> nb2hop_tuple list \<Rightarrow> addr set" where
  "reached_by a N2 = set (map n2_nb2hop_addr (filter (\<lambda>u. n2_nb_main_addr u = a) N2))"

definition mpr_step3 ::
    "addr set \<times> nb2hop_tuple list \<Rightarrow> addr set \<times> nb2hop_tuple list" where
  "mpr_step3 MN2 =
     (let (M, N2) = MN2;
          (M', covered) = foldl (\<lambda>(M, C) t. if only_one N2 t
            then (insert (n2_nb_main_addr t) M, C \<union> reached_by (n2_nb_main_addr t) N2)
            else (M, C)) (M, {}) N2
      in (M', filter (\<lambda>t. n2_nb2hop_addr t \<notin> covered) N2))"

text \<open>Step 4.1: the number of tuples left that a neighbour reaches.\<close>

definition reachability :: "nb2hop_tuple list \<Rightarrow> nb_tuple \<Rightarrow> nat" where
  "reachability N2 n = length (filter (\<lambda>t. nb_main_addr n = n2_nb_main_addr t) N2)"

text \<open>
  Step 4.2: the candidates in increasing reachability (\<open>rs\<close> is a sorted set of numbers, each with
  its vector of neighbours), and the comparison of a candidate with the best so far.
\<close>

definition mpr_candidates :: "nb_tuple list \<Rightarrow> nb2hop_tuple list \<Rightarrow> nb_tuple list" where
  "mpr_candidates N N2 =
     concat (map (\<lambda>r. if r = 0 then [] else filter (\<lambda>n. reachability N2 n = r) N)
       (remdups (sort (map (reachability N2) N))))"

definition better_mpr :: "olsr_state \<Rightarrow> nb2hop_tuple list \<Rightarrow> nb_tuple option \<Rightarrow> nb_tuple \<Rightarrow> bool" where
  "better_mpr st N2 best n =
     (case best of
        None \<Rightarrow> True
      | Some m \<Rightarrow> nb_willingness n > nb_willingness m \<or>
          nb_willingness n = nb_willingness m \<and>
            (reachability N2 n > reachability N2 m \<or>
             reachability N2 n = reachability N2 m \<and> degree st n > degree st m))"

definition mpr_max :: "olsr_state \<Rightarrow> nb_tuple list \<Rightarrow> nb2hop_tuple list \<Rightarrow> nb_tuple option" where
  "mpr_max st N N2 = foldl (\<lambda>best n. if better_mpr st N2 best n then Some n else best) None
     (mpr_candidates N N2)"

text \<open>Step 4: the loop; with nobody to choose it turns forever.\<close>

partial_function (option) mpr_loop ::
    "olsr_state \<Rightarrow> nb_tuple list \<Rightarrow> addr set \<Rightarrow> nb2hop_tuple list \<Rightarrow> addr set option" where
  [code]: "mpr_loop st N M N2 =
     (if N2 = [] then Some M
      else case mpr_max st N N2 of
        None \<Rightarrow> mpr_loop st N M N2
      | Some m \<Rightarrow> mpr_loop st N (insert (nb_main_addr m) M)
          (CoverTwoHopNeighbors (nb_main_addr m) N2))"

definition mpr_computation :: "olsr_env \<Rightarrow> olsr_state \<Rightarrow> fault + olsr_state" where
  "mpr_computation e st0 =
     (let st = clear_mprset st0;
          N = mpr_N st;
          (M, N2) = mpr_step3 (mpr_step1 N (mprset st, mpr_N2 e st))
      in case mpr_loop st N M N2 of
           None \<Rightarrow> Inl Diverges
         | Some M' \<Rightarrow> Inr (st\<lparr>mprset := M'\<rparr>))"

subsection \<open>Covering\<close>

lemma foldl_insert_if:
  "foldl (\<lambda>S t. if P t then insert (f t) S else S) S0 xs = S0 \<union> f ` {t \<in> set xs. P t}"
  by (induction xs arbitrary: S0) auto

lemma CoverTwoHopNeighbors_eq:
  "CoverTwoHopNeighbors a N2 = filter (\<lambda>t. n2_nb2hop_addr t \<notin> reached_by a N2) N2"
  by (simp add: CoverTwoHopNeighbors_def Let_def foldl_insert_if reached_by_def)

text \<open>
  What every step keeps: the relays \<open>M\<close> together with the tuples left reach every two-hop
  neighbour of the original \<open>N2\<close>.
\<close>

definition relay_inv ::
    "nb2hop_tuple list \<Rightarrow> addr set \<Rightarrow> nb2hop_tuple list \<Rightarrow> bool" where
  "relay_inv N2\<^sub>0 M N2 \<longleftrightarrow> set N2 \<subseteq> set N2\<^sub>0 \<and>
     (\<forall>t\<in>set N2\<^sub>0. (\<exists>u\<in>set N2\<^sub>0. n2_nb2hop_addr u = n2_nb2hop_addr t \<and> n2_nb_main_addr u \<in> M) \<or>
        (\<forall>u\<in>set N2\<^sub>0. n2_nb2hop_addr u = n2_nb2hop_addr t \<longrightarrow> u \<in> set N2))"

lemma relay_inv_init: "relay_inv N2 M N2"
  by (auto simp: relay_inv_def)

lemma relay_inv_cover:
  assumes "relay_inv N2\<^sub>0 M N2" and "M \<subseteq> M'"
    and "\<And>c. c \<in> C \<Longrightarrow> \<exists>u\<in>set N2. n2_nb2hop_addr u = c \<and> n2_nb_main_addr u \<in> M'"
  shows "relay_inv N2\<^sub>0 M' (filter (\<lambda>t. n2_nb2hop_addr t \<notin> C) N2)"
proof -
  have sub: "set N2 \<subseteq> set N2\<^sub>0" using assms(1) by (simp add: relay_inv_def)
  have "(\<exists>u\<in>set N2\<^sub>0. n2_nb2hop_addr u = n2_nb2hop_addr t \<and> n2_nb_main_addr u \<in> M') \<or>
      (\<forall>u\<in>set N2\<^sub>0. n2_nb2hop_addr u = n2_nb2hop_addr t \<longrightarrow>
        u \<in> set (filter (\<lambda>t. n2_nb2hop_addr t \<notin> C) N2))" if t: "t \<in> set N2\<^sub>0" for t
  proof (cases "n2_nb2hop_addr t \<in> C")
    case True
    then show ?thesis using assms(3) sub by blast
  next
    case False
    from assms(1) t consider
        u where "u \<in> set N2\<^sub>0" "n2_nb2hop_addr u = n2_nb2hop_addr t" "n2_nb_main_addr u \<in> M"
      | "\<forall>u\<in>set N2\<^sub>0. n2_nb2hop_addr u = n2_nb2hop_addr t \<longrightarrow> u \<in> set N2"
      unfolding relay_inv_def by blast
    then show ?thesis
    proof cases
      case 2
      then show ?thesis using False by auto
    qed (use assms(2) in blast)
  qed
  then show ?thesis using sub by (auto simp: relay_inv_def)
qed

lemma relay_inv_CoverTwoHop:
  assumes "relay_inv N2\<^sub>0 M N2"
  shows "relay_inv N2\<^sub>0 (insert a M) (CoverTwoHopNeighbors a N2)"
  unfolding CoverTwoHopNeighbors_eq
  by (rule relay_inv_cover [OF assms]) (auto simp: reached_by_def)

lemma relay_inv_step1:
  "relay_inv N2\<^sub>0 M N2 \<Longrightarrow> mpr_step1 N (M, N2) = (M', N2') \<Longrightarrow> relay_inv N2\<^sub>0 M' N2'"
  unfolding mpr_step1_def
proof (induction N arbitrary: M N2)
  case (Cons n N)
  then show ?case
    by (cases "nb_willingness n = OLSR_WILL_ALWAYS") (auto intro: relay_inv_CoverTwoHop)
qed simp

lemma step3_fold:
  "foldl (\<lambda>(M, C) t. if P t then (insert (f t) M, C \<union> g t) else (M, C)) (M, C) xs =
     (M \<union> f ` {t \<in> set xs. P t}, C \<union> (\<Union>t\<in>{t \<in> set xs. P t}. g t))"
  by (induction xs arbitrary: M C) auto

lemma mpr_step3_eq:
  "mpr_step3 (M, N2) =
     (M \<union> n2_nb_main_addr ` {t \<in> set N2. only_one N2 t},
      filter (\<lambda>t. n2_nb2hop_addr t \<notin>
        (\<Union>t\<in>{t \<in> set N2. only_one N2 t}. reached_by (n2_nb_main_addr t) N2)) N2)"
  by (simp add: mpr_step3_def step3_fold)

lemma relay_inv_step3:
  assumes "relay_inv N2\<^sub>0 M N2" and "mpr_step3 (M, N2) = (M', N2')"
  shows "relay_inv N2\<^sub>0 M' N2'"
proof -
  have "relay_inv N2\<^sub>0 (fst (mpr_step3 (M, N2))) (snd (mpr_step3 (M, N2)))"
    unfolding mpr_step3_eq fst_conv snd_conv
    by (rule relay_inv_cover [OF assms(1)]) (auto simp: reached_by_def)
  then show ?thesis using assms(2) by simp
qed

subsection \<open>The loop ends\<close>

lemma set_mpr_candidates:
  "set (mpr_candidates N N2) = {n \<in> set N. reachability N2 n \<noteq> 0}"
  by (auto simp: mpr_candidates_def split: if_splits)

lemma mpr_max_foldl:
  "foldl (\<lambda>best n. if better_mpr st N2 best n then Some n else best) b xs = Some m \<Longrightarrow>
     m \<in> set xs \<or> b = Some m"
  by (induction xs arbitrary: b) (force split: if_splits)+

lemma mpr_max_keeps:
  "foldl (\<lambda>best n. if better_mpr st N2 best n then Some n else best) (Some b) xs \<noteq> None"
  by (induction xs arbitrary: b) auto

lemma mpr_max_Some:
  assumes "mpr_max st N N2 = Some m"
  shows "m \<in> set N" and "reachability N2 m \<noteq> 0"
  using mpr_max_foldl [OF assms [unfolded mpr_max_def]] by (auto simp: set_mpr_candidates)

lemma mpr_max_exists:
  assumes "n \<in> set N" and "reachability N2 n \<noteq> 0"
  shows "\<exists>m. mpr_max st N N2 = Some m"
proof -
  have "mpr_candidates N N2 \<noteq> []"
    using assms set_mpr_candidates [of N N2] by (metis (mono_tags, lifting) empty_iff empty_set mem_Collect_eq)
  then obtain c cs where c: "mpr_candidates N N2 = c # cs" by (cases "mpr_candidates N N2") auto
  then show ?thesis using mpr_max_keeps [of st N2 c cs] by (simp add: mpr_max_def better_mpr_def)
qed

lemma reachability_pos:
  "reachability N2 n \<noteq> 0 \<longleftrightarrow> (\<exists>t\<in>set N2. n2_nb_main_addr t = nb_main_addr n)"
  by (force simp: reachability_def filter_empty_conv)

lemma CoverTwoHop_shorter:
  assumes "t \<in> set N2" and "n2_nb_main_addr t = a"
  shows "length (CoverTwoHopNeighbors a N2) < length N2"
  unfolding CoverTwoHopNeighbors_eq
  by (rule filter_length_less [OF assms(1)]) (use assms in \<open>auto simp: reached_by_def\<close>)

text \<open>
  On tuples that are all reached through members of \<open>N\<close> the loop returns, and it keeps any
  property that choosing a useful neighbour keeps.
\<close>

lemma mpr_loop_returns:
  assumes "n2_nb_main_addr ` set N2 \<subseteq> nb_main_addr ` set N" and "relay_inv N2\<^sub>0 M N2"
    and "M \<subseteq> S" and "\<And>t. t \<in> set N2 \<Longrightarrow> n2_nb_main_addr t \<in> S"
  shows "\<exists>M'. mpr_loop st N M N2 = Some M' \<and> relay_inv N2\<^sub>0 M' [] \<and> M \<subseteq> M' \<and> M' \<subseteq> S"
  using assms
proof (induction "length N2" arbitrary: N2 M rule: less_induct)
  case less
  show ?case
  proof (cases "N2 = []")
    case True
    then show ?thesis using less.prems by (simp add: mpr_loop.simps)
  next
    case False
    then obtain t where t: "t \<in> set N2" by (cases N2) auto
    then obtain n where "n \<in> set N" "nb_main_addr n = n2_nb_main_addr t"
      using less.prems(1) by force
    then obtain m where m: "mpr_max st N N2 = Some m"
      using mpr_max_exists t by (metis reachability_pos)
    then obtain u where u: "u \<in> set N2" "n2_nb_main_addr u = nb_main_addr m"
      using mpr_max_Some(2) reachability_pos by blast
    let ?N2 = "CoverTwoHopNeighbors (nb_main_addr m) N2"
    have sub: "set ?N2 \<subseteq> set N2" by (auto simp: CoverTwoHopNeighbors_eq)
    have "\<exists>M'. mpr_loop st N (insert (nb_main_addr m) M) ?N2 = Some M' \<and> relay_inv N2\<^sub>0 M' [] \<and>
        insert (nb_main_addr m) M \<subseteq> M' \<and> M' \<subseteq> S"
    proof (rule less.hyps)
      show "length ?N2 < length N2" using CoverTwoHop_shorter u by blast
      show "n2_nb_main_addr ` set ?N2 \<subseteq> nb_main_addr ` set N" using sub less.prems(1) by blast
      show "relay_inv N2\<^sub>0 (insert (nb_main_addr m) M) ?N2"
        by (rule relay_inv_CoverTwoHop) fact
      show "insert (nb_main_addr m) M \<subseteq> S" using less.prems(3,4) u by force
    qed (use sub less.prems(4) in blast)
    then show ?thesis using False m by (auto simp: mpr_loop.simps [of st N M N2])
  qed
qed

lemma in_N2_D:
  assumes "in_N2 e N t"
  obtains n where "n \<in> set N" "nb_main_addr n = n2_nb_main_addr t"
    "nb_willingness n \<noteq> OLSR_WILL_NEVER"
  using assms by (auto simp: in_N2_def split: option.splits dest: find_Some_in)

lemma mpr_step1_sub:
  "mpr_step1 N (M, N2) = (M', N2') \<Longrightarrow>
     set N2' \<subseteq> set N2 \<and> M \<union> {a. \<exists>n\<in>set N. nb_willingness n = OLSR_WILL_ALWAYS \<and> a = nb_main_addr n} = M'"
  unfolding mpr_step1_def
proof (induction N arbitrary: M N2)
  case (Cons n N)
  have "set (CoverTwoHopNeighbors (nb_main_addr n) N2) \<subseteq> set N2"
    by (auto simp: CoverTwoHopNeighbors_eq)
  then show ?case
    using Cons.IH [of "insert (nb_main_addr n) M" "CoverTwoHopNeighbors (nb_main_addr n) N2"]
      Cons.IH [of M N2] Cons.prems
    by (cases "nb_willingness n = OLSR_WILL_ALWAYS") auto
qed simp

text \<open>The neighbours the computation may choose: symmetric and willing.\<close>

definition willing_sym :: "olsr_state \<Rightarrow> addr set" where
  "willing_sym st = {a. \<exists>n\<in>set (tuples (nbset st)). a = nb_main_addr n \<and>
     nb_status n = OLSR_STATUS_SYM \<and> nb_willingness n \<noteq> OLSR_WILL_NEVER}"

definition always_sym :: "olsr_state \<Rightarrow> addr set" where
  "always_sym st = {a. \<exists>n\<in>set (tuples (nbset st)). a = nb_main_addr n \<and>
     nb_status n = OLSR_STATUS_SYM \<and> nb_willingness n = OLSR_WILL_ALWAYS}"

lemma mpr_computation_result:
  obtains M where "mpr_computation e st = Inr (st\<lparr>mprset := M\<rparr>)"
    "relay_inv (mpr_N2 e st) M []" "always_sym st \<subseteq> M" "M \<subseteq> willing_sym st"
proof -
  let ?st = "clear_mprset st"
  have same: "mpr_N ?st = mpr_N st" "mpr_N2 e ?st = mpr_N2 e st" "mprset ?st = {}"
    by (simp_all add: mpr_N_def mpr_N2_def clear_mprset_def)
  obtain M1 A where 1: "mpr_step1 (mpr_N st) ({}, mpr_N2 e st) = (M1, A)" by force
  obtain M3 B where 3: "mpr_step3 (M1, A) = (M3, B)" by force
  have sub1: "set A \<subseteq> set (mpr_N2 e st)" and M1: "M1 = always_sym st"
    using mpr_step1_sub [OF 1] by (auto simp: always_sym_def mpr_N_def)
  have N2w: "n2_nb_main_addr t \<in> willing_sym st" if "t \<in> set (mpr_N2 e st)" for t
  proof -
    have "in_N2 e (mpr_N st) t" using that by (simp add: mpr_N2_def)
    then show ?thesis by (rule in_N2_D) (force simp: willing_sym_def mpr_N_def)
  qed
  have al: "always_sym st \<subseteq> willing_sym st"
    by (auto simp: always_sym_def willing_sym_def)
  have M3: "M1 \<subseteq> M3" "M3 \<subseteq> willing_sym st" "set B \<subseteq> set (mpr_N2 e st)"
    using 3 al M1 sub1 N2w unfolding mpr_step3_eq by auto
  have "relay_inv (mpr_N2 e st) M3 B"
    using relay_inv_step3 [OF relay_inv_step1 [OF relay_inv_init 1] 3] .
  moreover have "n2_nb_main_addr ` set B \<subseteq> nb_main_addr ` set (mpr_N st)"
    using M3(3) N2w by (fastforce simp: willing_sym_def mpr_N_def)
  ultimately obtain M where M: "mpr_loop ?st (mpr_N st) M3 B = Some M"
      "relay_inv (mpr_N2 e st) M []" "M3 \<subseteq> M" "M \<subseteq> willing_sym st"
    using mpr_loop_returns [of B "mpr_N st" "mpr_N2 e st" M3 "willing_sym st" ?st] M3 N2w by blast
  have "mpr_computation e st = Inr (st\<lparr>mprset := M\<rparr>)"
    using 1 3 M(1) by (simp add: mpr_computation_def same Let_def) (simp add: clear_mprset_def)
  then show ?thesis using that M M1 M3 by blast
qed

text \<open>
  What the computation is about, without the order of the search: the two-hop tuples whose target is
  neither this node nor a symmetric neighbour and that go through a willing symmetric neighbour.
\<close>

definition strict_two_hop :: "olsr_env \<Rightarrow> olsr_state \<Rightarrow> nb2hop_tuple \<Rightarrow> bool" where
  "strict_two_hop e st t \<longleftrightarrow> t \<in> set (tuples (nb2hopset st)) \<and>
     \<not> is_local_address e (n2_nb2hop_addr t) \<and> n2_nb_main_addr t \<in> willing_sym st \<and>
     (\<forall>n\<in>set (tuples (nbset st)). nb_status n = OLSR_STATUS_SYM \<longrightarrow> nb_main_addr n \<noteq> n2_nb2hop_addr t)"

lemma find_key:
  "distinct (map f xs) \<Longrightarrow> x \<in> set xs \<Longrightarrow> List.find (\<lambda>y. f y = f x) xs = Some x"
proof (induction xs)
  case (Cons y ys)
  show ?case
  proof (cases "f y = f x")
    case True
    then have "y = x" using distinct_key_eq [OF Cons.prems(1), of y x] Cons.prems(2) by simp
    then show ?thesis by simp
  qed (use Cons in auto)
qed simp

lemma strict_two_hop_N2:
  assumes "olsr_state_ok st"
  shows "t \<in> set (mpr_N2 e st) \<longleftrightarrow> strict_two_hop e st t"
proof -
  have d: "distinct (map nb_main_addr (mpr_N st))"
    using assms by (auto simp: olsr_state_ok_def olsr_unique_defs mpr_N_def)
  have "(case List.find (\<lambda>n. nb_main_addr n = a) (mpr_N st) of None \<Rightarrow> False
      | Some neigh \<Rightarrow> nb_willingness neigh \<noteq> OLSR_WILL_NEVER) \<longleftrightarrow> a \<in> willing_sym st" for a
  proof
    assume "case List.find (\<lambda>n. nb_main_addr n = a) (mpr_N st) of None \<Rightarrow> False
      | Some neigh \<Rightarrow> nb_willingness neigh \<noteq> OLSR_WILL_NEVER"
    then show "a \<in> willing_sym st"
      by (auto simp: willing_sym_def mpr_N_def dest!: find_Some_in split: option.splits)
  next
    assume "a \<in> willing_sym st"
    then obtain n where n: "n \<in> set (mpr_N st)" "nb_main_addr n = a" "nb_willingness n \<noteq> OLSR_WILL_NEVER"
      by (auto simp: willing_sym_def mpr_N_def)
    then show "case List.find (\<lambda>n. nb_main_addr n = a) (mpr_N st) of None \<Rightarrow> False
      | Some neigh \<Rightarrow> nb_willingness neigh \<noteq> OLSR_WILL_NEVER"
      using find_key [OF d n(1)] by simp
  qed
  moreover have "List.find (\<lambda>n. nb_main_addr n = a) (mpr_N st) = None \<longleftrightarrow>
      (\<forall>n\<in>set (tuples (nbset st)). nb_status n = OLSR_STATUS_SYM \<longrightarrow> nb_main_addr n \<noteq> a)" for a
    by (auto simp: find_None_all mpr_N_def)
  ultimately show ?thesis by (simp add: strict_two_hop_def mpr_N2_def in_N2_def)
qed

lemma relays_reach:
  assumes "olsr_state_ok st" and "relay_inv (mpr_N2 e st) M []" and "strict_two_hop e st t"
  shows "\<exists>u. strict_two_hop e st u \<and> n2_nb2hop_addr u = n2_nb2hop_addr t \<and> n2_nb_main_addr u \<in> M"
  using assms strict_two_hop_N2 [OF assms(1)] unfolding relay_inv_def by fastforce

subsection \<open>The order of preference\<close>

text \<open>Willingness first, then the two-hop neighbours still to cover, then the degree.\<close>

definition merit :: "olsr_state \<Rightarrow> nb2hop_tuple list \<Rightarrow> nb_tuple \<Rightarrow> u8 \<times> nat \<times> nat" where
  "merit st N2 n = (nb_willingness n, reachability N2 n, degree st n)"

lemma better_mpr_merit: "better_mpr st N2 (Some m) n \<longleftrightarrow> merit st N2 m < merit st N2 n"
  by (auto simp: better_mpr_def merit_def)

lemma mpr_max_merit:
  assumes "foldl (\<lambda>best n. if better_mpr st N2 best n then Some n else best) b xs = Some m"
  shows "(\<forall>n\<in>set xs. merit st N2 n \<le> merit st N2 m) \<and> (\<forall>n. b = Some n \<longrightarrow> merit st N2 n \<le> merit st N2 m)"
  using assms
proof (induction xs arbitrary: b)
  case (Cons x xs)
  show ?case
  proof (cases "better_mpr st N2 b x")
    case True
    then have IH: "(\<forall>n\<in>set xs. merit st N2 n \<le> merit st N2 m) \<and> merit st N2 x \<le> merit st N2 m"
      using Cons.IH [of "Some x"] Cons.prems by simp
    moreover have "merit st N2 n \<le> merit st N2 m" if "b = Some n" for n
      using True that IH order.strict_trans2 [of "merit st N2 n" "merit st N2 x" "merit st N2 m"]
      by (simp add: better_mpr_merit)
    ultimately show ?thesis by simp
  next
    case False
    then obtain y where y: "b = Some y" by (cases b) (simp_all add: better_mpr_def)
    then have "merit st N2 x \<le> merit st N2 y" using False by (simp add: better_mpr_merit)
    then show ?thesis using Cons.IH [of b] Cons.prems False y by auto
  qed
qed simp

lemma mpr_max_best:
  assumes "mpr_max st N N2 = Some m" and "n \<in> set N" and "reachability N2 n \<noteq> 0"
  shows "merit st N2 n \<le> merit st N2 m"
  using mpr_max_merit [OF assms(1) [unfolded mpr_max_def]] assms(2,3)
  by (simp add: set_mpr_candidates)

end
