(* ===== verification/Olsr_Routing.thy ===== *)
theory Olsr_Routing
  imports Olsr_Agent
begin

text \<open>
  The routing table of the node: \<open>OLSR::rtable_computation\<close> with the calls that keep the IP layer's
  table in step, \<open>computeDistributionPath\<close>, and the queries the rest of the node makes
  (\<open>getRoute\<close>, \<open>getNextHop\<close>, their group variants, \<open>getDistributionPath\<close>, \<open>isNodeCandidate\<close>).  A
  table under construction is a pair of the table and the list of commands sent so far.
\<close>

subsection \<open>Steps 1 to 3: neighbours and two-hop neighbours\<close>

type_synonym build = "rtable \<times> rte_cmd list"

text \<open>\<open>omnet_chg_rte\<close>, by interface index or by interface address; the mask is always all ones.\<close>

definition chg_rte :: "olsr_env \<Rightarrow> addr \<Rightarrow> addr \<Rightarrow> nat \<Rightarrow> addr \<Rightarrow> int \<Rightarrow> rte_cmd" where
  "chg_rte e dst gw hops iface index =
     (if \<not> use_index e then ChgRte dst gw hops False iface
      else ChgRteIndex dst gw hops False index)"

definition put_route ::
    "olsr_env \<Rightarrow> addr \<Rightarrow> addr \<Rightarrow> addr \<Rightarrow> nat \<Rightarrow> int \<Rightarrow> build \<Rightarrow> build" where
  "put_route e dst gw iface d index b =
     (add_entry dst gw iface d index (fst b), snd b @ [chg_rte e dst gw d iface index])"

definition put_route_via ::
    "olsr_env \<Rightarrow> addr \<Rightarrow> addr \<Rightarrow> addr \<Rightarrow> nat \<Rightarrow> int \<Rightarrow> rt_entry \<Rightarrow> build \<Rightarrow> build" where
  "put_route_via e dst gw iface d index aux b =
     (add_entry_via dst gw iface d index aux (fst b), snd b @ [chg_rte e dst gw d iface index])"

text \<open>One link of the neighbour: a route to its interface; the last link used is remembered.\<close>

definition nb_link_step ::
    "olsr_env \<Rightarrow> simtime \<Rightarrow> olsr_state \<Rightarrow> nb_tuple \<Rightarrow>
     build \<times> bool \<times> link_tuple option \<Rightarrow> link_tuple \<Rightarrow> build \<times> bool \<times> link_tuple option" where
  "nb_link_step e now st n acc l =
     (let (b, nb_main_addr', lt) = acc in
      if get_main_addr st (l_nb_iface_addr l) = nb_main_addr n \<and> l_time l \<ge> now
      then (put_route e (l_nb_iface_addr l) (l_nb_iface_addr l) (l_local_iface_addr l) 1
              (l_index l) b,
            nb_main_addr' \<or> l_nb_iface_addr l = nb_main_addr n, Some l)
      else acc)"

definition nb_step :: "olsr_env \<Rightarrow> simtime \<Rightarrow> olsr_state \<Rightarrow> build \<Rightarrow> nb_tuple \<Rightarrow> build" where
  "nb_step e now st b n =
     (if nb_status n = OLSR_STATUS_SYM
      then (let (b', nb_main_addr', lt) =
              foldl (nb_link_step e now st n) (b, False, None) (tuples (linkset st))
            in case lt of
                 Some l \<Rightarrow> if \<not> nb_main_addr'
                   then put_route e (nb_main_addr n) (l_nb_iface_addr l) (l_local_iface_addr l) 1
                     (l_index l) b'
                   else b'
               | None \<Rightarrow> b')
      else b)"

text \<open>A two-hop neighbour; an existing entry is kept only for a more willing neighbour.\<close>

definition n2_step :: "olsr_env \<Rightarrow> olsr_state \<Rightarrow> build \<Rightarrow> nb2hop_tuple \<Rightarrow> fault + build" where
  "n2_step e st b t =
     (case find_sym_nb_tuple st (n2_nb_main_addr t) of
        None \<Rightarrow> Inr b
      | Some new \<Rightarrow>
          if find_nb_tuple_will st (n2_nb_main_addr t) OLSR_WILL_NEVER \<noteq> None \<or>
             find_sym_nb_tuple st (n2_nb2hop_addr t) \<noteq> None then Inr b
          else (case rtable_lookup (fst b) (n2_nb_main_addr t) of
              None \<Rightarrow> Inl AssertionFailed
            | Some en \<Rightarrow>
                let ins = (case rtable_lookup (fst b) (n2_nb2hop_addr t) of
                      None \<Rightarrow> True
                    | Some entry2hop \<Rightarrow>
                        (case find_sym_nb_tuple st (next_addr entry2hop) of
                           None \<Rightarrow> True
                         | Some old \<Rightarrow> \<not> nb_willingness (deref (nbset st) old) >
                             nb_willingness (deref (nbset st) new)))
                in Inr (if ins
                  then put_route e (n2_nb2hop_addr t) (next_addr en) (iface_addr en) 2
                    (rt_index en) b
                  else b)))"

subsection \<open>Steps 4 and 5: the rest of the network\<close>

definition topo_step ::
    "olsr_env \<Rightarrow> nat \<Rightarrow> build \<times> bool \<Rightarrow> topology_tuple \<Rightarrow> build \<times> bool" where
  "topo_step e h acc t =
     (case (rtable_lookup (fst (fst acc)) (t_dest_addr t),
            rtable_lookup (fst (fst acc)) (t_last_addr t)) of
        (None, Some en2) \<Rightarrow>
          if dist en2 = h
          then (put_route_via e (t_dest_addr t) (next_addr en2) (iface_addr en2) (h + 1)
                  (rt_index en2) en2 (fst acc), True)
          else acc
      | _ \<Rightarrow> acc)"

definition assoc_step ::
    "olsr_env \<Rightarrow> build \<times> bool \<Rightarrow> iface_assoc_tuple \<Rightarrow> build \<times> bool" where
  "assoc_step e acc t =
     (case (rtable_lookup (fst (fst acc)) (ia_main_addr t),
            rtable_lookup (fst (fst acc)) (ia_iface_addr t)) of
        (Some en1, None) \<Rightarrow>
          (put_route_via e (ia_iface_addr t) (next_addr en1) (iface_addr en1) (dist en1)
             (rt_index en1) en1 (fst acc), True)
      | _ \<Rightarrow> acc)"

definition rt_pass :: "olsr_env \<Rightarrow> olsr_state \<Rightarrow> nat \<Rightarrow> build \<Rightarrow> build \<times> bool" where
  "rt_pass e st h b =
     foldl (assoc_step e) (foldl (topo_step e h) (b, False) (tuples (topologyset st)))
       (tuples (ifaceassocset st))"

text \<open>The addresses a pass may still add, which makes the loop on \<open>h\<close> end.\<close>

definition open_dests :: "olsr_state \<Rightarrow> build \<Rightarrow> addr set" where
  "open_dests st b = {d \<in> t_dest_addr ` set (tuples (topologyset st)) \<union>
     ia_iface_addr ` set (tuples (ifaceassocset st)). rtable_lookup (fst b) d = None}"

lemma finite_open_dests [simp]: "finite (open_dests st b)"
  by (simp add: open_dests_def)

lemma lookup_assign_None:
  "rtable_lookup (rt_assign k en rt) d = None \<longleftrightarrow> d \<noteq> k \<and> rtable_lookup rt d = None"
  using set_rt_assign [of k en rt] by (auto simp: rtable_lookup_def map_of_eq_None_iff)

lemma lookup_add_None [simp]:
  "rtable_lookup (add_entry k nx i d x rt) a = None \<longleftrightarrow> a \<noteq> k \<and> rtable_lookup rt a = None"
  "rtable_lookup (add_entry_via k nx i d x en rt) a = None \<longleftrightarrow> a \<noteq> k \<and> rtable_lookup rt a = None"
  by (simp_all add: add_entry_def add_entry_via_def lookup_assign_None)

lemma put_route_fst [simp]:
  "fst (put_route e k nx i d x b) = add_entry k nx i d x (fst b)"
  "fst (put_route_via e k nx i d x en b) = add_entry_via k nx i d x en (fst b)"
  by (simp_all add: put_route_def put_route_via_def)

lemma topo_step_open:
  "t \<in> set (tuples (topologyset st)) \<Longrightarrow>
   open_dests st (fst (topo_step e h acc t)) \<subseteq> open_dests st (fst acc) \<and>
   (snd (topo_step e h acc t) \<longrightarrow>
     snd acc \<or> open_dests st (fst (topo_step e h acc t)) \<subset> open_dests st (fst acc))"
  by (auto simp: topo_step_def open_dests_def split: option.splits)

lemma assoc_step_open:
  "t \<in> set (tuples (ifaceassocset st)) \<Longrightarrow>
   open_dests st (fst (assoc_step e acc t)) \<subseteq> open_dests st (fst acc) \<and>
   (snd (assoc_step e acc t) \<longrightarrow>
     snd acc \<or> open_dests st (fst (assoc_step e acc t)) \<subset> open_dests st (fst acc))"
  by (auto simp: assoc_step_def open_dests_def split: option.splits)

lemma pass_open_foldl:
  assumes "\<And>acc t. t \<in> set ts \<Longrightarrow> D (fst (f acc t)) \<subseteq> D (fst acc) \<and>
      (snd (f acc t) \<longrightarrow> snd acc \<or> D (fst (f acc t)) \<subset> D (fst acc))"
  shows "D (fst (foldl f acc ts)) \<subseteq> D (fst acc) \<and>
      (snd (foldl f acc ts) \<longrightarrow> snd acc \<or> D (fst (foldl f acc ts)) \<subset> D (fst acc))"
  using assms
proof (induction ts arbitrary: acc)
  case (Cons t ts)
  have 1: "D (fst (f acc t)) \<subseteq> D (fst acc) \<and>
      (snd (f acc t) \<longrightarrow> snd acc \<or> D (fst (f acc t)) \<subset> D (fst acc))"
    using Cons.prems by simp
  have 2: "D (fst (foldl f (f acc t) ts)) \<subseteq> D (fst (f acc t)) \<and>
      (snd (foldl f (f acc t) ts) \<longrightarrow> snd (f acc t) \<or>
        D (fst (foldl f (f acc t) ts)) \<subset> D (fst (f acc t)))"
    by (rule Cons.IH) (use Cons.prems in simp)
  show ?case using 1 2 by simp blast
qed simp

lemma rt_pass_open:
  "snd (rt_pass e st h b) \<Longrightarrow> open_dests st (fst (rt_pass e st h b)) \<subset> open_dests st b"
  using pass_open_foldl [of "tuples (topologyset st)" "open_dests st" "topo_step e h" "(b, False)"]
    pass_open_foldl [of "tuples (ifaceassocset st)" "open_dests st" "assoc_step e"
      "foldl (topo_step e h) (b, False) (tuples (topologyset st))"]
    topo_step_open [of _ st e h] assoc_step_open [of _ st e]
  unfolding rt_pass_def by simp blast

function rt_loop :: "olsr_env \<Rightarrow> olsr_state \<Rightarrow> nat \<Rightarrow> build \<Rightarrow> build" where
  "rt_loop e st h b =
     (let (b', added) = rt_pass e st h b in if added then rt_loop e st (Suc h) b' else b')"
  by auto
termination
proof (relation "measure (\<lambda>(e, st, h, b). card (open_dests st b))")
  fix e st h b x b' added
  assume "x = rt_pass e st h b" "(b', added) = x" "added"
  then have "snd (rt_pass e st h b)" and "b' = fst (rt_pass e st h b)"
    by (metis snd_conv, metis fst_conv)
  then have "open_dests st b' \<subset> open_dests st b" using rt_pass_open [of e st h b] by simp
  then show "((e, st, Suc h, b'), (e, st, h, b)) \<in> measure (\<lambda>(e, st, h, b). card (open_dests st b))"
    by (simp add: psubset_card_mono)
qed simp

declare rt_loop.simps [simp del]

subsection \<open>The path that visits all relays\<close>

definition globalRtable :: "olsr_env \<Rightarrow> olsr \<Rightarrow> addr \<Rightarrow> rtable option" where
  "globalRtable e a x = (if x = ra_addr e then Some (rtable_of a) else global_rtable e x)"

text \<open>
  The nearest relay left, in the order of the set; \<open>None\<close> is the early return of the source when
  a relay has no entry.
\<close>

fun nearest_relay ::
    "rtable \<Rightarrow> addr \<Rightarrow> addr list \<Rightarrow> nat \<times> (addr \<times> rt_entry) option \<Rightarrow>
     (nat \<times> (addr \<times> rt_entry) option) option" where
  "nearest_relay val actualNode [] acc = Some acc"
| "nearest_relay val actualNode (x # xs) acc =
     (if x = actualNode then nearest_relay val actualNode xs acc
      else case rtable_lookup val x of
          None \<Rightarrow> None
        | Some en \<Rightarrow> nearest_relay val actualNode xs
            (if fst acc > dist en then (dist en, Some (x, en)) else acc))"

lemma nearest_relay_in:
  "nearest_relay val act xs acc = Some (h, Some (x, en)) \<Longrightarrow>
     snd acc = Some (x, en) \<or> x \<in> set xs \<and> rtable_lookup val x = Some en"
  by (induction val act xs acc rule: nearest_relay.induct) (auto split: if_splits option.splits)

function path_loop ::
    "olsr_env \<Rightarrow> olsr \<Rightarrow> addr \<Rightarrow> addr list \<Rightarrow> addr list \<Rightarrow> fault + addr list option" where
  "path_loop e a actualNode mpr rte =
     (if mpr = [] then Inr (Some rte)
      else case globalRtable e a actualNode of
          None \<Rightarrow> Inr None
        | Some val \<Rightarrow> (case nearest_relay val actualNode mpr (1000, None) of
            None \<Rightarrow> Inr None
          | Some (_, None) \<Rightarrow> Inl BadAccess
          | Some (_, Some (x, en)) \<Rightarrow>
              if dist en > 1 \<and> route en = [] then Inl EntryRouteError
              else path_loop e a x (remove1 x mpr) (rte @ route en @ [x])))"
  by auto
termination
  by (relation "measure (\<lambda>(e, a, x, mpr, r). length mpr)")
    (auto dest!: nearest_relay_in simp: length_remove1 intro: diff_less length_pos_if_in_set)

declare path_loop.simps [simp del]

definition computeDistributionPath :: "olsr_env \<Rightarrow> addr \<Rightarrow> olsr \<Rightarrow> fault + olsr" where
  "computeDistributionPath e initNode a =
     bindE (path_loop e a initNode (sorted_list_of_set (mprset (state_ptr a))) [])
       (\<lambda>r. Inr (case r of
          None \<Rightarrow> a
        | Some rte \<Rightarrow> a\<lparr>distributionPath := (distributionPath a)(initNode \<mapsto> rte)\<rparr>))"

subsection \<open>The whole computation\<close>

text \<open>
  The branch for \<open>DelOnlyRtEntriesInrtable_\<close> means to take the node's own routes out of the IP
  table; its loop, too, stops where it starts.
\<close>

definition clean_cmds :: "olsr_env \<Rightarrow> rtable \<Rightarrow> rte_cmd list" where
  "clean_cmds e rt =
     (if del_only_rt_entries e
      then map (\<lambda>(k, _). ChgRte k k 1 True k) (iter_range 0 0 rt)
      else [CleanRte])"

definition rt_build :: "olsr_env \<Rightarrow> simtime \<Rightarrow> olsr \<Rightarrow> fault + build" where
  "rt_build e now a =
     (let st = state_ptr a;
          b0 = (rtable_clear (rtable_of a), route_log a @ clean_cmds e (rtable_of a));
          b1 = foldl (nb_step e now st) b0 (tuples (nbset st))
      in bindE (foldE (n2_step e st) (tuples (nb2hopset st)) b1)
           (\<lambda>b2. Inr (rt_loop e st 2 b2)))"

definition rtable_computation :: "olsr_env \<Rightarrow> simtime \<Rightarrow> olsr \<Rightarrow> fault + olsr" where
  "rtable_computation e now a =
     bindE (rt_build e now a) (\<lambda>(rt, cmds).
       computeDistributionPath e (ra_addr e)
         (a\<lparr>rtable_of := rt, route_log := cmds, topologyChange := False\<rparr>))"

subsection \<open>Queries\<close>

text \<open>The check every query makes: the entry that sends must name the first hop found.\<close>

definition check_send :: "rtable \<Rightarrow> rt_entry \<Rightarrow> addr \<Rightarrow> 'a \<Rightarrow> fault + 'a" where
  "check_send rt en first r =
     (case find_send_entry rt (Some en) of
        None \<Rightarrow> Inl Diverges
      | Some None \<Rightarrow> Inl BadAccess
      | Some (Some aux) \<Rightarrow> if next_addr aux \<noteq> first then Inl DataBaseError else Inr r)"

definition route_entry :: "rtable \<Rightarrow> addr \<Rightarrow> rt_entry \<Rightarrow> fault + nat \<times> addr list" where
  "route_entry rt dst en =
     (let add = route en @ [dst] in check_send rt en (hd add) (dist en, add))"

text \<open>\<open>getRoute\<close>: the distance, 0 for no route, and the nodes of the route.\<close>

definition getRoute :: "olsr_env \<Rightarrow> olsr \<Rightarrow> addr \<Rightarrow> fault + nat \<times> addr list" where
  "getRoute e a dst =
     (case rtable_lookup (rtable_of a) dst of
        Some en \<Rightarrow> route_entry (rtable_of a) dst en
      | None \<Rightarrow> (case get_ap e dst of
          None \<Rightarrow> Inr (0, [])
        | Some apAddr \<Rightarrow> (case rtable_lookup (rtable_of a) apAddr of
            None \<Rightarrow> Inr (0, [])
          | Some en \<Rightarrow> route_entry (rtable_of a) apAddr en)))"

definition first_hop :: "rt_entry \<Rightarrow> addr" where
  "first_hop en = (if route en \<noteq> [] then hd (route en) else next_addr en)"

definition hop_entry :: "olsr_env \<Rightarrow> rtable \<Rightarrow> rt_entry \<Rightarrow> fault + addr \<times> int \<times> nat" where
  "hop_entry e rt en =
     bindE (check_send rt en (first_hop en) ()) (\<lambda>_.
       case wlan_id_by_address e (iface_addr en) of
         None \<Rightarrow> Inl BadAccess
       | Some i \<Rightarrow> Inr (first_hop en, i, dist en))"

text \<open>\<open>getNextHop\<close>: next hop, interface id and cost, when there is a route.\<close>

definition getNextHop :: "olsr_env \<Rightarrow> olsr \<Rightarrow> addr \<Rightarrow> fault + (addr \<times> int \<times> nat) option" where
  "getNextHop e a dst =
     (case rtable_lookup (rtable_of a) dst of
        Some en \<Rightarrow> bindE (hop_entry e (rtable_of a) en) (\<lambda>r. Inr (Some r))
      | None \<Rightarrow> (case get_ap e dst of
          None \<Rightarrow> Inr None
        | Some apAddr \<Rightarrow> (case rtable_lookup (rtable_of a) apAddr of
            None \<Rightarrow> Inr None
          | Some en \<Rightarrow> bindE (hop_entry e (rtable_of a) en) (\<lambda>r. Inr (Some r)))))"

text \<open>
  The group queries keep the last member at the least distance below 1000 (\<open>intrand(1)\<close>, the tie
  break, is always 0, so a tie replaces the choice).
\<close>

definition route_group_step ::
    "rtable \<Rightarrow> nat \<times> addr list \<Rightarrow> addr \<Rightarrow> fault + nat \<times> addr list" where
  "route_group_step rt acc dst =
     (case rtable_lookup rt dst of
        None \<Rightarrow> Inr acc
      | Some en \<Rightarrow> if fst acc < dist en then Inr acc else route_entry rt dst en)"

definition getRouteGroup :: "olsr \<Rightarrow> addr list \<Rightarrow> fault + nat \<times> addr list" where
  "getRouteGroup a gr =
     bindE (foldE (route_group_step (rtable_of a)) gr (1000, []))
       (\<lambda>(d, add). Inr (if d = 1000 then 0 else d, add))"

definition next_hop_group_step ::
    "olsr_env \<Rightarrow> rtable \<Rightarrow> nat \<times> (addr \<times> int \<times> addr) option \<Rightarrow> addr \<Rightarrow>
     fault + nat \<times> (addr \<times> int \<times> addr) option" where
  "next_hop_group_step e rt acc dst =
     (case rtable_lookup rt dst of
        None \<Rightarrow> Inr acc
      | Some en \<Rightarrow> if fst acc < dist en then Inr acc
          else bindE (hop_entry e rt en) (\<lambda>(add, i, d). Inr (d, Some (add, i, dst))))"

definition getNextHopGroup ::
    "olsr_env \<Rightarrow> olsr \<Rightarrow> addr list \<Rightarrow> fault + (addr \<times> int \<times> addr) option" where
  "getNextHopGroup e a gr =
     bindE (foldE (next_hop_group_step e (rtable_of a)) gr (1000, None))
       (\<lambda>(d, r). Inr (if d = 1000 then None else r))"

text \<open>
  The variants by destination: distance, route, gateway (when a group has one) and the flag
  (which the source leaves as it was when a group has no route; the model says \<open>False\<close>).
\<close>

definition getRouteGroupDest ::
    "olsr_env \<Rightarrow> olsr \<Rightarrow> addr \<Rightarrow> int \<Rightarrow> fault + nat \<times> addr list \<times> addr option \<times> bool" where
  "getRouteGroupDest e a dst grp =
     (if find_in_address_group e dst grp
      then bindE (getRouteGroup a (address_group e grp))
        (\<lambda>(d, add). if d = 0 then Inr (0, add, None, False) else Inr (d, add, Some (last add), True))
      else bindE (getRoute e a dst) (\<lambda>(d, add). Inr (d, add, None, False)))"

definition getNextHopGroupDest ::
    "olsr_env \<Rightarrow> olsr \<Rightarrow> addr \<Rightarrow> int \<Rightarrow> fault + (addr \<times> int \<times> addr option) option \<times> bool" where
  "getNextHopGroupDest e a dst grp =
     (if find_in_address_group e dst grp
      then bindE (getNextHopGroup e a (address_group e grp))
        (\<lambda>r. Inr (map_option (\<lambda>(add, i, gw). (add, i, Some gw)) r, True))
      else bindE (getNextHop e a dst)
        (\<lambda>r. Inr (map_option (\<lambda>(add, i, _). (add, i, None)) r, False)))"

definition getDistributionPath :: "olsr \<Rightarrow> addr \<Rightarrow> fault + addr list" where
  "getDistributionPath a x =
     (case distributionPath a x of
        None \<Rightarrow> Inr []
      | Some p \<Rightarrow> if p = [] then Inl DistributionRouteError else Inr p)"

definition isNodeCandidate :: "simtime \<Rightarrow> olsr_state \<Rightarrow> addr \<Rightarrow> bool" where
  "isNodeCandidate now st src_addr =
     (case find_sym_link_tuple st src_addr now of
        None \<Rightarrow> False
      | Some _ \<Rightarrow> find_mprsel_tuple st (get_main_addr st src_addr) \<noteq> None)"

end
