(* ===== verification/Olsr_Process.thy ===== *)
theory Olsr_Process
  imports Olsr_Mpr Olsr_Routing
begin

text \<open>
  The receiving side of the agent (\<open>OLSR.cc\<close>): link sensing and the population of the neighbour,
  two-hop and MPR selector sets from a HELLO, the topology set from a TC, the interface
  associations from a MID, default forwarding, the reception of a packet, and the loss of a
  neighbour.
\<close>

subsection \<open>Buffering a message\<close>

text \<open>\<open>OLSR::enque_msg\<close>: the message goes into the buffer, with a timer of its own.\<close>

definition enque_msg :: "simtime \<Rightarrow> olsr_msg \<Rightarrow> simtime \<Rightarrow> olsr \<Rightarrow> fault + olsr" where
  "enque_msg now msg delay_time a =
     (if \<not> delay_time \<ge> 0 then Inl AssertionFailed
      else Inr (schedule now delay_time (MsgTimer (next_msg_timer a))
        (a\<lparr>msgs_of := msgs_of a @ [msg], next_msg_timer := Suc (next_msg_timer a)\<rparr>)))"

text \<open>\<open>enque_msg(msg, JITTER)\<close>\<close>

definition enque_jittered :: "olsr_env \<Rightarrow> simtime \<Rightarrow> olsr_msg \<Rightarrow> olsr \<Rightarrow> fault + olsr" where
  "enque_jittered e now m a = (let (j, a1) = jitter e a in enque_msg now m j a1)"

subsection \<open>HELLO messages\<close>

definition link_type :: "hello_msg \<Rightarrow> nat" where
  "link_type m = unat (link_code m AND 0x03)"

definition nb_type :: "hello_msg \<Rightarrow> nat" where
  "nb_type m = unat (drop_bit 2 (link_code m))"

definition invalid_link :: "hello_msg \<Rightarrow> bool" where
  "invalid_link m \<longleftrightarrow> link_type m = OLSR_SYM_LINK \<and> nb_type m = OLSR_NOT_NEIGH \<or>
     nb_type m \<noteq> OLSR_SYM_NEIGH \<and> nb_type m \<noteq> OLSR_MPR_NEIGH \<and> nb_type m \<noteq> OLSR_NOT_NEIGH"

text \<open>One block of advertised links: what it says of the link to this node.\<close>

definition hello_link_step ::
    "olsr_env \<Rightarrow> simtime \<Rightarrow> simtime \<Rightarrow> addr \<Rightarrow> link_tuple \<times> bool \<Rightarrow> hello_msg \<Rightarrow>
     fault + link_tuple \<times> bool" where
  "hello_link_step e now validity receiver_iface acc m =
     (if invalid_link m then Inr acc
      else if length (nb_iface_addrs m) > OLSR_MAX_ADDRS then Inl AssertionFailed
      else if receiver_iface \<in> set (nb_iface_addrs m)
      then Inr (if link_type m = OLSR_LOST_LINK
        then ((fst acc)\<lparr>l_sym_time := now - 1\<rparr>, True)
        else if link_type m = OLSR_SYM_LINK \<or> link_type m = OLSR_ASYM_LINK
        then ((fst acc)\<lparr>l_sym_time := now + validity,
                 l_time := now + validity + OLSR_NEIGHB_HOLD_TIME e, l_lost_time := 0\<rparr>, True)
        else acc)
      else Inr acc)"

text \<open>The link tuple of the sender, new or found, and whether it is new.\<close>

definition sender_link ::
    "simtime \<Rightarrow> olsr_msg \<Rightarrow> addr \<Rightarrow> addr \<Rightarrow> int \<Rightarrow> olsr_state \<Rightarrow> ptr \<times> bool \<times> olsr_state" where
  "sender_link now msg receiver_iface sender_iface index st =
     (case find_link_tuple st sender_iface of
        Some p \<Rightarrow> (p, False, st)
      | None \<Rightarrow>
          let (p, st1) = new_link \<lparr>l_local_iface_addr = receiver_iface,
                l_nb_iface_addr = sender_iface, l_sym_time = now - 1, l_asym_time = 0,
                l_lost_time = 0, l_time = now + emf_to_seconds (vtime msg),
                l_index = index\<rparr> st
          in (p, True, add_link_tuple now p (h_willingness (msg_hello msg)) st1))"

text \<open>The sender has been heard: its link is at least asymmetric.\<close>

definition heard :: "simtime \<Rightarrow> olsr_msg \<Rightarrow> ptr \<Rightarrow> olsr_state \<Rightarrow> olsr_state" where
  "heard now msg p st = set_link p (\<lambda>t. t\<lparr>l_asym_time := now + emf_to_seconds (vtime msg)\<rparr>) st"

text \<open>The times found go into the tuple \<open>p\<close>, whose own time is at least the asymmetric one.\<close>

definition sensed :: "link_tuple \<Rightarrow> ptr \<Rightarrow> olsr_state \<Rightarrow> olsr_state" where
  "sensed t p st = set_link p (\<lambda>u. u\<lparr>l_sym_time := l_sym_time t, l_lost_time := l_lost_time t,
     l_time := max (l_time t) (l_asym_time t)\<rparr>) st"

text \<open>The neighbour follows the link; a new tuple gets its timer.\<close>

definition finish_sensing ::
    "olsr_env \<Rightarrow> simtime \<Rightarrow> olsr_msg \<Rightarrow> ptr \<Rightarrow> bool \<Rightarrow> bool \<Rightarrow> olsr_state \<Rightarrow> olsr \<Rightarrow> olsr" where
  "finish_sensing e now msg p created updated st a =
     (let st' = (if updated then updated_link_tuple e now p (h_willingness (msg_hello msg)) st
            else st);
          t = deref (linkset st') p
      in if created
         then schedule now (DELAY now (min (l_time t) (l_sym_time t))) (LinkTupleTimer p True)
           (a\<lparr>state_ptr := st'\<rparr>)
         else a\<lparr>state_ptr := st'\<rparr>)"

definition link_sensing ::
    "olsr_env \<Rightarrow> simtime \<Rightarrow> olsr_msg \<Rightarrow> addr \<Rightarrow> addr \<Rightarrow> int \<Rightarrow> olsr \<Rightarrow> fault + olsr" where
  "link_sensing e now msg receiver_iface sender_iface index a =
     (let (p, created, st1) = sender_link now msg receiver_iface sender_iface index (state_ptr a);
          st2 = heard now msg p st1; blocks = hello_body (msg_hello msg)
      in if length blocks > OLSR_MAX_HELLOS then Inl AssertionFailed
         else bindE (foldE (hello_link_step e now (emf_to_seconds (vtime msg)) receiver_iface) blocks
                (deref (linkset st2) p, \<not> created))
           (\<lambda>(t, updated). Inr (finish_sensing e now msg p created updated (sensed t p st2) a)))"

definition populate_nbset :: "olsr_msg \<Rightarrow> olsr_state \<Rightarrow> olsr_state" where
  "populate_nbset msg st =
     (case find_nb_tuple st (orig_addr msg) of
        None \<Rightarrow> st
      | Some p \<Rightarrow> set_nb p (\<lambda>t. t\<lparr>nb_willingness := h_willingness (msg_hello msg)\<rparr>) st)"

text \<open>One advertised address.\<close>

definition nb2hop_addr_step ::
    "olsr_env \<Rightarrow> simtime \<Rightarrow> olsr_msg \<Rightarrow> nat \<Rightarrow> olsr \<Rightarrow> addr \<Rightarrow> olsr" where
  "nb2hop_addr_step e now msg nt a iface =
     (let st = state_ptr a; nb2hop_addr = get_main_addr st iface;
          expiry = now + emf_to_seconds (vtime msg)
      in if nt = OLSR_SYM_NEIGH \<or> nt = OLSR_MPR_NEIGH
         then (if nb2hop_addr \<noteq> ra_addr e
           then (case find_nb2hop_tuple st (orig_addr msg) nb2hop_addr of
               None \<Rightarrow>
                 let (p, st1) = new_nb2hop \<lparr>n2_nb_main_addr = orig_addr msg,
                       n2_nb2hop_addr = nb2hop_addr, n2_time = expiry\<rparr> st
                 in schedule now (DELAY now expiry) (Nb2hopTupleTimer p)
                      (a\<lparr>state_ptr := add_nb2hop_tuple p st1\<rparr>)
             | Some p \<Rightarrow> a\<lparr>state_ptr := set_nb2hop p (\<lambda>t. t\<lparr>n2_time := expiry\<rparr>) st\<rparr>)
           else a)
         else if nt = OLSR_NOT_NEIGH
         then a\<lparr>state_ptr := fst (erase_nb2hop_tuples2 (orig_addr msg) nb2hop_addr st)\<rparr>
         else a)"

definition nb2hop_block_step ::
    "olsr_env \<Rightarrow> simtime \<Rightarrow> olsr_msg \<Rightarrow> olsr \<Rightarrow> hello_msg \<Rightarrow> fault + olsr" where
  "nb2hop_block_step e now msg a m =
     (if length (nb_iface_addrs m) > OLSR_MAX_ADDRS then Inl AssertionFailed
      else Inr (foldl (nb2hop_addr_step e now msg (nb_type m)) a (nb_iface_addrs m)))"

definition nb2hop_link_step ::
    "olsr_env \<Rightarrow> simtime \<Rightarrow> olsr_msg \<Rightarrow> olsr \<Rightarrow> link_tuple \<Rightarrow> fault + olsr" where
  "nb2hop_link_step e now msg a l =
     (if get_main_addr (state_ptr a) (l_nb_iface_addr l) = orig_addr msg \<and> l_sym_time l \<ge> now
      then (if length (hello_body (msg_hello msg)) > OLSR_MAX_HELLOS then Inl AssertionFailed
        else foldE (nb2hop_block_step e now msg) (hello_body (msg_hello msg)) a)
      else Inr a)"

definition populate_nb2hopset :: "olsr_env \<Rightarrow> simtime \<Rightarrow> olsr_msg \<Rightarrow> olsr \<Rightarrow> fault + olsr" where
  "populate_nb2hopset e now msg a =
     foldE (nb2hop_link_step e now msg) (tuples (linkset (state_ptr a))) a"

definition mprsel_addr_step :: "olsr_env \<Rightarrow> simtime \<Rightarrow> olsr_msg \<Rightarrow> olsr \<Rightarrow> addr \<Rightarrow> olsr" where
  "mprsel_addr_step e now msg a iface =
     (let st = state_ptr a; expiry = now + emf_to_seconds (vtime msg)
      in if get_main_addr st iface = ra_addr e
         then (case find_mprsel_tuple st (orig_addr msg) of
             None \<Rightarrow>
               let (p, st1) = new_mprsel \<lparr>ms_main_addr = orig_addr msg, ms_time = expiry\<rparr> st
               in schedule now (DELAY now expiry) (MprSelTupleTimer p)
                    (add_mprsel_tuple p (a\<lparr>state_ptr := st1\<rparr>))
           | Some p \<Rightarrow> a\<lparr>state_ptr := set_mprsel p (\<lambda>t. t\<lparr>ms_time := expiry\<rparr>) st\<rparr>)
         else a)"

definition mprsel_block_step ::
    "olsr_env \<Rightarrow> simtime \<Rightarrow> olsr_msg \<Rightarrow> olsr \<Rightarrow> hello_msg \<Rightarrow> fault + olsr" where
  "mprsel_block_step e now msg a m =
     (if nb_type m = OLSR_MPR_NEIGH
      then (if length (nb_iface_addrs m) > OLSR_MAX_ADDRS then Inl AssertionFailed
        else Inr (foldl (mprsel_addr_step e now msg) a (nb_iface_addrs m)))
      else Inr a)"

definition populate_mprselset :: "olsr_env \<Rightarrow> simtime \<Rightarrow> olsr_msg \<Rightarrow> olsr \<Rightarrow> fault + olsr" where
  "populate_mprselset e now msg a =
     (if length (hello_body (msg_hello msg)) > OLSR_MAX_HELLOS then Inl AssertionFailed
      else foldE (mprsel_block_step e now msg) (hello_body (msg_hello msg)) a)"

definition mpr_computation_agent :: "olsr_env \<Rightarrow> olsr \<Rightarrow> fault + olsr" where
  "mpr_computation_agent e a =
     bindE (mpr_computation e (state_ptr a)) (\<lambda>st. Inr (a\<lparr>state_ptr := st\<rparr>))"

definition process_hello ::
    "olsr_env \<Rightarrow> simtime \<Rightarrow> olsr_msg \<Rightarrow> addr \<Rightarrow> addr \<Rightarrow> int \<Rightarrow> olsr \<Rightarrow> fault + olsr" where
  "process_hello e now msg receiver_iface sender_iface index a =
     (if msg_type msg \<noteq> OLSR_HELLO_MSG then Inl AssertionFailed
      else bindE (link_sensing e now msg receiver_iface sender_iface index a) (\<lambda>a1.
           bindE (populate_nb2hopset e now msg (upd_state (populate_nbset msg) a1)) (\<lambda>a2.
           bindE (mpr_computation_agent e a2) (\<lambda>a3.
           populate_mprselset e now msg a3))))"

subsection \<open>TC and MID messages\<close>

definition tc_addr_step ::
    "simtime \<Rightarrow> olsr_msg \<Rightarrow> int \<Rightarrow> olsr \<Rightarrow> nat \<times> addr \<Rightarrow> fault + olsr" where
  "tc_addr_step now msg index a ia =
     (let (i, adv) = ia; st = state_ptr a; expiry = now + emf_to_seconds (vtime msg)
      in if \<not> i < OLSR_MAX_ADDRS then Inl AssertionFailed
         else case find_topology_tuple st adv (orig_addr msg) of
             Some p \<Rightarrow> Inr (a\<lparr>state_ptr := set_topology p (\<lambda>t. t\<lparr>t_time := expiry\<rparr>) st\<rparr>)
           | None \<Rightarrow>
               let (p, st1) = new_topology \<lparr>t_dest_addr = adv, t_last_addr = orig_addr msg,
                     t_seq = tc_ansn (msg_tc msg), t_time = expiry, t_index = index\<rparr> st
               in Inr (schedule now (DELAY now expiry) (TopologyTupleTimer p)
                    (a\<lparr>state_ptr := add_topology_tuple p st1\<rparr>)))"

definition process_tc ::
    "simtime \<Rightarrow> olsr_msg \<Rightarrow> addr \<Rightarrow> int \<Rightarrow> olsr \<Rightarrow> fault + olsr" where
  "process_tc now msg sender_iface index a =
     (if msg_type msg \<noteq> OLSR_TC_MSG then Inl AssertionFailed
      else if find_sym_link_tuple (state_ptr a) sender_iface now = None then Inr a
      else if find_newer_topology_tuple (state_ptr a) (orig_addr msg) (tc_ansn (msg_tc msg)) \<noteq> None
      then Inr a
      else foldE (tc_addr_step now msg index) (List.enumerate 0 (nb_main_addrs (msg_tc msg)))
        (upd_state (erase_older_topology_tuples (orig_addr msg) (tc_ansn (msg_tc msg))) a))"

text \<open>The inner loop of \<open>process_mid\<close>: every association of the pair gets the new time.\<close>

definition touch_assocs :: "addr \<Rightarrow> addr \<Rightarrow> simtime \<Rightarrow> olsr_state \<Rightarrow> olsr_state \<times> bool" where
  "touch_assocs iface main expiry st =
     foldl (\<lambda>(st, updated) p.
         if ia_iface_addr (deref (ifaceassocset st) p) = iface \<and>
            ia_main_addr (deref (ifaceassocset st) p) = main
         then (set_ifaceassoc p (\<lambda>t. t\<lparr>ia_time := expiry\<rparr>) st, True) else (st, updated))
       (st, False) (pvec (ifaceassocset st))"

definition mid_addr_step :: "simtime \<Rightarrow> olsr_msg \<Rightarrow> int \<Rightarrow> olsr \<Rightarrow> addr \<Rightarrow> olsr" where
  "mid_addr_step now msg index a iface =
     (let expiry = now + emf_to_seconds (vtime msg);
          (st, updated) = touch_assocs iface (orig_addr msg) expiry (state_ptr a)
      in if updated then a\<lparr>state_ptr := st\<rparr>
         else (let (p, st1) = new_ifaceassoc \<lparr>ia_iface_addr = iface,
                     ia_main_addr = orig_addr msg, ia_time = expiry, ia_index = index\<rparr> st
               in schedule now (DELAY now expiry) (IfaceAssocTupleTimer p)
                    (a\<lparr>state_ptr := add_ifaceassoc_tuple p st1\<rparr>)))"

text \<open>\<open>OLSR::process_mid\<close>, which does not check the number of addresses.\<close>

definition process_mid ::
    "simtime \<Rightarrow> olsr_msg \<Rightarrow> addr \<Rightarrow> int \<Rightarrow> olsr \<Rightarrow> fault + olsr" where
  "process_mid now msg sender_iface index a =
     (if msg_type msg \<noteq> OLSR_MID_MSG then Inl AssertionFailed
      else if find_sym_link_tuple (state_ptr a) sender_iface now = None then Inr a
      else if length (mid_iface_addrs (msg_mid msg)) > OLSR_MAX_ADDRS then Inl BadAccess
      else Inr (foldl (mid_addr_step now msg index) a (mid_iface_addrs (msg_mid msg))))"

subsection \<open>Forwarding and reception\<close>

text \<open>The duplicate tuple of a message after it was considered, updated or new.\<close>

definition update_dup ::
    "simtime \<Rightarrow> olsr_msg \<Rightarrow> ptr option \<Rightarrow> addr \<Rightarrow> bool \<Rightarrow> olsr \<Rightarrow> olsr" where
  "update_dup now msg dup local_iface retransmitted a =
     (case dup of
        Some p \<Rightarrow> upd_state (set_dup p (\<lambda>t. t\<lparr>d_time := now + OLSR_DUP_HOLD_TIME,
            d_retransmitted := retransmitted, d_iface_list := d_iface_list t @ [local_iface]\<rparr>)) a
      | None \<Rightarrow>
          let (p, st1) = new_dup \<lparr>d_addr = orig_addr msg, d_seq_num = msg_seq_num msg,
                d_retransmitted = retransmitted, d_iface_list = [local_iface],
                d_time = now + OLSR_DUP_HOLD_TIME\<rparr> (state_ptr a)
          in schedule now (DELAY now (now + OLSR_DUP_HOLD_TIME)) (DupTupleTimer p)
               (a\<lparr>state_ptr := add_dup_tuple p st1\<rparr>))"

text \<open>
  \<open>OLSR::forward_default\<close>; the message is retransmitted with one hop less to live, once per node.
\<close>

definition was_retransmitted :: "olsr_state \<Rightarrow> ptr option \<Rightarrow> bool" where
  "was_retransmitted st dup \<longleftrightarrow>
     (case dup of Some p \<Rightarrow> d_retransmitted (deref (dupset st) p) | None \<Rightarrow> False)"

definition must_retransmit :: "olsr_state \<Rightarrow> olsr_msg \<Rightarrow> addr \<Rightarrow> bool" where
  "must_retransmit st msg src_addr \<longleftrightarrow>
     ttl msg > 1 \<and> find_mprsel_tuple st (get_main_addr st src_addr) \<noteq> None"

definition forward_default ::
    "olsr_env \<Rightarrow> simtime \<Rightarrow> olsr_msg \<Rightarrow> ptr option \<Rightarrow> addr \<Rightarrow> addr \<Rightarrow> olsr \<Rightarrow> fault + olsr" where
  "forward_default e now msg dup local_iface src_addr a =
     (if find_sym_link_tuple (state_ptr a) src_addr now = None then Inr a
      else if was_retransmitted (state_ptr a) dup then Inr a
      else
        let retransmitted = must_retransmit (state_ptr a) msg src_addr
        in bindE
          (if retransmitted
           then enque_jittered e now (msg\<lparr>ttl := ttl msg - 1, hop_count := hop_count msg + 1\<rparr>) a
           else Inr a)
          (\<lambda>a2. Inr (update_dup now msg dup local_iface retransmitted a2)))"

text \<open>
  What reaches the module: an OLSR packet straight from the MAC layer, or a UDP datagram with its
  destination port, payload, source address and the id of the interface it came through.
\<close>

datatype arrival =
    MacPacket olsr_pkt "64 word"
  | UdpPacket int "olsr_pkt option" addr int
  | OtherPacket

definition RT_PORT :: int where "RT_PORT = 698"

definition check_packet :: "olsr_env \<Rightarrow> arrival \<Rightarrow> (olsr_pkt \<times> addr \<times> int) option" where
  "check_packet e m =
     (if in_mac_layer e
      then (case m of
          MacPacket op src \<Rightarrow>
            if reduce_func op \<and> reduce_funcionality e then None
            else Some (op, MAC src, fst (hd (wlan_ifaces e)))
        | _ \<Rightarrow> None)
      else (case m of
          UdpPacket port payload src iface_id \<Rightarrow>
            if port \<noteq> RT_PORT then None
            else (case payload of
                None \<Rightarrow> None
              | Some op \<Rightarrow>
                  if reduce_func op \<and> reduce_funcionality e then None
                  else Some (op, src,
                    (case List.find (\<lambda>(_, i). i = iface_id) (wlan_ifaces e) of
                       None \<Rightarrow> -1 | Some (index, _) \<Rightarrow> index)))
        | _ \<Rightarrow> None))"

text \<open>The dispatch on the type of a message, and the body of the loop over the messages.\<close>

definition process_msg ::
    "olsr_env \<Rightarrow> simtime \<Rightarrow> olsr_msg \<Rightarrow> addr \<Rightarrow> addr \<Rightarrow> int \<Rightarrow> olsr \<Rightarrow> fault + olsr" where
  "process_msg e now msg receiverIfaceAddr src_addr index a =
     (if msg_type msg = OLSR_HELLO_MSG
      then process_hello e now msg receiverIfaceAddr src_addr index a
      else if msg_type msg = OLSR_TC_MSG then process_tc now msg src_addr index a
      else if msg_type msg = OLSR_MID_MSG then process_mid now msg src_addr index a
      else Inr a)"

definition recv_msg ::
    "olsr_env \<Rightarrow> simtime \<Rightarrow> addr \<Rightarrow> addr \<Rightarrow> int \<Rightarrow> olsr \<Rightarrow> olsr_msg \<Rightarrow> fault + olsr" where
  "recv_msg e now receiverIfaceAddr src_addr index a msg =
     (if ttl msg = 0 \<or> is_local_address e (orig_addr msg) then Inr a
      else
        let duplicated = find_dup_tuple (state_ptr a) (orig_addr msg) (msg_seq_num msg)
        in case duplicated of
             None \<Rightarrow>
               bindE (process_msg e now msg receiverIfaceAddr src_addr index a)
                 (\<lambda>a1. if msg_type msg \<noteq> OLSR_HELLO_MSG
                    then forward_default e now msg None receiverIfaceAddr src_addr a1
                    else Inr a1)
           | Some p \<Rightarrow>
               if receiverIfaceAddr \<notin> set (d_iface_list (deref (dupset (state_ptr a)) p)) \<and>
                  msg_type msg \<noteq> OLSR_HELLO_MSG
               then forward_default e now msg (Some p) receiverIfaceAddr src_addr a
               else Inr a)"

text \<open>\<open>OLSR::recv_olsr\<close>; the interface of an index below 0, of a packet that came in elsewhere, is an error.\<close>

definition recv_olsr :: "olsr_env \<Rightarrow> simtime \<Rightarrow> arrival \<Rightarrow> olsr \<Rightarrow> fault + olsr" where
  "recv_olsr e now m a =
     (case check_packet e m of
        None \<Rightarrow> Inr a
      | Some (op, src_addr, index) \<Rightarrow>
          if byte_length op < OLSR_PKT_HDR_SIZE + OLSR_MSG_HDR_SIZE (addr_size e) then Inr a
          else if length (pkt_msgs op) > OLSR_MAX_MSGS then Inl AssertionFailed
          else if index < 0 then Inl BadAccess
          else bindE (foldE (recv_msg e now (getIfaceAddressFromIndex e index) src_addr index)
                 (pkt_msgs op) a)
               (rtable_computation e now))"

subsection \<open>Loss of a neighbour\<close>

definition nb_loss :: "olsr_env \<Rightarrow> simtime \<Rightarrow> ptr \<Rightarrow> olsr \<Rightarrow> fault + olsr" where
  "nb_loss e now p a =
     (let st1 = updated_link_tuple e now p OLSR_WILL_DEFAULT (state_ptr a);
          main = get_main_addr st1 (l_nb_iface_addr (deref (linkset st1) p));
          st2 = fst (erase_nb2hop_tuples main st1);
          st3 = fst (erase_mprsel_tuples main st2)
      in bindE (mpr_computation_agent e (a\<lparr>state_ptr := st3\<rparr>)) (rtable_computation e now))"

text \<open>\<open>mac_failed\<close>, for the destination address of the datagram that could not be delivered.\<close>

definition mac_failed :: "olsr_env \<Rightarrow> simtime \<Rightarrow> addr \<Rightarrow> olsr \<Rightarrow> fault + olsr" where
  "mac_failed e now dest a =
     (if dest = IPv4 0xffffffff then Inr a
      else bindE
        (case rtable_lookup (rtable_of a) dest of
           None \<Rightarrow> Inr a
         | Some entry \<Rightarrow> (case find_link_tuple (state_ptr a) (next_addr entry) of
             None \<Rightarrow> Inr a
           | Some p \<Rightarrow> nb_loss e now p
               (upd_state (set_link p (\<lambda>t. t\<lparr>l_lost_time := now + OLSR_NEIGHB_HOLD_TIME e,
                  l_time := now + OLSR_NEIGHB_HOLD_TIME e\<rparr>)) a)))
        (\<lambda>a1. Inr (a1\<lparr>route_log := route_log a1 @ [DeleteIpEntry dest]\<rparr>)))"

text \<open>\<open>processLinkBreak\<close>: the details of a broken link matter when they are an IPv4 datagram.\<close>

definition processLinkBreak :: "olsr_env \<Rightarrow> simtime \<Rightarrow> addr option \<Rightarrow> olsr \<Rightarrow> fault + olsr" where
  "processLinkBreak e now dgram a =
     (case dgram of
        Some dest \<Rightarrow> if use_mac e then mac_failed e now dest a else Inr a
      | None \<Rightarrow> Inr a)"

end
