(* ===== verification/Olsr_Send.thy ===== *)
theory Olsr_Send
  imports Olsr_Process
begin

text \<open>
  The sending side of the agent (\<open>OLSR.cc\<close>): the packets made of the buffered messages, and the
  HELLO, TC and MID messages the node makes of its own sets.  A packet handed to \<open>sendToIp\<close> is
  appended to the list \<open>sent\<close>.
\<close>

subsection \<open>Packets\<close>

text \<open>One packet: at most \<open>OLSR_MAX_MSGS\<close> messages from the front of the buffer.\<close>

definition send_one_pkt :: "olsr_env \<Rightarrow> olsr \<Rightarrow> olsr" where
  "send_one_pkt e a =
     (let (seq, a1) = next_pkt_seq a; ms = take OLSR_MAX_MSGS (msgs_of a1)
      in a1\<lparr>msgs_of := drop OLSR_MAX_MSGS (msgs_of a1),
         sent := sent a1 @ [\<lparr>byte_length =
             foldl (\<lambda>n m. n + olsr_msg_size (addr_size e) m) OLSR_PKT_HDR_SIZE ms,
           pkt_seq_num = seq, reduce_func = reduce_funcionality e, pkt_msgs = ms\<rparr>]\<rparr>)"

primrec send_pkts :: "olsr_env \<Rightarrow> nat \<Rightarrow> olsr \<Rightarrow> olsr" where
  "send_pkts e 0 a = a"
| "send_pkts e (Suc n) a = send_pkts e n (send_one_pkt e a)"

definition send_pkt :: "olsr_env \<Rightarrow> olsr \<Rightarrow> olsr" where
  "send_pkt e a =
     (let num_msgs = length (msgs_of a)
      in if num_msgs = 0 then a
         else send_pkts e (if num_msgs mod OLSR_MAX_MSGS = 0 then num_msgs div OLSR_MAX_MSGS
           else num_msgs div OLSR_MAX_MSGS + 1) a)"

subsection \<open>HELLO\<close>

definition hello_link_type :: "olsr_env \<Rightarrow> simtime \<Rightarrow> link_tuple \<Rightarrow> nat" where
  "hello_link_type e now l =
     (if use_mac e \<and> l_lost_time l \<ge> now then OLSR_LOST_LINK
      else if l_sym_time l \<ge> now then OLSR_SYM_LINK
      else if l_asym_time l \<ge> now then OLSR_ASYM_LINK
      else OLSR_LOST_LINK)"

text \<open>The neighbour type, none when the neighbour is not known.\<close>

definition hello_nb_type :: "olsr_state \<Rightarrow> link_tuple \<Rightarrow> fault + nat option" where
  "hello_nb_type st l =
     (let main = get_main_addr st (l_nb_iface_addr l)
      in if find_mpr_addr st main then Inr (Some OLSR_MPR_NEIGH)
         else case List.find (\<lambda>n. nb_main_addr n = main) (tuples (nbset st)) of
             None \<Rightarrow> Inr None
           | Some n \<Rightarrow>
               if nb_status n = OLSR_STATUS_SYM then Inr (Some OLSR_SYM_NEIGH)
               else if nb_status n = OLSR_STATUS_NOT_SYM then Inr (Some OLSR_NOT_NEIGH)
               else Inl UnknownStatus)"

definition make_link_code :: "nat \<Rightarrow> nat \<Rightarrow> u8" where
  "make_link_code lt nt = (of_nat lt AND 0x03) OR (push_bit 2 (of_nat nt) AND 0x0f)"

type_synonym hello_acc = "hello_msg list \<times> (u8 \<Rightarrow> nat option)"

text \<open>The address goes into the block of its link code, which is opened on first use.\<close>

definition hello_add_addr :: "nat \<Rightarrow> u8 \<Rightarrow> addr \<Rightarrow> hello_acc \<Rightarrow> fault + hello_acc" where
  "hello_add_addr asize code x acc =
     (let (body, linkcodes_count) = acc; count = length body
      in bindE
        (case linkcodes_count code of
           None \<Rightarrow> if \<not> count < OLSR_MAX_HELLOS then Inl AssertionFailed
             else Inr (body @ [\<lparr>link_code = code, hm_reserved = 0, link_msg_size = 0,
                 nb_iface_addrs = []\<rparr>], linkcodes_count(code \<mapsto> count), count)
         | Some pos \<Rightarrow> Inr (body, linkcodes_count, pos))
        (\<lambda>(body', counts', k).
          if \<not> k < OLSR_MAX_HELLOS then Inl AssertionFailed
          else if \<not> length (nb_iface_addrs (body' ! k)) < OLSR_MAX_ADDRS then Inl AssertionFailed
          else
            let m = (body' ! k)\<lparr>nb_iface_addrs := nb_iface_addrs (body' ! k) @ [x]\<rparr>
            in Inr (body'[k := m\<lparr>link_msg_size := of_nat (hello_msg_size asize m)\<rparr>], counts')))"

definition send_hello_step ::
    "olsr_env \<Rightarrow> simtime \<Rightarrow> olsr_state \<Rightarrow> hello_acc \<Rightarrow> link_tuple \<Rightarrow> fault + hello_acc" where
  "send_hello_step e now st acc l =
     (if get_main_addr st (l_local_iface_addr l) = ra_addr e \<and> l_time l \<ge> now
      then bindE (hello_nb_type st l) (\<lambda>nt.
        case nt of
          None \<Rightarrow> Inr acc
        | Some n \<Rightarrow> hello_add_addr (addr_size e) (make_link_code (hello_link_type e now l) n)
            (l_nb_iface_addr l) acc)
      else Inr acc)"

definition hello_blocks :: "olsr_env \<Rightarrow> simtime \<Rightarrow> olsr_state \<Rightarrow> fault + hello_msg list" where
  "hello_blocks e now st =
     bindE (foldE (send_hello_step e now st) (tuples (linkset st)) ([], \<lambda>_. None))
       (\<lambda>(body, _). Inr body)"

definition sized :: "olsr_env \<Rightarrow> olsr_msg \<Rightarrow> olsr_msg" where
  "sized e m = m\<lparr>msg_size := of_nat (olsr_msg_size (addr_size e) m)\<rparr>"

definition send_hello :: "olsr_env \<Rightarrow> simtime \<Rightarrow> olsr \<Rightarrow> fault + olsr" where
  "send_hello e now a =
     (let (seq, a1) = next_msg_seq a
      in bindE (hello_blocks e now (state_ptr a1)) (\<lambda>body.
        enque_jittered e now (sized e \<lparr>msg_type = OLSR_HELLO_MSG,
          vtime = seconds_to_emf (OLSR_NEIGHB_HOLD_TIME e), msg_size = 0,
          orig_addr = ra_addr e, ttl = 1, hop_count = 0, msg_seq_num = seq,
          msg_hello = \<lparr>h_reserved = 0, htime = seconds_to_emf (hello_ival e),
            h_willingness = of_int (willingness_par e), hello_body = body\<rparr>,
          msg_tc = zero_tc, msg_mid = zero_mid\<rparr>) a1))"

subsection \<open>TC and MID\<close>

definition send_tc :: "olsr_env \<Rightarrow> simtime \<Rightarrow> olsr \<Rightarrow> fault + olsr" where
  "send_tc e now a =
     (let (seq, a1) = next_msg_seq a; advertised = map ms_main_addr (tuples (mprselset (state_ptr a1)))
      in if length advertised > OLSR_MAX_ADDRS then Inl AssertionFailed
         else enque_jittered e now (sized e \<lparr>msg_type = OLSR_TC_MSG,
           vtime = seconds_to_emf (OLSR_TOP_HOLD_TIME e), msg_size = 0,
           orig_addr = ra_addr e, ttl = 255, hop_count = 0, msg_seq_num = seq,
           msg_hello = zero_hello,
           msg_tc = \<lparr>tc_ansn = ansn_of a1, tc_reserved = 0, nb_main_addrs = advertised\<rparr>,
           msg_mid = zero_mid\<rparr>) a1)"

text \<open>Writing past the 64 places of the array of interface addresses is undefined.\<close>

definition send_mid :: "olsr_env \<Rightarrow> simtime \<Rightarrow> olsr \<Rightarrow> fault + olsr" where
  "send_mid e now a =
     (if length (wlan_ifaces e) \<le> 1 \<and> optimized_mid e then Inr a
      else
        let (seq, a1) = next_msg_seq a;
            addrs = map (\<lambda>(index, _). getIfaceAddressFromIndex e index) (wlan_ifaces e)
        in if length addrs > OLSR_MAX_ADDRS then Inl BadAccess
           else enque_jittered e now (sized e \<lparr>msg_type = OLSR_MID_MSG,
             vtime = seconds_to_emf (OLSR_MID_HOLD_TIME e), msg_size = 0,
             orig_addr = ra_addr e, ttl = 255, hop_count = 0, msg_seq_num = seq,
             msg_hello = zero_hello, msg_tc = zero_tc,
             msg_mid = \<lparr>mid_iface_addrs = addrs\<rparr>\<rparr>) a1)"

end
