(* ===== verification/Olsr_Sched.thy ===== *)
theory Olsr_Sched
  imports Olsr_Send
begin

text \<open>
  The life of the agent (\<open>OLSR.cc\<close>): what each timer does when it expires and when it is destroyed,
  the loop that serves the due timers, the self message that wakes the module, and starting and
  stopping the node.
\<close>

subsection \<open>Timers\<close>

text \<open>The destructors: the timer leaves the queue and takes its tuple with it.\<close>

fun destroy_timer :: "timer \<Rightarrow> olsr \<Rightarrow> olsr" where
  "destroy_timer (DupTupleTimer p) a = upd_state (\<lambda>st. delete_dup p (rm_dup_tuple p st)) a"
| "destroy_timer (LinkTupleTimer p b) a =
     (upd_state (\<lambda>st. delete_link p (rm_link_tuple p st)) a)\<lparr>topologyChange := True\<rparr>"
| "destroy_timer (Nb2hopTupleTimer p) a =
     (upd_state (\<lambda>st. delete_nb2hop p (rm_nb2hop_tuple p st)) a)\<lparr>topologyChange := True\<rparr>"
| "destroy_timer (MprSelTupleTimer p) a = upd_state (delete_mprsel p) (rm_mprsel_tuple p a)"
| "destroy_timer (TopologyTupleTimer p) a =
     (upd_state (\<lambda>st. delete_topology p (rm_topology_tuple p st)) a)\<lparr>topologyChange := True\<rparr>"
| "destroy_timer (IfaceAssocTupleTimer p) a =
     (upd_state (\<lambda>st. delete_ifaceassoc p (rm_ifaceassoc_tuple p st)) a)\<lparr>topologyChange := True\<rparr>"
| "destroy_timer (MsgTimer n) a = a"
| "destroy_timer HelloTimer a = a"
| "destroy_timer TcTimer a = a"
| "destroy_timer MidTimer a = a"

definition delete_timer :: "timer \<Rightarrow> olsr \<Rightarrow> olsr" where
  "delete_timer t a = destroy_timer t (a\<lparr>timerQueue := removeQueueTimer t (timerQueue a)\<rparr>)"

definition put_timer :: "simtime \<Rightarrow> timer \<Rightarrow> olsr \<Rightarrow> olsr" where
  "put_timer x t a = a\<lparr>timerQueue := tq_insert x t (timerQueue a)\<rparr>"

text \<open>The common pattern: a tuple past its time goes, else the timer is set to its time.\<close>

definition expire_tuple :: "simtime \<Rightarrow> simtime \<Rightarrow> timer \<Rightarrow> olsr \<Rightarrow> olsr" where
  "expire_tuple now time t a =
     (if time < now then delete_timer t a else put_timer (now + DELAY now time) t a)"

text \<open>The next appointment of a periodic timer.\<close>

definition put_periodic :: "olsr_env \<Rightarrow> simtime \<Rightarrow> simtime \<Rightarrow> timer \<Rightarrow> olsr \<Rightarrow> olsr" where
  "put_periodic e now ival t a = (let (j, a1) = jitter e a in put_timer (now + ival - j) t a1)"

fun expire :: "olsr_env \<Rightarrow> simtime \<Rightarrow> timer \<Rightarrow> olsr \<Rightarrow> fault + olsr" where
  "expire e now HelloTimer a =
     bindE (send_hello e now a) (\<lambda>a1. Inr (put_periodic e now (hello_ival e) HelloTimer a1))"
| "expire e now TcTimer a =
     bindE (if tuples (mprselset (state_ptr a)) \<noteq> [] then send_tc e now a else Inr a)
       (\<lambda>a1. Inr (put_periodic e now (tc_ival e) TcTimer a1))"
| "expire e now MidTimer a =
     (if in_mac_layer e then Inr a
      else bindE (send_mid e now a)
        (\<lambda>a1. Inr (put_periodic e now (mid_ival e) MidTimer a1)))"
| "expire e now (MsgTimer n) a = Inr (delete_timer (MsgTimer n) (send_pkt e a))"
| "expire e now (DupTupleTimer p) a =
     Inr (expire_tuple now (d_time (deref (dupset (state_ptr a)) p)) (DupTupleTimer p) a)"
| "expire e now (LinkTupleTimer p first_time) a =
     (let t = deref (linkset (state_ptr a)) p
      in if l_time t < now then Inr (delete_timer (LinkTupleTimer p first_time) a)
         else if l_sym_time t < now
         then bindE (if first_time then Inr a else nb_loss e now p a)
           (\<lambda>a1. Inr (put_timer
             (now + DELAY now (l_time (deref (linkset (state_ptr a1)) p)))
             (LinkTupleTimer p False) a1))
         else Inr (put_timer (now + DELAY now (min (l_time t) (l_sym_time t)))
           (LinkTupleTimer p first_time) a))"
| "expire e now (Nb2hopTupleTimer p) a =
     Inr (expire_tuple now (n2_time (deref (nb2hopset (state_ptr a)) p)) (Nb2hopTupleTimer p) a)"
| "expire e now (MprSelTupleTimer p) a =
     Inr (expire_tuple now (ms_time (deref (mprselset (state_ptr a)) p)) (MprSelTupleTimer p) a)"
| "expire e now (TopologyTupleTimer p) a =
     Inr (expire_tuple now (t_time (deref (topologyset (state_ptr a)) p)) (TopologyTupleTimer p) a)"
| "expire e now (IfaceAssocTupleTimer p) a =
     Inr (expire_tuple now (ia_time (deref (ifaceassocset (state_ptr a)) p))
       (IfaceAssocTupleTimer p) a)"

subsection \<open>The event loop\<close>

definition scheduleNextEvent :: "olsr \<Rightarrow> fault + olsr" where
  "scheduleNextEvent a =
     (case timerQueue a of
        [] \<Rightarrow> Inl BadAccess
      | (x, _) # _ \<Rightarrow>
          (case timerMessage a of
             None \<Rightarrow> Inr (a\<lparr>timerMessage := Some x\<rparr>)
           | Some m \<Rightarrow> if x < m then Inr (a\<lparr>timerMessage := Some x\<rparr>)
               else if x > m then Inl TimerQueueProblem else Inr a))"

text \<open>The loop that serves the due timers; the value \<open>None\<close> stands for a loop that does not end.\<close>

partial_function (option) timer_loop ::
    "olsr_env \<Rightarrow> simtime \<Rightarrow> olsr \<Rightarrow> (fault + olsr) option" where
  [code]: "timer_loop e now a =
     (case timerQueue a of
        [] \<Rightarrow> Some (Inl BadAccess)
      | (x, t) # q \<Rightarrow>
          if x \<le> now
          then (case expire e now t (a\<lparr>timerQueue := q\<rparr>) of
              Inl f \<Rightarrow> Some (Inl f)
            | Inr a' \<Rightarrow> timer_loop e now a')
          else Some (Inr a))"

datatype event = SelfMessage | Arrival arrival

text \<open>
  \<open>OLSR::handleMessage\<close>.  A delivered self message is no longer scheduled.
\<close>

definition handleMessage ::
    "olsr_env \<Rightarrow> bool \<Rightarrow> simtime \<Rightarrow> event \<Rightarrow> olsr \<Rightarrow> fault + olsr" where
  "handleMessage e operational now ev a =
     (if \<not> operational then Inr (case ev of SelfMessage \<Rightarrow> a\<lparr>timerMessage := None\<rparr> | _ \<Rightarrow> a)
      else bindE
        (case ev of
           SelfMessage \<Rightarrow> (case timer_loop e now (a\<lparr>timerMessage := None\<rparr>) of
               None \<Rightarrow> Inl Diverges
             | Some r \<Rightarrow> r)
         | Arrival m \<Rightarrow> recv_olsr e now m a)
        scheduleNextEvent)"

subsection \<open>Start and stop\<close>

definition set_hello_timer :: "olsr_env \<Rightarrow> simtime \<Rightarrow> olsr \<Rightarrow> olsr" where
  "set_hello_timer e now a = (let (j, a1) = jitter e a in schedule now (hello_ival e - j) HelloTimer a1)"

definition set_tc_timer :: "olsr_env \<Rightarrow> simtime \<Rightarrow> olsr \<Rightarrow> olsr" where
  "set_tc_timer e now a = (let (j, a1) = jitter e a in schedule now (tc_ival e - j) TcTimer a1)"

definition set_mid_timer :: "olsr_env \<Rightarrow> simtime \<Rightarrow> olsr \<Rightarrow> olsr" where
  "set_mid_timer e now a = (let (j, a1) = jitter e a in schedule now (mid_ival e - j) MidTimer a1)"

definition start_timers :: "olsr_env \<Rightarrow> simtime \<Rightarrow> olsr \<Rightarrow> olsr" where
  "start_timers e now a =
     schedule now (hello_ival e) MidTimer (schedule now (hello_ival e) TcTimer
       (schedule now (hello_ival e) HelloTimer a))"

definition own_iface_step :: "olsr_env \<Rightarrow> olsr_state \<Rightarrow> int \<times> int \<Rightarrow> olsr_state" where
  "own_iface_step e st i =
     (let (p, st1) = new_ifaceassoc \<lparr>ia_iface_addr = getIfaceAddressFromIndex e (fst i),
            ia_main_addr = ra_addr e, ia_time = max_simtime e, ia_index = fst i\<rparr> st
      in add_ifaceassoc_tuple p st1)"

definition initial_agent :: olsr where
  "initial_agent = \<lparr>state_ptr = OLSR_state_init, rtable_of = rtable_empty, msgs_of = [],
     timerQueue = [], timerMessage = None, pkt_seq_of = OLSR_MAX_SEQ_NUM,
     msg_seq_of = OLSR_MAX_SEQ_NUM, ansn_of = OLSR_MAX_SEQ_NUM, topologyChange = False,
     distributionPath = (\<lambda>_. None), route_log = [], sent = [], rnd_pos = 0, next_msg_timer = 0\<rparr>"

text \<open>\<open>OLSR::initialize\<close>, the stage that sets up routing.\<close>

definition initialize :: "olsr_env \<Rightarrow> simtime \<Rightarrow> fault + olsr" where
  "initialize e now =
     scheduleNextEvent (start_timers e now
       (initial_agent\<lparr>state_ptr := foldl (own_iface_step e) OLSR_state_init (wlan_ifaces e)\<rparr>))"

definition handleNodeStart :: "olsr_env \<Rightarrow> simtime \<Rightarrow> olsr \<Rightarrow> fault + olsr" where
  "handleNodeStart e now a = scheduleNextEvent (start_timers e now a)"

text \<open>The loop that empties the queue: every timer but the three periodic ones is deleted.\<close>

lemma timerQueue_destroy [simp]: "timerQueue (destroy_timer t a) = timerQueue a"
  by (cases t) (simp_all add: upd_state_def rm_mprsel_tuple_def)

lemma length_removeQueueTimer: "length (removeQueueTimer t q) \<le> length q"
  by (induction t q rule: removeQueueTimer.induct) auto

function drain_queue :: "olsr \<Rightarrow> olsr" where
  "drain_queue a =
     (case timerQueue a of
        [] \<Rightarrow> a
      | (_, t) # q \<Rightarrow> drain_queue
          (if t \<in> {HelloTimer, TcTimer, MidTimer} then a\<lparr>timerQueue := q\<rparr>
           else delete_timer t (a\<lparr>timerQueue := q\<rparr>)))"
  by auto
termination
  by (relation "measure (\<lambda>a. length (timerQueue a))")
    (auto simp: delete_timer_def less_Suc_eq_le length_removeQueueTimer)

declare drain_queue.simps [simp del]

text \<open>\<open>handleNodeShutdown\<close> and \<open>handleNodeCrash\<close>, which do the same.\<close>

definition handleNodeShutdown :: "olsr \<Rightarrow> olsr" where
  "handleNodeShutdown a =
     drain_queue (a\<lparr>rtable_of := rtable_clear (rtable_of a), msgs_of := [], timerMessage := None\<rparr>)"

end
