(* ===== verification/Olsr_Route_Facts.thy ===== *)
theory Olsr_Route_Facts
  imports Olsr_Routing
begin

text \<open>
  What the route computation builds.  \<open>route_to\<close> says when the node's own sets justify a route;
  every entry of a computed table is so justified, and its path has one node less than its
  distance and starts with its next hop (\<open>rt_inv\<close>, kept by every step).  The second part adds what
  holds when every interface address is a main address: next hops are neighbours with an entry of
  their own (the invariant \<open>one_step\<close> of the table's interface), and the loop leaves no shorter route
  unused.
\<close>

declare One_nat_def [simp del]

definition has_route :: "rtable \<Rightarrow> addr \<Rightarrow> bool" where
  "has_route rt d \<longleftrightarrow> rtable_lookup rt d \<noteq> None"

definition sym_nb :: "olsr_state \<Rightarrow> addr \<Rightarrow> bool" where
  "sym_nb st x \<longleftrightarrow> (\<exists>n\<in>set (tuples (nbset st)). nb_main_addr n = x \<and> nb_status n = OLSR_STATUS_SYM)"

definition never_nb :: "olsr_state \<Rightarrow> addr \<Rightarrow> bool" where
  "never_nb st x \<longleftrightarrow>
     (\<exists>n\<in>set (tuples (nbset st)). nb_main_addr n = x \<and> nb_willingness n = OLSR_WILL_NEVER)"

definition live_link :: "simtime \<Rightarrow> olsr_state \<Rightarrow> addr \<Rightarrow> link_tuple \<Rightarrow> bool" where
  "live_link now st x l \<longleftrightarrow> l \<in> set (tuples (linkset st)) \<and>
     get_main_addr st (l_nb_iface_addr l) = x \<and> l_time l \<ge> now"

text \<open>Every symmetric neighbour has a link that has not expired.\<close>

definition links_live :: "simtime \<Rightarrow> olsr_state \<Rightarrow> bool" where
  "links_live now st \<longleftrightarrow> (\<forall>x. sym_nb st x \<longrightarrow> (\<exists>l. live_link now st x l))"

definition two_hop :: "olsr_state \<Rightarrow> addr \<Rightarrow> addr \<Rightarrow> bool" where
  "two_hop st b c \<longleftrightarrow> (\<exists>t\<in>set (tuples (nb2hopset st)). n2_nb_main_addr t = b \<and> n2_nb2hop_addr t = c) \<and>
     sym_nb st b \<and> \<not> never_nb st b \<and> \<not> sym_nb st c"

inductive route_to :: "simtime \<Rightarrow> olsr_state \<Rightarrow> addr \<Rightarrow> addr \<Rightarrow> nat \<Rightarrow> bool"
  for now :: simtime and st :: olsr_state where
  nb_iface: "sym_nb st x \<Longrightarrow> live_link now st x l \<Longrightarrow>
    route_to now st (l_nb_iface_addr l) (l_nb_iface_addr l) 1"
| nb_main: "sym_nb st x \<Longrightarrow> live_link now st x l \<Longrightarrow> route_to now st x (l_nb_iface_addr l) 1"
| nb2hop: "two_hop st b c \<Longrightarrow> route_to now st b nx 1 \<Longrightarrow> route_to now st c nx 2"
| topology: "t \<in> set (tuples (topologyset st)) \<Longrightarrow> 2 \<le> h \<Longrightarrow> route_to now st (t_last_addr t) nx h \<Longrightarrow>
    route_to now st (t_dest_addr t) nx (Suc h)"
| iface_assoc: "t \<in> set (tuples (ifaceassocset st)) \<Longrightarrow> route_to now st (ia_main_addr t) nx h \<Longrightarrow>
    route_to now st (ia_iface_addr t) nx h"

inductive_cases route_to_neighbourE: "route_to now st d nx 1"

lemma route_to_pos: "route_to now st d nx h \<Longrightarrow> 1 \<le> h"
  by (induction rule: route_to.induct) auto

lemma find_sym_nb_tuple_None: "find_sym_nb_tuple st x = None \<longleftrightarrow> \<not> sym_nb st x"
  by (auto simp: find_sym_nb_tuple_def find_ptr_None sym_nb_def)

lemma find_sym_nb_tuple_Some: "find_sym_nb_tuple st x = Some p \<Longrightarrow> sym_nb st x"
  using find_sym_nb_tuple_None [of st x] by simp

lemma find_never_None: "find_nb_tuple_will st x OLSR_WILL_NEVER = None \<longleftrightarrow> \<not> never_nb st x"
  by (auto simp: find_nb_tuple_will_def find_ptr_None never_nb_def)

subsection \<open>Every entry is justified\<close>

definition entry_ok :: "simtime \<Rightarrow> olsr_state \<Rightarrow> addr \<Rightarrow> rt_entry \<Rightarrow> bool" where
  "entry_ok now st d en \<longleftrightarrow> dest_addr en = d \<and> route_to now st d (next_addr en) (dist en) \<and>
     Suc (length (route en)) = dist en \<and> (route en \<noteq> [] \<longrightarrow> hd (route en) = next_addr en)"

definition rt_inv :: "simtime \<Rightarrow> olsr_state \<Rightarrow> rtable \<Rightarrow> bool" where
  "rt_inv now st rt \<longleftrightarrow> rtable_ok rt \<and> (\<forall>d en. rtable_lookup rt d = Some en \<longrightarrow> entry_ok now st d en)"

lemma rt_inv_empty [simp]: "rt_inv now st []" "rt_inv now st (rtable_clear rt)"
  by (simp_all add: rt_inv_def rtable_clear_def)

lemma rt_inv_ok: "rt_inv now st rt \<Longrightarrow> rtable_ok rt"
  by (simp add: rt_inv_def)

lemma rt_inv_entry: "rt_inv now st rt \<Longrightarrow> rtable_lookup rt d = Some en \<Longrightarrow> entry_ok now st d en"
  by (simp add: rt_inv_def)

lemma rt_inv_assign: "rt_inv now st rt \<Longrightarrow> entry_ok now st k en \<Longrightarrow> rt_inv now st (rt_assign k en rt)"
  by (auto simp: rt_inv_def)

lemma lookup_add_entry:
  "rtable_ok rt \<Longrightarrow> rtable_lookup (add_entry k nx i d x rt) a =
     (if a = k then Some \<lparr>dest_addr = k, next_addr = nx, iface_addr = i, dist = d,
       quality = -1, delay = -1, rt_index = x, route = (if d = 2 then [nx] else [])\<rparr>
      else rtable_lookup rt a)"
  by (simp add: add_entry_def)

lemma rtable_ok_add [simp]:
  "rtable_ok rt \<Longrightarrow> rtable_ok (add_entry k nx i d x rt)"
  "rtable_ok rt \<Longrightarrow> rtable_ok (add_entry_via k nx i d x en rt)"
  by (simp_all add: add_entry_def add_entry_via_def)

lemma has_route_add [simp]:
  "has_route (add_entry k nx i d x rt) a \<longleftrightarrow> a = k \<or> has_route rt a"
  "has_route (add_entry_via k nx i d x en rt) a \<longleftrightarrow> a = k \<or> has_route rt a"
  by (auto simp: has_route_def simp del: not_None_eq)

lemma has_route_Some: "rtable_lookup rt d = Some en \<Longrightarrow> has_route rt d"
  by (simp add: has_route_def)

lemma not_has_route: "rtable_lookup rt d = None \<longleftrightarrow> \<not> has_route rt d"
  by (simp add: has_route_def)

lemma rt_inv_add_entry:
  "rt_inv now st rt \<Longrightarrow> route_to now st k nx d \<Longrightarrow> d \<in> {1, 2} \<Longrightarrow>
     rt_inv now st (add_entry k nx i d x rt)"
  unfolding add_entry_def by (rule rt_inv_assign) (auto simp: entry_ok_def)

lemma rt_inv_add_via:
  assumes "rt_inv now st rt" and "rtable_lookup rt m = Some en" and "2 \<le> dist en \<or> d = dist en"
    and "route_to now st k (next_addr en) d" and "d = Suc (dist en) \<or> d = dist en"
  shows "rt_inv now st (add_entry_via k (next_addr en) i d x en rt)"
  unfolding add_entry_via_def
proof (rule rt_inv_assign [OF assms(1)])
  have en: "dest_addr en = m" "Suc (length (route en)) = dist en"
    "route en \<noteq> [] \<longrightarrow> hd (route en) = next_addr en"
    using rt_inv_entry [OF assms(1,2)] by (simp_all add: entry_ok_def)
  have "2 \<le> dist en \<longrightarrow> route en \<noteq> []" using en(2) by (cases "route en") auto
  then show "entry_ok now st k \<lparr>dest_addr = k, next_addr = next_addr en, iface_addr = i, dist = d,
      quality = - 1, delay = - 1, rt_index = x,
      route = if int (dist en) = int d - 1 then route en @ [dest_addr en] else route en\<rparr>"
    using en assms(3-5) by (auto simp: entry_ok_def)
qed

subsubsection \<open>The neighbours\<close>

lemma nb_link_foldl:
  assumes "sym_nb st (nb_main_addr n)" and "set ls \<subseteq> set (tuples (linkset st))"
    and "rt_inv now st (fst b)" and "\<And>l. lt = Some l \<Longrightarrow> live_link now st (nb_main_addr n) l"
    and "foldl (nb_link_step e now st n) (b, f, lt) ls = (b', f', lt')"
  shows "rt_inv now st (fst b') \<and> (\<forall>l. lt' = Some l \<longrightarrow> live_link now st (nb_main_addr n) l)"
  using assms(2-5)
proof (induction ls arbitrary: b f lt)
  case (Cons l ls)
  show ?case
  proof (cases "get_main_addr st (l_nb_iface_addr l) = nb_main_addr n \<and> l_time l \<ge> now")
    case True
    then have live: "live_link now st (nb_main_addr n) l"
      using Cons.prems(1) by (simp add: live_link_def)
    show ?thesis
    proof (rule Cons.IH)
      show "rt_inv now st (fst (put_route e (l_nb_iface_addr l) (l_nb_iface_addr l)
          (l_local_iface_addr l) 1 (l_index l) b))"
        using Cons.prems(2) nb_iface [OF assms(1) live] by (simp add: rt_inv_add_entry)
    qed (use Cons.prems True live in \<open>auto simp: nb_link_step_def\<close>)
  next
    case False
    show ?thesis
      by (rule Cons.IH [of b lt f]) (use Cons.prems False in \<open>auto simp: nb_link_step_def\<close>)
  qed
qed simp

lemma nb_step_inv:
  assumes "n \<in> set (tuples (nbset st))" and "rt_inv now st (fst b)"
  shows "rt_inv now st (fst (nb_step e now st b n))"
proof (cases "nb_status n = OLSR_STATUS_SYM")
  case True
  then have sym: "sym_nb st (nb_main_addr n)" using assms(1) by (auto simp: sym_nb_def)
  obtain b' f' lt' where r: "foldl (nb_link_step e now st n) (b, False, None) (tuples (linkset st)) =
      (b', f', lt')" by (metis prod_cases3)
  have "rt_inv now st (fst b') \<and> (\<forall>l. lt' = Some l \<longrightarrow> live_link now st (nb_main_addr n) l)"
    by (rule nb_link_foldl [OF sym subset_refl assms(2) _ r]) simp
  then show ?thesis using True r sym
    by (auto simp: nb_step_def rt_inv_add_entry nb_main split: option.split)
qed (simp add: nb_step_def assms)

text \<open>While only neighbours are in the table, each entry has distance 1.\<close>

definition all_dist_1 :: "rtable \<Rightarrow> bool" where
  "all_dist_1 rt \<longleftrightarrow> (\<forall>d en. rtable_lookup rt d = Some en \<longrightarrow> dist en = 1)"

lemma all_dist_1_add:
  "rtable_ok rt \<Longrightarrow> all_dist_1 rt \<Longrightarrow> all_dist_1 (add_entry k nx i 1 x rt)"
  by (auto simp: all_dist_1_def lookup_add_entry)

lemma nb_link_foldl_dist:
  assumes "rtable_ok (fst b)" and "all_dist_1 (fst b)"
    and "foldl (nb_link_step e now st n) (b, f, lt) ls = (b', f', lt')"
  shows "rtable_ok (fst b') \<and> all_dist_1 (fst b') \<and>
    (\<forall>d. has_route (fst b) d \<longrightarrow> has_route (fst b') d)"
  using assms
proof (induction ls arbitrary: b f lt)
  case (Cons l ls)
  show ?case
  proof (cases "get_main_addr st (l_nb_iface_addr l) = nb_main_addr n \<and> l_time l \<ge> now")
    case True
    let ?b = "put_route e (l_nb_iface_addr l) (l_nb_iface_addr l) (l_local_iface_addr l) 1
      (l_index l) b"
    show ?thesis
      using Cons.IH [of ?b "f \<or> l_nb_iface_addr l = nb_main_addr n" "Some l"] Cons.prems True
      by (auto simp: nb_link_step_def all_dist_1_add)
  next
    case False
    then show ?thesis using Cons.IH [of b f lt] Cons.prems by (auto simp: nb_link_step_def)
  qed
qed simp

lemma nb_step_dist:
  assumes "rtable_ok (fst b)" and "all_dist_1 (fst b)"
  shows "rtable_ok (fst (nb_step e now st b n)) \<and> all_dist_1 (fst (nb_step e now st b n)) \<and>
    (\<forall>d. has_route (fst b) d \<longrightarrow> has_route (fst (nb_step e now st b n)) d)"
proof (cases "nb_status n = OLSR_STATUS_SYM")
  case True
  obtain b' f' lt' where r: "foldl (nb_link_step e now st n) (b, False, None) (tuples (linkset st)) =
      (b', f', lt')" by (metis prod_cases3)
  from nb_link_foldl_dist [OF assms r] show ?thesis
    using True r by (auto simp: nb_step_def all_dist_1_add split: option.split)
qed (simp add: nb_step_def assms)

text \<open>With a live link, a symmetric neighbour gets an entry under its main address.\<close>

lemma nb_link_foldl_found:
  assumes "foldl (nb_link_step e now st n) (b, f, lt) ls = (b', f', lt')"
    and "f \<longrightarrow> has_route (fst b) (nb_main_addr n)"
  shows "(f' \<longrightarrow> has_route (fst b') (nb_main_addr n)) \<and>
    (lt \<noteq> None \<or> (\<exists>l\<in>set ls. get_main_addr st (l_nb_iface_addr l) = nb_main_addr n \<and> l_time l \<ge> now)
      \<longrightarrow> lt' \<noteq> None)"
  using assms
proof (induction ls arbitrary: b f lt)
  case (Cons l ls)
  show ?case
  proof (cases "get_main_addr st (l_nb_iface_addr l) = nb_main_addr n \<and> l_time l \<ge> now")
    case True
    let ?b = "put_route e (l_nb_iface_addr l) (l_nb_iface_addr l) (l_local_iface_addr l) 1
      (l_index l) b"
    show ?thesis
      using Cons.IH [of ?b "f \<or> l_nb_iface_addr l = nb_main_addr n" "Some l"] Cons.prems True
      by (auto simp: nb_link_step_def)
  next
    case False
    then show ?thesis using Cons.IH [of b f lt] Cons.prems by (auto simp: nb_link_step_def)
  qed
qed simp

lemma nb_step_found:
  assumes "nb_status n = OLSR_STATUS_SYM" and "live_link now st (nb_main_addr n) l"
  shows "has_route (fst (nb_step e now st b n)) (nb_main_addr n)"
proof -
  obtain b' f' lt' where r: "foldl (nb_link_step e now st n) (b, False, None) (tuples (linkset st)) =
      (b', f', lt')" by (metis prod_cases3)
  from nb_link_foldl_found [OF r] have "(f' \<longrightarrow> has_route (fst b') (nb_main_addr n)) \<and>
      lt' \<noteq> None"
    using assms(2) by (auto simp: live_link_def)
  then show ?thesis using r assms(1) by (auto simp: nb_step_def)
qed

lemma nb_steps:
  assumes "b1 = foldl (nb_step e now st) (rtable_clear rt, cmds) (tuples (nbset st))"
  shows "rt_inv now st (fst b1)" and "all_dist_1 (fst b1)"
    and "links_live now st \<Longrightarrow> sym_nb st x \<Longrightarrow> has_route (fst b1) x"
proof -
  have P: "rt_inv now st (fst (foldl (nb_step e now st) b ns)) \<and>
      all_dist_1 (fst (foldl (nb_step e now st) b ns)) \<and>
      (\<forall>d. has_route (fst b) d \<longrightarrow>
        has_route (fst (foldl (nb_step e now st) b ns)) d) \<and>
      (links_live now st \<longrightarrow> (\<forall>n\<in>set ns. nb_status n = OLSR_STATUS_SYM \<longrightarrow>
        has_route (fst (foldl (nb_step e now st) b ns)) (nb_main_addr n)))"
    if "set ns \<subseteq> set (tuples (nbset st))" "rt_inv now st (fst b)" "all_dist_1 (fst b)" for ns b
    using that
  proof (induction ns arbitrary: b)
    case (Cons n ns)
    let ?b = "nb_step e now st b n"
    have n: "n \<in> set (tuples (nbset st))" using Cons.prems(1) by simp
    have inv: "rt_inv now st (fst ?b)" using nb_step_inv [OF n Cons.prems(2)] .
    have d: "all_dist_1 (fst ?b) \<and> (\<forall>d. has_route (fst b) d \<longrightarrow>
        has_route (fst ?b) d)"
      using nb_step_dist [OF rt_inv_ok [OF Cons.prems(2)] Cons.prems(3)] by blast
    have "links_live now st \<longrightarrow> nb_status n = OLSR_STATUS_SYM \<longrightarrow>
        has_route (fst ?b) (nb_main_addr n)"
      using n nb_step_found unfolding links_live_def sym_nb_def by blast
    then show ?case using Cons.IH [of ?b] Cons.prems(1) inv d by auto
  qed simp
  have "rt_inv now st (fst (rtable_clear rt, cmds))" "all_dist_1 (fst (rtable_clear rt, cmds))"
    by (simp_all add: all_dist_1_def rtable_clear_def)
  note Q = P [OF subset_refl this, folded assms]
  show "rt_inv now st (fst b1)" "all_dist_1 (fst b1)" using Q by blast+
  show "links_live now st \<Longrightarrow> sym_nb st x \<Longrightarrow> has_route (fst b1) x"
    using Q by (auto simp: sym_nb_def)
qed

subsubsection \<open>The two-hop neighbours\<close>

text \<open>
  The entries of symmetric neighbours stay at distance 1, since a two-hop neighbour is none; no
  entry is farther than 2.
\<close>

definition n2_inv :: "simtime \<Rightarrow> olsr_state \<Rightarrow> rtable \<Rightarrow> bool" where
  "n2_inv now st rt \<longleftrightarrow> rt_inv now st rt \<and>
     (\<forall>x en. sym_nb st x \<longrightarrow> rtable_lookup rt x = Some en \<longrightarrow> dist en = 1) \<and>
     (\<forall>d en. rtable_lookup rt d = Some en \<longrightarrow> dist en \<le> 2)"

lemma n2_inv_start: "rt_inv now st rt \<Longrightarrow> all_dist_1 rt \<Longrightarrow> n2_inv now st rt"
  by (fastforce simp: n2_inv_def all_dist_1_def)

lemma n2_inv_put:
  assumes "n2_inv now st rt" and "two_hop st b c" and "rtable_lookup rt b = Some en"
  shows "n2_inv now st (add_entry c (next_addr en) i 2 x rt)"
proof -
  have inv: "rt_inv now st rt" using assms(1) by (simp add: n2_inv_def)
  have "sym_nb st b" "\<not> sym_nb st c" using assms(2) by (simp_all add: two_hop_def)
  moreover have "dist en = 1" using assms(1,3) \<open>sym_nb st b\<close> by (simp add: n2_inv_def)
  moreover have "route_to now st b (next_addr en) 1"
    using rt_inv_entry [OF inv assms(3)] \<open>dist en = 1\<close> by (simp add: entry_ok_def)
  ultimately show ?thesis
    using assms(1) nb2hop [OF assms(2)] rt_inv_ok [OF inv]
    by (auto simp: n2_inv_def rt_inv_add_entry lookup_add_entry)
qed

text \<open>What one step does, in terms of the sets.\<close>

lemma n2_step_cases:
  assumes "t \<in> set (tuples (nb2hopset st))"
  obtains (skip) "n2_step e st b t = Inr b" "\<not> two_hop st (n2_nb_main_addr t) (n2_nb2hop_addr t)"
  | (fail) "n2_step e st b t = Inl AssertionFailed" "sym_nb st (n2_nb_main_addr t)"
      "rtable_lookup (fst b) (n2_nb_main_addr t) = None"
  | (keep) en2 where "n2_step e st b t = Inr b" "rtable_lookup (fst b) (n2_nb2hop_addr t) = Some en2"
      "two_hop st (n2_nb_main_addr t) (n2_nb2hop_addr t)"
  | (put) en where "two_hop st (n2_nb_main_addr t) (n2_nb2hop_addr t)"
      "rtable_lookup (fst b) (n2_nb_main_addr t) = Some en"
      "n2_step e st b t = Inr (put_route e (n2_nb2hop_addr t) (next_addr en) (iface_addr en) 2
         (rt_index en) b)"
proof (cases "two_hop st (n2_nb_main_addr t) (n2_nb2hop_addr t)")
  case False
  then show ?thesis
    using skip assms find_sym_nb_tuple_None [of st] find_never_None [of st]
    by (cases "find_sym_nb_tuple st (n2_nb_main_addr t)")
      (auto simp: n2_step_def two_hop_def dest: find_sym_nb_tuple_Some)
next
  case True
  then have s: "sym_nb st (n2_nb_main_addr t)" "\<not> never_nb st (n2_nb_main_addr t)"
    "\<not> sym_nb st (n2_nb2hop_addr t)" by (simp_all add: two_hop_def)
  then obtain p where p: "find_sym_nb_tuple st (n2_nb_main_addr t) = Some p"
    using find_sym_nb_tuple_None by blast
  have n: "find_nb_tuple_will st (n2_nb_main_addr t) OLSR_WILL_NEVER = None"
    "find_sym_nb_tuple st (n2_nb2hop_addr t) = None"
    using s by (simp_all add: find_never_None find_sym_nb_tuple_None)
  show ?thesis
  proof (cases "rtable_lookup (fst b) (n2_nb_main_addr t)")
    case None
    then show ?thesis using fail s(1) p n by (simp add: n2_step_def)
  next
    case (Some en)
    define ins where "ins = (case rtable_lookup (fst b) (n2_nb2hop_addr t) of
        None \<Rightarrow> True
      | Some entry2hop \<Rightarrow>
          (case find_sym_nb_tuple st (next_addr entry2hop) of
             None \<Rightarrow> True
           | Some old \<Rightarrow> \<not> nb_willingness (deref (nbset st) old) >
               nb_willingness (deref (nbset st) p)))"
    have "n2_step e st b t = Inr (if ins then put_route e (n2_nb2hop_addr t) (next_addr en)
        (iface_addr en) 2 (rt_index en) b else b)"
      using p n Some by (simp add: n2_step_def Let_def ins_def)
    moreover have "rtable_lookup (fst b) (n2_nb2hop_addr t) \<noteq> None" if "\<not> ins"
      using that by (auto simp: ins_def split: option.splits)
    ultimately show ?thesis using keep put [OF True Some] True by (cases ins) auto
  qed
qed

lemma n2_step_inv:
  assumes "t \<in> set (tuples (nb2hopset st))" and "n2_inv now st (fst b)"
    and "n2_step e st b t = Inr b'"
  shows "n2_inv now st (fst b')"
  using assms(1)
proof (cases rule: n2_step_cases [where e = e and b = b])
  case (put en)
  then show ?thesis using assms(2,3) n2_inv_put by force
qed (use assms in auto)

lemma n2_step_keeps:
  assumes "t \<in> set (tuples (nb2hopset st))" and "n2_step e st b t = Inr b'"
    and "has_route (fst b) d"
  shows "has_route (fst b') d"
  using assms(1)
proof (cases rule: n2_step_cases [where e = e and b = b])
  case (put en)
  then show ?thesis using assms(2,3) by auto
qed (use assms in \<open>auto dest: has_route_Some\<close>)

lemma n2_step_found:
  assumes "t \<in> set (tuples (nb2hopset st))" and "n2_step e st b t = Inr b'"
    and "two_hop st (n2_nb_main_addr t) (n2_nb2hop_addr t)"
  shows "has_route (fst b') (n2_nb2hop_addr t)"
  using assms(1)
proof (cases rule: n2_step_cases [where e = e and b = b])
  case (put en)
  then show ?thesis using assms(2) by auto
qed (use assms in \<open>auto dest: has_route_Some\<close>)

lemma n2_steps:
  assumes "foldE (n2_step e st) ts b1 = Inr b2" and "set ts \<subseteq> set (tuples (nb2hopset st))"
    and "n2_inv now st (fst b1)"
  shows "n2_inv now st (fst b2) \<and>
    (\<forall>d. has_route (fst b1) d \<longrightarrow> has_route (fst b2) d) \<and>
    (\<forall>t\<in>set ts. two_hop st (n2_nb_main_addr t) (n2_nb2hop_addr t) \<longrightarrow>
      has_route (fst b2) (n2_nb2hop_addr t))"
  using assms
proof (induction ts arbitrary: b1)
  case (Cons t ts)
  from Cons.prems(1) obtain b where b: "n2_step e st b1 t = Inr b" "foldE (n2_step e st) ts b = Inr b2"
    by (auto elim: bindE_InrE)
  have t: "t \<in> set (tuples (nb2hopset st))" using Cons.prems(2) by simp
  have "n2_inv now st (fst b)" using n2_step_inv [OF t Cons.prems(3) b(1)] .
  then show ?case
    using Cons.IH [OF b(2)] Cons.prems(2) n2_step_keeps [OF t b(1)] n2_step_found [OF t b(1)] by auto
qed simp

lemma n2_steps_total:
  fixes b :: build
  assumes "\<And>x. sym_nb st x \<Longrightarrow> has_route (fst b) x"
  shows "\<exists>b'. foldE (n2_step e st) (tuples (nb2hopset st)) b = Inr b' \<and>
    (\<forall>x. sym_nb st x \<longrightarrow> has_route (fst b') x)"
proof (rule foldE_total [of "\<lambda>b :: build. \<forall>x. sym_nb st x \<longrightarrow> has_route (fst b) x"])
  fix b :: build and t
  assume t: "t \<in> set (tuples (nb2hopset st))"
    and P: "\<forall>x. sym_nb st x \<longrightarrow> has_route (fst b) x"
  show "\<exists>b'. n2_step e st b t = Inr b' \<and> (\<forall>x. sym_nb st x \<longrightarrow> has_route (fst b') x)"
    using t
  proof (cases rule: n2_step_cases [where e = e and b = b])
    case fail
    then show ?thesis using P by (simp add: not_has_route)
  qed (use P in auto)
qed (use assms in blast)

subsubsection \<open>The rest of the network\<close>

lemma foldl_flag:
  assumes "\<And>acc t. t \<in> set ts \<Longrightarrow> f acc t = acc \<or> snd (f acc t)" and "\<not> snd (foldl f acc ts)"
    and "\<And>acc t. snd acc \<Longrightarrow> snd (f acc t)"
  shows "foldl f acc ts = acc \<and> \<not> snd acc \<and> (\<forall>t\<in>set ts. f acc t = acc)"
  using assms(1,2)
proof (induction ts arbitrary: acc)
  case (Cons t ts)
  have "foldl f (f acc t) ts = f acc t \<and> \<not> snd (f acc t) \<and> (\<forall>u\<in>set ts. f (f acc t) u = f acc t)"
    by (rule Cons.IH) (use Cons.prems in auto)
  moreover from this have "f acc t = acc" using Cons.prems(1) [of t acc] by auto
  ultimately show ?case by simp
qed simp

lemma step_flags:
  "topo_step e h acc t = acc \<or> snd (topo_step e h acc t)" "snd acc \<Longrightarrow> snd (topo_step e h acc t)"
  "assoc_step e acc u = acc \<or> snd (assoc_step e acc u)" "snd acc \<Longrightarrow> snd (assoc_step e acc u)"
  by (auto simp: topo_step_def assoc_step_def split: option.split)

text \<open>A pass that adds nothing changes nothing, and nothing was to be added.\<close>

lemma rt_pass_done:
  assumes "\<not> snd (rt_pass e st h b)"
  shows "fst (rt_pass e st h b) = b"
    and "t \<in> set (tuples (topologyset st)) \<Longrightarrow> topo_step e h (b, False) t = (b, False)"
proof -
  let ?r = "foldl (topo_step e h) (b, False) (tuples (topologyset st))"
  have A: "foldl (assoc_step e) ?r (tuples (ifaceassocset st)) = ?r \<and> \<not> snd ?r"
    using foldl_flag [of "tuples (ifaceassocset st)" "assoc_step e" ?r] step_flags(3,4)
      assms [unfolded rt_pass_def] by blast
  have T: "?r = (b, False) \<and>
      (\<forall>t\<in>set (tuples (topologyset st)). topo_step e h (b, False) t = (b, False))"
    using foldl_flag [of "tuples (topologyset st)" "topo_step e h" "(b, False)"] step_flags(1,2) A
    by blast
  show "fst (rt_pass e st h b) = b" using A T by (simp add: rt_pass_def)
  show "t \<in> set (tuples (topologyset st)) \<Longrightarrow> topo_step e h (b, False) t = (b, False)"
    using T by blast
qed

lemma rt_loop_invariant:
  assumes "\<And>h b. P h b \<Longrightarrow> P (Suc h) (fst (rt_pass e st h b))" and "P h b"
  shows "\<exists>h'\<ge>h. P h' (rt_loop e st h b) \<and> \<not> snd (rt_pass e st h' (rt_loop e st h b))"
  using assms
proof (induction e st h b rule: rt_loop.induct)
  case (1 e st h b)
  obtain b' added where r: "rt_pass e st h b = (b', added)" by (cases "rt_pass e st h b")
  show ?case
  proof (cases added)
    case True
    have "P (Suc h) b'" using "1.prems"(1) [OF "1.prems"(2)] r by simp
    then obtain h' where "Suc h \<le> h'" "P h' (rt_loop e st (Suc h) b')"
      "\<not> snd (rt_pass e st h' (rt_loop e st (Suc h) b'))"
      using "1.IH" [OF r [symmetric] refl True] "1.prems"(1) by blast
    then show ?thesis using r True by (intro exI [of _ h']) (simp add: rt_loop.simps [of e st h b])
  next
    case False
    then have "b' = b" using rt_pass_done(1) [of e st h b] r by simp
    then show ?thesis
      using r False "1.prems"(2) by (intro exI [of _ h]) (simp add: rt_loop.simps [of e st h b])
  qed
qed

lemma topo_step_inv:
  assumes "t \<in> set (tuples (topologyset st))" and "2 \<le> h" and "rt_inv now st (fst (fst acc))"
  shows "rt_inv now st (fst (fst (topo_step e h acc t)))"
proof (cases "rtable_lookup (fst (fst acc)) (t_dest_addr t) = None \<and>
    (\<exists>en. rtable_lookup (fst (fst acc)) (t_last_addr t) = Some en \<and> dist en = h)")
  case True
  then obtain en where en: "rtable_lookup (fst (fst acc)) (t_last_addr t) = Some en" "dist en = h"
    by blast
  have "route_to now st (t_last_addr t) (next_addr en) h"
    using rt_inv_entry [OF assms(3) en(1)] en(2) by (simp add: entry_ok_def)
  then have "rt_inv now st (add_entry_via (t_dest_addr t) (next_addr en) (iface_addr en) (h + 1)
      (rt_index en) en (fst (fst acc)))"
    using rt_inv_add_via [OF assms(3) en(1)] topology [OF assms(1,2)] assms(2) en(2)
    by (simp add: Suc_eq_plus1 [symmetric])
  then show ?thesis using True en by (simp add: topo_step_def)
next
  case False
  then show ?thesis using assms(3) by (auto simp: topo_step_def split: option.split)
qed

lemma assoc_step_inv:
  assumes "t \<in> set (tuples (ifaceassocset st))" and "rt_inv now st (fst (fst acc))"
  shows "rt_inv now st (fst (fst (assoc_step e acc t)))"
proof (cases "rtable_lookup (fst (fst acc)) (ia_main_addr t)")
  case (Some en)
  have "route_to now st (ia_main_addr t) (next_addr en) (dist en)"
    using rt_inv_entry [OF assms(2) Some] by (simp add: entry_ok_def)
  then have "rt_inv now st (add_entry_via (ia_iface_addr t) (next_addr en) (iface_addr en) (dist en)
      (rt_index en) en (fst (fst acc)))"
    using rt_inv_add_via [OF assms(2) Some] iface_assoc [OF assms(1)] by simp
  then show ?thesis using Some assms(2) by (simp add: assoc_step_def split: option.split)
qed (use assms(2) in \<open>simp add: assoc_step_def\<close>)

lemma rt_pass_inv:
  assumes "2 \<le> h" and "rt_inv now st (fst b)"
  shows "rt_inv now st (fst (fst (rt_pass e st h b)))"
  unfolding rt_pass_def
  by (rule foldl_invariant [where P = "\<lambda>acc. rt_inv now st (fst (fst acc))"])+
    (use assms topo_step_inv assoc_step_inv in auto)

text \<open>The table the whole computation leaves.\<close>

lemma rt_build_stages:
  assumes "rt_build e now a = Inr b"
  obtains b1 b2 where
    "b1 = foldl (nb_step e now (state_ptr a)) (rtable_clear (rtable_of a),
       route_log a @ clean_cmds e (rtable_of a)) (tuples (nbset (state_ptr a)))"
    "foldE (n2_step e (state_ptr a)) (tuples (nb2hopset (state_ptr a))) b1 = Inr b2"
    "b = rt_loop e (state_ptr a) 2 b2"
  using assms that [OF refl] by (auto simp: rt_build_def Let_def elim!: bindE_InrE)

lemma rt_build_inv:
  assumes "rt_build e now a = Inr b"
  shows "rt_inv now (state_ptr a) (fst b)"
proof -
  let ?st = "state_ptr a"
  obtain b1 b2 where b1: "b1 = foldl (nb_step e now ?st) (rtable_clear (rtable_of a),
       route_log a @ clean_cmds e (rtable_of a)) (tuples (nbset ?st))"
    and b2: "foldE (n2_step e ?st) (tuples (nb2hopset ?st)) b1 = Inr b2"
    and b: "b = rt_loop e ?st 2 b2"
    using rt_build_stages [OF assms] .
  have "n2_inv now ?st (fst b1)" using nb_steps [OF b1] n2_inv_start by blast
  then have "rt_inv now ?st (fst b2)" using n2_steps [OF b2 subset_refl] by (simp add: n2_inv_def)
  then have "\<exists>h'\<ge>2. (2 \<le> h' \<and> rt_inv now ?st (fst b)) \<and> \<not> snd (rt_pass e ?st h' b)"
    unfolding b
    by (intro rt_loop_invariant [where P = "\<lambda>h b. 2 \<le> h \<and> rt_inv now ?st (fst b)"])
      (simp_all add: rt_pass_inv)
  then show ?thesis by blast
qed

lemma rt_build_total:
  assumes "links_live now (state_ptr a)"
  shows "\<exists>b. rt_build e now a = Inr b"
proof -
  have "\<exists>b'. foldE (n2_step e (state_ptr a)) (tuples (nb2hopset (state_ptr a)))
      (foldl (nb_step e now (state_ptr a)) (rtable_clear (rtable_of a),
        route_log a @ clean_cmds e (rtable_of a)) (tuples (nbset (state_ptr a)))) = Inr b'"
    using n2_steps_total nb_steps(3) [OF refl assms] by blast
  then show ?thesis by (auto simp: rt_build_def Let_def)
qed

subsection \<open>Nodes with one interface\<close>

text \<open>No association gives an interface address another main address.\<close>

definition single_iface :: "olsr_state \<Rightarrow> bool" where
  "single_iface st \<longleftrightarrow> (\<forall>t\<in>set (tuples (ifaceassocset st)). ia_iface_addr t = ia_main_addr t)"

lemma single_iface_main: "single_iface st \<Longrightarrow> get_main_addr st x = x"
  unfolding get_main_addr_def find_ifaceassoc_tuple_def single_iface_def
  using find_ptr_SomeD(2,3) [of "\<lambda>t. ia_iface_addr t = x" "ifaceassocset st"]
  by (fastforce split: option.split)

lemma route_to_single:
  assumes "single_iface st" and "route_to now st d nx h"
  shows "sym_nb st nx \<and> (h = 1 \<longrightarrow> d = nx)"
  using assms(2)
proof (induction rule: route_to.induct)
  case (iface_assoc t nx h)
  then show ?case using assms(1) by (auto simp: single_iface_def)
qed (use assms(1) in \<open>auto simp: live_link_def single_iface_main\<close>)

text \<open>
  The table leads every destination to a neighbour that has an entry of its own: the invariant of
  the interface \<open>route_table\<close>, kept by every step.
\<close>

lemma one_step_self:
  "rt.one_step rt \<Longrightarrow> rt.one_step (add_entry x x i d idx rt)"
  unfolding add_entry_def by (rule rt.one_step_neighbour) simp_all

lemma one_step_nb_step:
  assumes "single_iface st" and "rt.one_step (fst b)"
  shows "rt.one_step (fst (nb_step e now st b n))"
proof -
  have P: "rt.one_step (fst b') \<and> (lt' \<noteq> None \<longrightarrow> f')"
    if "foldl (nb_link_step e now st n) (b, f, lt) ls = (b', f', lt')"
      "rt.one_step (fst b)" "lt \<noteq> None \<longrightarrow> f" for ls b f lt b' f' lt'
    using that
  proof (induction ls arbitrary: b f lt)
    case (Cons l ls)
    show ?case
    proof (cases "get_main_addr st (l_nb_iface_addr l) = nb_main_addr n \<and> l_time l \<ge> now")
      case True
      then show ?thesis
        using Cons.IH [of "put_route e (l_nb_iface_addr l) (l_nb_iface_addr l)
            (l_local_iface_addr l) 1 (l_index l) b" True "Some l"] Cons.prems
          single_iface_main [OF assms(1)]
        by (simp add: nb_link_step_def one_step_self)
    next
      case False
      then show ?thesis using Cons.IH [of b f lt] Cons.prems by (auto simp: nb_link_step_def)
    qed
  qed simp
  obtain b' f' lt' where r: "foldl (nb_link_step e now st n) (b, False, None) (tuples (linkset st)) =
      (b', f', lt')" by (metis prod_cases3)
  from P [OF r assms(2)] show ?thesis
    using r assms(2) by (auto simp: nb_step_def split: option.split)
qed

lemma one_step_n2_step:
  assumes "single_iface st" and "t \<in> set (tuples (nb2hopset st))" and "n2_step e st b t = Inr b'"
    and "rt_inv now st (fst b)" and "rt.one_step (fst b)"
  shows "rt.one_step (fst b')"
  using assms(2)
proof (cases rule: n2_step_cases [where e = e and b = b])
  case (put en)
  have c: "\<not> sym_nb st (n2_nb2hop_addr t)" using put(1) by (simp add: two_hop_def)
  have "next_addr o' \<noteq> n2_nb2hop_addr t"
    if "rtable_lookup (fst b) (n2_nb2hop_addr t) = Some o'" for o'
    using route_to_single [OF assms(1)] rt_inv_entry [OF assms(4) that] c
    by (auto simp: entry_ok_def)
  then have "rt.one_step (add_entry (n2_nb2hop_addr t) (next_addr en) (iface_addr en) 2
      (rt_index en) (fst b))"
    unfolding add_entry_def
    by (intro rt.one_step_borrow [OF assms(5) put(2)]) (auto intro: option.exhaust)
  then show ?thesis using put(3) assms(3) by simp
qed (use assms in auto)

lemma one_step_pass:
  assumes "rt.one_step (fst b)"
  shows "rt.one_step (fst (fst (rt_pass e st h b)))"
proof -
  have via: "rt.one_step (add_entry_via k (next_addr en) i d x en r)"
    if "rt.one_step r" "rtable_lookup r m = Some en" "rtable_lookup r k = None" for k i d x en r m
    unfolding add_entry_via_def using that by (intro rt.one_step_borrow) auto
  show ?thesis
    unfolding rt_pass_def
    by (rule foldl_invariant [where P = "\<lambda>acc. rt.one_step (fst (fst acc))"])+
      (use assms via in \<open>auto simp: topo_step_def assoc_step_def split: option.split\<close>)
qed

text \<open>
  How far the search is when it turns to \<open>h\<close>: no entry is farther than \<open>h\<close>, and what the topology
  set reaches from an entry nearer than \<open>h\<close> (from two hops on) has an entry at most one farther.
\<close>

definition level :: "olsr_state \<Rightarrow> nat \<Rightarrow> rtable \<Rightarrow> bool" where
  "level st h rt \<longleftrightarrow> rtable_ok rt \<and> (\<forall>d en. rtable_lookup rt d = Some en \<longrightarrow> dist en \<le> h) \<and>
     (\<forall>t\<in>set (tuples (topologyset st)). \<forall>en. rtable_lookup rt (t_last_addr t) = Some en \<longrightarrow>
        2 \<le> dist en \<longrightarrow> dist en < h \<longrightarrow>
        (\<exists>en'. rtable_lookup rt (t_dest_addr t) = Some en' \<and> dist en' \<le> Suc (dist en)))"

lemma lookup_add_via:
  "rtable_ok rt \<Longrightarrow> rtable_lookup (add_entry_via k nx i d x en rt) a =
     (if a = k then Some \<lparr>dest_addr = k, next_addr = nx, iface_addr = i, dist = d,
       quality = -1, delay = -1, rt_index = x,
       route = (if int (dist en) = int d - 1 then route en @ [dest_addr en] else route en)\<rparr>
      else rtable_lookup rt a)"
  by (simp add: add_entry_via_def)

text \<open>A step of the pass keeps the entries there are, and those it adds have distance \<open>h + 1\<close>.\<close>

definition extends :: "nat \<Rightarrow> rtable \<Rightarrow> rtable \<Rightarrow> bool" where
  "extends h rt rt' \<longleftrightarrow> rtable_ok rt' \<and>
     (\<forall>d en. rtable_lookup rt d = Some en \<longrightarrow> rtable_lookup rt' d = Some en) \<and>
     (\<forall>d en. rtable_lookup rt' d = Some en \<longrightarrow> rtable_lookup rt d = Some en \<or> dist en = Suc h)"

lemma topo_step_extends:
  "extends h rt (fst (fst acc)) \<Longrightarrow> extends h rt (fst (fst (topo_step e h acc t)))"
  unfolding topo_step_def extends_def
  by (auto split: option.split simp: lookup_add_via)

lemma topo_foldl_extends:
  "extends h rt (fst (fst acc)) \<Longrightarrow> extends h rt (fst (fst (foldl (topo_step e h) acc ts)))"
  by (rule foldl_invariant [where P = "\<lambda>acc. extends h rt (fst (fst acc))"])
    (simp_all add: topo_step_extends)

lemma topo_foldl_reaches:
  assumes "t \<in> set ts" and "extends h rt (fst (fst acc))" and "rtable_lookup rt (t_last_addr t) = Some en"
    and "dist en = h" and "\<forall>d en. rtable_lookup rt d = Some en \<longrightarrow> dist en \<le> h"
  shows "\<exists>en'. rtable_lookup (fst (fst (foldl (topo_step e h) acc ts))) (t_dest_addr t) = Some en' \<and>
    dist en' \<le> Suc h"
  using assms(1,2)
proof (induction ts arbitrary: acc)
  case (Cons u ts)
  let ?acc = "topo_step e h acc u"
  have ext: "extends h rt (fst (fst ?acc))" using topo_step_extends Cons.prems(2) .
  show ?case
  proof (cases "u = t")
    case True
    have last: "rtable_lookup (fst (fst acc)) (t_last_addr t) = Some en"
      using Cons.prems(2) assms(3) by (simp add: extends_def)
    have "\<exists>en'. rtable_lookup (fst (fst ?acc)) (t_dest_addr t) = Some en'"
      using last assms(4) True Cons.prems(2)
      by (auto simp: topo_step_def extends_def lookup_add_via split: option.split)
    then obtain en' where en': "rtable_lookup (fst (fst ?acc)) (t_dest_addr t) = Some en'" by blast
    then have "rtable_lookup (fst (fst (foldl (topo_step e h) ?acc ts))) (t_dest_addr t) = Some en'"
      using topo_foldl_extends [of h "fst (fst ?acc)" ?acc e ts] ext by (simp add: extends_def)
    moreover have "dist en' \<le> Suc h" using ext en' assms(5) by (fastforce simp: extends_def)
    ultimately show ?thesis by simp
  next
    case False
    then show ?thesis using Cons.IH [OF _ ext] Cons.prems(1) by simp
  qed
qed simp

lemma level_pass:
  assumes "single_iface st" and "level st h (fst b)"
  shows "level st (Suc h) (fst (fst (rt_pass e st h b)))"
proof -
  let ?r = "foldl (topo_step e h) (b, False) (tuples (topologyset st))"
  have "foldl (assoc_step e) ?r (tuples (ifaceassocset st)) = ?r"
  proof (rule foldl_invariant [where P = "\<lambda>acc. acc = ?r"])
    fix acc t assume "t \<in> set (tuples (ifaceassocset st))" "acc = ?r"
    then show "assoc_step e acc t = ?r"
      using assms(1) by (auto simp: single_iface_def assoc_step_def split: option.split)
  qed simp
  then have r: "rt_pass e st h b = ?r" by (simp add: rt_pass_def)
  have lv: "\<forall>d en. rtable_lookup (fst b) d = Some en \<longrightarrow> dist en \<le> h"
    using assms(2) by (simp add: level_def)
  have e0: "extends h (fst b) (fst (fst (b, False)))"
    using assms(2) by (simp add: extends_def level_def)
  then have ext: "extends h (fst b) (fst (fst ?r))" by (rule topo_foldl_extends)
  have "\<exists>en'. rtable_lookup (fst (fst ?r)) (t_dest_addr t) = Some en' \<and> dist en' \<le> Suc (dist en)"
    if t: "t \<in> set (tuples (topologyset st))" "rtable_lookup (fst (fst ?r)) (t_last_addr t) = Some en"
      "2 \<le> dist en" "dist en < Suc h" for t en
  proof -
    have old: "rtable_lookup (fst b) (t_last_addr t) = Some en"
      using ext t(2,4) unfolding extends_def by (metis less_irrefl)
    show ?thesis
    proof (cases "dist en = h")
      case True
      then show ?thesis using topo_foldl_reaches [OF t(1) e0 old _ lv] by blast
    next
      case False
      then obtain en' where "rtable_lookup (fst b) (t_dest_addr t) = Some en'" "dist en' \<le> Suc (dist en)"
        using assms(2) t(1,3,4) old unfolding level_def by (metis less_SucE)
      then show ?thesis using ext by (auto simp: extends_def)
    qed
  qed
  moreover have "dist en \<le> Suc h" if "rtable_lookup (fst (fst ?r)) d = Some en" for d en
    using ext that lv by (fastforce simp: extends_def)
  ultimately show ?thesis using ext r by (auto simp: level_def extends_def)
qed

text \<open>The table left when no pass adds anything more.\<close>

lemma rt_build_single:
  assumes "rt_build e now a = Inr b" and "single_iface (state_ptr a)"
  shows "rt.one_step (fst b)"
    and "t \<in> set (tuples (topologyset (state_ptr a))) \<Longrightarrow>
      rtable_lookup (fst b) (t_last_addr t) = Some en \<Longrightarrow> 2 \<le> dist en \<Longrightarrow>
      \<exists>en'. rtable_lookup (fst b) (t_dest_addr t) = Some en' \<and> dist en' \<le> Suc (dist en)"
proof -
  let ?st = "state_ptr a"
  obtain b1 b2 where b1: "b1 = foldl (nb_step e now ?st) (rtable_clear (rtable_of a),
       route_log a @ clean_cmds e (rtable_of a)) (tuples (nbset ?st))"
    and b2: "foldE (n2_step e ?st) (tuples (nb2hopset ?st)) b1 = Inr b2"
    and b: "b = rt_loop e ?st 2 b2"
    using rt_build_stages [OF assms(1)] .
  have 1: "rt.one_step (fst b1)"
    unfolding b1 by (rule foldl_invariant [where P = "\<lambda>b. rt.one_step (fst b)"])
      (simp_all add: one_step_nb_step assms(2), simp add: rt.one_step_def rtable_clear_def)
  have n1: "n2_inv now ?st (fst b1)" using nb_steps [OF b1] n2_inv_start by blast
  have n2: "n2_inv now ?st (fst b2)" using n2_steps [OF b2 subset_refl n1] by blast
  have "rt.one_step (fst b2) \<and> n2_inv now ?st (fst b2)"
    by (rule foldE_invariant [OF b2, where P = "\<lambda>b. rt.one_step (fst b) \<and> n2_inv now ?st (fst b)"])
      (use 1 n1 n2_step_inv one_step_n2_step [OF assms(2)] n2_inv_def in blast)+
  then have 2: "rt.one_step (fst b2)" "level ?st 2 (fst b2)"
    by (auto simp: level_def n2_inv_def rt_inv_def)
  obtain h' where h': "2 \<le> h'" "rt.one_step (fst b)" "level ?st h' (fst b)"
    "\<not> snd (rt_pass e ?st h' b)"
    using rt_loop_invariant [of "\<lambda>h b. rt.one_step (fst b) \<and> level ?st h (fst b)" e ?st 2 b2]
      2 one_step_pass level_pass [OF assms(2)] b by blast
  show "rt.one_step (fst b)" by fact
  assume t: "t \<in> set (tuples (topologyset ?st))" "rtable_lookup (fst b) (t_last_addr t) = Some en"
    "2 \<le> dist en"
  have le: "\<forall>d en. rtable_lookup (fst b) d = Some en \<longrightarrow> dist en \<le> h'"
    using h'(3) by (simp add: level_def)
  show "\<exists>en'. rtable_lookup (fst b) (t_dest_addr t) = Some en' \<and> dist en' \<le> Suc (dist en)"
  proof (cases "dist en < h'")
    case True
    then show ?thesis using h'(3) t by (auto simp: level_def)
  next
    case False
    then have d: "dist en = h'" using le t(2) by (meson le_less not_less)
    have "topo_step e h' (b, False) t = (b, False)" using rt_pass_done(2) [OF h'(4) t(1)] .
    then obtain en' where "rtable_lookup (fst b) (t_dest_addr t) = Some en'"
      using t(2) d by (auto simp: topo_step_def split: option.splits)
    then show ?thesis using le d by (metis le_SucI)
  qed
qed

subsection \<open>Every reachable destination has an entry\<close>

text \<open>The passes over the rest of the network only add entries.\<close>

definition keeps_routes :: "rtable \<Rightarrow> rtable \<Rightarrow> bool" where
  "keeps_routes rt rt' \<longleftrightarrow> rtable_ok rt' \<and>
     (\<forall>d en. rtable_lookup rt d = Some en \<longrightarrow> rtable_lookup rt' d = Some en)"

lemma keeps_routes_step:
  "keeps_routes rt (fst (fst acc)) \<Longrightarrow> keeps_routes rt (fst (fst (topo_step e h acc t)))"
  "keeps_routes rt (fst (fst acc)) \<Longrightarrow> keeps_routes rt (fst (fst (assoc_step e acc u)))"
  unfolding topo_step_def assoc_step_def keeps_routes_def
  by (auto split: option.split simp: lookup_add_via)

lemma keeps_routes_pass:
  "keeps_routes rt (fst b) \<Longrightarrow> keeps_routes rt (fst (fst (rt_pass e st h b)))"
  unfolding rt_pass_def
  by (rule foldl_invariant [where P = "\<lambda>acc. keeps_routes rt (fst (fst acc))"])+
    (simp_all add: keeps_routes_step)

lemma rt_build_reaches:
  assumes "rt_build e now a = Inr b" and "links_live now (state_ptr a)"
  shows "sym_nb (state_ptr a) x \<Longrightarrow> \<exists>en. rtable_lookup (fst b) x = Some en \<and> dist en = 1"
    and "two_hop (state_ptr a) y x \<Longrightarrow>
      \<exists>en. rtable_lookup (fst b) x = Some en \<and> dist en \<le> 2"
proof -
  let ?st = "state_ptr a"
  obtain b1 b2 where b1: "b1 = foldl (nb_step e now ?st) (rtable_clear (rtable_of a),
       route_log a @ clean_cmds e (rtable_of a)) (tuples (nbset ?st))"
    and b2: "foldE (n2_step e ?st) (tuples (nb2hopset ?st)) b1 = Inr b2"
    and b: "b = rt_loop e ?st 2 b2"
    using rt_build_stages [OF assms(1)] .
  have n1: "n2_inv now ?st (fst b1)" using nb_steps [OF b1] n2_inv_start by blast
  note 2 = n2_steps [OF b2 subset_refl n1]
  have "keeps_routes (fst b2) (fst b2)" using 2 by (simp add: keeps_routes_def n2_inv_def rt_inv_def)
  then have k: "keeps_routes (fst b2) (fst b)"
    using rt_loop_invariant [of "\<lambda>h b. keeps_routes (fst b2) (fst b)" e ?st 2 b2] keeps_routes_pass b
    by blast
  show "\<exists>en. rtable_lookup (fst b) x = Some en \<and> dist en = 1" if "sym_nb ?st x"
  proof -
    have "has_route (fst b2) x" using 2 nb_steps(3) [OF b1 assms(2) that] by blast
    then obtain en where en: "rtable_lookup (fst b2) x = Some en" by (auto simp: has_route_def)
    then have "dist en = 1" using 2 that by (simp add: n2_inv_def)
    then show ?thesis using en k by (auto simp: keeps_routes_def)
  qed
  show "\<exists>en. rtable_lookup (fst b) x = Some en \<and> dist en \<le> 2" if th: "two_hop ?st y x"
  proof -
    obtain t where "t \<in> set (tuples (nb2hopset ?st))" "n2_nb_main_addr t = y" "n2_nb2hop_addr t = x"
      using th by (auto simp: two_hop_def)
    then have "has_route (fst b2) x" using 2 th by blast
    then obtain en where en: "rtable_lookup (fst b2) x = Some en" by (auto simp: has_route_def)
    then have "dist en \<le> 2" using 2 by (simp add: n2_inv_def)
    then show ?thesis using en k by (auto simp: keeps_routes_def)
  qed
qed

end
