(* ===== verification/Olsr_Invariants.thy ===== *)
theory Olsr_Invariants
  imports Olsr_Sched Olsr_Route_Facts
begin

text \<open>
  The invariant of the agent and its preservation.  \<open>state_inv T st\<close> relates the state to a set \<open>T\<close>
  of timers: keys are unique, no timer of \<open>T\<close> refers to a deleted tuple, every tuple with a
  lifetime has its timer in \<open>T\<close>.  \<open>agent_ok X a\<close> says it of the timers in the queue and those of \<open>X\<close>,
  which are out of the queue because they are just expiring.  The lemmas go through the
  operations in the order of the code.
\<close>

definition dup_jobs :: "timer set \<Rightarrow> ptr set" where
  "dup_jobs T = {p. DupTupleTimer p \<in> T}"
definition link_jobs :: "timer set \<Rightarrow> ptr set" where
  "link_jobs T = {p. LinkTupleTimer p True \<in> T \<or> LinkTupleTimer p False \<in> T}"
definition nb2hop_jobs :: "timer set \<Rightarrow> ptr set" where
  "nb2hop_jobs T = {p. Nb2hopTupleTimer p \<in> T}"
definition mprsel_jobs :: "timer set \<Rightarrow> ptr set" where
  "mprsel_jobs T = {p. MprSelTupleTimer p \<in> T}"
definition topology_jobs :: "timer set \<Rightarrow> ptr set" where
  "topology_jobs T = {p. TopologyTupleTimer p \<in> T}"
definition ifaceassoc_jobs :: "timer set \<Rightarrow> ptr set" where
  "ifaceassoc_jobs T = {p. IfaceAssocTupleTimer p \<in> T}"

lemmas jobs_defs = dup_jobs_def link_jobs_def nb2hop_jobs_def mprsel_jobs_def topology_jobs_def
  ifaceassoc_jobs_def

lemma jobs_insert [simp]:
  "dup_jobs (insert t T) = (case t of DupTupleTimer p \<Rightarrow> insert p (dup_jobs T) | _ \<Rightarrow> dup_jobs T)"
  "link_jobs (insert t T) = (case t of LinkTupleTimer p b \<Rightarrow> insert p (link_jobs T) | _ \<Rightarrow> link_jobs T)"
  "nb2hop_jobs (insert t T) =
     (case t of Nb2hopTupleTimer p \<Rightarrow> insert p (nb2hop_jobs T) | _ \<Rightarrow> nb2hop_jobs T)"
  "mprsel_jobs (insert t T) =
     (case t of MprSelTupleTimer p \<Rightarrow> insert p (mprsel_jobs T) | _ \<Rightarrow> mprsel_jobs T)"
  "topology_jobs (insert t T) =
     (case t of TopologyTupleTimer p \<Rightarrow> insert p (topology_jobs T) | _ \<Rightarrow> topology_jobs T)"
  "ifaceassoc_jobs (insert t T) =
     (case t of IfaceAssocTupleTimer p \<Rightarrow> insert p (ifaceassoc_jobs T) | _ \<Rightarrow> ifaceassoc_jobs T)"
  by (auto simp: jobs_defs split: timer.split)

text \<open>A link has one timer, whatever its flag.\<close>

definition one_link_timer :: "timer set \<Rightarrow> bool" where
  "one_link_timer T \<longleftrightarrow> (\<forall>p. \<not> (LinkTupleTimer p True \<in> T \<and> LinkTupleTimer p False \<in> T))"

definition timed :: "timer set \<Rightarrow> olsr_state \<Rightarrow> bool" where
  "timed T st \<longleftrightarrow> watched (dup_jobs T) (dupset st) \<and> watched (link_jobs T) (linkset st) \<and>
     watched (nb2hop_jobs T) (nb2hopset st) \<and> watched (mprsel_jobs T) (mprselset st) \<and>
     watched (topology_jobs T) (topologyset st) \<and> held (ifaceassoc_jobs T) (ifaceassocset st) \<and>
     one_link_timer T"

definition state_inv :: "timer set \<Rightarrow> olsr_state \<Rightarrow> bool" where
  "state_inv T st \<longleftrightarrow> olsr_state_ok st \<and> timed T st"

lemma state_inv_ok: "state_inv T st \<Longrightarrow> olsr_state_ok st"
  by (simp add: state_inv_def)

subsection \<open>The operations of the state\<close>

lemma timed_set [simp]:
  "timed T (set_link p f0 st) = timed T st" "timed T (set_nb p f1 st) = timed T st"
  "timed T (set_nb2hop p f2 st) = timed T st" "timed T (set_topology p f3 st) = timed T st"
  "timed T (set_mprsel p f4 st) = timed T st" "timed T (set_dup p f5 st) = timed T st"
  "timed T (set_ifaceassoc p f6 st) = timed T st"
  by (simp_all add: timed_def olsr_set_defs tuple_simps)

lemma timed_erase:
  assumes "timed T st"
  shows "timed T (fst (erase_mprsel_tuples a st))" "timed T (erase_nb_tuple p st)"
    "timed T (erase_nb_tuple_addr a st)" "timed T (fst (erase_nb2hop_tuples2 a b st))"
    "timed T (fst (erase_nb2hop_tuples a st))" "timed T (erase_older_topology_tuples a n st)"
    "timed T (clear_mprset st)" "timed T (st\<lparr>mprset := M\<rparr>)" "timed T (delete_nb p st)"
    "timed T (record_nb t st)"
  using assms
  by (simp_all add: timed_def olsr_erase_defs clear_mprset_def tuple_simps split_beta Let_def
    delete_nb_def record_nb_def new_nb_def insert_nb_tuple_def)

lemma state_inv_set:
  "state_inv T st \<Longrightarrow> (\<And>t. l_nb_iface_addr (f0 t) = l_nb_iface_addr t) \<Longrightarrow> state_inv T (set_link p f0 st)"
  "state_inv T st \<Longrightarrow> (\<And>t. nb_main_addr (f1 t) = nb_main_addr t) \<Longrightarrow> state_inv T (set_nb p f1 st)"
  "state_inv T st \<Longrightarrow> (\<And>t. n2_key (f2 t) = n2_key t) \<Longrightarrow> state_inv T (set_nb2hop p f2 st)"
  "state_inv T st \<Longrightarrow> (\<And>t. t_key (f3 t) = t_key t) \<Longrightarrow> state_inv T (set_topology p f3 st)"
  "state_inv T st \<Longrightarrow> (\<And>t. ms_main_addr (f4 t) = ms_main_addr t) \<Longrightarrow> state_inv T (set_mprsel p f4 st)"
  "state_inv T st \<Longrightarrow> (\<And>t. d_key (f5 t) = d_key t) \<Longrightarrow> state_inv T (set_dup p f5 st)"
  "state_inv T st \<Longrightarrow> (\<And>t. ia_key (f6 t) = ia_key t) \<Longrightarrow> state_inv T (set_ifaceassoc p f6 st)"
  by (simp_all add: state_inv_def olsr_state_ok_set)

lemma state_inv_erase:
  assumes "state_inv T st"
  shows "state_inv T (fst (erase_mprsel_tuples a st))" "state_inv T (erase_nb_tuple p st)"
    "state_inv T (erase_nb_tuple_addr a st)" "state_inv T (fst (erase_nb2hop_tuples2 a b st))"
    "state_inv T (fst (erase_nb2hop_tuples a st))" "state_inv T (erase_older_topology_tuples a n st)"
    "state_inv T (clear_mprset st)" "state_inv T (st\<lparr>mprset := M\<rparr>)"
  using assms olsr_state_ok_erase [of st]
  by (simp_all add: state_inv_def timed_erase) (simp add: olsr_state_ok_def olsr_unique_defs)

lemma state_ok_pools:
  assumes "olsr_state_ok st"
  shows "pool_ok (linkset st)" "pool_ok (nbset st)" "pool_ok (nb2hopset st)" "pool_ok (topologyset st)"
    "pool_ok (mprselset st)" "pool_ok (dupset st)" "pool_ok (ifaceassocset st)"
  using assms by (simp_all add: olsr_state_ok_def olsr_unique_defs)

text \<open>The addresses new objects get are in no timer's hands.\<close>

lemma state_inv_fresh:
  assumes "state_inv T st"
  shows "DupTupleTimer (pnext (dupset st)) \<notin> T" "LinkTupleTimer (pnext (linkset st)) b \<notin> T"
    "Nb2hopTupleTimer (pnext (nb2hopset st)) \<notin> T" "MprSelTupleTimer (pnext (mprselset st)) \<notin> T"
    "TopologyTupleTimer (pnext (topologyset st)) \<notin> T"
    "IfaceAssocTupleTimer (pnext (ifaceassocset st)) \<notin> T"
proof -
  have t: "timed T st" and ok: "olsr_state_ok st" using assms by (simp_all add: state_inv_def)
  note pools = state_ok_pools [OF ok]
  show "DupTupleTimer (pnext (dupset st)) \<notin> T"
    using watched_fresh [of "dup_jobs T" "dupset st"] t pools by (simp add: timed_def dup_jobs_def)
  show "LinkTupleTimer (pnext (linkset st)) b \<notin> T"
    using watched_fresh [of "link_jobs T" "linkset st"] t pools
    by (cases b) (simp_all add: timed_def link_jobs_def)
  show "Nb2hopTupleTimer (pnext (nb2hopset st)) \<notin> T"
    using watched_fresh [of "nb2hop_jobs T" "nb2hopset st"] t pools
    by (simp add: timed_def nb2hop_jobs_def)
  show "MprSelTupleTimer (pnext (mprselset st)) \<notin> T"
    using watched_fresh [of "mprsel_jobs T" "mprselset st"] t pools
    by (simp add: timed_def mprsel_jobs_def)
  show "TopologyTupleTimer (pnext (topologyset st)) \<notin> T"
    using watched_fresh [of "topology_jobs T" "topologyset st"] t pools
    by (simp add: timed_def topology_jobs_def)
  show "IfaceAssocTupleTimer (pnext (ifaceassocset st)) \<notin> T"
    using held_fresh [of "ifaceassoc_jobs T" "ifaceassocset st"] t pools
    by (simp add: timed_def ifaceassoc_jobs_def)
qed

text \<open>A new tuple and its timer.\<close>

lemma new_then_insert:
  "fst (new_dup td st) = pnext (dupset st)"
  "insert_dup_tuple (pnext (dupset st)) (snd (new_dup td st)) = record_dup td st"
  "fst (new_link tk st) = pnext (linkset st)"
  "insert_link_tuple (pnext (linkset st)) (snd (new_link tk st)) = record_link tk st"
  "fst (new_nb2hop tn st) = pnext (nb2hopset st)"
  "insert_nb2hop_tuple (pnext (nb2hopset st)) (snd (new_nb2hop tn st)) = record_nb2hop tn st"
  "fst (new_mprsel tm st) = pnext (mprselset st)"
  "insert_mprsel_tuple (pnext (mprselset st)) (snd (new_mprsel tm st)) = record_mprsel tm st"
  "fst (new_topology tt st) = pnext (topologyset st)"
  "insert_topology_tuple (pnext (topologyset st)) (snd (new_topology tt st)) = record_topology tt st"
  "fst (new_ifaceassoc ti st) = pnext (ifaceassocset st)"
  "insert_ifaceassoc_tuple (pnext (ifaceassocset st)) (snd (new_ifaceassoc ti st)) = record_ifaceassoc ti st"
  by (simp_all add: record_dup_def record_link_def record_nb2hop_def record_mprsel_def
    record_topology_def record_ifaceassoc_def olsr_new_defs new_obj_def split_beta Let_def)

lemma record_sets:
  "dupset (record_dup td st) = add_obj td (dupset st)"
  "linkset (record_link tk st) = add_obj tk (linkset st)"
  "nb2hopset (record_nb2hop tn st) = add_obj tn (nb2hopset st)"
  "mprselset (record_mprsel tm st) = add_obj tm (mprselset st)"
  "topologyset (record_topology tt st) = add_obj tt (topologyset st)"
  "ifaceassocset (record_ifaceassoc ti st) = add_obj ti (ifaceassocset st)"
  "nbset (record_nb tb st) = add_obj tb (nbset st)"
  by (simp_all add: record_dup_def record_link_def record_nb2hop_def record_mprsel_def
    record_topology_def record_ifaceassoc_def record_nb_def olsr_new_defs olsr_insert_defs
    add_obj_def split_beta Let_def)

text \<open>What recording leaves alone.\<close>

lemma record_frame:
  "record_dup td st = st\<lparr>dupset := add_obj td (dupset st)\<rparr>"
  "record_link tk st = st\<lparr>linkset := add_obj tk (linkset st)\<rparr>"
  "record_nb2hop tn st = st\<lparr>nb2hopset := add_obj tn (nb2hopset st)\<rparr>"
  "record_mprsel tm st = st\<lparr>mprselset := add_obj tm (mprselset st)\<rparr>"
  "record_topology tt st = st\<lparr>topologyset := add_obj tt (topologyset st)\<rparr>"
  "record_ifaceassoc ti st = st\<lparr>ifaceassocset := add_obj ti (ifaceassocset st)\<rparr>"
  "record_nb tb st = st\<lparr>nbset := add_obj tb (nbset st)\<rparr>"
  by (simp_all add: record_dup_def record_link_def record_nb2hop_def record_mprsel_def
    record_topology_def record_ifaceassoc_def record_nb_def olsr_new_defs olsr_insert_defs
    add_obj_def split_beta Let_def)

lemma state_inv_record:
  assumes "state_inv T st"
  shows "find_dup_tuple st (d_addr td) (d_seq_num td) = None \<Longrightarrow>
      state_inv (insert (DupTupleTimer (pnext (dupset st))) T) (record_dup td st)" (is "_ \<Longrightarrow> ?dup")
    and "find_link_tuple st (l_nb_iface_addr tk) = None \<Longrightarrow>
      state_inv (insert (LinkTupleTimer (pnext (linkset st)) True) T) (record_link tk st)"
        (is "_ \<Longrightarrow> ?link")
    and "find_nb2hop_tuple st (n2_nb_main_addr tn) (n2_nb2hop_addr tn) = None \<Longrightarrow>
      state_inv (insert (Nb2hopTupleTimer (pnext (nb2hopset st))) T) (record_nb2hop tn st)"
        (is "_ \<Longrightarrow> ?nb2hop")
    and "find_mprsel_tuple st (ms_main_addr tm) = None \<Longrightarrow>
      state_inv (insert (MprSelTupleTimer (pnext (mprselset st))) T) (record_mprsel tm st)"
        (is "_ \<Longrightarrow> ?mprsel")
    and "find_topology_tuple st (t_dest_addr tt) (t_last_addr tt) = None \<Longrightarrow>
      state_inv (insert (TopologyTupleTimer (pnext (topologyset st))) T) (record_topology tt st)"
        (is "_ \<Longrightarrow> ?topology")
    and "find_ptr (\<lambda>u. ia_key u = ia_key ti) (ifaceassocset st) = None \<Longrightarrow>
      state_inv (insert (IfaceAssocTupleTimer (pnext (ifaceassocset st))) T) (record_ifaceassoc ti st)"
        (is "_ \<Longrightarrow> ?assoc")
proof -
  have t: "timed T st" and ok: "olsr_state_ok st" using assms by (simp_all add: state_inv_def)
  have "one_link_timer (insert (LinkTupleTimer (pnext (linkset st)) True) T)"
    using t state_inv_fresh(2) [OF assms, of False] by (auto simp: timed_def one_link_timer_def)
  then have tl: "timed (insert (LinkTupleTimer (pnext (linkset st)) True) T) (record_link tk st)"
    using t by (simp add: timed_def record_frame watched_add_obj)
  note timed = t [unfolded timed_def one_link_timer_def]
  show "find_dup_tuple st (d_addr td) (d_seq_num td) = None \<Longrightarrow> ?dup"
    using olsr_state_ok_record(6) [OF ok] timed
    by (simp add: state_inv_def timed_def one_link_timer_def record_frame watched_add_obj)
  show "find_link_tuple st (l_nb_iface_addr tk) = None \<Longrightarrow> ?link"
    using olsr_state_ok_record(1) [OF ok] tl by (simp add: state_inv_def)
  show "find_nb2hop_tuple st (n2_nb_main_addr tn) (n2_nb2hop_addr tn) = None \<Longrightarrow> ?nb2hop"
    using olsr_state_ok_record(3) [OF ok] timed
    by (simp add: state_inv_def timed_def one_link_timer_def record_frame watched_add_obj)
  show "find_mprsel_tuple st (ms_main_addr tm) = None \<Longrightarrow> ?mprsel"
    using olsr_state_ok_record(5) [OF ok] timed
    by (simp add: state_inv_def timed_def one_link_timer_def record_frame watched_add_obj)
  show "find_topology_tuple st (t_dest_addr tt) (t_last_addr tt) = None \<Longrightarrow> ?topology"
    using olsr_state_ok_record(4) [OF ok] timed
    by (simp add: state_inv_def timed_def one_link_timer_def record_frame watched_add_obj)
  show "find_ptr (\<lambda>u. ia_key u = ia_key ti) (ifaceassocset st) = None \<Longrightarrow> ?assoc"
    using olsr_state_ok_record(7) [OF ok] timed
    by (simp add: state_inv_def timed_def one_link_timer_def record_frame held_add_obj)
qed

subsubsection \<open>Neighbour tuples\<close>

text \<open>\<open>new\<close> followed by \<open>add_nb_tuple\<close>: the tuple replaces the one of its address.\<close>

definition put_nb :: "nb_tuple \<Rightarrow> olsr_state \<Rightarrow> olsr_state" where
  "put_nb t st = record_nb t (erase_nb_tuple_addr (nb_main_addr t) st)"

lemma new_then_add_nb:
  assumes "olsr_state_ok st" and "new_nb t st = (q, st1)"
  shows "add_nb_tuple q st1 = put_nb t st"
proof -
  have ok: "pool_ok (nbset st)" using state_ok_pools(2) [OF assms(1)] .
  have q: "q = pnext (nbset st)" "st1 = st\<lparr>nbset := snd (new_obj t (nbset st))\<rparr>"
    using assms(2) by (auto simp: new_nb_def new_obj_def)
  have "deref (nbset st1) q = t" by (simp add: q deref_def new_obj_def)
  then show ?thesis
    using erase_first_new_obj [OF ok]
    by (simp add: add_nb_tuple_def q put_nb_def record_nb_def new_nb_def erase_nb_tuple_addr_def
      insert_nb_tuple_def new_obj_def)
qed

lemma olsr_state_ok_put_nb:
  assumes "olsr_state_ok st"
  shows "olsr_state_ok (put_nb t st)"
proof -
  have 1: "olsr_state_ok (erase_nb_tuple_addr (nb_main_addr t) st)" using assms by simp
  have "tuples (nbset (erase_nb_tuple_addr (nb_main_addr t) st)) =
      filter (\<lambda>u. nb_main_addr u \<noteq> nb_main_addr t) (tuples (nbset st))"
    using assms by (simp add: olsr_state_ok_def olsr_unique_defs erase_nb_tuple_addr_def
      tuples_erase_first_key)
  then have "find_nb_tuple (erase_nb_tuple_addr (nb_main_addr t) st) (nb_main_addr t) = None"
    by (auto simp: find_nb_tuple_def find_ptr_None)
  then show ?thesis using 1 olsr_state_ok_record(2) by (simp add: put_nb_def)
qed

lemma state_inv_put_nb: "state_inv T st \<Longrightarrow> state_inv T (put_nb t st)"
  using olsr_state_ok_put_nb by (simp add: state_inv_def put_nb_def timed_erase)

lemma tuples_put_nb:
  assumes "olsr_state_ok st"
  shows "tuples (nbset (put_nb t st)) =
    filter (\<lambda>u. nb_main_addr u \<noteq> nb_main_addr t) (tuples (nbset st)) @ [t]"
  using assms by (simp add: put_nb_def record_sets tuples_add_obj erase_nb_tuple_addr_def
    pool_ok_erase_first tuples_erase_first_key olsr_state_ok_def olsr_unique_defs)

lemma put_nb_frame [simp]:
  "linkset (put_nb t st) = linkset st" "nb2hopset (put_nb t st) = nb2hopset st"
  "topologyset (put_nb t st) = topologyset st" "mprset (put_nb t st) = mprset st"
  "mprselset (put_nb t st) = mprselset st" "dupset (put_nb t st) = dupset st"
  "ifaceassocset (put_nb t st) = ifaceassocset st"
  by (simp_all add: put_nb_def record_frame erase_nb_tuple_addr_def)

lemma get_main_addr_cong: "ifaceassocset st = ifaceassocset st' \<Longrightarrow> get_main_addr st x = get_main_addr st' x"
  by (simp add: get_main_addr_def find_ifaceassoc_tuple_def cong: option.case_cong)

subsubsection \<open>Link tuples and their neighbours\<close>

lemma record_link_frame [simp]:
  "nbset (record_link tk st) = nbset st" "ifaceassocset (record_link tk st) = ifaceassocset st"
  "get_main_addr (record_link tk st) x = get_main_addr st x"
  by (auto simp: record_frame intro: get_main_addr_cong)

lemma add_link_new:
  assumes "olsr_state_ok st" and "find_link_tuple st (l_nb_iface_addr tk) = None"
    and "new_link tk st = (p, st1)"
  shows "p = pnext (linkset st)"
    and "add_link_tuple now p w st1 = put_nb (nb_of_link now tk w st) (record_link tk st)"
proof -
  have ok: "olsr_state_ok (record_link tk st)" using olsr_state_ok_record(1) assms(1,2) .
  have ins: "insert_link_tuple p st1 = record_link tk st" using assms(3) by (simp add: record_link_def)
  show p: "p = pnext (linkset st)" using assms(3) by (auto simp: new_link_def new_obj_def)
  have d: "deref (linkset (record_link tk st)) p = tk"
    by (simp add: p record_sets add_obj_def new_obj_def push_back_def deref_def)
  have nb: "nb_of_link now tk w (record_link tk st) = nb_of_link now tk w st"
    by (simp add: nb_of_link_def)
  show "add_link_tuple now p w st1 = put_nb (nb_of_link now tk w st) (record_link tk st)"
    using new_then_add_nb [OF ok]
    by (auto simp: add_link_tuple_def ins Let_def d nb split: prod.split)
qed

text \<open>The status a link gives its neighbour.\<close>

definition link_status :: "olsr_env \<Rightarrow> simtime \<Rightarrow> link_tuple \<Rightarrow> u8" where
  "link_status e now t = (if use_mac e \<and> l_lost_time t \<ge> now then OLSR_STATUS_NOT_SYM
     else if l_sym_time t \<ge> now then OLSR_STATUS_SYM else OLSR_STATUS_NOT_SYM)"

lemma updated_link_tuple_alt:
  "updated_link_tuple e now p w st =
     (case find_or_add_nb now p w st of (nb, st1) \<Rightarrow> (case nb of None \<Rightarrow> st1
        | Some q \<Rightarrow> set_nb q (\<lambda>n. n\<lparr>nb_status := link_status e now (deref (linkset st1) p)\<rparr>) st1))"
  by (simp add: updated_link_tuple_def link_status_def Let_def split: prod.split option.split)

lemma updated_link_tuple_cases:
  fixes p st
  defines "t \<equiv> deref (linkset st) p"
  defines "main \<equiv> get_main_addr st (l_nb_iface_addr t)"
  assumes "olsr_state_ok st"
  obtains (found) q where "find_nb_tuple st main = Some q"
      "updated_link_tuple e now p w st = set_nb q (\<lambda>n. n\<lparr>nb_status := link_status e now t\<rparr>) st"
  | (added) q st1 where "find_nb_tuple st main = None"
      "st1 = put_nb (nb_of_link now t w st) (erase_nb_tuple_addr (l_nb_iface_addr t) st)"
      "find_nb_tuple st1 main = Some q"
      "updated_link_tuple e now p w st = set_nb q (\<lambda>n. n\<lparr>nb_status := link_status e now t\<rparr>) st1"
proof (cases "find_nb_tuple st main")
  case (Some q)
  then show ?thesis using found
    by (simp add: updated_link_tuple_alt find_or_add_nb_def Let_def t_def main_def)
next
  case None
  let ?st0 = "erase_nb_tuple_addr (l_nb_iface_addr t) st"
  let ?st1 = "put_nb (nb_of_link now t w st) ?st0"
  have ok0: "olsr_state_ok ?st0" using assms(3) by simp
  have g: "get_main_addr ?st0 x = get_main_addr st x" for x
    by (rule get_main_addr_cong) (simp add: erase_nb_tuple_addr_def)
  have nb: "nb_of_link now t w ?st0 = nb_of_link now t w st" by (simp add: nb_of_link_def g)
  obtain q0 s0 where q0: "new_nb (nb_of_link now t w st) ?st0 = (q0, s0)"
    by (cases "new_nb (nb_of_link now t w st) ?st0")
  have add: "add_nb_tuple q0 s0 = ?st1" using new_then_add_nb [OF ok0 q0] .
  have "nb_main_addr (nb_of_link now t w st) = main" by (simp add: nb_of_link_def main_def)
  then have "find_nb_tuple ?st1 main \<noteq> None"
    using tuples_put_nb [OF ok0] by (auto simp: find_nb_tuple_def find_ptr_None)
  then obtain q where q: "find_nb_tuple ?st1 main = Some q" by blast
  have l: "linkset ?st1 = linkset st" by (simp add: erase_nb_tuple_addr_def)
  have "find_or_add_nb now p w st = (Some q, ?st1)"
    unfolding find_or_add_nb_def
    by (simp only: Let_def t_def [symmetric] main_def [symmetric] None option.case nb q0 prod.case
      add q)
  then have "updated_link_tuple e now p w st =
      set_nb q (\<lambda>n. n\<lparr>nb_status := link_status e now t\<rparr>) ?st1"
    by (simp add: updated_link_tuple_alt erase_nb_tuple_addr_def t_def)
  then show ?thesis using added [OF None refl q] by simp
qed

lemma state_inv_updated_link:
  assumes "state_inv T st"
  shows "state_inv T (updated_link_tuple e now p w st)"
  by (cases rule: updated_link_tuple_cases [OF state_inv_ok [OF assms], where e = e and now = now
        and p = p and w = w])
    (simp_all add: state_inv_set state_inv_put_nb state_inv_erase assms)

lemma updated_link_frame:
  fixes e now p w st
  assumes "olsr_state_ok st"
  defines "st' \<equiv> updated_link_tuple e now p w st"
  shows "linkset st' = linkset st" "nb2hopset st' = nb2hopset st" "topologyset st' = topologyset st"
    "mprset st' = mprset st" "mprselset st' = mprselset st" "dupset st' = dupset st"
    "ifaceassocset st' = ifaceassocset st" "get_main_addr st' x = get_main_addr st x"
proof -
  show *: "linkset st' = linkset st" "nb2hopset st' = nb2hopset st" "topologyset st' = topologyset st"
    "mprset st' = mprset st" "mprselset st' = mprselset st" "dupset st' = dupset st"
    "ifaceassocset st' = ifaceassocset st"
    unfolding st'_def
    by (cases rule: updated_link_tuple_cases [OF assms(1), where e = e and now = now
        and p = p and w = w]; simp add: set_nb_def erase_nb_tuple_addr_def)+
  show "get_main_addr st' x = get_main_addr st x" by (rule get_main_addr_cong) (rule *)
qed

text \<open>The neighbour set afterwards.\<close>

lemma tuples_set_nb:
  assumes "olsr_state_ok st" and "find_nb_tuple st k = Some q"
  shows "tuples (nbset (set_nb q f st)) = map (\<lambda>n. if nb_main_addr n = k then f n else n) (tuples (nbset st))"
  using nbs.contents_change [of st k q f] assms by (simp add: olsr_state_ok_def nbs.unique_def)

lemma updated_link_nbset:
  fixes p st
  defines "t \<equiv> deref (linkset st) p"
  defines "main \<equiv> get_main_addr st (l_nb_iface_addr t)"
  assumes "olsr_state_ok st"
  shows "tuples (nbset (updated_link_tuple e now p w st)) =
    (if main \<in> nb_main_addr ` set (tuples (nbset st))
     then map (\<lambda>n. if nb_main_addr n = main then n\<lparr>nb_status := link_status e now t\<rparr> else n)
       (tuples (nbset st))
     else filter (\<lambda>n. nb_main_addr n \<noteq> l_nb_iface_addr t) (tuples (nbset st)) @
       [\<lparr>nb_main_addr = main, nb_status = link_status e now t, nb_willingness = w\<rparr>])"
  using assms(3)
proof (cases rule: updated_link_tuple_cases [where e = e and now = now and p = p and w = w])
  case (found q)
  then have "main \<in> nb_main_addr ` set (tuples (nbset st))"
    using nbs.lookup_none [of st main] by (simp add: t_def main_def)
  then show ?thesis
    using found tuples_set_nb [OF assms(3), of main q] by (simp add: t_def main_def)
next
  case (added q st1)
  have out: "main \<notin> nb_main_addr ` set (tuples (nbset st))"
    using added(1) by (auto simp: find_nb_tuple_def find_ptr_None t_def main_def)
  let ?st0 = "erase_nb_tuple_addr (l_nb_iface_addr t) st"
  have ok0: "olsr_state_ok ?st0" using assms(3) by simp
  have st0: "tuples (nbset ?st0) = filter (\<lambda>n. nb_main_addr n \<noteq> l_nb_iface_addr t) (tuples (nbset st))"
    using assms(3) by (simp add: erase_nb_tuple_addr_def tuples_erase_first_key olsr_state_ok_def
      olsr_unique_defs)
  have m: "nb_main_addr (nb_of_link now t w st) = main" by (simp add: nb_of_link_def main_def)
  have ok1: "olsr_state_ok st1"
    unfolding added(2) by (rule olsr_state_ok_put_nb) (simp add: assms(3))
  have nomain: "filter (\<lambda>n. nb_main_addr n \<noteq> main) (tuples (nbset ?st0)) = tuples (nbset ?st0)"
    using out unfolding filter_id_conv by (auto simp: st0)
  have "tuples (nbset st1) = tuples (nbset ?st0) @ [nb_of_link now t w st]"
    unfolding added(2) t_def [symmetric] tuples_put_nb [OF ok0] m nomain ..
  moreover have "map (\<lambda>n. if nb_main_addr n = main then n\<lparr>nb_status := link_status e now t\<rparr> else n)
      (tuples (nbset ?st0)) = tuples (nbset ?st0)"
    using out unfolding st0 by (auto intro!: map_idI)
  moreover have "tuples (nbset (updated_link_tuple e now p w st)) =
      map (\<lambda>n. if nb_main_addr n = main then n\<lparr>nb_status := link_status e now t\<rparr> else n)
        (tuples (nbset st1))"
    unfolding added(4) [folded t_def] by (rule tuples_set_nb [OF ok1 added(3) [folded t_def, folded main_def]])
  moreover have "(nb_of_link now t w st)\<lparr>nb_status := link_status e now t\<rparr> =
      \<lparr>nb_main_addr = main, nb_status = link_status e now t, nb_willingness = w\<rparr>"
    by (simp add: nb_of_link_def main_def)
  ultimately show ?thesis using out m by (simp only: st0) simp
qed

subsubsection \<open>Deleting a tuple with its timer\<close>

lemma erased_gone:
  assumes "olsr_state_ok st"
  shows "p \<notin> set (pvec (dupset (erase_dup_tuple p st)))"
    "p \<notin> set (pvec (linkset (erase_link_tuple p st)))"
    "p \<notin> set (pvec (nb2hopset (erase_nb2hop_tuple p st)))"
    "p \<notin> set (pvec (mprselset (erase_mprsel_tuple p st)))"
    "p \<notin> set (pvec (topologyset (erase_topology_tuple p st)))"
    "p \<notin> set (pvec (ifaceassocset (erase_ifaceassoc_tuple p st)))"
    "p \<notin> set (pvec (nbset (erase_nb_tuple p st)))"
  by (simp_all add: olsr_erase_defs erase_ptr_gone state_ok_pools [OF assms])

lemma state_ok_delete_erased:
  assumes "olsr_state_ok st"
  shows "olsr_state_ok (delete_dup p (erase_dup_tuple p st))"
    "olsr_state_ok (delete_link p (erase_link_tuple p st))"
    "olsr_state_ok (delete_nb2hop p (erase_nb2hop_tuple p st))"
    "olsr_state_ok (delete_mprsel p (erase_mprsel_tuple p st))"
    "olsr_state_ok (delete_topology p (erase_topology_tuple p st))"
    "olsr_state_ok (delete_ifaceassoc p (erase_ifaceassoc_tuple p st))"
    "olsr_state_ok (delete_nb p (erase_nb_tuple p st))"
  using assms by (simp_all add: olsr_state_ok_delete erased_gone)

text \<open>The timer of a tuple is gone with it; \<open>T\<close> is what remains.\<close>

lemma state_inv_drop:
  shows "state_inv (insert (DupTupleTimer p) T) st \<Longrightarrow> DupTupleTimer p \<notin> T \<Longrightarrow>
      state_inv T (delete_dup p (erase_dup_tuple p st))"
    and "state_inv (insert (LinkTupleTimer p b) T) st \<Longrightarrow> LinkTupleTimer p b \<notin> T \<Longrightarrow>
      state_inv T (delete_link p (erase_link_tuple p st))"
    and "state_inv (insert (Nb2hopTupleTimer p) T) st \<Longrightarrow> Nb2hopTupleTimer p \<notin> T \<Longrightarrow>
      state_inv T (delete_nb2hop p (erase_nb2hop_tuple p st))"
    and "state_inv (insert (MprSelTupleTimer p) T) st \<Longrightarrow> MprSelTupleTimer p \<notin> T \<Longrightarrow>
      state_inv T (delete_mprsel p (erase_mprsel_tuple p st))"
    and "state_inv (insert (TopologyTupleTimer p) T) st \<Longrightarrow> TopologyTupleTimer p \<notin> T \<Longrightarrow>
      state_inv T (delete_topology p (erase_topology_tuple p st))"
    and "state_inv (insert (IfaceAssocTupleTimer p) T) st \<Longrightarrow> IfaceAssocTupleTimer p \<notin> T \<Longrightarrow>
      state_inv T (delete_ifaceassoc p (erase_ifaceassoc_tuple p st))"
proof -
  have one: "one_link_timer (insert t T) \<Longrightarrow> one_link_timer T" for t
    by (auto simp: one_link_timer_def)
  show "state_inv (insert (DupTupleTimer p) T) st \<Longrightarrow> DupTupleTimer p \<notin> T \<Longrightarrow>
      state_inv T (delete_dup p (erase_dup_tuple p st))"
    using watched_delete [of p "dup_jobs T" "dupset st"] state_ok_pools(6) [of st]
    by (auto simp: state_inv_def state_ok_delete_erased timed_def one)
      (auto simp: delete_dup_def erase_dup_tuple_def dup_jobs_def)
  show "state_inv (insert (LinkTupleTimer p b) T) st \<Longrightarrow> LinkTupleTimer p b \<notin> T \<Longrightarrow>
      state_inv T (delete_link p (erase_link_tuple p st))"
    using watched_delete [of p "link_jobs T" "linkset st"] state_ok_pools(1) [of st]
    by (cases b; auto simp: state_inv_def state_ok_delete_erased timed_def one)
      (auto simp: delete_link_def erase_link_tuple_def link_jobs_def one_link_timer_def)
  show "state_inv (insert (Nb2hopTupleTimer p) T) st \<Longrightarrow> Nb2hopTupleTimer p \<notin> T \<Longrightarrow>
      state_inv T (delete_nb2hop p (erase_nb2hop_tuple p st))"
    using watched_delete [of p "nb2hop_jobs T" "nb2hopset st"] state_ok_pools(3) [of st]
    by (auto simp: state_inv_def state_ok_delete_erased timed_def one)
      (auto simp: delete_nb2hop_def erase_nb2hop_tuple_def nb2hop_jobs_def)
  show "state_inv (insert (MprSelTupleTimer p) T) st \<Longrightarrow> MprSelTupleTimer p \<notin> T \<Longrightarrow>
      state_inv T (delete_mprsel p (erase_mprsel_tuple p st))"
    using watched_delete [of p "mprsel_jobs T" "mprselset st"] state_ok_pools(5) [of st]
    by (auto simp: state_inv_def state_ok_delete_erased timed_def one)
      (auto simp: delete_mprsel_def erase_mprsel_tuple_def mprsel_jobs_def)
  show "state_inv (insert (TopologyTupleTimer p) T) st \<Longrightarrow> TopologyTupleTimer p \<notin> T \<Longrightarrow>
      state_inv T (delete_topology p (erase_topology_tuple p st))"
    using watched_delete [of p "topology_jobs T" "topologyset st"] state_ok_pools(4) [of st]
    by (auto simp: state_inv_def state_ok_delete_erased timed_def one)
      (auto simp: delete_topology_def erase_topology_tuple_def topology_jobs_def)
  show "state_inv (insert (IfaceAssocTupleTimer p) T) st \<Longrightarrow> IfaceAssocTupleTimer p \<notin> T \<Longrightarrow>
      state_inv T (delete_ifaceassoc p (erase_ifaceassoc_tuple p st))"
    using held_delete [of p "ifaceassoc_jobs T" "ifaceassocset st"]
    by (auto simp: state_inv_def state_ok_delete_erased timed_def one)
      (auto simp: delete_ifaceassoc_def erase_ifaceassoc_tuple_def ifaceassoc_jobs_def)
qed

lemma state_inv_drop_nb:
  "state_inv T st \<Longrightarrow> state_inv T (delete_nb q (erase_nb_tuple q st))"
  using state_ok_delete_erased(7) timed_erase(2,9) by (simp add: state_inv_def)

lemma rm_link_tuple_state:
  "\<exists>f. rm_link_tuple p st = f (erase_link_tuple p st) \<and>
     (\<forall>T s. state_inv T s \<longrightarrow> state_inv T (f s)) \<and> (\<forall>s. delete_link p (f s) = f (delete_link p s))"
proof (cases "find_nb_tuple (erase_link_tuple p st)
    (get_main_addr st (l_nb_iface_addr (deref (linkset st) p)))")
  case None
  then show ?thesis by (intro exI [of _ "\<lambda>s. s"]) (simp add: rm_link_tuple_def Let_def)
next
  case (Some q)
  then show ?thesis
    by (intro exI [of _ "\<lambda>s. delete_nb q (erase_nb_tuple q s)"] conjI allI impI)
      (simp_all add: rm_link_tuple_def Let_def state_inv_drop_nb,
       simp add: delete_nb_def erase_nb_tuple_def delete_link_def)
qed

lemma state_inv_drop_link:
  assumes "state_inv (insert (LinkTupleTimer p b) T) st" and "LinkTupleTimer p b \<notin> T"
  shows "state_inv T (delete_link p (rm_link_tuple p st))"
  using rm_link_tuple_state [of p st] state_inv_drop(2) [OF assms] by auto

subsection \<open>The agent\<close>

definition jobs :: "olsr \<Rightarrow> timer set" where
  "jobs a = snd ` set (timerQueue a)"

text \<open>
  \<open>X\<close> holds the timers that have been taken out of the queue and are expiring.  The HELLO and TC
  timers never rest, and a buffered message always has a timer that will send it.
\<close>

definition agent_ok :: "timer set \<Rightarrow> olsr \<Rightarrow> bool" where
  "agent_ok X a \<longleftrightarrow> state_inv (X \<union> jobs a) (state_ptr a) \<and> rtable_ok (rtable_of a) \<and>
     tq_ok (timerQueue a) \<and> X \<inter> jobs a = {} \<and>
     (\<forall>n. MsgTimer n \<in> X \<union> jobs a \<longrightarrow> n < next_msg_timer a) \<and>
     (msgs_of a \<noteq> [] \<longrightarrow> (\<exists>n. MsgTimer n \<in> X \<union> jobs a)) \<and>
     {HelloTimer, TcTimer} \<subseteq> X \<union> jobs a"

lemma agent_okD:
  assumes "agent_ok X a"
  shows "state_inv (X \<union> jobs a) (state_ptr a)" "olsr_state_ok (state_ptr a)" "rtable_ok (rtable_of a)"
    "tq_ok (timerQueue a)"
  using assms by (simp_all add: agent_ok_def state_inv_def)

lemma jobs_schedule:
  "tq_ok (timerQueue a) \<Longrightarrow> jobs (schedule now d t a) = insert t (jobs a)"
  by (simp add: jobs_def schedule_def)

lemma jobs_frame [simp]:
  "jobs (a\<lparr>state_ptr := st\<rparr>) = jobs a" "jobs (upd_state f a) = jobs a"
  by (simp_all add: jobs_def upd_state_def)

lemma agent_ok_state:
  "agent_ok X a \<Longrightarrow> state_inv (X \<union> jobs a) st \<Longrightarrow> agent_ok X (a\<lparr>state_ptr := st\<rparr>)"
  by (simp add: agent_ok_def)

lemma agent_ok_upd:
  "agent_ok X a \<Longrightarrow> state_inv (X \<union> jobs a) (f (state_ptr a)) \<Longrightarrow> agent_ok X (upd_state f a)"
  by (simp add: upd_state_def agent_ok_state)

text \<open>A new tuple is recorded and its timer scheduled.\<close>

lemma agent_ok_schedule:
  assumes "agent_ok X a" and "t \<notin> X" and "\<And>n. t \<noteq> MsgTimer n"
    and "state_inv (insert t (X \<union> jobs a)) st"
  shows "agent_ok X (schedule now d t (a\<lparr>state_ptr := st\<rparr>))"
proof -
  have "jobs (schedule now d t (a\<lparr>state_ptr := st\<rparr>)) = insert t (jobs a)"
    using assms(1) by (simp add: jobs_schedule agent_ok_def)
  then show ?thesis
    using assms unfolding agent_ok_def by (auto simp: schedule_def)
qed

subsubsection \<open>HELLO processing\<close>

lemma state_inv_sender_link:
  assumes "state_inv T st" and "sender_link now msg ri si idx st = (p, created, st1)"
  shows "state_inv (if created then insert (LinkTupleTimer p True) T else T) st1 \<and>
    (created \<longrightarrow> LinkTupleTimer p True \<notin> T)"
proof (cases "find_link_tuple st si")
  case (Some q)
  then show ?thesis using assms by (simp add: sender_link_def)
next
  case None
  let ?t = "\<lparr>l_local_iface_addr = ri, l_nb_iface_addr = si, l_sym_time = now - 1, l_asym_time = 0,
    l_lost_time = 0, l_time = now + emf_to_seconds (vtime msg), l_index = idx\<rparr>"
  obtain q s1 where q: "new_link ?t st = (q, s1)" by (cases "new_link ?t st")
  have "find_link_tuple st (l_nb_iface_addr ?t) = None" using None by simp
  from add_link_new [OF state_inv_ok [OF assms(1)] this q] state_inv_record(2) [OF assms(1) this]
  show ?thesis
    using assms(2) None q state_inv_fresh(2) [OF assms(1)] by (auto simp: sender_link_def state_inv_put_nb)
qed

lemma link_sensing_parts:
  assumes "link_sensing e now msg ri si idx a = Inr a'"
    and "sender_link now msg ri si idx (state_ptr a) = (p, created, st1)"
  obtains t updated where
    "foldE (hello_link_step e now (emf_to_seconds (vtime msg)) ri) (hello_body (msg_hello msg))
       (deref (linkset (heard now msg p st1)) p, \<not> created) = Inr (t, updated)"
    "a' = finish_sensing e now msg p created updated (sensed t p (heard now msg p st1)) a"
    "length (hello_body (msg_hello msg)) \<le> OLSR_MAX_HELLOS"
  using assms by (auto simp: link_sensing_def Let_def split: if_splits elim!: bindE_InrE)

lemma agent_ok_finish_sensing:
  assumes "agent_ok X a" and "created \<longrightarrow> LinkTupleTimer p True \<notin> X"
    and "state_inv (if created then insert (LinkTupleTimer p True) (X \<union> jobs a) else X \<union> jobs a) st"
  shows "agent_ok X (finish_sensing e now msg p created updated st a)"
proof -
  have "state_inv (if created then insert (LinkTupleTimer p True) (X \<union> jobs a) else X \<union> jobs a)
      (if updated then updated_link_tuple e now p (h_willingness (msg_hello msg)) st else st)"
    using assms(3) state_inv_updated_link by simp
  then show ?thesis
    using assms(1,2) unfolding finish_sensing_def Let_def
    by (cases created) (simp_all add: agent_ok_state agent_ok_schedule)
qed

lemma agent_ok_link_sensing:
  assumes "agent_ok X a" and "link_sensing e now msg ri si idx a = Inr a'"
  shows "agent_ok X a'"
proof -
  obtain p created st1 where sl: "sender_link now msg ri si idx (state_ptr a) = (p, created, st1)"
    by (metis prod_cases3)
  let ?T' = "if created then insert (LinkTupleTimer p True) (X \<union> jobs a) else X \<union> jobs a"
  have 1: "state_inv ?T' st1" "created \<longrightarrow> LinkTupleTimer p True \<notin> X"
    using state_inv_sender_link [OF agent_okD(1) [OF assms(1)] sl] by blast+
  then have "state_inv ?T' (sensed t p (heard now msg p st1))" for t
    unfolding sensed_def heard_def by (intro state_inv_set) simp_all
  note inv = agent_ok_finish_sensing [OF assms(1) 1(2) this]
  obtain t updated where
    "a' = finish_sensing e now msg p created updated (sensed t p (heard now msg p st1)) a"
    using link_sensing_parts [OF assms(2) sl] by metis
  then show ?thesis by (metis inv)
qed

lemma agent_ok_populate_nbset:
  "agent_ok X a \<Longrightarrow> agent_ok X (upd_state (populate_nbset msg) a)"
  by (rule agent_ok_upd) (auto simp: populate_nbset_def state_inv_set dest: agent_okD split: option.split)

lemma agent_ok_nb2hop_addr:
  assumes "agent_ok X a"
  shows "agent_ok X (nb2hop_addr_step e now msg nt a iface)"
proof -
  let ?st = "state_ptr a" and ?c = "get_main_addr (state_ptr a) iface"
  let ?t = "\<lparr>n2_nb_main_addr = orig_addr msg, n2_nb2hop_addr = ?c, n2_time = now + emf_to_seconds (vtime msg)\<rparr>"
  note inv = agent_okD(1) [OF assms]
  have "agent_ok X (schedule now d (Nb2hopTupleTimer (pnext (nb2hopset ?st)))
      (a\<lparr>state_ptr := record_nb2hop ?t ?st\<rparr>))"
    if "find_nb2hop_tuple ?st (orig_addr msg) ?c = None" for d
    using state_inv_record(3) [OF inv, of ?t] that state_inv_fresh(3) [OF inv]
    by (intro agent_ok_schedule [OF assms]) auto
  then show ?thesis
    using assms agent_ok_state [OF assms] state_inv_set(3) [OF inv] state_inv_erase(4) [OF inv]
    by (auto simp: nb2hop_addr_step_def Let_def add_nb2hop_tuple_def new_then_insert split_beta
      split: option.split)
qed

lemma agent_ok_populate_nb2hopset:
  assumes "agent_ok X a" and "populate_nb2hopset e now msg a = Inr a'"
  shows "agent_ok X a'"
proof -
  have block: "agent_ok X b'" if "nb2hop_block_step e now msg b m = Inr b'" "agent_ok X b" for b b' m
    using that foldl_invariant [of "agent_ok X" b _ "nb2hop_addr_step e now msg (nb_type m)"]
      agent_ok_nb2hop_addr by (auto simp: nb2hop_block_step_def split: if_splits)
  have link: "agent_ok X b'" if "nb2hop_link_step e now msg b l = Inr b'" "agent_ok X b" for b b' l
    using that foldE_invariant [of "nb2hop_block_step e now msg" _ b b' "agent_ok X"] block
    by (auto simp: nb2hop_link_step_def split: if_splits)
  show ?thesis
    using foldE_invariant [OF assms(2) [unfolded populate_nb2hopset_def], of "agent_ok X"] assms(1) link
    by blast
qed

lemma agent_ok_mprsel_addr:
  assumes "agent_ok X a"
  shows "agent_ok X (mprsel_addr_step e now msg a iface)"
proof -
  let ?st = "state_ptr a"
  let ?t = "\<lparr>ms_main_addr = orig_addr msg, ms_time = now + emf_to_seconds (vtime msg)\<rparr>"
  note inv = agent_okD(1) [OF assms]
  have "agent_ok X (schedule now d (MprSelTupleTimer (pnext (mprselset ?st)))
      (add_mprsel_tuple p (a\<lparr>state_ptr := st1\<rparr>)))"
    if n: "find_mprsel_tuple ?st (orig_addr msg) = None" and new: "new_mprsel ?t ?st = (p, st1)" for d p st1
  proof -
    let ?a = "a\<lparr>ansn_of := ansn_of a + 1\<rparr>"
    have "insert_mprsel_tuple p st1 = record_mprsel ?t ?st" using new by (simp add: record_mprsel_def)
    then have eq: "add_mprsel_tuple p (a\<lparr>state_ptr := st1\<rparr>) = ?a\<lparr>state_ptr := record_mprsel ?t ?st\<rparr>"
      by (simp add: add_mprsel_tuple_def upd_state_def)
    have ok: "agent_ok X ?a" and j: "jobs ?a = jobs a"
      using assms by (simp_all add: agent_ok_def jobs_def)
    show ?thesis
      unfolding eq using state_inv_record(4) [OF inv, of ?t] n state_inv_fresh(4) [OF inv]
      by (intro agent_ok_schedule [OF ok]) (auto simp: j)
  qed
  moreover have "p = pnext (mprselset ?st)" if "new_mprsel ?t ?st = (p, st1)" for p st1
    using that by (auto simp: new_mprsel_def new_obj_def)
  ultimately show ?thesis
    using assms agent_ok_state [OF assms] state_inv_set(5) [OF inv]
    by (auto simp: mprsel_addr_step_def Let_def split: option.split prod.split)
qed

lemma agent_ok_populate_mprselset:
  assumes "agent_ok X a" and "populate_mprselset e now msg a = Inr a'"
  shows "agent_ok X a'"
proof -
  have block: "agent_ok X b'" if "mprsel_block_step e now msg b m = Inr b'" "agent_ok X b" for b b' m
    using that foldl_invariant [of "agent_ok X" b _ "mprsel_addr_step e now msg"]
      agent_ok_mprsel_addr by (auto simp: mprsel_block_step_def split: if_splits)
  show ?thesis
    using assms foldE_invariant [of "mprsel_block_step e now msg" _ a a' "agent_ok X"] block
    by (auto simp: populate_mprselset_def split: if_splits)
qed

lemma mpr_computation_mprset: "mpr_computation e st = Inr st' \<Longrightarrow> \<exists>M. st' = st\<lparr>mprset := M\<rparr>"
  using mpr_computation_result [of e st] by (metis sum.inject(2))

lemma agent_ok_mpr:
  assumes "agent_ok X a" and "mpr_computation_agent e a = Inr a'"
  shows "agent_ok X a'"
proof -
  obtain st where st: "mpr_computation e (state_ptr a) = Inr st" "a' = a\<lparr>state_ptr := st\<rparr>"
    using assms(2) by (auto simp: mpr_computation_agent_def elim!: bindE_InrE)
  then obtain M where "st = (state_ptr a)\<lparr>mprset := M\<rparr>" using mpr_computation_mprset by blast
  then show ?thesis
    using agent_ok_state [OF assms(1)] state_inv_erase(8) [OF agent_okD(1) [OF assms(1)]] st(2) by simp
qed

lemma process_hello_parts:
  assumes "process_hello e now msg ri si idx a = Inr a'"
  obtains a1 a2 a3 where "link_sensing e now msg ri si idx a = Inr a1"
    "populate_nb2hopset e now msg (upd_state (populate_nbset msg) a1) = Inr a2"
    "mpr_computation_agent e a2 = Inr a3" "populate_mprselset e now msg a3 = Inr a'"
  using assms by (auto simp: process_hello_def split: if_splits elim!: bindE_InrE)

lemma agent_ok_process_hello:
  assumes "agent_ok X a" and "process_hello e now msg ri si idx a = Inr a'"
  shows "agent_ok X a'"
  using assms(2)
proof (cases rule: process_hello_parts)
  case (1 a1 a2 a3)
  then show ?thesis
    using agent_ok_link_sensing [OF assms(1)] agent_ok_populate_nbset agent_ok_populate_nb2hopset
      agent_ok_mpr agent_ok_populate_mprselset by metis
qed

subsubsection \<open>TC, MID, forwarding and reception\<close>

lemma agent_ok_tc_addr:
  assumes "agent_ok X b" and "tc_addr_step now msg idx b ia = Inr b'"
  shows "agent_ok X b'"
proof -
  let ?st = "state_ptr b"
  let ?t = "\<lparr>t_dest_addr = snd ia, t_last_addr = orig_addr msg, t_seq = tc_ansn (msg_tc msg),
    t_time = now + emf_to_seconds (vtime msg), t_index = idx\<rparr>"
  note inv = agent_okD(1) [OF assms(1)]
  have new: "agent_ok X (schedule now d (TopologyTupleTimer (pnext (topologyset ?st)))
      (b\<lparr>state_ptr := record_topology ?t ?st\<rparr>))"
    if "find_topology_tuple ?st (snd ia) (orig_addr msg) = None" for d
    using state_inv_record(5) [OF inv, of ?t] that state_inv_fresh(5) [OF inv]
    by (intro agent_ok_schedule [OF assms(1)]) auto
  show ?thesis
  proof (cases "find_topology_tuple ?st (snd ia) (orig_addr msg)")
    case None
    then show ?thesis using assms(2) new
      by (auto simp: tc_addr_step_def Let_def add_topology_tuple_def new_then_insert split_beta
        split: if_splits)
  next
    case (Some p)
    have "state_inv (X \<union> jobs b)
        (set_topology p (\<lambda>t. t\<lparr>t_time := now + emf_to_seconds (vtime msg)\<rparr>) ?st)"
      using inv by (rule state_inv_set) simp
    then show ?thesis using assms(2) Some agent_ok_state [OF assms(1)]
      by (auto simp: tc_addr_step_def Let_def split_beta split: if_splits)
  qed
qed

lemma agent_ok_process_tc:
  assumes "agent_ok X a" and "process_tc now msg si idx a = Inr a'"
  shows "agent_ok X a'"
proof -
  have "agent_ok X (upd_state (erase_older_topology_tuples (orig_addr msg) (tc_ansn (msg_tc msg))) a)"
    using agent_ok_upd [OF assms(1)] state_inv_erase(6) [OF agent_okD(1) [OF assms(1)]] .
  then show ?thesis
    using assms agent_ok_tc_addr foldE_invariant [of "tc_addr_step now msg idx" _ _ a' "agent_ok X"]
    by (auto simp: process_tc_def split: if_splits)
qed

lemma touch_assocs_inv:
  assumes "state_inv T st" and "touch_assocs iface main expiry st = (st', updated)"
  shows "state_inv T st'"
    and "\<not> updated \<Longrightarrow> st' = st \<and> find_ptr (\<lambda>u. ia_key u = (iface, main)) (ifaceassocset st) = None"
proof -
  let ?f = "\<lambda>(st, updated) p.
         if ia_iface_addr (deref (ifaceassocset st) p) = iface \<and>
            ia_main_addr (deref (ifaceassocset st) p) = main
         then (set_ifaceassoc p (\<lambda>t. t\<lparr>ia_time := expiry\<rparr>) st, True) else (st, updated)"
  have step: "state_inv T (fst (?f acc p))" if "state_inv T (fst acc)" for acc p
    using that by (cases acc) (auto simp: state_inv_set)
  have "state_inv T (fst (foldl ?f (st, False) (pvec (ifaceassocset st))))"
    using foldl_invariant [where P = "\<lambda>acc. state_inv T (fst acc)" and f = ?f] step assms(1) by simp
  then show "state_inv T st'" using assms(2) by (simp add: touch_assocs_def)
  have id: "foldl ?f (s, b) ps = (s, False) \<and> (\<forall>p\<in>set ps. \<not> (ia_iface_addr (deref (ifaceassocset s) p) = iface \<and>
      ia_main_addr (deref (ifaceassocset s) p) = main))"
    if "\<not> snd (foldl ?f (s, b) ps)" for s b ps
    using that
  proof (induction ps arbitrary: s b)
    case (Cons p ps)
    have mono: "snd (foldl ?f (s, True) ps)" for s ps
      by (induction ps arbitrary: s) auto
    show ?case using Cons mono by (auto split: if_splits)
  qed simp
  assume "\<not> updated"
  then have "\<not> snd (foldl ?f (st, False) (pvec (ifaceassocset st)))"
    using assms(2) by (simp add: touch_assocs_def)
  from id [OF this] show "st' = st \<and> find_ptr (\<lambda>u. ia_key u = (iface, main)) (ifaceassocset st) = None"
    using assms(2) by (auto simp: touch_assocs_def find_ptr_def find_None_iff ia_key_def)
qed

lemma agent_ok_mid_addr:
  assumes "agent_ok X a"
  shows "agent_ok X (mid_addr_step now msg idx a iface)"
proof -
  let ?x = "now + emf_to_seconds (vtime msg)"
  let ?t = "\<lparr>ia_iface_addr = iface, ia_main_addr = orig_addr msg, ia_time = ?x, ia_index = idx\<rparr>"
  obtain st updated where r: "touch_assocs iface (orig_addr msg) ?x (state_ptr a) = (st, updated)"
    by (cases "touch_assocs iface (orig_addr msg) ?x (state_ptr a)")
  note t = touch_assocs_inv [OF agent_okD(1) [OF assms] r]
  show ?thesis
  proof (cases updated)
    case True
    then show ?thesis using r agent_ok_state [OF assms t(1)] by (simp add: mid_addr_step_def Let_def)
  next
    case False
    note inv = agent_okD(1) [OF assms]
    have "agent_ok X (schedule now d (IfaceAssocTupleTimer (pnext (ifaceassocset (state_ptr a))))
        (a\<lparr>state_ptr := record_ifaceassoc ?t (state_ptr a)\<rparr>))" for d
      using state_inv_record(6) [OF inv, of ?t] t(2) [OF False] state_inv_fresh(6) [OF inv]
      by (intro agent_ok_schedule [OF assms]) (auto simp: ia_key_def)
    then show ?thesis
      using r False t(2) [OF False]
      by (simp add: mid_addr_step_def Let_def add_ifaceassoc_tuple_def new_then_insert split_beta)
  qed
qed

lemma agent_ok_process_mid:
  "agent_ok X a \<Longrightarrow> process_mid now msg si idx a = Inr a' \<Longrightarrow> agent_ok X a'"
  using foldl_invariant [of "agent_ok X" a "mid_iface_addrs (msg_mid msg)" "mid_addr_step now msg idx"]
    agent_ok_mid_addr by (auto simp: process_mid_def split: if_splits)

lemma state_inv_plain [simp]:
  "state_inv (insert HelloTimer T) st = state_inv T st" "state_inv (insert TcTimer T) st = state_inv T st"
  "state_inv (insert MidTimer T) st = state_inv T st"
  "state_inv (insert (MsgTimer n) T) st = state_inv T st"
  by (auto simp: state_inv_def timed_def one_link_timer_def)

lemma agent_ok_enque_msg:
  assumes "agent_ok X a" and "enque_msg now msg d a = Inr a'"
  shows "agent_ok X a'"
proof -
  let ?n = "next_msg_timer a"
  let ?a = "a\<lparr>msgs_of := msgs_of a @ [msg], next_msg_timer := Suc ?n\<rparr>"
  have a': "a' = schedule now d (MsgTimer ?n) ?a" using assms(2) by (auto simp: enque_msg_def split: if_splits)
  have j: "jobs a' = insert (MsgTimer ?n) (jobs a)"
    using assms(1) unfolding a' by (simp add: jobs_schedule agent_ok_def) (simp add: jobs_def)
  have "MsgTimer ?n \<notin> X \<union> jobs a" using assms(1) by (auto simp: agent_ok_def)
  then show ?thesis
    using assms(1) unfolding agent_ok_def j by (auto simp: a' schedule_def less_Suc_eq)
qed

lemma agent_ok_jitter: "agent_ok X (snd (jitter e a)) = agent_ok X a"
  by (simp add: jitter_def agent_ok_def jobs_def)

lemma agent_ok_enque_jittered:
  "agent_ok X a \<Longrightarrow> enque_jittered e now m a = Inr a' \<Longrightarrow> agent_ok X a'"
  using agent_ok_enque_msg [of X "snd (jitter e a)"]
  by (simp add: enque_jittered_def split_beta agent_ok_jitter)

lemma enque_jittered_frame:
  assumes "enque_jittered e now m a = Inr a'"
  shows "state_ptr a' = state_ptr a" "rtable_of a' = rtable_of a" "msgs_of a' = msgs_of a @ [m]"
  using assms by (auto simp: enque_jittered_def enque_msg_def jitter_def schedule_def split: if_splits)

lemma agent_ok_update_dup:
  assumes "agent_ok X a"
    and "dup = None \<Longrightarrow> find_dup_tuple (state_ptr a) (orig_addr msg) (msg_seq_num msg) = None"
  shows "agent_ok X (update_dup now msg dup li rtm a)"
proof -
  note inv = agent_okD(1) [OF assms(1)]
  show ?thesis
  proof (cases dup)
    case None
    let ?t = "\<lparr>d_addr = orig_addr msg, d_seq_num = msg_seq_num msg, d_retransmitted = rtm,
      d_iface_list = [li], d_time = now + OLSR_DUP_HOLD_TIME\<rparr>"
    have "agent_ok X (schedule now d (DupTupleTimer (pnext (dupset (state_ptr a))))
        (a\<lparr>state_ptr := record_dup ?t (state_ptr a)\<rparr>))" for d
      using state_inv_record(1) [OF inv, of ?t] assms(2) [OF None] state_inv_fresh(1) [OF inv]
      by (intro agent_ok_schedule [OF assms(1)]) auto
    then show ?thesis
      by (simp add: update_dup_def None Let_def split_beta add_dup_tuple_def new_then_insert)
  next
    case (Some p)
    then show ?thesis
      using agent_ok_upd [OF assms(1)] state_inv_set(6) [OF inv] by (simp add: update_dup_def d_key_def)
  qed
qed

lemma forward_default_cases:
  assumes "forward_default e now msg dup li src a = Inr a'"
  obtains (ignored) "a' = a"
  | (kept) "find_sym_link_tuple (state_ptr a) src now \<noteq> None" "\<not> was_retransmitted (state_ptr a) dup"
      "\<not> must_retransmit (state_ptr a) msg src" "a' = update_dup now msg dup li False a"
  | (resent) a2 where "find_sym_link_tuple (state_ptr a) src now \<noteq> None"
      "\<not> was_retransmitted (state_ptr a) dup" "must_retransmit (state_ptr a) msg src"
      "enque_jittered e now (msg\<lparr>ttl := ttl msg - 1, hop_count := hop_count msg + 1\<rparr>) a = Inr a2"
      "a' = update_dup now msg dup li True a2"
  using assms by (auto simp: forward_default_def Let_def split: if_splits elim!: bindE_InrE)

lemma agent_ok_forward:
  assumes "agent_ok X a" and "forward_default e now msg dup li src a = Inr a'"
    and "dup = None \<Longrightarrow> find_dup_tuple (state_ptr a) (orig_addr msg) (msg_seq_num msg) = None"
  shows "agent_ok X a'"
  using assms(2)
proof (cases rule: forward_default_cases)
  case ignored
  then show ?thesis using assms(1) by simp
next
  case kept
  then show ?thesis using agent_ok_update_dup [OF assms(1,3)] by simp
next
  case (resent a2)
  have "agent_ok X a2" "state_ptr a2 = state_ptr a"
    using agent_ok_enque_jittered [OF assms(1)] enque_jittered_frame resent(4) by blast+
  then show ?thesis using agent_ok_update_dup [of X a2 dup msg] assms(3) resent(5) by simp
qed

lemma computeDistributionPath_frame:
  "computeDistributionPath e x a = Inr a' \<Longrightarrow> \<exists>dp. a' = a\<lparr>distributionPath := dp\<rparr>"
proof -
  assume "computeDistributionPath e x a = Inr a'"
  then obtain r where "a' = (case r of None \<Rightarrow> a
      | Some rte \<Rightarrow> a\<lparr>distributionPath := (distributionPath a)(x \<mapsto> rte)\<rparr>)"
    by (auto simp: computeDistributionPath_def elim!: bindE_InrE)
  then have "a' = a\<lparr>distributionPath := (case r of None \<Rightarrow> distributionPath a
      | Some rte \<Rightarrow> (distributionPath a)(x \<mapsto> rte))\<rparr>" by (cases r) simp_all
  then show ?thesis by blast
qed

lemma rtable_computation_frame:
  assumes "rtable_computation e now a = Inr a'"
  shows "\<exists>rt cmds dp. a' = a\<lparr>rtable_of := rt, route_log := cmds, topologyChange := False,
      distributionPath := dp\<rparr> \<and> rt_build e now a = Inr (rt, cmds)"
proof -
  obtain rt cmds where b: "rt_build e now a = Inr (rt, cmds)"
    and c: "computeDistributionPath e (ra_addr e)
      (a\<lparr>rtable_of := rt, route_log := cmds, topologyChange := False\<rparr>) = Inr a'"
    using assms by (auto simp: rtable_computation_def elim!: bindE_InrE)
  from computeDistributionPath_frame [OF c] b show ?thesis by auto
qed

lemma agent_ok_rtable_computation:
  assumes "agent_ok X a" and "rtable_computation e now a = Inr a'"
  shows "agent_ok X a'"
proof -
  obtain rt cmds dp where "a' = a\<lparr>rtable_of := rt, route_log := cmds, topologyChange := False,
      distributionPath := dp\<rparr>" "rt_build e now a = Inr (rt, cmds)"
    using rtable_computation_frame [OF assms(2)] by blast
  then show ?thesis
    using assms(1) rt_build_inv [of e now a "(rt, cmds)"]
    by (simp add: agent_ok_def rt_inv_def jobs_def)
qed

text \<open>What processing a message does to the duplicate set: nothing.\<close>

lemma dupset_frame:
  "dupset (put_nb t st) = dupset st" "dupset (record_link tk st) = dupset st"
  "dupset (record_topology tt st) = dupset st" "dupset (record_ifaceassoc ti st) = dupset st"
  "dupset (set_topology p f3 st) = dupset st" "dupset (set_ifaceassoc p f6 st) = dupset st"
  "dupset (erase_older_topology_tuples x n st) = dupset st"
  by (simp_all add: record_frame olsr_set_defs erase_older_topology_tuples_def)

lemma process_tc_dupset:
  assumes "process_tc now msg si idx a = Inr a'"
  shows "dupset (state_ptr a') = dupset (state_ptr a)"
proof -
  have step: "dupset (state_ptr b') = dupset (state_ptr b)"
    if "tc_addr_step now msg idx b ia = Inr b'" for b b' ia
    using that by (auto simp: tc_addr_step_def Let_def split_beta add_topology_tuple_def new_then_insert
      dupset_frame schedule_def split: if_splits option.splits)
  show ?thesis
    using assms step foldE_invariant [of "tc_addr_step now msg idx" _ _ a'
        "\<lambda>b. dupset (state_ptr b) = dupset (state_ptr a)"]
    by (auto simp: process_tc_def upd_state_def dupset_frame split: if_splits)
qed

lemma process_mid_dupset:
  assumes "process_mid now msg si idx a = Inr a'"
  shows "dupset (state_ptr a') = dupset (state_ptr a)"
proof -
  have touch: "dupset (fst (touch_assocs i m x st)) = dupset st" for i m x st
    unfolding touch_assocs_def
    by (rule foldl_invariant [where P = "\<lambda>acc. dupset (fst acc) = dupset st"])
      (auto simp: dupset_frame split: if_splits)
  have step: "dupset (state_ptr (mid_addr_step now msg idx b i)) = dupset (state_ptr b)" for b i
    using touch by (auto simp: mid_addr_step_def Let_def split_beta add_ifaceassoc_tuple_def
      new_then_insert dupset_frame schedule_def)
  show ?thesis
    using assms step foldl_invariant [of "\<lambda>b. dupset (state_ptr b) = dupset (state_ptr a)" a _
        "mid_addr_step now msg idx"]
    by (auto simp: process_mid_def split: if_splits)
qed

lemma find_dup_cong: "dupset st = dupset st' \<Longrightarrow> find_dup_tuple st x n = find_dup_tuple st' x n"
  by (simp add: find_dup_tuple_def)

lemma agent_ok_process_msg:
  assumes "agent_ok X a" and "process_msg e now msg ri src idx a = Inr a'"
  shows "agent_ok X a'"
  using assms unfolding process_msg_def
  by (auto split: if_splits intro: agent_ok_process_hello [OF assms(1)] agent_ok_process_tc [OF assms(1)]
    agent_ok_process_mid [OF assms(1)])

lemma process_msg_dupset:
  assumes "process_msg e now msg ri src idx a = Inr a'" and "msg_type msg \<noteq> OLSR_HELLO_MSG"
  shows "dupset (state_ptr a') = dupset (state_ptr a)"
  using assms unfolding process_msg_def
  by (auto split: if_splits intro: process_tc_dupset process_mid_dupset)

lemma recv_msg_cases:
  assumes "recv_msg e now ri src idx a msg = Inr a'"
  obtains (dropped) "a' = a"
  | (new) a1 where "find_dup_tuple (state_ptr a) (orig_addr msg) (msg_seq_num msg) = None"
      "process_msg e now msg ri src idx a = Inr a1"
      "a' = a1 \<and> msg_type msg = OLSR_HELLO_MSG \<or>
       forward_default e now msg None ri src a1 = Inr a' \<and> msg_type msg \<noteq> OLSR_HELLO_MSG"
  | (again) p where "find_dup_tuple (state_ptr a) (orig_addr msg) (msg_seq_num msg) = Some p"
      "forward_default e now msg (Some p) ri src a = Inr a'"
proof (cases "ttl msg = 0 \<or> is_local_address e (orig_addr msg)")
  case True
  then show ?thesis using assms dropped by (simp add: recv_msg_def)
next
  case False
  show ?thesis
  proof (cases "find_dup_tuple (state_ptr a) (orig_addr msg) (msg_seq_num msg)")
    case None
    then obtain a1 where a1: "process_msg e now msg ri src idx a = Inr a1"
      and f: "(if msg_type msg \<noteq> OLSR_HELLO_MSG then forward_default e now msg None ri src a1
        else Inr a1) = Inr a'"
      using assms False by (simp add: recv_msg_def bindE_Inr_iff) blast
    show ?thesis by (rule new [OF None a1]) (use f in \<open>simp split: if_splits\<close>)
  next
    case (Some p)
    then have f: "(if ri \<notin> set (d_iface_list (deref (dupset (state_ptr a)) p)) \<and>
        msg_type msg \<noteq> OLSR_HELLO_MSG then forward_default e now msg (Some p) ri src a else Inr a) = Inr a'"
      using assms False by (simp add: recv_msg_def)
    show ?thesis
    proof (cases "forward_default e now msg (Some p) ri src a = Inr a'")
      case True
      then show ?thesis by (rule again [OF Some])
    next
      case False
      then have "a' = a" using f by (metis sum.inject(2))
      then show ?thesis by (rule dropped)
    qed
  qed
qed

lemma agent_ok_recv_msg:
  assumes "agent_ok X a" and "recv_msg e now ri src idx a msg = Inr a'"
  shows "agent_ok X a'"
  using assms(2)
proof (cases rule: recv_msg_cases)
  case dropped
  then show ?thesis using assms(1) by simp
next
  case (new a1)
  have ok: "agent_ok X a1" using agent_ok_process_msg [OF assms(1) new(2)] .
  from new(3) show ?thesis
  proof (elim disjE conjE)
    assume f: "forward_default e now msg None ri src a1 = Inr a'" and t: "msg_type msg \<noteq> OLSR_HELLO_MSG"
    have "find_dup_tuple (state_ptr a1) (orig_addr msg) (msg_seq_num msg) = None"
      using find_dup_cong [OF process_msg_dupset [OF new(2) t]] new(1) by simp
    then show ?thesis using agent_ok_forward [OF ok f] by blast
  qed (use ok in simp)
next
  case (again p)
  show ?thesis using agent_ok_forward [OF assms(1) again(2)] by simp
qed

lemma recv_olsr_cases:
  assumes "recv_olsr e now m a = Inr a'"
  obtains (ignored) "a' = a"
  | (processed) op src idx a1 where "check_packet e m = Some (op, src, idx)"
      "foldE (recv_msg e now (getIfaceAddressFromIndex e idx) src idx) (pkt_msgs op) a = Inr a1"
      "rtable_computation e now a1 = Inr a'"
  using assms by (auto simp: recv_olsr_def split: if_splits option.splits elim!: bindE_InrE)

lemma agent_ok_recv_olsr:
  assumes "agent_ok X a" and "recv_olsr e now m a = Inr a'"
  shows "agent_ok X a'"
  using assms(2)
proof (cases rule: recv_olsr_cases)
  case ignored
  then show ?thesis using assms(1) by simp
next
  case (processed op src idx a1)
  have "agent_ok X a1"
    using foldE_invariant [OF processed(2), of "agent_ok X"] assms(1) agent_ok_recv_msg by blast
  then show ?thesis using agent_ok_rtable_computation processed(3) by blast
qed

lemma agent_ok_nb_loss:
  assumes "agent_ok X a" and "nb_loss e now p a = Inr a'"
  shows "agent_ok X a'"
proof -
  let ?st1 = "updated_link_tuple e now p OLSR_WILL_DEFAULT (state_ptr a)"
  let ?main = "get_main_addr ?st1 (l_nb_iface_addr (deref (linkset ?st1) p))"
  let ?st3 = "fst (erase_mprsel_tuples ?main (fst (erase_nb2hop_tuples ?main ?st1)))"
  have "state_inv (X \<union> jobs a) ?st3"
    using agent_okD(1) [OF assms(1)] by (intro state_inv_erase state_inv_updated_link)
  then have ok: "agent_ok X (a\<lparr>state_ptr := ?st3\<rparr>)" by (rule agent_ok_state [OF assms(1)])
  obtain a2 where a2: "mpr_computation_agent e (a\<lparr>state_ptr := ?st3\<rparr>) = Inr a2"
    "rtable_computation e now a2 = Inr a'"
    using assms(2) by (auto simp: nb_loss_def Let_def elim!: bindE_InrE)
  show ?thesis using agent_ok_rtable_computation [OF agent_ok_mpr [OF ok a2(1)] a2(2)] .
qed

lemma agent_ok_mac_failed:
  assumes "agent_ok X a" and "mac_failed e now dest a = Inr a'"
  shows "agent_ok X a'"
proof -
  have log: "agent_ok X (b\<lparr>route_log := l\<rparr>) = agent_ok X b" for b l
    by (simp add: agent_ok_def jobs_def)
  have upd: "agent_ok X (upd_state (set_link p (\<lambda>t. t\<lparr>l_lost_time := x, l_time := y\<rparr>)) a)" for p x y
    using agent_okD(1) [OF assms(1)] by (intro agent_ok_upd [OF assms(1)] state_inv_set(1)) simp_all
  show ?thesis
    using assms agent_ok_nb_loss [OF upd]
    by (auto simp: mac_failed_def log split: if_splits option.splits elim!: bindE_InrE)
qed

end
