(* ===== verification/Olsr_Life.thy ===== *)
theory Olsr_Life
  imports Olsr_Invariants
begin

text \<open>
  The invariant through the life of the agent: sending, the expiry of each timer, the loop over the
  due timers (which ends, because every expiry lowers a weight of the queue), the messages of the
  module, start and stop.
\<close>

subsection \<open>Sending\<close>

lemma send_one_pkt_frame [simp]:
  "state_ptr (send_one_pkt e a) = state_ptr a" "rtable_of (send_one_pkt e a) = rtable_of a"
  "timerQueue (send_one_pkt e a) = timerQueue a" "next_msg_timer (send_one_pkt e a) = next_msg_timer a"
  "msgs_of (send_one_pkt e a) = drop OLSR_MAX_MSGS (msgs_of a)"
  "timerMessage (send_one_pkt e a) = timerMessage a"
  by (simp_all add: send_one_pkt_def next_pkt_seq_def Let_def)

lemma send_pkts_frame [simp]:
  "state_ptr (send_pkts e n a) = state_ptr a" "rtable_of (send_pkts e n a) = rtable_of a"
  "timerQueue (send_pkts e n a) = timerQueue a" "next_msg_timer (send_pkts e n a) = next_msg_timer a"
  "msgs_of (send_pkts e n a) = drop (n * OLSR_MAX_MSGS) (msgs_of a)"
  "timerMessage (send_pkts e n a) = timerMessage a"
  by (induction n arbitrary: a) (simp_all add: add.commute)

text \<open>The packets of one call: what \<open>n\<close> turns of the loop append to \<open>sent\<close>.\<close>

lemma send_pkts_sent:
  "\<exists>ps. sent (send_pkts e n a) = sent a @ ps \<and> length ps = n \<and>
     concat (map pkt_msgs ps) = take (n * OLSR_MAX_MSGS) (msgs_of a) \<and>
     (\<forall>p\<in>set ps. length (pkt_msgs p) \<le> OLSR_MAX_MSGS) \<and>
     map pkt_seq_num ps = map (\<lambda>i. pkt_seq_of a + of_nat (Suc i)) [0..<n] \<and>
     pkt_seq_of (send_pkts e n a) = pkt_seq_of a + of_nat n"
proof (induction n arbitrary: a)
  case (Suc n)
  obtain p where p: "sent (send_one_pkt e a) = sent a @ [p]" "pkt_msgs p = take OLSR_MAX_MSGS (msgs_of a)"
    "pkt_seq_num p = pkt_seq_of a + 1" "pkt_seq_of (send_one_pkt e a) = pkt_seq_of a + 1"
    by (simp add: send_one_pkt_def next_pkt_seq_def Let_def)
  obtain ps where ps: "sent (send_pkts e n (send_one_pkt e a)) = sent (send_one_pkt e a) @ ps"
    "length ps = n" "concat (map pkt_msgs ps) = take (n * OLSR_MAX_MSGS) (msgs_of (send_one_pkt e a))"
    "\<forall>p\<in>set ps. length (pkt_msgs p) \<le> OLSR_MAX_MSGS"
    "map pkt_seq_num ps = map (\<lambda>i. pkt_seq_of (send_one_pkt e a) + of_nat (Suc i)) [0..<n]"
    "pkt_seq_of (send_pkts e n (send_one_pkt e a)) = pkt_seq_of (send_one_pkt e a) + of_nat n"
    using Suc.IH [of "send_one_pkt e a"] by blast
  have "concat (map pkt_msgs (p # ps)) = take (Suc n * OLSR_MAX_MSGS) (msgs_of a)"
    using ps(3) p(2) by (simp add: take_add)
  moreover have "map pkt_seq_num (p # ps) = map (\<lambda>i. pkt_seq_of a + of_nat (Suc i)) [0..<Suc n]"
    using ps(5) p(3,4) by (simp add: upt_conv_Cons [of 0] map_Suc_upt [symmetric] o_def add_ac
      del: upt_Suc)
  ultimately show ?case
    using ps p by (intro exI [of _ "p # ps"]) (auto simp: add_ac)
qed simp

lemma send_pkt_turns:
  "send_pkt e a = (if msgs_of a = [] then a
     else send_pkts e ((length (msgs_of a) + 3) div 4) a)"
proof -
  have "(if n mod 4 = 0 then n div 4 else n div 4 + 1) = (n + 3) div 4" if "n \<noteq> 0" for n :: nat
    using that by presburger
  from this [of "length (msgs_of a)"] show ?thesis
    by (cases "msgs_of a = []")
      (simp_all only: send_pkt_def Let_def OLSR_MAX_MSGS_def length_0_conv if_True if_False
        not_False_eq_True list.size simp_thms)
qed

lemma send_pkt_frame [simp]:
  "state_ptr (send_pkt e a) = state_ptr a" "rtable_of (send_pkt e a) = rtable_of a"
  "timerQueue (send_pkt e a) = timerQueue a" "next_msg_timer (send_pkt e a) = next_msg_timer a"
  "msgs_of (send_pkt e a) = []" "timerMessage (send_pkt e a) = timerMessage a"
  by (simp_all add: send_pkt_turns OLSR_MAX_MSGS_def)

lemma next_msg_seq_frame [simp]:
  "agent_ok X (snd (next_msg_seq a)) = agent_ok X a"
  "timerQueue (snd (next_msg_seq a)) = timerQueue a" "state_ptr (snd (next_msg_seq a)) = state_ptr a"
  by (simp_all add: next_msg_seq_def agent_ok_def jobs_def)

text \<open>Each of the three messages is one buffered message.\<close>

lemma send_hello_enque:
  "send_hello e now a = Inr a' \<Longrightarrow> \<exists>m. enque_jittered e now m (snd (next_msg_seq a)) = Inr a'"
  by (auto simp: send_hello_def split_beta elim!: bindE_InrE)

lemma send_tc_enque:
  "send_tc e now a = Inr a' \<Longrightarrow> \<exists>m. enque_jittered e now m (snd (next_msg_seq a)) = Inr a'"
  by (auto simp: send_tc_def split_beta Let_def split: if_splits)

lemma send_mid_enque:
  "send_mid e now a = Inr a' \<Longrightarrow>
     a' = a \<or> (\<exists>m. enque_jittered e now m (snd (next_msg_seq a)) = Inr a')"
  by (auto simp: send_mid_def split_beta Let_def split: if_splits)

lemma agent_ok_sends:
  assumes "agent_ok X a"
  shows "send_hello e now a = Inr a' \<Longrightarrow> agent_ok X a'"
    and "send_tc e now a = Inr a' \<Longrightarrow> agent_ok X a'"
    and "send_mid e now a = Inr a' \<Longrightarrow> agent_ok X a'"
  using assms agent_ok_enque_jittered [of X "snd (next_msg_seq a)"] next_msg_seq_frame(1) [of X a]
  by (blast dest: send_hello_enque send_tc_enque send_mid_enque)+

subsection \<open>Expiry\<close>

text \<open>A timer leaves the queue to expire, and goes back into it.\<close>

lemma agent_ok_pop:
  assumes "agent_ok {} a" and "timerQueue a = (x, t) # q"
  shows "agent_ok {t} (a\<lparr>timerQueue := q\<rparr>)"
  using assms by (auto simp: agent_ok_def jobs_def tq_ok_def insert_commute)

lemma jobs_put_timer: "jobs (put_timer x t a) = insert t (jobs a)"
  by (simp add: put_timer_def jobs_def)

lemma agent_ok_put_timer:
  assumes "agent_ok {t} a"
  shows "agent_ok {} (put_timer x t a)"
proof -
  have "t \<notin> snd ` set (timerQueue a)" using assms by (simp add: agent_ok_def jobs_def)
  then have "tq_ok (tq_insert x t (timerQueue a))"
    using assms tq.wf_put [of "timerQueue a" t x] by (simp add: agent_ok_def)
  then show ?thesis
    using assms unfolding agent_ok_def jobs_put_timer by (simp add: put_timer_def)
qed

text \<open>The link timer changes its flag between the two.\<close>

lemma agent_ok_put_link_timer:
  assumes "agent_ok {LinkTupleTimer p b} a"
  shows "agent_ok {} (put_timer x (LinkTupleTimer p b') a)"
proof -
  have one: "one_link_timer (insert (LinkTupleTimer p b) (jobs a))" and
    out: "LinkTupleTimer p b \<notin> jobs a"
    using assms by (simp_all add: agent_ok_def state_inv_def timed_def)
  then have no: "LinkTupleTimer p c \<notin> jobs a" for c
    by (cases b; cases c) (auto simp: one_link_timer_def)
  then have "one_link_timer (insert (LinkTupleTimer p b') (jobs a))"
    using one by (auto simp: one_link_timer_def)
  then have "state_inv (insert (LinkTupleTimer p b') (jobs a)) (state_ptr a)"
    using assms by (simp add: agent_ok_def state_inv_def timed_def)
  then have "agent_ok {LinkTupleTimer p b'} a"
    using assms no by (simp add: agent_ok_def)
  then show ?thesis by (rule agent_ok_put_timer)
qed

lemma delete_timer_absent:
  "t \<notin> jobs a \<Longrightarrow> delete_timer t a = destroy_timer t a"
  by (simp add: delete_timer_def jobs_def removeQueueTimer_absent)

text \<open>Destroying a timer that is out of the queue.\<close>

definition tuple_timer :: "timer \<Rightarrow> bool" where
  "tuple_timer t \<longleftrightarrow> (\<forall>n. t \<noteq> MsgTimer n) \<and> t \<notin> {HelloTimer, TcTimer, MidTimer}"

lemma state_inv_destroy:
  assumes "state_inv (insert t T) (state_ptr a)" and "t \<notin> T"
  shows "state_inv T (state_ptr (destroy_timer t a))"
  using assms
  by (cases t) (auto simp: upd_state_def olsr_add_rm_defs rm_mprsel_tuple_def
    intro!: state_inv_drop state_inv_drop_link)

lemma agent_ok_destroy:
  assumes "agent_ok {t} a" and "tuple_timer t"
  shows "agent_ok {} (destroy_timer t a)"
proof -
  have out: "t \<notin> jobs a" and inv: "state_inv (insert t (jobs a)) (state_ptr a)"
    using assms(1) by (simp_all add: agent_ok_def)
  have state: "state_inv (jobs a) (state_ptr (destroy_timer t a))"
    using state_inv_destroy [OF inv out] .
  have frame: "jobs (destroy_timer t a) = jobs a" "rtable_of (destroy_timer t a) = rtable_of a"
    "next_msg_timer (destroy_timer t a) = next_msg_timer a" "msgs_of (destroy_timer t a) = msgs_of a"
    by (cases t; simp add: jobs_def upd_state_def rm_mprsel_tuple_def)+
  show ?thesis
    using assms state unfolding agent_ok_def frame timerQueue_destroy
    by (auto simp: tuple_timer_def)
qed

lemma agent_ok_expire_tuple:
  assumes "agent_ok {t} a" and "tuple_timer t"
  shows "agent_ok {} (expire_tuple now time t a)"
proof (cases "time < now")
  case True
  have "t \<notin> jobs a" using assms(1) by (simp add: agent_ok_def)
  then show ?thesis
    using True agent_ok_destroy [OF assms] by (simp add: expire_tuple_def delete_timer_absent)
qed (use agent_ok_put_timer [OF assms(1)] in \<open>simp add: expire_tuple_def\<close>)

lemma agent_ok_put_periodic:
  "agent_ok {t} a \<Longrightarrow> agent_ok {} (put_periodic e now ival t a)"
  by (simp add: put_periodic_def split_beta agent_ok_put_timer agent_ok_jitter)

lemma agent_ok_expire:
  assumes "agent_ok {t} a" and "expire e now t a = Inr a'"
  shows "agent_ok {} a'"
proof (cases t)
  case HelloTimer
  then show ?thesis
    using assms agent_ok_sends(1) agent_ok_put_periodic by (auto elim!: bindE_InrE)
next
  case TcTimer
  then show ?thesis
    using assms agent_ok_sends(2) agent_ok_put_periodic by (auto split: if_splits elim!: bindE_InrE)
next
  case MidTimer
  show ?thesis
  proof (cases "in_mac_layer e")
    case True
    then show ?thesis using assms MidTimer by (auto simp: agent_ok_def)
  next
    case False
    then show ?thesis
      using assms MidTimer agent_ok_sends(3) agent_ok_put_periodic by (auto elim!: bindE_InrE)
  qed
next
  case (MsgTimer n)
  have out: "MsgTimer n \<notin> jobs (send_pkt e a)" using assms(1) MsgTimer by (simp add: agent_ok_def jobs_def)
  then have "a' = send_pkt e a" using assms(2) MsgTimer by (simp add: delete_timer_absent)
  then show ?thesis using assms(1) MsgTimer by (auto simp: agent_ok_def jobs_def)
next
  case (DupTupleTimer p)
  then show ?thesis using assms agent_ok_expire_tuple by (auto simp: tuple_timer_def)
next
  case (Nb2hopTupleTimer p)
  then show ?thesis using assms agent_ok_expire_tuple by (auto simp: tuple_timer_def)
next
  case (MprSelTupleTimer p)
  then show ?thesis using assms agent_ok_expire_tuple by (auto simp: tuple_timer_def)
next
  case (TopologyTupleTimer p)
  then show ?thesis using assms agent_ok_expire_tuple by (auto simp: tuple_timer_def)
next
  case (IfaceAssocTupleTimer p)
  then show ?thesis using assms agent_ok_expire_tuple by (auto simp: tuple_timer_def)
next
  case (LinkTupleTimer p b)
  let ?t = "deref (linkset (state_ptr a)) p"
  consider (gone) "l_time ?t < now" | (lost) "\<not> l_time ?t < now" "l_sym_time ?t < now"
    | (alive) "\<not> l_time ?t < now" "\<not> l_sym_time ?t < now" by blast
  then show ?thesis
  proof cases
    case gone
    have "LinkTupleTimer p b \<notin> jobs a" using assms(1) LinkTupleTimer by (simp add: agent_ok_def)
    then show ?thesis
      using assms gone LinkTupleTimer agent_ok_destroy [of "LinkTupleTimer p b" a]
      by (auto simp: Let_def delete_timer_absent tuple_timer_def)
  next
    case lost
    then obtain a1 x where "(if b then Inr a else nb_loss e now p a) = Inr a1"
      "a' = put_timer x (LinkTupleTimer p False) a1"
      using assms(2) LinkTupleTimer by (auto simp: Let_def elim!: bindE_InrE)
    moreover from this have "agent_ok {LinkTupleTimer p b} a1"
      using assms(1) LinkTupleTimer agent_ok_nb_loss by (auto split: if_splits)
    ultimately show ?thesis using agent_ok_put_link_timer by blast
  next
    case alive
    then show ?thesis
      using assms LinkTupleTimer agent_ok_put_timer by (auto simp: Let_def)
  qed
qed

end
