(* ===== verification/Olsr_Loop.thy ===== *)
theory Olsr_Loop
  imports Olsr_Life
begin

text \<open>
  The loop over the due timers ends.  A due timer weighs two, the timer of a buffered message one; a
  timer that expires either leaves the queue or goes back with an appointment after the current
  time, and at most one message timer is put in, so each turn lowers the weight of the queue.  This
  holds for parameters for which the next appointment of a periodic timer lies in the future.
\<close>

definition env_ok :: "olsr_env \<Rightarrow> bool" where
  "env_ok e \<longleftrightarrow> 0 < hello_ival e \<and> hello_ival e \<le> 4 * tc_ival e \<and> hello_ival e \<le> 4 * mid_ival e \<and>
     (\<forall>n. 0 \<le> rnd e n \<and> rnd e n < 1)"

lemma jitter_range:
  assumes "env_ok e" and "jitter e a = (j, a')"
  shows "0 \<le> j" "j < hello_ival e / 4"
proof -
  let ?r = "rnd e (rnd_pos a)" and ?m = "hello_ival e / 4"
  have j: "j = ?r * ?m" and r: "0 \<le> ?r" "?r < 1" and m: "0 < ?m"
    using assms by (simp_all add: env_ok_def jitter_def OLSR_MAXJITTER_def)
  show "0 \<le> j" using r(1) m unfolding j by simp
  show "j < ?m" using mult_strict_right_mono [OF r(2) m] unfolding j by simp
qed

subsection \<open>The weight of a queue\<close>

fun cost :: "timer \<Rightarrow> nat" where
  "cost (MsgTimer n) = 1"
| "cost HelloTimer = 2"
| "cost TcTimer = 2"
| "cost MidTimer = 2"
| "cost (DupTupleTimer p) = 2"
| "cost (LinkTupleTimer p b) = 2"
| "cost (Nb2hopTupleTimer p) = 2"
| "cost (MprSelTupleTimer p) = 2"
| "cost (TopologyTupleTimer p) = 2"
| "cost (IfaceAssocTupleTimer p) = 2"

definition due_cost :: "simtime \<Rightarrow> simtime \<times> timer \<Rightarrow> nat" where
  "due_cost now p = (if fst p \<le> now then cost (snd p) else 0)"

definition weight :: "simtime \<Rightarrow> timer_queue \<Rightarrow> nat" where
  "weight now q = sum_list (map (due_cost now) q)"

lemma cost_bounds: "1 \<le> cost t" "cost t \<le> 2" "\<forall>n. t \<noteq> MsgTimer n \<Longrightarrow> cost t = 2"
  by (cases t; simp)+

lemma due_cost_simps [simp]:
  "now < x \<Longrightarrow> due_cost now (x, t) = 0" "x \<le> now \<Longrightarrow> due_cost now (x, t) = cost t"
  by (simp_all add: due_cost_def)

lemma weight_Cons [simp]: "weight now (p # q) = due_cost now p + weight now q"
  by (simp add: weight_def)

lemma weight_insert [simp]: "weight now (tq_insert x t q) = due_cost now (x, t) + weight now q"
  by (induction x t q rule: tq_insert.induct) simp_all

lemma weight_remove: "weight now (removeQueueTimer t q) \<le> weight now q"
  by (induction t q rule: removeQueueTimer.induct) simp_all

lemma weight_resched: "weight now (resched now' d t q) \<le> due_cost now (now' + d, t) + weight now q"
  using weight_remove by (simp add: resched_def)

subsection \<open>Each expiry lowers it\<close>

lemma weight_enque:
  assumes "enque_jittered e now m a = Inr a'"
  shows "weight now (timerQueue a') \<le> 1 + weight now (timerQueue a)"
proof -
  obtain d n where a': "timerQueue a' = resched now d (MsgTimer n) (timerQueue a)"
    using assms by (auto simp: enque_jittered_def enque_msg_def jitter_def schedule_def split: if_splits)
  have "due_cost now (now + d, MsgTimer n) \<le> 1" by (simp add: due_cost_def)
  then show ?thesis
    using weight_resched [of now now d "MsgTimer n" "timerQueue a"] unfolding a' by linarith
qed

lemma weight_sends:
  "send_hello e now a = Inr a' \<Longrightarrow> weight now (timerQueue a') \<le> 1 + weight now (timerQueue a)"
  "send_tc e now a = Inr a' \<Longrightarrow> weight now (timerQueue a') \<le> 1 + weight now (timerQueue a)"
  "send_mid e now a = Inr a' \<Longrightarrow> weight now (timerQueue a') \<le> 1 + weight now (timerQueue a)"
  using weight_enque [of e now _ "snd (next_msg_seq a)" a']
  by (auto dest!: send_hello_enque send_tc_enque send_mid_enque)

lemma weight_put_periodic:
  assumes "env_ok e" and "hello_ival e \<le> 4 * ival"
  shows "weight now (timerQueue (put_periodic e now ival t a)) = weight now (timerQueue a)"
proof -
  obtain j a1 where j: "jitter e a = (j, a1)" by force
  have "j < ival" "timerQueue a1 = timerQueue a"
    using jitter_range [OF assms(1) j] assms(2) j by (auto simp: jitter_def)
  then show ?thesis using j by (simp add: put_periodic_def put_timer_def)
qed

lemma nb_loss_frame:
  assumes "nb_loss e now p a = Inr a'"
  shows "timerQueue a' = timerQueue a" "timerMessage a' = timerMessage a" "msgs_of a' = msgs_of a"
    "sent a' = sent a"
  using assms by (auto simp: nb_loss_def Let_def mpr_computation_agent_def
    dest!: rtable_computation_frame elim!: bindE_InrE)

lemma weight_delete_timer: "weight now (timerQueue (delete_timer t a)) \<le> weight now (timerQueue a)"
  by (simp add: delete_timer_def weight_remove)

lemma weight_expire_tuple:
  "weight now (timerQueue (expire_tuple now time t a)) \<le> weight now (timerQueue a)"
  by (simp add: expire_tuple_def weight_delete_timer put_timer_def DELAY_pos)

lemma expire_weight:
  assumes "env_ok e" and "expire e now t a = Inr a'"
  shows "weight now (timerQueue a') < cost t + weight now (timerQueue a)"
proof (cases t)
  case HelloTimer
  then show ?thesis
    using assms weight_put_periodic [OF assms(1), of "hello_ival e"]
    by (auto dest!: weight_sends(1) simp: env_ok_def elim!: bindE_InrE)
next
  case TcTimer
  then show ?thesis
    using assms weight_put_periodic [OF assms(1), of "tc_ival e"]
    by (auto dest!: weight_sends(2) simp: env_ok_def split: if_splits elim!: bindE_InrE)
next
  case MidTimer
  show ?thesis
  proof (cases "in_mac_layer e")
    case True
    then show ?thesis using assms(2) MidTimer by auto
  next
    case False
    then show ?thesis
      using assms MidTimer weight_put_periodic [OF assms(1), of "mid_ival e"]
      by (auto dest!: weight_sends(3) simp: env_ok_def elim!: bindE_InrE)
  qed
next
  case (MsgTimer n)
  then show ?thesis
    using assms(2) weight_delete_timer [of now "MsgTimer n" "send_pkt e a"] by auto
next
  case (LinkTupleTimer p b)
  let ?t = "deref (linkset (state_ptr a)) p"
  consider (gone) "l_time ?t < now" | (lost) "\<not> l_time ?t < now" "l_sym_time ?t < now"
    | (alive) "\<not> l_time ?t < now" "\<not> l_sym_time ?t < now" by blast
  then have "weight now (timerQueue a') \<le> weight now (timerQueue a)"
  proof cases
    case gone
    then show ?thesis using assms(2) LinkTupleTimer weight_delete_timer by (auto simp: Let_def)
  next
    case lost
    then obtain a1 x where "(if b then Inr a else nb_loss e now p a) = Inr a1"
      "a' = put_timer (now + DELAY now x) (LinkTupleTimer p False) a1"
      using assms(2) LinkTupleTimer by (auto simp: Let_def elim!: bindE_InrE)
    then show ?thesis
      using nb_loss_frame(1) [of e now p a a1] by (auto simp: put_timer_def DELAY_pos split: if_splits)
  next
    case alive
    then show ?thesis using assms(2) LinkTupleTimer by (auto simp: Let_def put_timer_def DELAY_pos)
  qed
  then show ?thesis using LinkTupleTimer by simp
qed (use assms(2) in \<open>auto intro!: le_imp_less_Suc le_SucI weight_expire_tuple\<close>)

subsection \<open>The loop returns\<close>

lemma enque_message:
  "enque_jittered e now m a = Inr a' \<Longrightarrow> timerMessage a' = timerMessage a"
  by (auto simp: enque_jittered_def enque_msg_def jitter_def schedule_def split: if_splits)

lemma sends_message:
  "send_hello e now a = Inr a' \<Longrightarrow> timerMessage a' = timerMessage a"
  "send_tc e now a = Inr a' \<Longrightarrow> timerMessage a' = timerMessage a"
  "send_mid e now a = Inr a' \<Longrightarrow> timerMessage a' = timerMessage a"
  using enque_message [of e now _ "snd (next_msg_seq a)" a']
  by (auto dest!: send_hello_enque send_tc_enque send_mid_enque simp: next_msg_seq_def)

lemma timers_message [simp]:
  "timerMessage (destroy_timer t a) = timerMessage a" "timerMessage (delete_timer t a) = timerMessage a"
  "timerMessage (put_timer x t a) = timerMessage a"
  "timerMessage (put_periodic e now ival t a) = timerMessage a"
  "timerMessage (expire_tuple now time t a) = timerMessage a"
proof -
  show d: "timerMessage (destroy_timer t a) = timerMessage a" for t a
    by (cases t) (simp_all add: upd_state_def rm_mprsel_tuple_def)
  then show "timerMessage (delete_timer t a) = timerMessage a" by (simp add: delete_timer_def)
  then show "timerMessage (expire_tuple now time t a) = timerMessage a"
    by (simp add: expire_tuple_def put_timer_def)
qed (simp_all add: put_timer_def put_periodic_def jitter_def split_beta)

lemma expire_message: "expire e now t a = Inr a' \<Longrightarrow> timerMessage a' = timerMessage a"
  by (cases t) (auto simp: Let_def dest!: sends_message nb_loss_frame(2) split: if_splits
    elim!: bindE_InrE)

lemma timer_loop_returns:
  assumes "env_ok e" and "agent_ok {} a"
  shows "\<exists>r. timer_loop e now a = Some r \<and>
    (\<forall>a'. r = Inr a' \<longrightarrow> agent_ok {} a' \<and> (\<forall>p\<in>set (timerQueue a'). now < fst p) \<and>
      timerMessage a' = timerMessage a)"
  using assms(2)
proof (induction "weight now (timerQueue a)" arbitrary: a rule: less_induct)
  case less
  obtain x t q where q: "timerQueue a = (x, t) # q"
    using less.prems by (cases "timerQueue a") (auto simp: agent_ok_def jobs_def)
  show ?case
  proof (cases "x \<le> now")
    case False
    have "now < fst p" if "p \<in> set (timerQueue a)" for p
      using tq.head_due_first [OF agent_okD(4) [OF less.prems] q that] False by simp
    then show ?thesis using less.prems q False by (subst timer_loop.simps) auto
  next
    case due: True
    show ?thesis
    proof (cases "expire e now t (a\<lparr>timerQueue := q\<rparr>)")
      case (Inl f)
      then show ?thesis using q due by (subst timer_loop.simps) auto
    next
      case (Inr a1)
      have "weight now (timerQueue a1) < weight now (timerQueue a)"
        using expire_weight [OF assms(1) Inr] q due by simp
      from less.hyps [OF this agent_ok_expire [OF agent_ok_pop [OF less.prems q] Inr]]
      show ?thesis using q due Inr expire_message [OF Inr] by (subst timer_loop.simps) auto
    qed
  qed
qed

end
