(* ===== verification/Olsr_Events.thy ===== *)
theory Olsr_Events
  imports Olsr_Loop
begin

text \<open>
  The module between its messages: its self message is scheduled for the head of the timer queue.
  The reception of a packet only adds appointments, so the self message is never later than the
  head and \<open>scheduleNextEvent\<close> does not stop the simulation; the loop over the due timers starts
  without a self message.  The node starts from an empty state, and stopping it empties the queue
  and deletes every tuple that has a timer.
\<close>

subsection \<open>Reception keeps the appointments\<close>

definition keeps :: "olsr \<Rightarrow> olsr \<Rightarrow> bool" where
  "keeps a b \<longleftrightarrow> set (timerQueue a) \<subseteq> set (timerQueue b) \<and> timerMessage b = timerMessage a"

lemma keeps_refl [simp]: "keeps a a" "keeps a (a\<lparr>state_ptr := st\<rparr>)" "keeps a (upd_state f a)"
  by (simp_all add: keeps_def upd_state_def)

lemma keeps_trans: "keeps a b \<Longrightarrow> keeps b c \<Longrightarrow> keeps a c"
  by (auto simp: keeps_def)

lemma keeps_schedule:
  assumes "agent_ok X a" and "t \<notin> jobs a"
    and "timerQueue b = timerQueue a" "timerMessage b = timerMessage a"
  shows "keeps a (schedule now d t b)"
  using assms tq.set_move [of "timerQueue a" "now + d" t]
  by (auto simp: keeps_def schedule_def resched_move jobs_def agent_ok_def)

text \<open>A loop of steps that keep both the invariant and the appointments.\<close>

definition later :: "timer set \<Rightarrow> olsr \<Rightarrow> olsr \<Rightarrow> bool" where
  "later X a b \<longleftrightarrow> agent_ok X b \<and> keeps a b"

lemma later_foldE:
  assumes "foldE f xs a = Inr a'" and "agent_ok X a"
    and "\<And>b x b'. agent_ok X b \<Longrightarrow> f b x = Inr b' \<Longrightarrow> later X b b'"
  shows "later X a a'"
  using foldE_invariant [OF assms(1), of "later X a"] assms(2,3) keeps_trans
  unfolding later_def by (metis keeps_refl(1))

lemma later_foldl:
  assumes "agent_ok X a" and "\<And>b x. agent_ok X b \<Longrightarrow> later X b (f b x)"
  shows "later X a (foldl f a xs)"
  using foldl_invariant [of "later X a" a xs f] assms keeps_trans
  unfolding later_def by (metis keeps_refl(1))

lemma later_nb2hop_addr:
  assumes "agent_ok X a"
  shows "later X a (nb2hop_addr_step e now msg nt a iface)"
proof -
  have "keeps a (nb2hop_addr_step e now msg nt a iface)"
    using state_inv_fresh(3) [OF agent_okD(1) [OF assms]]
    by (auto simp: nb2hop_addr_step_def Let_def add_nb2hop_tuple_def new_then_insert split_beta
      intro!: keeps_schedule [OF assms] split: option.split)
  then show ?thesis using agent_ok_nb2hop_addr [OF assms] by (simp add: later_def)
qed

lemma later_populate_nb2hopset:
  assumes "agent_ok X a" and "populate_nb2hopset e now msg a = Inr a'"
  shows "later X a a'"
proof -
  have block: "later X b b'" if "agent_ok X b" "nb2hop_block_step e now msg b m = Inr b'" for b b' m
    using that later_foldl [OF that(1), of "nb2hop_addr_step e now msg (nb_type m)"] later_nb2hop_addr
    by (simp add: nb2hop_block_step_def split: if_splits) blast
  have link: "later X b b'" if "agent_ok X b" "nb2hop_link_step e now msg b l = Inr b'" for b b' l
    using that later_foldE [OF _ that(1)] block
    by (auto simp: nb2hop_link_step_def later_def split: if_splits)
  show ?thesis using later_foldE [OF assms(2) [unfolded populate_nb2hopset_def] assms(1)] link by blast
qed

lemma later_mprsel_addr:
  assumes "agent_ok X a"
  shows "later X a (mprsel_addr_step e now msg a iface)"
proof -
  have "p = pnext (mprselset (state_ptr a))" if "new_mprsel t (state_ptr a) = (p, st1)" for t p st1
    using that by (auto simp: new_mprsel_def new_obj_def)
  then have "keeps a (mprsel_addr_step e now msg a iface)"
    using state_inv_fresh(4) [OF agent_okD(1) [OF assms]]
    by (auto simp: mprsel_addr_step_def Let_def add_mprsel_tuple_def upd_state_def
      intro!: keeps_schedule [OF assms] split: option.split prod.split)
  then show ?thesis using agent_ok_mprsel_addr [OF assms] by (simp add: later_def)
qed

lemma later_populate_mprselset:
  assumes "agent_ok X a" and "populate_mprselset e now msg a = Inr a'"
  shows "later X a a'"
proof -
  have block: "later X b b'" if "agent_ok X b" "mprsel_block_step e now msg b m = Inr b'" for b b' m
  proof (cases "nb_type m = OLSR_MPR_NEIGH")
    case True
    then have "b' = foldl (mprsel_addr_step e now msg) b (nb_iface_addrs m)"
      using that(2) by (simp add: mprsel_block_step_def split: if_splits)
    then show ?thesis using later_foldl [OF that(1) later_mprsel_addr] by simp
  qed (use that in \<open>simp add: mprsel_block_step_def later_def\<close>)
  show ?thesis
    using assms later_foldE [OF _ assms(1)] block by (auto simp: populate_mprselset_def split: if_splits)
qed

lemma later_link_sensing:
  assumes "agent_ok X a" and "link_sensing e now msg ri si idx a = Inr a'"
  shows "later X a a'"
proof -
  obtain p created st1 where sl: "sender_link now msg ri si idx (state_ptr a) = (p, created, st1)"
    by (metis prod_cases3)
  have new: "created \<Longrightarrow> LinkTupleTimer p True \<notin> jobs a"
    using state_inv_sender_link [OF agent_okD(1) [OF assms(1)] sl] by blast
  have "keeps a (finish_sensing e now msg p created updated st a)" for updated st
    using new by (auto simp: finish_sensing_def Let_def intro!: keeps_schedule [OF assms(1)])
  moreover obtain t updated where
    "a' = finish_sensing e now msg p created updated (sensed t p (heard now msg p st1)) a"
    using link_sensing_parts [OF assms(2) sl] by metis
  ultimately have "keeps a a'" by simp
  then show ?thesis using agent_ok_link_sensing [OF assms] by (simp add: later_def)
qed

lemma later_process_hello:
  assumes "agent_ok X a" and "process_hello e now msg ri si idx a = Inr a'"
  shows "later X a a'"
  using assms(2)
proof (cases rule: process_hello_parts)
  case (1 a1 a2 a3)
  have l1: "later X a a1" using later_link_sensing [OF assms(1) 1(1)] .
  then have l2: "later X a1 a2"
    using later_populate_nb2hopset [OF agent_ok_populate_nbset 1(2)]
    by (auto simp: later_def keeps_def upd_state_def)
  then have ok3: "agent_ok X a3" using agent_ok_mpr 1(3) by (auto simp: later_def)
  have "keeps a2 a3" using 1(3) by (auto simp: mpr_computation_agent_def elim!: bindE_InrE)
  then show ?thesis
    using l1 l2 later_populate_mprselset [OF ok3 1(4)] keeps_trans unfolding later_def by blast
qed

lemma later_process_tc:
  assumes "agent_ok X a" and "process_tc now msg si idx a = Inr a'"
  shows "keeps a a'"
proof -
  have 1: "agent_ok X (upd_state (erase_older_topology_tuples (orig_addr msg) (tc_ansn (msg_tc msg))) a)"
    using agent_ok_upd [OF assms(1)] state_inv_erase(6) [OF agent_okD(1) [OF assms(1)]] .
  have step: "later X b b'" if "agent_ok X b" "tc_addr_step now msg idx b ia = Inr b'" for b b' ia
  proof -
    have "keeps b b'"
      using state_inv_fresh(5) [OF agent_okD(1) [OF that(1)]] that(2)
      by (auto simp: tc_addr_step_def Let_def add_topology_tuple_def new_then_insert split_beta
        intro!: keeps_schedule [OF that(1)] split: option.splits if_splits)
    moreover have "agent_ok X b'" using agent_ok_tc_addr that by blast
    ultimately show ?thesis by (simp add: later_def)
  qed
  have "a' = a \<or> foldE (tc_addr_step now msg idx) (List.enumerate 0 (nb_main_addrs (msg_tc msg)))
      (upd_state (erase_older_topology_tuples (orig_addr msg) (tc_ansn (msg_tc msg))) a) = Inr a'"
    using assms(2) by (simp add: process_tc_def split: if_splits)
  then show ?thesis
  proof
    assume f: "foldE (tc_addr_step now msg idx) (List.enumerate 0 (nb_main_addrs (msg_tc msg)))
      (upd_state (erase_older_topology_tuples (orig_addr msg) (tc_ansn (msg_tc msg))) a) = Inr a'"
    have "later X (upd_state (erase_older_topology_tuples (orig_addr msg) (tc_ansn (msg_tc msg))) a) a'"
      using f 1 by (rule later_foldE) (rule step)
    then show ?thesis by (simp add: later_def keeps_def upd_state_def)
  qed simp
qed

lemma later_mid_addr:
  assumes "agent_ok X a"
  shows "later X a (mid_addr_step now msg idx a iface)"
proof -
  let ?x = "now + emf_to_seconds (vtime msg)"
  obtain st updated where r: "touch_assocs iface (orig_addr msg) ?x (state_ptr a) = (st, updated)"
    by (cases "touch_assocs iface (orig_addr msg) ?x (state_ptr a)")
  have "\<not> updated \<Longrightarrow> st = state_ptr a"
    using touch_assocs_inv [OF agent_okD(1) [OF assms] r] by blast
  then have "keeps a (mid_addr_step now msg idx a iface)"
    using r state_inv_fresh(6) [OF agent_okD(1) [OF assms]]
    by (auto simp: mid_addr_step_def Let_def add_ifaceassoc_tuple_def new_then_insert split_beta
      intro!: keeps_schedule [OF assms])
  then show ?thesis using agent_ok_mid_addr [OF assms] by (simp add: later_def)
qed

lemma keeps_process_msg:
  assumes "agent_ok X a" and "process_msg e now msg ri src idx a = Inr a'"
  shows "keeps a a'"
proof -
  have mid: "keeps a a'" if "process_mid now msg src idx a = Inr a'"
  proof -
    have "a' = a \<or> a' = foldl (mid_addr_step now msg idx) a (mid_iface_addrs (msg_mid msg))"
      using that by (auto simp: process_mid_def split: if_splits)
    then show ?thesis
      using later_foldl [OF assms(1), of "mid_addr_step now msg idx"] later_mid_addr
      by (auto simp: later_def)
  qed
  have "a' = a \<or> process_hello e now msg ri src idx a = Inr a' \<or>
      process_tc now msg src idx a = Inr a' \<or> process_mid now msg src idx a = Inr a'"
    using assms(2) by (simp add: process_msg_def split: if_splits)
  then show ?thesis
    using later_process_hello [OF assms(1)] later_process_tc [OF assms(1)] mid keeps_refl(1)
    unfolding later_def by blast
qed

lemma keeps_enque:
  assumes "agent_ok X a" and "enque_jittered e now m a = Inr a'"
  shows "keeps a a'"
proof -
  have "MsgTimer (next_msg_timer a) \<notin> jobs a" using assms(1) by (auto simp: agent_ok_def)
  then show ?thesis
    using assms(2) by (auto simp: enque_jittered_def enque_msg_def jitter_def split: if_splits
      intro!: keeps_schedule [OF assms(1)])
qed

lemma keeps_update_dup:
  assumes "agent_ok X a"
  shows "keeps a (update_dup now msg dup li rtm a)"
  using state_inv_fresh(1) [OF agent_okD(1) [OF assms]]
  by (auto simp: update_dup_def Let_def split_beta add_dup_tuple_def new_then_insert
    intro!: keeps_schedule [OF assms] split: option.split)

lemma keeps_forward:
  assumes "agent_ok X a" and "forward_default e now msg dup li src a = Inr a'"
  shows "keeps a a'"
  using assms(2)
proof (cases rule: forward_default_cases)
  case (resent a2)
  have "agent_ok X a2" using agent_ok_enque_jittered [OF assms(1)] resent(4) .
  then show ?thesis
    using keeps_trans [OF keeps_enque [OF assms(1) resent(4)] keeps_update_dup] resent(5) by simp
qed (use keeps_update_dup [OF assms(1)] in simp_all)

lemma keeps_recv_msg:
  assumes "agent_ok X a" and "recv_msg e now ri src idx a msg = Inr a'"
  shows "keeps a a'"
  using assms(2)
proof (cases rule: recv_msg_cases)
  case (new a1)
  have ok: "agent_ok X a1" and k: "keeps a a1"
    using agent_ok_process_msg keeps_process_msg assms(1) new(2) by blast+
  from new(3) show ?thesis
    using k keeps_trans [OF k keeps_forward [OF ok]] by blast
next
  case (again p)
  show ?thesis using keeps_forward [OF assms(1) again(2)] .
qed simp

lemma keeps_recv_olsr:
  assumes "agent_ok X a" and "recv_olsr e now m a = Inr a'"
  shows "keeps a a'"
  using assms(2)
proof (cases rule: recv_olsr_cases)
  case (processed op src idx a1)
  have "later X a a1"
    using later_foldE [OF processed(2) assms(1)] agent_ok_recv_msg keeps_recv_msg
    unfolding later_def by metis
  moreover have "keeps a1 a'"
    using rtable_computation_frame [OF processed(3)] by (auto simp: keeps_def)
  ultimately show ?thesis using keeps_trans unfolding later_def by blast
qed simp

subsection \<open>The self message\<close>

definition awake :: "olsr \<Rightarrow> bool" where
  "awake a \<longleftrightarrow> (\<exists>x t q. timerQueue a = (x, t) # q \<and> timerMessage a = Some x)"

lemma agent_ok_timerMessage [simp]: "agent_ok X (a\<lparr>timerMessage := m\<rparr>) = agent_ok X a"
  by (simp add: agent_ok_def jobs_def)

lemma queue_not_empty:
  assumes "agent_ok {} a"
  obtains x t q where "timerQueue a = (x, t) # q"
  using assms by (cases "timerQueue a") (auto simp: agent_ok_def jobs_def)

text \<open>
  With the self message absent, or no earlier than the head of the queue, the agent goes back to
  sleep with the self message at the head.
\<close>

lemma scheduleNextEvent_ok:
  assumes "agent_ok {} a" and "\<And>x t q m. timerQueue a = (x, t) # q \<Longrightarrow> timerMessage a = Some m \<Longrightarrow> x \<le> m"
  shows "\<exists>a'. scheduleNextEvent a = Inr a' \<and> agent_ok {} a' \<and> awake a' \<and>
    timerQueue a' = timerQueue a \<and> state_ptr a' = state_ptr a"
proof -
  obtain x t q where q: "timerQueue a = (x, t) # q" using queue_not_empty [OF assms(1)] .
  show ?thesis
    using assms(1) assms(2) [OF q] q
    by (cases "timerMessage a") (auto simp: scheduleNextEvent_def awake_def)
qed

lemma scheduleNextEvent_eq:
  assumes "agent_ok {} a" and "\<And>x t q m. timerQueue a = (x, t) # q \<Longrightarrow> timerMessage a = Some m \<Longrightarrow> x \<le> m"
  shows "scheduleNextEvent a = Inr (a\<lparr>timerMessage := Some (fst (hd (timerQueue a)))\<rparr>)"
proof -
  obtain x t q where q: "timerQueue a = (x, t) # q" using queue_not_empty [OF assms(1)] .
  show ?thesis
    using assms(2) [OF q] q by (cases "timerMessage a") (auto simp: scheduleNextEvent_def)
qed

lemma awake_keeps:
  assumes "awake a" and "keeps a b" and "tq_ok (timerQueue b)"
    and "timerQueue b = (x, t) # q" and "timerMessage b = Some m"
  shows "x \<le> m"
proof -
  obtain y u r where a: "timerQueue a = (y, u) # r" "timerMessage a = Some y"
    using assms(1) by (auto simp: awake_def)
  then have "(y, u) \<in> set (timerQueue b)" "m = y" using assms(2,5) by (auto simp: keeps_def)
  then show ?thesis using tq.head_due_first [OF assms(3,4)] by fastforce
qed

text \<open>The module stops with neither of the errors of its own scheduling.\<close>

lemma handleMessage_ok:
  assumes "env_ok e" and "agent_ok {} a" and "awake a"
    and "handleMessage e True now ev a = Inr a'"
  shows "agent_ok {} a' \<and> awake a'"
proof (cases ev)
  case SelfMessage
  obtain r where r: "timer_loop e now (a\<lparr>timerMessage := None\<rparr>) = Some r"
    "\<And>b. r = Inr b \<Longrightarrow> agent_ok {} b \<and> timerMessage b = None"
    using timer_loop_returns [OF assms(1), of "a\<lparr>timerMessage := None\<rparr>" now] assms(2) by auto
  then obtain b where b: "r = Inr b" "scheduleNextEvent b = Inr a'"
    using assms(4) SelfMessage by (auto simp: handleMessage_def elim!: bindE_InrE)
  then show ?thesis using r(2) [OF b(1)] scheduleNextEvent_ok [of b] by auto
next
  case (Arrival m)
  then obtain b where b: "recv_olsr e now m a = Inr b" "scheduleNextEvent b = Inr a'"
    using assms(4) by (auto simp: handleMessage_def elim!: bindE_InrE)
  have ok: "agent_ok {} b" using agent_ok_recv_olsr [OF assms(2) b(1)] .
  then show ?thesis
    using b(2) scheduleNextEvent_ok [OF ok] awake_keeps [OF assms(3) keeps_recv_olsr [OF assms(2) b(1)]]
      agent_okD(4) [OF ok] by fastforce
qed

lemma handleMessage_eq:
  assumes "env_ok e" and "agent_ok {} a" and "awake a"
  shows "\<exists>r. (case ev of SelfMessage \<Rightarrow> timer_loop e now (a\<lparr>timerMessage := None\<rparr>) = Some r
      | Arrival m \<Rightarrow> recv_olsr e now m a = r) \<and>
    handleMessage e True now ev a = (case r of Inl f \<Rightarrow> Inl f
      | Inr b \<Rightarrow> Inr (b\<lparr>timerMessage := Some (fst (hd (timerQueue b)))\<rparr>))"
proof (cases ev)
  case SelfMessage
  obtain r where r: "timer_loop e now (a\<lparr>timerMessage := None\<rparr>) = Some r"
    "\<And>b. r = Inr b \<Longrightarrow> agent_ok {} b \<and> timerMessage b = None"
    using timer_loop_returns [OF assms(1), of "a\<lparr>timerMessage := None\<rparr>" now] assms(2) by auto
  have "scheduleNextEvent b = Inr (b\<lparr>timerMessage := Some (fst (hd (timerQueue b)))\<rparr>)" if "r = Inr b" for b
    using r(2) [OF that] by (intro scheduleNextEvent_eq) simp_all
  then show ?thesis using r(1) SelfMessage by (auto simp: handleMessage_def split: sum.split)
next
  case (Arrival m)
  have "scheduleNextEvent b = Inr (b\<lparr>timerMessage := Some (fst (hd (timerQueue b)))\<rparr>)"
    if "recv_olsr e now m a = Inr b" for b
  proof -
    have ok: "agent_ok {} b" using agent_ok_recv_olsr [OF assms(2) that] .
    show ?thesis
      using awake_keeps [OF assms(3) keeps_recv_olsr [OF assms(2) that] agent_okD(4) [OF ok]]
      by (intro scheduleNextEvent_eq [OF ok])
  qed
  then show ?thesis using Arrival by (auto simp: handleMessage_def split: sum.split)
qed

subsection \<open>Start\<close>

definition own_iface :: "olsr_env \<Rightarrow> int \<times> int \<Rightarrow> iface_assoc_tuple" where
  "own_iface e i = \<lparr>ia_iface_addr = getIfaceAddressFromIndex e (fst i), ia_main_addr = ra_addr e,
     ia_time = max_simtime e, ia_index = fst i\<rparr>"

text \<open>The interfaces of the node have different addresses.\<close>

definition ifaces_distinct :: "olsr_env \<Rightarrow> bool" where
  "ifaces_distinct e \<longleftrightarrow> distinct (map (\<lambda>i. getIfaceAddressFromIndex e (fst i)) (wlan_ifaces e))"

lemma own_iface_step_record: "own_iface_step e st i = record_ifaceassoc (own_iface e i) st"
  by (simp add: own_iface_step_def own_iface_def add_ifaceassoc_tuple_def new_then_insert split_beta)

lemma own_ifaces:
  assumes "distinct (map (\<lambda>i. getIfaceAddressFromIndex e (fst i)) is)"
  shows "olsr_state_ok (foldl (own_iface_step e) OLSR_state_init is) \<and>
    (\<exists>s. foldl (own_iface_step e) OLSR_state_init is = OLSR_state_init\<lparr>ifaceassocset := s\<rparr> \<and>
       tuples s = map (own_iface e) is)"
  using assms
proof (induction "is" rule: rev_induct)
  case Nil
  have "tuples (ifaceassocset OLSR_state_init) = []" by (simp add: OLSR_state_init_def)
  then show ?case by (auto intro!: exI [of _ "ifaceassocset OLSR_state_init"])
next
  case (snoc i "is")
  let ?st = "foldl (own_iface_step e) OLSR_state_init is"
  obtain s where ok: "olsr_state_ok ?st" and s: "?st = OLSR_state_init\<lparr>ifaceassocset := s\<rparr>"
    "tuples s = map (own_iface e) is"
    using snoc by auto
  have "ia_key (own_iface e i) \<notin> ia_key ` set (tuples s)"
    using snoc.prems
    by (simp add: s(2) ia_key_def own_iface_def image_image image_iff)
  then have new: "find_ptr (\<lambda>u. ia_key u = ia_key (own_iface e i)) (ifaceassocset ?st) = None"
    by (simp add: s(1) find_ptr_None) (metis imageI)
  have "pool_ok s" using state_ok_pools(7) [OF ok] s(1) by simp
  then have "tuples (add_obj (own_iface e i) s) = map (own_iface e) (is @ [i])"
    by (simp add: tuple_simps s(2))
  moreover have "foldl (own_iface_step e) OLSR_state_init (is @ [i]) =
      OLSR_state_init\<lparr>ifaceassocset := add_obj (own_iface e i) s\<rparr>"
    by (simp only: foldl_append foldl.simps own_iface_step_record [of e ?st i] record_frame(6)) (simp add: s(1))
  moreover have "olsr_state_ok (foldl (own_iface_step e) OLSR_state_init (is @ [i]))"
    using olsr_state_ok_record(7) [OF ok new]
    by (simp only: foldl_append foldl.simps own_iface_step_record [of e ?st i])
  ultimately show ?case by blast
qed

text \<open>A stopped agent: no timers, hence no tuples but neighbours and interface associations.\<close>

definition stopped :: "olsr \<Rightarrow> bool" where
  "stopped a \<longleftrightarrow> timerQueue a = [] \<and> timerMessage a = None \<and> msgs_of a = [] \<and>
     rtable_ok (rtable_of a) \<and> state_inv {} (state_ptr a)"

lemma start_timers_queue:
  assumes "timerQueue a = []"
  shows "timerQueue (start_timers e now a) =
    [(now + hello_ival e, HelloTimer), (now + hello_ival e, TcTimer), (now + hello_ival e, MidTimer)]"
  using assms by (simp add: start_timers_def schedule_def resched_def)

lemma start_timers_frame [simp]:
  "state_ptr (start_timers e now a) = state_ptr a" "rtable_of (start_timers e now a) = rtable_of a"
  "msgs_of (start_timers e now a) = msgs_of a" "timerMessage (start_timers e now a) = timerMessage a"
  by (simp_all add: start_timers_def schedule_def)

lemma start_timers_ok:
  assumes "stopped a"
  shows "\<exists>a'. scheduleNextEvent (start_timers e now a) = Inr a' \<and> agent_ok {} a' \<and> awake a' \<and>
    timerMessage a' = Some (now + hello_ival e)"
proof -
  note q = start_timers_queue [of a e now]
  have "agent_ok {} (start_timers e now a)"
    using assms unfolding agent_ok_def jobs_def stopped_def
    by (simp add: q tq_ok_def)
  from scheduleNextEvent_ok [OF this] show ?thesis
    using assms by (auto simp: stopped_def q awake_def)
qed

lemma initial_stopped:
  assumes "ifaces_distinct e"
  shows "stopped (initial_agent\<lparr>state_ptr := foldl (own_iface_step e) OLSR_state_init (wlan_ifaces e)\<rparr>)"
proof -
  obtain s where "foldl (own_iface_step e) OLSR_state_init (wlan_ifaces e) = OLSR_state_init\<lparr>ifaceassocset := s\<rparr>"
    "olsr_state_ok (foldl (own_iface_step e) OLSR_state_init (wlan_ifaces e))"
    using own_ifaces [of e "wlan_ifaces e"] assms by (auto simp: ifaces_distinct_def)
  then show ?thesis
    by (simp add: stopped_def initial_agent_def state_inv_def timed_def jobs_defs one_link_timer_def
      OLSR_state_init_def rtable_ok_def rtable_empty_def)
qed

subsection \<open>Stop\<close>

lemma drain_queue_ok:
  assumes "state_inv (jobs a) (state_ptr a)" and "tq_ok (timerQueue a)"
  shows "state_inv {} (state_ptr (drain_queue a)) \<and> timerQueue (drain_queue a) = [] \<and>
    rtable_of (drain_queue a) = rtable_of a \<and> msgs_of (drain_queue a) = msgs_of a \<and>
    timerMessage (drain_queue a) = timerMessage a"
  using assms
proof (induction a rule: drain_queue.induct)
  case (1 a)
  show ?case
  proof (cases "timerQueue a")
    case Nil
    then have "drain_queue a = a" by (subst drain_queue.simps) simp
    then show ?thesis using 1 Nil by (simp add: jobs_def)
  next
    case (Cons p q)
    obtain x t where p: "p = (x, t)" by (cases p)
    let ?a = "a\<lparr>timerQueue := q\<rparr>"
    let ?b = "if t \<in> {HelloTimer, TcTimer, MidTimer} then ?a else delete_timer t ?a"
    have j: "jobs a = insert t (jobs ?a)" "t \<notin> jobs ?a" "tq_ok q"
      using 1(3) Cons p by (auto simp: jobs_def tq_ok_def)
    have fr: "rtable_of (destroy_timer t ?a) = rtable_of a" "msgs_of (destroy_timer t ?a) = msgs_of a"
      by (cases t; simp add: upd_state_def rm_mprsel_tuple_def)+
    have "state_inv (jobs ?a) (state_ptr ?b)" "timerQueue ?b = q"
      "rtable_of ?b = rtable_of a" "msgs_of ?b = msgs_of a" "timerMessage ?b = timerMessage a"
      using 1(2) j state_inv_destroy [of t "jobs ?a" ?a] fr by (auto simp: delete_timer_absent)
    moreover from this have "jobs ?b = jobs ?a" by (simp add: jobs_def)
    moreover have "drain_queue a = drain_queue ?b"
      using Cons p by (subst drain_queue.simps) simp
    ultimately show ?thesis using 1(1) [OF Cons p [symmetric]] j(3) by simp
  qed
qed

lemma shutdown_stopped:
  assumes "agent_ok {} a"
  shows "stopped (handleNodeShutdown a)"
proof -
  let ?a = "a\<lparr>rtable_of := rtable_clear (rtable_of a), msgs_of := [], timerMessage := None\<rparr>"
  have "state_inv (jobs ?a) (state_ptr ?a)" "tq_ok (timerQueue ?a)"
    using assms by (simp_all add: agent_ok_def jobs_def)
  from drain_queue_ok [OF this] show ?thesis
    by (simp add: stopped_def handleNodeShutdown_def rtable_clear_def rtable_ok_def)
qed

lemma stopped_empty:
  assumes "stopped a"
  shows "tuples (linkset (state_ptr a)) = []" "tuples (nb2hopset (state_ptr a)) = []"
    "tuples (mprselset (state_ptr a)) = []" "tuples (topologyset (state_ptr a)) = []"
    "tuples (dupset (state_ptr a)) = []"
  using assms by (simp_all add: stopped_def state_inv_def timed_def jobs_defs watched_def tuples_def)

subsection \<open>The life of a node\<close>

text \<open>
  What can happen to a node: it is initialized and runs; a running node gets its self message or a
  packet, is told of a broken link, or is stopped; a stopped node drops its packets and can be
  started again.
\<close>

inductive node_step :: "olsr_env \<Rightarrow> bool \<times> olsr \<Rightarrow> bool \<times> olsr \<Rightarrow> bool" for e where
  message: "handleMessage e True now ev a = Inr a' \<Longrightarrow> node_step e (True, a) (True, a')"
| link_break: "processLinkBreak e now dgram a = Inr a' \<Longrightarrow> node_step e (True, a) (True, a')"
| shutdown: "node_step e (True, a) (False, handleNodeShutdown a)"
| dropped: "handleMessage e False now (Arrival m) a = Inr a' \<Longrightarrow> node_step e (False, a) (False, a')"
| start: "handleNodeStart e now a = Inr a' \<Longrightarrow> node_step e (False, a) (True, a')"

inductive_cases node_step_upE: "node_step e (True, a) s'"
inductive_cases node_step_downE: "node_step e (False, a) s'"

inductive node_reachable :: "olsr_env \<Rightarrow> bool \<times> olsr \<Rightarrow> bool" for e where
  born: "initialize e now = Inr a \<Longrightarrow> node_reachable e (True, a)"
| step: "node_reachable e s \<Longrightarrow> node_step e s s' \<Longrightarrow> node_reachable e s'"

definition node_ok :: "bool \<times> olsr \<Rightarrow> bool" where
  "node_ok s \<longleftrightarrow> (if fst s then agent_ok {} (snd s) \<and> awake (snd s) else stopped (snd s))"

lemma mac_failed_frame:
  assumes "mac_failed e now dest a = Inr a'"
  shows "timerQueue a' = timerQueue a \<and> timerMessage a' = timerMessage a"
proof (cases "dest = IPv4 0xffffffff \<or> rtable_lookup (rtable_of a) dest = None")
  case True
  then show ?thesis using assms by (auto simp: mac_failed_def split: if_splits)
next
  case False
  then obtain entry where en: "rtable_lookup (rtable_of a) dest = Some entry" by blast
  show ?thesis
  proof (cases "find_link_tuple (state_ptr a) (next_addr entry)")
    case None
    then show ?thesis using assms False en by (auto simp: mac_failed_def)
  next
    case (Some p)
    then obtain f b where b: "nb_loss e now p (upd_state (set_link p f) a) = Inr b"
      "a' = b\<lparr>route_log := route_log b @ [DeleteIpEntry dest]\<rparr>"
      using assms False en by (simp add: mac_failed_def bindE_Inr_iff) blast
    show ?thesis using nb_loss_frame(1,2) [OF b(1)] b(2) by (simp add: upd_state_def)
  qed
qed

lemma processLinkBreak_frame:
  "processLinkBreak e now dgram a = Inr a' \<Longrightarrow> timerQueue a' = timerQueue a \<and> timerMessage a' = timerMessage a"
  by (simp add: processLinkBreak_def mac_failed_frame split: option.splits if_splits)

lemma node_ok_up [simp]: "node_ok (True, a) \<longleftrightarrow> agent_ok {} a \<and> awake a"
  by (simp add: node_ok_def)

lemma node_ok_down [simp]: "node_ok (False, a) \<longleftrightarrow> stopped a"
  by (simp add: node_ok_def)

lemma node_ok_step:
  assumes "env_ok e" and "node_ok s" and "node_step e s s'"
  shows "node_ok s'"
  using assms(3)
proof cases
  case (message now ev a a')
  have "agent_ok {} a" "awake a" using assms(2) message(1) by simp_all
  from handleMessage_ok [OF assms(1) this message(3)] show ?thesis using message(2) by simp
next
  case (link_break now dgram a a')
  have ok: "agent_ok {} a" "awake a" using assms(2) link_break(1) by simp_all
  have "a' = a \<or> (\<exists>dest. mac_failed e now dest a = Inr a')"
    using link_break(3) by (auto simp: processLinkBreak_def split: option.splits if_splits)
  then have "agent_ok {} a'" using agent_ok_mac_failed [OF ok(1)] ok(1) by blast
  moreover have "awake a'" using ok(2) processLinkBreak_frame [OF link_break(3)] by (simp add: awake_def)
  ultimately show ?thesis using link_break(2) by simp
next
  case (shutdown a)
  then show ?thesis using assms(2) shutdown_stopped by simp
next
  case (dropped now m a a')
  then show ?thesis using assms(2) by (simp add: handleMessage_def)
next
  case (start now a a')
  then have "stopped a" using assms(2) by simp
  from start_timers_ok [OF this, of e now] show ?thesis
    using start by (auto simp: handleNodeStart_def)
qed

lemma node_ok_born:
  assumes "ifaces_distinct e" and "initialize e now = Inr a"
  shows "node_ok (True, a)"
  using assms start_timers_ok [OF initial_stopped [OF assms(1)], of e now]
  by (auto simp: initialize_def)

lemma node_ok_reachable:
  assumes "env_ok e" and "ifaces_distinct e" and "node_reachable e s"
  shows "node_ok s"
  using assms(3)
proof induction
  case (born now a)
  then show ?case by (rule node_ok_born [OF assms(2)])
next
  case (step s s')
  then show ?case using node_ok_step [OF assms(1)] by blast
qed

text \<open>The tuple a timer will look at and delete is allocated.\<close>

fun target_allocated :: "olsr_state \<Rightarrow> timer \<Rightarrow> bool" where
  "target_allocated st (DupTupleTimer p) = (pmem (dupset st) p \<noteq> None)"
| "target_allocated st (LinkTupleTimer p b) = (pmem (linkset st) p \<noteq> None)"
| "target_allocated st (Nb2hopTupleTimer p) = (pmem (nb2hopset st) p \<noteq> None)"
| "target_allocated st (MprSelTupleTimer p) = (pmem (mprselset st) p \<noteq> None)"
| "target_allocated st (TopologyTupleTimer p) = (pmem (topologyset st) p \<noteq> None)"
| "target_allocated st (IfaceAssocTupleTimer p) = (pmem (ifaceassocset st) p \<noteq> None)"
| "target_allocated st (MsgTimer n) = True"
| "target_allocated st HelloTimer = True"
| "target_allocated st TcTimer = True"
| "target_allocated st MidTimer = True"

lemma timed_allocated: "timed T st \<Longrightarrow> t \<in> T \<Longrightarrow> target_allocated st t"
proof (cases t)
  case (LinkTupleTimer p b)
  assume "timed T st" "t \<in> T"
  then have "p \<in> link_jobs T" "watched (link_jobs T) (linkset st)"
    using LinkTupleTimer by (cases b; simp add: link_jobs_def timed_def)+
  then show ?thesis using LinkTupleTimer by (auto simp: watched_def)
qed (auto simp: timed_def watched_def held_def jobs_defs)

text \<open>The timers that will delete the tuples of a state.\<close>

definition tuple_timers :: "olsr_state \<Rightarrow> timer set" where
  "tuple_timers st = DupTupleTimer ` set (pvec (dupset st)) \<union>
     Nb2hopTupleTimer ` set (pvec (nb2hopset st)) \<union> MprSelTupleTimer ` set (pvec (mprselset st)) \<union>
     TopologyTupleTimer ` set (pvec (topologyset st))"

lemma timed_tuples:
  assumes "timed T st"
  shows "tuple_timers st \<subseteq> T"
    and "p \<in> set (pvec (linkset st)) \<Longrightarrow> LinkTupleTimer p True \<in> T \<or> LinkTupleTimer p False \<in> T"
  using assms by (auto simp: tuple_timers_def timed_def watched_def jobs_defs)

end
