(* ===== verification/Olsr_Route_Spec.thy ===== *)
theory Olsr_Route_Spec
  imports Olsr_Route_Facts
begin

text \<open>
  The reference for \<open>OLSR::rtable_computation\<close> on nodes with one interface each: a breadth first
  distance over the tuple sets, \<open>hops\<close>.  The computed table holds exactly the destinations that have
  such a distance, at the least one.
\<close>

text \<open>
  Hop counts: a symmetric neighbour is at 1, the target of a two-hop tuple of a willing neighbour at
  2, and a topology tuple leads one hop further, except from a neighbour (what a neighbour reaches
  is learnt from its HELLO messages).
\<close>

inductive hops :: "olsr_state \<Rightarrow> addr \<Rightarrow> nat \<Rightarrow> bool" for st :: olsr_state where
  neighbour: "sym_nb st x \<Longrightarrow> hops st x 1"
| through: "two_hop st y x \<Longrightarrow> hops st x 2"
| further: "t \<in> set (tuples (topologyset st)) \<Longrightarrow> hops st (t_last_addr t) h \<Longrightarrow>
    \<not> sym_nb st (t_last_addr t) \<Longrightarrow> hops st (t_dest_addr t) (Suc h)"

lemma hops_pos: "hops st x h \<Longrightarrow> 1 \<le> h"
  by (induction rule: hops.induct) auto

lemma route_to_two:
  "route_to now st d nx h \<Longrightarrow> single_iface st \<Longrightarrow> h = 2 \<Longrightarrow> two_hop st nx d"
proof (induction rule: route_to.induct)
  case (nb2hop b c nx)
  then show ?case using route_to_single [of st now b nx 1] by auto
next
  case (topology t h nx)
  then show ?case by simp
next
  case (iface_assoc t nx h)
  then show ?case by (auto simp: single_iface_def)
qed auto

text \<open>What the passes keep: distances that are hop counts, the neighbours at 1.\<close>

definition hop_table :: "olsr_state \<Rightarrow> rtable \<Rightarrow> bool" where
  "hop_table st rt \<longleftrightarrow> rtable_ok rt \<and> (\<forall>x. sym_nb st x \<longrightarrow> has_route rt x) \<and>
     (\<forall>d en. rtable_lookup rt d = Some en \<longrightarrow> hops st d (dist en) \<and> (sym_nb st d \<longrightarrow> dist en = 1))"

lemma hop_table_entry:
  "hop_table st rt \<Longrightarrow> rtable_lookup rt d = Some en \<Longrightarrow> hops st d (dist en) \<and> (sym_nb st d \<longrightarrow> dist en = 1)"
  by (simp add: hop_table_def)

lemma hop_table_start:
  assumes "n2_inv now st rt" and "single_iface st" and "\<And>x. sym_nb st x \<Longrightarrow> has_route rt x"
  shows "hop_table st rt"
  unfolding hop_table_def
proof (intro conjI allI impI)
  show "rtable_ok rt" using assms(1) by (simp add: n2_inv_def rt_inv_def)
  show "has_route rt x" if "sym_nb st x" for x using assms(3) that .
  fix d en assume en: "rtable_lookup rt d = Some en"
  then show "sym_nb st d \<Longrightarrow> dist en = 1" using assms(1) by (simp add: n2_inv_def)
  have r: "route_to now st d (next_addr en) (dist en)" and "dist en \<le> 2"
    using assms(1) en rt_inv_entry by (auto simp: n2_inv_def entry_ok_def)
  then consider "dist en = 1" | "dist en = 2" using route_to_pos [OF r] by linarith
  then show "hops st d (dist en)"
  proof cases
    case 1
    then show ?thesis using route_to_single [OF assms(2) r] hops.neighbour by simp
  next
    case 2
    then show ?thesis using route_to_two [OF r assms(2)] hops.through by auto
  qed
qed

lemma hop_table_topo:
  assumes "hop_table st (fst (fst acc))" and "t \<in> set (tuples (topologyset st))" and "2 \<le> h"
  shows "hop_table st (fst (fst (topo_step e h acc t)))"
proof (cases "topo_step e h acc t = acc")
  case False
  then obtain en2 where en2: "rtable_lookup (fst (fst acc)) (t_dest_addr t) = None"
    "rtable_lookup (fst (fst acc)) (t_last_addr t) = Some en2" "dist en2 = h"
    by (auto simp: topo_step_def split: option.splits if_splits)
  have "hops st (t_dest_addr t) (h + 1)"
    using hop_table_entry [OF assms(1) en2(2)] en2(3) assms(2,3)
    by (metis One_nat_def Suc_1 Suc_eq_plus1 Suc_n_not_le_n hops.further)
  moreover have "\<not> sym_nb st (t_dest_addr t)"
    using assms(1) en2(1) by (auto simp: hop_table_def not_has_route)
  ultimately show ?thesis
    using assms(1) en2 by (auto simp: topo_step_def hop_table_def lookup_add_via)
qed (use assms in simp)

lemma assoc_step_single:
  assumes "u \<in> set (tuples (ifaceassocset st))" and "single_iface st"
  shows "assoc_step e acc u = acc"
  using assms by (auto simp: assoc_step_def single_iface_def split: option.split)

lemma hop_table_pass:
  assumes "single_iface st" and "2 \<le> h" and "hop_table st (fst b)"
  shows "hop_table st (fst (fst (rt_pass e st h b)))"
  unfolding rt_pass_def
proof (rule foldl_invariant [where P = "\<lambda>acc. hop_table st (fst (fst acc))"])
  show "hop_table st (fst (fst (foldl (topo_step e h) (b, False) (tuples (topologyset st)))))"
    by (rule foldl_invariant [where P = "\<lambda>acc. hop_table st (fst (fst acc))"])
      (use assms hop_table_topo in auto)
qed (use assms(1) assoc_step_single in metis)

lemma rt_build_hop_table:
  assumes "rt_build e now a = Inr b" and "links_live now (state_ptr a)" and "single_iface (state_ptr a)"
  shows "hop_table (state_ptr a) (fst b)"
proof -
  let ?st = "state_ptr a"
  obtain b1 b2 where b1: "b1 = foldl (nb_step e now ?st) (rtable_clear (rtable_of a),
       route_log a @ clean_cmds e (rtable_of a)) (tuples (nbset ?st))"
    and b2: "foldE (n2_step e ?st) (tuples (nb2hopset ?st)) b1 = Inr b2"
    and b: "b = rt_loop e ?st 2 b2"
    using rt_build_stages [OF assms(1)] .
  have "n2_inv now ?st (fst b1)" using nb_steps [OF b1] n2_inv_start by blast
  note 2 = n2_steps [OF b2 subset_refl this]
  have "hop_table ?st (fst b2)"
    using hop_table_start [OF _ assms(3)] 2 nb_steps(3) [OF b1 assms(2)] by blast
  then show ?thesis
    using rt_loop_invariant [of "\<lambda>h b. 2 \<le> h \<and> hop_table ?st (fst b)" e ?st 2 b2]
      hop_table_pass [OF assms(3)] b by auto
qed

text \<open>Completeness: a destination with a hop count has an entry, at most that far.\<close>

lemma rt_build_hops:
  assumes "rt_build e now a = Inr b" and "links_live now (state_ptr a)" and "single_iface (state_ptr a)"
    and "hops (state_ptr a) d h"
  shows "\<exists>en. rtable_lookup (fst b) d = Some en \<and> dist en \<le> h"
  using assms(4)
proof (induction rule: hops.induct)
  case (neighbour x)
  then show ?case using rt_build_reaches(1) [OF assms(1,2)] by fastforce
next
  case (through y x)
  then show ?case using rt_build_reaches(2) [OF assms(1,2)] by blast
next
  case (further t h)
  then obtain en where en: "rtable_lookup (fst b) (t_last_addr t) = Some en" "dist en \<le> h" by blast
  have "route_to now (state_ptr a) (t_last_addr t) (next_addr en) (dist en)"
    using rt_inv_entry [OF rt_build_inv [OF assms(1)] en(1)] by (simp add: entry_ok_def)
  then have "2 \<le> dist en"
    using route_to_single [OF assms(3)] route_to_pos further.hyps(3)
    by (metis One_nat_def Suc_1 Suc_leI le_neq_implies_less)
  then show ?case using rt_build_single(2) [OF assms(1,3) further.hyps(1) en(1)] en(2) by fastforce
qed

lemma rt_build_shortest:
  assumes "rt_build e now a = Inr b" and "links_live now (state_ptr a)" and "single_iface (state_ptr a)"
  shows "(\<exists>en. rtable_lookup (fst b) d = Some en \<and> dist en = h) \<longleftrightarrow>
    hops (state_ptr a) d h \<and> (\<forall>h'. hops (state_ptr a) d h' \<longrightarrow> h \<le> h')"
  using rt_build_hops [OF assms] hop_table_entry [OF rt_build_hop_table [OF assms]]
  by (metis le_antisym option.inject)

subsection \<open>Routes as paths\<close>

text \<open>
  A path that follows what the tuple sets say: from a symmetric neighbour to one of its neighbours
  and on along topology tuples.
\<close>

inductive follows :: "olsr_state \<Rightarrow> addr list \<Rightarrow> bool" for st :: olsr_state where
  first: "sym_nb st x \<Longrightarrow> follows st [x]"
| second: "two_hop st y x \<Longrightarrow> follows st [y, x]"
| onward: "t \<in> set (tuples (topologyset st)) \<Longrightarrow> follows st p \<Longrightarrow> 2 \<le> length p \<Longrightarrow>
    last p = t_last_addr t \<Longrightarrow> follows st (p @ [t_dest_addr t])"

text \<open>The nodes of the route of each entry have entries themselves, at distances 1, 2, and so on.\<close>

definition path_entry :: "olsr_state \<Rightarrow> rtable \<Rightarrow> addr \<Rightarrow> rt_entry \<Rightarrow> bool" where
  "path_entry st rt d en \<longleftrightarrow> dest_addr en = d \<and> Suc (length (route en)) = dist en \<and>
     follows st (route en @ [d]) \<and>
     (\<forall>i<dist en. \<exists>en'. rtable_lookup rt ((route en @ [d]) ! i) = Some en' \<and> dist en' = Suc i)"

definition path_table :: "olsr_state \<Rightarrow> rtable \<Rightarrow> bool" where
  "path_table st rt \<longleftrightarrow> rtable_ok rt \<and>
     (\<forall>d en. rtable_lookup rt d = Some en \<longrightarrow> path_entry st rt d en)"

lemma path_entry_distinct:
  assumes "path_entry st rt d en"
  shows "distinct (route en @ [d])"
  unfolding distinct_conv_nth
proof (intro allI impI)
  fix i j
  assume "i < length (route en @ [d])" "j < length (route en @ [d])" "i \<noteq> j"
  then have "i < dist en" "j < dist en" using assms by (auto simp: path_entry_def)
  then show "(route en @ [d]) ! i \<noteq> (route en @ [d]) ! j"
    using assms \<open>i \<noteq> j\<close> by (metis nat.inject option.inject path_entry_def)
qed

lemma path_table_start:
  assumes "n2_inv now st rt" and "single_iface st" and "hop_table st rt"
  shows "path_table st rt"
  unfolding path_table_def
proof (intro conjI allI impI)
  show "rtable_ok rt" using assms(1) by (simp add: n2_inv_def rt_inv_def)
  fix d en assume en: "rtable_lookup rt d = Some en"
  have ok: "entry_ok now st d en" and le: "dist en \<le> 2"
    using assms(1) en rt_inv_entry by (auto simp: n2_inv_def)
  then have r: "route_to now st d (next_addr en) (dist en)" by (simp add: entry_ok_def)
  then consider "dist en = 1" | "dist en = 2" using route_to_pos [OF r] le by linarith
  then show "path_entry st rt d en"
  proof cases
    case 1
    then show ?thesis
      using route_to_single [OF assms(2) r] ok en follows.first by (auto simp: path_entry_def entry_ok_def)
  next
    case 2
    then have n: "route en = [next_addr en]" using ok by (cases "route en") (auto simp: entry_ok_def)
    have h: "two_hop st (next_addr en) d" using route_to_two [OF r assms(2) 2] .
    then obtain en' where "rtable_lookup rt (next_addr en) = Some en'" "dist en' = 1"
      using assms(3) by (auto simp: hop_table_def two_hop_def has_route_def)
    then show ?thesis using ok n 2 en follows.second [OF h]
      by (auto simp: path_entry_def entry_ok_def less_Suc_eq numeral_2_eq_2)
  qed
qed

lemma path_entry_keeps:
  assumes "path_entry st rt d en" and "keeps_routes rt rt'"
  shows "path_entry st rt' d en"
  using assms unfolding path_entry_def keeps_routes_def by metis

lemma path_table_topo:
  assumes "path_table st (fst (fst acc))" and "t \<in> set (tuples (topologyset st))" and "2 \<le> h"
  shows "path_table st (fst (fst (topo_step e h acc t)))"
proof (cases "topo_step e h acc t = acc")
  case False
  let ?rt = "fst (fst acc)" and ?d = "t_dest_addr t"
  from False obtain en2 where en2: "rtable_lookup ?rt ?d = None"
    "rtable_lookup ?rt (t_last_addr t) = Some en2" "dist en2 = h"
    by (auto simp: topo_step_def split: option.splits if_splits)
  have p: "path_entry st ?rt (t_last_addr t) en2" and ok: "rtable_ok ?rt"
    using assms(1) en2(2) by (auto simp: path_table_def)
  let ?rt' = "fst (fst (topo_step e h acc t))"
  have rt': "?rt' = add_entry_via ?d (next_addr en2) (iface_addr en2) (h + 1) (rt_index en2) en2 ?rt"
    using en2 by (simp add: topo_step_def)
  have k: "keeps_routes ?rt ?rt'"
    using ok en2(1) by (auto simp: rt' keeps_routes_def lookup_add_via)
  have "path_entry st ?rt' ?d (the (rtable_lookup ?rt' ?d))"
    unfolding path_entry_def
  proof (intro conjI allI impI)
    have r: "route (the (rtable_lookup ?rt' ?d)) = route en2 @ [t_last_addr t]"
      using ok p en2(3) by (simp add: rt' lookup_add_via path_entry_def)
    have "follows st ((route en2 @ [t_last_addr t]) @ [?d])"
      by (rule follows.onward [OF assms(2)]) (use p assms(3) en2(3) in \<open>auto simp: path_entry_def\<close>)
    then show "follows st (route (the (rtable_lookup ?rt' ?d)) @ [?d])"
      using r by simp
    fix i assume i: "i < dist (the (rtable_lookup ?rt' ?d))"
    then have "i < dist en2 \<or> i = dist en2" using ok en2(3) by (auto simp: rt' lookup_add_via)
    then show "\<exists>en'. rtable_lookup ?rt' ((route (the (rtable_lookup ?rt' ?d)) @ [?d]) ! i) = Some en' \<and>
        dist en' = Suc i"
    proof
      assume "i < dist en2"
      then have "\<exists>en'. rtable_lookup ?rt' ((route en2 @ [t_last_addr t]) ! i) = Some en' \<and> dist en' = Suc i"
        using path_entry_keeps [OF p k] by (simp add: path_entry_def)
      moreover have "((route en2 @ [t_last_addr t]) @ [?d]) ! i = (route en2 @ [t_last_addr t]) ! i"
        by (rule nth_append_left) (use p \<open>i < dist en2\<close> in \<open>simp add: path_entry_def\<close>)
      ultimately show ?thesis using r by simp
    qed (use ok p en2(3) in \<open>auto simp: rt' lookup_add_via path_entry_def nth_append\<close>)
  qed (use ok p en2(3) in \<open>auto simp: rt' lookup_add_via path_entry_def\<close>)
  then have "path_entry st ?rt' d' en" if "rtable_lookup ?rt' d' = Some en" for d' en
    using that assms(1) path_entry_keeps [OF _ k] ok
    by (cases "d' = ?d") (auto simp: rt' lookup_add_via path_table_def)
  then show ?thesis using k by (simp add: path_table_def keeps_routes_def)
qed (use assms in simp)

lemma rt_build_paths:
  assumes "rt_build e now a = Inr b" and "links_live now (state_ptr a)" and "single_iface (state_ptr a)"
  shows "path_table (state_ptr a) (fst b)"
proof -
  let ?st = "state_ptr a"
  obtain b1 b2 where b1: "b1 = foldl (nb_step e now ?st) (rtable_clear (rtable_of a),
       route_log a @ clean_cmds e (rtable_of a)) (tuples (nbset ?st))"
    and b2: "foldE (n2_step e ?st) (tuples (nb2hopset ?st)) b1 = Inr b2"
    and b: "b = rt_loop e ?st 2 b2"
    using rt_build_stages [OF assms(1)] .
  have "n2_inv now ?st (fst b1)" using nb_steps [OF b1] n2_inv_start by blast
  note 2 = n2_steps [OF b2 subset_refl this]
  have h: "hop_table ?st (fst b2)"
    using hop_table_start [OF _ assms(3)] 2 nb_steps(3) [OF b1 assms(2)] by blast
  have pass: "path_table ?st (fst (fst (rt_pass e ?st h b)))" if "2 \<le> h" "path_table ?st (fst b)" for h b
    unfolding rt_pass_def
  proof (rule foldl_invariant [where P = "\<lambda>acc. path_table ?st (fst (fst acc))"])
    show "path_table ?st (fst (fst (foldl (topo_step e h) (b, False) (tuples (topologyset ?st)))))"
      by (rule foldl_invariant [where P = "\<lambda>acc. path_table ?st (fst (fst acc))"])
        (use that path_table_topo in auto)
  qed (use assms(3) assoc_step_single in metis)
  show ?thesis
    using rt_loop_invariant [of "\<lambda>h b. 2 \<le> h \<and> path_table ?st (fst b)" e ?st 2 b2]
      path_table_start [OF _ assms(3) h] 2 pass b by auto
qed

subsection \<open>Neighbours reached through another interface\<close>

lemma find_send_entry_end:
  assumes "find_send_entry rt e = Some r"
  shows "r = None \<or> (\<exists>aux. r = Some aux \<and> dest_addr aux = next_addr aux \<and>
       (e = Some aux \<or> (\<exists>k. rtable_lookup rt k = Some aux)))"
proof (rule find_send_entry.raw_induct [OF _ assms])
  fix fse rt e r
  let ?P = "\<lambda>rt e r. r = None \<or> (\<exists>aux. r = Some aux \<and> dest_addr aux = next_addr aux \<and>
       (e = Some aux \<or> (\<exists>k. rtable_lookup rt k = Some aux)))"
  assume IH: "\<And>rt e r. fse rt e = Some r \<Longrightarrow> ?P rt e r"
    and step: "(case e of None \<Rightarrow> Some None
      | Some x \<Rightarrow> if dest_addr x \<noteq> next_addr x then fse rt (rtable_lookup rt (next_addr x)) else Some e) =
      Some r"
  show "?P rt e r"
  proof (cases e)
    case (Some x)
    show ?thesis
    proof (cases "dest_addr x = next_addr x")
      case False
      then have "fse rt (rtable_lookup rt (next_addr x)) = Some r" using step Some by simp
      then show ?thesis using IH by metis
    qed (use step Some in auto)
  qed (use step in simp)
qed

lemma nb_main_only:
  assumes "route_to now st x nx h" and "h = 1"
    and "\<forall>l\<in>set (tuples (linkset st)). l_nb_iface_addr l \<noteq> x"
    and "\<forall>u\<in>set (tuples (ifaceassocset st)). ia_iface_addr u \<noteq> x"
  shows "nx \<noteq> x"
  using assms by (induction rule: route_to.induct) (auto simp: live_link_def)

text \<open>
  A route query names the destination as the first node of a one-hop route, while the entry that
  sends is found at the interface address of the neighbour.
\<close>

lemma check_send_main:
  assumes "rt_inv now st rt" and "rtable_lookup rt x = Some en" and "next_addr en \<noteq> x"
  shows "\<exists>f. check_send rt en x r = Inl f"
proof (cases "find_send_entry rt (Some en)")
  case (Some s)
  show ?thesis
  proof (cases s)
    case (Some aux)
    then have aux: "dest_addr aux = next_addr aux" "aux = en \<or> (\<exists>k. rtable_lookup rt k = Some aux)"
      using find_send_entry_end [of rt "Some en" s] \<open>find_send_entry rt (Some en) = Some s\<close> by auto
    have d: "dest_addr en' = k" if "rtable_lookup rt k = Some en'" for k en'
      using rt_inv_entry [OF assms(1) that] by (simp add: entry_ok_def)
    have "next_addr aux \<noteq> x"
    proof
      assume n: "next_addr aux = x"
      then have "aux = en" using aux d assms(2) by (metis option.inject)
      then show False using n assms(3) by simp
    qed
    then show ?thesis using Some \<open>find_send_entry rt (Some en) = Some s\<close> by (simp add: check_send_def)
  qed (use Some in \<open>simp add: check_send_def\<close>)
qed (simp add: check_send_def)

subsection \<open>The path over the relays\<close>

text \<open>
  \<open>computeDistributionPath\<close> returns when the tables it walks reach the relays in less than 1000
  hops and list the nodes of every longer route.
\<close>

definition relays_listed :: "olsr_env \<Rightarrow> olsr \<Rightarrow> addr set \<Rightarrow> bool" where
  "relays_listed e a M \<longleftrightarrow> (\<forall>x rt d en. globalRtable e a x = Some rt \<longrightarrow> d \<in> M \<longrightarrow>
     rtable_lookup rt d = Some en \<longrightarrow> dist en < 1000 \<and> (1 < dist en \<longrightarrow> route en \<noteq> []))"

lemma nearest_relay_None:
  "nearest_relay val act xs acc = Some (h, None) \<Longrightarrow> act \<notin> set xs \<Longrightarrow>
     snd acc = None \<and> (\<forall>x\<in>set xs. \<exists>en. rtable_lookup val x = Some en \<and> fst acc \<le> dist en)"
  by (induction val act xs acc rule: nearest_relay.induct) (auto split: if_splits option.splits)

lemma path_loop_total:
  "relays_listed e a (set mpr) \<Longrightarrow> distinct mpr \<Longrightarrow> act \<notin> set mpr \<Longrightarrow>
     \<exists>r. path_loop e a act mpr rte = Inr r"
proof (induction e a act mpr rte rule: path_loop.induct)
  case (1 e a act mpr rte)
  show ?case
  proof (cases "mpr = []")
    case True
    then show ?thesis by (simp add: path_loop.simps)
  next
    case ne: False
    show ?thesis
    proof (cases "globalRtable e a act")
      case None
      then show ?thesis using ne by (simp add: path_loop.simps)
    next
      case val: (Some val)
      show ?thesis
      proof (cases "nearest_relay val act mpr (1000, None)")
        case None
        then show ?thesis using ne val by (simp add: path_loop.simps)
      next
        case (Some r)
        obtain h c where r: "r = (h, c)" by force
        have "c \<noteq> None"
        proof
          assume "c = None"
          with nearest_relay_None [of val act mpr "(1000, None)" h] Some r "1.prems"(3)
          have far: "\<forall>x\<in>set mpr. \<exists>en. rtable_lookup val x = Some en \<and> 1000 \<le> dist en" by simp
          obtain x where "x \<in> set mpr" using ne by (cases mpr) auto
          then obtain en where "rtable_lookup val x = Some en" "1000 \<le> dist en" using far by blast
          then show False using "1.prems"(1) val \<open>x \<in> set mpr\<close> unfolding relays_listed_def by fastforce
        qed
        then obtain x en where c: "c = Some (x, en)" by force
        have x: "x \<in> set mpr" "rtable_lookup val x = Some en"
          using nearest_relay_in [of val act mpr "(1000, None)" h x en] Some r c by simp_all
        then have l: "\<not> (dist en > 1 \<and> route en = [])"
          using "1.prems"(1) val by (auto simp: relays_listed_def)
        have "\<exists>r. path_loop e a x (remove1 x mpr) (rte @ route en @ [x]) = Inr r"
        proof (rule "1.IH" [OF ne val Some [unfolded r] refl c refl l])
          show "relays_listed e a (set (remove1 x mpr))"
            using "1.prems"(1) set_remove1_subset [of x mpr] unfolding relays_listed_def by blast
        qed (use "1.prems"(2) in auto)
        then show ?thesis using ne val Some r c l by (subst path_loop.simps) auto
      qed
    qed
  qed
qed

lemma rtable_computation_parts:
  assumes "rtable_computation e now a = Inr a'"
  obtains b where "rt_build e now a = Inr b" "rtable_of a' = fst b" "route_log a' = snd b"
    "state_ptr a' = state_ptr a"
proof -
  obtain b dp where b: "rt_build e now a = Inr b" "computeDistributionPath e (ra_addr e)
      (a\<lparr>rtable_of := fst b, route_log := snd b, topologyChange := False\<rparr>) = Inr a'"
    using assms by (auto simp: rtable_computation_def split: prod.splits elim!: bindE_InrE)
  then have "rtable_of a' = fst b" "route_log a' = snd b" "state_ptr a' = state_ptr a"
    by (auto simp: computeDistributionPath_def elim!: bindE_InrE split: option.splits)
  then show ?thesis using that b(1) by blast
qed

text \<open>
  The tables of the other nodes, as the static map of the class holds them.  Relays that are
  symmetric neighbours are one hop away in this node's own table.
\<close>

definition others_listed :: "olsr_env \<Rightarrow> bool" where
  "others_listed e \<longleftrightarrow> (\<forall>x rt d en. global_rtable e x = Some rt \<longrightarrow> rtable_lookup rt d = Some en \<longrightarrow>
     dist en < 1000 \<and> (1 < dist en \<longrightarrow> route en \<noteq> []))"

lemma rtable_computation_total:
  assumes "links_live now (state_ptr a)" and "finite (mprset (state_ptr a))"
    and "\<forall>x\<in>mprset (state_ptr a). sym_nb (state_ptr a) x" and "ra_addr e \<notin> mprset (state_ptr a)"
    and "others_listed e"
  shows "\<exists>a'. rtable_computation e now a = Inr a'"
proof -
  obtain b where b: "rt_build e now a = Inr b" using rt_build_total [OF assms(1)] by blast
  let ?a = "a\<lparr>rtable_of := fst b, route_log := snd b, topologyChange := False\<rparr>"
  have "relays_listed e ?a (mprset (state_ptr a))"
    unfolding relays_listed_def
  proof (intro allI impI)
    fix x rt d en
    assume g: "globalRtable e ?a x = Some rt" "d \<in> mprset (state_ptr a)" "rtable_lookup rt d = Some en"
    show "dist en < 1000 \<and> (1 < dist en \<longrightarrow> route en \<noteq> [])"
    proof (cases "x = ra_addr e")
      case True
      then have "dist en = 1" using g rt_build_reaches(1) [OF b assms(1)] assms(3)
        by (fastforce simp: globalRtable_def)
      then show ?thesis by simp
    qed (use g assms(5) in \<open>auto simp: globalRtable_def others_listed_def\<close>)
  qed
  then have "\<exists>r. path_loop e ?a (ra_addr e) (sorted_list_of_set (mprset (state_ptr a))) [] = Inr r"
    using path_loop_total assms(2,4) by simp
  then show ?thesis
    by (auto simp: rtable_computation_def b computeDistributionPath_def split: prod.split)
qed

end
