(* ===== verification/Olsr_Process_Spec.thy ===== *)
theory Olsr_Process_Spec
  imports Olsr_Events Olsr_Route_Spec
begin

text \<open>
  What the reception of a message achieves, in terms of the contents of the tuple sets: the topology
  set after a TC, the link and the neighbour after a HELLO that lists the receiver, and the
  messages a node forwards.
\<close>

subsection \<open>TC messages\<close>

text \<open>The tuple a TC records for an advertised address, and what it does to one that is there.\<close>

definition tc_tuple :: "simtime \<Rightarrow> olsr_msg \<Rightarrow> int \<Rightarrow> addr \<times> addr \<Rightarrow> topology_tuple" where
  "tc_tuple now msg idx k = \<lparr>t_dest_addr = fst k, t_last_addr = snd k,
     t_seq = tc_ansn (msg_tc msg), t_time = now + emf_to_seconds (vtime msg), t_index = idx\<rparr>"

definition tc_renew :: "simtime \<Rightarrow> olsr_msg \<Rightarrow> topology_tuple \<Rightarrow> topology_tuple" where
  "tc_renew now msg t = t\<lparr>t_time := now + emf_to_seconds (vtime msg)\<rparr>"

lemma tc_tuple_key [simp]: "t_key (tc_tuple now msg idx k) = k" "t_key (tc_renew now msg t) = t_key t"
  by (simp_all add: tc_tuple_def tc_renew_def t_key_def)

lemma tc_addr_refresh:
  assumes "i < OLSR_MAX_ADDRS"
  shows "\<exists>b'. tc_addr_step now msg idx b (i, adv) = Inr b' \<and>
    state_ptr b' = topologys.refresh (adv, orig_addr msg) (tc_tuple now msg idx (adv, orig_addr msg))
      (tc_renew now msg) (state_ptr b)"
  using assms
  by (cases "find_topology_tuple (state_ptr b) adv (orig_addr msg)")
    (simp_all add: tc_addr_step_def topologys.refresh_def Let_def add_topology_tuple_def
      new_then_insert split_beta schedule_def tc_tuple_def tc_renew_def [abs_def])

lemma tc_addrs_refresh:
  assumes "n + length advs \<le> OLSR_MAX_ADDRS"
  shows "\<exists>b'. foldE (tc_addr_step now msg idx) (List.enumerate n advs) b = Inr b' \<and>
    state_ptr b' = topologys.refresh_all (tc_tuple now msg idx) (tc_renew now msg)
      (map (\<lambda>adv. (adv, orig_addr msg)) advs) (state_ptr b)"
  using assms
proof (induction advs arbitrary: n b)
  case Nil
  then show ?case by (simp add: topologys.refresh_all_def)
next
  case (Cons adv advs)
  obtain b1 where b1: "tc_addr_step now msg idx b (n, adv) = Inr b1"
    "state_ptr b1 = topologys.refresh (adv, orig_addr msg) (tc_tuple now msg idx (adv, orig_addr msg))
      (tc_renew now msg) (state_ptr b)"
    using tc_addr_refresh [of n] Cons.prems by fastforce
  then show ?case
    using Cons.IH [of "Suc n" b1] Cons.prems by (simp add: topologys.refresh_all_def)
qed

lemma process_tc_learns:
  assumes "olsr_state_ok (state_ptr a)" and "msg_type msg = OLSR_TC_MSG"
    and "find_sym_link_tuple (state_ptr a) si now \<noteq> None"
    and "find_newer_topology_tuple (state_ptr a) (orig_addr msg) (tc_ansn (msg_tc msg)) = None"
    and "length (nb_main_addrs (msg_tc msg)) \<le> OLSR_MAX_ADDRS"
  obtains a' where "process_tc now msg si idx a = Inr a'"
    "\<And>t. t \<in> set (tuples (topologyset (state_ptr a'))) \<Longrightarrow> t_last_addr t = orig_addr msg \<Longrightarrow>
      t_seq t = tc_ansn (msg_tc msg) \<and>
      (t_dest_addr t \<in> set (nb_main_addrs (msg_tc msg)) \<longrightarrow> t_time t = now + emf_to_seconds (vtime msg))"
    "\<And>d. d \<in> set (nb_main_addrs (msg_tc msg)) \<Longrightarrow>
      \<exists>t\<in>set (tuples (topologyset (state_ptr a'))). t_dest_addr t = d \<and> t_last_addr t = orig_addr msg"
    "\<And>t :: topology_tuple. t_last_addr t \<noteq> orig_addr msg \<Longrightarrow>
      t \<in> set (tuples (topologyset (state_ptr a'))) \<longleftrightarrow> t \<in> set (tuples (topologyset (state_ptr a)))"
proof -
  let ?n = "tc_ansn (msg_tc msg)" and ?o = "orig_addr msg" and ?advs = "nb_main_addrs (msg_tc msg)"
  let ?st0 = "erase_older_topology_tuples ?o ?n (state_ptr a)"
  let ?ks = "map (\<lambda>adv. (adv, ?o)) ?advs"
  obtain a' where a': "process_tc now msg si idx a = Inr a'"
    "state_ptr a' = topologys.refresh_all (tc_tuple now msg idx) (tc_renew now msg) ?ks ?st0"
    using tc_addrs_refresh [of 0 ?advs now msg idx "upd_state (erase_older_topology_tuples ?o ?n) a"]
      assms by (auto simp: process_tc_def upd_state_def)
  have u: "topologys.unique ?st0" using olsr_state_ok_erase(11) [OF assms(1)] by (simp add: olsr_state_ok_def)
  note laws = u tc_tuple_key(1) [of now msg idx] tc_tuple_key(2) [of now msg]
  have old: "t \<in> set (tuples (topologyset ?st0)) \<longleftrightarrow>
      t \<in> set (tuples (topologyset (state_ptr a))) \<and> (t_last_addr t = ?o \<longrightarrow> t_seq t = ?n)" for t
    using assms(4)
    by (auto simp: erase_older_topology_tuples_def tuples_erase_all find_newer_topology_tuple_def
      find_ptr_None)
  have key: "t_key t = (t_dest_addr t, t_last_addr t)" for t by (simp add: t_key_def)
  have seq: "t_last_addr t = ?o \<longrightarrow> t_seq t = ?n" if "t \<in> set (tuples (topologyset (state_ptr a')))" for t
    by (rule topologys.refresh_all_keeps [OF laws _ _ _ that [unfolded a'(2)]])
      (auto simp: old tc_tuple_def tc_renew_def)
  show ?thesis
  proof (rule that [OF a'(1)])
    fix t assume t: "t \<in> set (tuples (topologyset (state_ptr a')))" "t_last_addr t = ?o"
    have "t_time t = now + emf_to_seconds (vtime msg)" if "t_dest_addr t \<in> set ?advs"
      by (rule topologys.refresh_all_hit [OF laws t(1) [unfolded a'(2)]])
        (use that t(2) in \<open>auto simp: key tc_tuple_def tc_renew_def\<close>)
    then show "t_seq t = ?n \<and> (t_dest_addr t \<in> set ?advs \<longrightarrow> t_time t = now + emf_to_seconds (vtime msg))"
      using seq [OF t(1)] t(2) by blast
  next
    fix d assume "d \<in> set ?advs"
    then show "\<exists>t\<in>set (tuples (topologyset (state_ptr a'))). t_dest_addr t = d \<and> t_last_addr t = ?o"
      using topologys.refresh_all_present [OF laws, where k = "(d, ?o)" and ks = ?ks] a'(2) by (auto simp: key)
  next
    fix t :: topology_tuple assume "t_last_addr t \<noteq> ?o"
    then show "t \<in> set (tuples (topologyset (state_ptr a'))) \<longleftrightarrow> t \<in> set (tuples (topologyset (state_ptr a)))"
      using topologys.refresh_all_others [OF laws, where u = t and ks = ?ks] old a'(2) by (auto simp: key)
  qed
qed

subsection \<open>What the steps of a HELLO leave alone\<close>

definition quiet :: "olsr \<Rightarrow> olsr \<Rightarrow> bool" where
  "quiet a b \<longleftrightarrow> msgs_of b = msgs_of a \<and> dupset (state_ptr b) = dupset (state_ptr a)"

definition steady :: "olsr \<Rightarrow> olsr \<Rightarrow> bool" where
  "steady a b \<longleftrightarrow> quiet a b \<and> linkset (state_ptr b) = linkset (state_ptr a) \<and>
     nbset (state_ptr b) = nbset (state_ptr a) \<and> ifaceassocset (state_ptr b) = ifaceassocset (state_ptr a)"

lemma quiet_refl [simp]: "quiet a a" "steady a a"
  by (simp_all add: quiet_def steady_def)

lemma quiet_trans: "quiet a b \<Longrightarrow> quiet b c \<Longrightarrow> quiet a c" "steady a b \<Longrightarrow> steady b c \<Longrightarrow> steady a c"
  by (simp_all add: quiet_def steady_def)

lemma steady_nb2hop_addr: "steady a (nb2hop_addr_step e now msg nt a iface)"
  by (auto simp: nb2hop_addr_step_def Let_def steady_def quiet_def schedule_def add_nb2hop_tuple_def
    new_then_insert record_frame set_nb2hop_def erase_nb2hop_tuples2_def split_beta split: option.split)

lemma steady_mprsel_addr: "steady a (mprsel_addr_step e now msg a iface)"
  by (auto simp: mprsel_addr_step_def Let_def steady_def quiet_def schedule_def add_mprsel_tuple_def
    upd_state_def new_mprsel_def insert_mprsel_tuple_def set_mprsel_def split_beta split: option.split)

lemma steady_foldl: "(\<And>b x. steady b (f b x)) \<Longrightarrow> steady a (foldl f a xs)"
  by (rule foldl_invariant [where P = "steady a"]) (auto intro: quiet_trans)

text \<open>Within the bounds the packet format puts on the sizes, no assertion of the handlers fails.\<close>

definition hello_sized :: "olsr_msg \<Rightarrow> bool" where
  "hello_sized msg \<longleftrightarrow> length (hello_body (msg_hello msg)) \<le> OLSR_MAX_HELLOS \<and>
     (\<forall>m\<in>set (hello_body (msg_hello msg)). length (nb_iface_addrs m) \<le> OLSR_MAX_ADDRS)"

lemma steady_foldE:
  assumes "\<And>b x. x \<in> set xs \<Longrightarrow> \<exists>b'. f b x = Inr b' \<and> steady b b'"
  shows "\<exists>a'. foldE f xs a = Inr a' \<and> steady a a'"
  by (rule foldE_total [where P = "steady a"]) (use assms quiet_trans(2) in \<open>simp, blast\<close>)

lemma steady_populate_nb2hopset:
  assumes "hello_sized msg"
  shows "\<exists>a'. populate_nb2hopset e now msg a = Inr a' \<and> steady a a'"
proof -
  have "\<exists>b'. nb2hop_block_step e now msg b m = Inr b' \<and> steady b b'"
    if "m \<in> set (hello_body (msg_hello msg))" for b m
    using that assms steady_foldl steady_nb2hop_addr
    by (fastforce simp: nb2hop_block_step_def hello_sized_def)
  then have "\<exists>b'. nb2hop_link_step e now msg b l = Inr b' \<and> steady b b'" for b l
    using steady_foldE [of "hello_body (msg_hello msg)" "nb2hop_block_step e now msg" b] assms
    by (auto simp: nb2hop_link_step_def hello_sized_def)
  then show ?thesis unfolding populate_nb2hopset_def by (intro steady_foldE)
qed

lemma steady_populate_mprselset:
  assumes "hello_sized msg"
  shows "\<exists>a'. populate_mprselset e now msg a = Inr a' \<and> steady a a'"
proof -
  have "\<exists>b'. mprsel_block_step e now msg b m = Inr b' \<and> steady b b'"
    if "m \<in> set (hello_body (msg_hello msg))" for b m
    using that assms steady_foldl steady_mprsel_addr
    by (fastforce simp: mprsel_block_step_def hello_sized_def)
  then show ?thesis
    using steady_foldE [of "hello_body (msg_hello msg)" "mprsel_block_step e now msg" a] assms
    by (auto simp: populate_mprselset_def hello_sized_def)
qed

lemma steady_mpr: "\<exists>a'. mpr_computation_agent e a = Inr a' \<and> steady a a'"
  using mpr_computation_result [of e "state_ptr a"]
  by (fastforce simp: mpr_computation_agent_def steady_def quiet_def)

subsection \<open>The link after a HELLO that lists the receiver\<close>

lemma deref_set_obj: "pool_ok s \<Longrightarrow> p \<in> set (pvec s) \<Longrightarrow> deref (set_obj p f s) p = f (deref s p)"
  using pool_okD(2) [of s p] by (auto simp: set_obj_def deref_def)

lemma pvec_set_obj [simp]: "pvec (set_obj p f s) = pvec s"
  by (simp add: set_obj_def)

lemma olsr_state_ok_updated_link:
  assumes "olsr_state_ok st"
  shows "olsr_state_ok (updated_link_tuple e now p w st)"
  by (cases rule: updated_link_tuple_cases [OF assms, where e = e and now = now and p = p and w = w])
    (simp_all add: olsr_state_ok_set olsr_state_ok_put_nb assms)

lemma deref_in_tuples: "p \<in> set (pvec s) \<Longrightarrow> deref s p \<in> set (tuples s)"
  by (simp add: tuples_def)

lemma sender_link_ptr:
  assumes "olsr_state_ok st" and "sender_link now msg ri si idx st = (p, created, st1)"
  shows "p \<in> set (pvec (linkset st1)) \<and> l_nb_iface_addr (deref (linkset st1) p) = si \<and>
    ifaceassocset st1 = ifaceassocset st \<and> dupset st1 = dupset st \<and> olsr_state_ok st1"
proof (cases "find_link_tuple st si")
  case (Some q)
  then show ?thesis
    using assms find_ptr_SomeD [of "\<lambda>t. l_nb_iface_addr t = si" "linkset st" q]
    by (simp add: sender_link_def find_link_tuple_def)
next
  case None
  let ?t = "\<lparr>l_local_iface_addr = ri, l_nb_iface_addr = si, l_sym_time = now - 1, l_asym_time = 0,
    l_lost_time = 0, l_time = now + emf_to_seconds (vtime msg), l_index = idx\<rparr>"
  obtain q s1 where q: "new_link ?t st = (q, s1)" by (cases "new_link ?t st")
  have n: "find_link_tuple st (l_nb_iface_addr ?t) = None" using None by simp
  note new = add_link_new [OF assms(1) n q]
  have st1: "p = q" "st1 = put_nb (nb_of_link now ?t (h_willingness (msg_hello msg)) st) (record_link ?t st)"
    using assms(2) None q new by (auto simp: sender_link_def)
  have "olsr_state_ok st1" using olsr_state_ok_put_nb olsr_state_ok_record(1) [OF assms(1) n] st1(2) by simp
  moreover have "p \<in> set (pvec (linkset st1))" "deref (linkset st1) p = ?t"
    using st1 new(1) by (simp_all add: record_sets add_obj_def new_obj_def push_back_def deref_def)
  ultimately show ?thesis by (simp add: st1(2) record_frame)
qed

text \<open>
  \<open>lists_receiver\<close>: some valid block of the HELLO lists the receiving interface, and each block that
  lists it says that the link is symmetric or asymmetric.
\<close>

definition confirms :: "addr \<Rightarrow> hello_msg \<Rightarrow> bool" where
  "confirms ri m \<longleftrightarrow> \<not> invalid_link m \<and> ri \<in> set (nb_iface_addrs m) \<and>
     (link_type m = OLSR_SYM_LINK \<or> link_type m = OLSR_ASYM_LINK)"

definition lists_receiver :: "addr \<Rightarrow> olsr_msg \<Rightarrow> bool" where
  "lists_receiver ri msg \<longleftrightarrow> (\<exists>m\<in>set (hello_body (msg_hello msg)). confirms ri m) \<and>
     (\<forall>m\<in>set (hello_body (msg_hello msg)). ri \<in> set (nb_iface_addrs m) \<longrightarrow> confirms ri m)"

definition confirmed :: "simtime \<Rightarrow> simtime \<Rightarrow> link_tuple \<times> bool \<Rightarrow> bool" where
  "confirmed now validity acc \<longleftrightarrow> snd acc \<and> l_sym_time (fst acc) = now + validity \<and> l_lost_time (fst acc) = 0"

lemma hello_link_step_confirms:
  assumes "length (nb_iface_addrs m) \<le> OLSR_MAX_ADDRS" and "ri \<in> set (nb_iface_addrs m) \<longrightarrow> confirms ri m"
  shows "\<exists>acc'. hello_link_step e now validity ri acc m = Inr acc' \<and>
    (confirmed now validity acc \<or> confirms ri m \<longrightarrow> confirmed now validity acc')"
proof (cases "ri \<in> set (nb_iface_addrs m)")
  case True
  then have c: "confirms ri m" using assms(2) by simp
  then have "link_type m \<noteq> OLSR_LOST_LINK"
    by (auto simp: confirms_def OLSR_SYM_LINK_def OLSR_ASYM_LINK_def OLSR_LOST_LINK_def)
  then show ?thesis using c True assms(1) by (simp add: hello_link_step_def confirms_def confirmed_def)
next
  case False
  then have "hello_link_step e now validity ri acc m = Inr acc"
    using assms(1) by (simp add: hello_link_step_def)
  then show ?thesis using False by (simp add: confirms_def)
qed

lemma hello_links_confirm:
  assumes "\<forall>m\<in>set ms. length (nb_iface_addrs m) \<le> OLSR_MAX_ADDRS \<and>
      (ri \<in> set (nb_iface_addrs m) \<longrightarrow> confirms ri m)"
  shows "\<exists>acc'. foldE (hello_link_step e now validity ri) ms acc = Inr acc' \<and>
    (confirmed now validity acc \<or> (\<exists>m\<in>set ms. confirms ri m) \<longrightarrow> confirmed now validity acc')"
  using assms
proof (induction ms arbitrary: acc)
  case (Cons m ms)
  then obtain acc1 where 1: "hello_link_step e now validity ri acc m = Inr acc1"
    "confirmed now validity acc \<or> confirms ri m \<longrightarrow> confirmed now validity acc1"
    using hello_link_step_confirms [of m ri e now validity acc] by auto
  then show ?case using Cons.IH [of acc1] Cons.prems by auto
qed simp

lemma confirmed_symmetric:
  assumes "p \<in> set (pvec (linkset st))" and "links.unique st" and "l_nb_iface_addr (deref (linkset st) p) = si"
    and "l_sym_time (deref (linkset st) p) > now"
  shows "find_sym_link_tuple st si now \<noteq> None"
proof -
  have t: "deref (linkset st) p \<in> set (tuples (linkset st))" using deref_in_tuples assms(1) .
  then have "find_ptr (\<lambda>t. l_nb_iface_addr t = si) (linkset st) \<noteq> None"
    using assms(3) by (auto simp: find_ptr_None simp del: not_None_eq)
  then obtain q where q: "find_ptr (\<lambda>t. l_nb_iface_addr t = si) (linkset st) = Some q" by blast
  note q' = find_ptr_SomeD [OF q]
  have "deref (linkset st) q = deref (linkset st) p"
    using assms(2,3) distinct_key_eq [OF _ q'(3) t, of l_nb_iface_addr] q'(2)
    by (simp add: links.unique_def)
  then show ?thesis using q assms(4) by (simp add: find_sym_link_tuple_def)
qed

lemma link_sensing_confirms:
  assumes "olsr_state_ok (state_ptr a)" and "hello_sized msg" and "lists_receiver ri msg" and "0 < now"
  shows "\<exists>a1. link_sensing e now msg ri si idx a = Inr a1 \<and> quiet a a1 \<and> olsr_state_ok (state_ptr a1) \<and>
    ifaceassocset (state_ptr a1) = ifaceassocset (state_ptr a) \<and>
    find_sym_link_tuple (state_ptr a1) si now \<noteq> None \<and>
    sym_nb (state_ptr a1) (get_main_addr (state_ptr a) si)"
proof -
  let ?v = "emf_to_seconds (vtime msg)" and ?main = "get_main_addr (state_ptr a) si"
  obtain p created st1 where sl: "sender_link now msg ri si idx (state_ptr a) = (p, created, st1)"
    by (metis prod_cases3)
  note p = sender_link_ptr [OF assms(1) sl]
  let ?st2 = "heard now msg p st1"
  obtain t updated where f: "foldE (hello_link_step e now ?v ri) (hello_body (msg_hello msg))
      (deref (linkset ?st2) p, \<not> created) = Inr (t, updated)" and c: "confirmed now ?v (t, updated)"
    using hello_links_confirm [of "hello_body (msg_hello msg)" ri e now ?v
        "(deref (linkset ?st2) p, \<not> created)"] assms(2,3)
    by (auto simp: hello_sized_def lists_receiver_def)
  let ?st3 = "sensed t p ?st2"
  let ?st4 = "updated_link_tuple e now p (h_willingness (msg_hello msg)) ?st3"
  have a1: "link_sensing e now msg ri si idx a = Inr (finish_sensing e now msg p created True ?st3 a)"
    using sl f c assms(2) by (simp add: link_sensing_def hello_sized_def confirmed_def)
  have ok: "olsr_state_ok ?st3"
    unfolding sensed_def heard_def using p by (intro olsr_state_ok_set) simp_all
  note fr = updated_link_frame [OF ok]
  have "pool_ok (linkset st1)" using p state_ok_pools(1) by blast
  then have d: "l_sym_time (deref (linkset ?st3) p) = now + ?v" "l_lost_time (deref (linkset ?st3) p) = 0"
    "l_nb_iface_addr (deref (linkset ?st3) p) = si" and in3: "p \<in> set (pvec (linkset ?st3))"
    using p c by (simp_all add: sensed_def heard_def set_link_def deref_set_obj pool_ok_set_obj confirmed_def)
  let ?a1 = "finish_sensing e now msg p created True ?st3 a"
  have st: "state_ptr ?a1 = ?st4" and q: "quiet a ?a1"
    using fr p by (auto simp: finish_sensing_def Let_def schedule_def quiet_def sensed_def heard_def set_link_def)
  have ok4: "olsr_state_ok ?st4" using olsr_state_ok_updated_link [OF ok] .
  have assoc: "ifaceassocset ?st4 = ifaceassocset (state_ptr a)"
    using fr(7) p by (simp add: sensed_def heard_def set_link_def)
  have main: "get_main_addr ?st3 si = ?main"
    by (rule get_main_addr_cong) (use p in \<open>simp add: sensed_def heard_def set_link_def\<close>)
  have "link_status e now (deref (linkset ?st3) p) = OLSR_STATUS_SYM"
    using d assms(4) emf_positive [of "vtime msg"] by (simp add: link_status_def)
  then have "sym_nb ?st4 ?main"
    using updated_link_nbset [OF ok, of e now p "h_willingness (msg_hello msg)"] d(3) main
    by (cases "?main \<in> nb_main_addr ` set (tuples (nbset ?st3))") (auto simp: sym_nb_def bex_Un)
  moreover have "find_sym_link_tuple ?st4 si now \<noteq> None"
    using confirmed_symmetric [of p ?st4 si now] d in3 fr(1) emf_positive [of "vtime msg"]
      ok4 by (simp add: olsr_state_ok_def)
  ultimately show ?thesis using a1 q st assoc ok4 by auto
qed

lemma populate_nbset_sym:
  assumes "olsr_state_ok st" and "sym_nb st x"
  shows "sym_nb (populate_nbset msg st) x"
proof (cases "find_nb_tuple st (orig_addr msg)")
  case (Some q)
  obtain n where n: "n \<in> set (tuples (nbset st))" "nb_main_addr n = x" "nb_status n = OLSR_STATUS_SYM"
    using assms(2) by (auto simp: sym_nb_def)
  let ?f = "\<lambda>t. t\<lparr>nb_willingness := h_willingness (msg_hello msg)\<rparr>"
  have "tuples (nbset (populate_nbset msg st)) =
      map (\<lambda>n. if nb_main_addr n = orig_addr msg then ?f n else n) (tuples (nbset st))"
    using tuples_set_nb [OF assms(1) Some] Some by (simp add: populate_nbset_def)
  then have "(if nb_main_addr n = orig_addr msg then ?f n else n) \<in> set (tuples (nbset (populate_nbset msg st)))"
    using n(1) by auto
  then show ?thesis unfolding sym_nb_def by (rule rev_bexI) (use n(2,3) in simp)
qed (use assms in \<open>simp add: populate_nbset_def\<close>)

lemma process_hello_confirms:
  assumes "olsr_state_ok (state_ptr a)" and "msg_type msg = OLSR_HELLO_MSG" and "hello_sized msg"
    and "lists_receiver ri msg" and "0 < now"
  shows "\<exists>a'. process_hello e now msg ri si idx a = Inr a' \<and>
    find_sym_link_tuple (state_ptr a') si now \<noteq> None \<and>
    sym_nb (state_ptr a') (get_main_addr (state_ptr a) si)"
proof -
  obtain a1 where a1: "link_sensing e now msg ri si idx a = Inr a1" "olsr_state_ok (state_ptr a1)"
    "find_sym_link_tuple (state_ptr a1) si now \<noteq> None"
    "sym_nb (state_ptr a1) (get_main_addr (state_ptr a) si)"
    using link_sensing_confirms [OF assms(1,3,4,5)] by metis
  let ?b = "upd_state (populate_nbset msg) a1"
  have b: "linkset (state_ptr ?b) = linkset (state_ptr a1)" "sym_nb (state_ptr ?b) (get_main_addr (state_ptr a) si)"
    using populate_nbset_sym [OF a1(2,4)]
    by (simp_all add: upd_state_def) (simp add: populate_nbset_def set_nb_def split: option.split)
  obtain a2 where a2: "populate_nb2hopset e now msg ?b = Inr a2" "steady ?b a2"
    using steady_populate_nb2hopset [OF assms(3)] by blast
  obtain a3 where a3: "mpr_computation_agent e a2 = Inr a3" "steady a2 a3"
    using steady_mpr by blast
  obtain a4 where a4: "populate_mprselset e now msg a3 = Inr a4" "steady a3 a4"
    using steady_populate_mprselset [OF assms(3)] by blast
  have "steady ?b a4" using a2(2) a3(2) a4(2) quiet_trans(2) by blast
  then have "find_sym_link_tuple (state_ptr a4) si now = find_sym_link_tuple (state_ptr a1) si now"
    "sym_nb (state_ptr a4) (get_main_addr (state_ptr a) si)"
    using b by (simp_all add: steady_def find_sym_link_tuple_def sym_nb_def cong: option.case_cong)
  then show ?thesis using a1 a2(1) a3(1) a4(1) assms(2) by (simp add: process_hello_def)
qed

subsection \<open>Forwarding\<close>

lemma quiet_foldE:
  assumes "foldE f xs a = Inr a'" and "\<And>b x b'. f b x = Inr b' \<Longrightarrow> quiet b b'"
  shows "quiet a a'"
  by (rule foldE_invariant [OF assms(1), where P = "quiet a"]) (use assms(2) quiet_trans(1) in \<open>simp, blast\<close>)

lemma quiet_foldl: "(\<And>b x. quiet b (f b x)) \<Longrightarrow> quiet a (foldl f a xs)"
  by (rule foldl_invariant [where P = "quiet a"]) (auto intro: quiet_trans)

lemma steady_quiet: "steady a b \<Longrightarrow> quiet a b"
  by (simp add: steady_def)

lemma quiet_link_sensing:
  assumes "olsr_state_ok (state_ptr a)" and "link_sensing e now msg ri si idx a = Inr a'"
  shows "quiet a a'"
proof -
  obtain p created st1 where sl: "sender_link now msg ri si idx (state_ptr a) = (p, created, st1)"
    by (metis prod_cases3)
  note p = sender_link_ptr [OF assms(1) sl]
  have ok: "olsr_state_ok (sensed t p (heard now msg p st1))" for t
    unfolding sensed_def heard_def using p by (intro olsr_state_ok_set) simp_all
  have d: "dupset (sensed t p (heard now msg p st1)) = dupset (state_ptr a)" for t
    using p by (simp add: sensed_def heard_def set_link_def)
  obtain t updated where
    "a' = finish_sensing e now msg p created updated (sensed t p (heard now msg p st1)) a"
    using link_sensing_parts [OF assms(2) sl] by metis
  then show ?thesis
    using d updated_link_frame(6) [OF ok] by (simp add: finish_sensing_def Let_def schedule_def quiet_def)
qed

lemma quiet_process_hello:
  assumes "olsr_state_ok (state_ptr a)" and "process_hello e now msg ri si idx a = Inr a'"
  shows "quiet a a'"
  using assms(2)
proof (cases rule: process_hello_parts)
  case (1 a1 a2 a3)
  have nb: "quiet a1 (upd_state (populate_nbset msg) a1)"
    by (simp add: quiet_def upd_state_def populate_nbset_def set_nb_def split: option.split)
  have "quiet b b'" if "nb2hop_block_step e now msg b m = Inr b'" for b b' m
    using that quiet_foldl [of "nb2hop_addr_step e now msg (nb_type m)"] steady_quiet [OF steady_nb2hop_addr]
    by (simp add: nb2hop_block_step_def split: if_splits) blast
  then have "quiet b b'" if "nb2hop_link_step e now msg b l = Inr b'" for b b' l
    using that quiet_foldE [of "nb2hop_block_step e now msg"] by (auto simp: nb2hop_link_step_def split: if_splits)
  then have n2: "quiet (upd_state (populate_nbset msg) a1) a2"
    using 1(2) quiet_foldE [of "nb2hop_link_step e now msg"] unfolding populate_nb2hopset_def by blast
  have "quiet b b'" if "mprsel_block_step e now msg b m = Inr b'" for b b' m
    using that quiet_foldl [of "mprsel_addr_step e now msg"] steady_quiet [OF steady_mprsel_addr]
    by (auto simp: mprsel_block_step_def split: if_splits)
  then have ms: "quiet a3 a'"
    using 1(4) quiet_foldE [of "mprsel_block_step e now msg"]
    by (auto simp: populate_mprselset_def split: if_splits)
  have "quiet a2 a3" using 1(3) steady_mpr [of e a2] steady_quiet by auto
  then show ?thesis using quiet_link_sensing [OF assms(1) 1(1)] nb n2 ms quiet_trans(1) by blast
qed

lemma quiet_process_msg:
  assumes "olsr_state_ok (state_ptr a)" and "process_msg e now msg ri src idx a = Inr a'"
  shows "quiet a a'"
proof -
  have tc: "quiet a a'" if "process_tc now msg src idx a = Inr a'"
  proof -
    have "msgs_of b' = msgs_of b" if "tc_addr_step now msg idx b ia = Inr b'" for b b' ia
      using that by (auto simp: tc_addr_step_def Let_def split_beta schedule_def split: if_splits option.splits)
    then have "msgs_of a' = msgs_of a"
      using that foldE_invariant [of "tc_addr_step now msg idx" _ _ a' "\<lambda>b. msgs_of b = msgs_of a"]
      by (auto simp: process_tc_def upd_state_def split: if_splits)
    then show ?thesis using process_tc_dupset [OF that] by (simp add: quiet_def)
  qed
  have mid: "quiet a a'" if "process_mid now msg src idx a = Inr a'"
  proof -
    have "msgs_of (mid_addr_step now msg idx b i) = msgs_of b" for b i
      by (auto simp: mid_addr_step_def Let_def split_beta schedule_def)
    then have "msgs_of a' = msgs_of a"
      using that foldl_invariant [of "\<lambda>b. msgs_of b = msgs_of a" a _ "mid_addr_step now msg idx"]
      by (auto simp: process_mid_def split: if_splits)
    then show ?thesis using process_mid_dupset [OF that] by (simp add: quiet_def)
  qed
  show ?thesis
    using assms tc mid quiet_process_hello [OF assms(1)] by (auto simp: process_msg_def split: if_splits)
qed

text \<open>The messages this node has retransmitted and not yet forgotten.\<close>

definition resent :: "olsr_state \<Rightarrow> addr \<times> u16 \<Rightarrow> bool" where
  "resent st k \<longleftrightarrow> (\<exists>t\<in>set (tuples (dupset st)). d_key t = k \<and> d_retransmitted t)"

definition msg_key :: "olsr_msg \<Rightarrow> addr \<times> u16" where
  "msg_key m = (orig_addr m, msg_seq_num m)"

definition hop_on :: "olsr_msg \<Rightarrow> olsr_msg" where
  "hop_on m = m\<lparr>ttl := ttl m - 1, hop_count := hop_count m + 1\<rparr>"

lemma update_dup_resent:
  assumes "olsr_state_ok (state_ptr a)" and "dup = find_dup_tuple (state_ptr a) (orig_addr msg) (msg_seq_num msg)"
    and "\<not> was_retransmitted (state_ptr a) dup"
  shows "\<not> resent (state_ptr a) (msg_key msg)"
    and "resent (state_ptr (update_dup now msg dup li r a)) k \<longleftrightarrow>
      (if k = msg_key msg then r else resent (state_ptr a) k)"
    and "msgs_of (update_dup now msg dup li r a) = msgs_of a"
proof -
  have u: "dups.unique (state_ptr a)" using assms(1) by (simp add: olsr_state_ok_def)
  have "\<not> resent (state_ptr a) (msg_key msg) \<and>
      (resent (state_ptr (update_dup now msg dup li r a)) k \<longleftrightarrow>
      (if k = msg_key msg then r else resent (state_ptr a) k)) \<and>
      msgs_of (update_dup now msg dup li r a) = msgs_of a"
  proof (cases dup)
    case None
    then have n: "msg_key msg \<notin> d_key ` set (tuples (dupset (state_ptr a)))"
      using assms(2) dups.lookup_none [of "state_ptr a" "msg_key msg"] by (simp add: msg_key_def)
    then have not: "\<not> resent (state_ptr a) (msg_key msg)" unfolding resent_def by (metis image_eqI)
    let ?t = "\<lparr>d_addr = orig_addr msg, d_seq_num = msg_seq_num msg, d_retransmitted = r,
      d_iface_list = [li], d_time = now + OLSR_DUP_HOLD_TIME\<rparr>"
    have "tuples (dupset (state_ptr (update_dup now msg dup li r a))) = tuples (dupset (state_ptr a)) @ [?t]"
      using u by (simp add: None update_dup_def Let_def split_beta add_dup_tuple_def new_then_insert
        record_sets tuples_add_obj dups.unique_def schedule_def)
    moreover have "d_key ?t = msg_key msg" by (simp add: d_key_def msg_key_def)
    ultimately have "resent (state_ptr (update_dup now msg dup li r a)) k \<longleftrightarrow>
        resent (state_ptr a) k \<or> k = msg_key msg \<and> r" by (auto simp: resent_def)
    then show ?thesis using not
      by (auto simp: None update_dup_def Let_def split_beta schedule_def)
  next
    case (Some p)
    let ?f = "\<lambda>t. t\<lparr>d_time := now + OLSR_DUP_HOLD_TIME, d_retransmitted := r, d_iface_list := d_iface_list t @ [li]\<rparr>"
    have look: "find_dup_tuple (state_ptr a) (fst (msg_key msg)) (snd (msg_key msg)) = Some p"
      using Some assms(2) by (simp add: msg_key_def)
    note p = dups.lookup_some [OF look]
    have t: "tuples (dupset (state_ptr (update_dup now msg dup li r a))) =
        map (\<lambda>t. if d_key t = msg_key msg then ?f t else t) (tuples (dupset (state_ptr a)))"
      using dups.contents_change [of "state_ptr a" "msg_key msg" p ?f] u look
      by (simp add: update_dup_def Some upd_state_def dups.unique_def)
    have "t = deref (dupset (state_ptr a)) p"
      if "t \<in> set (tuples (dupset (state_ptr a)))" "d_key t = msg_key msg" for t
      using p u that(2) distinct_key_eq [OF _ that(1), of d_key] by (simp add: dups.unique_def)
    moreover have "\<not> d_retransmitted (deref (dupset (state_ptr a)) p)"
      using assms(3) Some by (simp add: was_retransmitted_def)
    ultimately have n: "\<not> resent (state_ptr a) (msg_key msg)" by (auto simp: resent_def)
    have k: "d_key (?f t) = d_key t" for t by (simp add: d_key_def)
    have "resent (state_ptr (update_dup now msg dup li r a)) k \<longleftrightarrow>
        (if k = msg_key msg then r else resent (state_ptr a) k)"
    proof (cases "k = msg_key msg")
      case True
      have "?f (deref (dupset (state_ptr a)) p) \<in>
          (\<lambda>t. if d_key t = msg_key msg then ?f t else t) ` set (tuples (dupset (state_ptr a)))"
        using p by (intro image_eqI [of _ _ "deref (dupset (state_ptr a)) p"]) auto
      then show ?thesis using True p k unfolding resent_def t set_map
        by (auto intro: bexI [of _ "?f (deref (dupset (state_ptr a)) p)"])
    next
      case False
      then show ?thesis using k unfolding resent_def t set_map by (auto split: if_splits)
    qed
    then show ?thesis using n Some by (simp add: update_dup_def upd_state_def)
  qed
  then show "\<not> resent (state_ptr a) (msg_key msg)"
    and "resent (state_ptr (update_dup now msg dup li r a)) k \<longleftrightarrow>
      (if k = msg_key msg then r else resent (state_ptr a) k)"
    and "msgs_of (update_dup now msg dup li r a) = msgs_of a" by blast+
qed

text \<open>A reception forgets nothing that was retransmitted, and retransmits only what was not.\<close>

lemma forward_default_resends:
  assumes "olsr_state_ok (state_ptr a)" and "forward_default e now msg dup li src a = Inr a'"
    and "dup = find_dup_tuple (state_ptr a) (orig_addr msg) (msg_seq_num msg)"
  shows "(\<forall>k. resent (state_ptr a) k \<longrightarrow> resent (state_ptr a') k) \<and>
    (msgs_of a' = msgs_of a \<or> \<not> resent (state_ptr a) (msg_key msg) \<and>
      resent (state_ptr a') (msg_key msg) \<and> msgs_of a' = msgs_of a @ [hop_on msg])"
  using assms(2)
proof (cases rule: forward_default_cases)
  case kept
  note d = update_dup_resent [OF assms(1,3) kept(2)]
  show ?thesis using d kept(4) by auto
next
  case (resent a2)
  note fr = enque_jittered_frame [OF resent(4)]
  have "\<not> was_retransmitted (state_ptr a2) dup" "olsr_state_ok (state_ptr a2)"
    "dup = find_dup_tuple (state_ptr a2) (orig_addr msg) (msg_seq_num msg)"
    using resent(2) fr(1) assms by simp_all
  note d = update_dup_resent [OF this(2,3,1)]
  show ?thesis using d fr resent(5) by (auto simp: hop_on_def)
qed simp

lemma recv_msg_resends:
  assumes "olsr_state_ok (state_ptr a)" and "agent_ok X a" and "recv_msg e now ri src idx a msg = Inr a'"
  shows "(\<forall>k. resent (state_ptr a) k \<longrightarrow> resent (state_ptr a') k) \<and>
    (msgs_of a' = msgs_of a \<or> \<not> resent (state_ptr a) (msg_key msg) \<and>
      resent (state_ptr a') (msg_key msg) \<and> msgs_of a' = msgs_of a @ [hop_on msg])"
  using assms(3)
proof (cases rule: recv_msg_cases)
  case (new a1)
  have q: "quiet a a1" using quiet_process_msg [OF assms(1) new(2)] .
  have ok: "olsr_state_ok (state_ptr a1)" using agent_ok_process_msg [OF assms(2) new(2)] agent_okD(2) by blast
  have r: "resent (state_ptr a1) k = resent (state_ptr a) k" for k using q by (simp add: quiet_def resent_def)
  show ?thesis
    using new(3)
  proof (elim disjE conjE)
    assume f: "forward_default e now msg None ri src a1 = Inr a'"
    have "None = find_dup_tuple (state_ptr a1) (orig_addr msg) (msg_seq_num msg)"
      using new(1) q find_dup_cong [of "state_ptr a1" "state_ptr a"] by (simp add: quiet_def)
    then show ?thesis using forward_default_resends [OF ok f] q r by (simp add: quiet_def)
  qed (use q r in \<open>simp add: quiet_def\<close>)
next
  case (again p)
  then show ?thesis using forward_default_resends [OF assms(1) again(2)] by simp
qed simp

type_synonym reception = "simtime \<times> addr \<times> addr \<times> int \<times> olsr_msg"

definition receive :: "olsr_env \<Rightarrow> olsr \<Rightarrow> reception \<Rightarrow> fault + olsr" where
  "receive e a r = (case r of (now, ri, src, idx, msg) \<Rightarrow> recv_msg e now ri src idx a msg)"

lemma receive_all_resends:
  assumes "foldE (receive e) rs a = Inr a'" and "agent_ok X a"
  shows "agent_ok X a' \<and> (\<forall>k. resent (state_ptr a) k \<longrightarrow> resent (state_ptr a') k) \<and>
    (\<exists>ms. msgs_of a' = msgs_of a @ ms \<and> distinct (map msg_key ms) \<and>
      (\<forall>m\<in>set ms. \<not> resent (state_ptr a) (msg_key m) \<and> resent (state_ptr a') (msg_key m)))"
  using assms
proof (induction rs arbitrary: a)
  case (Cons r rs)
  obtain now ri src idx msg where r: "r = (now, ri, src, idx, msg)" by (cases r)
  obtain b where b: "recv_msg e now ri src idx a msg = Inr b" "foldE (receive e) rs b = Inr a'"
    using Cons.prems(1) by (auto simp: r receive_def [of e _ "(now, ri, src, idx, msg)"] elim!: bindE_InrE)
  have okb: "agent_ok X b" using agent_ok_recv_msg [OF Cons.prems(2) b(1)] .
  obtain ms where ms: "msgs_of a' = msgs_of b @ ms" "distinct (map msg_key ms)"
    "\<And>m. m \<in> set ms \<Longrightarrow> \<not> resent (state_ptr b) (msg_key m) \<and> resent (state_ptr a') (msg_key m)"
    and keep: "\<And>k. resent (state_ptr b) k \<Longrightarrow> resent (state_ptr a') k" and ok': "agent_ok X a'"
    using Cons.IH [OF b(2) okb] by blast
  have k: "msg_key (hop_on msg) = msg_key msg" by (simp add: hop_on_def msg_key_def)
  from recv_msg_resends [OF agent_okD(2) [OF Cons.prems(2)] Cons.prems(2) b(1)]
  have s: "\<And>k. resent (state_ptr a) k \<Longrightarrow> resent (state_ptr b) k"
    and cases: "msgs_of b = msgs_of a \<or> \<not> resent (state_ptr a) (msg_key msg) \<and>
      resent (state_ptr b) (msg_key msg) \<and> msgs_of b = msgs_of a @ [hop_on msg]" by blast+
  from cases show ?case
  proof
    assume "msgs_of b = msgs_of a"
    then show ?thesis using ms keep s ok' by (metis (no_types, lifting))
  next
    assume f: "\<not> resent (state_ptr a) (msg_key msg) \<and> resent (state_ptr b) (msg_key msg) \<and>
      msgs_of b = msgs_of a @ [hop_on msg]"
    then have "msgs_of a' = msgs_of a @ hop_on msg # ms" using ms(1) by simp
    moreover have "distinct (map msg_key (hop_on msg # ms))" using ms(2,3) f k by (auto simp: k)
    moreover have "\<forall>m\<in>set (hop_on msg # ms). \<not> resent (state_ptr a) (msg_key m) \<and> resent (state_ptr a') (msg_key m)"
      unfolding list.set ball_simps k using ms(3) f s keep by blast
    ultimately show ?thesis using keep s ok' by blast
  qed
qed simp

subsection \<open>Messages of admissible size are handled\<close>

definition msg_sized :: "olsr_msg \<Rightarrow> bool" where
  "msg_sized msg \<longleftrightarrow> (msg_type msg = OLSR_HELLO_MSG \<longrightarrow> hello_sized msg) \<and>
     (msg_type msg = OLSR_TC_MSG \<longrightarrow> length (nb_main_addrs (msg_tc msg)) \<le> OLSR_MAX_ADDRS) \<and>
     (msg_type msg = OLSR_MID_MSG \<longrightarrow> length (mid_iface_addrs (msg_mid msg)) \<le> OLSR_MAX_ADDRS)"

lemma process_hello_total:
  assumes "msg_type msg = OLSR_HELLO_MSG" and "hello_sized msg"
  shows "\<exists>a'. process_hello e now msg ri si idx a = Inr a'"
proof -
  obtain p created st1 where sl: "sender_link now msg ri si idx (state_ptr a) = (p, created, st1)"
    by (metis prod_cases3)
  have "\<exists>acc'. hello_link_step e now v ri acc m = Inr acc'"
    if "m \<in> set (hello_body (msg_hello msg))" for v acc m
    using that assms(2) by (auto simp: hello_link_step_def hello_sized_def)
  then obtain r where "foldE (hello_link_step e now (emf_to_seconds (vtime msg)) ri)
      (hello_body (msg_hello msg)) (deref (linkset (heard now msg p st1)) p, \<not> created) = Inr r"
    using foldE_returns [of "hello_body (msg_hello msg)" "hello_link_step e now (emf_to_seconds (vtime msg)) ri"]
    by metis
  then obtain a1 where a1: "link_sensing e now msg ri si idx a = Inr a1"
    using sl assms(2) by (cases r) (simp add: link_sensing_def hello_sized_def)
  obtain a2 where a2: "populate_nb2hopset e now msg (upd_state (populate_nbset msg) a1) = Inr a2"
    using steady_populate_nb2hopset [OF assms(2)] by blast
  obtain a3 where a3: "mpr_computation_agent e a2 = Inr a3" using steady_mpr by blast
  obtain a4 where "populate_mprselset e now msg a3 = Inr a4"
    using steady_populate_mprselset [OF assms(2)] by blast
  then show ?thesis using a1 a2 a3 assms(1) by (simp add: process_hello_def)
qed

lemma process_msg_total:
  assumes "msg_sized msg"
  shows "\<exists>a'. process_msg e now msg ri src idx a = Inr a'"
proof -
  have "\<exists>a'. process_tc now msg src idx a = Inr a'" if "msg_type msg = OLSR_TC_MSG"
    using that assms tc_addrs_refresh [of 0 "nb_main_addrs (msg_tc msg)" now msg idx
        "upd_state (erase_older_topology_tuples (orig_addr msg) (tc_ansn (msg_tc msg))) a"]
    by (auto simp: process_tc_def msg_sized_def)
  moreover have "\<exists>a'. process_mid now msg src idx a = Inr a'" if "msg_type msg = OLSR_MID_MSG"
    using that assms by (simp add: process_mid_def msg_sized_def)
  ultimately show ?thesis
    using assms process_hello_total by (auto simp: process_msg_def msg_sized_def)
qed

lemma forward_default_total:
  assumes "env_ok e"
  shows "\<exists>a'. forward_default e now msg dup li src a = Inr a'"
proof -
  have "\<exists>a2. enque_jittered e now m a = Inr a2" for m
    using jitter_range(1) [OF assms, of a] by (auto simp: enque_jittered_def enque_msg_def split: prod.split)
  then show ?thesis by (auto simp: forward_default_def Let_def bindE_Inr_iff)
qed

lemma recv_msg_total:
  assumes "env_ok e" and "msg_sized msg"
  shows "\<exists>a'. recv_msg e now ri src idx a msg = Inr a'"
proof -
  obtain a1 where "process_msg e now msg ri src idx a = Inr a1" using process_msg_total [OF assms(2)] by blast
  then show ?thesis
    using forward_default_total [OF assms(1)]
    by (cases "find_dup_tuple (state_ptr a) (orig_addr msg) (msg_seq_num msg)") (simp_all add: recv_msg_def)
qed

lemma receive_all_total:
  assumes "env_ok e" and "\<forall>(now, ri, src, idx, msg)\<in>set rs. msg_sized msg"
  shows "\<exists>a'. foldE (receive e) rs a = Inr a'"
proof -
  have "\<exists>a'. receive e b r = Inr a'" if "r \<in> set rs" for b r
    using that assms recv_msg_total [OF assms(1)] by (cases r) (auto simp: receive_def)
  then show ?thesis by (rule foldE_returns)
qed

subsection \<open>The loss of a neighbour\<close>

lemma nb_loss_parts:
  assumes "nb_loss e now p a = Inr a'"
  defines "st1 \<equiv> updated_link_tuple e now p OLSR_WILL_DEFAULT (state_ptr a)"
  defines "main \<equiv> get_main_addr st1 (l_nb_iface_addr (deref (linkset st1) p))"
  obtains M b where "state_ptr b = (fst (erase_mprsel_tuples main (fst (erase_nb2hop_tuples main st1))))\<lparr>mprset := M\<rparr>"
    "rtable_computation e now b = Inr a'"
proof -
  let ?st3 = "fst (erase_mprsel_tuples main (fst (erase_nb2hop_tuples main st1)))"
  obtain b where b: "mpr_computation_agent e (a\<lparr>state_ptr := ?st3\<rparr>) = Inr b" "rtable_computation e now b = Inr a'"
    using assms(1) by (auto simp: nb_loss_def Let_def st1_def main_def elim!: bindE_InrE)
  then obtain st where "mpr_computation e ?st3 = Inr st" "state_ptr b = st"
    by (auto simp: mpr_computation_agent_def elim!: bindE_InrE)
  then obtain M where "state_ptr b = ?st3\<lparr>mprset := M\<rparr>" using mpr_computation_mprset by blast
  then show ?thesis using that b(2) by blast
qed

lemma nb_loss_forgets:
  assumes "olsr_state_ok (state_ptr a)" and "nb_loss e now p a = Inr a'"
    and "link_status e now (deref (linkset (state_ptr a)) p) = OLSR_STATUS_NOT_SYM"
  defines "main \<equiv> get_main_addr (state_ptr a) (l_nb_iface_addr (deref (linkset (state_ptr a)) p))"
  shows "\<not> sym_nb (state_ptr a') main"
    and "t \<in> set (tuples (nb2hopset (state_ptr a'))) \<Longrightarrow> n2_nb_main_addr t \<noteq> main"
    and "s \<in> set (tuples (mprselset (state_ptr a'))) \<Longrightarrow> ms_main_addr s \<noteq> main"
    and "single_iface (state_ptr a) \<Longrightarrow> rtable_lookup (rtable_of a') d = Some en \<Longrightarrow> next_addr en \<noteq> main"
proof -
  let ?st1 = "updated_link_tuple e now p OLSR_WILL_DEFAULT (state_ptr a)"
  note fr = updated_link_frame [OF assms(1), of e now p OLSR_WILL_DEFAULT]
  have m: "get_main_addr ?st1 (l_nb_iface_addr (deref (linkset ?st1) p)) = main"
    unfolding main_def by (simp only: fr(1,8))
  obtain M b where st: "state_ptr b = (fst (erase_mprsel_tuples main (fst (erase_nb2hop_tuples main ?st1))))\<lparr>mprset := M\<rparr>"
    and rt: "rtable_computation e now b = Inr a'"
    using nb_loss_parts [OF assms(2)] m by metis
  obtain c where c: "rt_build e now b = Inr c" "rtable_of a' = fst c" "state_ptr a' = state_ptr b"
    using rtable_computation_parts [OF rt] by metis
  have sets: "nbset (state_ptr b) = nbset ?st1" "ifaceassocset (state_ptr b) = ifaceassocset (state_ptr a)"
    "tuples (nb2hopset (state_ptr b)) = filter (\<lambda>t. n2_nb_main_addr t \<noteq> main) (tuples (nb2hopset (state_ptr a)))"
    "tuples (mprselset (state_ptr b)) = filter (\<lambda>t. ms_main_addr t \<noteq> main) (tuples (mprselset (state_ptr a)))"
    using fr by (simp_all add: st erase_mprsel_tuples_def erase_nb2hop_tuples_def tuples_erase_all split_beta Let_def)
  have "n \<in> set (tuples (nbset ?st1)) \<Longrightarrow> nb_main_addr n = main \<Longrightarrow> nb_status n = OLSR_STATUS_NOT_SYM" for n
    using updated_link_nbset [OF assms(1), of e now p OLSR_WILL_DEFAULT] assms(3)
    by (auto simp: main_def image_iff split: if_splits)
  then show sym: "\<not> sym_nb (state_ptr a') main" using sets(1) c(3) by (force simp: sym_nb_def)
  show "t \<in> set (tuples (nb2hopset (state_ptr a'))) \<Longrightarrow> n2_nb_main_addr t \<noteq> main"
    and "s \<in> set (tuples (mprselset (state_ptr a'))) \<Longrightarrow> ms_main_addr s \<noteq> main"
    using sets c(3) by simp_all
  assume "single_iface (state_ptr a)" and en: "rtable_lookup (rtable_of a') d = Some en"
  then have s: "single_iface (state_ptr b)" using sets(2) by (simp add: single_iface_def)
  have "entry_ok now (state_ptr b) d en" using rt_inv_entry [OF rt_build_inv [OF c(1)]] en c(2) by simp
  then have "sym_nb (state_ptr b) (next_addr en)"
    using route_to_single [OF s] by (auto simp: entry_ok_def)
  then show "next_addr en \<noteq> main" using sym c(3) by auto
qed

text \<open>
  The handler returns when every symmetric neighbour has a live link and this node is not its own
  neighbour.
\<close>

lemma nb_loss_returns:
  assumes "olsr_state_ok (state_ptr a)"
    and "link_status e now (deref (linkset (state_ptr a)) p) = OLSR_STATUS_NOT_SYM"
    and "links_live now (state_ptr a)" and "others_listed e" and "\<not> sym_nb (state_ptr a) (ra_addr e)"
  shows "\<exists>a'. nb_loss e now p a = Inr a'"
proof -
  let ?st1 = "updated_link_tuple e now p OLSR_WILL_DEFAULT (state_ptr a)"
  note fr = updated_link_frame [OF assms(1), of e now p OLSR_WILL_DEFAULT]
  define main where "main = get_main_addr ?st1 (l_nb_iface_addr (deref (linkset ?st1) p))"
  let ?st3 = "fst (erase_mprsel_tuples main (fst (erase_nb2hop_tuples main ?st1)))"
  have sym1: "sym_nb ?st1 x \<Longrightarrow> sym_nb (state_ptr a) x" for x
    using updated_link_nbset [OF assms(1), of e now p OLSR_WILL_DEFAULT] assms(2)
    by (auto simp: sym_nb_def split: if_splits)
  obtain M where M: "mpr_computation e ?st3 = Inr (?st3\<lparr>mprset := M\<rparr>)" "M \<subseteq> willing_sym ?st3"
    using mpr_computation_result by metis
  let ?b = "a\<lparr>state_ptr := ?st3\<lparr>mprset := M\<rparr>\<rparr>"
  have sets: "nbset (state_ptr ?b) = nbset ?st1" "linkset (state_ptr ?b) = linkset (state_ptr a)"
    "ifaceassocset (state_ptr ?b) = ifaceassocset (state_ptr a)" "nbset ?st3 = nbset ?st1"
    using fr by (simp_all add: erase_mprsel_tuples_def erase_nb2hop_tuples_def split_beta Let_def)
  have symb: "sym_nb (state_ptr ?b) x \<Longrightarrow> sym_nb (state_ptr a) x" for x
    using sym1 sets(1) by (simp add: sym_nb_def)
  have "get_main_addr (state_ptr ?b) x = get_main_addr (state_ptr a) x" for x
    by (rule get_main_addr_cong) (rule sets(3))
  then have live: "links_live now (state_ptr ?b)"
    using assms(3) symb sets(2) by (auto simp: links_live_def live_link_def)
  have relays: "M \<subseteq> {x. sym_nb (state_ptr ?b) x}" "finite (willing_sym ?st3)"
    using M(2) sets by (auto simp: willing_sym_def sym_nb_def)
  then have fin: "finite M" using M(2) finite_subset by blast
  have "\<exists>a'. rtable_computation e now ?b = Inr a'"
    by (rule rtable_computation_total [OF live _ _ _ assms(4)]) (use relays fin symb assms(5) in auto)
  then show ?thesis
    using M(1) by (simp add: nb_loss_def Let_def main_def [symmetric] mpr_computation_agent_def)
qed

end
