(* ===== verification/Olsr_Hello_Spec.thy ===== *)
theory Olsr_Hello_Spec
  imports Olsr_Process_Spec "HOL-Library.Multiset"
begin

text \<open>
  What a HELLO says: link codes are read back as they were written, and the blocks of the message
  list every link of the sender exactly once under its code.  With the processing of a HELLO this
  gives the handshake between two nodes.
\<close>

subsection \<open>Link codes\<close>

lemma all_below_4: "(\<forall>n<4. P n) \<longleftrightarrow> P 0 \<and> P 1 \<and> P 2 \<and> P (3 :: nat)"
proof -
  have "n < 4 \<longleftrightarrow> n = 0 \<or> n = 1 \<or> n = 2 \<or> n = 3" for n :: nat by linarith
  then show ?thesis by auto
qed

lemma link_code_reads:
  assumes "lt < 4" and "nt < 4"
  shows "unat (make_link_code lt nt AND 0x03) = lt" and "unat (drop_bit 2 (make_link_code lt nt)) = nt"
proof -
  have "\<forall>lt<4. \<forall>nt<4. unat (make_link_code lt nt AND 0x03) = lt \<and>
      unat (drop_bit 2 (make_link_code lt nt)) = nt"
    unfolding all_below_4 by (simp add: make_link_code_def)
  then show "unat (make_link_code lt nt AND 0x03) = lt" "unat (drop_bit 2 (make_link_code lt nt)) = nt"
    using assms by blast+
qed

subsection \<open>The blocks\<close>

text \<open>What a list of blocks advertises: pairs of a link code and an address.\<close>

definition advertised :: "hello_msg list \<Rightarrow> (u8 \<times> addr) multiset" where
  "advertised body = sum_list (map (\<lambda>m. mset (map (Pair (link_code m)) (nb_iface_addrs m))) body)"

definition blocks_ok :: "hello_acc \<Rightarrow> bool" where
  "blocks_ok acc \<longleftrightarrow> length (fst acc) \<le> OLSR_MAX_HELLOS \<and> distinct (map link_code (fst acc)) \<and>
     (\<forall>m\<in>set (fst acc). length (nb_iface_addrs m) \<le> OLSR_MAX_ADDRS) \<and>
     (\<forall>c k. snd acc c = Some k \<longleftrightarrow> k < length (fst acc) \<and> link_code (fst acc ! k) = c)"

lemma advertised_append [simp]:
  "advertised (xs @ ys) = advertised xs + advertised ys" "advertised [] = {#}"
  "advertised (m # xs) = image_mset (Pair (link_code m)) (mset (nb_iface_addrs m)) + advertised xs"
  by (simp_all add: advertised_def)

lemma in_advertised:
  "(c, x) \<in># advertised body \<longleftrightarrow> (\<exists>m\<in>set body. link_code m = c \<and> x \<in> set (nb_iface_addrs m))"
  by (induction body) (auto simp: advertised_def)

lemma advertised_update:
  assumes "k < length body" and "link_code m = link_code (body ! k)"
    and "nb_iface_addrs m = nb_iface_addrs (body ! k) @ [x]"
  shows "advertised (body[k := m]) = advertised body + {#(link_code (body ! k), x)#}"
proof -
  have b: "body = take k body @ body ! k # drop (Suc k) body"
    using assms(1) by (rule id_take_nth_drop)
  have "body[k := m] = take k body @ m # drop (Suc k) body"
    using assms(1) by (rule upd_conv_take_nth_drop)
  then have "advertised (body[k := m]) =
      advertised (take k body @ body ! k # drop (Suc k) body) + {#(link_code (body ! k), x)#}"
    using assms(2,3) by simp
  then show ?thesis by (simp only: b [symmetric])
qed

text \<open>Adding an address to the block that is there, or to one just opened.\<close>

lemma blocks_ok_update:
  assumes "blocks_ok (body, counts)" and "k < length body" and "link_code m = link_code (body ! k)"
    and "length (nb_iface_addrs m) \<le> OLSR_MAX_ADDRS"
  shows "blocks_ok (body[k := m], counts)"
proof -
  have "map link_code (body[k := m]) = map link_code body"
    using assms(2,3) by (simp add: map_update) (metis list_update_id length_map nth_map)
  moreover have "link_code (body[k := m] ! i) = link_code (body ! i)" if "i < length body" for i
    using assms(2,3) by (cases "i = k") simp_all
  moreover have "length (nb_iface_addrs n) \<le> OLSR_MAX_ADDRS" if "n \<in> set (body[k := m])" for n
    using set_update_subset_insert [of body k m] that assms(1,4) by (auto simp: blocks_ok_def)
  moreover have "counts c = Some i \<longleftrightarrow> i < length (body[k := m]) \<and> link_code (body[k := m] ! i) = c" for c i
    using assms(1) calculation(2) by (auto simp: blocks_ok_def)
  ultimately show ?thesis using assms(1) by (simp add: blocks_ok_def)
qed

lemma blocks_ok_open:
  assumes "blocks_ok (body, counts)" and "counts c = None" and "length body < OLSR_MAX_HELLOS"
  shows "blocks_ok (body @ [\<lparr>link_code = c, hm_reserved = 0, link_msg_size = 0, nb_iface_addrs = []\<rparr>],
    counts(c \<mapsto> length body))"
proof -
  have "c \<notin> link_code ` set body"
  proof
    assume "c \<in> link_code ` set body"
    then obtain i where "i < length body" "link_code (body ! i) = c" by (auto simp: in_set_conv_nth)
    then have "counts c = Some i" using assms(1) by (simp add: blocks_ok_def)
    then show False using assms(2) by simp
  qed
  then show ?thesis
    using assms unfolding blocks_ok_def by (auto simp: nth_append less_Suc_eq)
qed

lemma hello_add_addr_adds:
  assumes "blocks_ok acc" and "hello_add_addr asize code x acc = Inr acc'"
  shows "blocks_ok acc' \<and> advertised (fst acc') = advertised (fst acc) + {#(code, x)#}"
proof -
  obtain body counts where acc: "acc = (body, counts)" by force
  have add: "blocks_ok (body'[k := m\<lparr>link_msg_size := z\<rparr>], counts') \<and>
      advertised (body'[k := m\<lparr>link_msg_size := z\<rparr>]) = advertised body' + {#(code, x)#}"
    if "blocks_ok (body', counts')" "counts' code = Some k" "length (nb_iface_addrs (body' ! k)) < OLSR_MAX_ADDRS"
      "m = (body' ! k)\<lparr>nb_iface_addrs := nb_iface_addrs (body' ! k) @ [x]\<rparr>" for body' counts' k m z
  proof -
    have k: "k < length body'" "link_code (body' ! k) = code" using that(1,2) by (auto simp: blocks_ok_def)
    show ?thesis
      using blocks_ok_update [OF that(1) k(1), of "m\<lparr>link_msg_size := z\<rparr>"]
        advertised_update [OF k(1), of "m\<lparr>link_msg_size := z\<rparr>" x] that(3,4) k(2) by simp
  qed
  show ?thesis
  proof (cases "counts code")
    case (Some k)
    then show ?thesis using assms add [of body counts k]
      by (auto simp: hello_add_addr_def acc Let_def split: if_splits)
  next
    case None
    let ?b = "body @ [\<lparr>link_code = code, hm_reserved = 0, link_msg_size = 0, nb_iface_addrs = []\<rparr>]"
    have lt: "length body < OLSR_MAX_HELLOS"
      using assms(2) None by (cases "length body < OLSR_MAX_HELLOS") (simp_all add: hello_add_addr_def acc)
    have ok: "blocks_ok (?b, counts(code \<mapsto> length body))"
      using blocks_ok_open [of body counts code] assms(1) None lt by (simp add: acc)
    show ?thesis using assms(2) None lt add [OF ok, of "length body"]
      by (auto simp: hello_add_addr_def acc Let_def OLSR_MAX_ADDRS_def split: if_splits)
  qed
qed

text \<open>The links a HELLO reports, with their codes.\<close>

definition reported :: "olsr_env \<Rightarrow> simtime \<Rightarrow> olsr_state \<Rightarrow> link_tuple \<Rightarrow> (u8 \<times> addr) multiset" where
  "reported e now st l =
     (if get_main_addr st (l_local_iface_addr l) = ra_addr e \<and> l_time l \<ge> now
      then (case hello_nb_type st l of
          Inr (Some n) \<Rightarrow> {#(make_link_code (hello_link_type e now l) n, l_nb_iface_addr l)#}
        | _ \<Rightarrow> {#}) else {#})"

lemma hello_blocks_report:
  assumes "hello_blocks e now st = Inr body"
  shows "advertised body = sum_list (map (reported e now st) (tuples (linkset st))) \<and>
    distinct (map link_code body) \<and> length body \<le> OLSR_MAX_HELLOS \<and>
    (\<forall>m\<in>set body. length (nb_iface_addrs m) \<le> OLSR_MAX_ADDRS)"
proof -
  have "blocks_ok acc' \<and> advertised (fst acc') = advertised (fst acc) + sum_list (map (reported e now st) ls)"
    if "blocks_ok acc" "foldE (send_hello_step e now st) ls acc = Inr acc'" for acc acc' ls
    using that
  proof (induction ls arbitrary: acc)
    case (Cons l ls)
    obtain acc1 where 1: "send_hello_step e now st acc l = Inr acc1"
      "foldE (send_hello_step e now st) ls acc1 = Inr acc'"
      using Cons.prems(2) by (auto elim: bindE_InrE)
    have "blocks_ok acc1 \<and> advertised (fst acc1) = advertised (fst acc) + reported e now st l"
      using 1(1) Cons.prems(1) hello_add_addr_adds [of acc _ _ _ acc1]
      by (auto simp: send_hello_step_def reported_def split: if_splits option.splits elim!: bindE_InrE)
    then show ?case using Cons.IH [OF _ 1(2)] by (simp add: add.assoc)
  qed simp
  moreover have "blocks_ok ([], \<lambda>_. None)" by (simp add: blocks_ok_def)
  moreover obtain counts where "foldE (send_hello_step e now st) (tuples (linkset st)) ([], \<lambda>_. None) = Inr (body, counts)"
    using assms by (auto simp: hello_blocks_def elim!: bindE_InrE)
  ultimately have "blocks_ok (body, counts)"
    "advertised body = sum_list (map (reported e now st) (tuples (linkset st)))"
    by fastforce+
  then show ?thesis by (simp add: blocks_ok_def)
qed

subsection \<open>The handshake between two nodes\<close>

text \<open>
  The HELLO a node buffers.  Its blocks list, for a link with unique key, only the code of that
  link under its address.
\<close>

lemma send_hello_msg:
  assumes "send_hello e now a = Inr a'"
  obtains body where "hello_blocks e now (state_ptr a) = Inr body"
    "msg_type (last (msgs_of a')) = OLSR_HELLO_MSG" "orig_addr (last (msgs_of a')) = ra_addr e"
    "hello_body (msg_hello (last (msgs_of a'))) = body" "msgs_of a' = msgs_of a @ [last (msgs_of a')]"
    "state_ptr a' = state_ptr a"
proof -
  obtain seq a1 where n: "next_msg_seq a = (seq, a1)" by force
  then have a1: "state_ptr a1 = state_ptr a" "msgs_of a1 = msgs_of a" by (auto simp: next_msg_seq_def)
  obtain body m where b: "hello_blocks e now (state_ptr a1) = Inr body" "enque_jittered e now m a1 = Inr a'"
    "msg_type m = OLSR_HELLO_MSG" "orig_addr m = ra_addr e" "hello_body (msg_hello m) = body"
    using assms by (auto simp: send_hello_def n sized_def elim!: bindE_InrE)
  note fr = enque_jittered_frame [OF b(2)]
  show ?thesis using that [of body] a1 b fr by simp
qed

lemma in_sum_list_mset: "x \<in># sum_list Ms \<longleftrightarrow> (\<exists>M\<in>set Ms. x \<in># M)"
  by (induction Ms) auto

lemma reported_code:
  assumes "(c, x) \<in># reported e now st l"
  shows "x = l_nb_iface_addr l \<and>
    (\<exists>n. hello_nb_type st l = Inr (Some n) \<and> c = make_link_code (hello_link_type e now l) n)"
  using assms by (auto simp: reported_def split: if_splits sum.splits option.splits)

lemma hello_types_small:
  "hello_link_type e now l < 4" "hello_nb_type st l = Inr (Some n) \<Longrightarrow> n < 4"
  by (auto simp: hello_link_type_def hello_nb_type_def olsr_link_types olsr_neigh_types Let_def
    split: if_splits option.splits)

lemma hello_lists_receiver:
  assumes "olsr_state_ok (state_ptr a)" and "send_hello e now a = Inr a'"
    and "l \<in> set (tuples (linkset (state_ptr a)))" and "l_nb_iface_addr l = ri"
    and "get_main_addr (state_ptr a) (l_local_iface_addr l) = ra_addr e" and "l_time l \<ge> now"
    and "hello_nb_type (state_ptr a) l = Inr (Some n)"
    and "hello_link_type e now l = OLSR_ASYM_LINK \<or>
      hello_link_type e now l = OLSR_SYM_LINK \<and> n \<noteq> OLSR_NOT_NEIGH"
  shows "lists_receiver ri (last (msgs_of a')) \<and> hello_sized (last (msgs_of a')) \<and>
    msg_type (last (msgs_of a')) = OLSR_HELLO_MSG"
proof -
  let ?st = "state_ptr a" and ?m = "last (msgs_of a')"
  let ?lt = "hello_link_type e now l"
  obtain body where body: "hello_blocks e now ?st = Inr body" "msg_type ?m = OLSR_HELLO_MSG"
    "hello_body (msg_hello ?m) = body"
    using send_hello_msg [OF assms(2)] by metis
  note rep = hello_blocks_report [OF body(1)]
  have "reported e now ?st l = {#(make_link_code ?lt n, ri)#}"
    using assms(4-7) by (simp add: reported_def)
  then have "(make_link_code ?lt n, ri) \<in># sum_list (map (reported e now ?st) (tuples (linkset ?st)))"
    using assms(3) by (force simp: in_sum_list_mset)
  then obtain m0 where m0: "m0 \<in> set body" "link_code m0 = make_link_code ?lt n" "ri \<in> set (nb_iface_addrs m0)"
    using rep in_advertised by metis
  have only: "link_code m = make_link_code ?lt n" if "m \<in> set body" "ri \<in> set (nb_iface_addrs m)" for m
  proof -
    have "(link_code m, ri) \<in># advertised body" using that in_advertised by blast
    then obtain l' where l': "l' \<in> set (tuples (linkset ?st))" "(link_code m, ri) \<in># reported e now ?st l'"
      using rep by (auto simp: in_sum_list_mset)
    then have "l_nb_iface_addr l' = l_nb_iface_addr l" using reported_code [OF l'(2)] assms(4) by simp
    then have "l' = l" using assms(1,3) l'(1) distinct_key_eq [of l_nb_iface_addr]
      by (auto simp: olsr_state_ok_def links.unique_def)
    then show ?thesis using reported_code [OF l'(2)] assms(7) by auto
  qed
  have n: "n < 4" "n \<in> {OLSR_MPR_NEIGH, OLSR_SYM_NEIGH, OLSR_NOT_NEIGH}"
    using assms(7) by (auto simp: hello_nb_type_def Let_def olsr_neigh_types split: if_splits option.splits)
  have "confirms ri m" if "m \<in> set body" "ri \<in> set (nb_iface_addrs m)" for m
    using that(2) only [OF that] assms(8) n link_code_reads [OF hello_types_small(1) n(1), of e now l]
    by (auto simp: confirms_def invalid_link_def link_type_def nb_type_def olsr_link_types)
  then show ?thesis using m0 body rep by (auto simp: lists_receiver_def hello_sized_def)
qed

end
