(* ===== verification/Olsr_Examples.thy ===== *)
theory Olsr_Examples
  imports Olsr_Hello_Spec Olsr_Route_Spec
begin

text \<open>
  A small network for concrete instances: node 1 with the neighbours 2 and 3, which both reach node
  4; node 3 also reaches node 5, and node 5 has announced node 6.  Node 2 has chosen node 1 as a
  relay.
\<close>

definition demo_env :: olsr_env where
  "demo_env = \<lparr>ra_addr = IPv4 1, is_local_address = (\<lambda>x. x = IPv4 1), in_mac_layer = False,
     wlan_ifaces = [(0, 101)], iface_mac = (\<lambda>_. 0), iface_ipv4 = (\<lambda>_. 1),
     wlan_id_by_address = (\<lambda>x. if x = IPv4 1 then Some 0 else None), get_ap = (\<lambda>_. None),
     find_in_address_group = (\<lambda>_ _. False), address_group = (\<lambda>_. []), hello_ival = 2,
     tc_ival = 5, mid_ival = 5, refresh_interval = 2, willingness_par = 3, use_mac = True,
     use_index = False, optimized_mid = True, del_only_rt_entries = False,
     reduce_funcionality = False, addr_size = 4, max_simtime = 9223372, rnd = (\<lambda>_. 1 / 2),
     global_rtable = (\<lambda>_. None)\<rparr>"

definition pool_of :: "'a list \<Rightarrow> 'a pool" where
  "pool_of ts = foldl (\<lambda>s t. add_obj t s) empty_pool ts"

lemma pool_of_ok [simp]: "pool_ok (pool_of ts) \<and> tuples (pool_of ts) = ts"
proof -
  have "pool_ok (foldl (\<lambda>s t. add_obj t s) c ts) \<and>
      tuples (foldl (\<lambda>s t. add_obj t s) c ts) = tuples c @ ts" if "pool_ok c" for c :: "'a pool"
    using that by (induction ts arbitrary: c) (simp_all add: tuple_simps)
  then show ?thesis by (simp add: pool_of_def)
qed

definition demo_link :: "addr \<Rightarrow> link_tuple" where
  "demo_link x = \<lparr>l_local_iface_addr = IPv4 1, l_nb_iface_addr = x, l_sym_time = 16,
     l_asym_time = 16, l_lost_time = 0, l_time = 16, l_index = 0\<rparr>"

definition demo_nb :: "addr \<Rightarrow> nb_tuple" where
  "demo_nb x = \<lparr>nb_main_addr = x, nb_status = OLSR_STATUS_SYM, nb_willingness = OLSR_WILL_DEFAULT\<rparr>"

definition demo_n2 :: "addr \<Rightarrow> addr \<Rightarrow> nb2hop_tuple" where
  "demo_n2 x y = \<lparr>n2_nb_main_addr = x, n2_nb2hop_addr = y, n2_time = 16\<rparr>"

definition demo_topo :: "addr \<Rightarrow> addr \<Rightarrow> topology_tuple" where
  "demo_topo d l = \<lparr>t_dest_addr = d, t_last_addr = l, t_seq = 7, t_time = 25, t_index = 0\<rparr>"

definition demo_state :: olsr_state where
  "demo_state = \<lparr>linkset = pool_of [demo_link (IPv4 2), demo_link (IPv4 3)],
     nbset = pool_of [demo_nb (IPv4 2), demo_nb (IPv4 3)],
     nb2hopset = pool_of [demo_n2 (IPv4 2) (IPv4 4), demo_n2 (IPv4 3) (IPv4 4), demo_n2 (IPv4 3) (IPv4 5)],
     topologyset = pool_of [demo_topo (IPv4 6) (IPv4 5)], mprset = {IPv4 3},
     mprselset = pool_of [\<lparr>ms_main_addr = IPv4 2, ms_time = 16\<rparr>], dupset = pool_of [],
     ifaceassocset = pool_of [own_iface demo_env (0, 101)]\<rparr>"

definition demo_agent :: olsr where
  "demo_agent = initial_agent\<lparr>state_ptr := demo_state\<rparr>"

lemmas demo_defs = demo_env_def demo_link_def demo_nb_def demo_n2_def demo_topo_def own_iface_def
  getIfaceAddressFromIndex_def

lemma demo_tuples [simp]:
  "tuples (linkset demo_state) = [demo_link (IPv4 2), demo_link (IPv4 3)]"
  "tuples (nbset demo_state) = [demo_nb (IPv4 2), demo_nb (IPv4 3)]"
  "tuples (nb2hopset demo_state) =
     [demo_n2 (IPv4 2) (IPv4 4), demo_n2 (IPv4 3) (IPv4 4), demo_n2 (IPv4 3) (IPv4 5)]"
  "tuples (topologyset demo_state) = [demo_topo (IPv4 6) (IPv4 5)]"
  "tuples (mprselset demo_state) = [\<lparr>ms_main_addr = IPv4 2, ms_time = 16\<rparr>]"
  "tuples (dupset demo_state) = []"
  "tuples (ifaceassocset demo_state) = [own_iface demo_env (0, 101)]"
  by (simp_all add: demo_state_def)

lemma demo_state_agent [simp]: "state_ptr demo_agent = demo_state"
  by (simp add: demo_agent_def)

lemma demo_env_ok: "env_ok demo_env" "ifaces_distinct demo_env"
  by (simp_all add: env_ok_def ifaces_distinct_def demo_env_def)

lemma demo_state_ok: "olsr_state_ok demo_state"
  by (simp add: olsr_state_ok_def olsr_unique_defs)
    (simp add: demo_state_def demo_link_def demo_nb_def demo_n2_def n2_key_def)

text \<open>A node that has just started.\<close>

definition demo_start :: olsr where
  "demo_start = (initial_agent\<lparr>state_ptr := record_ifaceassoc (own_iface demo_env (0, 101)) OLSR_state_init,
     timerQueue := [(2, HelloTimer), (2, TcTimer), (2, MidTimer)], timerMessage := Some 2\<rparr>)"

lemma demo_start_initialized: "initialize demo_env 0 = Inr demo_start"
proof -
  have w: "wlan_ifaces demo_env = [(0, 101)]" by (simp add: demo_env_def)
  show ?thesis
    by (simp add: initialize_def w own_iface_step_record)
      (simp add: start_timers_def schedule_def resched_def scheduleNextEvent_def demo_start_def
        initial_agent_def demo_env_def)
qed

lemma demo_start_reachable: "node_reachable demo_env (True, demo_start)"
  using demo_start_initialized by (rule born)

lemma demo_start_ok: "agent_ok {} demo_start" "awake demo_start"
  using node_ok_reachable [OF demo_env_ok demo_start_reachable] by simp_all

text \<open>Node 2 once more, now with the second interface 7 and a link to that one only.\<close>

definition twin_agent :: olsr where
  "twin_agent = initial_agent\<lparr>state_ptr := \<lparr>linkset = pool_of [demo_link (IPv4 7)],
     nbset = pool_of [demo_nb (IPv4 2)], nb2hopset = pool_of [], topologyset = pool_of [],
     mprset = {}, mprselset = pool_of [], dupset = pool_of [],
     ifaceassocset = pool_of [\<lparr>ia_iface_addr = IPv4 7, ia_main_addr = IPv4 2, ia_time = 16, ia_index = 0\<rparr>]\<rparr>\<rparr>"

lemma twin_live: "links_live 1 (state_ptr twin_agent)" "sym_nb (state_ptr twin_agent) (IPv4 2)"
proof -
  have "get_main_addr (state_ptr twin_agent) (IPv4 7) = IPv4 2"
  proof (cases "find_ifaceassoc_tuple (state_ptr twin_agent) (IPv4 7)")
    case None
    then show ?thesis by (simp add: find_ifaceassoc_tuple_def find_ptr_None twin_agent_def)
  next
    case (Some p)
    then show ?thesis
      using find_ptr_SomeD(3) [of "\<lambda>t. ia_iface_addr t = IPv4 7" "ifaceassocset (state_ptr twin_agent)" p]
      by (simp add: get_main_addr_def find_ifaceassoc_tuple_def) (simp add: twin_agent_def)
  qed
  then have "live_link 1 (state_ptr twin_agent) (IPv4 2) (demo_link (IPv4 7))"
    by (simp add: live_link_def demo_link_def) (simp add: twin_agent_def demo_link_def)
  then show "links_live 1 (state_ptr twin_agent)"
    by (auto simp: links_live_def sym_nb_def twin_agent_def demo_nb_def)
  show "sym_nb (state_ptr twin_agent) (IPv4 2)"
    by (simp add: sym_nb_def twin_agent_def demo_nb_def)
qed

text \<open>Messages: node 3 announces node 8, and node 9 says that it hears node 1.\<close>

definition demo_tc :: olsr_msg where
  "demo_tc = \<lparr>msg_type = OLSR_TC_MSG, vtime = 0x86, msg_size = 20, orig_addr = IPv4 3, ttl = 255,
     hop_count = 0, msg_seq_num = 11, msg_hello = zero_hello,
     msg_tc = \<lparr>tc_ansn = 4, tc_reserved = 0, nb_main_addrs = [IPv4 8]\<rparr>, msg_mid = zero_mid\<rparr>"

definition demo_hello :: olsr_msg where
  "demo_hello = \<lparr>msg_type = OLSR_HELLO_MSG, vtime = 0x86, msg_size = 24, orig_addr = IPv4 9, ttl = 1,
     hop_count = 0, msg_seq_num = 12, msg_hello = \<lparr>h_reserved = 0, htime = 5, h_willingness = 3,
       hello_body = [\<lparr>link_code = 1, hm_reserved = 0, link_msg_size = 8, nb_iface_addrs = [IPv4 1]\<rparr>]\<rparr>,
     msg_tc = zero_tc, msg_mid = zero_mid\<rparr>"

lemma demo_msgs:
  "msg_type demo_tc = OLSR_TC_MSG" "orig_addr demo_tc = IPv4 3" "tc_ansn (msg_tc demo_tc) = 4"
  "nb_main_addrs (msg_tc demo_tc) = [IPv4 8]" "msg_type demo_hello = OLSR_HELLO_MSG"
  "orig_addr demo_hello = IPv4 9" "msg_sized demo_tc" "msg_sized demo_hello" "hello_sized demo_hello"
  "lists_receiver (IPv4 1) demo_hello"
  by (simp_all add: demo_tc_def demo_hello_def msg_sized_def hello_sized_def olsr_msg_types olsr_limits
    lists_receiver_def confirms_def invalid_link_def link_type_def nb_type_def OLSR_SYM_LINK_def
    OLSR_ASYM_LINK_def OLSR_NOT_NEIGH_def OLSR_SYM_NEIGH_def OLSR_MPR_NEIGH_def)

lemma demo_sym_link: "find_sym_link_tuple demo_state (IPv4 3) 1 \<noteq> None"
proof (cases "find_ptr (\<lambda>t. l_nb_iface_addr t = IPv4 3) (linkset demo_state)")
  case None
  then show ?thesis by (simp add: find_ptr_None demo_link_def)
next
  case (Some p)
  then show ?thesis using find_ptr_SomeD(3) [OF Some]
    by (auto simp: find_sym_link_tuple_def demo_link_def)
qed

definition demo_receptions :: "reception list" where
  "demo_receptions = [(1, IPv4 1, IPv4 9, 0, demo_hello), (2, IPv4 1, IPv4 9, 0, demo_tc)]"

lemma demo_receptions_sized: "\<forall>(now, ri, src, idx, msg)\<in>set demo_receptions. msg_sized msg"
  by (simp add: demo_receptions_def demo_msgs)

end
