(* ===== verification/Spec2Isabelle.thy ===== *)
theory Spec2Isabelle
  imports Xmac_Examples Dsr_Agent_Examples Olsr_Examples
begin

text \<open>
  A model of the routing and medium access protocols of SyncFanet, a network simulator for swarms of
  unmanned aircraft built on OMNeT++ and INET.  The code modelled is the project's own part,
  \<open>src/FanetSimSync/uavnet\<close>: the OLSR agent (\<open>routing/manet/olsr\<close>), the DSR agent with its route
  caches (\<open>routing/manet/dsr\<close>) and the X-MAC layer (\<open>linklayer/xmac\<close>); with what they use directly of
  INET, \<open>L3Address\<close> and the radio (\<open>physicallayer/common/packetlevel/Radio\<close>).

  \<^bold>\<open>OLSR.\<close>  A node keeps repositories of tuples (links, neighbours, two-hop neighbours, MPR selectors,
  topology, duplicates, interface associations) in vectors of pointers, a routing table in a map, and
  a queue of timers, one for every tuple that expires.  Messages add and refresh tuples, expiring
  timers and lost links remove them, and relays and routes are recomputed from them.
  \<^item> \<open>Tuple_Store\<close> (a vector of pointers into a store, with the locale \<open>keyed_store\<close>),
    \<open>Olsr_Repositories\<close> (\<open>OLSR_repositories.h\<close>) and \<open>Olsr_State\<close> (\<open>OLSR_state.cc\<close>): the repositories.
  \<^item> \<open>Olsr_Rtable\<close> (\<open>OLSR_rtable.cc\<close>) and \<open>L3_Address\<close> (its keys): the routing table.
  \<^item> \<open>Olsr_Pkt\<close> (\<open>OLSRpkt_m.h\<close>, the time format and sequence numbers of \<open>OLSR.cc\<close>): messages.
  \<^item> \<open>Olsr_Timers\<close> (the multimap of timers, with the locale \<open>timer_queue\<close>) and \<open>Olsr_Agent\<close> (the
    fields of the agent, counters, adding and removing tuples; what it asks of its base class and of
    the simulator is the record \<open>olsr_env\<close>).
  \<^item> \<open>Olsr_Mpr\<close> (\<open>mpr_computation\<close>), \<open>Olsr_Routing\<close> (\<open>rtable_computation\<close> and the queries),
    \<open>Olsr_Process\<close> (reception and lost links), \<open>Olsr_Send\<close> (generation), \<open>Olsr_Sched\<close> (timers, the
    event loop, start and stop).
  \<^item> \<open>Olsr_Events\<close>, \<open>Olsr_Loop\<close>, \<open>Olsr_Invariants\<close>, \<open>Olsr_Life\<close>: the invariant of the agent, that every
    handler keeps it and that the loop over the due timers ends; \<open>Olsr_Route_Facts\<close> and
    \<open>Olsr_Route_Spec\<close>: the table computed is the one of a breadth-first reference; \<open>Olsr_Hello_Spec\<close>
    and \<open>Olsr_Process_Spec\<close>: what messages do to the repositories.

  \<^bold>\<open>DSR route caches.\<close>  A node records source routes either as paths with expiry times and costs or as
  links over which it searches shortest routes; \<open>pathCacheConf\<close> chooses.
  \<^item> \<open>Std_Map\<close> (an ordered map, with the locale \<open>bucket_map\<close> for maps to buckets), \<open>Binary64\<close> (rounding
    of sums of costs), \<open>Dsr_Paths\<close> (the paths half of \<open>DsrDataBase.cc\<close>) and \<open>Dsr_Paths_Spec\<close> (it
    refines a map from destination and route to a live path; which path a search returns).
  \<^item> \<open>Dsr_Links\<close> (the links half: an explicit store of links, the search \<open>run\<close> with its heap, routes),
    \<open>Dsr_Links_Spec\<close> (the search ends with a tree of shortest routes) and \<open>Dsr_Links_Inv\<close> (the
    invariant of the link cache, kept by every operation).
  \<^item> \<open>Dsr_Access\<close> (\<open>dsr_access_database.cc\<close> and the entry points \<open>RouteFind\<close>, \<open>RouteAdd\<close>,
    \<open>linkFailed\<close> of the agent) and \<open>Dsr_Access_Spec\<close> (states reached by any calls at any times).

  \<^bold>\<open>DSR agent.\<close>  A packet of the upper layer is sent with a source route from the caches, or waits in the
  send buffer while a request for its destination is flooded; replies bring routes back, packets that
  are not acknowledged are sent again from the maintenance buffer, salvaged over another route or
  given up, and errors tell the source.
  \<^item> \<open>Dsr_Options\<close> (\<open>dsr_options.h\<close>) and \<open>Dsr_Srt\<close> (the functions of \<open>dsr-srt.cc\<close> on source routes);
    \<open>Dsr_Srt_Spec\<close>: what splitting, shortcuts, duplicate checks and the option do to the list of nodes.
  \<^item> \<open>Dsr_State\<close> (the state of \<open>class DSRUU\<close>, times, packets), \<open>Dsr_Neigh\<close> (\<open>neigh.cc\<close>), \<open>Dsr_Packet\<close>
    (\<open>dsr-pkt.cc\<close>, \<open>dsr-opt.cc\<close>, \<open>dsr-pkt_omnet.cc\<close>), \<open>Dsr_Tables\<close> (the request table and the table of
    gratuitous replies), \<open>Dsr_Send\<close> (requests, replies, errors, acknowledgments), \<open>Dsr_Maint\<close>
    (\<open>maint-buf.cc\<close> and \<open>omnet_xmit\<close>), \<open>Dsr_Sendbuf\<close> (\<open>send-buf.cc\<close>, route discovery), \<open>Dsr_Recv\<close> (the
    handlers of the options and \<open>dsr_recv\<close>), \<open>Dsr_Events\<close> (\<open>dsr-uu-omnetpp.cc\<close>: datagrams, signals,
    timers, stop and start, and the runs of a node).
  \<^item> \<open>Dsr_Agent_Frame\<close> (what the mutually recursive functions leave alone), \<open>Dsr_Agent_Inv\<close> (the
    invariant of a node and that every handler keeps it), \<open>Dsr_Agent_Spec\<close> (all runs; requests and
    their duplicates), \<open>Dsr_Route_Spec\<close> (a packet travels along its route to the destination) and
    \<open>Dsr_Discovery_Spec\<close> (the schedule of a discovery, and what a relayed reply does).
  \<^item> \<open>Dsr_Fuel\<close> (more fuel never changes a result; calls to the path cache leave no route that was not
    there), \<open>Dsr_Ends\<close> (the functions of the maintenance buffer end), \<open>Dsr_Learn\<close> (the length of the
    routes a node records), \<open>Dsr_Returns\<close> (every event of a node returns) and \<open>Dsr_Reply_Spec\<close> (a
    reply sends what waits for the nodes it lists, from every state of a run).

  \<^bold>\<open>X-MAC.\<close>  A node sleeps, wakes up to listen, and announces packets by preambles.
  \<^item> \<open>Xmac_Types\<close> (messages, the state of the MAC layer, of the radio and the future events of the
    simulator in their order), \<open>Xmac_Radio\<close> (\<open>Radio.cc\<close>, with the MAC layer's \<open>receiveSignal\<close>, which
    runs in the middle of a change of mode), \<open>Xmac_Mac\<close> (\<open>AnyMacXmacLayer.cc\<close>, one function per
    state of \<open>handleSelfMessage\<close>) and \<open>Xmac_Node\<close> (the steps of a node: the next event, a packet of
    the network layer, the first bit of a packet on air).
  \<^item> \<open>Xmac_Inv\<close>, \<open>Xmac_Actions\<close>, \<open>Xmac_Safe\<close>, \<open>Xmac_Steps\<close>: the invariant (the radio mode and the
    pending timers of every state) and that all steps keep it; \<open>Xmac_Props\<close>: what follows.

  The properties of the components stand with them; those of the OLSR agent as a whole are below.
  \<open>Olsr_Examples\<close>, \<open>Dsr_Examples\<close>, \<open>Dsr_Agent_Examples\<close> and \<open>Xmac_Examples\<close> hold the states on which they are applied.
  Where the code does not do what it means to, a property says what it does (for instance
  \<open>data_never_sent\<close>, \<open>getPath_by_expiry\<close>, \<open>no_request_remembered\<close>).

  \<^bold>\<open>Conventions.\<close>  A function that can throw, fail an \<open>assert\<close> or read what the language leaves
  undefined returns a \<open>fault\<close> as \<open>Inl\<close>.  Loops whose end is not evident are partial functions with
  result in \<open>option\<close>, and are proved to return.  Only the functions of the maintenance buffer, which
  call each other through \<open>omnet_xmit\<close>, take fuel: their first argument bounds the depth of the calls,
  and a call that runs out of it returns \<open>None\<close>.  With the path cache, and options with less than 63
  addresses, as many as the field for the segments left counts, there is always enough fuel
  (\<open>dsr_events_return\<close>, for nodes without ETX and with \<open>RREQMulVisit\<close> 0).  Fixed-width integers of packets and
  counters are words; hop counts of one path computation are natural numbers bounded by the number
  of nodes.  \<open>simtime_t\<close> and \<open>double\<close> are exact real numbers, except for the costs of the link cache,
  whose sums are rounded as in binary64: as IPv4 addresses have 32 bits, path costs stay below
  \<open>2 ^ 53\<close> and are exact.  Objects that are shared and deleted live in explicit stores (tuples,
  links), so that a dangling pointer is a pointer to nothing.  Random numbers, jitter and the
  answers of the medium are parameters.  The entries the OLSR agent writes to the IP routing table
  are recorded as the list of its calls; its static tables belong to the environment of one agent.

  \<^bold>\<open>Not modelled.\<close>  The ETX and optimised variants of OLSR, of the DSR agent the measurement of ETX
  (\<open>EtxMsgSend\<close>, \<open>EtxMsgProc\<close>), ICMP and control messages, the reading of its parameters and the
  lengths of packets in bits, the base class of the routing protocols (sockets and tables of INET), generated message code, statistics, printing, animation, the
  applications, and the rest of INET.  Of the radio, separate preambles, headers and data, life cycle
  and the medium are not modelled: the medium decides which receptions are attempted and how long a
  packet takes.  Of \<open>L3Address\<close>, parsing, printing and the classification of addresses.  An X-MAC
  address is its 48-bit number; the flag of 64-bit addresses, which comparisons ignore, is left out.
\<close>

section \<open>The node\<close>

text \<open>
  C1: whatever happens to a node after its initialization (self messages, packets of any content,
  broken links, stopping and starting), while it runs its tuple sets have unique keys and no
  dangling pointer, its routing table is ordered, its timer queue is ordered and holds every timer
  once, each link, two-hop, MPR selector, topology and duplicate tuple has exactly the timer that will
  delete it (of interface associations, that their timers refer to allocated ones), and the self
  message is scheduled for the head of the queue; while it is stopped it has no timer at all.
\<close>

theorem node_invariant:
  assumes "env_ok e" and "ifaces_distinct e" and "node_reachable e (up, a)"
  shows "if up then agent_ok {} a \<and> awake a else stopped a"
  using node_ok_reachable [OF assms] by (cases up) simp_all

lemma node_invariant_witness: "agent_ok {} demo_start \<and> awake demo_start"
  using node_invariant [OF demo_env_ok demo_start_reachable] by simp

text \<open>
  C2: no use after free.  The tuple a timer in the queue of a running node refers to is allocated,
  and a link, two-hop, MPR selector, topology or duplicate tuple in a set has a timer in the queue.
\<close>

theorem timers_and_tuples:
  assumes "env_ok e" and "ifaces_distinct e" and "node_reachable e (True, a)"
  shows "(\<forall>t\<in>snd ` set (timerQueue a). target_allocated (state_ptr a) t) \<and>
    tuple_timers (state_ptr a) \<subseteq> snd ` set (timerQueue a) \<and>
    (\<forall>p\<in>set (pvec (linkset (state_ptr a))). \<exists>b. LinkTupleTimer p b \<in> snd ` set (timerQueue a))"
proof -
  have "agent_ok {} a" using node_ok_reachable [OF assms] by simp
  then have t: "timed (jobs a) (state_ptr a)" by (simp add: agent_ok_def state_inv_def)
  show ?thesis
    using timed_allocated [OF t] timed_tuples [OF t] unfolding jobs_def by blast
qed

lemma timers_and_tuples_witness:
  "HelloTimer \<in> snd ` set (timerQueue demo_start) \<and>
   tuple_timers (state_ptr demo_start) \<subseteq> snd ` set (timerQueue demo_start)"
  using timers_and_tuples [OF demo_env_ok demo_start_reachable] by (simp add: demo_start_def)

text \<open>
  C26: serving the due timers ends.  Unless a handler stops the simulation, every appointment left
  is in the future, and the node is in order.
\<close>

theorem due_timers_served:
  assumes "env_ok e" and "agent_ok {} a"
  shows "\<exists>r. timer_loop e now a = Some r \<and>
    (\<forall>a'. r = Inr a' \<longrightarrow> agent_ok {} a' \<and> (\<forall>p\<in>set (timerQueue a'). now < fst p))"
  using timer_loop_returns [OF assms, of now] by blast

lemma due_timers_served_witness: "\<exists>r. timer_loop demo_env 2 demo_start = Some r"
  using due_timers_served [OF demo_env_ok(1) demo_start_ok(1), of 2] by blast

text \<open>
  C27: a message of the module does its work and then schedules the self message for the head of the
  queue, nothing else; the loop over the timers returns and the queue check never stops the run.
\<close>

theorem handleMessage_works:
  assumes "env_ok e" and "agent_ok {} a" and "awake a"
  shows "\<exists>r. (case ev of SelfMessage \<Rightarrow> timer_loop e now (a\<lparr>timerMessage := None\<rparr>) = Some r
      | Arrival m \<Rightarrow> recv_olsr e now m a = r) \<and>
    handleMessage e True now ev a = (case r of Inl f \<Rightarrow> Inl f
      | Inr b \<Rightarrow> Inr (b\<lparr>timerMessage := Some (fst (hd (timerQueue b)))\<rparr>))"
  using handleMessage_eq [OF assms, where ev = ev and now = now] .

lemma handleMessage_works_witness:
  "\<exists>r. recv_olsr demo_env 1 OtherPacket demo_start = r \<and>
    handleMessage demo_env True 1 (Arrival OtherPacket) demo_start = (case r of Inl f \<Rightarrow> Inl f
      | Inr b \<Rightarrow> Inr (b\<lparr>timerMessage := Some (fst (hd (timerQueue b)))\<rparr>))"
  using handleMessage_works [OF demo_env_ok(1) demo_start_ok, where ev = "Arrival OtherPacket" and now = 1] by simp

section \<open>Multipoint relays\<close>

text \<open>
  C20: the selection of relays returns, and the relays reach every strict two-hop neighbour: each
  target of a two-hop tuple that is neither this node nor a symmetric neighbour, and that a willing
  symmetric neighbour reaches, is reached by a relay.
\<close>

theorem relays_cover_two_hop:
  assumes "olsr_state_ok st"
  shows "\<exists>M. mpr_computation e st = Inr (st\<lparr>mprset := M\<rparr>) \<and>
    (\<forall>t. strict_two_hop e st t \<longrightarrow>
       (\<exists>u. strict_two_hop e st u \<and> n2_nb2hop_addr u = n2_nb2hop_addr t \<and> n2_nb_main_addr u \<in> M))"
proof -
  obtain M where "mpr_computation e st = Inr (st\<lparr>mprset := M\<rparr>)" "relay_inv (mpr_N2 e st) M []"
    using mpr_computation_result .
  then show ?thesis using relays_reach [OF assms] by blast
qed

lemma relays_cover_two_hop_witness:
  "\<exists>M. mpr_computation demo_env demo_state = Inr (demo_state\<lparr>mprset := M\<rparr>) \<and> IPv4 3 \<in> M"
proof -
  have "strict_two_hop demo_env demo_state (demo_n2 (IPv4 3) (IPv4 5))"
    by (simp add: strict_two_hop_def willing_sym_def demo_defs OLSR_WILL_DEFAULT_def OLSR_WILL_NEVER_def)
  moreover obtain M where M: "mpr_computation demo_env demo_state = Inr (demo_state\<lparr>mprset := M\<rparr>)"
    "\<And>t. strict_two_hop demo_env demo_state t \<Longrightarrow> \<exists>u. strict_two_hop demo_env demo_state u \<and>
       n2_nb2hop_addr u = n2_nb2hop_addr t \<and> n2_nb_main_addr u \<in> M"
    using relays_cover_two_hop [OF demo_state_ok, of demo_env] by blast
  ultimately obtain u where u: "strict_two_hop demo_env demo_state u" "n2_nb2hop_addr u = IPv4 5"
    "n2_nb_main_addr u \<in> M"
    using M(2) [of "demo_n2 (IPv4 3) (IPv4 5)"] by (auto simp: demo_n2_def)
  then have "n2_nb_main_addr u = IPv4 3" by (auto simp: strict_two_hop_def demo_n2_def)
  then show ?thesis using M(1) u(3) by auto
qed

text \<open>
  Only willing symmetric neighbours become relays, and every symmetric neighbour that is always
  willing does.
\<close>

theorem relays_are_willing:
  "\<exists>M. mpr_computation e st = Inr (st\<lparr>mprset := M\<rparr>) \<and>
    M \<subseteq> {nb_main_addr n |n. n \<in> set (tuples (nbset st)) \<and> nb_status n = OLSR_STATUS_SYM \<and>
      nb_willingness n \<noteq> OLSR_WILL_NEVER} \<and>
    {nb_main_addr n |n. n \<in> set (tuples (nbset st)) \<and> nb_status n = OLSR_STATUS_SYM \<and>
      nb_willingness n = OLSR_WILL_ALWAYS} \<subseteq> M"
proof -
  obtain M where "mpr_computation e st = Inr (st\<lparr>mprset := M\<rparr>)" "always_sym st \<subseteq> M" "M \<subseteq> willing_sym st"
    using mpr_computation_result .
  then show ?thesis by (fastforce simp: always_sym_def willing_sym_def)
qed

text \<open>
  C29: the relay added in a turn of the loop is a neighbour that covers something, and among those
  none is more willing, none as willing covers more, and none equal in both has a higher degree.
\<close>

theorem relay_choice_lexicographic:
  assumes "mpr_max st N N2 = Some m" and "n \<in> set N" and "reachability N2 n \<noteq> 0"
  shows "m \<in> set N \<and> reachability N2 m \<noteq> 0 \<and> nb_willingness n \<le> nb_willingness m \<and>
    (nb_willingness n = nb_willingness m \<longrightarrow> reachability N2 n \<le> reachability N2 m) \<and>
    (nb_willingness n = nb_willingness m \<and> reachability N2 n = reachability N2 m \<longrightarrow>
      degree st n \<le> degree st m)"
  using mpr_max_Some [OF assms(1)] mpr_max_best [OF assms] by (auto simp: merit_def)

lemma relay_choice_lexicographic_witness:
  "\<exists>m. mpr_max demo_state (mpr_N demo_state) (mpr_N2 demo_env demo_state) = Some m \<and>
     reachability (mpr_N2 demo_env demo_state) (demo_nb (IPv4 3)) \<le>
     reachability (mpr_N2 demo_env demo_state) m"
proof -
  have N: "mpr_N demo_state = [demo_nb (IPv4 2), demo_nb (IPv4 3)]"
    by (simp add: mpr_N_def demo_nb_def)
  have N2: "mpr_N2 demo_env demo_state =
      [demo_n2 (IPv4 2) (IPv4 4), demo_n2 (IPv4 3) (IPv4 4), demo_n2 (IPv4 3) (IPv4 5)]"
    by (simp add: mpr_N2_def in_N2_def N demo_defs OLSR_WILL_DEFAULT_def OLSR_WILL_NEVER_def)
  have r: "reachability (mpr_N2 demo_env demo_state) (demo_nb (IPv4 3)) \<noteq> 0"
    by (simp add: reachability_def N2 demo_nb_def demo_n2_def)
  have "demo_nb (IPv4 3) \<in> set (mpr_N demo_state)" by (simp add: N)
  moreover from mpr_max_exists [OF this r] obtain m where
    m: "mpr_max demo_state (mpr_N demo_state) (mpr_N2 demo_env demo_state) = Some m" by blast
  ultimately have "nb_willingness m = OLSR_WILL_DEFAULT"
    using relay_choice_lexicographic [OF m _ r] by (auto simp: N demo_nb_def)
  then show ?thesis
    using relay_choice_lexicographic [OF m _ r] m by (simp add: N demo_nb_def)
qed

section \<open>Routes\<close>

lemma demo_routing:
  "links_live 1 demo_state" "single_iface demo_state" "finite (mprset demo_state)"
  "\<forall>x\<in>mprset demo_state. sym_nb demo_state x" "ra_addr demo_env \<notin> mprset demo_state"
  "others_listed demo_env"
proof -
  show i: "single_iface demo_state" by (simp add: single_iface_def own_iface_def demo_defs)
  have "live_link 1 demo_state x (demo_link x)" if "x = IPv4 2 \<or> x = IPv4 3" for x
    using that by (auto simp: live_link_def single_iface_main [OF i] demo_link_def)
  moreover have "x = IPv4 2 \<or> x = IPv4 3" if "sym_nb demo_state x" for x
    using that by (auto simp: sym_nb_def demo_nb_def)
  ultimately show "links_live 1 demo_state" unfolding links_live_def by blast
  show "others_listed demo_env" by (simp add: others_listed_def demo_env_def)
  show "ra_addr demo_env \<notin> mprset demo_state" by (simp add: demo_env_def demo_state_def)
qed (simp_all add: demo_state_def sym_nb_def demo_nb_def)

lemma demo_computed:
  obtains a' en where "rtable_computation demo_env 1 demo_agent = Inr a'"
    "rtable_lookup (rtable_of a') (IPv4 2) = Some en"
proof -
  obtain a' where a': "rtable_computation demo_env 1 demo_agent = Inr a'"
    using rtable_computation_total [of 1 demo_agent demo_env] demo_routing by auto
  then obtain b where b: "rt_build demo_env 1 demo_agent = Inr b" "rtable_of a' = fst b"
    using rtable_computation_parts by metis
  have "sym_nb demo_state (IPv4 2)" by (simp add: sym_nb_def demo_nb_def)
  then obtain en where "rtable_lookup (rtable_of a') (IPv4 2) = Some en"
    using rt_build_reaches(1) [OF b(1), of "IPv4 2"] demo_routing(1) b(2) by auto
  then show ?thesis using that a' by blast
qed

text \<open>
  Every entry of the computed table is justified by the tuple sets: it is filed under its
  destination, its distance and next hop are those of a chain of a live link of a symmetric
  neighbour, at most one two-hop tuple, topology and interface tuples, and it lists the nodes in
  between, the first one being the next hop.
\<close>

theorem routes_justified:
  assumes "rtable_computation e now a = Inr a'" and "rtable_lookup (rtable_of a') d = Some en"
  shows "dest_addr en = d \<and> route_to now (state_ptr a) d (next_addr en) (dist en) \<and>
    Suc (length (route en)) = dist en \<and> (route en \<noteq> [] \<longrightarrow> hd (route en) = next_addr en)"
proof -
  obtain b where b: "rt_build e now a = Inr b" "rtable_of a' = fst b"
    using rtable_computation_parts [OF assms(1)] .
  show ?thesis
    using rt_inv_entry [OF rt_build_inv [OF b(1)]] assms(2) by (simp add: b(2) entry_ok_def)
qed

text \<open>
  C7: with one interface per node, live links to the symmetric neighbours and relays among them, the
  computation returns and the table holds exactly the destinations with a hop count in the tuple
  sets, each at its least hop count.
\<close>

theorem routes_shortest:
  assumes "links_live now (state_ptr a)" and "single_iface (state_ptr a)"
    and "finite (mprset (state_ptr a))" and "\<forall>x\<in>mprset (state_ptr a). sym_nb (state_ptr a) x"
    and "ra_addr e \<notin> mprset (state_ptr a)"
    and "others_listed e"
  shows "\<exists>a'. rtable_computation e now a = Inr a' \<and>
    (\<forall>d h. (\<exists>en. rtable_lookup (rtable_of a') d = Some en \<and> dist en = h) \<longleftrightarrow>
      hops (state_ptr a) d h \<and> (\<forall>h'. hops (state_ptr a) d h' \<longrightarrow> h \<le> h'))"
proof -
  obtain a' where a': "rtable_computation e now a = Inr a'"
    using rtable_computation_total [OF assms(1,3-6)] ..
  then show ?thesis
    using rtable_computation_parts [OF a'] rt_build_shortest [OF _ assms(1,2)] by metis
qed

lemma routes_shortest_witness:
  "\<exists>a'. rtable_computation demo_env 1 demo_agent = Inr a' \<and>
     (\<exists>en. rtable_lookup (rtable_of a') (IPv4 2) = Some en \<and> dist en = 1)"
proof -
  obtain a' where a': "rtable_computation demo_env 1 demo_agent = Inr a'"
    "\<And>d h. (\<exists>en. rtable_lookup (rtable_of a') d = Some en \<and> dist en = h) \<longleftrightarrow>
      hops demo_state d h \<and> (\<forall>h'. hops demo_state d h' \<longrightarrow> h \<le> h')"
    using routes_shortest [of 1 demo_agent demo_env] demo_routing by (auto simp del: One_nat_def)
  have "hops demo_state (IPv4 2) 1" by (rule hops.neighbour) (simp add: sym_nb_def demo_nb_def)
  then show ?thesis using a' hops_pos by blast
qed

lemma routes_justified_witness:
  "\<exists>a' en. rtable_computation demo_env 1 demo_agent = Inr a' \<and>
     rtable_lookup (rtable_of a') (IPv4 2) = Some en \<and> route_to 1 demo_state (IPv4 2) (next_addr en) (dist en)"
  using routes_justified demo_computed demo_state_agent by metis

text \<open>
  C21: the routes a node hands out follow announced links.  With one interface per node and live
  links, \<open>getRoute\<close> answers every destination of the table without a data base error; the nodes it
  returns form a loop-free path from a symmetric neighbour along two-hop and topology tuples to the
  destination, as long as the distance.
\<close>

theorem getRoute_path:
  assumes "rtable_computation e now a = Inr a'" and "links_live now (state_ptr a)"
    and "single_iface (state_ptr a)" and "rtable_lookup (rtable_of a') d = Some en"
  shows "\<exists>p. getRoute e a' d = Inr (dist en, p) \<and> length p = dist en \<and> last p = d \<and>
    follows (state_ptr a) p \<and> distinct p \<and> hd p = next_addr en \<and> sym_nb (state_ptr a) (hd p)"
proof -
  obtain b where b: "rt_build e now a = Inr b" "rtable_of a' = fst b"
    using rtable_computation_parts [OF assms(1)] .
  have p: "path_entry (state_ptr a) (fst b) d en"
    using rt_build_paths [OF b(1) assms(2,3)] assms(4) b(2) by (simp add: path_table_def)
  have ok: "entry_ok now (state_ptr a) d en"
    using rt_inv_entry [OF rt_build_inv [OF b(1)]] assms(4) b(2) by simp
  then have s: "sym_nb (state_ptr a) (next_addr en)" "dist en = 1 \<longrightarrow> d = next_addr en"
    using route_to_single [OF assms(3)] by (auto simp: entry_ok_def)
  have h: "hd (route en @ [d]) = next_addr en"
    using ok s(2) by (cases "route en") (auto simp: entry_ok_def)
  obtain n where "find_send_entry (fst b) (Some en) = Some (Some n)" "next_addr n = next_addr en"
    using find_send_entry_one_step [OF rt_build_single(1) [OF b(1) assms(3)]] assms(4) b(2) by metis
  then have "getRoute e a' d = Inr (dist en, route en @ [d])"
    using assms(4) b(2) h by (simp add: getRoute_def route_entry_def check_send_def Let_def)
  then show ?thesis
    using p path_entry_distinct [OF p] h s(1) by (auto simp: path_entry_def)
qed

lemma getRoute_path_witness:
  "\<exists>a' d p. rtable_computation demo_env 1 demo_agent = Inr a' \<and>
     getRoute demo_env a' (IPv4 2) = Inr (d, p) \<and> follows demo_state p \<and> last p = IPv4 2"
  using getRoute_path demo_computed demo_routing(1,2) demo_state_agent by metis

text \<open>
  A neighbour that is heard only through an interface other than its main address can not be
  addressed by that main address: the table has an entry for it, but every route query for it ends
  in an error (the consistency check of \<open>getRoute\<close> and \<open>getNextHop\<close> compares the interface address
  with the destination).
\<close>

theorem other_interface_unroutable:
  assumes "rtable_computation e now a = Inr a'" and "links_live now (state_ptr a)"
    and "sym_nb (state_ptr a) x"
    and "\<forall>l\<in>set (tuples (linkset (state_ptr a))). l_nb_iface_addr l \<noteq> x"
    and "\<forall>u\<in>set (tuples (ifaceassocset (state_ptr a))). ia_iface_addr u \<noteq> x"
  shows "rtable_lookup (rtable_of a') x \<noteq> None \<and> (\<exists>f. getRoute e a' x = Inl f)"
proof -
  obtain b where b: "rt_build e now a = Inr b" "rtable_of a' = fst b"
    using rtable_computation_parts [OF assms(1)] .
  obtain en where en: "rtable_lookup (fst b) x = Some en" "dist en = 1"
    using rt_build_reaches(1) [OF b(1) assms(2,3)] by blast
  have ok: "entry_ok now (state_ptr a) x en"
    using rt_inv_entry [OF rt_build_inv [OF b(1)] en(1)] .
  then have "route en = []" using en(2) by (simp add: entry_ok_def)
  moreover have "next_addr en \<noteq> x"
    using nb_main_only [OF _ en(2) assms(4,5)] ok by (auto simp: entry_ok_def)
  ultimately show ?thesis
    using check_send_main [OF rt_build_inv [OF b(1)] en(1)] en(1) b(2)
    by (simp add: getRoute_def route_entry_def)
qed

lemma other_interface_unroutable_witness:
  "\<exists>a' f. rtable_computation demo_env 1 twin_agent = Inr a' \<and> getRoute demo_env a' (IPv4 2) = Inl f"
proof -
  have t: "tuples (linkset (state_ptr twin_agent)) = [demo_link (IPv4 7)]"
    "\<forall>u\<in>set (tuples (ifaceassocset (state_ptr twin_agent))). ia_iface_addr u \<noteq> IPv4 2"
    "mprset (state_ptr twin_agent) = {}"
    by (simp_all add: twin_agent_def)
  obtain a' where a': "rtable_computation demo_env 1 twin_agent = Inr a'"
    using rtable_computation_total [OF twin_live(1), of demo_env] demo_routing(6) t(3) by auto
  moreover have "\<exists>f. getRoute demo_env a' (IPv4 2) = Inl f"
    using other_interface_unroutable [OF a' twin_live _ t(2)] t(1) by (auto simp: demo_link_def)
  ultimately show ?thesis by blast
qed

section \<open>Receiving messages\<close>

text \<open>
  C28: a node handles every sequence of received messages whose lists fit the packet format: no
  assertion of a handler fails, and the invariant is kept.
\<close>

theorem messages_handled:
  assumes "env_ok e" and "agent_ok X a" and "\<forall>(now, ri, src, idx, msg)\<in>set rs. msg_sized msg"
  shows "\<exists>a'. foldE (receive e) rs a = Inr a' \<and> agent_ok X a'"
  using receive_all_total [OF assms(1,3)] receive_all_resends [OF _ assms(2)] by blast

lemma messages_handled_witness:
  "\<exists>a'. foldE (receive demo_env) demo_receptions demo_start = Inr a' \<and> agent_ok {} a'"
  using messages_handled [OF demo_env_ok(1) demo_start_ok(1) demo_receptions_sized] .

text \<open>
  C24: a TC from a symmetric link that is not older than what is known is learnt: afterwards all
  topology tuples of its originator carry its sequence number, each advertised address has a tuple
  of that originator which expires at the time the message says, and the tuples of other
  originators are those that were there.
\<close>

theorem tc_learned:
  assumes "olsr_state_ok (state_ptr a)" and "msg_type msg = OLSR_TC_MSG"
    and "find_sym_link_tuple (state_ptr a) src now \<noteq> None"
    and "find_newer_topology_tuple (state_ptr a) (orig_addr msg) (tc_ansn (msg_tc msg)) = None"
    and "length (nb_main_addrs (msg_tc msg)) \<le> OLSR_MAX_ADDRS"
  shows "\<exists>a'. process_tc now msg src idx a = Inr a' \<and>
    (\<forall>t\<in>set (tuples (topologyset (state_ptr a'))). t_last_addr t = orig_addr msg \<longrightarrow>
       t_seq t = tc_ansn (msg_tc msg)) \<and>
    (\<forall>d\<in>set (nb_main_addrs (msg_tc msg)). \<exists>t\<in>set (tuples (topologyset (state_ptr a'))).
       t_dest_addr t = d \<and> t_last_addr t = orig_addr msg \<and> t_time t = now + emf_to_seconds (vtime msg)) \<and>
    {t \<in> set (tuples (topologyset (state_ptr a'))). t_last_addr t \<noteq> orig_addr msg} =
    {t \<in> set (tuples (topologyset (state_ptr a))). t_last_addr t \<noteq> orig_addr msg}"
  using process_tc_learns [OF assms, of idx] by (smt (verit, best) Collect_cong)

lemma tc_learned_witness:
  "\<exists>a'. process_tc 1 demo_tc (IPv4 3) 0 demo_agent = Inr a' \<and>
     (\<exists>t\<in>set (tuples (topologyset (state_ptr a'))). t_dest_addr t = IPv4 8 \<and> t_last_addr t = IPv4 3)"
proof -
  have "find_newer_topology_tuple demo_state (IPv4 3) 4 = None"
    by (simp add: find_newer_topology_tuple_def find_ptr_None demo_topo_def)
  then show ?thesis
    using tc_learned [of demo_agent demo_tc "IPv4 3" 1 0] demo_sym_link demo_state_ok
    by (auto simp: demo_msgs olsr_limits)
qed

text \<open>
  Sequence numbers that wrap around are not followed: a TC whose number is newer than a known
  one in the circular order of RFC 3626, but smaller as a number, is dropped.
\<close>

theorem wrapped_tc_dropped:
  assumes "msg_type msg = OLSR_TC_MSG" and "t \<in> set (tuples (topologyset (state_ptr a)))"
    and "t_last_addr t = orig_addr msg" and "seq_num_bigger_than (tc_ansn (msg_tc msg)) (t_seq t)"
    and "tc_ansn (msg_tc msg) < t_seq t"
  shows "process_tc now msg src idx a = Inr a"
proof -
  have "find_newer_topology_tuple (state_ptr a) (orig_addr msg) (tc_ansn (msg_tc msg)) \<noteq> None"
    using assms(2,3,5) by (auto simp: find_newer_topology_tuple_def find_ptr_None simp del: not_None_eq)
  then show ?thesis using assms(1) by (simp add: process_tc_def)
qed

lemma wrapped_tc_dropped_witness:
  "process_tc 1 (demo_tc\<lparr>msg_tc := \<lparr>tc_ansn = 0, tc_reserved = 0, nb_main_addrs = [IPv4 8]\<rparr>\<rparr>) (IPv4 3) 0
     (demo_agent\<lparr>state_ptr := demo_state\<lparr>topologyset := pool_of [demo_topo (IPv4 6) (IPv4 3)\<lparr>t_seq := 65535\<rparr>]\<rparr>\<rparr>) =
   Inr (demo_agent\<lparr>state_ptr := demo_state\<lparr>topologyset := pool_of [demo_topo (IPv4 6) (IPv4 3)\<lparr>t_seq := 65535\<rparr>]\<rparr>\<rparr>)"
  by (rule wrapped_tc_dropped [where t = "demo_topo (IPv4 6) (IPv4 3)\<lparr>t_seq := 65535\<rparr>"])
    (simp_all add: demo_msgs demo_topo_def seq_num_bigger_than_def)

text \<open>
  The handshake.  When a HELLO lists the receiving interface, in a block that says the sender
  hears it, the link to the sender becomes symmetric at once, and so does the neighbour the sender's
  interface belongs to.
\<close>

theorem hello_confirms_link:
  assumes "olsr_state_ok (state_ptr a)" and "msg_type msg = OLSR_HELLO_MSG" and "hello_sized msg"
    and "lists_receiver ri msg" and "0 < now"
  shows "\<exists>a'. process_hello e now msg ri src idx a = Inr a' \<and>
    find_sym_link_tuple (state_ptr a') src now \<noteq> None \<and>
    sym_nb (state_ptr a') (get_main_addr (state_ptr a) src)"
  using process_hello_confirms [OF assms] .

lemma hello_confirms_link_witness:
  "\<exists>a'. process_hello demo_env 1 demo_hello (IPv4 1) (IPv4 9) 0 demo_start = Inr a' \<and>
     find_sym_link_tuple (state_ptr a') (IPv4 9) 1 \<noteq> None"
  using hello_confirms_link [OF agent_okD(2) [OF demo_start_ok(1)] demo_msgs(5,9,10) zero_less_one,
      where e = demo_env and src = "IPv4 9" and idx = 0] by blast

text \<open>
  C22: no message is forwarded twice.  Over any sequence of receptions (without expiring timers in
  between), the messages a node puts in
  its buffer for retransmission are pairwise different (by originator and sequence number), none of
  them had been retransmitted before, and all of them are marked as retransmitted afterwards.
\<close>

theorem forwarded_once:
  assumes "agent_ok X a" and "foldE (receive e) rs a = Inr a'"
  shows "\<exists>ms. msgs_of a' = msgs_of a @ ms \<and> distinct (map msg_key ms) \<and>
    (\<forall>m\<in>set ms. \<not> resent (state_ptr a) (msg_key m) \<and> resent (state_ptr a') (msg_key m))"
  using receive_all_resends [OF assms(2,1)] by blast

lemma forwarded_once_witness:
  "\<exists>a' ms. foldE (receive demo_env) demo_receptions demo_start = Inr a' \<and>
     msgs_of a' = msgs_of demo_start @ ms \<and> distinct (map msg_key ms)"
  using receive_all_total [OF demo_env_ok(1) demo_receptions_sized]
    forwarded_once [OF demo_start_ok(1)] by blast

text \<open>
  C25: the loss of a neighbour.  When the link layer or a timer reports a link as lost, while every
  symmetric neighbour has a live link, every node has one interface, the node is not a neighbour
  of itself and the tables of the other nodes list the nodes on their routes, the handler returns,
  the neighbour is not symmetric any more, no two-hop tuple names it as the relay and no MPR selector
  tuple names it, and no route has it as its first hop (it may still be visited later, along
  what other nodes announced).
\<close>

theorem lost_neighbour_unused:
  assumes "olsr_state_ok (state_ptr a)"
    and "link_status e now (deref (linkset (state_ptr a)) p) = OLSR_STATUS_NOT_SYM"
    and "single_iface (state_ptr a)" and "links_live now (state_ptr a)" and "others_listed e"
    and "\<not> sym_nb (state_ptr a) (ra_addr e)"
    and "main = l_nb_iface_addr (deref (linkset (state_ptr a)) p)"
  shows "\<exists>a'. nb_loss e now p a = Inr a' \<and> \<not> sym_nb (state_ptr a') main \<and>
    main \<notin> n2_nb_main_addr ` set (tuples (nb2hopset (state_ptr a'))) \<and>
    main \<notin> ms_main_addr ` set (tuples (mprselset (state_ptr a'))) \<and>
    (\<forall>d. \<not> (\<exists>en. rtable_lookup (rtable_of a') d = Some en \<and> next_addr en = main))"
proof -
  obtain a' where a': "nb_loss e now p a = Inr a'"
    using nb_loss_returns [OF assms(1,2,4-6)] by blast
  note f = nb_loss_forgets [OF assms(1) a' assms(2)]
  have m: "get_main_addr (state_ptr a) main = main" by (rule single_iface_main [OF assms(3)])
  have "main \<notin> n2_nb_main_addr ` set (tuples (nb2hopset (state_ptr a')))"
    "main \<notin> ms_main_addr ` set (tuples (mprselset (state_ptr a')))"
    using f(2,3) m unfolding assms(7) image_iff by force+
  then show ?thesis using a' f(1) f(4) [OF assms(3)] m unfolding assms(7) by auto
qed

lemma lost_neighbour_unused_witness:
  "\<exists>p a'. find_link_tuple demo_state (IPv4 2) = Some p \<and> nb_loss demo_env 0 p demo_agent = Inr a' \<and>
     \<not> sym_nb (state_ptr a') (IPv4 2)"
proof -
  have "find_link_tuple demo_state (IPv4 2) \<noteq> None"
    by (simp add: find_link_tuple_def find_ptr_None demo_link_def del: not_None_eq)
  then obtain p where p: "find_link_tuple demo_state (IPv4 2) = Some p" by blast
  then have d: "deref (linkset demo_state) p = demo_link (IPv4 2)"
    using find_ptr_SomeD(2,3) [of "\<lambda>t. l_nb_iface_addr t = IPv4 2" "linkset demo_state" p]
    by (auto simp: find_link_tuple_def demo_link_def)
  have demo_link_fields: "l_nb_iface_addr (demo_link x) = x" for x by (simp add: demo_link_def)
  have "link_status demo_env 0 (demo_link (IPv4 2)) = OLSR_STATUS_NOT_SYM"
    by (simp add: link_status_def demo_env_def demo_link_def)
  moreover have "links_live 0 demo_state"
    using demo_routing(1) by (fastforce simp: links_live_def live_link_def)
  moreover have "\<not> sym_nb demo_state (ra_addr demo_env)"
    by (simp add: sym_nb_def demo_nb_def demo_env_def)
  ultimately show ?thesis
    using lost_neighbour_unused [where a = demo_agent and e = demo_env and now = 0 and p = p]
      p demo_state_ok demo_routing(2,6) by (auto simp: d demo_link_fields)
qed

section \<open>Stopping\<close>

text \<open>
  Stopping a node leaves nothing behind: no timer, no self message, no buffered message, no
  route, and no tuple but those of neighbours and interfaces.
\<close>

theorem shutdown_empties:
  assumes "agent_ok {} a"
  shows "timerQueue (handleNodeShutdown a) = [] \<and> timerMessage (handleNodeShutdown a) = None \<and>
    msgs_of (handleNodeShutdown a) = [] \<and> rtable_of (handleNodeShutdown a) = [] \<and>
    tuples (linkset (state_ptr (handleNodeShutdown a))) = [] \<and>
    tuples (nb2hopset (state_ptr (handleNodeShutdown a))) = [] \<and>
    tuples (topologyset (state_ptr (handleNodeShutdown a))) = [] \<and>
    tuples (mprselset (state_ptr (handleNodeShutdown a))) = [] \<and>
    tuples (dupset (state_ptr (handleNodeShutdown a))) = []"
proof -
  let ?a = "a\<lparr>rtable_of := rtable_clear (rtable_of a), msgs_of := [], timerMessage := None\<rparr>"
  have "state_inv (jobs ?a) (state_ptr ?a)" "tq_ok (timerQueue ?a)"
    using assms by (simp_all add: agent_ok_def jobs_def)
  from drain_queue_ok [OF this] have "rtable_of (handleNodeShutdown a) = []"
    by (simp add: handleNodeShutdown_def rtable_clear_def)
  then show ?thesis
    using shutdown_stopped [OF assms] stopped_empty [OF shutdown_stopped [OF assms]]
    by (simp add: stopped_def)
qed

lemma shutdown_empties_witness: "timerQueue (handleNodeShutdown demo_start) = []"
  using shutdown_empties [OF demo_start_ok(1)] by blast

text \<open>
  The copy constructor of the routing table copies nothing: whatever the table holds, the copy
  is empty.
\<close>

theorem rtable_copy_empty: "rtable_size (OLSR_rtable_copy rt) = 0"
  by (simp add: OLSR_rtable_copy_def iter_range_def rtable_size_def rtable_empty_def)

text \<open>
  The routing table is a finite map.  With the lookup as abstraction, adding an entry is an
  update of the map at the destination, removing one deletes it, clearing leaves the empty map, and
  the size is the number of destinations.
\<close>

theorem rtable_refines_map:
  assumes "rtable_ok rt"
  shows "rtable_ok (add_entry d nx ifa n x rt) \<and> rtable_ok (rm_entry d rt) \<and>
    rtable_lookup (add_entry d nx ifa n x rt) = (rtable_lookup rt)(d \<mapsto>
      \<lparr>dest_addr = d, next_addr = nx, iface_addr = ifa, dist = n, quality = -1, delay = -1,
       rt_index = x, route = (if n = 2 then [nx] else [])\<rparr>) \<and>
    rtable_lookup (rm_entry d rt) = (rtable_lookup rt)(d := None) \<and>
    rtable_lookup (rtable_clear rt) = Map.empty \<and> rtable_size rt = card (dom (rtable_lookup rt))"
proof -
  have "card (dom (rtable_lookup rt)) = card (set (map fst rt))"
    by (simp add: rtable_lookup_def [abs_def] dom_map_of_conv_image_fst)
  also have "\<dots> = rtable_size rt"
    using rtable_ok_distinct [OF assms] by (simp add: distinct_card rtable_size_def del: set_map)
  finally show ?thesis
    using assms by (auto simp: lookup_add_entry fun_eq_iff rtable_clear_def)
qed

lemma rtable_refines_map_witness:
  "rtable_lookup (add_entry (IPv4 2) (IPv4 2) (IPv4 1) 1 0 []) (IPv4 2) \<noteq> None"
  using rtable_refines_map [of "[]" "IPv4 2" "IPv4 2" "IPv4 1" 1 0] by simp

text \<open>
  An appointment that is made anew replaces the one that was there, and leaves the queue in
  order and all other appointments as they are.
\<close>

theorem resched_replaces:
  assumes "tq_ok q"
  shows "tq_ok (resched now time t q) \<and>
    set (resched now time t q) = insert (now + time, t) {p \<in> set q. snd p \<noteq> t}"
  using assms by (simp add: resched_move tq.wf_move tq.set_move)

lemma resched_replaces_witness:
  "set (resched 1 3 TcTimer [(2, HelloTimer), (2, TcTimer)]) = {(4, TcTimer), (2, HelloTimer)}"
proof -
  let ?q = "[(2 :: simtime, HelloTimer), (2, TcTimer)]"
  have "set (filter (\<lambda>p. snd p \<noteq> TcTimer) ?q) = {(2, HelloTimer)}" by simp
  moreover have "tq_ok ?q" by (simp add: tq_ok_def)
  from resched_replaces [OF this, of 1 3 TcTimer]
  have "set (resched 1 3 TcTimer ?q) = insert (1 + 3, TcTimer) (set (filter (\<lambda>p. snd p \<noteq> TcTimer) ?q))"
    unfolding set_filter by (rule conjunct2)
  ultimately show ?thesis by simp
qed

section \<open>Sending\<close>

lemma demo_hello_types:
  "get_main_addr demo_state x = x" "hello_link_type demo_env 1 (demo_link x) = OLSR_SYM_LINK"
  "hello_nb_type demo_state (demo_link (IPv4 2)) = Inr (Some OLSR_SYM_NEIGH)"
  "hello_nb_type demo_state (demo_link (IPv4 3)) = Inr (Some OLSR_MPR_NEIGH)"
proof -
  show m: "get_main_addr demo_state x = x" for x by (rule single_iface_main [OF demo_routing(2)])
  show "hello_link_type demo_env 1 (demo_link x) = OLSR_SYM_LINK"
    by (simp add: hello_link_type_def demo_env_def demo_link_def)
  have "find_mpr_addr demo_state x \<longleftrightarrow> x = IPv4 3" for x by (simp add: find_mpr_addr_def demo_state_def)
  then show "hello_nb_type demo_state (demo_link (IPv4 2)) = Inr (Some OLSR_SYM_NEIGH)"
    "hello_nb_type demo_state (demo_link (IPv4 3)) = Inr (Some OLSR_MPR_NEIGH)"
    by (simp_all add: hello_nb_type_def m demo_link_def demo_nb_def)
qed

lemma demo_hello_blocks: "\<exists>body. hello_blocks demo_env 1 demo_state = Inr body"
proof -
  have f: "l_local_iface_addr (demo_link x) = IPv4 1" "l_nb_iface_addr (demo_link x) = x"
    "l_time (demo_link x) = 16" "ra_addr demo_env = IPv4 1" "addr_size demo_env = 4" for x
    by (simp_all add: demo_link_def demo_env_def)
  have s: "send_hello_step demo_env 1 demo_state acc (demo_link x) = bindE (hello_nb_type demo_state (demo_link x))
      (\<lambda>nt. case nt of None \<Rightarrow> Inr acc
        | Some n \<Rightarrow> hello_add_addr 4 (make_link_code OLSR_SYM_LINK n) x acc)" for acc x
    by (simp add: send_hello_step_def demo_hello_types f cong: option.case_cong)
  have c: "make_link_code OLSR_SYM_LINK OLSR_SYM_NEIGH = 6" "make_link_code OLSR_SYM_LINK OLSR_MPR_NEIGH = 10"
    by (simp_all add: make_link_code_def olsr_link_types olsr_neigh_types)
  show ?thesis
    by (simp add: hello_blocks_def s demo_hello_types c hello_add_addr_def olsr_limits Let_def)
qed

text \<open>
  C30: the content of a HELLO.  When the blocks of a HELLO can be built, they advertise exactly the
  reported links, each once under its link code; no code has two blocks, and the sizes fit.
\<close>

theorem hello_reports_links:
  assumes "hello_blocks e now st = Inr body"
  shows "advertised body = sum_list (map (reported e now st) (tuples (linkset st))) \<and>
    distinct (map link_code body) \<and> length body \<le> OLSR_MAX_HELLOS \<and>
    (\<forall>m\<in>set body. length (nb_iface_addrs m) \<le> OLSR_MAX_ADDRS)"
  using hello_blocks_report [OF assms] .

lemma hello_reports_links_witness:
  "\<exists>body. hello_blocks demo_env 1 demo_state = Inr body \<and> distinct (map link_code body)"
  using demo_hello_blocks hello_reports_links by blast

text \<open>
  Link codes are read as they were written: the receiver finds the link type and the
  neighbour type the sender put in.
\<close>

theorem link_code_roundtrip:
  assumes "lt < 4" and "nt < 4"
  shows "link_type \<lparr>link_code = make_link_code lt nt, hm_reserved = r, link_msg_size = z, nb_iface_addrs = xs\<rparr> = lt \<and>
    nb_type \<lparr>link_code = make_link_code lt nt, hm_reserved = r, link_msg_size = z, nb_iface_addrs = xs\<rparr> = nt"
  using link_code_reads [OF assms] by (simp add: link_type_def nb_type_def)

lemma link_code_roundtrip_witness:
  "nb_type \<lparr>link_code = make_link_code 2 1, hm_reserved = 0, link_msg_size = 0, nb_iface_addrs = []\<rparr> = 1"
  using link_code_roundtrip [of 2 1] by simp

text \<open>
  C23: the handshake between two nodes.  A node that hears another one (an asymmetric link, or a
  symmetric one to a known neighbour) says so in its HELLO; the other node, on receiving this HELLO,
  has a symmetric link back to it.
\<close>

theorem hello_exchange:
  assumes "olsr_state_ok (state_ptr a)" and "send_hello ea now a = Inr a'"
    and "l \<in> set (tuples (linkset (state_ptr a)))" and "l_nb_iface_addr l = ri"
    and "get_main_addr (state_ptr a) (l_local_iface_addr l) = ra_addr ea" and "l_time l \<ge> now"
    and "hello_nb_type (state_ptr a) l = Inr (Some n)"
    and "hello_link_type ea now l = OLSR_ASYM_LINK \<or>
      hello_link_type ea now l = OLSR_SYM_LINK \<and> n \<noteq> OLSR_NOT_NEIGH"
    and "olsr_state_ok (state_ptr b)" and "0 < now'"
  shows "\<exists>b'. process_hello eb now' (last (msgs_of a')) ri src idx b = Inr b' \<and>
    find_sym_link_tuple (state_ptr b') src now' \<noteq> None"
  using hello_lists_receiver [OF assms(1-8)] process_hello_confirms [OF assms(9) _ _ _ assms(10)] by blast

lemma hello_exchange_witness:
  "\<exists>a' b'. send_hello demo_env 1 demo_agent = Inr a' \<and>
     process_hello demo_env 1 (last (msgs_of a')) (IPv4 2) (IPv4 1) 0 demo_start = Inr b' \<and>
     find_sym_link_tuple (state_ptr b') (IPv4 1) 1 \<noteq> None"
proof -
  obtain body where "hello_blocks demo_env 1 demo_state = Inr body" using demo_hello_blocks by blast
  then obtain a' where a': "send_hello demo_env 1 demo_agent = Inr a'"
    by (simp add: send_hello_def next_msg_seq_def enque_jittered_def jitter_def enque_msg_def)
      (simp add: demo_env_def OLSR_MAXJITTER_def)
  have "demo_link (IPv4 2) \<in> set (tuples (linkset demo_state))" by simp
  from hello_exchange [OF _ a' this [folded demo_state_agent], where ri = "IPv4 2" and n = OLSR_SYM_NEIGH
      and b = demo_start and now' = 1 and eb = demo_env and src = "IPv4 1" and idx = 0]
  show ?thesis
    using a' demo_state_ok agent_okD(2) [OF demo_start_ok(1)] demo_hello_types
    by (fastforce simp: olsr_neigh_types demo_link_def demo_env_def)
qed

text \<open>
  C31: a call of \<open>send_pkt\<close> empties the buffer into packets: the packets hold all buffered messages
  in their order, at most \<open>OLSR_MAX_MSGS\<close> (four) each, in as few packets as that allows, and their sequence numbers follow
  the last one used, modulo \<open>2 ^ 16\<close>.
\<close>

theorem send_pkt_packets:
  "\<exists>ps. sent (send_pkt e a) = sent a @ ps \<and> concat (map pkt_msgs ps) = msgs_of a \<and>
    list_all (\<lambda>p. length (pkt_msgs p) \<le> OLSR_MAX_MSGS) ps \<and>
    length ps = (length (msgs_of a) + 3) div 4 \<and>
    map pkt_seq_num ps = map (\<lambda>i. pkt_seq_of a + of_nat (Suc i)) [0..<length ps] \<and>
    msgs_of (send_pkt e a) = []"
proof (cases "msgs_of a = []")
  case True
  then show ?thesis by (intro exI [of _ "[]"]) (simp add: send_pkt_turns)
next
  case False
  have "take ((length (msgs_of a) + 3) div 4 * OLSR_MAX_MSGS) (msgs_of a) = msgs_of a"
    by (rule take_all) (simp add: OLSR_MAX_MSGS_def)
  then show ?thesis
    using send_pkts_sent [of e "(length (msgs_of a) + 3) div 4" a] False send_pkt_turns [of e a]
    by (auto simp: list_all_iff)
qed

end
